(* ===== verification/Prelude.thy ===== *)
theory Prelude
  imports Main "HOL-Library.List_Lexorder" "HOL-Library.Char_ord" "HOL-Library.Option_ord"
    "HOL-Library.Product_Lexorder" "HOL-Library.Multiset"
begin

text \<open>
  Shared vocabulary of the development: the model of Rust results (\<open>Inl\<close> is \<open>Err\<close>, \<open>Inr\<close> is
  \<open>Ok\<close>) with the \<open>?\<close> operator and the collecting of a vector of results, first-minimum
  selection (\<open>Iterator::min_by\<close>), order-preserving grouping, and the functions of Rust's
  \<open>str\<close> that the program uses.

  A Rust string is the list of its Unicode scalar values; a HOL \<open>char\<close> stands for a scalar
  value up to \<open>U+00FF\<close>. The order of \<open>String\<close> (bytewise over UTF-8) is the lexicographic
  order of the scalar values, which is what \<open>List_Lexorder\<close> over \<open>Char_ord\<close> gives. Tuples
  and options are ordered as Rust orders them (\<open>Product_Lexorder\<close>, and \<open>None\<close> below every
  \<open>Some\<close> by \<open>Option_ord\<close>). \<open>i64\<close> values that are only compared are \<open>int\<close>.
\<close>

named_theorems store_simps \<open>how each store operation changes each table\<close>
named_theorems wf_intros \<open>preservation of the store invariant\<close>

section \<open>Results\<close>

text \<open>The \<open>?\<close> operator: stop at the first error.\<close>

definition and_then :: "'e + 'a \<Rightarrow> ('a \<Rightarrow> 'e + 'b) \<Rightarrow> 'e + 'b" where
  "and_then r f = (case r of Inl e \<Rightarrow> Inl e | Inr x \<Rightarrow> f x)"

lemma and_then_simps [simp]:
  "and_then (Inl e) f = Inl e"
  "and_then (Inr x) f = f x"
  by (simp_all add: and_then_def)

lemma and_then_eq_Inr: "and_then r f = Inr y \<longleftrightarrow> (\<exists>x. r = Inr x \<and> f x = Inr y)"
  by (cases r) auto

lemma and_then_eq_Inl: "and_then r f = Inl e \<longleftrightarrow> r = Inl e \<or> (\<exists>x. r = Inr x \<and> f x = Inl e)"
  by (cases r) auto

text \<open>\<open>collect::<Result<Vec<_>, _>>()\<close>.\<close>

fun collect :: "('e + 'a) list \<Rightarrow> 'e + 'a list" where
  "collect [] = Inr []"
| "collect (r # rs) = and_then r (\<lambda>x. and_then (collect rs) (\<lambda>xs. Inr (x # xs)))"

lemma collect_map_Inr [simp]: "collect (map (\<lambda>x. Inr (f x)) xs) = Inr (map f xs)"
  by (induction xs) auto

lemma collect_map_cong:
  "(\<And>x. x \<in> set xs \<Longrightarrow> g x = Inr (f x)) \<Longrightarrow> collect (map g xs) = Inr (map f xs)"
  by (induction xs) auto

text \<open>A loop over a list whose body may fail: the state threads through, the first error stops.\<close>

fun try_fold :: "('a \<Rightarrow> 's \<Rightarrow> 'e + 's) \<Rightarrow> 'a list \<Rightarrow> 's \<Rightarrow> 'e + 's" where
  "try_fold f [] s = Inr s"
| "try_fold f (x # xs) s = and_then (f x s) (try_fold f xs)"

lemma try_fold_append:
  "try_fold f (xs @ ys) s = and_then (try_fold f xs s) (try_fold f ys)"
  by (induction xs arbitrary: s) (auto simp: and_then_def split: sum.splits)

lemma try_fold_invariant:
  assumes "P s" and "try_fold f xs s = Inr t"
    and "\<And>x u v. x \<in> set xs \<Longrightarrow> P u \<Longrightarrow> f x u = Inr v \<Longrightarrow> P v"
  shows "P t"
  using assms
proof (induction xs arbitrary: s)
  case Nil
  then show ?case by simp
next
  case (Cons x xs)
  from Cons.prems(2) obtain u where u: "f x s = Inr u" "try_fold f xs u = Inr t"
    by (auto simp: and_then_eq_Inr)
  have "P u" by (rule Cons.prems(3) [OF _ Cons.prems(1) u(1)]) simp
  then show ?case
    by (rule Cons.IH) (use u(2) Cons.prems(3) in auto)
qed

section \<open>Selection and grouping\<close>

text \<open>\<open>Iterator::min_by\<close> and \<open>min_by_key\<close>: among equal minima the first one is returned.\<close>

fun min_by :: "('a \<Rightarrow> 'k::linorder) \<Rightarrow> 'a list \<Rightarrow> 'a option" where
  "min_by f [] = None"
| "min_by f (x # xs) =
     (case min_by f xs of None \<Rightarrow> Some x | Some y \<Rightarrow> if f y < f x then Some y else Some x)"

lemma min_by_None [simp]: "min_by f xs = None \<longleftrightarrow> xs = []"
  by (induction xs) (auto split: option.splits)

lemma min_by_Some:
  "min_by f xs = Some y \<Longrightarrow> y \<in> set xs \<and> (\<forall>x \<in> set xs. f y \<le> f x)"
proof (induction xs arbitrary: y)
  case Nil
  then show ?case by simp
next
  case (Cons a xs)
  show ?case
  proof (cases "min_by f xs")
    case None
    with Cons.prems show ?thesis by simp
  next
    case (Some z)
    with Cons.IH have z: "z \<in> set xs" "\<forall>x \<in> set xs. f z \<le> f x" by auto
    with Some Cons.prems show ?thesis by (force split: if_splits)
  qed
qed

lemma min_by_exists: "xs \<noteq> [] \<Longrightarrow> \<exists>y. min_by f xs = Some y"
  by (metis min_by_None not_None_eq)

lemma min_by_snoc:
  "min_by f (xs @ [x]) =
     (case min_by f xs of None \<Rightarrow> Some x | Some y \<Rightarrow> if f x < f y then Some x else Some y)"
  by (induction xs) (auto split: option.splits)

lemma min_by_key_eq:
  assumes "min_by f xs = Some x" and "min_by f ys = Some y" and "set xs = set ys"
  shows "f x = f y"
proof -
  from min_by_Some [OF assms(1)] min_by_Some [OF assms(2)] assms(3)
  have "f x \<le> f y" "f y \<le> f x" by auto
  then show ?thesis by simp
qed

text \<open>
  The index of the first minimum (\<open>enumerate().min_by(..).map(|(i, _)| i)\<close>): \<open>None\<close> on the
  empty list.
\<close>

definition min_index :: "('a \<Rightarrow> 'k::linorder) \<Rightarrow> 'a list \<Rightarrow> nat option" where
  "min_index f xs = map_option fst (min_by (\<lambda>(i, x). f x) (enumerate 0 xs))"

lemma min_index_None [simp]: "min_index f xs = None \<longleftrightarrow> xs = []"
  by (cases xs) (auto simp: min_index_def split: option.splits if_splits)

lemma min_index_Some:
  assumes "min_index f xs = Some i"
  shows "i < length xs" and "\<forall>x \<in> set xs. f (xs ! i) \<le> f x"
proof -
  from assms obtain x where x: "min_by (\<lambda>(i, x). f x) (enumerate 0 xs) = Some (i, x)"
    by (auto simp: min_index_def)
  note m = min_by_Some [OF x]
  from m show i: "i < length xs" by (auto simp: in_set_enumerate_eq)
  from m have "xs ! i = x" by (auto simp: in_set_enumerate_eq)
  moreover have "f x \<le> f y" if "y \<in> set xs" for y
  proof -
    from that obtain j where "j < length xs" "xs ! j = y" by (auto simp: in_set_conv_nth)
    then have "(j, y) \<in> set (enumerate 0 xs)" by (auto simp: in_set_enumerate_eq)
    with m show ?thesis by fastforce
  qed
  ultimately show "\<forall>x \<in> set xs. f (xs ! i) \<le> f x" by simp
qed

text \<open>\<open>Vec::swap_remove\<close>: take element \<open>i\<close> out, the last element moves into its place.\<close>

definition swap_remove :: "'a list \<Rightarrow> nat \<Rightarrow> 'a list" where
  "swap_remove xs i =
     (if Suc i = length xs then butlast xs else butlast (xs[i := last xs]))"

lemma mset_swap_remove:
  assumes "i < length xs"
  shows "mset xs = add_mset (xs ! i) (mset (swap_remove xs i))"
proof (cases "Suc i = length xs")
  case True
  then have "xs \<noteq> []" by auto
  moreover from True have "i = length xs - 1" by simp
  ultimately have "xs \<noteq> []" and l: "xs ! i = last xs"
    by (simp_all add: last_conv_nth)
  then have "mset xs = mset (butlast xs @ [last xs])" by simp
  with True l show ?thesis by (simp add: swap_remove_def)
next
  case False
  with assms obtain ys z where xs: "xs = ys @ [z]" and i: "i < length ys"
    by (cases xs rule: rev_cases) auto
  have "mset (ys[i := z]) = add_mset z (mset ys - {#ys ! i#})"
    using i by (simp add: mset_update)
  moreover have "ys ! i \<in># mset ys" using i by simp
  ultimately show ?thesis using False xs i
    by (simp add: swap_remove_def list_update_append nth_append)
qed

text \<open>The distinct elements of a list in the order of their first occurrence.\<close>

fun first_occs :: "'a list \<Rightarrow> 'a list" where
  "first_occs [] = []"
| "first_occs (x # xs) = x # filter (\<lambda>y. y \<noteq> x) (first_occs xs)"

lemma set_first_occs [simp]: "set (first_occs xs) = set xs"
  by (induction xs) auto

lemma distinct_first_occs [simp]: "distinct (first_occs xs)"
  by (induction xs) auto

lemma first_occs_snoc:
  "first_occs (xs @ [x]) = (if x \<in> set xs then first_occs xs else first_occs xs @ [x])"
  by (induction xs) auto

lemma first_occs_distinct: "distinct xs \<Longrightarrow> first_occs xs = xs"
  by (induction xs) (auto simp: filter_id_conv)

section \<open>Sorted, duplicate-free vectors\<close>

text \<open>\<open>sort(); dedup()\<close> after an \<open>extend\<close>.\<close>

definition sort_dedup :: "'a::linorder list \<Rightarrow> 'a list" where
  "sort_dedup xs = remdups_adj (sort xs)"

lemma set_sort_dedup [simp]: "set (sort_dedup xs) = set xs"
  by (simp add: sort_dedup_def)

lemma sorted_distinct_adj: "sorted xs \<Longrightarrow> distinct (remdups_adj xs)"
proof (induction xs rule: remdups_adj.induct)
  case (3 x y xs)
  then show ?case by (cases "x = y") fastforce+
qed auto

lemma sort_dedup_canonical: "sort_dedup xs = sorted_list_of_set (set xs)"
proof -
  have "sorted (sort_dedup xs)" by (simp add: sort_dedup_def sorted_remdups_adj)
  moreover have "distinct (sort_dedup xs)"
    by (simp add: sort_dedup_def sorted_distinct_adj)
  ultimately show ?thesis
    by (metis set_sort_dedup sorted_list_of_set.idem_if_sorted_distinct)
qed

lemma sort_dedup_cong: "set xs = set ys \<Longrightarrow> sort_dedup xs = sort_dedup ys"
  by (simp add: sort_dedup_canonical)

lemma insort_key_map: "insort_key f (g x) (map g xs) = map g (insort_key (\<lambda>x. f (g x)) x xs)"
  by (induction xs) auto

lemma sort_key_map: "sort_key f (map g xs) = map g (sort_key (\<lambda>x. f (g x)) xs)"
  by (induction xs) (simp_all add: insort_key_map)

end
