(* ===== verification/Identity.thy ===== *)
theory Identity
  imports Rust_Str
begin

text \<open>
  What identifies a memory entry: the kind vocabulary (\<open>storage/note_kind.rs\<close>), the
  content-addressed \<open>entity_id\<close> (\<open>storage/entity_id.rs\<close>), the minted UUIDv7 and the opaque
  \<open>NoteId\<close> token (\<open>storage/memory/uuid_v7.rs\<close>, \<open>note_id.rs\<close>), and the origin of an entry
  (\<open>storage/origin.rs\<close>, \<open>config/caller.rs\<close>).

  Third-party code is a parameter: \<open>env\<close> collects serde_json's encoding of one string, SHA-256
  in lowercase hex, the textual form of \<open>uuid::Builder::from_unix_timestamp_millis\<close>, Unicode NFC
  and lowercasing of one character, and what git and the file system say about a path.
\<close>

section \<open>The world outside the program\<close>

record env =
  json_str :: "string \<Rightarrow> string"
  sha256_hex :: "string \<Rightarrow> string"
  uuid_build :: "nat \<Rightarrow> string \<Rightarrow> string"
  nfc :: "string \<Rightarrow> string"
  to_lowercase :: "char \<Rightarrow> string"
  git_tracked :: "string \<Rightarrow> string \<Rightarrow> bool"
  path_exists :: "string \<Rightarrow> string \<Rightarrow> bool"

section \<open>Kinds\<close>

definition NOTE_KINDS :: "string list" where
  "NOTE_KINDS = [''decision'', ''context'', ''requirement'', ''note'', ''question'', ''answer'',
     ''handoff'', ''intent'', ''antipattern'']"

definition is_valid_note_kind :: "string \<Rightarrow> bool" where
  "is_valid_note_kind kind = List.member NOTE_KINDS kind"

text \<open>The error message is the offending value with the list of valid kinds it prints.\<close>

definition parse_note_kind :: "string \<Rightarrow> (string \<times> string) + string" where
  "parse_note_kind kind =
     (if is_valid_note_kind kind then Inr kind else Inl (kind, join '', '' NOTE_KINDS))"

section \<open>The content-addressed identity\<close>

text \<open>
  The canonical JSON of \<open>{body, kind, title}\<close>: keys in \<open>BTreeMap\<close> order, compact separators.
\<close>

definition canonical_bytes :: "env \<Rightarrow> string \<Rightarrow> string \<Rightarrow> string \<Rightarrow> string" where
  "canonical_bytes E kind title body =
     ''{'' @ json_str E ''body'' @ '':'' @ json_str E body @ '','' @
     json_str E ''kind'' @ '':'' @ json_str E kind @ '','' @
     json_str E ''title'' @ '':'' @ json_str E title @ ''}''"

definition entity_id :: "env \<Rightarrow> string \<Rightarrow> string \<Rightarrow> string \<Rightarrow> string" where
  "entity_id E kind title body = sha256_hex E (canonical_bytes E kind title body)"

definition ENTITY_ID_HANDLE_LEN :: nat where "ENTITY_ID_HANDLE_LEN = 12"
definition SHA256_HEX_LEN :: nat where "SHA256_HEX_LEN = 64"
definition ENTITY_ID_MIN_PREFIX_LEN :: nat where "ENTITY_ID_MIN_PREFIX_LEN = 8"

definition entity_id_handle :: "string \<Rightarrow> string" where
  "entity_id_handle eid = take (min (length eid) ENTITY_ID_HANDLE_LEN) eid"

definition is_entity_id_lookup :: "string \<Rightarrow> bool" where
  "is_entity_id_lookup token =
     (ENTITY_ID_MIN_PREFIX_LEN \<le> length token \<and> length token \<le> SHA256_HEX_LEN \<and>
      list_all (\<lambda>c. is_ascii_digit c \<or> is_hex_letter c) token)"

section \<open>Minting and parsing ids\<close>

definition i64_max :: int where "i64_max = 9223372036854775807"

text \<open>\<open>created_at.max(0).saturating_mul(1_000) as u64\<close>.\<close>

definition uuid_millis :: "int \<Rightarrow> nat" where
  "uuid_millis created_at = nat (min (max created_at 0 * 1000) i64_max)"

text \<open>Ten of the sixteen bytes of a random UUIDv4, skipping its version and variant bytes.\<close>

definition random_tail :: "string \<Rightarrow> string" where
  "random_tail entropy = take 6 entropy @ take 4 (drop 9 entropy)"

definition uuid_v7_at :: "env \<Rightarrow> int \<Rightarrow> string \<Rightarrow> string" where
  "uuid_v7_at E created_at entropy = uuid_build E (uuid_millis created_at) (random_tail entropy)"

type_synonym note_id = string

datatype id_error = EmptyId

definition note_id_from_str :: "string \<Rightarrow> id_error + note_id" where
  "note_id_from_str s = (if s = [] then Inl EmptyId else Inr s)"

lemma note_id_from_str_Inr [simp]: "note_id_from_str s = Inr t \<longleftrightarrow> s \<noteq> [] \<and> t = s"
  by (auto simp: note_id_from_str_def)

section \<open>Origin\<close>

datatype actor_kind = Human | Agent | Harvest | Unknown

definition actor_kind_parse :: "string \<Rightarrow> actor_kind option" where
  "actor_kind_parse s =
     (let t = trim s in
      if t = ''human'' then Some Human
      else if t = ''agent'' then Some Agent
      else if t = ''harvest'' then Some Harvest
      else if t = ''unknown'' then Some Unknown
      else None)"

definition actor_kind_parse_declared :: "string \<Rightarrow> actor_kind option" where
  "actor_kind_parse_declared s =
     (let t = trim s in
      if t = ''human'' then Some Human else if t = ''agent'' then Some Agent else None)"

fun actor_kind_as_str :: "actor_kind \<Rightarrow> string" where
  "actor_kind_as_str Human = ''human''"
| "actor_kind_as_str Agent = ''agent''"
| "actor_kind_as_str Harvest = ''harvest''"
| "actor_kind_as_str Unknown = ''unknown''"

record origin =
  actor_kind :: actor_kind
  tool :: "string option"
  model :: "string option"

text \<open>The part of a \<open>CallerDeclaration\<close> an origin is made of.\<close>

record caller_declaration =
  decl_actor :: actor_kind
  decl_tool :: "string option"
  decl_model :: "string option"

definition origin_from_caller :: "caller_declaration \<Rightarrow> origin option" where
  "origin_from_caller d =
     (if decl_actor d = Unknown then None
      else Some \<lparr>actor_kind = decl_actor d, tool = decl_tool d, model = decl_model d\<rparr>)"

definition origin_harvest :: "string option \<Rightarrow> origin" where
  "origin_harvest m = \<lparr>actor_kind = Harvest, tool = None, model = m\<rparr>"

definition origin_from_parts ::
    "string option \<Rightarrow> string option \<Rightarrow> string option \<Rightarrow> origin option" where
  "origin_from_parts ak t m =
     (case ak of None \<Rightarrow> None
      | Some s \<Rightarrow>
         (case actor_kind_parse s of None \<Rightarrow> None
          | Some k \<Rightarrow> Some \<lparr>actor_kind = k, tool = t, model = m\<rparr>))"

lemma actor_kind_parse_as_str [simp]: "actor_kind_parse (actor_kind_as_str k) = Some k"
  by (cases k; hypsubst; code_simp)

lemma origin_from_parts_as_str [simp]:
  "origin_from_parts (Some (actor_kind_as_str (actor_kind q))) (tool q) (model q) = Some q"
  by (simp add: origin_from_parts_def)

text \<open>A declaration never makes a harvest: the declared parser refuses the word.\<close>

lemma parse_declared_not_harvest: "actor_kind_parse_declared s \<noteq> Some Harvest"
  by (simp add: actor_kind_parse_declared_def Let_def)

section \<open>Facts\<close>

lemma parse_note_kind_Inr: "parse_note_kind k = Inr k' \<longleftrightarrow> k' = k \<and> k \<in> set NOTE_KINDS"
  by (auto simp: parse_note_kind_def is_valid_note_kind_def)

lemma uuid_millis_mono: "a \<le> b \<Longrightarrow> uuid_millis a \<le> uuid_millis b"
  by (auto simp: uuid_millis_def)

lemma uuid_millis_bound: "int (uuid_millis a) \<le> i64_max"
  by (auto simp: uuid_millis_def i64_max_def)

text \<open>
  A token with a hyphen, which every UUID has, is never taken for an \<open>entity_id\<close>, and the handle
  of a full-length identity always is.
\<close>

lemma lookup_token_no_hyphen: "is_entity_id_lookup t \<Longrightarrow> CHR ''-'' \<notin> set t"
  by (auto simp: is_entity_id_lookup_def list_all_iff is_ascii_digit_def is_hex_letter_def Let_def)

lemma handle_is_lookup:
  assumes "is_entity_id_lookup t" and "12 \<le> length t"
  shows "is_entity_id_lookup (entity_id_handle t)"
  using assms
  by (auto simp: is_entity_id_lookup_def entity_id_handle_def ENTITY_ID_HANDLE_LEN_def
      ENTITY_ID_MIN_PREFIX_LEN_def SHA256_HEX_LEN_def list_all_iff dest: in_set_takeD)

section \<open>A concrete world\<close>

text \<open>
  A concrete instance of the parameters, at which the witnesses of the development evaluate:
  strings are quoted as they are, the digest is the text itself, a UUID is its random tail.
\<close>

definition demo_env :: env where
  "demo_env = \<lparr>json_str = (\<lambda>s. [CHR 0x22] @ s @ [CHR 0x22]), sha256_hex = (\<lambda>s. s),
     uuid_build = (\<lambda>m tail. ''u'' @ tail), nfc = (\<lambda>s. s),
     to_lowercase = (\<lambda>c. [ascii_lower c]),
     git_tracked = (\<lambda>root p. p = ''a.rs''), path_exists = (\<lambda>root p. p = ''b.rs'')\<rparr>"

end
