(* ===== verification/Note_Record.thy ===== *)
theory Note_Record
  imports Identity
begin

text \<open>
  The serialised form of a memory entry on the git-notes carrier (\<open>storage/note_record.rs\<close>): one
  line of the append-only log, its identity, and the entry a reader makes of it. The rendering
  of an integer id as a decimal token is \<open>carrier_token\<close>.
\<close>

section \<open>Records and notes\<close>

text \<open>\<open>CarriedEdge\<close> derives its order: by kind, then by target.\<close>

datatype carried_edge = CarriedEdge (edge_kind: string) (edge_to: string)

instantiation carried_edge :: linorder
begin

definition less_eq_carried_edge :: "carried_edge \<Rightarrow> carried_edge \<Rightarrow> bool" where
  "less_eq_carried_edge a b \<longleftrightarrow> (edge_kind a, edge_to a) \<le> (edge_kind b, edge_to b)"

definition less_carried_edge :: "carried_edge \<Rightarrow> carried_edge \<Rightarrow> bool" where
  "less_carried_edge a b \<longleftrightarrow> (edge_kind a, edge_to a) < (edge_kind b, edge_to b)"

instance
proof
  fix a b c :: carried_edge
  show "a < b \<longleftrightarrow> a \<le> b \<and> \<not> b \<le> a"
    by (auto simp: less_eq_carried_edge_def less_carried_edge_def)
  show "a \<le> a" by (simp add: less_eq_carried_edge_def)
  show "a \<le> b \<Longrightarrow> b \<le> c \<Longrightarrow> a \<le> c"
    unfolding less_eq_carried_edge_def by (rule order_trans)
  show "a \<le> b \<Longrightarrow> b \<le> a \<Longrightarrow> a = b"
    unfolding less_eq_carried_edge_def
    by (metis antisym carried_edge.expand prod.inject)
  show "a \<le> b \<or> b \<le> a"
    unfolding less_eq_carried_edge_def by (rule linear)
qed

end

record note_record =
  rec_schema_version :: nat
  rec_id :: int
  rec_kind :: string
  rec_title :: string
  rec_body :: string
  rec_tags :: "string list"
  rec_linked_files :: "string list"
  rec_created_at :: int
  rec_status :: string
  rec_source_ref :: "string option"
  rec_valid_at :: "int option"
  rec_invalid_at :: "int option"
  rec_superseded_by :: "int option"
  rec_remote_id :: "string option"
  rec_entity_id :: "string option"
  rec_superseded_by_entity_id :: "string option"
  rec_edges :: "carried_edge list"
  rec_origin :: "origin option"
  rec_op :: "string option"
  rec_patch_id :: "string option"

text \<open>
  A note as every reader sees it. \<open>distance\<close> and \<open>score\<close> are set only by a search and are left
  out; the origin of a note from another project is \<open>note_source_project\<close>.
\<close>

record mem_note =
  note_id :: note_id
  note_entity_id :: string
  note_kind :: string
  note_title :: string
  note_body :: string
  note_tags_of :: "string list"
  note_linked_files :: "string list"
  note_created_at :: int
  note_status :: string
  note_superseded_by :: "note_id option"
  note_source_ref :: "string option"
  note_valid_at :: "int option"
  note_invalid_at :: "int option"
  note_source_project :: "string option"
  note_source_project_path :: "string option"
  note_remote_id :: "string option"
  note_origin :: "origin option"

definition resolve_entity_id :: "env \<Rightarrow> note_record \<Rightarrow> string" where
  "resolve_entity_id E r =
     (case rec_entity_id r of Some e \<Rightarrow> e
      | None \<Rightarrow> entity_id E (rec_kind r) (rec_title r) (rec_body r))"

definition note_entity_id_of :: "env \<Rightarrow> mem_note \<Rightarrow> string" where
  "note_entity_id_of E n = entity_id E (note_kind n) (note_title n) (note_body n)"

section \<open>The carrier's token\<close>

fun nat_digits :: "nat \<Rightarrow> string" where
  "nat_digits n =
     (if n < 10 then [char_of (48 + n)] else nat_digits (n div 10) @ [char_of (48 + n mod 10)])"

declare nat_digits.simps [simp del]

text \<open>\<open>i64::to_string\<close>.\<close>

definition int_to_string :: "int \<Rightarrow> string" where
  "int_to_string i = (if i < 0 then ''-'' @ nat_digits (nat (- i)) else nat_digits (nat i))"

text \<open>\<open>NoteId::from_str\<close> refuses only the empty string; that branch is the code's \<open>unreachable!\<close>.\<close>

definition carrier_token :: "int \<Rightarrow> id_error + note_id" where
  "carrier_token i = note_id_from_str (int_to_string i)"

lemma nat_digits_nonempty [simp]: "nat_digits n \<noteq> []"
  by (subst nat_digits.simps) simp

lemma int_to_string_nonempty [simp]: "int_to_string i \<noteq> []"
  by (simp add: int_to_string_def)

lemma carrier_token_reachable [simp]: "carrier_token i = Inr (int_to_string i)"
  by (simp add: carrier_token_def)

definition record_to_note :: "env \<Rightarrow> note_record \<Rightarrow> id_error + mem_note" where
  "record_to_note E r =
     and_then (carrier_token (rec_id r)) (\<lambda>i.
     and_then (case rec_superseded_by r of None \<Rightarrow> Inr None
               | Some s \<Rightarrow> and_then (carrier_token s) (\<lambda>t. Inr (Some t))) (\<lambda>s.
     Inr \<lparr>note_id = i,
       note_entity_id = entity_id E (rec_kind r) (rec_title r) (rec_body r),
       note_kind = rec_kind r, note_title = rec_title r, note_body = rec_body r,
       note_tags_of = rec_tags r, note_linked_files = rec_linked_files r,
       note_created_at = rec_created_at r, note_status = rec_status r,
       note_superseded_by = s,
       note_source_ref = rec_source_ref r,
       note_valid_at = rec_valid_at r, note_invalid_at = rec_invalid_at r,
       note_source_project = None, note_source_project_path = None,
       note_remote_id = rec_remote_id r, note_origin = rec_origin r\<rparr>))"

text \<open>
  The record an entity update appends (\<open>entity_update_record\<close> in \<open>git_notes/mod.rs\<close>): the
  content of \<open>base\<close> with the mutable state given, at the time of the append.
\<close>

definition entity_update_record ::
    "env \<Rightarrow> int \<Rightarrow> int \<Rightarrow> mem_note \<Rightarrow> string \<Rightarrow> int option \<Rightarrow> string option \<Rightarrow> carried_edge list \<Rightarrow>
     string option \<Rightarrow> string option \<Rightarrow> note_record" where
  "entity_update_record E now_millis now_secs base status invalid_at successor edges op patch =
     \<lparr>rec_schema_version = 1, rec_id = now_millis,
      rec_kind = note_kind base, rec_title = note_title base, rec_body = note_body base,
      rec_tags = note_tags_of base, rec_linked_files = note_linked_files base,
      rec_created_at = now_secs, rec_status = status,
      rec_source_ref = note_source_ref base, rec_valid_at = note_valid_at base,
      rec_invalid_at = invalid_at, rec_superseded_by = None, rec_remote_id = None,
      rec_entity_id = Some (note_entity_id_of E base),
      rec_superseded_by_entity_id = successor, rec_edges = edges,
      rec_origin = note_origin base, rec_op = op, rec_patch_id = patch\<rparr>"

text \<open>Reading a record never fails, and an update keeps the identity of the entry it updates.\<close>

lemma record_to_note_total: "\<exists>n. record_to_note E r = Inr n"
  by (auto simp: record_to_note_def split: option.splits)

lemma entity_update_record_identity:
  assumes "record_to_note E r = Inr n"
  shows "resolve_entity_id E (entity_update_record E ms s n st iv sc es op p) =
     entity_id E (rec_kind r) (rec_title r) (rec_body r)"
  using assms
  by (auto simp: record_to_note_def entity_update_record_def resolve_entity_id_def
      note_entity_id_of_def and_then_eq_Inr)

end
