(* ===== verification/Interfaces.thy ===== *)
theory Interfaces
  imports Prelude
begin

text \<open>
  The contracts between the components, as locales: a join on copies of one entry (what a merge
  must satisfy for every merge order to converge), an invariant of a transition system, and a
  bounded buffer keyed by identity that is drained by acknowledgement. Clients prove their lemmas here once; the theory of each provider
  interprets the locale on the model of the code.
\<close>

section \<open>Merging copies\<close>

text \<open>
  \<open>join\<close> is commutative, associative and absorbs a copy that was merged before. It need not be
  idempotent on arbitrary values: joining two equal unsorted vectors sorts them.
\<close>

locale merge_join =
  fixes join :: "'a \<Rightarrow> 'a \<Rightarrow> 'a"
  assumes join_comm: "join a b = join b a"
    and join_assoc: "join (join a b) c = join a (join b c)"
    and join_absorb: "join (join a b) b = join a b"
begin

lemma join_left_comm: "join a (join b c) = join b (join a c)"
  by (metis join_comm join_assoc)

lemma foldl_join_start: "foldl join (join a b) xs = join a (foldl join b xs)"
  by (induction xs arbitrary: b) (auto simp: join_assoc)

lemma foldl_join_mset:
  assumes "mset xs = mset ys"
  shows "foldl join a xs = foldl join a ys"
  using assms
proof (induction xs arbitrary: a ys)
  case Nil
  then show ?case by simp
next
  case (Cons x xs)
  then obtain us vs where ys: "ys = us @ x # vs"
    by (metis list.set_intros(1) set_mset_mset split_list)
  with Cons.prems have m: "mset xs = mset (us @ vs)" by simp
  have "foldl join a (x # xs) = join x (foldl join a xs)"
    by (simp add: join_comm [of a x] foldl_join_start)
  also have "\<dots> = join x (foldl join a (us @ vs))" by (simp add: Cons.IH [OF m])
  also have "\<dots> = foldl join (join x (foldl join a us)) vs"
    by (simp add: foldl_join_start)
  also have "\<dots> = foldl join a ys" by (simp add: ys join_comm [of x])
  finally show ?case .
qed

text \<open>Any member of the group may be the one the others are merged into.\<close>

lemma foldl_join_any_base:
  assumes "mset (x # xs) = mset (y # ys)"
  shows "foldl join x xs = foldl join y ys"
proof (cases "x = y")
  case True
  with assms show ?thesis using foldl_join_mset [of xs ys] by simp
next
  case False
  with assms have "y \<in># mset xs" by (metis insert_noteq_member mset.simps(2))
  then obtain zs where zs: "mset xs = mset (y # zs)"
    by (metis ex_mset mset.simps(2) multi_member_split)
  with assms have zs': "mset ys = mset (x # zs)" by simp
  have "foldl join x xs = foldl join (join x y) zs" by (simp add: foldl_join_mset [OF zs])
  also have "\<dots> = foldl join (join y x) zs" by (simp only: join_comm)
  also have "\<dots> = foldl join y ys" by (simp add: foldl_join_mset [OF zs'])
  finally show ?thesis .
qed

text \<open>Merging a copy again changes nothing.\<close>

lemma foldl_join_member_absorb:
  assumes "y \<in> set xs"
  shows "join (foldl join a xs) y = foldl join a xs"
proof -
  from assms obtain us vs where xs: "xs = us @ y # vs" by (metis split_list)
  let ?u = "foldl join a us"
  have "foldl join a xs = join y (foldl join ?u vs)"
    by (simp add: xs join_comm [of _ y] foldl_join_start)
  then show ?thesis using join_absorb [of "foldl join ?u vs" y]
    by (simp add: join_comm [of y])
qed

lemma foldl_join_absorb_all:
  "set ys \<subseteq> set xs \<Longrightarrow> foldl join (foldl join a xs) ys = foldl join a xs"
  by (induction ys) (auto simp: foldl_join_member_absorb)

text \<open>A group merged first and then joined with the rest is the whole group merged.\<close>

lemma foldl_join_prefold:
  "foldl join (foldl join a xs) ys = foldl join a (xs @ ys)"
  by simp

lemma foldl_join_nested:
  "foldl join a (foldl join b xs # ys) = foldl join a (b # xs @ ys)"
  by (simp add: foldl_join_start)

end

text \<open>Joins combine componentwise.\<close>

locale merge_join_pair = fst: merge_join join1 + snd: merge_join join2
  for join1 :: "'a \<Rightarrow> 'a \<Rightarrow> 'a" and join2 :: "'b \<Rightarrow> 'b \<Rightarrow> 'b"
begin

definition join_pair :: "'a \<times> 'b \<Rightarrow> 'a \<times> 'b \<Rightarrow> 'a \<times> 'b" where
  "join_pair p q = (join1 (fst p) (fst q), join2 (snd p) (snd q))"

end

sublocale merge_join_pair \<subseteq> pair: merge_join join_pair
proof unfold_locales
  fix p q r :: "'a \<times> 'b"
  show "join_pair p q = join_pair q p"
    by (simp add: join_pair_def) (metis fst.join_comm snd.join_comm)
  show "join_pair (join_pair p q) r = join_pair p (join_pair q r)"
    by (simp add: join_pair_def fst.join_assoc snd.join_assoc)
  show "join_pair (join_pair p q) q = join_pair p q"
    by (simp add: join_pair_def fst.join_absorb snd.join_absorb)
qed


section \<open>Transition systems\<close>

inductive reach :: "('s \<Rightarrow> bool) \<Rightarrow> ('s \<Rightarrow> 's \<Rightarrow> bool) \<Rightarrow> 's \<Rightarrow> bool"
  for init :: "'s \<Rightarrow> bool" and step :: "'s \<Rightarrow> 's \<Rightarrow> bool" where
  reach_init: "init s \<Longrightarrow> reach init step s"
| reach_step: "reach init step s \<Longrightarrow> step s t \<Longrightarrow> reach init step t"

locale system_invariant =
  fixes init :: "'s \<Rightarrow> bool" and step :: "'s \<Rightarrow> 's \<Rightarrow> bool" and I :: "'s \<Rightarrow> bool"
  assumes initially: "init s \<Longrightarrow> I s"
    and preserved: "I s \<Longrightarrow> step s t \<Longrightarrow> I t"
begin

lemma holds: "reach init step s \<Longrightarrow> I s"
  by (induction rule: reach.induct) (auto intro: initially preserved)

lemma stays: "step\<^sup>*\<^sup>* s t \<Longrightarrow> I s \<Longrightarrow> I t"
  by (induction rule: rtranclp_induct) (auto intro: preserved)

end

section \<open>Buffers drained by acknowledgement\<close>

text \<open>
  A buffer is offered values under a key; it refuses only a new key when it is full, and what it
  holds it holds until it is told to retire the key.
\<close>

locale acked_buffer =
  fixes sound :: "'b \<Rightarrow> bool" and held :: "'b \<Rightarrow> 'k \<Rightarrow> 'v option" and size :: "'b \<Rightarrow> nat"
    and cap :: nat and offer :: "'k \<Rightarrow> 'v \<Rightarrow> 'b \<Rightarrow> 'b \<times> bool" and retire :: "'k \<Rightarrow> 'b \<Rightarrow> 'b"
  assumes sound_offer: "sound b \<Longrightarrow> sound (fst (offer k v b))"
    and sound_retire: "sound b \<Longrightarrow> sound (retire k b)"
    and size_offer: "size b \<le> cap \<Longrightarrow> size (fst (offer k v b)) \<le> cap"
    and size_retire: "size (retire k b) \<le> size b"
    and offer_other: "k' \<noteq> k \<Longrightarrow> held (fst (offer k v b)) k' = held b k'"
    and offer_taken: "\<not> snd (offer k v b) \<Longrightarrow> held (fst (offer k v b)) k \<noteq> None"
    and offer_refused: "snd (offer k v b) \<Longrightarrow> fst (offer k v b) = b \<and> held b k = None \<and> cap \<le> size b"
    and held_retire: "held (retire k b) k' = (if k' = k then None else held b k')"
begin

lemma offer_keeps: "held b k' \<noteq> None \<Longrightarrow> held (fst (offer k v b)) k' \<noteq> None"
  by (cases "snd (offer k v b)"; cases "k' = k") (auto simp: offer_other offer_refused dest: offer_taken)

lemma sound_retire_all: "sound b \<Longrightarrow> sound (fold retire ks b)"
  by (induction ks arbitrary: b) (auto intro: sound_retire)

lemma size_retire_all: "size (fold retire ks b) \<le> size b"
  by (induction ks arbitrary: b) (auto intro: order_trans size_retire)

lemma held_retire_all:
  "held (fold retire ks b) k = (if k \<in> set ks then None else held b k)"
  by (induction ks arbitrary: b) (auto simp: held_retire)

end

end
