(* ===== verification/Fold.thy ===== *)
theory Fold
  imports Note_Record Interfaces
begin

text \<open>
  Collapsing the copies of one entry that the append-only notes ref accumulates
  (\<open>storage/git_notes/fold.rs\<close>). A panic of the code (\<open>expect\<close> on an empty group) is \<open>None\<close>.
\<close>

section \<open>The base copy\<close>

type_synonym base_key = "int \<times> int \<times> string option \<times> string option \<times> int option"

definition base_key :: "note_record \<Rightarrow> base_key" where
  "base_key r = (rec_created_at r, rec_id r, rec_source_ref r, rec_remote_id r, rec_superseded_by r)"

definition base_index :: "note_record list \<Rightarrow> nat option" where
  "base_index g = min_index base_key g"

section \<open>Merging one copy\<close>

fun min_some :: "'a::linorder option \<Rightarrow> 'a option \<Rightarrow> 'a option" where
  "min_some (Some a) (Some b) = Some (min a b)"
| "min_some (Some a) None = Some a"
| "min_some None b = b"

definition union_into :: "'a::linorder list \<Rightarrow> 'a list \<Rightarrow> 'a list" where
  "union_into base other = sort_dedup (base @ other)"

definition merge_into :: "note_record \<Rightarrow> note_record \<Rightarrow> note_record" where
  "merge_into base other = base\<lparr>
     rec_status := (if rec_status other = ''archived'' then ''archived'' else rec_status base),
     rec_schema_version := max (rec_schema_version base) (rec_schema_version other),
     rec_valid_at := min_some (rec_valid_at base) (rec_valid_at other),
     rec_invalid_at := min_some (rec_invalid_at base) (rec_invalid_at other),
     rec_tags := union_into (rec_tags base) (rec_tags other),
     rec_linked_files := union_into (rec_linked_files base) (rec_linked_files other),
     rec_edges := sort_dedup (rec_edges base @ rec_edges other)\<rparr>"

section \<open>The successor pointer\<close>

text \<open>
  The order of the whole-group scan: greatest \<open>created_at\<close> first (compared in reverse), then the
  base key, then the value.
\<close>

definition successor_key :: "note_record \<Rightarrow> int \<times> base_key \<times> string option" where
  "successor_key r = (- rec_created_at r, base_key r, rec_superseded_by_entity_id r)"

definition resolve_superseded_by_entity_id :: "note_record list \<Rightarrow> string option" where
  "resolve_superseded_by_entity_id g =
     (case min_by successor_key
             (filter (\<lambda>r. rec_superseded_by_entity_id r \<noteq> None) g) of
        None \<Rightarrow> None
      | Some r \<Rightarrow> rec_superseded_by_entity_id r)"

section \<open>Folding a group, and all groups\<close>

definition fold_group :: "note_record list \<Rightarrow> note_record option" where
  "fold_group g =
     (case base_index g of None \<Rightarrow> None
      | Some i \<Rightarrow>
          Some ((foldl merge_into (g ! i) (swap_remove g i))
                  \<lparr>rec_superseded_by_entity_id := resolve_superseded_by_entity_id g\<rparr>))"

type_synonym grouping = "string list \<times> (string \<rightharpoonup> note_record list)"

definition group_step :: "env \<Rightarrow> note_record \<Rightarrow> grouping \<Rightarrow> grouping" where
  "group_step E r og =
     (let key = resolve_entity_id E r in
      case snd og key of
        None \<Rightarrow> (fst og @ [key], (snd og)(key \<mapsto> [r]))
      | Some g \<Rightarrow> (fst og, (snd og)(key \<mapsto> g @ [r])))"

text \<open>\<open>order.into_iter().filter_map(|key| groups.remove(&key).map(fold_group))\<close>.\<close>

fun fold_order :: "string list \<Rightarrow> (string \<rightharpoonup> note_record list) \<Rightarrow> note_record list option" where
  "fold_order [] groups = Some []"
| "fold_order (key # keys) groups =
     (case groups key of
        None \<Rightarrow> fold_order keys groups
      | Some g \<Rightarrow>
          (case fold_group g of None \<Rightarrow> None
           | Some r \<Rightarrow> map_option (Cons r) (fold_order keys (groups(key := None)))))"

definition fold_records :: "env \<Rightarrow> note_record list \<Rightarrow> note_record list option" where
  "fold_records E records =
     (let og = fold (group_step E) records ([], Map.empty) in fold_order (fst og) (snd og))"

section \<open>Anchors\<close>

text \<open>
  \<open>anchor_commits\<close> keeps, per entity, the index of the copy with the smallest base key (the
  earlier index on a tie); here the pair itself is kept instead of its index.
\<close>

definition anchor_step ::
    "env \<Rightarrow> string \<times> note_record \<Rightarrow> (string \<rightharpoonup> string \<times> note_record) \<Rightarrow>
     (string \<rightharpoonup> string \<times> note_record)" where
  "anchor_step E cr best =
     (let key = resolve_entity_id E (snd cr) in
      case best key of
        None \<Rightarrow> best(key \<mapsto> cr)
      | Some b \<Rightarrow> if base_key (snd cr) < base_key (snd b) then best(key \<mapsto> cr) else best)"

definition anchor_commits :: "env \<Rightarrow> (string \<times> note_record) list \<Rightarrow> (string \<rightharpoonup> string)" where
  "anchor_commits E records =
     (\<lambda>e. map_option fst (fold (anchor_step E) records Map.empty e))"

definition is_anchor_of :: "env \<Rightarrow> string \<Rightarrow> string \<times> note_record \<Rightarrow> bool" where
  "is_anchor_of E eid cr =
     (rec_op (snd cr) = Some ''anchor'' \<and> resolve_entity_id E (snd cr) = eid)"

text \<open>The set of commits of one entity; \<open>{}\<close> where the code's map has no entry.\<close>

definition all_anchor_commits :: "env \<Rightarrow> (string \<times> note_record) list \<Rightarrow> string \<Rightarrow> string set" where
  "all_anchor_commits E records eid =
     (case anchor_commits E records eid of None \<Rightarrow> {} | Some c \<Rightarrow> {c}) \<union>
     set (map fst (filter (is_anchor_of E eid) records))"

definition anchors_for_entity ::
    "env \<Rightarrow> (string \<times> note_record) list \<Rightarrow> string \<Rightarrow> (string \<times> int) list" where
  "anchors_for_entity E records eid =
     map (\<lambda>(c, r). (c, rec_created_at r)) (filter (is_anchor_of E eid) records)"

definition resolve_source_ref :: "(string \<times> int) list \<Rightarrow> (string \<Rightarrow> bool) \<Rightarrow> string option" where
  "resolve_source_ref anchors reachable =
     map_option fst
       (case min_by snd (filter (\<lambda>(c, _). reachable c) anchors) of
          Some a \<Rightarrow> Some a
        | None \<Rightarrow> min_by snd anchors)"

section \<open>Grouping\<close>

lemma group_loop:
  "fold (group_step E) records ([], Map.empty) =
     (first_occs (map (resolve_entity_id E) records),
      \<lambda>k. if k \<in> resolve_entity_id E ` set records
          then Some (filter (\<lambda>r. resolve_entity_id E r = k) records) else None)"
proof (induction records rule: rev_induct)
  case Nil
  then show ?case by simp
next
  case (snoc r records)
  then show ?case
    by (auto simp: group_step_def Let_def first_occs_snoc fun_eq_iff filter_empty_conv)
      (metis imageI)
qed

lemma fold_group_Nil [simp]: "fold_group [] = None"
  by (simp add: fold_group_def base_index_def min_index_def)

lemma fold_group_Some: "g \<noteq> [] \<Longrightarrow> \<exists>r. fold_group g = Some r"
  by (auto simp: fold_group_def base_index_def split: option.splits)

lemma fold_order_all:
  assumes "distinct keys" and "\<And>k. k \<in> set keys \<Longrightarrow> \<exists>g. groups k = Some g \<and> g \<noteq> []"
  shows "fold_order keys groups = Some (map (\<lambda>k. the (fold_group (the (groups k)))) keys)"
  using assms
proof (induction keys arbitrary: groups)
  case Nil
  then show ?case by simp
next
  case (Cons k keys)
  from Cons.prems(2) [of k] obtain g where g: "groups k = Some g" "g \<noteq> []" by auto
  from fold_group_Some [OF g(2)] obtain r where r: "fold_group g = Some r" ..
  let ?h = "groups(k := None)"
  have "fold_order keys ?h = Some (map (\<lambda>k. the (fold_group (the (?h k)))) keys)"
    using Cons.prems by (intro Cons.IH) auto
  also have "map (\<lambda>k. the (fold_group (the (?h k)))) keys =
      map (\<lambda>k. the (fold_group (the (groups k)))) keys"
    using Cons.prems(1) by (intro map_cong) auto
  finally have "fold_order keys ?h =
      Some (map (\<lambda>k. the (fold_group (the (groups k)))) keys)" .
  with g r show ?case by simp
qed

lemma fold_records_groups:
  "fold_records E records =
     Some (map (\<lambda>k. the (fold_group (filter (\<lambda>r. resolve_entity_id E r = k) records)))
             (first_occs (map (resolve_entity_id E) records)))"
proof -
  let ?m = "\<lambda>k. if k \<in> resolve_entity_id E ` set records
          then Some (filter (\<lambda>r. resolve_entity_id E r = k) records) else None"
  have "fold_order (first_occs (map (resolve_entity_id E) records)) ?m =
      Some (map (\<lambda>k. the (fold_group (the (?m k))))
        (first_occs (map (resolve_entity_id E) records)))"
    by (rule fold_order_all) (auto simp: filter_empty_conv)
  also have "\<dots> = Some (map (\<lambda>k. the (fold_group (filter (\<lambda>r. resolve_entity_id E r = k) records)))
             (first_occs (map (resolve_entity_id E) records)))"
    by (auto intro!: map_cong)
  finally show ?thesis by (simp add: fold_records_def group_loop)
qed

section \<open>What a merge changes and what it keeps\<close>

text \<open>The fields every copy contributes to, as one value, and the fields the base copy supplies.\<close>

type_synonym payload =
  "bool \<times> nat \<times> int option \<times> int option \<times> string list \<times> string list \<times> carried_edge list"

definition payload :: "note_record \<Rightarrow> payload" where
  "payload r = (rec_status r = ''archived'', rec_schema_version r, rec_valid_at r, rec_invalid_at r,
     rec_tags r, rec_linked_files r, rec_edges r)"

definition sourced :: "note_record \<Rightarrow> base_key \<times> string \<times> string \<times> string \<times> string option \<times>
    origin option \<times> string option \<times> string option" where
  "sourced r = (base_key r, rec_kind r, rec_title r, rec_body r, rec_entity_id r, rec_origin r,
     rec_op r, rec_patch_id r)"

lemma min_some_comm: "min_some a b = min_some b a"
  by (cases a; cases b) (auto simp: min.commute)

lemma min_some_assoc: "min_some (min_some a b) c = min_some a (min_some b c)"
  by (cases a; cases b; cases c) (auto simp: min.assoc)

interpretation archived_join: merge_join "(\<or>)"
  by unfold_locales auto

interpretation version_join: merge_join "max :: nat \<Rightarrow> nat \<Rightarrow> nat"
  by unfold_locales auto

interpretation instant_join: merge_join "min_some :: int option \<Rightarrow> _ \<Rightarrow> _"
proof unfold_locales
  fix a b c :: "int option"
  show "min_some a b = min_some b a" by (rule min_some_comm)
  show "min_some (min_some a b) c = min_some a (min_some b c)" by (rule min_some_assoc)
  show "min_some (min_some a b) b = min_some a b" by (cases a; cases b) auto
qed

lemma merge_join_union_into: "merge_join (union_into :: 'a::linorder list \<Rightarrow> _ \<Rightarrow> _)"
proof
  fix a b c :: "'a list"
  show "union_into a b = union_into b a"
    by (auto simp: union_into_def intro: sort_dedup_cong)
  show "union_into (union_into a b) c = union_into a (union_into b c)"
    by (auto simp: union_into_def intro: sort_dedup_cong)
  show "union_into (union_into a b) b = union_into a b"
    by (auto simp: union_into_def intro: sort_dedup_cong)
qed

interpretation tags_join: merge_join "union_into :: string list \<Rightarrow> _ \<Rightarrow> _"
  by (rule merge_join_union_into)

interpretation edges_join: merge_join "union_into :: carried_edge list \<Rightarrow> _ \<Rightarrow> _"
  by (rule merge_join_union_into)

interpretation files_edges: merge_join_pair
  "union_into :: string list \<Rightarrow> _ \<Rightarrow> _" "union_into :: carried_edge list \<Rightarrow> _ \<Rightarrow> _"
  by unfold_locales

interpretation lists_join: merge_join_pair "union_into :: string list \<Rightarrow> _ \<Rightarrow> _"
  files_edges.join_pair
  by unfold_locales

interpretation invalid_lists: merge_join_pair "min_some :: int option \<Rightarrow> _ \<Rightarrow> _"
  lists_join.join_pair
  by unfold_locales

interpretation window_lists: merge_join_pair "min_some :: int option \<Rightarrow> _ \<Rightarrow> _"
  invalid_lists.join_pair
  by unfold_locales

interpretation version_lists: merge_join_pair "max :: nat \<Rightarrow> nat \<Rightarrow> nat" window_lists.join_pair
  by unfold_locales

interpretation copy: merge_join_pair "(\<or>)" version_lists.join_pair
  by unfold_locales

lemmas copy_join_defs = copy.join_pair_def version_lists.join_pair_def window_lists.join_pair_def
  invalid_lists.join_pair_def lists_join.join_pair_def files_edges.join_pair_def

lemma payload_merge_into:
  "payload (merge_into b r) = copy.join_pair (payload b) (payload r)"
  by (auto simp: payload_def merge_into_def copy_join_defs union_into_def)

lemma payload_foldl:
  "payload (foldl merge_into b rs) = foldl copy.join_pair (payload b) (map payload rs)"
  by (induction rs arbitrary: b) (auto simp: payload_merge_into)

lemma sourced_merge_into [simp]: "sourced (merge_into b r) = sourced b"
  by (simp add: sourced_def base_key_def merge_into_def)

lemma sourced_foldl [simp]: "sourced (foldl merge_into b rs) = sourced b"
  by (induction rs arbitrary: b) auto

section \<open>The folded copy\<close>

text \<open>Everything a fold of a group determines, in terms of the group as a multiset.\<close>

lemma fold_group_cases:
  assumes "fold_group g = Some r"
  obtains b rest where "mset g = mset (b # rest)" and "\<forall>x \<in> set g. base_key b \<le> base_key x"
    and "b \<in> set g"
    and "r = (foldl merge_into b rest)
           \<lparr>rec_superseded_by_entity_id := resolve_superseded_by_entity_id g\<rparr>"
proof -
  from assms obtain i where i: "min_index base_key g = Some i"
    and r: "r = (foldl merge_into (g ! i) (swap_remove g i))
      \<lparr>rec_superseded_by_entity_id := resolve_superseded_by_entity_id g\<rparr>"
    by (auto simp: fold_group_def base_index_def split: option.splits)
  note m = min_index_Some [OF i]
  show ?thesis
    by (rule that [of "g ! i" "swap_remove g i"]) (use m r mset_swap_remove in auto)
qed

lemma fold_group_sourced:
  assumes "fold_group g = Some r"
  obtains b where "b \<in> set g" and "\<forall>x \<in> set g. base_key b \<le> base_key x"
    and "sourced r = sourced b"
  using assms
proof (rule fold_group_cases)
  fix b rest
  assume b: "b \<in> set g" "\<forall>x \<in> set g. base_key b \<le> base_key x"
    and r: "r = (foldl merge_into b rest)
      \<lparr>rec_superseded_by_entity_id := resolve_superseded_by_entity_id g\<rparr>"
  have "sourced r = sourced (foldl merge_into b rest)"
    by (simp add: r sourced_def base_key_def)
  then show thesis using that b by simp
qed

lemma fold_group_payload:
  assumes "fold_group g = Some r"
  obtains b rest where "mset g = mset (b # rest)"
    and "payload r = foldl copy.join_pair (payload b) (map payload rest)"
  using assms
proof (rule fold_group_cases)
  fix b rest
  assume m: "mset g = mset (b # rest)"
    and r: "r = (foldl merge_into b rest)
      \<lparr>rec_superseded_by_entity_id := resolve_superseded_by_entity_id g\<rparr>"
  have "payload r = payload (foldl merge_into b rest)" by (simp add: r payload_def)
  then show thesis using that [OF m] by (simp add: payload_foldl)
qed

lemma fold_group_payload_any:
  assumes "fold_group g = Some r" and "mset g = mset (c # cs)"
  shows "payload r = foldl copy.join_pair (payload c) (map payload cs)"
proof -
  from assms(1) obtain b rest where m: "mset g = mset (b # rest)"
    and p: "payload r = foldl copy.join_pair (payload b) (map payload rest)"
    by (rule fold_group_payload)
  have "mset (map payload (b # rest)) = mset (map payload (c # cs))"
    using m assms(2) by (metis mset_map)
  then show ?thesis using p copy.pair.foldl_join_any_base by simp
qed

lemma fold_group_base_key:
  assumes "fold_group g = Some r" and "fold_group h = Some s" and "set g = set h"
  shows "base_key r = base_key s"
proof -
  from assms(1) obtain b where b: "b \<in> set g" "\<forall>x \<in> set g. base_key b \<le> base_key x"
    "sourced r = sourced b" by (rule fold_group_sourced)
  from assms(2) obtain c where c: "c \<in> set h" "\<forall>x \<in> set h. base_key c \<le> base_key x"
    "sourced s = sourced c" by (rule fold_group_sourced)
  from b(1,2) c(1,2) assms(3) have "base_key b = base_key c" by (simp add: antisym)
  with b(3) c(3) show ?thesis by (simp add: sourced_def)
qed

lemma resolve_superseded_set:
  assumes "set g = set h"
  shows "resolve_superseded_by_entity_id g = resolve_superseded_by_entity_id h"
proof -
  let ?P = "\<lambda>r. rec_superseded_by_entity_id r \<noteq> None"
  have s: "set (filter ?P g) = set (filter ?P h)" using assms by auto
  show ?thesis
  proof (cases "min_by successor_key (filter ?P g)")
    case None
    then have "filter ?P h = []" using s by (metis min_by_None set_empty)
    with None show ?thesis by (simp add: resolve_superseded_by_entity_id_def)
  next
    case (Some x)
    then have "filter ?P h \<noteq> []" using s by (metis min_by_None option.distinct(1) set_empty)
    then obtain y where y: "min_by successor_key (filter ?P h) = Some y"
      using min_by_exists by blast
    have "successor_key x = successor_key y" by (rule min_by_key_eq [OF Some y s])
    with Some y show ?thesis
      by (simp add: resolve_superseded_by_entity_id_def successor_key_def)
  qed
qed

lemma fold_group_successor:
  "fold_group g = Some r \<Longrightarrow>
     rec_superseded_by_entity_id r = resolve_superseded_by_entity_id g"
  by (auto simp: fold_group_def split: option.splits)

lemma fold_group_singleton: "fold_group [r] = Some r"
  by (simp add: fold_group_def base_index_def min_index_def swap_remove_def
      resolve_superseded_by_entity_id_def)

lemma resolve_entity_id_sourced:
  "sourced r = sourced s \<Longrightarrow> resolve_entity_id E r = resolve_entity_id E s"
  by (auto simp: sourced_def resolve_entity_id_def split: option.splits)

lemma fold_group_entity:
  assumes "fold_group g = Some r" and "\<And>x. x \<in> set g \<Longrightarrow> resolve_entity_id E x = k"
  shows "resolve_entity_id E r = k"
  using assms by (metis fold_group_sourced resolve_entity_id_sourced)

lemma status_foldl:
  "rec_status (foldl merge_into b rs) = rec_status b \<or>
   rec_status (foldl merge_into b rs) = ''archived''"
  by (induction rs rule: rev_induct) (auto simp: merge_into_def)

lemma fold_group_status:
  assumes "fold_group g = Some r"
  obtains b where "b \<in> set g" and "sourced r = sourced b"
    and "rec_status r = rec_status b \<or> rec_status r = ''archived''"
  using assms
proof (rule fold_group_cases)
  fix b rest
  assume b: "b \<in> set g" and r: "r = (foldl merge_into b rest)
      \<lparr>rec_superseded_by_entity_id := resolve_superseded_by_entity_id g\<rparr>"
  have "sourced r = sourced (foldl merge_into b rest)"
    by (simp add: r sourced_def base_key_def)
  then show thesis using that [OF b] status_foldl [of b rest] by (simp add: r)
qed

text \<open>Two records with the same sourced fields, payload and successor differ at most in an
  unarchived status text.\<close>

lemma record_by_parts:
  assumes "sourced r = sourced s" and "payload r = payload s"
    and "rec_superseded_by_entity_id r = rec_superseded_by_entity_id s"
    and "rec_status r = rec_status s"
  shows "r = s"
  using assms by (cases r; cases s) (auto simp: sourced_def payload_def base_key_def)

section \<open>Properties of the fold\<close>

text \<open>
  C7. Folding the records read off the ref never panics, returns exactly one record per entity,
  in the order the entities were first met, and each is the fold of that entity's copies.
\<close>

theorem fold_records_one_per_entity:
  "\<exists>fs. fold_records E rs = Some fs \<and>
     map (resolve_entity_id E) fs = first_occs (map (resolve_entity_id E) rs) \<and>
     map Some fs = map (\<lambda>k. fold_group (filter (\<lambda>r. resolve_entity_id E r = k) rs))
       (first_occs (map (resolve_entity_id E) rs))"
proof -
  let ?ks = "first_occs (map (resolve_entity_id E) rs)"
  let ?g = "\<lambda>k. filter (\<lambda>r. resolve_entity_id E r = k) rs"
  have some: "fold_group (?g k) = Some (the (fold_group (?g k)))" if "k \<in> set ?ks" for k
  proof -
    from that have "?g k \<noteq> []" by (auto simp: filter_empty_conv)
    then show ?thesis using fold_group_Some by fastforce
  qed
  have "resolve_entity_id E (the (fold_group (?g k))) = k" if "k \<in> set ?ks" for k
    by (rule fold_group_entity [OF some [OF that]]) simp
  then have "map (resolve_entity_id E) (map (\<lambda>k. the (fold_group (?g k))) ?ks) = ?ks"
    by (simp only: map_map, intro map_idI) simp
  moreover have "map Some (map (\<lambda>k. the (fold_group (?g k))) ?ks) = map (\<lambda>k. fold_group (?g k)) ?ks"
    using some by simp
  ultimately show ?thesis using fold_records_groups by blast
qed

text \<open>
  C8. Convergence: two machines holding the same copies of an entry in any order fold them to
  records that agree on every merged field (archival, schema version, validity window, tags,
  files and edges), on every field the base key orders on, and on the successor.
\<close>

theorem fold_group_converges:
  assumes "mset g = mset h" and "fold_group g = Some r" and "fold_group h = Some s"
  shows "payload r = payload s \<and> base_key r = base_key s \<and>
     rec_superseded_by_entity_id r = rec_superseded_by_entity_id s"
proof -
  from assms(3) obtain b rest where m: "mset h = mset (b # rest)"
    and p: "payload s = foldl copy.join_pair (payload b) (map payload rest)"
    by (rule fold_group_payload)
  have "payload r = payload s"
    using fold_group_payload_any [OF assms(2)] m assms(1) p by metis
  moreover have "set g = set h" using assms(1) by (rule mset_eq_setD)
  ultimately show ?thesis
    using fold_group_base_key fold_group_successor resolve_superseded_set assms(2,3) by metis
qed

text \<open>
  Two copies that tie on the base key without agreeing on the fields the base supplies are
  the only obstacle to full convergence: when ties agree, every order of the copies folds to the
  same record.
\<close>

theorem fold_group_order_irrelevant:
  assumes "mset g = mset h" and "fold_group g = Some r"
    and ties: "\<And>x y. x \<in> set g \<Longrightarrow> y \<in> set g \<Longrightarrow> base_key x = base_key y \<Longrightarrow>
      sourced x = sourced y \<and> rec_status x = rec_status y"
  shows "fold_group h = Some r"
proof -
  have sets: "set g = set h" using assms(1) by (rule mset_eq_setD)
  have "h \<noteq> []" using assms(1,2) by auto
  then obtain s where s: "fold_group h = Some s" using fold_group_Some by blast
  note conv = fold_group_converges [OF assms(1,2) s]
  from assms(2) obtain b where b: "b \<in> set g" "sourced r = sourced b"
    and rb: "rec_status r = rec_status b \<or> rec_status r = ''archived''"
    by (rule fold_group_status)
  from s obtain c where c: "c \<in> set h" "sourced s = sourced c"
    and sc: "rec_status s = rec_status c \<or> rec_status s = ''archived''"
    by (rule fold_group_status)
  have "base_key b = base_key c"
    using conv b(2) c(2) by (simp add: sourced_def)
  then have tie: "sourced b = sourced c" "rec_status b = rec_status c"
    using ties [of b c] b(1) c(1) sets by auto
  have "rec_status r = ''archived'' \<longleftrightarrow> rec_status s = ''archived''"
    using conv by (simp add: payload_def)
  then have "rec_status r = rec_status s" using rb sc tie(2) by auto
  then have "r = s" using conv b(2) c(2) tie(1) by (intro record_by_parts) auto
  with s show ?thesis by simp
qed

text \<open>
  Idempotence: reading a folded log again changes nothing.
\<close>

theorem fold_records_idempotent:
  assumes "fold_records E rs = Some fs"
  shows "fold_records E fs = Some fs"
proof -
  from fold_records_one_per_entity [of E rs] assms
  have keys: "map (resolve_entity_id E) fs = first_occs (map (resolve_entity_id E) rs)" by simp
  then have d: "distinct (map (resolve_entity_id E) fs)" by simp
  have self: "filter (\<lambda>r. resolve_entity_id E r = resolve_entity_id E f) fs = [f]"
    if "f \<in> set fs" for f
    using d that by (induction fs) (auto simp: filter_empty_conv, metis imageI)
  have "fold_records E fs =
      Some (map (\<lambda>f. the (fold_group (filter (\<lambda>r. resolve_entity_id E r = resolve_entity_id E f) fs)))
        fs)"
    using d by (simp add: fold_records_groups first_occs_distinct comp_def)
  also have "\<dots> = Some fs"
    by (auto intro!: map_idI simp: self fold_group_singleton)
  finally show ?thesis .
qed

text \<open>
  Folding one machine's copies first and then the rest reaches the same merged fields and the
  same base key as folding the union in one pass. The successor is the exception the code's
  comment names, so it is not claimed here.
\<close>

theorem fold_group_prefold:
  assumes "fold_group g = Some a" and "fold_group (a # h) = Some r" and "fold_group (g @ h) = Some s"
  shows "payload r = payload s \<and> base_key r = base_key s"
proof -
  from assms(1) obtain b rest where m: "mset g = mset (b # rest)"
    and pa: "payload a = foldl copy.join_pair (payload b) (map payload rest)"
    by (rule fold_group_payload)
  have "payload r = foldl copy.join_pair (payload a) (map payload h)"
    by (rule fold_group_payload_any [OF assms(2)]) simp
  also have "\<dots> = foldl copy.join_pair (payload b) (map payload (rest @ h))"
    by (simp add: pa)
  also have "\<dots> = payload s"
    by (rule fold_group_payload_any [OF assms(3), symmetric]) (simp add: m)
  finally have p: "payload r = payload s" .
  from assms(1) obtain c where c: "c \<in> set g" "\<forall>x \<in> set g. base_key c \<le> base_key x"
    "base_key a = base_key c" by (rule fold_group_sourced) (simp add: sourced_def)
  from assms(2) obtain d where d: "d \<in> set (a # h)" "\<forall>x \<in> set (a # h). base_key d \<le> base_key x"
    "base_key r = base_key d" by (rule fold_group_sourced) (simp add: sourced_def)
  from assms(3) obtain e where e: "e \<in> set (g @ h)" "\<forall>x \<in> set (g @ h). base_key e \<le> base_key x"
    "base_key s = base_key e" by (rule fold_group_sourced) (simp add: sourced_def)
  have "base_key d \<le> base_key e"
    using c(2,3) d(2) e(1) by (auto intro: order_trans)
  moreover have "base_key e \<le> base_key d"
    using c(1,3) d(1) e(2) by auto
  ultimately show ?thesis using p d(3) e(3) by simp
qed

text \<open>
  The successor of the folded entry is the one written last: it is carried by a copy whose
  \<open>created_at\<close> no copy with a successor exceeds; and there is one as soon as any copy has one.
\<close>

theorem fold_group_successor_latest:
  assumes "fold_group g = Some r" and "x \<in> set g" and "rec_superseded_by_entity_id x \<noteq> None"
  shows "\<exists>y \<in> set g. rec_superseded_by_entity_id r = rec_superseded_by_entity_id y \<and>
     rec_superseded_by_entity_id y \<noteq> None \<and> rec_created_at x \<le> rec_created_at y"
proof -
  let ?c = "filter (\<lambda>r. rec_superseded_by_entity_id r \<noteq> None) g"
  from assms(2,3) have "?c \<noteq> []" by (auto simp: filter_empty_conv)
  then obtain y where y: "min_by successor_key ?c = Some y" using min_by_exists by blast
  note m = min_by_Some [OF y]
  from m assms(2,3) have "successor_key y \<le> successor_key x" by simp
  then have "rec_created_at x \<le> rec_created_at y"
    by (auto simp: successor_key_def less_eq_prod_def)
  moreover have "rec_superseded_by_entity_id r = rec_superseded_by_entity_id y"
    using fold_group_successor [OF assms(1)] y by (simp add: resolve_superseded_by_entity_id_def)
  ultimately show ?thesis using m by auto
qed


text \<open>
  The comment on \<open>base_index\<close> says two copies that tie on the base key agree on every field
  the base supplies. They need not: the base also supplies \<open>origin\<close>, \<open>op\<close> and \<open>patch_id\<close>, which
  are not in the key, and then the order of the lines decides the folded record.
\<close>

definition tie_copy :: "actor_kind \<Rightarrow> note_record" where
  "tie_copy k = \<lparr>rec_schema_version = 1, rec_id = 7, rec_kind = ''decision'', rec_title = ''t'',
     rec_body = ''b'', rec_tags = [], rec_linked_files = [], rec_created_at = 100,
     rec_status = ''active'', rec_source_ref = None, rec_valid_at = None, rec_invalid_at = None,
     rec_superseded_by = None, rec_remote_id = None, rec_entity_id = Some ''e1'',
     rec_superseded_by_entity_id = None, rec_edges = [],
     rec_origin = Some \<lparr>actor_kind = k, tool = None, model = None\<rparr>,
     rec_op = None, rec_patch_id = None\<rparr>"

theorem fold_records_order_dependent:
  "base_key (tie_copy Human) = base_key (tie_copy Agent) \<and>
   map_option (map rec_origin) (fold_records E [tie_copy Human, tie_copy Agent]) =
     Some [Some \<lparr>actor_kind = Human, tool = None, model = None\<rparr>] \<and>
   map_option (map rec_origin) (fold_records E [tie_copy Agent, tie_copy Human]) =
     Some [Some \<lparr>actor_kind = Agent, tool = None, model = None\<rparr>]"
  by (simp add: fold_records_def group_step_def resolve_entity_id_def tie_copy_def base_key_def
      fold_group_def base_index_def min_index_def swap_remove_def merge_into_def Let_def)

section \<open>Properties of the anchors\<close>

lemma anchor_loop:
  "fold (anchor_step E) records Map.empty eid =
     min_by (\<lambda>cr. base_key (snd cr)) (filter (\<lambda>cr. resolve_entity_id E (snd cr) = eid) records)"
  by (induction records rule: rev_induct)
    (auto simp: anchor_step_def Let_def min_by_snoc split: option.splits)

text \<open>
  An entity's anchor is the commit that carries its base copy: the attachment chosen among the
  raw lines has the base key of the folded entry, and every commit of the entity's explicit
  anchors is listed beside it.
\<close>

theorem anchor_commit_is_base:
  assumes "anchor_commits E records eid = Some c"
    and "fold_group (filter (\<lambda>r. resolve_entity_id E r = eid) (map snd records)) = Some r"
  shows "(\<exists>x. (c, x) \<in> set records \<and> resolve_entity_id E x = eid \<and> base_key x = base_key r) \<and>
     all_anchor_commits E records eid =
       insert c {a. \<exists>x. (a, x) \<in> set records \<and> rec_op x = Some ''anchor'' \<and>
         resolve_entity_id E x = eid}"
proof -
  let ?f = "filter (\<lambda>cr. resolve_entity_id E (snd cr) = eid) records"
  from assms(1) obtain x where x: "min_by (\<lambda>cr. base_key (snd cr)) ?f = Some (c, x)"
    by (auto simp: anchor_commits_def anchor_loop)
  note m = min_by_Some [OF x]
  have g: "filter (\<lambda>r. resolve_entity_id E r = eid) (map snd records) = map snd ?f"
    by (simp add: filter_map comp_def)
  from assms(2) obtain b where b: "b \<in> set (map snd ?f)"
    "\<forall>y \<in> set (map snd ?f). base_key b \<le> base_key y" "base_key r = base_key b"
    unfolding g by (rule fold_group_sourced) (simp add: sourced_def)
  have "base_key x \<le> base_key b" using m b(1) by auto
  moreover have "x \<in> set (map snd ?f)" using m by force
  then have "base_key b \<le> base_key x" using b(2) by blast
  ultimately have k: "base_key x = base_key r" using b(3) by simp
  have "all_anchor_commits E records eid = insert c (fst ` set (filter (is_anchor_of E eid) records))"
    using assms(1) by (simp add: all_anchor_commits_def)
  moreover have "fst ` set (filter (is_anchor_of E eid) records) =
      {a. \<exists>x. (a, x) \<in> set records \<and> rec_op x = Some ''anchor'' \<and> resolve_entity_id E x = eid}"
    by (force simp: is_anchor_of_def)
  ultimately show ?thesis using m k by auto
qed

text \<open>
  The source reference resolved for an entry: none exactly when it has no anchor; otherwise an
  anchor's commit, the earliest reachable one if any is reachable and the earliest one if not.
\<close>

theorem resolve_source_ref_earliest_reachable:
  "(resolve_source_ref anchors reachable = None \<longleftrightarrow> anchors = []) \<and>
   (\<forall>c. resolve_source_ref anchors reachable = Some c \<longrightarrow>
      (\<exists>t. (c, t) \<in> set anchors \<and>
         (reachable c \<and> (\<forall>(d, u) \<in> set anchors. reachable d \<longrightarrow> t \<le> u) \<or>
          (\<forall>(d, u) \<in> set anchors. \<not> reachable d \<and> t \<le> u))))"
proof -
  let ?f = "filter (\<lambda>(c, _). reachable c) anchors"
  show ?thesis
  proof (cases "min_by snd ?f")
    case None
    then have none: "\<not> reachable d" if "(d, u) \<in> set anchors" for d u
      using that by (auto simp: filter_empty_conv)
    show ?thesis
    proof (cases "min_by snd anchors")
      case None
      with \<open>min_by snd ?f = None\<close> show ?thesis by (simp add: resolve_source_ref_def)
    next
      case (Some a)
      obtain c t where a: "a = (c, t)" by (cases a)
      have "resolve_source_ref anchors reachable = Some c"
        using \<open>min_by snd ?f = None\<close> Some a by (simp add: resolve_source_ref_def)
      moreover have "(c, t) \<in> set anchors" "\<forall>(d, u) \<in> set anchors. \<not> reachable d \<and> t \<le> u"
        using min_by_Some [OF Some] none a by auto
      ultimately show ?thesis by (metis list.distinct(1) list.set_cases option.inject option.simps(3))
    qed
  next
    case (Some a)
    obtain c t where a: "a = (c, t)" by (cases a)
    have "resolve_source_ref anchors reachable = Some c"
      using Some a by (simp add: resolve_source_ref_def)
    moreover have "(c, t) \<in> set anchors"
      "reachable c \<and> (\<forall>(d, u) \<in> set anchors. reachable d \<longrightarrow> t \<le> u)"
      using min_by_Some [OF Some] a by auto
    ultimately show ?thesis by (metis list.distinct(1) list.set_cases option.inject option.simps(3))
  qed
qed

section \<open>The properties at concrete copies\<close>

definition ex_copy :: "int \<Rightarrow> int \<Rightarrow> string list \<Rightarrow> string \<Rightarrow> string option \<Rightarrow> note_record" where
  "ex_copy i t tags st succ = (tie_copy Human)\<lparr>rec_id := i, rec_created_at := t, rec_tags := tags,
     rec_status := st, rec_superseded_by_entity_id := succ\<rparr>"

definition ex_old :: note_record where "ex_old = ex_copy 1 100 [''b'', ''a''] ''active'' None"
definition ex_new :: note_record where "ex_new = ex_copy 2 200 [''c''] ''archived'' (Some ''e2'')"
definition ex_late :: note_record where "ex_late = ex_copy 3 300 [''d''] ''archived'' (Some ''e3'')"

lemmas ex_defs = ex_old_def ex_new_def ex_late_def ex_copy_def tie_copy_def

lemma ex_keys [simp]:
  "base_key ex_old = (100, 1, None, None, None)" "base_key ex_new = (200, 2, None, None, None)"
  "base_key ex_late = (300, 3, None, None, None)"
  by (simp_all add: ex_defs base_key_def)

lemma ex_merge: "sort_dedup [''b'', ''a'', ''c''] = [''a'', ''b'', ''c'']"
  by code_simp

lemma ex_fold [simp]:
  "fold_group [ex_old, ex_new] = Some (ex_old\<lparr>rec_tags := [''a'', ''b'', ''c''],
     rec_status := ''archived'', rec_superseded_by_entity_id := Some ''e2''\<rparr>)"
  "fold_group [ex_new, ex_old] = fold_group [ex_old, ex_new]"
  by (simp_all add: fold_group_def base_index_def min_index_def swap_remove_def merge_into_def
      resolve_superseded_by_entity_id_def union_into_def ex_merge sort_dedup_def [of "[]"]
      ex_old_def ex_new_def ex_copy_def tie_copy_def base_key_def)

theorem fold_group_converges_witness:
  "\<exists>r s. fold_group [ex_old, ex_new] = Some r \<and> fold_group [ex_new, ex_old] = Some s \<and>
     rec_tags r = [''a'', ''b'', ''c''] \<and> payload r = payload s"
  using fold_group_converges [of "[ex_old, ex_new]" "[ex_new, ex_old]"] by simp

theorem fold_group_order_irrelevant_witness:
  "\<exists>r. fold_group [ex_old, ex_new] = Some r \<and> fold_group [ex_new, ex_old] = Some r"
proof -
  have "fold_group [ex_new, ex_old] = Some r" if "fold_group [ex_old, ex_new] = Some r" for r
    by (rule fold_group_order_irrelevant [OF _ that]) auto
  then show ?thesis by (metis ex_fold(1))
qed

lemma ex_fold_records:
  "fold_records E [ex_old, ex_new] = Some [ex_old\<lparr>rec_tags := [''a'', ''b'', ''c''],
     rec_status := ''archived'', rec_superseded_by_entity_id := Some ''e2''\<rparr>]"
  by (simp add: fold_records_groups resolve_entity_id_def ex_defs
      ex_fold(1) [unfolded ex_defs, simplified])

theorem fold_records_idempotent_witness:
  "\<exists>fs. fold_records demo_env [ex_old, ex_new] = Some fs \<and> fold_records demo_env fs = Some fs"
  using fold_records_idempotent [OF ex_fold_records] ex_fold_records by blast

theorem fold_group_prefold_witness:
  "\<exists>a r s. fold_group [ex_old, ex_new] = Some a \<and> fold_group [a, ex_late] = Some r \<and>
     fold_group [ex_old, ex_new, ex_late] = Some s \<and> payload r = payload s"
proof -
  let ?g = "[ex_old, ex_new]"
  obtain a where a: "fold_group ?g = Some a" using ex_fold by blast
  obtain r where r: "fold_group (a # [ex_late]) = Some r" using fold_group_Some by blast
  obtain s where s: "fold_group (?g @ [ex_late]) = Some s" using fold_group_Some by blast
  have "payload r = payload s" using fold_group_prefold [OF a r s] by simp
  with a r s show ?thesis by auto
qed

theorem fold_group_successor_latest_witness:
  "\<exists>y \<in> set [ex_old, ex_new]. rec_superseded_by_entity_id y = Some ''e2''"
proof -
  have "rec_superseded_by_entity_id ex_new \<noteq> None" by (simp add: ex_defs)
  then show ?thesis using fold_group_successor_latest [OF ex_fold(1), of ex_new] by auto
qed


theorem anchor_commit_is_base_witness:
  "anchor_commits demo_env [(''c2'', ex_new), (''c1'', ex_old)] ''e1'' = Some ''c1'' \<and>
   ''c1'' \<in> all_anchor_commits demo_env [(''c2'', ex_new), (''c1'', ex_old)] ''e1''"
proof -
  let ?rs = "[(''c2'', ex_new), (''c1'', ex_old)]"
  have keys: "resolve_entity_id demo_env ex_new = ''e1''" "resolve_entity_id demo_env ex_old = ''e1''"
    by (simp_all add: ex_defs resolve_entity_id_def)
  have a: "anchor_commits demo_env ?rs ''e1'' = Some ''c1''"
    unfolding anchor_commits_def anchor_loop by (simp add: keys)
  have f: "fold_group (filter (\<lambda>r. resolve_entity_id demo_env r = ''e1'') (map snd ?rs)) =
      fold_group [ex_old, ex_new]"
    using ex_fold(2) by (simp add: keys del: ex_fold)
  show ?thesis using a anchor_commit_is_base [OF a f [unfolded ex_fold(1)]] by blast
qed

theorem resolve_source_ref_earliest_reachable_witness:
  "resolve_source_ref [(''old'', 100), (''new'', 200)] (\<lambda>c. c = ''new'') = Some ''new''"
proof -
  let ?a = "[(''old'', 100), (''new'', 200)]" and ?r = "\<lambda>c. c = ''new''"
  obtain c where c: "resolve_source_ref ?a ?r = Some c"
    using resolve_source_ref_earliest_reachable [of ?a ?r] by auto
  then have "c = ''new''"
    using resolve_source_ref_earliest_reachable [of ?a ?r] by auto
  with c show ?thesis by simp
qed

end
