(* ===== verification/Effect.thy ===== *)
theory Effect
  imports Prelude
begin

text \<open>
  Stateful operations that may fail: an operation takes the state and returns the new state with
  an error (\<open>Inl\<close>) or a value (\<open>Inr\<close>). A failed operation keeps the writes it made before
  failing, as a method on \<open>&self\<close> over a database connection does; \<open>transaction\<close> (BEGIN, then
  COMMIT or ROLLBACK) is what takes them back.
\<close>

type_synonym ('s, 'e, 'a) st = "'s \<Rightarrow> 's \<times> ('e + 'a)"

definition ok :: "'a \<Rightarrow> ('s, 'e, 'a) st" where
  "ok x = (\<lambda>s. (s, Inr x))"

definition fail :: "'e \<Rightarrow> ('s, 'e, 'a) st" where
  "fail e = (\<lambda>s. (s, Inl e))"

definition query :: "('s \<Rightarrow> 'a) \<Rightarrow> ('s, 'e, 'a) st" where
  "query f = (\<lambda>s. (s, Inr (f s)))"

definition lift :: "'e + 'a \<Rightarrow> ('s, 'e, 'a) st" where
  "lift r = (\<lambda>s. (s, r))"

definition modify :: "('s \<Rightarrow> 's) \<Rightarrow> ('s, 'e, unit) st" where
  "modify f = (\<lambda>s. (f s, Inr ()))"

text \<open>A read that may fail, and a call whose error is inspected instead of returned.\<close>

definition reading :: "('s \<Rightarrow> 'e + 'a) \<Rightarrow> ('s, 'e, 'a) st" where
  "reading f = (\<lambda>s. (s, f s))"

definition attempt :: "('s, 'e, 'a) st \<Rightarrow> ('s, 'e, 'e + 'a) st" where
  "attempt m = (\<lambda>s. case m s of (t, r) \<Rightarrow> (t, Inr r))"

text \<open>\<open>let x = m?; f x\<close>.\<close>

definition bind :: "('s, 'e, 'a) st \<Rightarrow> ('a \<Rightarrow> ('s, 'e, 'b) st) \<Rightarrow> ('s, 'e, 'b) st" where
  "bind m f = (\<lambda>s. case m s of (t, Inl e) \<Rightarrow> (t, Inl e) | (t, Inr x) \<Rightarrow> f x t)"

text \<open>\<open>for x in xs { f(x)?; }\<close>, with an accumulator and without.\<close>

fun fold_each :: "('a \<Rightarrow> 'b \<Rightarrow> ('s, 'e, 'b) st) \<Rightarrow> 'a list \<Rightarrow> 'b \<Rightarrow> ('s, 'e, 'b) st" where
  "fold_each f [] b = ok b"
| "fold_each f (x # xs) b = bind (f x b) (fold_each f xs)"

definition for_each :: "('a \<Rightarrow> ('s, 'e, unit) st) \<Rightarrow> 'a list \<Rightarrow> ('s, 'e, unit) st" where
  "for_each f xs = fold_each (\<lambda>x _. f x) xs ()"

text \<open>BEGIN, the body, COMMIT when it is \<open>Ok\<close> and ROLLBACK when it is not.\<close>

definition transaction :: "('s, 'e, 'a) st \<Rightarrow> ('s, 'e, 'a) st" where
  "transaction body = (\<lambda>s. case body s of (t, Inl e) \<Rightarrow> (s, Inl e) | (t, Inr x) \<Rightarrow> (t, Inr x))"

section \<open>Evaluation\<close>

lemma effect_simps [simp]:
  "ok x s = (s, Inr x)"
  "fail e s = (s, Inl e)"
  "query g s = (s, Inr (g s))"
  "lift r s = (s, r)"
  "modify h s = (h s, Inr ())"
  "reading k s = (s, k s)"
  by (simp_all add: ok_def fail_def query_def lift_def modify_def reading_def)

lemma bind_ok [simp]: "bind (ok x) f = f x"
  by (simp add: bind_def ok_def)

lemma bind_Inr: "m s = (t, Inr x) \<Longrightarrow> bind m f s = f x t"
  by (simp add: bind_def)

lemma bind_Inl: "m s = (t, Inl e) \<Longrightarrow> bind m f s = (t, Inl e)"
  by (simp add: bind_def)

lemma bind_query [simp]: "bind (query g) f s = f (g s) s"
  by (simp add: bind_def)

lemma bind_modify [simp]: "bind (modify h) f s = f () (h s)"
  by (simp add: bind_def)

lemma bind_fail [simp]: "bind (fail e) f s = (s, Inl e)"
  by (simp add: bind_def)

lemma bind_attempt: "bind (attempt m) f s = (case m s of (t, r) \<Rightarrow> f r t)"
  by (simp add: bind_def attempt_def split: prod.splits)

lemma bind_reading:
  "bind (reading k) f s = (case k s of Inl e \<Rightarrow> (s, Inl e) | Inr x \<Rightarrow> f x s)"
  by (simp add: bind_def split: sum.splits)

lemma bind_lift: "bind (lift r) f s = (case r of Inl e \<Rightarrow> (s, Inl e) | Inr x \<Rightarrow> f x s)"
  by (simp add: bind_def split: sum.splits)

lemma bind_eq_Inr:
  "bind m f s = (t, Inr y) \<longleftrightarrow> (\<exists>u x. m s = (u, Inr x) \<and> f x u = (t, Inr y))"
  by (auto simp: bind_def split: prod.splits sum.splits)

lemma transaction_eq_Inr: "transaction m s = (t, Inr y) \<longleftrightarrow> m s = (t, Inr y)"
  by (auto simp: transaction_def split: prod.splits sum.splits)

text \<open>An operation in a transaction that fails leaves the state as it was.\<close>

lemma transaction_atomic: "transaction m s = (t, Inl e) \<Longrightarrow> t = s"
  by (auto simp: transaction_def split: prod.splits sum.splits)

section \<open>Relations between the state before and after\<close>

text \<open>
  \<open>keeps R m\<close>: whatever \<open>m\<close> returns, the states before and after are related. With a reflexive
  and transitive \<open>R\<close> the law composes.
\<close>

definition keeps :: "('s \<Rightarrow> 's \<Rightarrow> bool) \<Rightarrow> ('s, 'e, 'a) st \<Rightarrow> bool" where
  "keeps R m = (\<forall>s. R s (fst (m s)))"

locale step_relation =
  fixes R :: "'s \<Rightarrow> 's \<Rightarrow> bool"
  assumes R_refl: "R s s"
    and R_trans: "R s t \<Longrightarrow> R t u \<Longrightarrow> R s u"
begin

lemma keeps_bind:
  assumes "keeps R m" and "\<And>x. keeps R (f x)"
  shows "keeps R (bind m f)"
proof -
  have "R s (fst (bind m f s))" for s
  proof (cases "m s")
    case (Pair t r)
    with assms(1) have st: "R s t" by (metis fst_conv keeps_def)
    show ?thesis
    proof (cases r)
      case (Inr x)
      from assms(2) have "R t (fst (f x t))" by (simp add: keeps_def)
      with st Pair Inr show ?thesis by (auto simp: bind_def intro: R_trans)
    qed (use st Pair in \<open>simp add: bind_def\<close>)
  qed
  then show ?thesis by (simp add: keeps_def)
qed

lemma keeps_pure: "keeps R (ok x)" "keeps R (fail e)" "keeps R (query g)" "keeps R (lift r)"
  "keeps R (reading k)"
  by (simp_all add: keeps_def R_refl)

lemma keeps_fold_each: "(\<And>x b. keeps R (f x b)) \<Longrightarrow> keeps R (fold_each f xs b)"
  by (induction xs arbitrary: b) (simp_all add: keeps_pure keeps_bind)

lemma keeps_for_each: "(\<And>x. keeps R (f x)) \<Longrightarrow> keeps R (for_each f xs)"
  by (simp add: for_each_def keeps_fold_each)

lemma keeps_transaction: "keeps R m \<Longrightarrow> keeps R (transaction m)"
  unfolding keeps_def transaction_def
  by (metis (no_types, lifting) R_refl case_prod_beta fst_conv old.sum.simps(5,6) sum.exhaust)

lemma keeps_attempt: "keeps R m \<Longrightarrow> keeps R (attempt m)"
  by (auto simp: keeps_def attempt_def case_prod_beta)

lemmas keeps_intros = keeps_attempt keeps_bind keeps_pure keeps_fold_each keeps_for_each keeps_transaction

end

text \<open>An invariant is the relation that carries it from the state before to the state after.\<close>

definition carries :: "('s \<Rightarrow> bool) \<Rightarrow> 's \<Rightarrow> 's \<Rightarrow> bool" where
  "carries P s t = (P s \<longrightarrow> P t)"

interpretation inv: step_relation "carries P" for P
  by unfold_locales (auto simp: carries_def)

lemma keeps_carriesD: "keeps (carries P) m \<Longrightarrow> P s \<Longrightarrow> m s = (t, r) \<Longrightarrow> P t"
  by (metis carries_def fst_conv keeps_def)

lemma keeps_If: "keeps R m \<Longrightarrow> keeps R n \<Longrightarrow> keeps R (if b then m else n)"
  by simp

lemma keeps_case_option:
  "keeps R m \<Longrightarrow> (\<And>x. keeps R (f x)) \<Longrightarrow> keeps R (case v of None \<Rightarrow> m | Some x \<Rightarrow> f x)"
  by (cases v) auto

lemma keeps_case_prod: "(\<And>x y. keeps R (f x y)) \<Longrightarrow> keeps R (case p of (x, y) \<Rightarrow> f x y)"
  by (cases p) simp

lemma keeps_state: "(\<And>s. R s (fst (m s))) \<Longrightarrow> keeps R m"
  by (simp add: keeps_def)

end
