(* ===== verification/File_Links.thy ===== *)
theory File_Links
  imports Identity
begin

text \<open>
  Linked-file paths (\<open>storage/memory/file_links.rs\<close>): a raw path is made relative to the project
  root and forward-slashed, purely on its text; one that leaves the root is refused. The state of
  a path comes from git and the file system, which are parameters. Paths are those of Unix: the
  code's \<open>std::path\<close> splits on the slash only.
\<close>

section \<open>Paths as components\<close>

datatype component = RootDir | CurDir | ParentDir | Normal string

definition is_absolute :: "string \<Rightarrow> bool" where
  "is_absolute p = (case p of [] \<Rightarrow> False | c # _ \<Rightarrow> c = CHR ''/'')"

definition piece_component :: "string \<Rightarrow> component" where
  "piece_component p = (if p = ''..'' then ParentDir else Normal p)"

text \<open>
  \<open>Path::components\<close>: repeated slashes and \<open>.\<close> vanish, except a \<open>.\<close> at the start of a relative
  path.
\<close>

definition path_components :: "string \<Rightarrow> component list" where
  "path_components p =
     (let ps = filter (\<lambda>q. q \<noteq> []) (split_on CHR ''/'' p);
          lead = (if is_absolute p then [RootDir]
                  else if ps \<noteq> [] \<and> hd ps = ''.'' then [CurDir] else [])
      in lead @ map piece_component (filter (\<lambda>q. q \<noteq> ''.'') ps))"

text \<open>\<open>Path::join\<close>: an absolute second path replaces the first.\<close>

definition path_join :: "string \<Rightarrow> string \<Rightarrow> string" where
  "path_join root p =
     (if is_absolute p then p
      else if root = [] \<or> last root = CHR ''/'' then root @ p
      else root @ ''/'' @ p)"

text \<open>\<open>PathBuf::pop\<close> on a normalised path: the root directory and the empty path stay.\<close>

definition path_pop :: "component list \<Rightarrow> component list" where
  "path_pop out = (if out = [] \<or> last out = RootDir then out else butlast out)"

fun normalize_step :: "component \<Rightarrow> component list \<Rightarrow> component list" where
  "normalize_step ParentDir out = path_pop out"
| "normalize_step CurDir out = out"
| "normalize_step other out = out @ [other]"

definition lexically_normalize :: "string \<Rightarrow> component list" where
  "lexically_normalize p = fold normalize_step (path_components p) []"

fun component_str :: "component \<Rightarrow> string" where
  "component_str RootDir = ''/''"
| "component_str CurDir = ''.''"
| "component_str ParentDir = ''..''"
| "component_str (Normal p) = p"

fun strip_components :: "component list \<Rightarrow> component list \<Rightarrow> component list option" where
  "strip_components [] cs = Some cs"
| "strip_components (p # ps) [] = None"
| "strip_components (p # ps) (c # cs) = (if p = c then strip_components ps cs else None)"

section \<open>Normalising a linked path\<close>

datatype path_error = PathEmpty | PathEscapes string | PathIsRoot string

definition normalize_relative_path :: "string \<Rightarrow> string \<Rightarrow> path_error + string" where
  "normalize_relative_path root raw =
     (let slashed = replace_char CHR 0x5C CHR ''/'' (trim raw) in
      if slashed = [] then Inl PathEmpty
      else
        let candidate = (if is_absolute slashed then slashed else path_join root slashed) in
        case strip_components (lexically_normalize root) (lexically_normalize candidate) of
          None \<Rightarrow> Inl (PathEscapes raw)
        | Some rel \<Rightarrow>
            let joined = map component_str rel in
            if joined = [] then Inl (PathIsRoot raw) else Inr (join ''/'' joined))"

datatype file_state = Tracked | Untracked | Missing

fun file_state_as_str :: "file_state \<Rightarrow> string" where
  "file_state_as_str Tracked = ''tracked''"
| "file_state_as_str Untracked = ''untracked''"
| "file_state_as_str Missing = ''missing''"

record resolved_file_link =
  link_path :: string
  link_state :: file_state
  link_checked_at :: int

definition determine_state :: "env \<Rightarrow> string \<Rightarrow> string \<Rightarrow> file_state" where
  "determine_state E root rel_path =
     (if git_tracked E root rel_path then Tracked
      else if path_exists E root rel_path then Untracked else Missing)"

definition resolve_file_link ::
    "env \<Rightarrow> int \<Rightarrow> string \<Rightarrow> string \<Rightarrow> path_error + resolved_file_link" where
  "resolve_file_link E now root raw =
     and_then (normalize_relative_path root raw) (\<lambda>p.
       Inr \<lparr>link_path = p, link_state = determine_state E root p, link_checked_at = now\<rparr>)"

section \<open>Staying under the root\<close>

text \<open>A normalised absolute path: the root directory, then plain names.\<close>

definition plain_name :: "component \<Rightarrow> bool" where
  "plain_name c = (\<exists>p. c = Normal p \<and> p \<noteq> [] \<and> p \<noteq> ''.'' \<and> p \<noteq> ''..'' \<and> CHR ''/'' \<notin> set p)"

lemma piece_component_cases:
  "p \<in> set (split_on CHR ''/'' s) \<Longrightarrow> p \<noteq> [] \<Longrightarrow> p \<noteq> ''.'' \<Longrightarrow>
     piece_component p = ParentDir \<or> plain_name (piece_component p)"
  by (auto simp: piece_component_def plain_name_def dest: split_on_no_sep)

lemma normalize_step_absolute:
  assumes "hd out = RootDir" and "out \<noteq> []" and "\<forall>c \<in> set (tl out). plain_name c"
    and "c = ParentDir \<or> c = CurDir \<or> plain_name c"
  shows "hd (normalize_step c out) = RootDir \<and> normalize_step c out \<noteq> [] \<and>
     (\<forall>d \<in> set (tl (normalize_step c out)). plain_name d)"
proof -
  from assms(1,2) obtain rest where out: "out = RootDir # rest" by (cases out) auto
  show ?thesis
  proof (cases c)
    case ParentDir
    with out assms(3) show ?thesis
      by (cases rest rule: rev_cases) (auto simp: path_pop_def)
  qed (use out assms in \<open>auto simp: plain_name_def\<close>)
qed

lemma fold_normalize_absolute:
  assumes "hd out = RootDir" and "out \<noteq> []" and "\<forall>c \<in> set (tl out). plain_name c"
    and "\<forall>c \<in> set cs. c = ParentDir \<or> c = CurDir \<or> plain_name c"
  shows "hd (fold normalize_step cs out) = RootDir \<and> fold normalize_step cs out \<noteq> [] \<and>
     (\<forall>d \<in> set (tl (fold normalize_step cs out)). plain_name d)"
  using assms
proof (induction cs arbitrary: out)
  case Nil
  then show ?case by simp
next
  case (Cons c cs)
  from Cons.prems(4) have c: "c = ParentDir \<or> c = CurDir \<or> plain_name c"
    and cs: "\<forall>c \<in> set cs. c = ParentDir \<or> c = CurDir \<or> plain_name c" by auto
  note step = normalize_step_absolute [OF Cons.prems(1-3) c]
  from step have s1: "hd (normalize_step c out) = RootDir"
    and s2: "normalize_step c out \<noteq> []"
    and s3: "\<forall>d \<in> set (tl (normalize_step c out)). plain_name d" by auto
  from Cons.IH [OF s1 s2 s3 cs] show ?case by simp
qed

lemma path_components_pieces:
  "is_absolute p \<Longrightarrow> \<exists>cs. path_components p = RootDir # cs \<and>
     (\<forall>c \<in> set cs. c = ParentDir \<or> c = CurDir \<or> plain_name c)"
  using piece_component_cases [of _ p] by (auto simp: path_components_def Let_def)

lemma lexically_normalize_absolute:
  assumes "is_absolute p"
  shows "\<exists>rest. lexically_normalize p = RootDir # rest \<and> (\<forall>c \<in> set rest. plain_name c)"
proof -
  from path_components_pieces [OF assms] obtain cs where
    cs: "path_components p = RootDir # cs" "\<forall>c \<in> set cs. c = ParentDir \<or> c = CurDir \<or> plain_name c"
    by auto
  have "lexically_normalize p = fold normalize_step cs [RootDir]"
    by (simp add: lexically_normalize_def cs(1))
  with fold_normalize_absolute [of "[RootDir]" cs] cs(2) show ?thesis
    by (metis empty_iff empty_set hd_Cons_tl list.distinct(1) list.sel(1) list.sel(3))
qed

lemma strip_components_Some: "strip_components ps cs = Some rel \<longleftrightarrow> cs = ps @ rel"
  by (induction ps cs rule: strip_components.induct) auto


lemma split_on_append: "split_on d (a @ d # b) = split_on d a @ split_on d b"
proof (induction a)
  case (Cons c a)
  then show ?case by (cases "split_on d a") auto
qed simp

lemma path_join_pieces:
  assumes "\<not> is_absolute p"
  shows "filter (\<lambda>q. q \<noteq> []) (split_on CHR ''/'' (path_join root p)) =
     filter (\<lambda>q. q \<noteq> []) (split_on CHR ''/'' root) @ filter (\<lambda>q. q \<noteq> []) (split_on CHR ''/'' p)"
proof (cases "root = []")
  case False
  then obtain r c where root: "root = r @ [c]" by (cases root rule: rev_cases) auto
  show ?thesis
  proof (cases "c = CHR ''/''")
    case True
    with root assms show ?thesis
      by (simp add: path_join_def split_on_append)
  next
    case c: False
    with assms root have "path_join root p = root @ CHR ''/'' # p" by (simp add: path_join_def)
    then show ?thesis by (simp add: split_on_append)
  qed
qed (use assms in \<open>simp add: path_join_def\<close>)

lemma is_absolute_join: "is_absolute root \<Longrightarrow> is_absolute (path_join root p)"
  by (cases root) (auto simp: is_absolute_def path_join_def)

lemma path_components_join:
  assumes "\<not> is_absolute p" and "is_absolute root"
  shows "path_components (path_join root p) = path_components root @
     map piece_component (filter (\<lambda>q. q \<noteq> ''.'') (filter (\<lambda>q. q \<noteq> []) (split_on CHR ''/'' p)))"
  using path_join_pieces [OF assms(1), of root] is_absolute_join [OF assms(2), of p] assms(2)
  by (simp add: path_components_def Let_def)

lemma fold_normalize_plain:
  "\<forall>c \<in> set cs. plain_name c \<Longrightarrow> fold normalize_step cs out = out @ cs"
proof (induction cs arbitrary: out)
  case (Cons c cs)
  then obtain q where "c = Normal q" by (auto simp: plain_name_def)
  with Cons show ?case by simp
qed simp

lemma plain_pieces:
  assumes "\<forall>c \<in> set cs. plain_name c" and "cs \<noteq> []"
  shows "split_on CHR ''/'' (join ''/'' (map component_str cs)) = map component_str cs"
    and "map piece_component (map component_str cs) = cs"
    and "filter (\<lambda>q. q \<noteq> ''.'') (filter (\<lambda>q. q \<noteq> []) (map component_str cs)) = map component_str cs"
    and "\<not> is_absolute (join ''/'' (map component_str cs))"
proof -
  have plain: "\<exists>q. c = Normal q \<and> q \<noteq> [] \<and> q \<noteq> ''.'' \<and> q \<noteq> ''..'' \<and> CHR ''/'' \<notin> set q"
    if "c \<in> set cs" for c using assms(1) that unfolding plain_name_def by blast
  have strs: "component_str c \<noteq> [] \<and> component_str c \<noteq> ''.'' \<and> CHR ''/'' \<notin> set (component_str c) \<and>
      piece_component (component_str c) = c" if "c \<in> set cs" for c
    using plain [OF that] by (auto simp: piece_component_def)
  show "split_on CHR ''/'' (join ''/'' (map component_str cs)) = map component_str cs"
    by (rule split_on_join) (use assms(2) strs in auto)
  show "map piece_component (map component_str cs) = cs"
    using strs by (simp add: map_idI)
  show "filter (\<lambda>q. q \<noteq> ''.'') (filter (\<lambda>q. q \<noteq> []) (map component_str cs)) = map component_str cs"
    using strs by (auto simp: filter_id_conv)
  obtain c ds where cs: "cs = c # ds" using assms(2) by (cases cs) auto
  then have "component_str c \<noteq> []" "CHR ''/'' \<notin> set (component_str c)" using strs by auto
  then show "\<not> is_absolute (join ''/'' (map component_str cs))"
    unfolding cs by (cases "component_str c"; cases ds) (auto simp: is_absolute_def)
qed

lemma normalize_relative_path_SomeE:
  assumes "normalize_relative_path root raw = Inr p" and "is_absolute root"
  obtains cs where "p = join ''/'' (map component_str cs)" and "cs \<noteq> []"
    and "\<forall>c \<in> set cs. plain_name c"
proof -
  define slashed where "slashed = replace_char CHR 0x5C CHR ''/'' (trim raw)"
  define cand where "cand = (if is_absolute slashed then slashed else path_join root slashed)"
  have abs: "is_absolute cand" using assms(2) by (simp add: cand_def is_absolute_join)
  from assms(1) obtain rel where rel: "lexically_normalize cand = lexically_normalize root @ rel"
    and p: "p = join ''/'' (map component_str rel)" and ne: "rel \<noteq> []"
    unfolding normalize_relative_path_def Let_def slashed_def [symmetric] cand_def [symmetric]
    by (auto split: if_splits option.splits simp: strip_components_Some)
  from lexically_normalize_absolute [OF abs] lexically_normalize_absolute [OF assms(2)] rel
  have "\<forall>c \<in> set rel. plain_name c" by auto
  with p ne show thesis by (rule that)
qed

lemma normalize_relative_path_pieces:
  assumes "\<forall>c \<in> set cs. plain_name c" and "cs \<noteq> []" and "is_absolute root"
  shows "lexically_normalize (path_join root (join ''/'' (map component_str cs))) =
     lexically_normalize root @ cs"
  unfolding lexically_normalize_def path_components_join [OF plain_pieces(4) [OF assms(1,2)] assms(3)]
    plain_pieces(1) [OF assms(1,2)] plain_pieces(3) [OF assms(1,2)] plain_pieces(2) [OF assms(1,2)]
  by (simp add: fold_normalize_plain [OF assms(1)])

section \<open>Properties\<close>



text \<open>
  With a relative project root - the empty path that opening \<open>.inkentry/memory.db\<close> gives, or
  the fallback \<open>.\<close> - the check does not hold: a path that climbs out of the root is stored as
  if it were inside and an absolute path outside it is accepted, where an absolute root refuses
  both.
\<close>
theorem relative_root_does_not_confine:
  "normalize_relative_path [] ''../secret'' = Inr ''secret'' \<and>
   normalize_relative_path ''.'' ''../secret'' = Inr ''secret'' \<and>
   normalize_relative_path ''.'' ''/etc/passwd'' = Inr ''//etc/passwd'' \<and>
   normalize_relative_path ''/repo'' ''../secret'' = Inl (PathEscapes ''../secret'') \<and>
   normalize_relative_path ''/repo'' ''/etc/passwd'' = Inl (PathEscapes ''/etc/passwd'')"
  by code_simp

end
