(* ===== verification/Store.thy ===== *)
theory Store
  imports Effect Note_Record File_Links
begin

text \<open>
  The tables of \<open>memory.db\<close> (\<open>migrations/memory_001_initial.sql\<close> and its later steps, opened by
  \<open>storage/memory/mod.rs\<close>) and the SQL statements the store runs on them. SQLite is outside the
  program; what its documentation says of the declared constraints is written out: UNIQUE
  indexes on \<open>uuid\<close>, \<open>entity_id\<close> and \<open>remote_id\<close>, immediate foreign keys (\<open>superseded_by\<close>
  without an action, the others ON DELETE CASCADE), AUTOINCREMENT, INSERT OR IGNORE, which
  ignores a key or CHECK conflict and still fails on a foreign key. A statement that fails
  changes nothing. Rows stand in the order of their row ids. The full-text index follows the
  tables by trigger and is left out, and so are input/output failures.
\<close>

section \<open>Tables\<close>

record notes_row =
  row_id :: nat
  row_uuid :: string
  row_kind :: string
  row_title :: string
  row_body :: string
  row_created_at :: int
  row_status :: string
  row_superseded_by :: "string option"
  row_source_ref :: "string option"
  row_valid_at :: "int option"
  row_invalid_at :: "int option"
  row_entity_id :: string
  row_remote_id :: "string option"
  row_origin_actor_kind :: "string option"
  row_origin_tool :: "string option"
  row_origin_model :: "string option"

record file_row =
  file_note :: string
  file_path :: string
  file_row_state :: string
  file_checked_at :: int

record edge_row =
  edge_from_id :: string
  edge_to_id :: string
  edge_row_kind :: string
  edge_created_at :: int

record pending_anchor =
  anchor_entity_id :: string
  anchor_worktree :: string
  anchor_head_at_write :: string
  anchor_created_at :: int

record notes_import_marker =
  last_merged_tracking_oid :: "string option"
  last_imported_working_oid :: "string option"

record memory_store =
  note_rows :: "notes_row list"
  rowid_seq :: nat
  note_tags :: "(string \<times> string) list"
  note_files :: "file_row list"
  memory_edges :: "edge_row list"
  note_embeddings :: "(nat \<times> string) list"
  pending_anchors :: "pending_anchor list"
  patch_id_cache :: "(string \<times> string option) list"
  notes_import_state :: "notes_import_marker option"
  project_root :: string

definition empty_store :: "string \<Rightarrow> memory_store" where
  "empty_store root = \<lparr>note_rows = [], rowid_seq = 0, note_tags = [], note_files = [],
     memory_edges = [], note_embeddings = [], pending_anchors = [], patch_id_cache = [],
     notes_import_state = None, project_root = root\<rparr>"

datatype sql_error = UniqueViolation | ForeignKeyViolation | QueryReturnedNoRows

datatype store_error =
    Sql sql_error
  | BadNoteId
  | BadPath path_error
  | NoteVanished
  | NoActiveEntry string
  | InvalidEdgeKind string
  | UuidTaken string
  | RemoteIdTaken string
  | IdentityCollides
  | NoEntryToEmbed string

type_synonym 'a op = "(memory_store, store_error, 'a) st"

definition note_uuids :: "memory_store \<Rightarrow> string list" where
  "note_uuids s = map row_uuid (note_rows s)"

definition remote_ids :: "notes_row list \<Rightarrow> string list" where
  "remote_ids rs = List.map_filter row_remote_id rs"

definition file_key :: "file_row \<Rightarrow> string \<times> string" where
  "file_key f = (file_note f, file_path f)"

definition edge_key :: "edge_row \<Rightarrow> string \<times> string \<times> string" where
  "edge_key e = (edge_from_id e, edge_to_id e, edge_row_kind e)"

definition EDGE_KINDS :: "string list" where
  "EDGE_KINDS = [''supersedes'', ''relates_to'', ''contradicts'']"

section \<open>Statements\<close>

text \<open>\<open>INSERT INTO notes\<close> of a row whose \<open>superseded_by\<close> is NULL; the row id is assigned.\<close>

definition sql_insert_note :: "notes_row \<Rightarrow> unit op" where
  "sql_insert_note r = (\<lambda>s.
     if row_uuid r \<in> set (note_uuids s) \<or> row_entity_id r \<in> set (map row_entity_id (note_rows s)) \<or>
        (case row_remote_id r of None \<Rightarrow> False | Some x \<Rightarrow> x \<in> set (remote_ids (note_rows s)))
     then (s, Inl (Sql UniqueViolation))
     else (s\<lparr>note_rows := note_rows s @ [r\<lparr>row_id := Suc (rowid_seq s)\<rparr>],
             rowid_seq := Suc (rowid_seq s)\<rparr>, Inr ()))"

text \<open>\<open>UPDATE notes SET f WHERE P\<close>, returning the number of rows matched.\<close>

definition sql_update ::
    "(notes_row \<Rightarrow> bool) \<Rightarrow> (notes_row \<Rightarrow> notes_row) \<Rightarrow> nat op" where
  "sql_update P f = (\<lambda>s.
     let old = note_rows s; new = map (\<lambda>r. if P r then f r else r) old in
     if list_ex (\<lambda>r. P r \<and> row_remote_id (f r) \<noteq> row_remote_id r) old \<and> \<not> distinct (remote_ids new)
     then (s, Inl (Sql UniqueViolation))
     else if list_ex (\<lambda>r. P r \<and> row_superseded_by (f r) \<noteq> row_superseded_by r \<and>
               (case row_superseded_by (f r) of None \<Rightarrow> False | Some u \<Rightarrow> u \<notin> set (note_uuids s))) old
     then (s, Inl (Sql ForeignKeyViolation))
     else (s\<lparr>note_rows := new\<rparr>, Inr (length (filter P old))))"

text \<open>\<open>DELETE FROM notes WHERE uuid = u\<close>, with its cascades.\<close>

definition sql_delete_note :: "string \<Rightarrow> unit op" where
  "sql_delete_note u = (\<lambda>s.
     if u \<notin> set (note_uuids s) then (s, Inr ())
     else if list_ex (\<lambda>r. row_uuid r \<noteq> u \<and> row_superseded_by r = Some u) (note_rows s)
     then (s, Inl (Sql ForeignKeyViolation))
     else (s\<lparr>note_rows := filter (\<lambda>r. row_uuid r \<noteq> u) (note_rows s),
             note_tags := filter (\<lambda>t. fst t \<noteq> u) (note_tags s),
             note_files := filter (\<lambda>f. file_note f \<noteq> u) (note_files s),
             memory_edges := filter (\<lambda>e. edge_from_id e \<noteq> u \<and> edge_to_id e \<noteq> u) (memory_edges s)\<rparr>,
           Inr ()))"

text \<open>\<open>INSERT OR IGNORE\<close> into the three tables keyed on a note, returning the rows added.\<close>

definition sql_insert_tag :: "string \<Rightarrow> string \<Rightarrow> nat op" where
  "sql_insert_tag u t = (\<lambda>s.
     if (u, t) \<in> set (note_tags s) then (s, Inr 0)
     else if u \<notin> set (note_uuids s) then (s, Inl (Sql ForeignKeyViolation))
     else (s\<lparr>note_tags := note_tags s @ [(u, t)]\<rparr>, Inr 1))"

definition sql_insert_file :: "file_row \<Rightarrow> nat op" where
  "sql_insert_file f = (\<lambda>s.
     if file_key f \<in> set (map file_key (note_files s)) then (s, Inr 0)
     else if file_note f \<notin> set (note_uuids s) then (s, Inl (Sql ForeignKeyViolation))
     else (s\<lparr>note_files := note_files s @ [f]\<rparr>, Inr 1))"

definition sql_insert_edge :: "edge_row \<Rightarrow> nat op" where
  "sql_insert_edge e = (\<lambda>s.
     if edge_row_kind e \<notin> set EDGE_KINDS \<or> edge_key e \<in> set (map edge_key (memory_edges s))
     then (s, Inr 0)
     else if edge_from_id e \<notin> set (note_uuids s) \<or> edge_to_id e \<notin> set (note_uuids s)
     then (s, Inl (Sql ForeignKeyViolation))
     else (s\<lparr>memory_edges := memory_edges s @ [e]\<rparr>, Inr 1))"

section \<open>Reading rows\<close>

definition select_one :: "(notes_row \<Rightarrow> bool) \<Rightarrow> memory_store \<Rightarrow> notes_row option" where
  "select_one P s = find P (note_rows s)"

definition rowid_for :: "memory_store \<Rightarrow> note_id \<Rightarrow> nat option" where
  "rowid_for s i = map_option row_id (select_one (\<lambda>r. row_uuid r = i) s)"

definition parse_id :: "string \<Rightarrow> store_error + note_id" where
  "parse_id u = (case note_id_from_str u of Inl _ \<Rightarrow> Inl BadNoteId | Inr i \<Rightarrow> Inr i)"

text \<open>An id read from an optional row: \<open>raw.map(NoteId::from_str).transpose()\<close>.\<close>

definition id_of_row :: "notes_row option \<Rightarrow> store_error + note_id option" where
  "id_of_row r = (case r of None \<Rightarrow> Inr None
     | Some r \<Rightarrow> and_then (parse_id (row_uuid r)) (\<lambda>i. Inr (Some i)))"

definition uuid_for_rowid :: "memory_store \<Rightarrow> nat \<Rightarrow> store_error + note_id option" where
  "uuid_for_rowid s n = id_of_row (select_one (\<lambda>r. row_id r = n) s)"

lemma parse_id_eq [simp]: "parse_id u = (if u = [] then Inl BadNoteId else Inr u)"
  by (simp add: parse_id_def note_id_from_str_def)

section \<open>The store invariant\<close>

text \<open>
  What the schema declares: unique keys, row ids below the sequence, no dangling reference, edge
  kinds from the vocabulary; and what the code keeps on top of it: no empty id, no empty tag,
  no embedding without its note.
\<close>

definition wf_keys :: "memory_store \<Rightarrow> bool" where
  "wf_keys s = (sorted_wrt (<) (map row_id (note_rows s)) \<and>
     (\<forall>r \<in> set (note_rows s). row_id r \<le> rowid_seq s \<and> row_uuid r \<noteq> []) \<and>
     distinct (note_uuids s) \<and> distinct (map row_entity_id (note_rows s)) \<and>
     distinct (remote_ids (note_rows s)))"

definition wf_superseded :: "memory_store \<Rightarrow> bool" where
  "wf_superseded s = (\<forall>r \<in> set (note_rows s).
     case row_superseded_by r of None \<Rightarrow> True | Some u \<Rightarrow> u \<in> set (note_uuids s))"

definition wf_tags :: "memory_store \<Rightarrow> bool" where
  "wf_tags s = (distinct (note_tags s) \<and>
     (\<forall>t \<in> set (note_tags s). fst t \<in> set (note_uuids s) \<and> snd t \<noteq> []))"

definition wf_files :: "memory_store \<Rightarrow> bool" where
  "wf_files s = (distinct (map file_key (note_files s)) \<and>
     (\<forall>f \<in> set (note_files s). file_note f \<in> set (note_uuids s)))"

definition wf_edges :: "memory_store \<Rightarrow> bool" where
  "wf_edges s = (distinct (map edge_key (memory_edges s)) \<and>
     (\<forall>e \<in> set (memory_edges s). edge_from_id e \<in> set (note_uuids s) \<and>
        edge_to_id e \<in> set (note_uuids s) \<and> edge_row_kind e \<in> set EDGE_KINDS))"

definition wf_embeddings :: "memory_store \<Rightarrow> bool" where
  "wf_embeddings s = (distinct (map fst (note_embeddings s)) \<and>
     (\<forall>v \<in> set (note_embeddings s). fst v \<in> set (map row_id (note_rows s))))"

definition wf_local :: "memory_store \<Rightarrow> bool" where
  "wf_local s = (distinct (map anchor_entity_id (pending_anchors s)) \<and>
     distinct (map fst (patch_id_cache s)))"

definition wf_store :: "memory_store \<Rightarrow> bool" where
  "wf_store s = (wf_keys s \<and> wf_superseded s \<and> wf_tags s \<and> wf_files s \<and> wf_edges s \<and>
     wf_embeddings s \<and> wf_local s)"

lemmas wf_defs = wf_keys_def wf_superseded_def wf_tags_def wf_files_def wf_edges_def
  wf_embeddings_def wf_local_def

lemma wf_empty_store: "wf_store (empty_store root)"
  by (simp add: wf_store_def wf_defs empty_store_def note_uuids_def remote_ids_def map_filter_def)


section \<open>Every statement keeps the invariant\<close>

lemma remote_ids_append [simp]: "remote_ids (xs @ ys) = remote_ids xs @ remote_ids ys"
  by (simp add: remote_ids_def map_filter_def)

lemma remote_ids_single [simp]:
  "remote_ids [r] = (case row_remote_id r of None \<Rightarrow> [] | Some x \<Rightarrow> [x])"
  by (simp add: remote_ids_def map_filter_def split: option.split)

lemma remote_ids_map_cong:
  "(\<And>r. r \<in> set rs \<Longrightarrow> row_remote_id (f r) = row_remote_id r) \<Longrightarrow>
     remote_ids (map f rs) = remote_ids rs"
  by (induction rs) (simp_all add: remote_ids_def map_filter_def)

lemma distinct_remote_ids_filter: "distinct (remote_ids rs) \<Longrightarrow> distinct (remote_ids (filter P rs))"
proof (induction rs)
  case (Cons r rs)
  have sub: "set (remote_ids (filter P rs)) \<subseteq> set (remote_ids rs)"
    by (auto simp: remote_ids_def map_filter_def)
  with Cons show ?case
    by (auto simp: remote_ids_def map_filter_def split: if_splits)
qed simp

lemma in_note_uuids: "u \<in> set (note_uuids s) \<longleftrightarrow> (\<exists>r \<in> set (note_rows s). row_uuid r = u)"
  by (auto simp: note_uuids_def)

lemma note_uuids_update [simp]:
  "note_uuids (s\<lparr>note_tags := a\<rparr>) = note_uuids s"
  "note_uuids (s\<lparr>note_files := b\<rparr>) = note_uuids s"
  "note_uuids (s\<lparr>memory_edges := c\<rparr>) = note_uuids s"
  "note_uuids (s\<lparr>note_embeddings := d\<rparr>) = note_uuids s"
  "note_uuids (s\<lparr>pending_anchors := e\<rparr>) = note_uuids s"
  "note_uuids (s\<lparr>patch_id_cache := g\<rparr>) = note_uuids s"
  "note_uuids (s\<lparr>notes_import_state := h\<rparr>) = note_uuids s"
  "note_uuids (s\<lparr>rowid_seq := n\<rparr>) = note_uuids s"
  "note_uuids (s\<lparr>note_rows := rs\<rparr>) = map row_uuid rs"
  by (simp_all add: note_uuids_def)

text \<open>Each part of the invariant reads its own tables only.\<close>

lemma wf_frames [simp]:
  "wf_keys (s\<lparr>note_tags := a\<rparr>) = wf_keys s" "wf_keys (s\<lparr>note_files := b\<rparr>) = wf_keys s"
  "wf_keys (s\<lparr>memory_edges := c\<rparr>) = wf_keys s" "wf_keys (s\<lparr>note_embeddings := d\<rparr>) = wf_keys s"
  "wf_keys (s\<lparr>pending_anchors := e\<rparr>) = wf_keys s" "wf_keys (s\<lparr>patch_id_cache := g\<rparr>) = wf_keys s"
  "wf_keys (s\<lparr>notes_import_state := h\<rparr>) = wf_keys s"
  "wf_superseded (s\<lparr>note_tags := a\<rparr>) = wf_superseded s"
  "wf_superseded (s\<lparr>note_files := b\<rparr>) = wf_superseded s"
  "wf_superseded (s\<lparr>memory_edges := c\<rparr>) = wf_superseded s"
  "wf_superseded (s\<lparr>note_embeddings := d\<rparr>) = wf_superseded s"
  "wf_superseded (s\<lparr>pending_anchors := e\<rparr>) = wf_superseded s"
  "wf_superseded (s\<lparr>patch_id_cache := g\<rparr>) = wf_superseded s"
  "wf_superseded (s\<lparr>notes_import_state := h\<rparr>) = wf_superseded s"
  "wf_tags (s\<lparr>note_files := b\<rparr>) = wf_tags s" "wf_tags (s\<lparr>memory_edges := c\<rparr>) = wf_tags s"
  "wf_tags (s\<lparr>note_embeddings := d\<rparr>) = wf_tags s" "wf_tags (s\<lparr>pending_anchors := e\<rparr>) = wf_tags s"
  "wf_tags (s\<lparr>patch_id_cache := g\<rparr>) = wf_tags s" "wf_tags (s\<lparr>notes_import_state := h\<rparr>) = wf_tags s"
  "wf_files (s\<lparr>note_tags := a\<rparr>) = wf_files s" "wf_files (s\<lparr>memory_edges := c\<rparr>) = wf_files s"
  "wf_files (s\<lparr>note_embeddings := d\<rparr>) = wf_files s" "wf_files (s\<lparr>pending_anchors := e\<rparr>) = wf_files s"
  "wf_files (s\<lparr>patch_id_cache := g\<rparr>) = wf_files s" "wf_files (s\<lparr>notes_import_state := h\<rparr>) = wf_files s"
  "wf_edges (s\<lparr>note_tags := a\<rparr>) = wf_edges s" "wf_edges (s\<lparr>note_files := b\<rparr>) = wf_edges s"
  "wf_edges (s\<lparr>note_embeddings := d\<rparr>) = wf_edges s" "wf_edges (s\<lparr>pending_anchors := e\<rparr>) = wf_edges s"
  "wf_edges (s\<lparr>patch_id_cache := g\<rparr>) = wf_edges s" "wf_edges (s\<lparr>notes_import_state := h\<rparr>) = wf_edges s"
  "wf_embeddings (s\<lparr>note_tags := a\<rparr>) = wf_embeddings s"
  "wf_embeddings (s\<lparr>note_files := b\<rparr>) = wf_embeddings s"
  "wf_embeddings (s\<lparr>memory_edges := c\<rparr>) = wf_embeddings s"
  "wf_embeddings (s\<lparr>pending_anchors := e\<rparr>) = wf_embeddings s"
  "wf_embeddings (s\<lparr>patch_id_cache := g\<rparr>) = wf_embeddings s"
  "wf_embeddings (s\<lparr>notes_import_state := h\<rparr>) = wf_embeddings s"
  "wf_local (s\<lparr>note_tags := a\<rparr>) = wf_local s" "wf_local (s\<lparr>note_files := b\<rparr>) = wf_local s"
  "wf_local (s\<lparr>memory_edges := c\<rparr>) = wf_local s" "wf_local (s\<lparr>note_embeddings := d\<rparr>) = wf_local s"
  "wf_local (s\<lparr>notes_import_state := h\<rparr>) = wf_local s"
  by (simp_all add: wf_defs cong: option.case_cong)

lemma wf_insert_note:
  assumes "row_uuid r \<noteq> []" and "row_superseded_by r = None" and "wf_store s"
  shows "wf_store (fst (sql_insert_note r s))"
proof (cases "snd (sql_insert_note r s)")
  case (Inl e)
  then show ?thesis using assms(3) by (auto simp: sql_insert_note_def split: if_splits)
next
  case (Inr x)
  then have new: "fst (sql_insert_note r s) = s\<lparr>note_rows := note_rows s @
      [r\<lparr>row_id := Suc (rowid_seq s)\<rparr>], rowid_seq := Suc (rowid_seq s)\<rparr>"
    and uu: "row_uuid r \<notin> set (note_uuids s)"
    and ee: "row_entity_id r \<notin> set (map row_entity_id (note_rows s))"
    and rr: "\<And>x. row_remote_id r = Some x \<Longrightarrow> x \<notin> set (remote_ids (note_rows s))"
    by (auto simp: sql_insert_note_def split: if_splits)
  from assms(3) have keys: "wf_keys s" and rest: "wf_superseded s" "wf_tags s" "wf_files s"
    "wf_edges s" "wf_embeddings s" "wf_local s" by (simp_all add: wf_store_def)
  have "wf_keys (fst (sql_insert_note r s))"
    using keys uu ee rr assms(1) unfolding new wf_keys_def
    by (auto simp: sorted_wrt_append note_uuids_def split: option.splits)
  moreover have "wf_superseded (fst (sql_insert_note r s))"
    using rest(1) assms(2) unfolding new wf_superseded_def
    by (auto simp: note_uuids_def split: option.splits)
  ultimately show ?thesis
    using rest(2-) unfolding new wf_store_def
    by (auto simp: wf_tags_def wf_files_def wf_edges_def wf_embeddings_def wf_local_def
        note_uuids_def)
qed

text \<open>An update that leaves the keys of a row alone.\<close>

definition same_keys :: "(notes_row \<Rightarrow> notes_row) \<Rightarrow> bool" where
  "same_keys f = (\<forall>r. row_id (f r) = row_id r \<and> row_uuid (f r) = row_uuid r \<and>
     row_entity_id (f r) = row_entity_id r)"

lemma same_keys_maps:
  assumes "same_keys f"
  shows "map row_id (map (\<lambda>r. if P r then f r else r) rs) = map row_id rs"
    and "map row_uuid (map (\<lambda>r. if P r then f r else r) rs) = map row_uuid rs"
    and "map row_entity_id (map (\<lambda>r. if P r then f r else r) rs) = map row_entity_id rs"
  using assms by (simp_all add: same_keys_def)

lemma same_keys_comps:
  assumes "same_keys f"
  shows "map (row_id \<circ> (\<lambda>r. if P r then f r else r)) rs = map row_id rs"
    and "map (row_entity_id \<circ> (\<lambda>r. if P r then f r else r)) rs = map row_entity_id rs"
  using same_keys_maps [OF assms] by simp_all

lemma wf_update:
  assumes "same_keys f" and "wf_store s"
  shows "wf_store (fst (sql_update P f s))"
proof (cases "snd (sql_update P f s)")
  case (Inl e)
  then show ?thesis using assms(2) by (auto simp: sql_update_def Let_def split: if_splits)
next
  case (Inr n)
  let ?new = "map (\<lambda>r. if P r then f r else r) (note_rows s)"
  from Inr have new: "fst (sql_update P f s) = s\<lparr>note_rows := ?new\<rparr>"
    and rem: "list_ex (\<lambda>r. P r \<and> row_remote_id (f r) \<noteq> row_remote_id r) (note_rows s) \<Longrightarrow>
      distinct (remote_ids ?new)"
    and fk: "\<And>r u. r \<in> set (note_rows s) \<Longrightarrow> P r \<Longrightarrow> row_superseded_by (f r) \<noteq> row_superseded_by r \<Longrightarrow>
      row_superseded_by (f r) = Some u \<Longrightarrow> u \<in> set (note_uuids s)"
    by (auto simp: sql_update_def Let_def list_ex_iff split: if_splits)
  from assms(2) have keys: "wf_keys s" and rest: "wf_superseded s" "wf_tags s" "wf_files s"
    "wf_edges s" "wf_embeddings s" "wf_local s" by (simp_all add: wf_store_def)
  have uu: "note_uuids (s\<lparr>note_rows := ?new\<rparr>) = note_uuids s"
    using same_keys_maps(2) [OF assms(1)] by (simp add: note_uuids_def)
  have "distinct (remote_ids ?new)"
  proof (cases "list_ex (\<lambda>r. P r \<and> row_remote_id (f r) \<noteq> row_remote_id r) (note_rows s)")
    case False
    then have "remote_ids ?new = remote_ids (note_rows s)"
      by (intro remote_ids_map_cong) (auto simp: list_ex_iff)
    with keys show ?thesis by (simp add: wf_keys_def)
  qed (rule rem)
  moreover have "\<forall>r \<in> set ?new. row_id r \<le> rowid_seq s \<and> row_uuid r \<noteq> []"
    using keys assms(1) by (auto simp: wf_keys_def same_keys_def)
  ultimately have "wf_keys (s\<lparr>note_rows := ?new\<rparr>)"
    using keys unfolding wf_keys_def uu by (simp add: same_keys_comps [OF assms(1)])
  moreover have "wf_superseded (s\<lparr>note_rows := ?new\<rparr>)"
  proof -
    have "u \<in> set (note_uuids s)" if "r \<in> set (note_rows s)"
      "row_superseded_by (if P r then f r else r) = Some u" for r u
    proof (cases "P r \<and> row_superseded_by (f r) \<noteq> row_superseded_by r")
      case True
      with fk that show ?thesis by auto
    next
      case False
      with that have "row_superseded_by r = Some u" by (auto split: if_splits)
      with rest(1) that(1) show ?thesis by (auto simp: wf_superseded_def split: option.splits)
    qed
    then show ?thesis unfolding wf_superseded_def uu by (auto split: option.split)
  qed
  moreover have "wf_embeddings (s\<lparr>note_rows := ?new\<rparr>)"
    using rest(5) unfolding wf_embeddings_def
    by (simp add: same_keys_comps [OF assms(1)])
  moreover have "wf_tags (s\<lparr>note_rows := ?new\<rparr>)" "wf_files (s\<lparr>note_rows := ?new\<rparr>)"
    "wf_edges (s\<lparr>note_rows := ?new\<rparr>)" "wf_local (s\<lparr>note_rows := ?new\<rparr>)"
    using rest(2-4,6) unfolding wf_tags_def wf_files_def wf_edges_def wf_local_def uu by simp_all
  ultimately show ?thesis unfolding new wf_store_def by blast
qed

lemma wf_delete_note:
  assumes "wf_store s" and "\<And>r. r \<in> set (note_rows s) \<Longrightarrow> row_uuid r = u \<Longrightarrow>
     row_id r \<notin> set (map fst (note_embeddings s))"
  shows "wf_store (fst (sql_delete_note u s))"
proof (cases "u \<notin> set (note_uuids s) \<or>
    list_ex (\<lambda>r. row_uuid r \<noteq> u \<and> row_superseded_by r = Some u) (note_rows s)")
  case True
  then show ?thesis using assms(1) by (auto simp: sql_delete_note_def)
next
  case False
  let ?t = "s\<lparr>note_rows := filter (\<lambda>r. row_uuid r \<noteq> u) (note_rows s),
             note_tags := filter (\<lambda>t. fst t \<noteq> u) (note_tags s),
             note_files := filter (\<lambda>f. file_note f \<noteq> u) (note_files s),
             memory_edges := filter (\<lambda>e. edge_from_id e \<noteq> u \<and> edge_to_id e \<noteq> u) (memory_edges s)\<rparr>"
  from False have new: "fst (sql_delete_note u s) = ?t" by (simp add: sql_delete_note_def)
  have uu: "note_uuids ?t = filter (\<lambda>v. v \<noteq> u) (note_uuids s)"
    by (simp add: note_uuids_def filter_map comp_def)
  from assms(1) have keys: "wf_keys s" and rest: "wf_superseded s" "wf_tags s" "wf_files s"
    "wf_edges s" "wf_embeddings s" "wf_local s" by (simp_all add: wf_store_def)
  have "wf_keys ?t"
    using keys unfolding wf_keys_def uu
    by (auto simp: distinct_map_filter sorted_wrt_map sorted_wrt_filter distinct_remote_ids_filter)
  moreover have "wf_superseded ?t"
    using rest(1) False unfolding wf_superseded_def uu
    by (auto simp: list_ex_iff split: option.splits)
  moreover have "wf_tags ?t" "wf_files ?t" "wf_edges ?t"
    using rest(2-4) unfolding wf_tags_def wf_files_def wf_edges_def uu
    by (auto simp: distinct_map_filter)
  moreover have "wf_embeddings ?t"
  proof -
    have "fst v \<in> set (map row_id (filter (\<lambda>r. row_uuid r \<noteq> u) (note_rows s)))"
      if v: "v \<in> set (note_embeddings s)" for v
    proof -
      from rest(5) v obtain r where r: "r \<in> set (note_rows s)" "row_id r = fst v"
        by (auto simp: wf_embeddings_def)
      with assms(2) [of r] v have "row_uuid r \<noteq> u" by auto
      with r show ?thesis by force
    qed
    with rest(5) show ?thesis by (simp add: wf_embeddings_def)
  qed
  moreover have "wf_local ?t" using rest(6) by (simp add: wf_local_def)
  ultimately show ?thesis unfolding new wf_store_def by blast
qed

lemma wf_insert_tag: "t \<noteq> [] \<Longrightarrow> wf_store s \<Longrightarrow> wf_store (fst (sql_insert_tag u t s))"
  by (simp add: sql_insert_tag_def wf_store_def) (auto simp: wf_tags_def)

lemma wf_insert_file: "wf_store s \<Longrightarrow> wf_store (fst (sql_insert_file f s))"
  by (simp add: sql_insert_file_def wf_store_def) (auto simp: wf_files_def)

lemma wf_insert_edge: "wf_store s \<Longrightarrow> wf_store (fst (sql_insert_edge e s))"
  by (simp add: sql_insert_edge_def wf_store_def) (auto simp: wf_edges_def)


section \<open>A store only grows\<close>

text \<open>
  What a row keeps for as long as it exists: its content and identity, an archived status, a set
  \<open>invalid_at\<close>, a \<open>remote_id\<close>.
\<close>

definition row_evolves :: "notes_row \<Rightarrow> notes_row \<Rightarrow> bool" where
  "row_evolves r t = (row_id t = row_id r \<and> row_uuid t = row_uuid r \<and> row_kind t = row_kind r \<and>
     row_title t = row_title r \<and> row_body t = row_body r \<and> row_created_at t = row_created_at r \<and>
     row_entity_id t = row_entity_id r \<and> row_valid_at t = row_valid_at r \<and>
     (row_status r = ''archived'' \<longrightarrow> row_status t = ''archived'') \<and>
     (row_invalid_at r \<noteq> None \<longrightarrow> row_invalid_at t = row_invalid_at r) \<and>
     (row_remote_id r \<noteq> None \<longrightarrow> row_remote_id t = row_remote_id r))"

fun rows_evolve :: "notes_row list \<Rightarrow> notes_row list \<Rightarrow> bool" where
  "rows_evolve [] ts = True"
| "rows_evolve (r # rs) [] = False"
| "rows_evolve (r # rs) (t # ts) = (row_evolves r t \<and> rows_evolve rs ts)"

definition grows :: "memory_store \<Rightarrow> memory_store \<Rightarrow> bool" where
  "grows s t = (rows_evolve (note_rows s) (note_rows t) \<and>
     set (note_tags s) \<subseteq> set (note_tags t) \<and> set (note_files s) \<subseteq> set (note_files t) \<and>
     set (memory_edges s) \<subseteq> set (memory_edges t) \<and> project_root t = project_root s)"

lemma row_evolves_refl [simp]: "row_evolves r r"
  by (simp add: row_evolves_def)

lemma row_evolves_trans: "row_evolves r t \<Longrightarrow> row_evolves t u \<Longrightarrow> row_evolves r u"
  unfolding row_evolves_def by (metis option.distinct(1))

lemma rows_evolve_append [simp]: "rows_evolve rs (rs @ ts)"
  by (induction rs) auto

lemma rows_evolve_refl [simp]: "rows_evolve rs rs"
  by (induction rs) auto

lemma rows_evolve_map: "(\<And>r. r \<in> set rs \<Longrightarrow> row_evolves r (f r)) \<Longrightarrow> rows_evolve rs (map f rs)"
  by (induction rs) auto

lemma rows_evolve_trans: "rows_evolve rs ts \<Longrightarrow> rows_evolve ts us \<Longrightarrow> rows_evolve rs us"
proof (induction rs ts arbitrary: us rule: rows_evolve.induct)
  case (3 r rs t ts)
  then show ?case by (cases us) (auto intro: row_evolves_trans)
qed auto

lemma rows_evolve_in:
  "rows_evolve rs ts \<Longrightarrow> r \<in> set rs \<Longrightarrow> \<exists>t \<in> set ts. row_evolves r t"
  by (induction rs ts rule: rows_evolve.induct) auto

interpretation growth: step_relation grows
  by unfold_locales (auto simp: grows_def intro: rows_evolve_trans)

lemma grows_insert_note: "grows s (fst (sql_insert_note r s))"
  by (auto simp: sql_insert_note_def grows_def)

lemma grows_update:
  assumes "\<And>r. P r \<Longrightarrow> row_evolves r (f r)"
  shows "grows s (fst (sql_update P f s))"
  by (auto simp: sql_update_def Let_def grows_def intro!: rows_evolve_map assms)

lemma grows_inserts:
  "grows s (fst (sql_insert_tag u t s))" "grows s (fst (sql_insert_file f s))"
  "grows s (fst (sql_insert_edge e s))"
  by (auto simp: sql_insert_tag_def sql_insert_file_def sql_insert_edge_def grows_def)

section \<open>The laws as rules\<close>

abbreviation wf_op :: "'a op \<Rightarrow> bool" where
  "wf_op m \<equiv> keeps (carries wf_store) m"

abbreviation grow_op :: "'a op \<Rightarrow> bool" where
  "grow_op m \<equiv> keeps grows m"

lemma wf_statements [wf_intros]:
  "row_uuid r \<noteq> [] \<Longrightarrow> row_superseded_by r = None \<Longrightarrow> wf_op (sql_insert_note r)"
  "same_keys f \<Longrightarrow> wf_op (sql_update P f)"
  "t \<noteq> [] \<Longrightarrow> wf_op (sql_insert_tag u t)"
  "wf_op (sql_insert_file f')"
  "wf_op (sql_insert_edge e)"
  by (auto simp: keeps_def carries_def wf_insert_note wf_update wf_insert_tag wf_insert_file
      wf_insert_edge)

lemma grow_statements [wf_intros]:
  "grow_op (sql_insert_note r)"
  "(\<And>r. P r \<Longrightarrow> row_evolves r (f r)) \<Longrightarrow> grow_op (sql_update P f)"
  "grow_op (sql_insert_tag u t)" "grow_op (sql_insert_file f')" "grow_op (sql_insert_edge e)"
  by (auto simp: keeps_def grows_insert_note grows_update grows_inserts)

lemmas store_rules [wf_intros] = inv.keeps_intros growth.keeps_intros keeps_If keeps_case_option

end
