(* ===== verification/Tags.thy ===== *)
theory Tags
  imports Identity
begin

text \<open>
  Tag normalisation (\<open>storage/memory/tags.rs\<close>), which every write applies to a raw tag, and the
  splitting of the comma-joined columns older stores kept (\<open>split_csv\<close> of \<open>notes.rs\<close>). Unicode
  NFC and lowercasing are parameters.
\<close>

definition is_tag_sep :: "char \<Rightarrow> bool" where
  "is_tag_sep c = (is_ws c \<or> c = CHR ''_'')"

text \<open>The loop over the characters: \<open>pending\<close> is \<open>pending_sep\<close>, \<open>out\<close> the string built.\<close>

fun tag_loop :: "env \<Rightarrow> string \<Rightarrow> bool \<Rightarrow> string \<Rightarrow> string" where
  "tag_loop E [] pending out = out"
| "tag_loop E (c # cs) pending out =
     (if is_tag_sep c then tag_loop E cs True out
      else tag_loop E cs False
        ((if pending \<and> out \<noteq> [] then out @ ''-'' else out) @ to_lowercase E c))"

definition normalize_tag :: "env \<Rightarrow> string \<Rightarrow> string option" where
  "normalize_tag E raw =
     (let out = tag_loop E (trim (nfc E raw)) False [] in if out = [] then None else Some out)"

definition split_csv :: "string option \<Rightarrow> string list" where
  "split_csv s =
     (case s of None \<Rightarrow> []
      | Some t \<Rightarrow> if t = [] then [] else filter (\<lambda>p. p \<noteq> []) (map trim (split_on CHR '','' t)))"

lemma normalize_tag_nonempty: "normalize_tag E raw = Some t \<Longrightarrow> t \<noteq> []"
  by (auto simp: normalize_tag_def Let_def split: if_splits)

section \<open>The normal form\<close>

text \<open>
  What lowercasing does: no separator appears, the dash stays, and lowercasing the result again
  changes nothing.
\<close>

definition folds_case :: "env \<Rightarrow> bool" where
  "folds_case E = (to_lowercase E CHR ''-'' = ''-'' \<and>
     (\<forall>c. \<not> is_tag_sep c \<longrightarrow>
        (\<forall>d \<in> set (to_lowercase E c). \<not> is_tag_sep d \<and> to_lowercase E d = [d])))"

definition folded :: "env \<Rightarrow> string \<Rightarrow> bool" where
  "folded E t = (\<forall>d \<in> set t. \<not> is_tag_sep d \<and> to_lowercase E d = [d])"

lemma dash_not_sep: "\<not> is_tag_sep CHR ''-''"
  by code_simp

lemma folded_append [simp]: "folded E (s @ t) = (folded E s \<and> folded E t)"
  by (auto simp: folded_def)

lemma tag_loop_folded:
  assumes "folds_case E" and "folded E out"
  shows "folded E (tag_loop E cs pending out)"
  using assms(2)
proof (induction cs arbitrary: pending out)
  case (Cons c cs)
  have dash: "folded E ''-''"
    using assms(1) dash_not_sep by (simp add: folded_def folds_case_def)
  have "folded E (to_lowercase E c)" if "\<not> is_tag_sep c"
    using assms(1) that unfolding folds_case_def folded_def by blast
  with Cons dash show ?case by simp
qed simp

lemma tag_loop_fixed: "folded E cs \<Longrightarrow> tag_loop E cs False out = out @ cs"
  by (induction cs arbitrary: out) (auto simp: folded_def)

lemma trim_no_ws: "\<forall>c \<in> set s. \<not> is_ws c \<Longrightarrow> trim s = s"
proof -
  assume "\<forall>c \<in> set s. \<not> is_ws c"
  then have "dropWhile is_ws s = s" "dropWhile is_ws (rev s) = rev s"
    by (cases s, auto, cases "rev s", auto)
  then show ?thesis by (simp add: trim_def trim_start_def trim_end_def)
qed

lemma normalize_tag_folded:
  "folds_case E \<Longrightarrow> normalize_tag E raw = Some t \<Longrightarrow> folded E t"
  using tag_loop_folded [of E "[]" "trim (nfc E raw)" False]
  by (auto simp: normalize_tag_def Let_def folded_def split: if_splits)


lemma of_char_ascii_lower:
  "(of_char (ascii_lower c) :: nat) =
     (if 65 \<le> (of_char c :: nat) \<and> (of_char c :: nat) \<le> 90 then of_char c + 32 else of_char c)"
  by (simp add: ascii_lower_def Let_def of_char_of)

lemma ascii_lower_sep: "is_tag_sep (ascii_lower c) \<Longrightarrow> is_tag_sep c"
proof -
  assume sep: "is_tag_sep (ascii_lower c)"
  have "(of_char CHR ''_'' :: nat) = 95" by simp
  with sep have n: "is_ws (ascii_lower c) \<or> (of_char (ascii_lower c) :: nat) = 95"
    by (auto simp: is_tag_sep_def)
  have "\<not> (65 \<le> (of_char c :: nat) \<and> (of_char c :: nat) \<le> 90)"
    using n by (auto simp: is_ws_def Let_def of_char_ascii_lower)
  then have "ascii_lower c = c" by (auto simp: ascii_lower_def Let_def)
  with sep show ?thesis by simp
qed

lemma ascii_lower_idem: "ascii_lower (ascii_lower c) = ascii_lower c"
proof -
  have "\<not> (65 \<le> (of_char (ascii_lower c) :: nat) \<and> (of_char (ascii_lower c) :: nat) \<le> 90)"
    by (simp add: of_char_ascii_lower)
  then show ?thesis by (auto simp: ascii_lower_def [of "ascii_lower c"] Let_def)
qed

lemma ascii_lower_folds: "folds_case demo_env"
proof -
  have "ascii_lower CHR ''-'' = CHR ''-''" by code_simp
  then show ?thesis
    using ascii_lower_sep by (auto simp: folds_case_def demo_env_def ascii_lower_idem)
qed


end
