(* ===== verification/Notes.thy ===== *)
theory Notes
  imports Store Tags
begin

text \<open>
  The entry operations of the store (\<open>storage/memory/notes.rs\<close>): adding an entry, which
  collapses onto the entry with the same text when there is one; its tags, files and origin;
  the supersede link; deletion; embeddings; and the listings. Clock readings and the random
  bytes of a new id are arguments.
\<close>

section \<open>Rows and notes\<close>

definition row_to_note :: "notes_row \<Rightarrow> store_error + mem_note" where
  "row_to_note r =
     and_then (parse_id (row_uuid r)) (\<lambda>i.
     and_then (case row_superseded_by r of None \<Rightarrow> Inr None
               | Some u \<Rightarrow> and_then (parse_id u) (\<lambda>t. Inr (Some t))) (\<lambda>sup.
     Inr \<lparr>note_id = i, note_entity_id = row_entity_id r, note_kind = row_kind r,
       note_title = row_title r, note_body = row_body r, note_tags_of = [],
       note_linked_files = [], note_created_at = row_created_at r, note_status = row_status r,
       note_superseded_by = sup, note_source_ref = row_source_ref r,
       note_valid_at = row_valid_at r, note_invalid_at = row_invalid_at r,
       note_source_project = None, note_source_project_path = None, note_remote_id = None,
       note_origin = origin_from_parts (row_origin_actor_kind r) (row_origin_tool r)
         (row_origin_model r)\<rparr>))"

text \<open>The columns an INSERT lists; the others take their defaults.\<close>

definition new_row ::
    "string \<Rightarrow> string \<Rightarrow> string \<Rightarrow> string \<Rightarrow> int \<Rightarrow> string \<Rightarrow> string \<Rightarrow> notes_row" where
  "new_row uuid kind title body created_at status eid =
     \<lparr>row_id = 0, row_uuid = uuid, row_kind = kind, row_title = title, row_body = body,
      row_created_at = created_at, row_status = status, row_superseded_by = None,
      row_source_ref = None, row_valid_at = None, row_invalid_at = None, row_entity_id = eid,
      row_remote_id = None, row_origin_actor_kind = None, row_origin_tool = None,
      row_origin_model = None\<rparr>"

section \<open>Tags and linked files of an entry\<close>

definition attach_tag :: "env \<Rightarrow> string \<Rightarrow> string \<Rightarrow> unit op" where
  "attach_tag E uuid raw =
     (case normalize_tag E raw of None \<Rightarrow> ok ()
      | Some t \<Rightarrow> bind (sql_insert_tag uuid t) (\<lambda>_. ok ()))"

definition link_file :: "env \<Rightarrow> int \<Rightarrow> string \<Rightarrow> resolved_file_link op" where
  "link_file E now raw = bind (query project_root) (\<lambda>root.
     case resolve_file_link E now root raw of Inl e \<Rightarrow> fail (BadPath e) | Inr l \<Rightarrow> ok l)"

definition attach_file ::
    "env \<Rightarrow> int \<Rightarrow> string \<Rightarrow> string \<Rightarrow> resolved_file_link list \<Rightarrow> resolved_file_link list op" where
  "attach_file E now uuid raw resolved =
     (if trim raw = [] then ok resolved
      else bind (link_file E now raw) (\<lambda>l.
        bind (sql_insert_file \<lparr>file_note = uuid, file_path = link_path l,
                file_row_state = file_state_as_str (link_state l),
                file_checked_at = link_checked_at l\<rparr>) (\<lambda>_. ok (resolved @ [l]))))"

definition attach_tags_and_files ::
    "env \<Rightarrow> int \<Rightarrow> string \<Rightarrow> string list \<Rightarrow> string list \<Rightarrow> resolved_file_link list op" where
  "attach_tags_and_files E now uuid tags files =
     bind (for_each (attach_tag E uuid) tags) (\<lambda>_.
       fold_each (attach_file E now uuid) files [])"

definition tags_for :: "memory_store \<Rightarrow> string \<Rightarrow> string list" where
  "tags_for s uuid = sort (map snd (filter (\<lambda>t. fst t = uuid) (note_tags s)))"

definition linked_files_for :: "memory_store \<Rightarrow> string \<Rightarrow> string list" where
  "linked_files_for s uuid = sort (map file_path (filter (\<lambda>f. file_note f = uuid) (note_files s)))"

definition hydrate_tags_and_files :: "memory_store \<Rightarrow> mem_note list \<Rightarrow> mem_note list" where
  "hydrate_tags_and_files s ns = map (\<lambda>n. n\<lparr>note_tags_of := tags_for s (note_id n),
     note_linked_files := linked_files_for s (note_id n)\<rparr>) ns"

section \<open>Adding an entry\<close>

text \<open>
  The tail shared by every insert: \<open>r\<close> is the result of the INSERT. After a success
  \<open>last_insert_rowid\<close> is the sequence's last value.
\<close>

definition recover_from_entity_id_collision ::
    "env \<Rightarrow> int \<Rightarrow> store_error + unit \<Rightarrow> string \<Rightarrow> string list \<Rightarrow> string list \<Rightarrow>
     (note_id \<times> bool) op" where
  "recover_from_entity_id_collision E now r eid tags files =
     (case r of
        Inr _ \<Rightarrow>
          bind (reading (\<lambda>s. uuid_for_rowid s (rowid_seq s))) (\<lambda>found.
            case found of None \<Rightarrow> fail NoteVanished
            | Some i \<Rightarrow> bind (attach_tags_and_files E now i tags files) (\<lambda>_. ok (i, True)))
      | Inl (Sql UniqueViolation) \<Rightarrow>
          bind (reading (\<lambda>s. case select_one (\<lambda>n. row_entity_id n = eid) s of
                  None \<Rightarrow> Inl (Sql QueryReturnedNoRows) | Some n \<Rightarrow> parse_id (row_uuid n))) (\<lambda>i.
            bind (attach_tags_and_files E now i tags files) (\<lambda>_. ok (i, False)))
      | Inl e \<Rightarrow> fail e)"

definition add_note ::
    "env \<Rightarrow> int \<Rightarrow> string \<Rightarrow> string \<Rightarrow> string \<Rightarrow> string \<Rightarrow> string list \<Rightarrow> string list \<Rightarrow>
     string option \<Rightarrow> int option \<Rightarrow> (note_id \<times> bool) op" where
  "add_note E now entropy kind title body tags files source_ref valid_at =
     (let eid = entity_id E kind title body in
      bind (attempt (sql_insert_note
        ((new_row (uuid_v7_at E now entropy) kind title body now ''active'' eid)
           \<lparr>row_source_ref := source_ref, row_valid_at := valid_at\<rparr>))) (\<lambda>r.
      recover_from_entity_id_collision E now r eid tags files))"

definition add_note_with_created_at ::
    "env \<Rightarrow> int \<Rightarrow> string \<Rightarrow> string \<Rightarrow> string \<Rightarrow> string \<Rightarrow> string list \<Rightarrow> string list \<Rightarrow>
     string option \<Rightarrow> string \<Rightarrow> int \<Rightarrow> (note_id \<times> bool) op" where
  "add_note_with_created_at E now entropy kind title body tags files source_ref status created_at =
     (let eid = entity_id E kind title body in
      bind (attempt (sql_insert_note
        ((new_row (uuid_v7_at E created_at entropy) kind title body created_at status eid)
           \<lparr>row_source_ref := source_ref\<rparr>))) (\<lambda>r.
      recover_from_entity_id_collision E now r eid tags files))"

definition set_origin :: "note_id \<Rightarrow> origin \<Rightarrow> unit op" where
  "set_origin i q = bind (sql_update (\<lambda>r. row_uuid r = i)
     (\<lambda>r. r\<lparr>row_origin_actor_kind := Some (actor_kind_as_str (actor_kind q)),
            row_origin_tool := tool q, row_origin_model := model q\<rparr>)) (\<lambda>_. ok ())"

text \<open>
  \<open>total_changes\<close> differs when a tag or a file was added, the only rows this call writes.
\<close>

definition union_tags_and_files ::
    "env \<Rightarrow> int \<Rightarrow> note_id \<Rightarrow> string list \<Rightarrow> string list \<Rightarrow> bool op" where
  "union_tags_and_files E now i tags files =
     bind (query (\<lambda>s. length (note_tags s) + length (note_files s))) (\<lambda>before.
     bind (attach_tags_and_files E now i tags files) (\<lambda>_.
     query (\<lambda>s. length (note_tags s) + length (note_files s) \<noteq> before)))"

section \<open>The supersede link, archiving, the source reference\<close>

definition set_superseded_by :: "note_id \<Rightarrow> note_id \<Rightarrow> unit op" where
  "set_superseded_by i successor = bind (sql_update (\<lambda>r. row_uuid r = i)
     (\<lambda>r. r\<lparr>row_superseded_by := Some successor\<rparr>)) (\<lambda>_. ok ())"

definition clear_superseded_by :: "note_id \<Rightarrow> unit op" where
  "clear_superseded_by i = bind (sql_update (\<lambda>r. row_uuid r = i)
     (\<lambda>r. r\<lparr>row_superseded_by := None\<rparr>)) (\<lambda>_. ok ())"

definition notes_pointing_at :: "memory_store \<Rightarrow> note_id \<Rightarrow> store_error + note_id list" where
  "notes_pointing_at s i = collect (map (\<lambda>r. parse_id (row_uuid r))
     (filter (\<lambda>r. row_superseded_by r = Some i) (note_rows s)))"

definition archive :: "note_id \<Rightarrow> bool op" where
  "archive i = bind (sql_update (\<lambda>r. row_uuid r = i \<and> row_status r = ''active'')
     (\<lambda>r. r\<lparr>row_status := ''archived''\<rparr>)) (\<lambda>n. ok (n > 0))"

definition set_source_ref :: "note_id \<Rightarrow> string \<Rightarrow> unit op" where
  "set_source_ref i sha = bind (sql_update (\<lambda>r. row_uuid r = i)
     (\<lambda>r. r\<lparr>row_source_ref := Some sha\<rparr>)) (\<lambda>_. ok ())"

section \<open>Embeddings and deletion\<close>

definition sql_delete_embedding :: "nat \<Rightarrow> unit op" where
  "sql_delete_embedding n = modify (\<lambda>s.
     s\<lparr>note_embeddings := filter (\<lambda>v. fst v \<noteq> n) (note_embeddings s)\<rparr>)"

definition delete_note_embedding :: "note_id \<Rightarrow> unit op" where
  "delete_note_embedding i = bind (query (\<lambda>s. rowid_for s i)) (\<lambda>found.
     case found of None \<Rightarrow> ok () | Some n \<Rightarrow> sql_delete_embedding n)"

definition delete_note :: "note_id \<Rightarrow> unit op" where
  "delete_note i = bind (delete_note_embedding i) (\<lambda>_. sql_delete_note i)"

definition insert_embedding :: "note_id \<Rightarrow> string \<Rightarrow> unit op" where
  "insert_embedding i blob = bind (query (\<lambda>s. rowid_for s i)) (\<lambda>found.
     case found of None \<Rightarrow> fail (NoEntryToEmbed i)
     | Some n \<Rightarrow> transaction (bind (sql_delete_embedding n) (\<lambda>_.
         modify (\<lambda>s. s\<lparr>note_embeddings := note_embeddings s @ [(n, blob)]\<rparr>))))"

definition get_embedding :: "memory_store \<Rightarrow> note_id \<Rightarrow> string option" where
  "get_embedding s i =
     (case rowid_for s i of None \<Rightarrow> None
      | Some n \<Rightarrow> map_option snd (find (\<lambda>v. fst v = n) (note_embeddings s)))"

definition has_no_embedded_notes :: "memory_store \<Rightarrow> bool" where
  "has_no_embedded_notes s = (length (note_embeddings s) = 0)"

definition reembed_row :: "notes_row \<Rightarrow> store_error + (note_id \<times> string \<times> string)" where
  "reembed_row r = and_then (parse_id (row_uuid r)) (\<lambda>i. Inr (i, row_title r, row_body r))"

definition notes_missing_embeddings ::
    "memory_store \<Rightarrow> bool \<Rightarrow> store_error + (note_id \<times> string \<times> string) list" where
  "notes_missing_embeddings s include_archived = collect (map reembed_row
     (filter (\<lambda>r. row_id r \<notin> set (map fst (note_embeddings s)) \<and>
        (include_archived \<or> row_status r = ''active'')) (note_rows s)))"

definition all_active_notes_for_reembed ::
    "memory_store \<Rightarrow> bool \<Rightarrow> store_error + (note_id \<times> string \<times> string) list" where
  "all_active_notes_for_reembed s include_archived = collect (map reembed_row
     (filter (\<lambda>r. include_archived \<or> row_status r = ''active'') (note_rows s)))"

section \<open>Listings\<close>

definition notes_of_rows :: "memory_store \<Rightarrow> notes_row list \<Rightarrow> store_error + mem_note list" where
  "notes_of_rows s rs = and_then (collect (map row_to_note rs)) (\<lambda>ns.
     Inr (hydrate_tags_and_files s ns))"

definition all_notes_for_dedup :: "memory_store \<Rightarrow> store_error + mem_note list" where
  "all_notes_for_dedup s = notes_of_rows s (sort_key (\<lambda>r. (row_created_at r, row_id r)) (note_rows s))"

text \<open>SQLite's \<open>LIKE\<close>: \<open>%\<close> any run, \<open>_\<close> any one character, ASCII letters without case.\<close>

fun sql_like :: "string \<Rightarrow> string \<Rightarrow> bool" where
  "sql_like [] t = (t = [])"
| "sql_like (p # ps) [] = (p = CHR ''%'' \<and> sql_like ps [])"
| "sql_like (p # ps) (c # cs) =
     (if p = CHR ''%'' then sql_like ps (c # cs) \<or> sql_like (p # ps) cs
      else (p = CHR ''_'' \<or> ascii_lower p = ascii_lower c) \<and> sql_like ps cs)"

definition valid_as_of :: "int \<Rightarrow> notes_row \<Rightarrow> bool" where
  "valid_as_of ts r =
     ((case row_valid_at r of None \<Rightarrow> row_created_at r | Some v \<Rightarrow> v) \<le> ts \<and>
      (case row_invalid_at r of None \<Rightarrow> True | Some v \<Rightarrow> ts < v))"

definition status_clause :: "bool \<Rightarrow> int option \<Rightarrow> notes_row \<Rightarrow> bool" where
  "status_clause include_archived as_of r =
     (include_archived \<or> as_of \<noteq> None \<or> row_status r = ''active'')"

definition opt_clause :: "('a \<Rightarrow> notes_row \<Rightarrow> bool) \<Rightarrow> 'a option \<Rightarrow> notes_row \<Rightarrow> bool" where
  "opt_clause P v r = (case v of None \<Rightarrow> True | Some x \<Rightarrow> P x r)"

definition list_limit :: nat where "list_limit = 500"

text \<open>\<open>ORDER BY created_at DESC LIMIT n\<close>; ties come in row order.\<close>

definition newest_first :: "nat \<Rightarrow> notes_row list \<Rightarrow> notes_row list" where
  "newest_first limit rs = take (min limit list_limit) (sort_key (\<lambda>r. - row_created_at r) rs)"

definition list_matches ::
    "env \<Rightarrow> memory_store \<Rightarrow> string option \<Rightarrow> string option \<Rightarrow> string option \<Rightarrow> string option \<Rightarrow>
     bool \<Rightarrow> int option \<Rightarrow> notes_row \<Rightarrow> bool" where
  "list_matches E s kind prefix tag path include_archived as_of r =
     (status_clause include_archived as_of r \<and>
      opt_clause (\<lambda>k r. row_kind r = k) kind r \<and>
      opt_clause (\<lambda>p r. case row_source_ref r of None \<Rightarrow> False
                     | Some sr \<Rightarrow> sql_like (p @ ''%'') sr) prefix r \<and>
      opt_clause (\<lambda>raw r. (row_uuid r, case normalize_tag E raw of None \<Rightarrow> [] | Some t \<Rightarrow> t)
                     \<in> set (note_tags s)) tag r \<and>
      opt_clause (\<lambda>f r. (row_uuid r, f) \<in> set (map file_key (note_files s))) path r \<and>
      opt_clause valid_as_of as_of r)"

definition list_filtered_ext ::
    "env \<Rightarrow> memory_store \<Rightarrow> string option \<Rightarrow> string option \<Rightarrow> string option \<Rightarrow> string option \<Rightarrow>
     nat \<Rightarrow> bool \<Rightarrow> int option \<Rightarrow> store_error + mem_note list" where
  "list_filtered_ext E s kind prefix tag path limit include_archived as_of =
     notes_of_rows s (newest_first limit
       (filter (list_matches E s kind prefix tag path include_archived as_of) (note_rows s)))"

definition list_filtered ::
    "env \<Rightarrow> memory_store \<Rightarrow> string option \<Rightarrow> string option \<Rightarrow> nat \<Rightarrow> bool \<Rightarrow> int option \<Rightarrow>
     store_error + mem_note list" where
  "list_filtered E s kind prefix limit include_archived as_of =
     list_filtered_ext E s kind prefix None None limit include_archived as_of"

definition list_notes ::
    "env \<Rightarrow> memory_store \<Rightarrow> string option \<Rightarrow> nat \<Rightarrow> bool \<Rightarrow> store_error + mem_note list" where
  "list_notes E s kind limit include_archived =
     list_filtered E s kind None limit include_archived None"

definition list_by_entity_ids ::
    "memory_store \<Rightarrow> string list \<Rightarrow> nat \<Rightarrow> bool \<Rightarrow> int option \<Rightarrow> store_error + mem_note list" where
  "list_by_entity_ids s eids limit include_archived as_of =
     (if eids = [] then Inr []
      else notes_of_rows s (newest_first limit (filter (\<lambda>r. row_entity_id r \<in> set eids \<and>
        status_clause include_archived as_of r \<and> opt_clause valid_as_of as_of r) (note_rows s))))"

definition get_by_entity_id :: "memory_store \<Rightarrow> string \<Rightarrow> store_error + mem_note option" where
  "get_by_entity_id s eid = and_then (list_by_entity_ids s [eid] 1 True None) (\<lambda>ns.
     Inr (case ns of [] \<Rightarrow> None | n # _ \<Rightarrow> Some n))"

definition get :: "memory_store \<Rightarrow> note_id \<Rightarrow> store_error + mem_note option" where
  "get s i = (case select_one (\<lambda>r. row_uuid r = i) s of None \<Rightarrow> Inr None
     | Some r \<Rightarrow> and_then (notes_of_rows s [r]) (\<lambda>ns. Inr (Some (last ns))))"

definition count_notes :: "memory_store \<Rightarrow> nat" where
  "count_notes s = length (filter (\<lambda>r. row_status r = ''active'') (note_rows s))"

definition harvested_shas :: "memory_store \<Rightarrow> string list" where
  "harvested_shas s =
     List.map_filter row_source_ref (note_rows s) @
     List.map_filter (\<lambda>t. strip_prefix ''git:'' (snd t))
       (filter (\<lambda>t. sql_like ''git:%'' (snd t)) (note_tags s))"

definition has_source_ref :: "memory_store \<Rightarrow> string \<Rightarrow> bool" where
  "has_source_ref s sha = (length (filter (\<lambda>r. row_source_ref r = Some sha) (note_rows s)) > 0)"

definition newest_created_at :: "memory_store \<Rightarrow> int option" where
  "newest_created_at s =
     (case note_rows s of [] \<Rightarrow> None | r # rs \<Rightarrow> Some (fold (\<lambda>t m. max m (row_created_at t)) rs (row_created_at r)))"

definition active_uuids :: "memory_store \<Rightarrow> string list" where
  "active_uuids s = map row_uuid (filter (\<lambda>r. row_status r = ''active'') (note_rows s))"

text \<open>The vocabulary of the active notes, most used first, then by tag.\<close>

definition tags_with_counts :: "memory_store \<Rightarrow> (string \<times> nat) list" where
  "tags_with_counts s =
     (let ts = map snd (filter (\<lambda>t. fst t \<in> set (active_uuids s)) (note_tags s))
      in sort_key (\<lambda>(t, n). (- int n, t)) (map (\<lambda>t. (t, count_list ts t)) (first_occs ts)))"


section \<open>Every operation keeps the invariant, and all but deletion only grow the store\<close>

text \<open>Minted ids are never empty: \<open>uuid::Builder\<close> writes the 36-character form.\<close>

definition mints_ids :: "env \<Rightarrow> bool" where
  "mints_ids E = (\<forall>m tail. uuid_build E m tail \<noteq> [])"

lemma uuid_v7_nonempty: "mints_ids E \<Longrightarrow> uuid_v7_at E t entropy \<noteq> []"
  by (simp add: mints_ids_def uuid_v7_at_def)

lemma new_row_fields [simp]:
  "row_uuid (new_row u k t b c st eid) = u" "row_kind (new_row u k t b c st eid) = k"
  "row_title (new_row u k t b c st eid) = t" "row_body (new_row u k t b c st eid) = b"
  "row_created_at (new_row u k t b c st eid) = c" "row_status (new_row u k t b c st eid) = st"
  "row_entity_id (new_row u k t b c st eid) = eid" "row_superseded_by (new_row u k t b c st eid) = None"
  "row_remote_id (new_row u k t b c st eid) = None"
  by (simp_all add: new_row_def)

lemma attach_tag_rules [wf_intros]: "wf_op (attach_tag E u raw)" "grow_op (attach_tag E u raw)"
proof -
  show "wf_op (attach_tag E u raw)"
    by (cases "normalize_tag E raw")
      (auto simp: attach_tag_def intro!: wf_intros dest: normalize_tag_nonempty)
  show "grow_op (attach_tag E u raw)"
    by (auto simp: attach_tag_def intro!: wf_intros)
qed

lemma link_file_rules [wf_intros]: "wf_op (link_file E now raw)" "grow_op (link_file E now raw)"
  unfolding link_file_def
  by (auto intro!: wf_intros split: sum.split)

lemma attach_rules [wf_intros]:
  "wf_op (attach_tags_and_files E now u tags files)"
  "grow_op (attach_tags_and_files E now u tags files)"
  unfolding attach_tags_and_files_def attach_file_def
  by (intro wf_intros)+

lemma recover_rules [wf_intros]:
  "wf_op (recover_from_entity_id_collision E now r eid tags files)"
  "grow_op (recover_from_entity_id_collision E now r eid tags files)"
  unfolding recover_from_entity_id_collision_def
  by (auto split: sum.split store_error.split sql_error.split option.split intro!: wf_intros)

lemma add_note_rules [wf_intros]:
  "mints_ids E \<Longrightarrow> wf_op (add_note E now entropy kind title body tags files src valid)"
  "grow_op (add_note E now entropy kind title body tags files src valid)"
  "mints_ids E \<Longrightarrow> wf_op (add_note_with_created_at E now entropy kind title body tags files src st at)"
  "grow_op (add_note_with_created_at E now entropy kind title body tags files src st at)"
  unfolding add_note_def add_note_with_created_at_def Let_def
  by (intro wf_intros; simp add: uuid_v7_nonempty)+

lemma update_ops_rules [wf_intros]:
  "wf_op (set_origin i q)" "wf_op (set_superseded_by i j)" "wf_op (clear_superseded_by i)"
  "wf_op (archive i)" "wf_op (set_source_ref i sha)"
  "grow_op (set_origin i q)" "grow_op (set_superseded_by i j)" "grow_op (clear_superseded_by i)"
  "grow_op (archive i)" "grow_op (set_source_ref i sha)"
  unfolding set_origin_def set_superseded_by_def clear_superseded_by_def archive_def
    set_source_ref_def
  by (intro wf_intros; simp add: same_keys_def row_evolves_def)+

lemma union_rules [wf_intros]:
  "wf_op (union_tags_and_files E now i tags files)"
  "grow_op (union_tags_and_files E now i tags files)"
  unfolding union_tags_and_files_def by (intro wf_intros)+

lemma wf_delete_embedding: "wf_store s \<Longrightarrow> wf_store
    (s\<lparr>note_embeddings := filter (\<lambda>v. fst v \<noteq> n) (note_embeddings s)\<rparr>)"
  by (auto simp: wf_store_def wf_embeddings_def distinct_map_filter)

lemma embedding_rules [wf_intros]:
  "wf_op (sql_delete_embedding n)" "grow_op (sql_delete_embedding n)"
  "wf_op (delete_note_embedding i)" "grow_op (delete_note_embedding i)"
proof -
  show w: "wf_op (sql_delete_embedding n)" for n
    by (auto simp: sql_delete_embedding_def keeps_def carries_def wf_delete_embedding)
  show g: "grow_op (sql_delete_embedding n)" for n
    by (auto simp: sql_delete_embedding_def keeps_def grows_def)
  show "wf_op (delete_note_embedding i)" "grow_op (delete_note_embedding i)"
    unfolding delete_note_embedding_def by (intro wf_intros w g)+
qed

lemma rowid_for_Some:
  "rowid_for s i = Some n \<Longrightarrow> \<exists>r \<in> set (note_rows s). row_uuid r = i \<and> row_id r = n"
  by (auto simp: rowid_for_def select_one_def find_Some_iff)

lemma rowid_for_None: "rowid_for s i = None \<longleftrightarrow> i \<notin> set (note_uuids s)"
  by (auto simp: rowid_for_def select_one_def find_None_iff note_uuids_def)

lemma uuid_unique:
  assumes "wf_store s" and "r \<in> set (note_rows s)" and "t \<in> set (note_rows s)"
    and "row_uuid r = row_uuid t"
  shows "r = t"
  using assms by (auto simp: wf_store_def wf_keys_def note_uuids_def distinct_map inj_on_def)

lemma entity_unique:
  assumes "wf_store s" and "r \<in> set (note_rows s)" and "t \<in> set (note_rows s)"
    and "row_entity_id r = row_entity_id t"
  shows "r = t"
  using assms by (auto simp: wf_store_def wf_keys_def distinct_map inj_on_def)

lemma delete_note_rules [wf_intros]: "wf_op (delete_note i)"
proof -
  have "wf_store (fst (delete_note i s))" if wf: "wf_store s" for s
  proof (cases "rowid_for s i")
    case None
    then have "i \<notin> set (note_uuids s)" by (simp add: rowid_for_None)
    with None have "delete_note i s = (s, Inr ())"
      by (simp add: delete_note_def delete_note_embedding_def sql_delete_note_def bind_def)
    with wf show ?thesis by simp
  next
    case (Some n)
    then obtain r where r: "r \<in> set (note_rows s)" "row_uuid r = i" "row_id r = n"
      using rowid_for_Some by blast
    let ?t = "s\<lparr>note_embeddings := filter (\<lambda>v. fst v \<noteq> n) (note_embeddings s)\<rparr>"
    have "delete_note i s = sql_delete_note i ?t"
      by (simp add: delete_note_def delete_note_embedding_def sql_delete_embedding_def Some bind_def)
    moreover have "wf_store (fst (sql_delete_note i ?t))"
    proof (rule wf_delete_note)
      show "row_id t \<notin> set (map fst (note_embeddings ?t))"
        if "t \<in> set (note_rows ?t)" "row_uuid t = i" for t
        using uuid_unique [OF wf _ r(1), of t] that r by auto
    qed (rule wf_delete_embedding [OF wf])
    ultimately show ?thesis by simp
  qed
  then show ?thesis by (simp add: keeps_def carries_def)
qed

lemma insert_embedding_rules [wf_intros]:
  "wf_op (insert_embedding i blob)" "grow_op (insert_embedding i blob)"
proof -
  have "wf_store (fst (insert_embedding i blob s))" if wf: "wf_store s" for s
  proof (cases "rowid_for s i")
    case (Some n)
    then obtain r where r: "r \<in> set (note_rows s)" "row_id r = n" using rowid_for_Some by blast
    with wf_delete_embedding [OF wf, of n] Some show ?thesis
      by (auto simp: insert_embedding_def sql_delete_embedding_def transaction_def bind_def
          wf_store_def wf_embeddings_def)
  qed (use wf in \<open>simp add: insert_embedding_def\<close>)
  then show "wf_op (insert_embedding i blob)" by (simp add: keeps_def carries_def)
  show "grow_op (insert_embedding i blob)"
    unfolding insert_embedding_def
    by (intro wf_intros) (auto simp: keeps_def grows_def)
qed


section \<open>What adding an entry does\<close>

definition normalized_tags :: "env \<Rightarrow> string list \<Rightarrow> string set" where
  "normalized_tags E tags = set (List.map_filter (normalize_tag E) tags)"

definition result_option :: "'e + 'a \<Rightarrow> 'a option" where
  "result_option r = (case r of Inl _ \<Rightarrow> None | Inr x \<Rightarrow> Some x)"

definition linkable_paths :: "string \<Rightarrow> string list \<Rightarrow> string set" where
  "linkable_paths root files = set (List.map_filter (\<lambda>raw. if trim raw = [] then None
     else result_option (normalize_relative_path root raw)) files)"

text \<open>Every path given is blank, and skipped, or lies under the root.\<close>

definition files_accepted :: "string \<Rightarrow> string list \<Rightarrow> bool" where
  "files_accepted root files = list_all (\<lambda>raw. trim raw = [] \<or>
     result_option (normalize_relative_path root raw) \<noteq> None) files"

definition tag_rel :: "memory_store \<Rightarrow> (string \<times> string) set" where
  "tag_rel s = set (note_tags s)"

definition file_rel :: "memory_store \<Rightarrow> (string \<times> string) set" where
  "file_rel s = set (map file_key (note_files s))"

lemma normalized_tags_simps [simp]:
  "normalized_tags E [] = {}"
  "normalized_tags E (t # ts) = (case normalize_tag E t of None \<Rightarrow> {} | Some x \<Rightarrow> {x}) \<union>
     normalized_tags E ts"
  by (auto simp: normalized_tags_def map_filter_def split: option.splits)

lemma linkable_paths_simps [simp]:
  "linkable_paths root [] = {}"
  "linkable_paths root (f # fs) = (if trim f = [] then {} else
     (case normalize_relative_path root f of Inl _ \<Rightarrow> {} | Inr p \<Rightarrow> {p})) \<union> linkable_paths root fs"
  by (auto simp: linkable_paths_def map_filter_def result_option_def split: sum.splits option.splits)

lemma attach_tag_run:
  assumes "u \<in> set (note_uuids s)"
  shows "\<exists>new. attach_tag E u raw s = (s\<lparr>note_tags := note_tags s @ new\<rparr>, Inr ()) \<and>
    set (note_tags s @ new) = set (note_tags s) \<union> {u} \<times> normalized_tags E [raw] \<and>
    (({u} \<times> normalized_tags E [raw]) \<subseteq> set (note_tags s) \<longrightarrow> new = [])"
proof (cases "normalize_tag E raw")
  case None
  then show ?thesis by (auto simp: attach_tag_def)
next
  case (Some t)
  with assms show ?thesis
    by (cases "(u, t) \<in> set (note_tags s)")
      (auto simp: attach_tag_def sql_insert_tag_def bind_def intro: exI [of _ "[]"] exI [of _ "[(u, t)]"])
qed

lemma attach_tags_run:
  assumes "u \<in> set (note_uuids s)"
  shows "\<exists>new. for_each (attach_tag E u) tags s = (s\<lparr>note_tags := note_tags s @ new\<rparr>, Inr ()) \<and>
    set (note_tags s @ new) = set (note_tags s) \<union> {u} \<times> normalized_tags E tags \<and>
    (({u} \<times> normalized_tags E tags) \<subseteq> set (note_tags s) \<longrightarrow> new = [])"
  using assms
proof (induction tags arbitrary: s)
  case Nil
  then show ?case by (auto simp: for_each_def)
next
  case (Cons raw tags)
  from attach_tag_run [OF Cons.prems, of E raw] obtain a where
    a: "attach_tag E u raw s = (s\<lparr>note_tags := note_tags s @ a\<rparr>, Inr ())"
      "set (note_tags s @ a) = set (note_tags s) \<union> {u} \<times> normalized_tags E [raw]"
      "({u} \<times> normalized_tags E [raw]) \<subseteq> set (note_tags s) \<longrightarrow> a = []" by blast
  let ?t = "s\<lparr>note_tags := note_tags s @ a\<rparr>"
  from Cons.IH [of ?t] Cons.prems obtain b where
    b: "for_each (attach_tag E u) tags ?t = (?t\<lparr>note_tags := note_tags ?t @ b\<rparr>, Inr ())"
      "set (note_tags ?t @ b) = set (note_tags ?t) \<union> {u} \<times> normalized_tags E tags"
      "({u} \<times> normalized_tags E tags) \<subseteq> set (note_tags ?t) \<longrightarrow> b = []" by auto
  have step: "for_each (attach_tag E u) (raw # tags) s = for_each (attach_tag E u) tags ?t"
    unfolding for_each_def by (simp add: bind_def a(1))
  show ?case
    by (rule exI [of _ "a @ b"]) (use a b in \<open>auto simp: step\<close>)
qed

lemma attach_file_run:
  assumes "u \<in> set (note_uuids s)" and "files_accepted (project_root s) [raw]"
  shows "\<exists>new links. attach_file E now u raw acc s = (s\<lparr>note_files := note_files s @ new\<rparr>, Inr (acc @ links)) \<and>
    set (map file_key (note_files s @ new)) =
      set (map file_key (note_files s)) \<union> {u} \<times> linkable_paths (project_root s) [raw] \<and>
    (({u} \<times> linkable_paths (project_root s) [raw]) \<subseteq> set (map file_key (note_files s)) \<longrightarrow> new = [])"
proof (cases "trim raw = []")
  case True
  then show ?thesis by (auto simp: attach_file_def)
next
  case False
  with assms(2) obtain p where p: "normalize_relative_path (project_root s) raw = Inr p"
    by (auto simp: files_accepted_def result_option_def split: sum.splits)
  define l where "l = \<lparr>link_path = p, link_state = determine_state E (project_root s) p, link_checked_at = now\<rparr>"
  have link: "link_file E now raw s = (s, Inr l)"
    by (simp add: link_file_def resolve_file_link_def p l_def)
  define f where "f = \<lparr>file_note = u, file_path = link_path l,
    file_row_state = file_state_as_str (link_state l), file_checked_at = link_checked_at l\<rparr>"
  have key: "file_key f = (u, p)" by (simp add: file_key_def f_def l_def)
  have run: "attach_file E now u raw acc s =
      (if (u, p) \<in> set (map file_key (note_files s)) then s else s\<lparr>note_files := note_files s @ [f]\<rparr>,
       Inr (acc @ [l]))"
    using False assms(1) key
    by (simp add: attach_file_def bind_def link f_def [symmetric] sql_insert_file_def)
      (simp add: f_def)
  have paths: "linkable_paths (project_root s) [raw] = {p}" using False p by simp
  show ?thesis unfolding run paths
    by (cases "(u, p) \<in> set (map file_key (note_files s))")
      (rule exI [of _ "[]"] exI [of _ "[f]"], auto simp: key)+
qed

lemma attach_files_run:
  assumes "u \<in> set (note_uuids s)" and "files_accepted (project_root s) files"
  shows "\<exists>new links. fold_each (attach_file E now u) files acc s =
      (s\<lparr>note_files := note_files s @ new\<rparr>, Inr links) \<and>
    set (map file_key (note_files s @ new)) =
      set (map file_key (note_files s)) \<union> {u} \<times> linkable_paths (project_root s) files \<and>
    (({u} \<times> linkable_paths (project_root s) files) \<subseteq> set (map file_key (note_files s)) \<longrightarrow> new = [])"
  using assms
proof (induction files arbitrary: s acc)
  case (Cons raw files)
  from Cons.prems have ok1: "files_accepted (project_root s) [raw]"
    and ok2: "files_accepted (project_root s) files" by (simp_all add: files_accepted_def)
  from attach_file_run [OF Cons.prems(1) ok1, of E now acc] obtain a la where
    a: "attach_file E now u raw acc s = (s\<lparr>note_files := note_files s @ a\<rparr>, Inr (acc @ la))"
      "set (map file_key (note_files s @ a)) =
        set (map file_key (note_files s)) \<union> {u} \<times> linkable_paths (project_root s) [raw]"
      "({u} \<times> linkable_paths (project_root s) [raw]) \<subseteq> set (map file_key (note_files s)) \<longrightarrow> a = []"
    by blast
  let ?t = "s\<lparr>note_files := note_files s @ a\<rparr>"
  have ut: "u \<in> set (note_uuids ?t)" and okt: "files_accepted (project_root ?t) files"
    and pr: "project_root ?t = project_root s" using Cons.prems(1) ok2 by simp_all
  from Cons.IH [OF ut okt, of "acc @ la", unfolded pr] obtain b lb where
    b: "fold_each (attach_file E now u) files (acc @ la) ?t =
        (?t\<lparr>note_files := note_files ?t @ b\<rparr>, Inr lb)"
      "set (map file_key (note_files ?t @ b)) =
        set (map file_key (note_files ?t)) \<union> {u} \<times> linkable_paths (project_root s) files"
      "({u} \<times> linkable_paths (project_root s) files) \<subseteq> set (map file_key (note_files ?t)) \<longrightarrow> b = []"
    by blast
  have paths: "linkable_paths (project_root s) (raw # files) =
      linkable_paths (project_root s) [raw] \<union> linkable_paths (project_root s) files" by simp
  have "fold_each (attach_file E now u) (raw # files) acc s =
      (s\<lparr>note_files := note_files s @ a @ b\<rparr>, Inr lb)"
    using b(1) by (simp add: bind_def a(1))
  moreover have "set (map file_key (note_files s @ a @ b)) =
      set (map file_key (note_files s)) \<union> {u} \<times> linkable_paths (project_root s) (raw # files)"
    using a(2) b(2) unfolding paths by auto
  moreover have "a @ b = []" if sub: "({u} \<times> linkable_paths (project_root s) (raw # files)) \<subseteq>
      set (map file_key (note_files s))"
  proof -
    from sub have "{u} \<times> linkable_paths (project_root s) [raw] \<subseteq> set (map file_key (note_files s))"
      and two: "{u} \<times> linkable_paths (project_root s) files \<subseteq> set (map file_key (note_files s))"
      unfolding paths by blast+
    with a(3) have "a = []" by blast
    with two b(3) show ?thesis by simp
  qed
  ultimately show ?case by blast
qed auto

lemma attach_run:
  assumes "u \<in> set (note_uuids s)" and "files_accepted (project_root s) files"
  shows "\<exists>ts fs links. attach_tags_and_files E now u tags files s =
      (s\<lparr>note_tags := note_tags s @ ts, note_files := note_files s @ fs\<rparr>, Inr links) \<and>
    set (note_tags s @ ts) = tag_rel s \<union> {u} \<times> normalized_tags E tags \<and>
    set (map file_key (note_files s @ fs)) =
      file_rel s \<union> {u} \<times> linkable_paths (project_root s) files \<and>
    ({u} \<times> normalized_tags E tags \<subseteq> tag_rel s \<longrightarrow> ts = []) \<and>
    ({u} \<times> linkable_paths (project_root s) files \<subseteq> file_rel s \<longrightarrow> fs = [])"
proof -
  from attach_tags_run [OF assms(1), of E tags] obtain ts where
    ts: "for_each (attach_tag E u) tags s = (s\<lparr>note_tags := note_tags s @ ts\<rparr>, Inr ())"
      "set (note_tags s @ ts) = set (note_tags s) \<union> {u} \<times> normalized_tags E tags"
      "{u} \<times> normalized_tags E tags \<subseteq> set (note_tags s) \<longrightarrow> ts = []" by blast
  let ?t = "s\<lparr>note_tags := note_tags s @ ts\<rparr>"
  have ut: "u \<in> set (note_uuids ?t)" and okt: "files_accepted (project_root ?t) files"
    and pr: "project_root ?t = project_root s" and nf: "note_files ?t = note_files s"
    using assms by simp_all
  from attach_files_run [OF ut okt, of E now "[]", unfolded pr nf] obtain fs links where
    fs: "fold_each (attach_file E now u) files [] ?t =
        (?t\<lparr>note_files := note_files s @ fs\<rparr>, Inr links)"
      "set (map file_key (note_files s @ fs)) =
        set (map file_key (note_files s)) \<union> {u} \<times> linkable_paths (project_root s) files"
      "{u} \<times> linkable_paths (project_root s) files \<subseteq> set (map file_key (note_files s)) \<longrightarrow> fs = []"
    by blast
  have "attach_tags_and_files E now u tags files s =
      (s\<lparr>note_tags := note_tags s @ ts, note_files := note_files s @ fs\<rparr>, Inr links)"
    unfolding attach_tags_and_files_def by (simp add: bind_def ts(1) fs(1))
  with ts(2,3) fs(2,3) show ?thesis unfolding tag_rel_def file_rel_def by blast
qed

lemma find_last_row:
  assumes "wf_store s" and "note_rows s \<noteq> []" and "row_id (last (note_rows s)) = n"
  shows "find (\<lambda>r. row_id r = n) (note_rows s) = Some (last (note_rows s))"
proof -
  have "distinct (map row_id (note_rows s))"
    using assms(1) by (auto simp: wf_store_def wf_keys_def strict_sorted_iff)
  moreover have "last (note_rows s) \<in> set (note_rows s)" using assms(2) by simp
  ultimately show ?thesis
    using assms(3) by (cases "find (\<lambda>r. row_id r = n) (note_rows s)")
      (auto simp: find_None_iff find_Some_iff distinct_map inj_on_def)
qed

text \<open>
  The result of an insert followed by its recovery: either the row \<open>r\<close> is new, or a row with
  its \<open>entity_id\<close> was there and is used. Nothing else of the notes table changes, and the tags
  and files given are added to the ones the row has.
\<close>

definition insert_result ::
    "env \<Rightarrow> memory_store \<Rightarrow> notes_row \<Rightarrow> string list \<Rightarrow> string list \<Rightarrow> memory_store \<Rightarrow> note_id \<Rightarrow>
     bool \<Rightarrow> bool" where
  "insert_result E s r tags files t i created =
     (created = (row_entity_id r \<notin> set (map row_entity_id (note_rows s))) \<and>
      note_rows t = (if created then note_rows s @ [r\<lparr>row_id := Suc (rowid_seq s)\<rparr>] else note_rows s) \<and>
      (\<exists>n \<in> set (note_rows t). row_uuid n = i \<and> row_entity_id n = row_entity_id r) \<and>
      (created \<longrightarrow> i = row_uuid r) \<and>
      tag_rel t = tag_rel s \<union> {i} \<times> normalized_tags E tags \<and>
      file_rel t = file_rel s \<union> {i} \<times> linkable_paths (project_root s) files \<and>
      memory_edges t = memory_edges s \<and> note_embeddings t = note_embeddings s)"

lemma recover_run:
  assumes wf: "wf_store s" and ne: "row_uuid r \<noteq> []" and sup: "row_superseded_by r = None"
    and fresh: "row_entity_id r \<in> set (map row_entity_id (note_rows s)) \<or>
      fst (sql_insert_note r s) \<noteq> s"
    and files: "files_accepted (project_root s) files"
  shows "\<exists>t i created. bind (attempt (sql_insert_note r)) (\<lambda>x.
      recover_from_entity_id_collision E now x (row_entity_id r) tags files) s = (t, Inr (i, created)) \<and>
    insert_result E s r tags files t i created"
proof (cases "snd (sql_insert_note r s)")
  case (Inr x)
  let ?u = "s\<lparr>note_rows := note_rows s @ [r\<lparr>row_id := Suc (rowid_seq s)\<rparr>], rowid_seq := Suc (rowid_seq s)\<rparr>"
  from Inr have ins: "sql_insert_note r s = (?u, Inr ())"
    and notin: "row_entity_id r \<notin> set (map row_entity_id (note_rows s))"
    by (auto simp: sql_insert_note_def split: if_splits)
  have wfu: "wf_store ?u" using wf_insert_note [OF ne sup wf] ins by simp
  have found: "uuid_for_rowid ?u (rowid_seq ?u) = Inr (Some (row_uuid r))"
    using find_last_row [OF wfu] ne by (simp add: uuid_for_rowid_def select_one_def id_of_row_def)
  have "row_uuid r \<in> set (note_uuids ?u)" by (simp add: note_uuids_def)
  moreover have "files_accepted (project_root ?u) files" using files by simp
  moreover have ts: "note_tags ?u = note_tags s" "note_files ?u = note_files s"
    "tag_rel ?u = tag_rel s" "file_rel ?u = file_rel s" "project_root ?u = project_root s"
    by (simp_all add: tag_rel_def file_rel_def)
  ultimately obtain ts fs links where
    att: "attach_tags_and_files E now (row_uuid r) tags files ?u =
       (?u\<lparr>note_tags := note_tags s @ ts, note_files := note_files s @ fs\<rparr>, Inr links)"
      "set (note_tags s @ ts) = tag_rel s \<union> {row_uuid r} \<times> normalized_tags E tags"
      "set (map file_key (note_files s @ fs)) =
         file_rel s \<union> {row_uuid r} \<times> linkable_paths (project_root s) files"
    using attach_run [of "row_uuid r" ?u files E now tags] unfolding ts by blast
  let ?t = "?u\<lparr>note_tags := note_tags s @ ts, note_files := note_files s @ fs\<rparr>"
  have "bind (attempt (sql_insert_note r)) (\<lambda>x.
      recover_from_entity_id_collision E now x (row_entity_id r) tags files) s =
      (?t, Inr (row_uuid r, True))"
    using found att(1)
    by (simp add: bind_attempt ins recover_from_entity_id_collision_def bind_reading bind_Inr)
  moreover have "insert_result E s r tags files ?t (row_uuid r) True"
  proof -
    have "tag_rel ?t = set (note_tags s @ ts)" "file_rel ?t = set (map file_key (note_files s @ fs))"
      by (simp_all add: tag_rel_def file_rel_def)
    with notin show ?thesis unfolding insert_result_def att(2,3) by simp
  qed
  ultimately show ?thesis by blast
next
  case (Inl e)
  from Inl have ins: "sql_insert_note r s = (s, Inl (Sql UniqueViolation))"
    by (auto simp: sql_insert_note_def split: if_splits)
  with fresh obtain n where n: "n \<in> set (note_rows s)" "row_entity_id n = row_entity_id r"
    by auto
  have sel: "select_one (\<lambda>m. row_entity_id m = row_entity_id r) s = Some n"
    using n entity_unique [OF wf]
    by (cases "select_one (\<lambda>m. row_entity_id m = row_entity_id r) s")
      (auto simp: select_one_def find_None_iff find_Some_iff)
  have nn: "row_uuid n \<noteq> []" using wf n(1) by (auto simp: wf_store_def wf_keys_def)
  have "row_uuid n \<in> set (note_uuids s)" using n(1) by (auto simp: note_uuids_def)
  from attach_run [OF this files, of E now tags] obtain ts fs links where
    att: "attach_tags_and_files E now (row_uuid n) tags files s =
       (s\<lparr>note_tags := note_tags s @ ts, note_files := note_files s @ fs\<rparr>, Inr links)"
      "set (note_tags s @ ts) = tag_rel s \<union> {row_uuid n} \<times> normalized_tags E tags"
      "set (map file_key (note_files s @ fs)) =
         file_rel s \<union> {row_uuid n} \<times> linkable_paths (project_root s) files" by blast
  let ?t = "s\<lparr>note_tags := note_tags s @ ts, note_files := note_files s @ fs\<rparr>"
  have "bind (attempt (sql_insert_note r)) (\<lambda>x.
      recover_from_entity_id_collision E now x (row_entity_id r) tags files) s =
      (?t, Inr (row_uuid n, False))"
    using sel nn att(1)
    by (simp add: bind_attempt ins recover_from_entity_id_collision_def bind_reading bind_Inr)
  moreover have "insert_result E s r tags files ?t (row_uuid n) False"
  proof -
    have "tag_rel ?t = set (note_tags s @ ts)" "file_rel ?t = set (map file_key (note_files s @ fs))"
      by (simp_all add: tag_rel_def file_rel_def)
    moreover have "row_entity_id r \<in> set (map row_entity_id (note_rows s))"
      using n by (metis image_eqI list.set_map)
    moreover have "\<exists>m \<in> set (note_rows s). row_uuid m = row_uuid n \<and> row_entity_id m = row_entity_id r"
      using n by blast
    ultimately show ?thesis unfolding insert_result_def att(2,3) by simp
  qed
  ultimately show ?thesis by blast
qed

lemma recover_again:
  assumes wf: "wf_store s" and n: "n \<in> set (note_rows s)" "row_entity_id n = row_entity_id r"
    and files: "files_accepted (project_root s) files"
    and tags: "{row_uuid n} \<times> normalized_tags E tags \<subseteq> tag_rel s"
    and paths: "{row_uuid n} \<times> linkable_paths (project_root s) files \<subseteq> file_rel s"
  shows "bind (attempt (sql_insert_note r)) (\<lambda>x.
      recover_from_entity_id_collision E now x (row_entity_id r) tags files) s =
    (s, Inr (row_uuid n, False))"
proof -
  have ins: "sql_insert_note r s = (s, Inl (Sql UniqueViolation))"
    using n by (auto simp: sql_insert_note_def) (metis image_eqI)
  have sel: "select_one (\<lambda>m. row_entity_id m = row_entity_id r) s = Some n"
    using n entity_unique [OF wf]
    by (cases "select_one (\<lambda>m. row_entity_id m = row_entity_id r) s")
      (auto simp: select_one_def find_None_iff find_Some_iff)
  have nn: "row_uuid n \<noteq> []" using wf n(1) by (auto simp: wf_store_def wf_keys_def)
  have "row_uuid n \<in> set (note_uuids s)" using n(1) by (auto simp: note_uuids_def)
  from attach_run [OF this files, of E now tags] tags paths obtain links where
    "attach_tags_and_files E now (row_uuid n) tags files s =
       (s\<lparr>note_tags := note_tags s @ [], note_files := note_files s @ []\<rparr>, Inr links)" by blast
  then have "attach_tags_and_files E now (row_uuid n) tags files s = (s, Inr links)" by simp
  with sel nn show ?thesis
    by (simp add: bind_attempt ins recover_from_entity_id_collision_def bind_reading bind_Inr)
qed

definition authored_row ::
    "env \<Rightarrow> int \<Rightarrow> string \<Rightarrow> string \<Rightarrow> string \<Rightarrow> string \<Rightarrow> string option \<Rightarrow> int option \<Rightarrow> notes_row" where
  "authored_row E now entropy kind title body src valid =
     (new_row (uuid_v7_at E now entropy) kind title body now ''active'' (entity_id E kind title body))
       \<lparr>row_source_ref := src, row_valid_at := valid\<rparr>"

lemma authored_row_fields [simp]:
  "row_uuid (authored_row E now entropy kind title body src valid) = uuid_v7_at E now entropy"
  "row_entity_id (authored_row E now entropy kind title body src valid) = entity_id E kind title body"
  "row_superseded_by (authored_row E now entropy kind title body src valid) = None"
  "row_remote_id (authored_row E now entropy kind title body src valid) = None"
  by (simp_all add: authored_row_def)

lemma add_note_authored:
  "add_note E now entropy kind title body tags files src valid =
     bind (attempt (sql_insert_note (authored_row E now entropy kind title body src valid)))
       (\<lambda>x. recover_from_entity_id_collision E now x
          (row_entity_id (authored_row E now entropy kind title body src valid)) tags files)"
  by (simp add: add_note_def Let_def) (simp add: authored_row_def)

lemma insert_moves:
  "row_uuid r \<notin> set (note_uuids s) \<Longrightarrow> row_remote_id r = None \<Longrightarrow>
     row_entity_id r \<in> set (map row_entity_id (note_rows s)) \<or> fst (sql_insert_note r s) \<noteq> s"
proof (cases "row_entity_id r \<in> set (map row_entity_id (note_rows s))")
  case False
  assume "row_uuid r \<notin> set (note_uuids s)" "row_remote_id r = None"
  with False have "rowid_seq (fst (sql_insert_note r s)) = Suc (rowid_seq s)"
    by (auto simp: sql_insert_note_def)
  then show ?thesis by (metis n_not_Suc_n)
qed simp

text \<open>
  C15. Adding an entry to a well-formed store with a fresh id and acceptable paths always
  succeeds and collapses on content: a row is appended exactly when no row has the
  \<open>entity_id\<close> of the text, otherwise the row that has it is returned untouched; the normalised
  tags and paths are added to that row's and nothing else changes. Adding the same text, tags
  and files again, at any time and with any new id, returns the same id, reports that nothing was
  created and leaves the store exactly as it was.
\<close>
theorem add_note_converges:
  assumes "wf_store s" and "uuid_v7_at E now entropy \<noteq> []"
    and "uuid_v7_at E now entropy \<notin> set (note_uuids s)"
    and "files_accepted (project_root s) files"
  shows "\<exists>t i created.
    add_note E now entropy kind title body tags files src valid s = (t, Inr (i, created)) \<and>
    insert_result E s (authored_row E now entropy kind title body src valid) tags files t i created \<and>
    add_note E now' entropy' kind title body tags files src' valid' t = (t, Inr (i, False))"
proof -
  let ?r = "authored_row E now entropy kind title body src valid"
  have "row_entity_id ?r \<in> set (map row_entity_id (note_rows s)) \<or> fst (sql_insert_note ?r s) \<noteq> s"
    by (rule insert_moves) (use assms(3) in simp_all)
  from recover_run [OF assms(1) _ _ this assms(4), of E now tags] assms(2) obtain t i created where
    run: "add_note E now entropy kind title body tags files src valid s = (t, Inr (i, created))"
    and res: "insert_result E s ?r tags files t i created"
    unfolding add_note_authored by auto
  have keeps: "wf_op (add_note E now entropy kind title body tags files src valid)"
    "grow_op (add_note E now entropy kind title body tags files src valid)"
    unfolding add_note_authored by (intro wf_intros; simp add: assms(2))+
  have wft: "wf_store t" by (rule keeps_carriesD [OF keeps(1) assms(1) run])
  have "grows s t" using keeps(2) run by (metis fst_conv keeps_def)
  then have root: "project_root t = project_root s" by (simp add: grows_def)
  let ?r' = "authored_row E now' entropy' kind title body src' valid'"
  from res obtain n where n: "n \<in> set (note_rows t)" "row_uuid n = i"
    and "row_entity_id n = row_entity_id ?r"
    unfolding insert_result_def by blast
  then have n3: "row_entity_id n = row_entity_id ?r'" by simp
  have "add_note E now' entropy' kind title body tags files src' valid' t = (t, Inr (row_uuid n, False))"
    unfolding add_note_authored
    by (rule recover_again [OF wft n(1) n3])
      (use assms(4) res n(2) root in \<open>auto simp: insert_result_def\<close>)
  with run res n(2) show ?thesis by blast
qed

theorem add_note_converges_witness:
  "\<exists>t i created.
    add_note demo_env 7 ''0123456789abcdef'' ''note'' ''T'' ''B'' ['' Auth Key ''] [''a.rs''] None None
      (empty_store ''/repo'') = (t, Inr (i, created)) \<and>
    add_note demo_env 9 ''fedcba9876543210'' ''note'' ''T'' ''B'' ['' Auth Key ''] [''a.rs''] None None t
      = (t, Inr (i, False))"
proof -
  have "files_accepted (project_root (empty_store ''/repo'')) [''a.rs'']" by code_simp
  moreover have "uuid_v7_at demo_env 7 ''0123456789abcdef'' \<noteq> []" by code_simp
  moreover have "uuid_v7_at demo_env 7 ''0123456789abcdef'' \<notin> set (note_uuids (empty_store ''/repo''))"
    by code_simp
  ultimately show ?thesis
    using add_note_converges [OF wf_empty_store, of demo_env 7 "''0123456789abcdef''" "''/repo''" "[''a.rs'']"
        "''note''" "''T''" "''B''" "['' Auth Key '']" None None 9 "''fedcba9876543210''" None None]
    by blast
qed

text \<open>
  A path that leaves the project root makes \<open>add_note\<close> fail, but the entry stays: the error
  comes after the INSERT and outside any transaction, so the store holds the new active entry
  although the caller was told the add failed.
\<close>
theorem add_note_refused_path_keeps_entry:
  assumes "uuid_v7_at E now entropy \<notin> set (note_uuids s)" and "uuid_v7_at E now entropy \<noteq> []"
    and "entity_id E kind title body \<notin> set (map row_entity_id (note_rows s))"
    and "wf_store s" and "trim bad \<noteq> []"
    and "normalize_relative_path (project_root s) bad = Inl e"
  shows "snd (add_note E now entropy kind title body tags (bad # files) src valid s) = Inl (BadPath e) \<and>
    note_rows (fst (add_note E now entropy kind title body tags (bad # files) src valid s)) =
      note_rows s @ [(authored_row E now entropy kind title body src valid)\<lparr>row_id := Suc (rowid_seq s)\<rparr>]"
proof -
  let ?r = "authored_row E now entropy kind title body src valid"
  let ?u = "s\<lparr>note_rows := note_rows s @ [?r\<lparr>row_id := Suc (rowid_seq s)\<rparr>], rowid_seq := Suc (rowid_seq s)\<rparr>"
  have ins: "sql_insert_note ?r s = (?u, Inr ())"
    using assms(1,3) by (simp add: sql_insert_note_def)
  have wfu: "wf_store ?u" using wf_insert_note [OF _ _ assms(4), of ?r] assms(2) ins by simp
  have found: "uuid_for_rowid ?u (rowid_seq ?u) = Inr (Some (row_uuid ?r))"
    using find_last_row [OF wfu] assms(2)
    by (simp add: uuid_for_rowid_def select_one_def id_of_row_def)
  have "row_uuid ?r \<in> set (note_uuids ?u)" by (simp add: note_uuids_def)
  from attach_tags_run [OF this, of E tags] obtain ts where
    ts: "for_each (attach_tag E (row_uuid ?r)) tags ?u = (?u\<lparr>note_tags := note_tags ?u @ ts\<rparr>, Inr ())"
    by blast
  have "attach_tags_and_files E now (row_uuid ?r) tags (bad # files) ?u =
      (?u\<lparr>note_tags := note_tags ?u @ ts\<rparr>, Inl (BadPath e))"
    using assms(5,6) ts
    by (simp add: attach_tags_and_files_def bind_def attach_file_def link_file_def resolve_file_link_def)
  then show ?thesis
    unfolding add_note_authored using found
    by (simp add: bind_attempt ins recover_from_entity_id_collision_def bind_reading bind_Inl)
qed

theorem add_note_refused_path_keeps_entry_witness:
  "snd (add_note demo_env 7 ''0123456789abcdef'' ''note'' ''T'' ''B'' [] [''../x''] None None
      (empty_store ''/repo'')) = Inl (BadPath (PathEscapes ''../x'')) \<and>
   length (note_rows (fst (add_note demo_env 7 ''0123456789abcdef'' ''note'' ''T'' ''B'' [] [''../x'']
      None None (empty_store ''/repo'')))) = 1"
proof -
  have "normalize_relative_path (project_root (empty_store ''/repo'')) ''../x'' = Inl (PathEscapes ''../x'')"
    by code_simp
  moreover have "trim ''../x'' \<noteq> []" by code_simp
  moreover have "uuid_v7_at demo_env 7 ''0123456789abcdef'' \<noteq> []" by code_simp
  moreover have "uuid_v7_at demo_env 7 ''0123456789abcdef'' \<notin> set (note_uuids (empty_store ''/repo''))"
    by code_simp
  moreover have "entity_id demo_env ''note'' ''T'' ''B'' \<notin>
      set (map row_entity_id (note_rows (empty_store ''/repo'')))" by code_simp
  moreover have "note_rows (empty_store ''/repo'') = []" by code_simp
  ultimately show ?thesis
    using add_note_refused_path_keeps_entry [OF _ _ _ wf_empty_store] by simp
qed

section \<open>What a reader sees\<close>

text \<open>The note a row of a well-formed store is read as.\<close>

definition view_row :: "memory_store \<Rightarrow> notes_row \<Rightarrow> mem_note" where
  "view_row s r =
     \<lparr>note_id = row_uuid r, note_entity_id = row_entity_id r, note_kind = row_kind r,
      note_title = row_title r, note_body = row_body r, note_tags_of = tags_for s (row_uuid r),
      note_linked_files = linked_files_for s (row_uuid r), note_created_at = row_created_at r,
      note_status = row_status r, note_superseded_by = row_superseded_by r,
      note_source_ref = row_source_ref r, note_valid_at = row_valid_at r,
      note_invalid_at = row_invalid_at r, note_source_project = None,
      note_source_project_path = None, note_remote_id = None,
      note_origin = origin_from_parts (row_origin_actor_kind r) (row_origin_tool r)
        (row_origin_model r)\<rparr>"

lemma wf_row:
  assumes "wf_store s" and "r \<in> set (note_rows s)"
  shows "row_uuid r \<noteq> []" and "row_superseded_by r = Some u \<Longrightarrow> u \<in> set (note_uuids s) \<and> u \<noteq> []"
proof -
  show "row_uuid r \<noteq> []" using assms by (auto simp: wf_store_def wf_keys_def)
  assume "row_superseded_by r = Some u"
  with assms have "u \<in> set (note_uuids s)"
    by (auto simp: wf_store_def wf_superseded_def split: option.splits)
  moreover have "[] \<notin> set (note_uuids s)"
    using assms(1) by (auto simp: wf_store_def wf_keys_def note_uuids_def)
  ultimately show "u \<in> set (note_uuids s) \<and> u \<noteq> []" by auto
qed

lemma notes_of_rows_wf:
  assumes "wf_store s" and "set rs \<subseteq> set (note_rows s)"
  shows "notes_of_rows s rs = Inr (map (view_row s) rs)"
proof -
  have one: "\<exists>n. row_to_note r = Inr n \<and>
      n\<lparr>note_tags_of := tags_for s (note_id n), note_linked_files := linked_files_for s (note_id n)\<rparr> =
      view_row s r" if "r \<in> set rs" for r
  proof -
    from assms(2) that have r: "r \<in> set (note_rows s)" by auto
    from wf_row(1) [OF assms(1) r] wf_row(2) [OF assms(1) r] show ?thesis
      by (cases "row_superseded_by r") (auto simp: row_to_note_def view_row_def)
  qed
  then obtain f where f: "\<And>r. r \<in> set rs \<Longrightarrow> row_to_note r = Inr (f r)"
    "\<And>r. r \<in> set rs \<Longrightarrow> (f r)\<lparr>note_tags_of := tags_for s (note_id (f r)),
       note_linked_files := linked_files_for s (note_id (f r))\<rparr> = view_row s r" by metis
  have "collect (map row_to_note rs) = Inr (map f rs)" by (rule collect_map_cong) (rule f(1))
  with f(2) show ?thesis by (simp add: notes_of_rows_def hydrate_tags_and_files_def)
qed

lemma newest_first_facts:
  fixes rs :: "notes_row list" and limit :: nat
  defines "out \<equiv> newest_first limit rs"
  shows "set out \<subseteq> set rs" and "length out = min (min limit list_limit) (length rs)"
    and "sorted_wrt (\<ge>) (map row_created_at out)"
    and "r \<in> set rs \<Longrightarrow> r \<notin> set out \<Longrightarrow> t \<in> set out \<Longrightarrow> row_created_at r \<le> row_created_at t"
proof -
  let ?k = "\<lambda>r. - row_created_at r"
  let ?xs = "sort_key ?k rs"
  have sorted: "sorted (map ?k ?xs)" by simp
  show "set out \<subseteq> set rs" unfolding out_def newest_first_def
    by (metis set_sort set_take_subset)
  show "length out = min (min limit list_limit) (length rs)"
    by (simp add: out_def newest_first_def)
  have "sorted (map ?k out)"
    unfolding out_def newest_first_def using sorted by (metis sorted_wrt_take take_map)
  then show "sorted_wrt (\<ge>) (map row_created_at out)"
    by (simp add: sorted_wrt_map)
  assume r: "r \<in> set rs" "r \<notin> set out" and t: "t \<in> set out"
  define n where "n = min limit list_limit"
  have xs: "?xs = out @ drop n ?xs" by (simp add: out_def newest_first_def n_def)
  have "r \<in> set ?xs" using r(1) by simp
  with r(2) xs have "r \<in> set (drop n ?xs)" by (metis Un_iff set_append)
  moreover have "sorted (map ?k out @ map ?k (drop n ?xs))"
    using sorted xs by (metis map_append)
  ultimately have "?k t \<le> ?k r" using t by (auto simp: sorted_append)
  then show "row_created_at r \<le> row_created_at t" by simp
qed

text \<open>
  The filtered listing of a well-formed store always succeeds and is exact: it shows at most
  500 and at most \<open>limit\<close> notes, no note twice, newest first, each one the reading of a row that
  passes every filter; it shows all of them when there is room, and when there is not it leaves
  out only rows no newer than the ones shown. With a point in time given, the archived flag has
  no effect.
\<close>
theorem list_filtered_ext_exact:
  assumes "wf_store s"
  shows "\<exists>rs. list_filtered_ext E s kind prefix tag path limit include_archived as_of =
      Inr (map (view_row s) rs) \<and>
    length rs = min (min limit 500)
      (length (filter (list_matches E s kind prefix tag path include_archived as_of) (note_rows s))) \<and>
    distinct (map row_uuid rs) \<and> sorted_wrt (\<ge>) (map row_created_at rs) \<and>
    list_all (\<lambda>r. r \<in> set (note_rows s) \<and>
      list_matches E s kind prefix tag path include_archived as_of r) rs \<and>
    (\<forall>r \<in> set (note_rows s). list_matches E s kind prefix tag path include_archived as_of r \<longrightarrow>
      r \<in> set rs \<or> list_all (\<lambda>t. row_created_at r \<le> row_created_at t) rs) \<and>
    (as_of \<noteq> None \<longrightarrow> list_filtered_ext E s kind prefix tag path limit (\<not> include_archived) as_of =
      list_filtered_ext E s kind prefix tag path limit include_archived as_of)"
proof -
  let ?P = "list_matches E s kind prefix tag path include_archived as_of"
  let ?rs = "newest_first limit (filter ?P (note_rows s))"
  note facts = newest_first_facts [where limit = limit and rs = "filter ?P (note_rows s)"]
  have sub: "set ?rs \<subseteq> set (note_rows s)" using facts(1) by auto
  have view: "list_filtered_ext E s kind prefix tag path limit include_archived as_of =
      Inr (map (view_row s) ?rs)"
    unfolding list_filtered_ext_def by (rule notes_of_rows_wf [OF assms sub])
  have dist: "distinct (map row_uuid ?rs)"
  proof -
    have "distinct (map row_uuid (filter ?P (note_rows s)))"
      using assms by (simp add: wf_store_def wf_keys_def note_uuids_def distinct_map_filter)
    then have "distinct (map row_uuid (sort_key (\<lambda>r. - row_created_at r) (filter ?P (note_rows s))))"
      by (simp add: distinct_map)
    then show ?thesis unfolding newest_first_def by (metis distinct_take take_map)
  qed
  have same: "list_matches E s kind prefix tag path (\<not> include_archived) as_of = ?P"
    if "as_of \<noteq> None"
    using that by (auto simp: list_matches_def status_clause_def fun_eq_iff)
  have left: "r \<in> set ?rs \<or> list_all (\<lambda>t. row_created_at r \<le> row_created_at t) ?rs"
    if "r \<in> set (note_rows s)" "?P r" for r
    using facts(4) [where r = r] that by (auto simp: list_all_iff)
  have "list_all (\<lambda>r. r \<in> set (note_rows s) \<and> ?P r) ?rs"
    using facts(1) by (auto simp: list_all_iff)
  with view dist left facts(2,3) show ?thesis
    by (intro exI [of _ ?rs]) (simp add: list_limit_def list_filtered_ext_def same)
qed

theorem list_filtered_ext_exact_witness:
  "\<exists>rs. list_filtered_ext demo_env (empty_store ''/repo'') None None None None 1000 True None =
    Inr (map (view_row (empty_store ''/repo'')) rs) \<and> length rs \<le> 500"
proof -
  from list_filtered_ext_exact [OF wf_empty_store, of demo_env "''/repo''" None None None None 1000 True None]
  obtain rs where "list_filtered_ext demo_env (empty_store ''/repo'') None None None None 1000 True None =
      Inr (map (view_row (empty_store ''/repo'')) rs)" "length rs = min (min 1000 500)
      (length (filter (list_matches demo_env (empty_store ''/repo'') None None None None True None)
        (note_rows (empty_store ''/repo''))))" by blast
  then show ?thesis by auto
qed

end
