(* ===== verification/Edges.thy ===== *)
theory Edges
  imports Notes
begin

text \<open>
  Relationships between entries (\<open>storage/memory/edges.rs\<close>), the pending anchors and patch-id
  cache (\<open>anchors.rs\<close>), the import markers (\<open>import_state.rs\<close>), and adding through the local
  backend (\<open>LocalMemoryBackend::add\<close> in \<open>storage/backend.rs\<close>).
\<close>

section \<open>Edges\<close>

record memory_edge =
  medge_from :: note_id
  medge_to :: note_id
  medge_kind :: string
  medge_created_at :: int

definition row_to_edge :: "edge_row \<Rightarrow> store_error + memory_edge" where
  "row_to_edge e = and_then (parse_id (edge_from_id e)) (\<lambda>f.
     and_then (parse_id (edge_to_id e)) (\<lambda>t.
     Inr \<lparr>medge_from = f, medge_to = t, medge_kind = edge_row_kind e,
          medge_created_at = edge_created_at e\<rparr>))"

text \<open>The UPDATE both supersede paths run on the old entry; \<open>now\<close> is \<open>unixepoch()\<close>.\<close>

definition archive_as_superseded :: "int \<Rightarrow> note_id \<Rightarrow> note_id \<Rightarrow> nat op" where
  "archive_as_superseded now old_id new_id =
     sql_update (\<lambda>r. row_uuid r = old_id \<and> row_status r = ''active'')
       (\<lambda>r. r\<lparr>row_status := ''archived'', row_superseded_by := Some new_id,
              row_invalid_at := (case row_invalid_at r of None \<Rightarrow> Some now | Some v \<Rightarrow> Some v)\<rparr>)"

definition supersedes_edge :: "int \<Rightarrow> note_id \<Rightarrow> note_id \<Rightarrow> edge_row" where
  "supersedes_edge now new_id old_id =
     \<lparr>edge_from_id = new_id, edge_to_id = old_id, edge_row_kind = ''supersedes'',
      edge_created_at = now\<rparr>"

definition add_note_superseding ::
    "env \<Rightarrow> int \<Rightarrow> string \<Rightarrow> string \<Rightarrow> string \<Rightarrow> string \<Rightarrow> string list \<Rightarrow> string list \<Rightarrow>
     int option \<Rightarrow> note_id \<Rightarrow> (note_id \<times> bool) op" where
  "add_note_superseding E now entropy kind title body tags files valid_at supersedes_id =
     transaction
      (let eid = entity_id E kind title body in
       bind (attempt (sql_insert_note
         ((new_row (uuid_v7_at E now entropy) kind title body now ''active'' eid)
            \<lparr>row_valid_at := valid_at\<rparr>))) (\<lambda>r.
       bind (recover_from_entity_id_collision E now r eid tags files) (\<lambda>(i, created).
       if i = supersedes_id then ok (i, created)
       else bind (archive_as_superseded now supersedes_id i) (\<lambda>changed.
         if changed = 0 then fail (NoActiveEntry supersedes_id)
         else bind (sql_insert_edge (supersedes_edge now i supersedes_id)) (\<lambda>_.
           ok (i, created))))))"

definition supersede :: "int \<Rightarrow> note_id \<Rightarrow> note_id \<Rightarrow> bool op" where
  "supersede now old_id new_id =
     transaction
      (bind (archive_as_superseded now old_id new_id) (\<lambda>changed.
       bind (if changed > 0 then bind (sql_insert_edge (supersedes_edge now new_id old_id)) (\<lambda>_. ok ())
             else ok ()) (\<lambda>_.
       ok (changed > 0))))"

definition add_edge :: "int \<Rightarrow> note_id \<Rightarrow> note_id \<Rightarrow> string \<Rightarrow> unit op" where
  "add_edge now from_id to_id kind =
     (if kind \<notin> set EDGE_KINDS then fail (InvalidEdgeKind kind)
      else bind (sql_insert_edge \<lparr>edge_from_id = from_id, edge_to_id = to_id,
                   edge_row_kind = kind, edge_created_at = now\<rparr>) (\<lambda>_. ok ()))"

definition edges_where ::
    "(edge_row \<Rightarrow> bool) \<Rightarrow> memory_store \<Rightarrow> store_error + memory_edge list" where
  "edges_where P s = collect (map row_to_edge (sort_key edge_created_at (filter P (memory_edges s))))"

definition edges_of_kind :: "memory_store \<Rightarrow> string \<Rightarrow> store_error + memory_edge list" where
  "edges_of_kind s kind = edges_where (\<lambda>e. edge_row_kind e = kind) s"

definition get_edges ::
    "memory_store \<Rightarrow> note_id \<Rightarrow> store_error + memory_edge list \<times> memory_edge list" where
  "get_edges s i = and_then (edges_where (\<lambda>e. edge_from_id e = i) s) (\<lambda>outgoing.
     and_then (edges_where (\<lambda>e. edge_to_id e = i) s) (\<lambda>incoming.
     Inr (outgoing, incoming)))"

section \<open>Pending anchors and the patch-id cache\<close>

definition record_pending_anchor :: "int \<Rightarrow> string \<Rightarrow> string \<Rightarrow> string \<Rightarrow> unit op" where
  "record_pending_anchor now eid worktree head = modify (\<lambda>s.
     if eid \<in> set (map anchor_entity_id (pending_anchors s)) then s
     else s\<lparr>pending_anchors := pending_anchors s @
       [\<lparr>anchor_entity_id = eid, anchor_worktree = worktree, anchor_head_at_write = head,
         anchor_created_at = now\<rparr>]\<rparr>)"

definition pending_anchor_count :: "memory_store \<Rightarrow> nat" where
  "pending_anchor_count s = length (pending_anchors s)"

definition pending_anchors_in_worktree :: "memory_store \<Rightarrow> string \<Rightarrow> pending_anchor list" where
  "pending_anchors_in_worktree s w = filter (\<lambda>a. anchor_worktree a = w) (pending_anchors s)"

definition all_pending_anchors :: "memory_store \<Rightarrow> pending_anchor list" where
  "all_pending_anchors s = pending_anchors s"

definition remove_pending_anchor :: "string \<Rightarrow> unit op" where
  "remove_pending_anchor eid = modify (\<lambda>s.
     s\<lparr>pending_anchors := filter (\<lambda>a. anchor_entity_id a \<noteq> eid) (pending_anchors s)\<rparr>)"

definition reassign_pending_anchor_head :: "string \<Rightarrow> string \<Rightarrow> unit op" where
  "reassign_pending_anchor_head eid head = modify (\<lambda>s.
     s\<lparr>pending_anchors := map (\<lambda>a. if anchor_entity_id a = eid
         then a\<lparr>anchor_head_at_write := head\<rparr> else a) (pending_anchors s)\<rparr>)"

definition cached_patch_id :: "memory_store \<Rightarrow> string \<Rightarrow> string option option" where
  "cached_patch_id s sha = map_option snd (find (\<lambda>p. fst p = sha) (patch_id_cache s))"

text \<open>\<open>INSERT OR REPLACE\<close>: the old row goes, the new one is inserted.\<close>

definition cache_patch_id :: "string \<Rightarrow> string option \<Rightarrow> unit op" where
  "cache_patch_id sha patch = modify (\<lambda>s.
     s\<lparr>patch_id_cache := filter (\<lambda>p. fst p \<noteq> sha) (patch_id_cache s) @ [(sha, patch)]\<rparr>)"

section \<open>Import markers\<close>

definition default_marker :: notes_import_marker where
  "default_marker = \<lparr>last_merged_tracking_oid = None, last_imported_working_oid = None\<rparr>"

definition read_import_state :: "memory_store \<Rightarrow> notes_import_marker" where
  "read_import_state s =
     (case notes_import_state s of None \<Rightarrow> default_marker | Some m \<Rightarrow> m)"

definition set_notes_merged_tracking_oid :: "string option \<Rightarrow> unit op" where
  "set_notes_merged_tracking_oid oid = modify (\<lambda>s.
     s\<lparr>notes_import_state := Some ((read_import_state s)\<lparr>last_merged_tracking_oid := oid\<rparr>)\<rparr>)"

definition set_notes_imported_working_oid :: "string option \<Rightarrow> unit op" where
  "set_notes_imported_working_oid oid = modify (\<lambda>s.
     s\<lparr>notes_import_state := Some ((read_import_state s)\<lparr>last_imported_working_oid := oid\<rparr>)\<rparr>)"

section \<open>Adding through the local backend\<close>

record note_input =
  in_kind :: string
  in_title :: string
  in_body :: string
  in_tags :: "string list"
  in_linked_files :: "string list"
  in_embedding :: "string option"
  in_source_ref :: "string option"
  in_valid_at :: "int option"
  in_supersedes :: "note_id option"
  in_origin :: "origin option"

definition backend_add :: "env \<Rightarrow> int \<Rightarrow> string \<Rightarrow> note_input \<Rightarrow> (note_id \<times> bool) op" where
  "backend_add E now entropy n =
     bind (case in_supersedes n of
             Some sid \<Rightarrow> add_note_superseding E now entropy (in_kind n) (in_title n) (in_body n)
                           (in_tags n) (in_linked_files n) (in_valid_at n) sid
           | None \<Rightarrow> add_note E now entropy (in_kind n) (in_title n) (in_body n) (in_tags n)
                       (in_linked_files n) (in_source_ref n) (in_valid_at n)) (\<lambda>(i, created).
     bind (case in_embedding n of None \<Rightarrow> ok () | Some blob \<Rightarrow> insert_embedding i blob) (\<lambda>_.
     bind (case in_origin n of None \<Rightarrow> ok ()
           | Some q \<Rightarrow> if created then set_origin i q else ok ()) (\<lambda>_.
     ok (i, created))))"

section \<open>Preservation\<close>

lemma archive_as_superseded_rules [wf_intros]:
  "wf_op (archive_as_superseded now i j)" "grow_op (archive_as_superseded now i j)"
  unfolding archive_as_superseded_def
  by (intro wf_intros; simp add: same_keys_def row_evolves_def split: option.split)+

lemma superseding_rules [wf_intros]:
  "mints_ids E \<Longrightarrow>
     wf_op (add_note_superseding E now entropy kind title body tags files valid sid)"
  "grow_op (add_note_superseding E now entropy kind title body tags files valid sid)"
  unfolding add_note_superseding_def Let_def
  by (intro wf_intros keeps_case_prod; simp add: uuid_v7_nonempty)+

lemma supersede_rules [wf_intros]:
  "wf_op (supersede now i j)" "grow_op (supersede now i j)"
  unfolding supersede_def by (intro wf_intros)+

lemma add_edge_rules [wf_intros]: "wf_op (add_edge now i j k)" "grow_op (add_edge now i j k)"
  unfolding add_edge_def by (intro wf_intros)+

lemma local_tables_rules [wf_intros]:
  "wf_op (record_pending_anchor now eid w h)" "grow_op (record_pending_anchor now eid w h)"
  "wf_op (remove_pending_anchor eid)" "grow_op (remove_pending_anchor eid)"
  "wf_op (reassign_pending_anchor_head eid h)" "grow_op (reassign_pending_anchor_head eid h)"
  "wf_op (cache_patch_id sha p)" "grow_op (cache_patch_id sha p)"
  "wf_op (set_notes_merged_tracking_oid oid)" "grow_op (set_notes_merged_tracking_oid oid)"
  "wf_op (set_notes_imported_working_oid oid)" "grow_op (set_notes_imported_working_oid oid)"
proof -
  have map_same: "map (anchor_entity_id \<circ> (\<lambda>a. if anchor_entity_id a = eid
      then a\<lparr>anchor_head_at_write := h\<rparr> else a)) as = map anchor_entity_id as" for as
    by auto
  show "wf_op (record_pending_anchor now eid w h)" "wf_op (remove_pending_anchor eid)"
    "wf_op (reassign_pending_anchor_head eid h)" "wf_op (cache_patch_id sha p)"
    "wf_op (set_notes_merged_tracking_oid oid)" "wf_op (set_notes_imported_working_oid oid)"
    by (auto simp: record_pending_anchor_def remove_pending_anchor_def
        reassign_pending_anchor_head_def cache_patch_id_def set_notes_merged_tracking_oid_def
        set_notes_imported_working_oid_def keeps_def carries_def wf_store_def wf_local_def
        distinct_map_filter map_same)
  show "grow_op (record_pending_anchor now eid w h)" "grow_op (remove_pending_anchor eid)"
    "grow_op (reassign_pending_anchor_head eid h)" "grow_op (cache_patch_id sha p)"
    "grow_op (set_notes_merged_tracking_oid oid)" "grow_op (set_notes_imported_working_oid oid)"
    by (auto simp: record_pending_anchor_def remove_pending_anchor_def
        reassign_pending_anchor_head_def cache_patch_id_def set_notes_merged_tracking_oid_def
        set_notes_imported_working_oid_def keeps_def grows_def)
qed

lemma backend_add_rules [wf_intros]:
  "mints_ids E \<Longrightarrow> wf_op (backend_add E now entropy n)" "grow_op (backend_add E now entropy n)"
  unfolding backend_add_def
  by (intro wf_intros keeps_case_prod; assumption)+


section \<open>What superseding does\<close>

definition superseded_row :: "int \<Rightarrow> note_id \<Rightarrow> notes_row \<Rightarrow> notes_row" where
  "superseded_row now j r = r\<lparr>row_status := ''archived'', row_superseded_by := Some j,
     row_invalid_at := (case row_invalid_at r of None \<Rightarrow> Some now | Some v \<Rightarrow> Some v)\<rparr>"

definition active_with :: "note_id \<Rightarrow> notes_row \<Rightarrow> bool" where
  "active_with i r = (row_uuid r = i \<and> row_status r = ''active'')"

lemma archive_as_superseded_eq:
  "archive_as_superseded now i j = sql_update (active_with i) (superseded_row now j)"
proof -
  have "(\<lambda>r. row_uuid r = i \<and> row_status r = ''active'') = active_with i"
    by (simp add: fun_eq_iff active_with_def)
  moreover have "(\<lambda>r. r\<lparr>row_status := ''archived'', row_superseded_by := Some j,
      row_invalid_at := (case row_invalid_at r of None \<Rightarrow> Some now | Some v \<Rightarrow> Some v)\<rparr>) =
      superseded_row now j"
    by (simp add: fun_eq_iff superseded_row_def)
  ultimately show ?thesis by (simp add: archive_as_superseded_def)
qed

lemma archive_as_superseded_run:
  assumes "j \<in> set (note_uuids s)"
  shows "archive_as_superseded now i j s =
    (s\<lparr>note_rows := map (\<lambda>r. if active_with i r then superseded_row now j r else r) (note_rows s)\<rparr>,
     Inr (length (filter (active_with i) (note_rows s))))"
  using assms unfolding archive_as_superseded_eq
  by (auto simp: sql_update_def Let_def list_ex_iff superseded_row_def)

lemma supersedes_edge_run:
  assumes "i \<in> set (note_uuids s)" and "j \<in> set (note_uuids s)"
  shows "\<exists>es. sql_insert_edge (supersedes_edge now i j) s =
      (s\<lparr>memory_edges := memory_edges s @ es\<rparr>, Inr (length es)) \<and>
    set (map edge_key (memory_edges s @ es)) =
      insert (i, j, ''supersedes'') (set (map edge_key (memory_edges s)))"
proof (cases "(i, j, ''supersedes'') \<in> set (map edge_key (memory_edges s))")
  case True
  then show ?thesis
    by (intro exI [of _ "[]"])
      (auto simp: sql_insert_edge_def supersedes_edge_def edge_key_def EDGE_KINDS_def)
next
  case False
  with assms show ?thesis
    by (intro exI [of _ "[supersedes_edge now i j]"])
      (auto simp: sql_insert_edge_def supersedes_edge_def edge_key_def EDGE_KINDS_def)
qed

text \<open>What a successful supersede of \<open>old\<close> by \<open>i\<close> makes of a store's rows and edges.\<close>

definition supersede_result ::
    "int \<Rightarrow> memory_store \<Rightarrow> note_id \<Rightarrow> note_id \<Rightarrow> memory_store \<Rightarrow> bool" where
  "supersede_result now s old i t =
     (list_ex (active_with old) (note_rows s) \<and>
      note_rows t = map (\<lambda>r. if active_with old r then superseded_row now i r else r) (note_rows s) \<and>
      set (map edge_key (memory_edges t)) =
        insert (i, old, ''supersedes'') (set (map edge_key (memory_edges s))) \<and>
      set (memory_edges s) \<subseteq> set (memory_edges t) \<and>
      note_tags t = note_tags s \<and> note_files t = note_files s)"

lemma supersede_tail_run:
  assumes "i \<in> set (note_uuids s)" and "list_ex (active_with old) (note_rows s)"
  shows "\<exists>t n. bind (archive_as_superseded now old i) (\<lambda>c. if c = 0 then fail e
      else bind (sql_insert_edge (supersedes_edge now i old)) f) s = f n t \<and>
    supersede_result now s old i t"
proof -
  let ?u = "s\<lparr>note_rows := map (\<lambda>r. if active_with old r then superseded_row now i r else r) (note_rows s)\<rparr>"
  have pos: "length (filter (active_with old) (note_rows s)) \<noteq> 0"
    using assms(2) by (auto simp: filter_empty_conv list_ex_iff)
  have same: "note_uuids ?u = note_uuids s"
    by (auto simp: note_uuids_def superseded_row_def)
  have "old \<in> set (note_uuids s)"
    using assms(2) by (auto simp: list_ex_iff active_with_def note_uuids_def)
  with assms(1) same have "i \<in> set (note_uuids ?u)" "old \<in> set (note_uuids ?u)" by simp_all
  moreover have "memory_edges ?u = memory_edges s" by simp
  ultimately obtain es where
    es: "sql_insert_edge (supersedes_edge now i old) ?u =
        (?u\<lparr>memory_edges := memory_edges s @ es\<rparr>, Inr (length es))"
      "set (map edge_key (memory_edges s @ es)) =
        insert (i, old, ''supersedes'') (set (map edge_key (memory_edges s)))"
    using supersedes_edge_run [of i ?u old now] by auto
  let ?t = "?u\<lparr>memory_edges := memory_edges s @ es\<rparr>"
  have "bind (archive_as_superseded now old i) (\<lambda>c. if c = 0 then fail e
      else bind (sql_insert_edge (supersedes_edge now i old)) f) s = f (length es) ?t"
    using pos by (simp add: bind_def archive_as_superseded_run [OF assms(1)] es(1))
  moreover have "supersede_result now s old i ?t"
    using es(2) assms(2) by (simp add: supersede_result_def)
  ultimately show ?thesis by blast
qed

text \<open>
  C17. \<open>supersede\<close> is all or nothing: with an active old entry and an existing new one it
  archives exactly the old row, points it at the new entry, dates it unless it already is, adds
  the one edge and returns true; without an active old entry it returns false and changes
  nothing; with an active old entry and a new id the store does not hold it fails on the foreign
  key and changes nothing.
\<close>
theorem supersede_all_or_nothing:
  assumes "wf_store s"
  shows "if \<not> list_ex (active_with old) (note_rows s) then supersede now old new s = (s, Inr False)
    else if new \<notin> set (note_uuids s)
    then supersede now old new s = (s, Inl (Sql ForeignKeyViolation))
    else snd (supersede now old new s) = Inr True \<and>
      supersede_result now s old new (fst (supersede now old new s))"
proof (cases "list_ex (active_with old) (note_rows s)")
  case none: False
  then have flt: "\<And>r. r \<in> set (note_rows s) \<Longrightarrow> \<not> active_with old r"
    by (auto simp: list_ex_iff)
  then have "archive_as_superseded now old new s = (s, Inr 0)"
    by (auto simp: archive_as_superseded_eq sql_update_def Let_def list_ex_iff filter_empty_conv
        map_idI)
  with none show ?thesis by (simp add: supersede_def transaction_def bind_def)
next
  case some: True
  show ?thesis
  proof (cases "new \<in> set (note_uuids s)")
    case True
    from supersede_tail_run [OF True some, of now undefined "\<lambda>_. ok True"] obtain t where
      t: "bind (archive_as_superseded now old new) (\<lambda>c. if c = 0 then fail undefined
        else bind (sql_insert_edge (supersedes_edge now new old)) (\<lambda>_. ok True)) s = (t, Inr True)"
        "supersede_result now s old new t" by auto
    have pos: "length (filter (active_with old) (note_rows s)) > 0"
      using some by (auto simp: filter_empty_conv list_ex_iff)
    have "supersede now old new s = (t, Inr True)"
      using t(1) pos unfolding supersede_def transaction_def
      by (auto simp: bind_def archive_as_superseded_run [OF True] split: prod.splits sum.splits)
    with t(2) True some show ?thesis by simp
  next
    case False
    from some obtain r where r: "r \<in> set (note_rows s)" "active_with old r"
      by (auto simp: list_ex_iff)
    with wf_row(2) [OF assms r(1), of new] False have "row_superseded_by r \<noteq> Some new" by auto
    with r False have "archive_as_superseded now old new s = (s, Inl (Sql ForeignKeyViolation))"
      by (auto simp: archive_as_superseded_eq sql_update_def Let_def list_ex_iff superseded_row_def)
    then have "supersede now old new s = (s, Inl (Sql ForeignKeyViolation))"
      by (simp add: supersede_def transaction_def bind_def)
    with some False show ?thesis by simp
  qed
qed

text \<open>A store of two active entries, for the witnesses.\<close>

definition two_notes :: memory_store where
  "two_notes = (empty_store ''/repo'')\<lparr>
     note_rows := [(new_row ''u1'' ''note'' ''A'' ''a'' 1 ''active'' ''e1'')\<lparr>row_id := 1\<rparr>,
                   (new_row ''u2'' ''note'' ''B'' ''b'' 2 ''active'' ''e2'')\<lparr>row_id := 2\<rparr>],
     rowid_seq := 2, note_tags := [(''u1'', ''x''), (''u2'', ''y'')]\<rparr>"

lemma wf_two_notes: "wf_store two_notes"
  by code_simp

theorem supersede_all_or_nothing_witness:
  "snd (supersede 9 ''u1'' ''u2'' two_notes) = Inr True \<and>
   supersede_result 9 two_notes ''u1'' ''u2'' (fst (supersede 9 ''u1'' ''u2'' two_notes))"
proof -
  have "list_ex (active_with ''u1'') (note_rows two_notes)" by code_simp
  moreover have "''u2'' \<in> set (note_uuids two_notes)" by code_simp
  ultimately show ?thesis
    using supersede_all_or_nothing [OF wf_two_notes, of "''u1''" 9 "''u2''"] by simp
qed

text \<open>
  C16. Adding an entry that supersedes another is atomic. When it fails, with acceptable paths and
  a fresh id, the target has no active row and the store is untouched, the insert included. When
  it succeeds the entry is added as by \<open>add_note\<close>, or found by its content; if what was found
  is the target itself nothing is archived or linked, so no entry is made to supersede itself,
  and otherwise exactly the target is archived, dated and linked, both ways.
\<close>
theorem add_note_superseding_atomic:
  assumes "wf_store s" and "uuid_v7_at E now entropy \<noteq> []"
    and "uuid_v7_at E now entropy \<notin> set (note_uuids s)"
    and "files_accepted (project_root s) files"
  shows "case add_note_superseding E now entropy kind title body tags files valid old s of
      (t, Inl e) \<Rightarrow> t = s \<and> e = NoActiveEntry old \<and> \<not> list_ex (active_with old) (note_rows s)
    | (t, Inr (i, created)) \<Rightarrow> \<exists>u.
        insert_result E s (authored_row E now entropy kind title body None valid) tags files u i created \<and>
        (if i = old then t = u else supersede_result now u old i t)"
proof -
  let ?r = "authored_row E now entropy kind title body None valid"
  have "row_entity_id ?r \<in> set (map row_entity_id (note_rows s)) \<or> fst (sql_insert_note ?r s) \<noteq> s"
    by (rule insert_moves) (use assms(3) in simp_all)
  from recover_run [OF assms(1) _ _ this assms(4), of E now tags] assms(2) obtain u i created where
    run: "bind (attempt (sql_insert_note ?r)) (\<lambda>x.
      recover_from_entity_id_collision E now x (row_entity_id ?r) tags files) s = (u, Inr (i, created))"
    and res: "insert_result E s ?r tags files u i created" by auto
  let ?tail = "\<lambda>(i, created). if i = old then ok (i, created)
       else bind (archive_as_superseded now old i) (\<lambda>changed.
         if changed = 0 then fail (NoActiveEntry old)
         else bind (sql_insert_edge (supersedes_edge now i old)) (\<lambda>_. ok (i, created)))"
  have assoc: "add_note_superseding E now entropy kind title body tags files valid old =
      transaction (bind (bind (attempt (sql_insert_note ?r)) (\<lambda>x.
        recover_from_entity_id_collision E now x (row_entity_id ?r) tags files)) ?tail)"
  proof -
    have "authored_row E now entropy kind title body None valid =
        (new_row (uuid_v7_at E now entropy) kind title body now ''active'' (entity_id E kind title body))
          \<lparr>row_valid_at := valid\<rparr>"
      by (simp add: authored_row_def new_row_def)
    then show ?thesis
      by (simp add: add_note_superseding_def Let_def bind_def fun_eq_iff transaction_def
          split: prod.splits sum.splits)
  qed
  have step: "bind (bind (attempt (sql_insert_note ?r)) (\<lambda>x.
      recover_from_entity_id_collision E now x (row_entity_id ?r) tags files)) ?tail s = ?tail (i, created) u"
    by (rule bind_Inr [where m = "bind (attempt (sql_insert_note ?r)) (\<lambda>x.
      recover_from_entity_id_collision E now x (row_entity_id ?r) tags files)" and s = s, OF run])
  show ?thesis
  proof (cases "i = old")
    case True
    with res show ?thesis unfolding assoc transaction_def step by auto
  next
    case ne: False
    from res obtain n where "n \<in> set (note_rows u)" "row_uuid n = i"
      unfolding insert_result_def by blast
    then have iu: "i \<in> set (note_uuids u)" by (auto simp: note_uuids_def)
    show ?thesis
    proof (cases "list_ex (active_with old) (note_rows u)")
      case True
      from supersede_tail_run [OF iu True, of now "NoActiveEntry old" "\<lambda>_. ok (i, created)"] obtain t where
        "?tail (i, created) u = (t, Inr (i, created))" "supersede_result now u old i t"
        using ne by auto
      with res ne show ?thesis unfolding assoc transaction_def step by auto
    next
      case False
      have "set (note_rows s) \<subseteq> set (note_rows u)" using res by (auto simp: insert_result_def)
      with False have "\<not> list_ex (active_with old) (note_rows s)" by (auto simp: list_ex_iff)
      moreover have "?tail (i, created) u =
          (fst (archive_as_superseded now old i u), Inl (NoActiveEntry old))"
        using ne False
        by (auto simp: bind_def archive_as_superseded_run [OF iu] filter_empty_conv list_ex_iff)
      ultimately show ?thesis unfolding assoc transaction_def step by auto
    qed
  qed
qed

theorem add_note_superseding_atomic_witness:
  "case add_note_superseding demo_env 7 ''0123456789abcdef'' ''note'' ''C'' ''c'' [] [] None ''u1'' two_notes
     of (t, Inl e) \<Rightarrow> False
    | (t, Inr (i, created)) \<Rightarrow> i = ''u0123459abc'' \<and>
        (\<exists>u. supersede_result 7 u ''u1'' i t)"
proof -
  have fresh: "uuid_v7_at demo_env 7 ''0123456789abcdef'' \<notin> set (note_uuids two_notes)"
    "uuid_v7_at demo_env 7 ''0123456789abcdef'' \<noteq> []" by code_simp+
  have files: "files_accepted (project_root two_notes) []" by code_simp
  have "snd (add_note_superseding demo_env 7 ''0123456789abcdef'' ''note'' ''C'' ''c'' [] [] None ''u1'' two_notes)
      = Inr (''u0123459abc'', True)" by code_simp
  then obtain t where t: "add_note_superseding demo_env 7 ''0123456789abcdef'' ''note'' ''C'' ''c'' [] [] None
      ''u1'' two_notes = (t, Inr (''u0123459abc'', True))" by (metis prod.collapse)
  from add_note_superseding_atomic [OF wf_two_notes fresh(2,1) files, where kind = "''note''"
      and title = "''C''" and body = "''c''" and tags = "[]" and valid = None and old = "''u1''"]
  show ?thesis unfolding t by auto
qed

end
