(* ===== verification/Sync.thy ===== *)
theory Sync
  imports Edges
begin

text \<open>
  Entries that come from elsewhere: rows pulled from and pushed to a remote
  (\<open>storage/memory/sync.rs\<close>), and entries and edges of a dump or of the git-notes carrier
  (\<open>storage/memory/import.rs\<close>).
\<close>

section \<open>Synchronising with a remote\<close>

record sync_row =
  sync_id :: note_id
  sync_remote_id :: "string option"
  sync_kind :: string
  sync_title :: string
  sync_body :: string
  sync_source_ref :: "string option"
  sync_archived :: bool

definition has_note :: "memory_store \<Rightarrow> note_id \<Rightarrow> bool" where
  "has_note s i = (rowid_for s i \<noteq> None)"

definition set_remote_id :: "note_id \<Rightarrow> string \<Rightarrow> unit op" where
  "set_remote_id i remote = bind (sql_update (\<lambda>r. row_uuid r = i \<and> row_remote_id r = None)
     (\<lambda>r. r\<lparr>row_remote_id := Some remote\<rparr>)) (\<lambda>_. ok ())"

definition has_remote_id :: "memory_store \<Rightarrow> string \<Rightarrow> bool" where
  "has_remote_id s remote = (length (filter (\<lambda>r. row_remote_id r = Some remote) (note_rows s)) > 0)"

definition to_sync_row :: "notes_row \<Rightarrow> store_error + sync_row" where
  "to_sync_row r = and_then (parse_id (row_uuid r)) (\<lambda>i.
     Inr \<lparr>sync_id = i, sync_remote_id = row_remote_id r, sync_kind = row_kind r,
          sync_title = row_title r, sync_body = row_body r, sync_source_ref = row_source_ref r,
          sync_archived = (row_status r = ''archived'')\<rparr>)"

definition rows_for_sync :: "memory_store \<Rightarrow> bool \<Rightarrow> store_error + sync_row list" where
  "rows_for_sync s include_archived = collect (map to_sync_row
     (sort_key (\<lambda>r. (row_created_at r, row_id r))
       (filter (\<lambda>r. include_archived \<or> row_status r = ''active'') (note_rows s))))"

definition note_id_for_remote_id :: "memory_store \<Rightarrow> string \<Rightarrow> store_error + note_id option" where
  "note_id_for_remote_id s remote = id_of_row (select_one (\<lambda>r. row_remote_id r = Some remote) s)"

definition apply_remote_note ::
    "env \<Rightarrow> int \<Rightarrow> string \<Rightarrow> string \<Rightarrow> string \<Rightarrow> string \<Rightarrow> string \<Rightarrow> string option \<Rightarrow> int \<Rightarrow> bool \<Rightarrow>
     bool op" where
  "apply_remote_note E now entropy remote kind title body source_ref created_at archived =
     bind (reading (\<lambda>s. note_id_for_remote_id s remote)) (\<lambda>known.
       case known of
         Some i \<Rightarrow> bind (if archived then bind (archive i) (\<lambda>_. ok ()) else ok ()) (\<lambda>_. ok False)
       | None \<Rightarrow> transaction
          (let status = (if archived then ''archived'' else ''active'');
               eid = entity_id E kind title body in
           bind (attempt (sql_insert_note
             ((new_row (uuid_v7_at E created_at entropy) kind title body created_at status eid)
               \<lparr>row_remote_id := Some remote, row_source_ref := source_ref\<rparr>))) (\<lambda>r.
           bind (recover_from_entity_id_collision E now r eid [] []) (\<lambda>(i, created).
           bind (if created then ok ()
                 else bind (set_remote_id i remote) (\<lambda>_.
                   if archived then bind (archive i) (\<lambda>_. ok ()) else ok ())) (\<lambda>_.
           ok created)))))"

text \<open>\<open>MAX\<close> over the column, which skips NULL.\<close>

definition max_remote_id :: "memory_store \<Rightarrow> string option" where
  "max_remote_id s =
     (case remote_ids (note_rows s) of [] \<Rightarrow> None | x # xs \<Rightarrow> Some (fold max xs x))"

definition has_remote :: "memory_store \<Rightarrow> string \<Rightarrow> bool" where
  "has_remote s u = list_ex (\<lambda>r. row_uuid r = u \<and> row_remote_id r \<noteq> None) (note_rows s)"

definition relates_to_edges_for_sync ::
    "memory_store \<Rightarrow> store_error + (note_id \<times> note_id) list" where
  "relates_to_edges_for_sync s = collect (map (\<lambda>e.
       and_then (parse_id (edge_from_id e)) (\<lambda>f. and_then (parse_id (edge_to_id e)) (\<lambda>t. Inr (f, t))))
     (sort_key (\<lambda>e. (edge_created_at e, edge_from_id e, edge_to_id e))
       (filter (\<lambda>e. edge_row_kind e = ''relates_to'' \<and> has_remote s (edge_from_id e) \<and>
          has_remote s (edge_to_id e)) (memory_edges s))))"

definition pending_sync_count :: "memory_store \<Rightarrow> nat" where
  "pending_sync_count s =
     length (filter (\<lambda>r. row_status r = ''active'' \<and> row_remote_id r = None) (note_rows s))"

section \<open>Importing entries\<close>

definition note_id_for_entity_id :: "memory_store \<Rightarrow> string \<Rightarrow> store_error + note_id option" where
  "note_id_for_entity_id s eid = id_of_row (select_one (\<lambda>r. row_entity_id r = eid) s)"

definition identity_already_taken :: "memory_store \<Rightarrow> string \<Rightarrow> string option \<Rightarrow> store_error" where
  "identity_already_taken s uuid remote =
     (if select_one (\<lambda>r. row_uuid r = uuid) s \<noteq> None then UuidTaken uuid
      else case remote of
        Some x \<Rightarrow> if select_one (\<lambda>r. row_remote_id r = Some x) s \<noteq> None then RemoteIdTaken x
                  else IdentityCollides
      | None \<Rightarrow> IdentityCollides)"

definition import_entry ::
    "env \<Rightarrow> int \<Rightarrow> string \<Rightarrow> string \<Rightarrow> string \<Rightarrow> string \<Rightarrow> string list \<Rightarrow> string list \<Rightarrow> int \<Rightarrow>
     string \<Rightarrow> string option \<Rightarrow> int option \<Rightarrow> int option \<Rightarrow> string option \<Rightarrow> string option \<Rightarrow>
     origin option \<Rightarrow> (note_id \<times> bool) op" where
  "import_entry E now uuid kind title body tags files created_at status source_ref valid_at
     invalid_at given_eid remote q =
     (let eid = (case given_eid of Some e \<Rightarrow> e | None \<Rightarrow> entity_id E kind title body) in
      bind (attempt (sql_insert_note
        ((new_row uuid kind title body created_at status eid)
          \<lparr>row_source_ref := source_ref, row_valid_at := valid_at, row_invalid_at := invalid_at,
           row_remote_id := remote\<rparr>))) (\<lambda>r.
      bind (if r = Inl (Sql UniqueViolation)
            then bind (reading (\<lambda>s. note_id_for_entity_id s eid)) (\<lambda>found.
              if found = None then reading (\<lambda>s. Inl (identity_already_taken s uuid remote)) else ok ())
            else ok ()) (\<lambda>_.
      bind (recover_from_entity_id_collision E now r eid tags files) (\<lambda>(i, created).
      bind (case q of None \<Rightarrow> ok () | Some og \<Rightarrow> if created then set_origin i og else ok ()) (\<lambda>_.
      ok (i, created))))))"

text \<open>\<open>now\<close> is the default of the column, \<open>unixepoch()\<close>.\<close>

definition import_edge :: "int \<Rightarrow> note_id \<Rightarrow> note_id \<Rightarrow> string \<Rightarrow> int option \<Rightarrow> bool op" where
  "import_edge now from_id to_id kind created_at =
     bind (sql_insert_edge \<lparr>edge_from_id = from_id, edge_to_id = to_id, edge_row_kind = kind,
        edge_created_at = (case created_at of Some t \<Rightarrow> t | None \<Rightarrow> now)\<rparr>) (\<lambda>n. ok (n > 0))"

record carried_edge_import =
  applied :: nat
  already_present :: nat
  unresolved :: nat

definition no_import :: carried_edge_import where
  "no_import = \<lparr>applied = 0, already_present = 0, unresolved = 0\<rparr>"

definition count_import :: "bool \<Rightarrow> carried_edge_import \<Rightarrow> carried_edge_import" where
  "count_import inserted out =
     (if inserted then out\<lparr>applied := Suc (applied out)\<rparr>
      else out\<lparr>already_present := Suc (already_present out)\<rparr>)"

definition import_carried_step ::
    "int \<Rightarrow> string \<times> carried_edge \<Rightarrow> carried_edge_import \<Rightarrow> carried_edge_import op" where
  "import_carried_step now p out =
     (case p of (from_eid, edge) \<Rightarrow>
        if edge_kind edge \<notin> {''relates_to'', ''contradicts''} then ok out
        else bind (reading (\<lambda>s. note_id_for_entity_id s from_eid)) (\<lambda>f.
             bind (reading (\<lambda>s. note_id_for_entity_id s (edge_to edge))) (\<lambda>t.
             case (f, t) of
               (Some i, Some j) \<Rightarrow> bind (import_edge now i j (edge_kind edge) None) (\<lambda>b.
                  ok (count_import b out))
             | _ \<Rightarrow> ok (out\<lparr>unresolved := Suc (unresolved out)\<rparr>))))"

definition import_carried_edges ::
    "int \<Rightarrow> (string \<times> carried_edge) list \<Rightarrow> carried_edge_import op" where
  "import_carried_edges now edges = fold_each (import_carried_step now) edges no_import"

definition import_supersede_step ::
    "int \<Rightarrow> string \<times> string \<Rightarrow> carried_edge_import \<Rightarrow> carried_edge_import op" where
  "import_supersede_step now p out =
     (case p of (old_eid, new_eid) \<Rightarrow>
        bind (reading (\<lambda>s. note_id_for_entity_id s new_eid)) (\<lambda>f.
        bind (reading (\<lambda>s. note_id_for_entity_id s old_eid)) (\<lambda>t.
        case (f, t) of
          (Some i, Some j) \<Rightarrow>
             if i = j then ok out
             else bind (import_edge now i j ''supersedes'' None) (\<lambda>b. ok (count_import b out))
        | _ \<Rightarrow> ok (out\<lparr>unresolved := Suc (unresolved out)\<rparr>))))"

definition import_supersede_edges ::
    "int \<Rightarrow> (string \<times> string) list \<Rightarrow> carried_edge_import op" where
  "import_supersede_edges now pairs = fold_each (import_supersede_step now) pairs no_import"

definition note_ids_for_entity_id_prefix ::
    "memory_store \<Rightarrow> string \<Rightarrow> store_error + note_id list" where
  "note_ids_for_entity_id_prefix s prefix = collect (map (\<lambda>r. parse_id (row_uuid r))
     (sort_key row_entity_id
       (filter (\<lambda>r. prefix \<le> row_entity_id r \<and> row_entity_id r < prefix @ ''g'') (note_rows s))))"

section \<open>Preservation\<close>

lemma set_remote_id_rules [wf_intros]: "wf_op (set_remote_id i x)" "grow_op (set_remote_id i x)"
  unfolding set_remote_id_def by (intro wf_intros; simp add: same_keys_def row_evolves_def)+

lemma apply_remote_note_rules [wf_intros]:
  "mints_ids E \<Longrightarrow> wf_op (apply_remote_note E now entropy remote kind title body src at archived)"
  "grow_op (apply_remote_note E now entropy remote kind title body src at archived)"
  unfolding apply_remote_note_def Let_def
  by (intro wf_intros keeps_case_prod; simp add: uuid_v7_nonempty)+

lemma import_entry_rules [wf_intros]:
  "uuid \<noteq> [] \<Longrightarrow> wf_op (import_entry E now uuid kind title body tags files at st src va iv eid rem q)"
  "grow_op (import_entry E now uuid kind title body tags files at st src va iv eid rem q)"
  unfolding import_entry_def Let_def
  by (intro wf_intros keeps_case_prod; simp)+

lemma import_edge_rules [wf_intros]:
  "wf_op (import_edge now i j k at)" "grow_op (import_edge now i j k at)"
  unfolding import_edge_def by (intro wf_intros)+

lemma import_edges_rules [wf_intros]:
  "wf_op (import_carried_edges now es)" "grow_op (import_carried_edges now es)"
  "wf_op (import_supersede_edges now ps)" "grow_op (import_supersede_edges now ps)"
  unfolding import_carried_edges_def import_carried_step_def import_supersede_edges_def
    import_supersede_step_def prod.case
  by (intro wf_intros keeps_case_prod)+


section \<open>Applying a pulled entry\<close>

lemma sql_update_local:
  assumes "\<And>r. row_superseded_by (f r) = row_superseded_by r"
    and "\<And>r. row_remote_id (f r) = row_remote_id r"
  shows "sql_update P f s = (s\<lparr>note_rows := map (\<lambda>r. if P r then f r else r) (note_rows s)\<rparr>,
    Inr (length (filter P (note_rows s))))"
  using assms by (simp add: sql_update_def Let_def list_ex_iff)

lemma sql_update_none:
  "\<not> list_ex P (note_rows s) \<Longrightarrow> sql_update P f s = (s, Inr 0)"
  by (auto simp: sql_update_def Let_def list_ex_iff filter_empty_conv map_idI)

definition archived_row :: "notes_row \<Rightarrow> notes_row" where
  "archived_row r = r\<lparr>row_status := ''archived''\<rparr>"

lemma archive_eq: "archive i = bind (sql_update (active_with i) archived_row) (\<lambda>n. ok (n > 0))"
proof -
  have "(\<lambda>r. row_uuid r = i \<and> row_status r = ''active'') = active_with i"
    "(\<lambda>r. r\<lparr>row_status := ''archived''\<rparr>) = archived_row"
    by (simp_all add: fun_eq_iff active_with_def archived_row_def)
  then show ?thesis by (simp add: archive_def)
qed

definition archive_rows :: "note_id \<Rightarrow> memory_store \<Rightarrow> memory_store" where
  "archive_rows i s =
     s\<lparr>note_rows := map (\<lambda>r. if active_with i r then archived_row r else r) (note_rows s)\<rparr>"

lemma archive_run: "archive i s = (archive_rows i s, Inr (list_ex (active_with i) (note_rows s)))"
proof -
  have "sql_update (active_with i) archived_row s =
      (archive_rows i s, Inr (length (filter (active_with i) (note_rows s))))"
    unfolding archive_rows_def by (rule sql_update_local) (simp_all add: archived_row_def)
  moreover have "(length (filter P rs) > 0) = list_ex P rs" for P and rs :: "notes_row list"
    by (induction rs) auto
  ultimately show ?thesis by (simp add: archive_eq bind_def)
qed

lemma archive_rows_idem: "\<not> list_ex (active_with i) (note_rows s) \<Longrightarrow> archive_rows i s = s"
  by (auto simp: archive_rows_def list_ex_iff map_idI)

lemma archive_rows_inactive: "\<not> list_ex (active_with i) (note_rows (archive_rows i s))"
proof -
  have "\<not> active_with i (archived_row r)" for r
    by (simp add: active_with_def archived_row_def)
  then show ?thesis by (auto simp: archive_rows_def list_ex_iff)
qed

lemma find_map_same: "(\<And>x. P (f x) = P x) \<Longrightarrow> find P (map f xs) = map_option f (find P xs)"
  by (induction xs) auto

lemma note_id_for_remote_id_archive:
  "note_id_for_remote_id (archive_rows i s) x = note_id_for_remote_id s x"
proof -
  let ?f = "\<lambda>r. if active_with i r then archived_row r else r"
  have "find (\<lambda>r. row_remote_id r = Some x) (map ?f (note_rows s)) =
      map_option ?f (find (\<lambda>r. row_remote_id r = Some x) (note_rows s))"
    by (rule find_map_same) (simp add: archived_row_def)
  then show ?thesis
    by (simp add: note_id_for_remote_id_def select_one_def archive_rows_def id_of_row_def
        archived_row_def split: option.split)
qed

lemma note_id_for_remote_id_wf:
  assumes "wf_store s"
  shows "note_id_for_remote_id s x =
    Inr (map_option row_uuid (select_one (\<lambda>r. row_remote_id r = Some x) s))"
proof (cases "select_one (\<lambda>r. row_remote_id r = Some x) s")
  case (Some r)
  then have "r \<in> set (note_rows s)" by (auto simp: select_one_def find_Some_iff)
  with wf_row(1) [OF assms] Some show ?thesis
    by (simp add: note_id_for_remote_id_def id_of_row_def)
qed (simp add: note_id_for_remote_id_def id_of_row_def)

lemma apply_known:
  assumes "note_id_for_remote_id s x = Inr (Some i)"
  shows "apply_remote_note E now entropy x kind title body src at archived s =
    (if archived then archive_rows i s else s, Inr False)"
  using assms
  by (simp add: apply_remote_note_def bind_reading bind_def archive_run)

lemma apply_known_again:
  assumes "note_id_for_remote_id t x = Inr (Some i)"
    and "archived \<Longrightarrow> \<not> list_ex (active_with i) (note_rows t)"
  shows "apply_remote_note E now entropy x kind title body src at archived t = (t, Inr False)"
  using apply_known [OF assms(1)] archive_rows_idem assms(2) by simp

definition pulled_row ::
    "env \<Rightarrow> string \<Rightarrow> string \<Rightarrow> string \<Rightarrow> string \<Rightarrow> string \<Rightarrow> string option \<Rightarrow> int \<Rightarrow> bool \<Rightarrow> notes_row" where
  "pulled_row E entropy x kind title body src at archived =
     (new_row (uuid_v7_at E at entropy) kind title body at
        (if archived then ''archived'' else ''active'') (entity_id E kind title body))
       \<lparr>row_remote_id := Some x, row_source_ref := src\<rparr>"

lemma pulled_row_fields [simp]:
  "row_uuid (pulled_row E entropy x kind title body src at archived) = uuid_v7_at E at entropy"
  "row_entity_id (pulled_row E entropy x kind title body src at archived) = entity_id E kind title body"
  "row_remote_id (pulled_row E entropy x kind title body src at archived) = Some x"
  "row_superseded_by (pulled_row E entropy x kind title body src at archived) = None"
  "row_status (pulled_row E entropy x kind title body src at archived) =
     (if archived then ''archived'' else ''active'')"
  by (simp_all add: pulled_row_def)

lemma attach_nothing: "attach_tags_and_files E now u [] [] s = (s, Inr [])"
  by (simp add: attach_tags_and_files_def for_each_def)

text \<open>The unknown remote id: insert, or adopt the row with the same content.\<close>

lemma apply_unknown:
  assumes "note_id_for_remote_id s x = Inr None"
  shows "apply_remote_note E now entropy x kind title body src at archived s =
    transaction (bind (bind (attempt (sql_insert_note (pulled_row E entropy x kind title body src at archived)))
      (\<lambda>r. recover_from_entity_id_collision E now r (entity_id E kind title body) [] []))
      (\<lambda>(i, created). bind (if created then ok ()
         else bind (set_remote_id i x) (\<lambda>_. if archived then bind (archive i) (\<lambda>_. ok ()) else ok ()))
         (\<lambda>_. ok created))) s"
  using assms
  by (simp add: apply_remote_note_def bind_reading Let_def pulled_row_def transaction_def bind_def
      split: prod.splits sum.splits)

lemma apply_insert:
  assumes wf: "wf_store s" and x: "note_id_for_remote_id s x = Inr None"
    and eid: "entity_id E kind title body \<notin> set (map row_entity_id (note_rows s))"
    and uuid: "uuid_v7_at E at entropy \<noteq> []" "uuid_v7_at E at entropy \<notin> set (note_uuids s)"
  shows "apply_remote_note E now entropy x kind title body src at archived s =
    (s\<lparr>note_rows := note_rows s @ [(pulled_row E entropy x kind title body src at archived)
        \<lparr>row_id := Suc (rowid_seq s)\<rparr>], rowid_seq := Suc (rowid_seq s)\<rparr>, Inr True)"
proof -
  let ?r = "pulled_row E entropy x kind title body src at archived"
  let ?u = "s\<lparr>note_rows := note_rows s @ [?r\<lparr>row_id := Suc (rowid_seq s)\<rparr>], rowid_seq := Suc (rowid_seq s)\<rparr>"
  have "select_one (\<lambda>r. row_remote_id r = Some x) s = None"
    using x note_id_for_remote_id_wf [OF wf, of x] by simp
  then have "x \<notin> set (remote_ids (note_rows s))"
    by (auto simp: select_one_def find_None_iff remote_ids_def map_filter_def)
  then have ins: "sql_insert_note ?r s = (?u, Inr ())"
    using eid uuid by (simp add: sql_insert_note_def)
  have wfu: "wf_store ?u" using wf_insert_note [OF _ _ wf, of ?r] uuid ins by simp
  have "uuid_for_rowid ?u (rowid_seq ?u) = Inr (Some (row_uuid ?r))"
    using find_last_row [OF wfu] uuid by (simp add: uuid_for_rowid_def select_one_def id_of_row_def)
  then show ?thesis
    unfolding apply_unknown [OF x]
    by (simp add: transaction_def bind_def attempt_def ins recover_from_entity_id_collision_def
        attach_nothing)
qed

lemma set_remote_id_run:
  assumes wf: "wf_store s" and notin: "x \<notin> set (remote_ids (note_rows s))"
  shows "set_remote_id i x s = (s\<lparr>note_rows := map (\<lambda>r. if row_uuid r = i \<and> row_remote_id r = None
      then r\<lparr>row_remote_id := Some x\<rparr> else r) (note_rows s)\<rparr>, Inr ())"
proof -
  have "wf_keys s" using wf by (simp add: wf_store_def)
  then have d: "distinct (map row_uuid (note_rows s))" "distinct (remote_ids (note_rows s))"
    by (simp_all add: wf_keys_def note_uuids_def)
  have "distinct (remote_ids (map (\<lambda>r. if row_uuid r = i \<and> row_remote_id r = None
      then r\<lparr>row_remote_id := Some x\<rparr> else r) rs))"
    if "distinct (map row_uuid rs)" "distinct (remote_ids rs)" "x \<notin> set (remote_ids rs)" for rs
    using that
  proof (induction rs)
    case (Cons r rs)
    let ?f = "\<lambda>r. if row_uuid r = i \<and> row_remote_id r = None
      then r\<lparr>row_remote_id := Some x\<rparr> else r"
    have cons: "remote_ids (r # rs) = remote_ids [r] @ remote_ids rs" for r rs
      by (simp add: remote_ids_def map_filter_def)
    have sub: "set (remote_ids (map ?f rs)) \<subseteq> insert x (set (remote_ids rs))"
      by (auto simp: remote_ids_def map_filter_def split: if_splits)
    show ?case
    proof (cases "row_uuid r = i \<and> row_remote_id r = None")
      case True
      with Cons.prems(1) have "i \<notin> row_uuid ` set rs" by auto
      then have "\<forall>q \<in> set rs. row_uuid q \<noteq> i" by (metis image_eqI)
      then have "map ?f rs = rs" by (intro map_idI) simp
      with True Cons.prems show ?thesis by (simp add: cons [of _ rs])
    next
      case False
      have "distinct (remote_ids (map ?f rs))"
        using Cons by (auto simp: cons [of r rs] split: option.splits)
      moreover have "set (remote_ids [r]) \<inter> set (remote_ids (map ?f rs)) = {}"
        using sub Cons.prems(2,3) by (auto simp: cons [of r rs] split: option.splits)
      ultimately show ?thesis using False by (auto simp: cons [of r] split: option.splits)
    qed
  qed (simp add: remote_ids_def map_filter_def)
  from this [OF d notin] show ?thesis
    by (simp add: set_remote_id_def bind_def sql_update_def Let_def list_ex_iff)
qed

lemma apply_adopt:
  assumes wf: "wf_store s" and x: "note_id_for_remote_id s x = Inr None"
    and n: "n \<in> set (note_rows s)" "row_entity_id n = entity_id E kind title body"
  defines "u \<equiv> s\<lparr>note_rows := map (\<lambda>r. if row_uuid r = row_uuid n \<and> row_remote_id r = None
      then r\<lparr>row_remote_id := Some x\<rparr> else r) (note_rows s)\<rparr>"
  shows "apply_remote_note E now entropy x kind title body src at archived s =
    (if archived then archive_rows (row_uuid n) u else u, Inr False)"
proof -
  let ?r = "pulled_row E entropy x kind title body src at archived"
  have "files_accepted (project_root s) []" by (simp add: files_accepted_def)
  from recover_again [OF wf n(1) _ this, of ?r E "[]" now] n(2)
  have run: "bind (attempt (sql_insert_note ?r)) (\<lambda>r.
      recover_from_entity_id_collision E now r (entity_id E kind title body) [] []) s =
      (s, Inr (row_uuid n, False))" by simp
  have none: "select_one (\<lambda>r. row_remote_id r = Some x) s = None"
    using x note_id_for_remote_id_wf [OF wf, of x] by simp
  then have notin: "x \<notin> set (remote_ids (note_rows s))"
    by (auto simp: select_one_def find_None_iff remote_ids_def map_filter_def)
  have set: "set_remote_id (row_uuid n) x s = (u, Inr ())"
    unfolding u_def by (rule set_remote_id_run [OF wf notin])
  show ?thesis unfolding apply_unknown [OF x]
    by (simp add: transaction_def bind_def [of "bind _ _"] run)
      (simp add: bind_def set archive_run)
qed

lemma note_id_for_remote_id_known:
  assumes "wf_store t" and "r \<in> set (note_rows t)" and "row_remote_id r = Some x"
  shows "note_id_for_remote_id t x = Inr (Some (row_uuid r))"
proof -
  have "distinct (remote_ids (note_rows t))" using assms(1) by (simp add: wf_store_def wf_keys_def)
  then have "find (\<lambda>q. row_remote_id q = Some x) (note_rows t) = Some r"
    using assms(2,3)
  proof (induction "note_rows t" arbitrary: t)
    case (Cons q qs)
    have cons: "remote_ids (q # qs) = remote_ids [q] @ remote_ids qs"
      by (simp add: remote_ids_def map_filter_def)
    have mem: "r \<in> set qs \<Longrightarrow> x \<in> set (remote_ids qs)"
      using Cons.prems(3) by (force simp: remote_ids_def map_filter_def)
    from Cons(1) [of "t\<lparr>note_rows := qs\<rparr>"] Cons.prems mem show ?case
      unfolding Cons(2) [symmetric] cons by (auto simp del: remote_ids_append)
  qed simp
  with note_id_for_remote_id_wf [OF assms(1), of x] show ?thesis by (simp add: select_one_def)
qed

lemma apply_keeps:
  assumes "wf_store s" and "uuid_v7_at E at entropy \<noteq> []"
    and "apply_remote_note E now entropy x kind title body src at archived s = (t, r)"
  shows "wf_store t" and "grows s t"
proof -
  have "wf_op (apply_remote_note E now entropy x kind title body src at archived)"
    unfolding apply_remote_note_def Let_def
    by (intro wf_intros keeps_case_prod; simp add: assms(2))
  from keeps_carriesD [OF this assms(1,3)] show "wf_store t" .
  show "grows s t"
    using apply_remote_note_rules(2) assms(3) by (metis fst_conv keeps_def)
qed

lemma archive_rows_image:
  assumes "r \<in> set (note_rows t)"
  shows "\<exists>r' \<in> set (note_rows (archive_rows i t)). row_uuid r' = row_uuid r \<and>
    row_remote_id r' = row_remote_id r \<and> row_entity_id r' = row_entity_id r"
proof
  let ?r' = "if active_with i r then archived_row r else r"
  show "?r' \<in> set (note_rows (archive_rows i t))" using assms by (auto simp: archive_rows_def)
  show "row_uuid ?r' = row_uuid r \<and> row_remote_id ?r' = row_remote_id r \<and>
      row_entity_id ?r' = row_entity_id r" by (simp add: archived_row_def)
qed

lemma inactive_row:
  "\<not> list_ex (active_with i) (note_rows t) \<Longrightarrow> r \<in> set (note_rows t) \<Longrightarrow> row_uuid r = i \<Longrightarrow>
     row_status r \<noteq> ''active''"
  by (auto simp: list_ex_iff active_with_def)

text \<open>The row that was adopted still has the content afterwards, and applying again changes nothing.\<close>

lemma apply_adopt_again:
  assumes wf: "wf_store s" and uuid: "uuid_v7_at E at entropy \<noteq> []"
    and x: "note_id_for_remote_id s x = Inr None"
    and n: "n \<in> set (note_rows s)" "row_entity_id n = entity_id E kind title body"
    and run: "apply_remote_note E now entropy x kind title body src at archived s = (t, Inr b)"
  shows "\<exists>m \<in> set (note_rows t). row_entity_id m = entity_id E kind title body \<and>
    (archived \<longrightarrow> row_status m \<noteq> ''active'') \<and>
    apply_remote_note E now' entropy' x kind title body src at archived t = (t, Inr False)"
proof -
  let ?f = "\<lambda>r. if row_uuid r = row_uuid n \<and> row_remote_id r = None
    then r\<lparr>row_remote_id := Some x\<rparr> else r"
  let ?u = "s\<lparr>note_rows := map ?f (note_rows s)\<rparr>"
  have t: "t = (if archived then archive_rows (row_uuid n) ?u else ?u)"
    using run apply_adopt [OF wf x n, of now entropy src at archived] by simp
  note wft = apply_keeps(1) [OF wf uuid run]
  have inact: "\<not> list_ex (active_with (row_uuid n)) (note_rows t)" if archived
    using that archive_rows_inactive by (simp add: t)
  have fn: "?f n \<in> set (note_rows ?u)" "row_uuid (?f n) = row_uuid n"
    "row_entity_id (?f n) = entity_id E kind title body" using n by auto
  obtain m where m: "m \<in> set (note_rows t)" "row_uuid m = row_uuid n"
      "row_entity_id m = entity_id E kind title body" "row_remote_id m = row_remote_id (?f n)"
  proof (cases archived)
    case True
    from archive_rows_image [OF fn(1), of "row_uuid n"] obtain m where
      "m \<in> set (note_rows (archive_rows (row_uuid n) ?u))" "row_uuid m = row_uuid (?f n)"
      "row_remote_id m = row_remote_id (?f n)" "row_entity_id m = row_entity_id (?f n)" by blast
    with that [of m] True fn(2,3) t show ?thesis by presburger
  next
    case False
    with that [of "?f n"] fn t show ?thesis by presburger
  qed
  have "apply_remote_note E now' entropy' x kind title body src at archived t = (t, Inr False)"
  proof (cases "row_remote_id n = None")
    case True
    then have "row_remote_id m = Some x" using m(4) by simp
    from note_id_for_remote_id_known [OF wft m(1) this] m(2)
    have "note_id_for_remote_id t x = Inr (Some (row_uuid n))" by simp
    from apply_known_again [OF this inact] show ?thesis .
  next
    case False
    have "?f r = r" if "r \<in> set (note_rows s)" for r
      using False uuid_unique [OF wf that n(1)] by auto
    then have us: "?u = s" by (simp add: map_idI)
    have x': "note_id_for_remote_id t x = Inr None"
      using x unfolding t us by (simp add: note_id_for_remote_id_archive)
    have "row_uuid r = row_uuid m \<Longrightarrow> row_remote_id r \<noteq> None" if "r \<in> set (note_rows t)" for r
      using uuid_unique [OF wft that m(1)] m(4) False by auto
    then have "map (\<lambda>r. if row_uuid r = row_uuid m \<and> row_remote_id r = None
        then r\<lparr>row_remote_id := Some x\<rparr> else r) (note_rows t) = note_rows t"
      by (intro map_idI) auto
    with apply_adopt [OF wft x' m(1,3), of now' entropy' src at archived] show ?thesis
      using inact m(2) by (auto simp: archive_rows_idem)
  qed
  with m inact inactive_row [of "row_uuid n" t m] show ?thesis by blast
qed

text \<open>
  Applying a pulled entry to a well-formed store always succeeds; it reports a new row
  exactly when neither its remote id nor its content was known, and never loses a row, revives an
  archived one or changes the remote id a row has. Applying the same entry again - later, with
  another id minted for it - reports nothing new and leaves the store exactly as it was, so
  re-running a pull is a no-op. An archived pull leaves no active row for the entry.
\<close>
theorem apply_remote_note_idempotent:
  assumes wf: "wf_store s" and uuid: "uuid_v7_at E at entropy \<noteq> []"
    "uuid_v7_at E at entropy \<notin> set (note_uuids s)"
  shows "\<exists>t b. apply_remote_note E now entropy x kind title body src at archived s = (t, Inr b) \<and>
    b = (note_id_for_remote_id s x = Inr None \<and>
         entity_id E kind title body \<notin> set (map row_entity_id (note_rows s))) \<and>
    grows s t \<and>
    apply_remote_note E now' entropy' x kind title body src at archived t = (t, Inr False) \<and>
    (archived \<longrightarrow> (\<exists>r \<in> set (note_rows t). (row_remote_id r = Some x \<or>
        row_entity_id r = entity_id E kind title body) \<and> row_status r \<noteq> ''active''))"
proof (cases "select_one (\<lambda>r. row_remote_id r = Some x) s")
  case (Some r)
  then have r: "r \<in> set (note_rows s)" "row_remote_id r = Some x"
    by (auto simp: select_one_def find_Some_iff)
  with note_id_for_remote_id_known [OF wf] have k: "note_id_for_remote_id s x = Inr (Some (row_uuid r))" .
  let ?t = "if archived then archive_rows (row_uuid r) s else s"
  note run = apply_known [OF k, of E now entropy kind title body src at archived]
  have "note_id_for_remote_id ?t x = Inr (Some (row_uuid r))"
    using k by (simp add: note_id_for_remote_id_archive)
  from apply_known_again [OF this, of archived E now' entropy' kind title body src at]
  have "apply_remote_note E now' entropy' x kind title body src at archived ?t = (?t, Inr False)"
    by (simp add: archive_rows_inactive)
  moreover have "\<exists>r' \<in> set (note_rows ?t). row_remote_id r' = Some x \<and> row_status r' \<noteq> ''active''" if archived
    using archive_rows_image [OF r(1), of "row_uuid r"] r(2) that
      inactive_row [OF archive_rows_inactive] by auto
  ultimately show ?thesis using run apply_keeps(2) [OF wf uuid(1) run] k by auto
next
  case None
  then have x: "note_id_for_remote_id s x = Inr None"
    by (simp add: note_id_for_remote_id_wf [OF wf])
  show ?thesis
  proof (cases "entity_id E kind title body \<in> set (map row_entity_id (note_rows s))")
    case False
    let ?new = "(pulled_row E entropy x kind title body src at archived)\<lparr>row_id := Suc (rowid_seq s)\<rparr>"
    let ?t = "s\<lparr>note_rows := note_rows s @ [?new], rowid_seq := Suc (rowid_seq s)\<rparr>"
    note run = apply_insert [OF wf x False uuid, of now src archived]
    have new: "?new \<in> set (note_rows ?t)" "row_remote_id ?new = Some x" by simp_all
    note k = note_id_for_remote_id_known [OF apply_keeps(1) [OF wf uuid(1) run] new]
    have "\<not> list_ex (active_with (row_uuid ?new)) (note_rows ?t)" if archived
      using that uuid(2) by (auto simp: list_ex_iff active_with_def in_note_uuids)
    from apply_known_again [OF k this]
    have "apply_remote_note E now' entropy' x kind title body src at archived ?t = (?t, Inr False)" .
    moreover have "row_status ?new \<noteq> ''active''" if archived using that by simp
    ultimately show ?thesis using run apply_keeps(2) [OF wf uuid(1) run] x False new by blast
  next
    case True
    then obtain n where n: "n \<in> set (note_rows s)" "row_entity_id n = entity_id E kind title body"
      by auto
    then obtain t where run: "apply_remote_note E now entropy x kind title body src at archived s = (t, Inr False)"
      using apply_adopt [OF wf x n, of now entropy src at archived] by blast
    from apply_adopt_again [OF wf uuid(1) x n run, of now' entropy'] run
      apply_keeps(2) [OF wf uuid(1) run] True x show ?thesis by blast
  qed
qed

theorem apply_remote_note_idempotent_witness:
  "\<exists>t. apply_remote_note demo_env 5 ''0123456789abcdef'' ''r1'' ''note'' ''C'' ''c'' None 4 True two_notes =
      (t, Inr True) \<and>
    apply_remote_note demo_env 6 ''fedcba9876543210'' ''r1'' ''note'' ''C'' ''c'' None 4 True t =
      (t, Inr False)"
proof -
  have fresh: "uuid_v7_at demo_env 4 ''0123456789abcdef'' \<noteq> []"
    "uuid_v7_at demo_env 4 ''0123456789abcdef'' \<notin> set (note_uuids two_notes)" by code_simp+
  have new: "note_id_for_remote_id two_notes ''r1'' = Inr None"
    "entity_id demo_env ''note'' ''C'' ''c'' \<notin> set (map row_entity_id (note_rows two_notes))"
    by code_simp+
  from apply_remote_note_idempotent [OF wf_two_notes fresh, of 5 "''r1''" "''note''" "''C''" "''c''" None
      True 6 "''fedcba9876543210''"]
  obtain t b where "apply_remote_note demo_env 5 ''0123456789abcdef'' ''r1'' ''note'' ''C'' ''c'' None 4
      True two_notes = (t, Inr b)" and b: "b = (note_id_for_remote_id two_notes ''r1'' = Inr None \<and>
      entity_id demo_env ''note'' ''C'' ''c'' \<notin> set (map row_entity_id (note_rows two_notes)))"
    and "apply_remote_note demo_env 6 ''fedcba9876543210'' ''r1'' ''note'' ''C'' ''c'' None 4 True t =
      (t, Inr False)" by blast
  moreover have "b" unfolding b using new by simp
  ultimately show ?thesis by auto
qed


section \<open>Importing edges\<close>

text \<open>What an import makes of one carried edge: not its kind, an endpoint missing, or a row.\<close>

datatype edge_verdict = Skip | Missing | Found note_id note_id string

definition found_keys :: "('p \<Rightarrow> edge_verdict) \<Rightarrow> 'p list \<Rightarrow> (string \<times> string \<times> string) set" where
  "found_keys verdict ps = {(i, j, k). Found i j k \<in> verdict ` set ps}"

definition is_found :: "edge_verdict \<Rightarrow> bool" where
  "is_found v = (case v of Found i j k \<Rightarrow> True | _ \<Rightarrow> False)"

definition edge_step_result ::
    "int \<Rightarrow> edge_verdict \<Rightarrow> carried_edge_import \<Rightarrow> carried_edge_import op" where
  "edge_step_result now v out =
     (case v of Skip \<Rightarrow> ok out
      | Missing \<Rightarrow> ok (out\<lparr>unresolved := Suc (unresolved out)\<rparr>)
      | Found i j k \<Rightarrow> bind (import_edge now i j k None) (\<lambda>b. ok (count_import b out)))"

text \<open>
  The contract of an edge import: one step is decided by a verdict that reads the notes only, and
  a found edge has endpoints the store holds and a kind the schema allows.
\<close>

locale edge_import =
  fixes step :: "int \<Rightarrow> 'p \<Rightarrow> carried_edge_import \<Rightarrow> carried_edge_import op"
    and verdict :: "memory_store \<Rightarrow> 'p \<Rightarrow> edge_verdict"
  assumes step_run: "wf_store s \<Longrightarrow> step now p out s = edge_step_result now (verdict s p) out s"
    and verdict_frame: "verdict (s\<lparr>memory_edges := es\<rparr>) p = verdict s p"
    and verdict_found: "wf_store s \<Longrightarrow> verdict s p = Found i j k \<Longrightarrow>
      i \<in> set (note_uuids s) \<and> j \<in> set (note_uuids s) \<and> k \<in> set EDGE_KINDS"
begin

lemma one_step:
  assumes "wf_store s"
  shows "\<exists>es out'. step now p out s = (s\<lparr>memory_edges := memory_edges s @ es\<rparr>, Inr out') \<and>
    set (map edge_key (memory_edges s @ es)) =
      set (map edge_key (memory_edges s)) \<union> found_keys (verdict s) [p] \<and>
    applied out' = applied out + length es \<and>
    applied out' + already_present out' =
      applied out + already_present out + (if is_found (verdict s p) then 1 else 0) \<and>
    unresolved out' = unresolved out + (if verdict s p = Missing then 1 else 0) \<and>
    (found_keys (verdict s) [p] \<subseteq> set (map edge_key (memory_edges s)) \<longrightarrow> es = [])"
proof (cases "verdict s p")
  case (Found i j k)
  let ?e = "\<lparr>edge_from_id = i, edge_to_id = j, edge_row_kind = k, edge_created_at = now\<rparr>"
  have key: "edge_key ?e = (i, j, k)" by (simp add: edge_key_def)
  have fk: "found_keys (verdict s) [p] = {(i, j, k)}" using Found by (auto simp: found_keys_def)
  note known = verdict_found [OF assms Found]
  show ?thesis
  proof (cases "(i, j, k) \<in> set (map edge_key (memory_edges s))")
    case True
    then have "step now p out s = (s, Inr (count_import False out))"
      using known key
      by (simp add: step_run [OF assms] Found edge_step_result_def import_edge_def sql_insert_edge_def bind_def)
    with True fk Found show ?thesis
      by (intro exI [of _ "[]"] exI [of _ "count_import False out"])
        (auto simp: count_import_def is_found_def)
  next
    case False
    then have "step now p out s = (s\<lparr>memory_edges := memory_edges s @ [?e]\<rparr>, Inr (count_import True out))"
      using known key
      by (simp add: step_run [OF assms] Found edge_step_result_def import_edge_def sql_insert_edge_def bind_def)
    with False fk key Found show ?thesis
      by (intro exI [of _ "[?e]"] exI [of _ "count_import True out"])
        (auto simp: count_import_def is_found_def)
  qed
qed (auto simp: step_run [OF assms] edge_step_result_def found_keys_def is_found_def
      intro: exI [of _ "[]"])

lemma run:
  assumes "wf_store s"
  shows "\<exists>es out'. fold_each (step now) ps out s = (s\<lparr>memory_edges := memory_edges s @ es\<rparr>, Inr out') \<and>
    set (map edge_key (memory_edges s @ es)) =
      set (map edge_key (memory_edges s)) \<union> found_keys (verdict s) ps \<and>
    applied out' = applied out + length es \<and>
    applied out' + already_present out' =
      applied out + already_present out + length (filter (\<lambda>p. is_found (verdict s p)) ps) \<and>
    unresolved out' = unresolved out + length (filter (\<lambda>p. verdict s p = Missing) ps) \<and>
    (found_keys (verdict s) ps \<subseteq> set (map edge_key (memory_edges s)) \<longrightarrow> es = [])"
  using assms
proof (induction ps arbitrary: s out)
  case Nil
  then show ?case by (auto simp: found_keys_def intro: exI [of _ "[]"])
next
  case (Cons p ps)
  from one_step [OF Cons.prems, where now = now and p = p and out = out] obtain a o1 where
    a: "step now p out s = (s\<lparr>memory_edges := memory_edges s @ a\<rparr>, Inr o1)"
      "set (map edge_key (memory_edges s @ a)) =
        set (map edge_key (memory_edges s)) \<union> found_keys (verdict s) [p]"
      "applied o1 = applied out + length a"
      "applied o1 + already_present o1 =
        applied out + already_present out + (if is_found (verdict s p) then 1 else 0)"
      "unresolved o1 = unresolved out + (if verdict s p = Missing then 1 else 0)"
      "found_keys (verdict s) [p] \<subseteq> set (map edge_key (memory_edges s)) \<longrightarrow> a = []" by blast
  let ?t = "s\<lparr>memory_edges := memory_edges s @ a\<rparr>"
  have wft: "wf_store ?t"
  proof (cases "verdict s p")
    case (Found i j k)
    then have "?t = fst (import_edge now i j k None s)"
      using a(1) by (auto simp: step_run [OF Cons.prems] edge_step_result_def bind_def
          split: prod.splits sum.splits)
    with import_edge_rules(1) Cons.prems show ?thesis by (metis carries_def keeps_def)
  qed (use a(1) Cons.prems in \<open>auto simp: step_run [OF Cons.prems] edge_step_result_def\<close>)
  have vt: "verdict ?t = verdict s" and et: "memory_edges ?t = memory_edges s @ a"
    by (auto simp: verdict_frame)
  from Cons.IH [OF wft, of o1, unfolded vt et] obtain b o2 where
    b: "fold_each (step now) ps o1 ?t = (?t\<lparr>memory_edges := (memory_edges s @ a) @ b\<rparr>, Inr o2)"
      "set (map edge_key ((memory_edges s @ a) @ b)) =
        set (map edge_key (memory_edges s @ a)) \<union> found_keys (verdict s) ps"
      "applied o2 = applied o1 + length b"
      "applied o2 + already_present o2 =
        applied o1 + already_present o1 + length (filter (\<lambda>p. is_found (verdict s p)) ps)"
      "unresolved o2 = unresolved o1 + length (filter (\<lambda>p. verdict s p = Missing) ps)"
      "found_keys (verdict s) ps \<subseteq> set (map edge_key (memory_edges s @ a)) \<longrightarrow> b = []" by blast
  have keys: "found_keys (verdict s) (p # ps) = found_keys (verdict s) [p] \<union> found_keys (verdict s) ps"
    by (auto simp: found_keys_def)
  have "fold_each (step now) (p # ps) out s = (s\<lparr>memory_edges := memory_edges s @ a @ b\<rparr>, Inr o2)"
    using b(1) by (simp add: bind_def a(1))
  moreover have "set (map edge_key (memory_edges s @ a @ b)) =
      set (map edge_key (memory_edges s)) \<union> found_keys (verdict s) (p # ps)"
    using a(2) b(2) unfolding keys by auto
  moreover have "a @ b = []"
    if sub: "found_keys (verdict s) (p # ps) \<subseteq> set (map edge_key (memory_edges s))"
  proof -
    from sub a(6) have "a = []" unfolding keys by blast
    with sub b(6) show ?thesis unfolding keys by simp
  qed
  ultimately show ?case using a(3-5) b(3-5)
    by (intro exI [of _ "a @ b"] exI [of _ o2]) auto
qed

text \<open>Importing a second time adds nothing, whatever the order of the second list.\<close>

lemma again:
  assumes "wf_store s" and "fold_each (step now) ps no_import s = (t, Inr out)" and "mset qs = mset ps"
  shows "fold_each (step now') qs no_import t = (t, Inr \<lparr>applied = 0,
    already_present = applied out + already_present out, unresolved = unresolved out\<rparr>)"
proof -
  from run [OF assms(1), where now = now and ps = ps and out = no_import] assms(2) obtain es where
    t: "t = s\<lparr>memory_edges := memory_edges s @ es\<rparr>" and
    keys: "set (map edge_key (memory_edges s @ es)) =
      set (map edge_key (memory_edges s)) \<union> found_keys (verdict s) ps" and
    sum: "applied out + already_present out = length (filter (\<lambda>p. is_found (verdict s p)) ps)"
      "unresolved out = length (filter (\<lambda>p. verdict s p = Missing) ps)"
    by (auto simp: no_import_def)
  have "wf_store t"
  proof -
    have "wf_store (fst (fold_each (step now) ps out s))" if "wf_store s" for ps out s
      using that
    proof (induction ps arbitrary: out s)
      case (Cons p ps)
      have "wf_store (fst (step now p out s))"
        unfolding step_run [OF Cons.prems] edge_step_result_def
        using import_edge_rules(1) Cons.prems
        by (cases "verdict s p") (auto simp: keeps_def carries_def bind_def case_prod_beta split: sum.split)
      with Cons.IH show ?case by (auto simp: bind_def split: prod.split sum.split)
    qed simp
    from this [OF assms(1), where ps = ps and out = no_import] assms(2) show ?thesis by simp
  qed
  have vt: "verdict t = verdict s" by (auto simp: t verdict_frame)
  have sets: "found_keys (verdict s) qs = found_keys (verdict s) ps"
    using mset_eq_setD [OF assms(3)] by (simp add: found_keys_def)
  have lens: "length (filter P qs) = length (filter P ps)" for P
    using assms(3) by (metis mset_filter size_mset)
  from run [OF \<open>wf_store t\<close>, where now = now' and ps = qs and out = no_import] vt sets keys t lens sum show ?thesis
    by (auto simp: no_import_def intro!: carried_edge_import.equality)
qed

end

definition find_entity :: "memory_store \<Rightarrow> string \<Rightarrow> note_id option" where
  "find_entity s eid = map_option row_uuid (select_one (\<lambda>r. row_entity_id r = eid) s)"

lemma note_id_for_entity_id_wf:
  assumes "wf_store s"
  shows "note_id_for_entity_id s eid = Inr (find_entity s eid)"
proof (cases "select_one (\<lambda>r. row_entity_id r = eid) s")
  case (Some r)
  then have "r \<in> set (note_rows s)" by (auto simp: select_one_def find_Some_iff)
  with wf_row(1) [OF assms] Some show ?thesis
    by (simp add: note_id_for_entity_id_def find_entity_def id_of_row_def)
qed (simp add: note_id_for_entity_id_def find_entity_def id_of_row_def)

lemma find_entity_in: "find_entity s eid = Some i \<Longrightarrow> i \<in> set (note_uuids s)"
  by (auto simp: find_entity_def select_one_def find_Some_iff note_uuids_def)

lemma find_entity_None: "find_entity s e = None \<longleftrightarrow> e \<notin> set (map row_entity_id (note_rows s))"
proof -
  have "find_entity s e = None \<longleftrightarrow> (\<forall>r \<in> set (note_rows s). row_entity_id r \<noteq> e)"
    by (auto simp: find_entity_def select_one_def find_None_iff)
  then show ?thesis by (metis (no_types, lifting) image_iff list.set_map)
qed

lemma find_entity_frame [simp]: "find_entity (s\<lparr>memory_edges := es\<rparr>) eid = find_entity s eid"
  by (simp add: find_entity_def select_one_def)

definition carried_verdict :: "memory_store \<Rightarrow> string \<times> carried_edge \<Rightarrow> edge_verdict" where
  "carried_verdict s p =
     (if edge_kind (snd p) \<notin> {''relates_to'', ''contradicts''} then Skip
      else case (find_entity s (fst p), find_entity s (edge_to (snd p))) of
        (Some i, Some j) \<Rightarrow> Found i j (edge_kind (snd p)) | _ \<Rightarrow> Missing)"

definition supersede_verdict :: "memory_store \<Rightarrow> string \<times> string \<Rightarrow> edge_verdict" where
  "supersede_verdict s p =
     (case (find_entity s (snd p), find_entity s (fst p)) of
        (Some i, Some j) \<Rightarrow> if i = j then Skip else Found i j ''supersedes'' | _ \<Rightarrow> Missing)"

interpretation carried: edge_import import_carried_step carried_verdict
proof
  fix now s p out es i j k
  show "wf_store s \<Longrightarrow> import_carried_step now p out s = edge_step_result now (carried_verdict s p) out s"
    by (cases p) (auto simp: import_carried_step_def edge_step_result_def carried_verdict_def
        bind_reading note_id_for_entity_id_wf split: option.split)
  show "carried_verdict (s\<lparr>memory_edges := es\<rparr>) p = carried_verdict s p"
    by (simp add: carried_verdict_def)
  show "wf_store s \<Longrightarrow> carried_verdict s p = Found i j k \<Longrightarrow>
      i \<in> set (note_uuids s) \<and> j \<in> set (note_uuids s) \<and> k \<in> set EDGE_KINDS"
    by (auto simp: carried_verdict_def EDGE_KINDS_def dest: find_entity_in
        split: if_splits option.splits)
qed

interpretation superseded: edge_import import_supersede_step supersede_verdict
proof
  fix now s p out es i j k
  show "wf_store s \<Longrightarrow> import_supersede_step now p out s = edge_step_result now (supersede_verdict s p) out s"
    by (cases p) (auto simp: import_supersede_step_def edge_step_result_def supersede_verdict_def
        bind_reading note_id_for_entity_id_wf split: option.split)
  show "supersede_verdict (s\<lparr>memory_edges := es\<rparr>) p = supersede_verdict s p"
    by (simp add: supersede_verdict_def)
  show "wf_store s \<Longrightarrow> supersede_verdict s p = Found i j k \<Longrightarrow>
      i \<in> set (note_uuids s) \<and> j \<in> set (note_uuids s) \<and> k \<in> set EDGE_KINDS"
    by (auto simp: supersede_verdict_def EDGE_KINDS_def dest: find_entity_in
        split: if_splits option.splits)
qed

text \<open>
  Importing the carrier's edges into a well-formed store never fails: afterwards the store
  holds exactly its old edges and one row for every carried edge of a known kind whose two
  entries it has, the counts add up, and an edge with a missing entry is only counted. Importing
  the same edges again in any order adds nothing and leaves the store exactly as it was.
\<close>
theorem import_carried_edges_idempotent:
  assumes "wf_store s" and "mset later = mset edges"
  shows "\<exists>t out. import_carried_edges now edges s = (t, Inr out) \<and> note_rows t = note_rows s \<and>
    set (map edge_key (memory_edges t)) =
      set (map edge_key (memory_edges s)) \<union> found_keys (carried_verdict s) edges \<and>
    applied out + length (memory_edges s) = length (memory_edges t) \<and>
    applied out + already_present out = length (filter (\<lambda>p. is_found (carried_verdict s p)) edges) \<and>
    unresolved out = length (filter (\<lambda>p. carried_verdict s p = Missing) edges) \<and>
    import_carried_edges now' later t = (t, Inr \<lparr>applied = 0,
      already_present = applied out + already_present out, unresolved = unresolved out\<rparr>)"
proof -
  from carried.run [OF assms(1), where now = now and ps = edges and out = no_import] obtain es out where
    run: "fold_each (import_carried_step now) edges no_import s =
        (s\<lparr>memory_edges := memory_edges s @ es\<rparr>, Inr out)" and
    res: "set (map edge_key (memory_edges s @ es)) =
        set (map edge_key (memory_edges s)) \<union> found_keys (carried_verdict s) edges"
      "applied out = applied no_import + length es"
      "applied out + already_present out = applied no_import + already_present no_import +
        length (filter (\<lambda>p. is_found (carried_verdict s p)) edges)"
      "unresolved out = unresolved no_import + length (filter (\<lambda>p. carried_verdict s p = Missing) edges)"
    by blast
  let ?t = "s\<lparr>memory_edges := memory_edges s @ es\<rparr>"
  have "import_carried_edges now' later ?t = (?t, Inr \<lparr>applied = 0,
      already_present = applied out + already_present out, unresolved = unresolved out\<rparr>)"
    unfolding import_carried_edges_def by (rule carried.again [OF assms(1) run assms(2)])
  with run res show ?thesis
    by (intro exI [of _ ?t] exI [of _ out]) (simp add: import_carried_edges_def no_import_def)
qed

theorem import_carried_edges_idempotent_witness:
  "\<exists>t out. import_carried_edges 5 [(''e1'', CarriedEdge ''relates_to'' ''e2''),
      (''e1'', CarriedEdge ''contradicts'' ''zz'')] two_notes = (t, Inr out) \<and>
    unresolved out = length (filter (\<lambda>p. carried_verdict two_notes p = Missing)
      [(''e1'', CarriedEdge ''relates_to'' ''e2''), (''e1'', CarriedEdge ''contradicts'' ''zz'')])"
  using import_carried_edges_idempotent [OF wf_two_notes refl, where now = 5 and edges =
      "[(''e1'', CarriedEdge ''relates_to'' ''e2''), (''e1'', CarriedEdge ''contradicts'' ''zz'')]"]
  by blast

text \<open>
  Importing the carrier's supersede pairs into a well-formed store never fails, adds for
  every pair of two different known entries the edge from the successor to the entry it
  replaces, never an edge from an entry to itself, and is a no-op the second time, in any order.
\<close>
theorem import_supersede_edges_no_self_edge:
  assumes "wf_store s" and "mset later = mset pairs"
  shows "\<exists>t out. import_supersede_edges now pairs s = (t, Inr out) \<and> note_rows t = note_rows s \<and>
    set (map edge_key (memory_edges t)) = set (map edge_key (memory_edges s)) \<union>
      {(i, j, ''supersedes'') | i j. i \<noteq> j \<and> (\<exists>(old_eid, new_eid) \<in> set pairs.
         find_entity s new_eid = Some i \<and> find_entity s old_eid = Some j)} \<and>
    import_supersede_edges now' later t = (t, Inr \<lparr>applied = 0,
      already_present = applied out + already_present out, unresolved = unresolved out\<rparr>)"
proof -
  from superseded.run [OF assms(1), where now = now and ps = pairs and out = no_import] obtain es out where
    run: "fold_each (import_supersede_step now) pairs no_import s =
        (s\<lparr>memory_edges := memory_edges s @ es\<rparr>, Inr out)" and
    res: "set (map edge_key (memory_edges s @ es)) =
        set (map edge_key (memory_edges s)) \<union> found_keys (supersede_verdict s) pairs"
    by blast
  let ?t = "s\<lparr>memory_edges := memory_edges s @ es\<rparr>"
  have again: "import_supersede_edges now' later ?t = (?t, Inr \<lparr>applied = 0,
      already_present = applied out + already_present out, unresolved = unresolved out\<rparr>)"
    unfolding import_supersede_edges_def by (rule superseded.again [OF assms(1) run assms(2)])
  have one: "supersede_verdict s p = Found i j k \<longleftrightarrow> k = ''supersedes'' \<and> i \<noteq> j \<and>
      find_entity s (snd p) = Some i \<and> find_entity s (fst p) = Some j" for p i j k
    by (auto simp: supersede_verdict_def split: option.splits)
  have "found_keys (supersede_verdict s) pairs =
      {(i, j, ''supersedes'') | i j. i \<noteq> j \<and> (\<exists>(old_eid, new_eid) \<in> set pairs.
         find_entity s new_eid = Some i \<and> find_entity s old_eid = Some j)}" (is "?l = ?r")
  proof (rule set_eqI)
    fix e :: "string \<times> string \<times> string"
    obtain i j k where e: "e = (i, j, k)" by (cases e)
    have "e \<in> ?l \<longleftrightarrow> (\<exists>p \<in> set pairs. supersede_verdict s p = Found i j k)"
      unfolding e found_keys_def by (auto simp: image_iff) metis+
    also have "\<dots> \<longleftrightarrow> e \<in> ?r" unfolding one e by force
    finally show "e \<in> ?l \<longleftrightarrow> e \<in> ?r" .
  qed
  with run res again show ?thesis
    by (intro exI [of _ ?t] exI [of _ out]) (simp add: import_supersede_edges_def)
qed

theorem import_supersede_edges_no_self_edge_witness:
  "\<exists>t out. import_supersede_edges 5 [(''e1'', ''e2''), (''e1'', ''e1'')] two_notes = (t, Inr out)"
  using import_supersede_edges_no_self_edge [OF wf_two_notes, where now = 5
      and pairs = "[(''e1'', ''e2''), (''e1'', ''e1'')]", OF refl]
  by blast

section \<open>Importing an entry\<close>

definition imported_row ::
    "env \<Rightarrow> string \<Rightarrow> string \<Rightarrow> string \<Rightarrow> string \<Rightarrow> int \<Rightarrow> string \<Rightarrow> string option \<Rightarrow> int option \<Rightarrow>
     int option \<Rightarrow> string option \<Rightarrow> string option \<Rightarrow> notes_row" where
  "imported_row E uuid kind title body at st src va iv given_eid remote =
     (new_row uuid kind title body at st
        (case given_eid of Some e \<Rightarrow> e | None \<Rightarrow> entity_id E kind title body))
       \<lparr>row_source_ref := src, row_valid_at := va, row_invalid_at := iv, row_remote_id := remote\<rparr>"

definition with_origin :: "origin \<Rightarrow> notes_row \<Rightarrow> notes_row" where
  "with_origin q r = r\<lparr>row_origin_actor_kind := Some (actor_kind_as_str (actor_kind q)),
     row_origin_tool := tool q, row_origin_model := model q\<rparr>"

lemma imported_row_fields [simp]:
  "row_uuid (imported_row E uuid kind title body at st src va iv ge rem) = uuid"
  "row_entity_id (imported_row E uuid kind title body at st src va iv ge rem) =
     (case ge of Some e \<Rightarrow> e | None \<Rightarrow> entity_id E kind title body)"
  "row_remote_id (imported_row E uuid kind title body at st src va iv ge rem) = rem"
  "row_superseded_by (imported_row E uuid kind title body at st src va iv ge rem) = None"
  by (simp_all add: imported_row_def)

lemma set_origin_run: "set_origin i q s = (s\<lparr>note_rows :=
    map (\<lambda>r. if row_uuid r = i then with_origin q r else r) (note_rows s)\<rparr>, Inr ())"
proof -
  have "(\<lambda>r. r\<lparr>row_origin_actor_kind := Some (actor_kind_as_str (actor_kind q)),
     row_origin_tool := tool q, row_origin_model := model q\<rparr>) = with_origin q"
    by (simp add: fun_eq_iff with_origin_def)
  then show ?thesis
    by (simp add: set_origin_def bind_def sql_update_local with_origin_def)
qed

text \<open>After the INSERT the rest of an import depends on its result only.\<close>

lemma import_entry_run:
  fixes E uuid kind title body at st src va iv ge rem
  defines "r \<equiv> imported_row E uuid kind title body at st src va iv ge rem"
    and "eid \<equiv> (case ge of Some e \<Rightarrow> e | None \<Rightarrow> entity_id E kind title body)"
  assumes wf: "wf_store s"
    and run: "bind (attempt (sql_insert_note r)) (\<lambda>x.
      recover_from_entity_id_collision E now x eid tags files) s = (u, Inr (i, created))"
    and known: "snd (sql_insert_note r s) = Inl (Sql UniqueViolation) \<Longrightarrow> find_entity s eid \<noteq> None"
  shows "import_entry E now uuid kind title body tags files at st src va iv ge rem q s =
    (case q of Some og \<Rightarrow> if created then fst (set_origin i og u) else u | None \<Rightarrow> u, Inr (i, created))"
proof -
  obtain v x where ins: "sql_insert_note r s = (v, x)" by (cases "sql_insert_note r s")
  have v: "x = Inl (Sql UniqueViolation) \<Longrightarrow> v = s"
    using ins by (auto simp: sql_insert_note_def split: if_splits)
  from run have rec: "recover_from_entity_id_collision E now x eid tags files v = (u, Inr (i, created))"
    by (simp add: bind_attempt ins)
  define guard where "guard = (if x = Inl (Sql UniqueViolation)
      then bind (reading (\<lambda>s. note_id_for_entity_id s eid)) (\<lambda>found.
        if found = None then reading (\<lambda>s. Inl (identity_already_taken s uuid rem)) else ok ())
      else ok ())"
  have check: "guard v = (v, Inr ())"
    using known v ins note_id_for_entity_id_wf [OF wf] by (auto simp: guard_def bind_reading)
  have "import_entry E now uuid kind title body tags files at st src va iv ge rem q s =
      bind (case q of None \<Rightarrow> ok () | Some og \<Rightarrow> if created then set_origin i og else ok ())
        (\<lambda>_. ok (i, created)) u"
    unfolding import_entry_def Let_def eid_def [symmetric]
    using ins
    by (simp add: bind_attempt r_def imported_row_def eid_def [symmetric] guard_def [symmetric])
      (simp add: bind_def check rec)
  then show ?thesis
    by (auto simp: bind_def set_origin_run split: option.split)
qed

text \<open>
  C18. Importing an entry into a well-formed store, with acceptable paths, carries it verbatim. It
  is refused, and nothing is written, exactly when its content is new but its uuid or remote id
  already belongs to another row, and the error names which; otherwise the row is added as the
  dump describes it, or the row with the same convergence key is kept as it is, tags and files
  are merged, and the origin is recorded only on a new row.
\<close>
theorem import_entry_verbatim:
  fixes E uuid kind title body at st src va iv ge rem
  defines "r \<equiv> imported_row E uuid kind title body at st src va iv ge rem"
  assumes "wf_store s" and "uuid \<noteq> []" and "files_accepted (project_root s) files"
  shows "case import_entry E now uuid kind title body tags files at st src va iv ge rem q s of
      (t, Inl e) \<Rightarrow> t = s \<and> row_entity_id r \<notin> set (map row_entity_id (note_rows s)) \<and>
        (if uuid \<in> set (note_uuids s) then e = UuidTaken uuid
         else \<exists>x. rem = Some x \<and> x \<in> set (remote_ids (note_rows s)) \<and> e = RemoteIdTaken x)
    | (t, Inr (i, created)) \<Rightarrow> \<exists>u. insert_result E s r tags files u i created \<and>
        (if created \<and> q \<noteq> None
         then t = u\<lparr>note_rows := map (\<lambda>n. if row_uuid n = i then with_origin (the q) n else n) (note_rows u)\<rparr>
         else t = u)"
proof (cases "snd (sql_insert_note r s) = Inl (Sql UniqueViolation) \<and>
    row_entity_id r \<notin> set (map row_entity_id (note_rows s))")
  case True
  then have ins: "sql_insert_note r s = (s, Inl (Sql UniqueViolation))"
    and cause: "uuid \<in> set (note_uuids s) \<or> (\<exists>x. rem = Some x \<and> x \<in> set (remote_ids (note_rows s)))"
    by (auto simp: sql_insert_note_def r_def split: if_splits option.splits)
  have none: "find_entity s (row_entity_id r) = None"
    using True by (simp add: find_entity_None)
  have sel: "select_one P s = None \<longleftrightarrow> \<not> list_ex P (note_rows s)" for P
    by (auto simp: select_one_def find_None_iff list_ex_iff)
  have ex: "list_ex (\<lambda>n. row_uuid n = uuid) (note_rows s) \<longleftrightarrow> uuid \<in> set (note_uuids s)"
    "list_ex (\<lambda>n. row_remote_id n = Some x) (note_rows s) \<longleftrightarrow> x \<in> set (remote_ids (note_rows s))" for x
    by (auto simp: list_ex_iff note_uuids_def remote_ids_def map_filter_def) force
  have "import_entry E now uuid kind title body tags files at st src va iv ge rem q s =
      (s, Inl (identity_already_taken s uuid rem))"
    using ins none note_id_for_entity_id_wf [OF assms(2)]
    by (simp add: import_entry_def Let_def bind_def attempt_def r_def imported_row_def)
  then show ?thesis
    using True cause by (auto simp: identity_already_taken_def sel ex)
next
  case False
  then have fresh: "row_entity_id r \<in> set (map row_entity_id (note_rows s)) \<or> fst (sql_insert_note r s) \<noteq> s"
  proof -
    have "rowid_seq (fst (sql_insert_note r s)) = Suc (rowid_seq s)"
      if "snd (sql_insert_note r s) \<noteq> Inl (Sql UniqueViolation)"
      using that by (auto simp: sql_insert_note_def split: if_splits)
    with False show ?thesis by (metis n_not_Suc_n)
  qed
  from recover_run [OF assms(2) _ _ fresh assms(4), of E now tags] assms(3) obtain u i created where
    run: "bind (attempt (sql_insert_note r)) (\<lambda>x.
      recover_from_entity_id_collision E now x (row_entity_id r) tags files) s = (u, Inr (i, created))"
    and res: "insert_result E s r tags files u i created"
    by (auto simp: r_def)
  have "find_entity s (row_entity_id r) \<noteq> None" if "snd (sql_insert_note r s) = Inl (Sql UniqueViolation)"
    using False that by (simp only: find_entity_None not_not) blast
  with import_entry_run [OF assms(2) run [unfolded r_def imported_row_fields]] res show ?thesis
    by (auto simp: r_def set_origin_run split: option.split)
qed

theorem import_entry_verbatim_witness:
  "import_entry demo_env 9 ''u1'' ''note'' ''Z'' ''z'' [] [] 3 ''active'' None None None (Some ''e9'') None
     None two_notes = (two_notes, Inl (UuidTaken ''u1'')) \<and>
   (\<exists>t i. import_entry demo_env 9 ''u9'' ''note'' ''A'' ''a'' [''New''] [] 3 ''active'' None None None
     (Some ''e1'') None None two_notes = (t, Inr (i, False)) \<and> tag_rel t =
       tag_rel two_notes \<union> {i} \<times> normalized_tags demo_env [''New''])"
proof -
  have files: "files_accepted (project_root two_notes) []" by code_simp
  have u: "''u1'' \<noteq> ([] :: string)" "''u9'' \<noteq> ([] :: string)" by simp_all
  have taken: "''u1'' \<in> set (note_uuids two_notes)" by code_simp
  have new: "''e9'' \<notin> set (map row_entity_id (note_rows two_notes))" by code_simp
  have old: "''e1'' \<in> set (map row_entity_id (note_rows two_notes))" by code_simp
  have err: "snd (import_entry demo_env 9 ''u1'' ''note'' ''Z'' ''z'' [] [] 3 ''active'' None None None
      (Some ''e9'') None None two_notes) = Inl (UuidTaken ''u1'')" by code_simp
  have ok: "snd (import_entry demo_env 9 ''u9'' ''note'' ''A'' ''a'' [''New''] [] 3 ''active'' None None None
      (Some ''e1'') None None two_notes) = Inr (''u1'', False)" by code_simp
  from import_entry_verbatim [OF wf_two_notes u(1) files, where E = demo_env and now = 9 and kind = "''note''"
      and title = "''Z''" and body = "''z''" and tags = "[]" and at = 3 and st = "''active''" and src = None
      and va = None and iv = None and ge = "Some ''e9''" and rem = None and q = None] err taken
  have one: "import_entry demo_env 9 ''u1'' ''note'' ''Z'' ''z'' [] [] 3 ''active'' None None None (Some ''e9'')
      None None two_notes = (two_notes, Inl (UuidTaken ''u1''))"
    by (auto split: prod.splits sum.splits)
  from ok obtain t where t: "import_entry demo_env 9 ''u9'' ''note'' ''A'' ''a'' [''New''] [] 3 ''active'' None
      None None (Some ''e1'') None None two_notes = (t, Inr (''u1'', False))" by (metis prod.collapse)
  from import_entry_verbatim [OF wf_two_notes u(2) files, where E = demo_env and now = 9 and kind = "''note''"
      and title = "''A''" and body = "''a''" and tags = "[''New'']" and at = 3 and st = "''active''" and src = None
      and va = None and iv = None and ge = "Some ''e1''" and rem = None and q = None] t
  have "tag_rel t = tag_rel two_notes \<union> {''u1''} \<times> normalized_tags demo_env [''New'']"
    by (auto simp: insert_result_def)
  with one t show ?thesis by blast
qed

section \<open>Handles\<close>

lemma prefix_range:
  assumes "list_all (\<lambda>c. c < CHR ''g'') e"
  shows "p \<le> e \<and> e < p @ ''g'' \<longleftrightarrow> starts_with e p"
  using assms
proof (induction p arbitrary: e)
  case Nil
  then show ?case by (cases e) (auto simp: starts_with_def)
next
  case (Cons c p)
  then show ?case by (cases e) (auto simp: starts_with_def)
qed

text \<open>
  The range read behind a handle finds exactly the entries whose \<open>entity_id\<close> starts with it,
  in the order of their \<open>entity_id\<close>, provided the stored identities are made of characters
  below \<open>g\<close>, as lowercase hex is.
\<close>
theorem entity_id_prefix_lookup_exact:
  assumes "wf_store s"
    and "list_all (\<lambda>r. list_all (\<lambda>c. c < CHR ''g'') (row_entity_id r)) (note_rows s)"
  shows "\<exists>rs. note_ids_for_entity_id_prefix s p = Inr (map row_uuid rs) \<and>
    set rs = {r \<in> set (note_rows s). starts_with (row_entity_id r) p} \<and> distinct rs \<and>
    sorted (map row_entity_id rs)"
proof -
  let ?P = "\<lambda>r. p \<le> row_entity_id r \<and> row_entity_id r < p @ ''g''"
  let ?rs = "sort_key row_entity_id (filter ?P (note_rows s))"
  have eq: "?P r = starts_with (row_entity_id r) p" if "r \<in> set (note_rows s)" for r
    using assms(2) that by (intro prefix_range) (auto simp: list_all_iff)
  have "collect (map (\<lambda>r. parse_id (row_uuid r)) ?rs) = Inr (map row_uuid ?rs)"
    by (rule collect_map_cong) (use wf_row(1) [OF assms(1)] in auto)
  moreover have "distinct ?rs"
    using assms(1) by (auto simp: wf_store_def wf_keys_def note_uuids_def distinct_map intro: distinct_filter)
  ultimately show ?thesis
    using eq by (intro exI [of _ ?rs]) (auto simp: note_ids_for_entity_id_prefix_def)
qed

theorem entity_id_prefix_lookup_exact_witness:
  "\<exists>rs :: notes_row list. note_ids_for_entity_id_prefix two_notes ''e'' = Inr (map row_uuid rs) \<and>
     length rs = 2"
proof -
  have "list_all (\<lambda>r. list_all (\<lambda>c. c < CHR ''g'') (row_entity_id r)) (note_rows two_notes)" by code_simp
  from entity_id_prefix_lookup_exact [OF wf_two_notes this, of "''e''"] obtain rs :: "notes_row list" where
    rs: "note_ids_for_entity_id_prefix two_notes ''e'' = Inr (map row_uuid rs)" by (elim exE conjE)
  moreover have "note_ids_for_entity_id_prefix two_notes ''e'' = Inr [''u1'', ''u2'']" by code_simp
  ultimately have "map row_uuid rs = [''u1'', ''u2'']" by simp
  then have "length (map row_uuid rs) = 2" by simp
  with rs show ?thesis by auto
qed

section \<open>The outbox\<close>

lemma length_filter_sort_key: "length (filter P (sort_key k xs)) = length (filter P xs)"
  by (metis mset_filter mset_sort size_mset)

lemma rows_for_sync_wf:
  assumes "wf_store s"
  shows "\<exists>rows. rows_for_sync s False = Inr rows \<and>
    pending_sync_count s = length (filter (\<lambda>q. sync_remote_id q = None) rows)"
proof -
  let ?rs = "sort_key (\<lambda>r. (row_created_at r, row_id r))
    (filter (\<lambda>r. False \<or> row_status r = ''active'') (note_rows s))"
  let ?f = "\<lambda>r. \<lparr>sync_id = row_uuid r, sync_remote_id = row_remote_id r, sync_kind = row_kind r,
          sync_title = row_title r, sync_body = row_body r, sync_source_ref = row_source_ref r,
          sync_archived = (row_status r = ''archived'')\<rparr>"
  have "collect (map to_sync_row ?rs) = Inr (map ?f ?rs)"
    by (rule collect_map_cong) (use wf_row(1) [OF assms] in \<open>auto simp: to_sync_row_def\<close>)
  moreover have "pending_sync_count s = length (filter (\<lambda>q. sync_remote_id q = None) (map ?f ?rs))"
    by (simp add: filter_map comp_def length_filter_sort_key pending_sync_count_def)
  ultimately show ?thesis unfolding rows_for_sync_def by blast
qed

lemma edges_for_sync_wf:
  assumes "wf_store s"
  shows "\<exists>es. relates_to_edges_for_sync s = Inr es \<and>
    list_all (\<lambda>(i, j). has_remote s i \<and> has_remote s j) es"
proof -
  let ?es = "sort_key (\<lambda>e. (edge_created_at e, edge_from_id e, edge_to_id e))
       (filter (\<lambda>e. edge_row_kind e = ''relates_to'' \<and> has_remote s (edge_from_id e) \<and>
          has_remote s (edge_to_id e)) (memory_edges s))"
  have "edge_from_id e \<noteq> [] \<and> edge_to_id e \<noteq> []" if "e \<in> set (memory_edges s)" for e
  proof -
    have "[] \<notin> set (note_uuids s)" using wf_row(1) [OF assms] by (simp add: in_note_uuids)
    with assms that show ?thesis by (auto simp: wf_store_def wf_edges_def)
  qed
  then have "collect (map (\<lambda>e. and_then (parse_id (edge_from_id e))
      (\<lambda>f. and_then (parse_id (edge_to_id e)) (\<lambda>t. Inr (f, t)))) ?es) =
      Inr (map (\<lambda>e. (edge_from_id e, edge_to_id e)) ?es)"
    by (intro collect_map_cong) auto
  then show ?thesis
    by (auto simp: relates_to_edges_for_sync_def list_all_iff)
qed

text \<open>
  The outbox is what is left to push: on a well-formed store the pending count is the number
  of active rows of \<open>rows_for_sync\<close> without a remote id; recording the id a push returned for one
  of them, when no other row has it, succeeds, changes that row only and takes exactly it out of
  the count, and recording again is a no-op; and every edge offered for pushing has two endpoints
  that carry a remote id.
\<close>
theorem push_empties_outbox:
  assumes "wf_store s" and "r \<in> set (note_rows s)"
    and "row_status r = ''active''" and "row_remote_id r = None"
    and "x \<notin> set (remote_ids (note_rows s))"
  shows "\<exists>t rows es. rows_for_sync s False = Inr rows \<and>
    pending_sync_count s = length (filter (\<lambda>q. sync_remote_id q = None) rows) \<and>
    set_remote_id (row_uuid r) x s = (t, Inr ()) \<and>
    note_rows t = map (\<lambda>q. if q = r then q\<lparr>row_remote_id := Some x\<rparr> else q) (note_rows s) \<and>
    Suc (pending_sync_count t) = pending_sync_count s \<and>
    set_remote_id (row_uuid r) y t = (t, Inr ()) \<and>
    relates_to_edges_for_sync t = Inr es \<and>
    list_all (\<lambda>(i, j). has_remote t i \<and> has_remote t j) es"
proof -
  let ?t = "s\<lparr>note_rows := map (\<lambda>q. if q = r then q\<lparr>row_remote_id := Some x\<rparr> else q) (note_rows s)\<rparr>"
  have "(row_uuid q = row_uuid r \<and> row_remote_id q = None) = (q = r)" if "q \<in> set (note_rows s)" for q
    using uuid_unique [OF assms(1) that assms(2)] assms(4) by auto
  then have set: "set_remote_id (row_uuid r) x s = (?t, Inr ())"
    unfolding set_remote_id_run [OF assms(1,5)] by (auto intro!: arg_cong2 [of _ _ _ _ note_rows_update])
  have "wf_op (set_remote_id (row_uuid r) x)" by (rule wf_intros)
  from keeps_carriesD [OF this assms(1) set] have wft: "wf_store ?t" .
  have "\<not> list_ex (\<lambda>q. row_uuid q = row_uuid r \<and> row_remote_id q = None) (note_rows ?t)"
    using uuid_unique [OF assms(1) _ assms(2)] by (auto simp: list_ex_iff)
  then have again: "set_remote_id (row_uuid r) y ?t = (?t, Inr ())"
    by (simp add: set_remote_id_def bind_def sql_update_none del: memory_store.select_convs)
  have "distinct (note_rows s)"
    using assms(1) by (auto simp: wf_store_def wf_keys_def note_uuids_def distinct_map)
  then obtain a b where ab: "note_rows s = a @ r # b" "r \<notin> set a" "r \<notin> set b"
    using assms(2) by (metis distinct_append distinct.simps(2) not_distinct_conv_prefix split_list
        disjoint_iff list.set_intros(1))
  then have "map (\<lambda>q. if q = r then q\<lparr>row_remote_id := Some x\<rparr> else q) (note_rows s) =
      a @ r\<lparr>row_remote_id := Some x\<rparr> # b"
    by (auto intro!: map_idI)
  then have less: "Suc (pending_sync_count ?t) = pending_sync_count s"
    using ab assms(3,4) by (simp add: pending_sync_count_def)
  show ?thesis
    using rows_for_sync_wf [OF assms(1)] set again less edges_for_sync_wf [OF wft] by fastforce
qed

theorem push_empties_outbox_witness:
  "\<exists>t. set_remote_id ''u1'' ''r1'' two_notes = (t, Inr ()) \<and>
     Suc (pending_sync_count t) = pending_sync_count two_notes"
proof -
  let ?r = "(new_row ''u1'' ''note'' ''A'' ''a'' 1 ''active'' ''e1'')\<lparr>row_id := 1\<rparr>"
  have r: "?r \<in> set (note_rows two_notes)" by (simp add: two_notes_def)
  have st: "row_status ?r = ''active''" "row_remote_id ?r = None" by simp_all
  have x: "''r1'' \<notin> set (remote_ids (note_rows two_notes))" by code_simp
  from push_empties_outbox [OF wf_two_notes r st x, where y = "''r2''"] show ?thesis by auto
qed

end
