(* ===== verification/Dedupe.thy ===== *)
theory Dedupe
  imports Sync
begin

text \<open>
  \<open>memory dedupe\<close> (\<open>storage/memory/dedupe/mod.rs\<close>): entries of one content collapse onto the
  earliest of them. Phase 1 merges each group onto its survivor, phase 2 rewrites the supersede
  links that point at a row about to go, phase 3 deletes; all of it in one transaction, and a dry
  run computes the same summary without writing. The snapshot is read once, before anything is
  written. Groups are lists of the notes themselves where the code keeps their indices.
\<close>

record dedupe_summary =
  total_notes :: nat
  duplicate_groups_found :: nat
  rows_collapsed :: nat
  tags_merged :: nat
  linked_files_merged :: nat
  supersede_edges_repointed :: nat
  supersede_self_edges_dropped :: nat

section \<open>Grouping\<close>

text \<open>\<open>group_indices\<close> and \<open>index\<close>: the groups in first-encounter order and where each key is.\<close>

definition dedup_group_step ::
    "env \<Rightarrow> mem_note \<Rightarrow> mem_note list list \<times> (string \<rightharpoonup> nat) \<Rightarrow> mem_note list list \<times> (string \<rightharpoonup> nat)" where
  "dedup_group_step E n gi =
     (let eid = note_entity_id_of E n in
      case snd gi eid of
        Some i \<Rightarrow> ((fst gi)[i := fst gi ! i @ [n]], snd gi)
      | None \<Rightarrow> (fst gi @ [[n]], (snd gi)(eid \<mapsto> length (fst gi))))"

definition duplicate_groups :: "env \<Rightarrow> mem_note list \<Rightarrow> mem_note list list" where
  "duplicate_groups E all =
     filter (\<lambda>g. length g > 1) (fst (fold (dedup_group_step E) all ([], Map.empty)))"

definition loser_to_survivor :: "mem_note list list \<Rightarrow> note_id \<rightharpoonup> note_id" where
  "loser_to_survivor gs = fold (\<lambda>g m. fold (\<lambda>l m. m(note_id l \<mapsto> note_id (hd g))) (tl g) m) gs Map.empty"

definition note_group_of :: "mem_note list list \<Rightarrow> note_id \<rightharpoonup> nat" where
  "note_group_of gs =
     fold (\<lambda>(gi, g) m. fold (\<lambda>n m. m(note_id n \<mapsto> gi)) g m) (enumerate 0 gs) Map.empty"

definition survivor_ids :: "mem_note list list \<Rightarrow> note_id list" where
  "survivor_ids gs = map (\<lambda>g. note_id (hd g)) gs"

section \<open>Phase 1: one group\<close>

text \<open>Values of the losers that the survivor lacks, each once, in order.\<close>

definition new_values :: "'a list \<Rightarrow> 'a list \<Rightarrow> 'a list" where
  "new_values have_already xs =
     fold (\<lambda>x acc. if x \<notin> set have_already \<and> x \<notin> set acc then acc @ [x] else acc) xs []"

definition resolve_target ::
    "(note_id \<rightharpoonup> note_id) \<Rightarrow> note_id \<Rightarrow> note_id \<Rightarrow> note_id option" where
  "resolve_target lts survivor_id v =
     (let target = (case lts v of Some t \<Rightarrow> t | None \<Rightarrow> v)
      in if target = survivor_id then None else Some target)"

definition external_values ::
    "(note_id \<rightharpoonup> note_id) \<Rightarrow> note_id \<Rightarrow> mem_note list \<Rightarrow> note_id list" where
  "external_values lts survivor_id grp =
     List.map_filter (\<lambda>n. Option.bind (note_superseded_by n) (resolve_target lts survivor_id)) grp"

definition first_value :: "'a list \<Rightarrow> 'a option" where
  "first_value xs = (case xs of [] \<Rightarrow> None | x # _ \<Rightarrow> Some x)"

definition group_summary ::
    "(note_id \<rightharpoonup> note_id) \<Rightarrow> mem_note list \<Rightarrow> dedupe_summary \<Rightarrow> dedupe_summary" where
  "group_summary lts grp sm =
     (let survivor = hd grp; losers = tl grp in
      sm\<lparr>tags_merged := tags_merged sm +
            length (new_values (note_tags_of survivor) (concat (map note_tags_of losers))),
         linked_files_merged := linked_files_merged sm +
            length (new_values (note_linked_files survivor) (concat (map note_linked_files losers))),
         supersede_self_edges_dropped := supersede_self_edges_dropped sm +
            (case note_superseded_by survivor of None \<Rightarrow> 0
             | Some v \<Rightarrow> if resolve_target lts (note_id survivor) v = None then 1 else 0),
         rows_collapsed := rows_collapsed sm + length losers\<rparr>)"

definition apply_group :: "env \<Rightarrow> int \<Rightarrow> (note_id \<rightharpoonup> note_id) \<Rightarrow> mem_note list \<Rightarrow> unit op" where
  "apply_group E now lts grp =
     (let survivor = hd grp; losers = tl grp; i = note_id survivor;
          new_tags = new_values (note_tags_of survivor) (concat (map note_tags_of losers));
          new_files = new_values (note_linked_files survivor) (concat (map note_linked_files losers));
          target = first_value (external_values lts i grp) in
      bind (if new_tags \<noteq> [] \<or> new_files \<noteq> []
            then bind (union_tags_and_files E now i new_tags new_files) (\<lambda>_. ok ()) else ok ()) (\<lambda>_.
      bind (if list_ex (\<lambda>n. note_status n = ''archived'') grp
            then bind (archive i) (\<lambda>_. ok ()) else ok ()) (\<lambda>_.
      case target of
        Some v \<Rightarrow> if note_superseded_by survivor \<noteq> Some v then set_superseded_by i v else ok ()
      | None \<Rightarrow> if note_superseded_by survivor \<noteq> None then clear_superseded_by i else ok ())))"

text \<open>A group is never empty, so reading its first element does not panic.\<close>

definition collapse_group_survivor ::
    "env \<Rightarrow> int \<Rightarrow> (note_id \<rightharpoonup> note_id) \<Rightarrow> bool \<Rightarrow> mem_note list \<Rightarrow> dedupe_summary \<Rightarrow> dedupe_summary op" where
  "collapse_group_survivor E now lts apply_it grp sm =
     (if apply_it then bind (apply_group E now lts grp) (\<lambda>_. ok (group_summary lts grp sm))
      else ok (group_summary lts grp sm))"

section \<open>Phase 2: the links to rows about to go\<close>

definition rewrite_step ::
    "note_id list \<Rightarrow> (note_id \<rightharpoonup> note_id) \<Rightarrow> (note_id \<rightharpoonup> nat) \<Rightarrow> bool \<Rightarrow> mem_note \<Rightarrow> dedupe_summary \<Rightarrow>
     dedupe_summary op" where
  "rewrite_step survivors lts group_of apply_it n sm =
     (if note_id n \<in> set survivors then ok sm
      else case note_superseded_by n of
        None \<Rightarrow> ok sm
      | Some v \<Rightarrow> (case lts v of
          None \<Rightarrow> ok sm
        | Some target \<Rightarrow>
           let same_group = (case (group_of (note_id n), group_of v) of
                               (Some a, Some b) \<Rightarrow> a = b | _ \<Rightarrow> False);
               sm' = (if same_group then sm
                 else sm\<lparr>supersede_edges_repointed := Suc (supersede_edges_repointed sm)\<rparr>) in
           bind (if apply_it then set_superseded_by (note_id n) target else ok ()) (\<lambda>_. ok sm')))"

definition rewrite_cross_references ::
    "mem_note list \<Rightarrow> note_id list \<Rightarrow> (note_id \<rightharpoonup> note_id) \<Rightarrow> (note_id \<rightharpoonup> nat) \<Rightarrow> bool \<Rightarrow>
     dedupe_summary \<Rightarrow> dedupe_summary op" where
  "rewrite_cross_references all survivors lts group_of apply_it sm =
     fold_each (rewrite_step survivors lts group_of apply_it) all sm"

section \<open>The whole run\<close>

definition dedupe_phases ::
    "env \<Rightarrow> int \<Rightarrow> mem_note list \<Rightarrow> mem_note list list \<Rightarrow> bool \<Rightarrow> dedupe_summary \<Rightarrow>
     dedupe_summary op" where
  "dedupe_phases E now all gs apply_it sm =
     (let lts = loser_to_survivor gs in
      bind (fold_each (collapse_group_survivor E now lts apply_it) gs sm) (\<lambda>sm1.
      bind (rewrite_cross_references all (survivor_ids gs) lts (note_group_of gs) apply_it sm1) (\<lambda>sm2.
      bind (if apply_it then for_each (\<lambda>g. for_each (\<lambda>l. delete_note (note_id l)) (tl g)) gs
            else ok ()) (\<lambda>_.
      ok sm2))))"

definition dedupe_entity_ids :: "env \<Rightarrow> int \<Rightarrow> bool \<Rightarrow> dedupe_summary op" where
  "dedupe_entity_ids E now dry_run =
     bind (reading all_notes_for_dedup) (\<lambda>all.
       let gs = duplicate_groups E all;
           sm = \<lparr>total_notes = length all, duplicate_groups_found = length gs, rows_collapsed = 0,
                 tags_merged = 0, linked_files_merged = 0, supersede_edges_repointed = 0,
                 supersede_self_edges_dropped = 0\<rparr> in
       if gs = [] then ok sm
       else if dry_run then dedupe_phases E now all gs False sm
       else transaction (dedupe_phases E now all gs True sm))"

section \<open>Preservation\<close>

lemma wf_for_each_delete [wf_intros]: "wf_op (for_each (\<lambda>l. delete_note (f l)) ls)"
  by (intro wf_intros)

lemma dedupe_rules [wf_intros]: "wf_op (dedupe_entity_ids E now dry_run)"
  unfolding dedupe_entity_ids_def dedupe_phases_def collapse_group_survivor_def apply_group_def
    rewrite_cross_references_def rewrite_step_def Let_def
  by (intro wf_intros)

text \<open>A run that fails leaves the store as it was.\<close>

lemma dedupe_atomic: "dedupe_entity_ids E now False s = (t, Inl e) \<Longrightarrow> t = s"
  by (auto simp: dedupe_entity_ids_def bind_reading Let_def split: sum.splits if_splits
      dest: transaction_atomic)


section \<open>The groups\<close>

lemma dedup_groups_inv:
  fixes E
  defines "key \<equiv> note_entity_id_of E"
  shows "case fold (dedup_group_step E) all ([], Map.empty) of (gs, idx) \<Rightarrow>
    gs = map (\<lambda>e. filter (\<lambda>n. key n = e) all) (first_occs (map key all)) \<and>
    (\<forall>e i. idx e = Some i \<longleftrightarrow> i < length (first_occs (map key all)) \<and> first_occs (map key all) ! i = e)"
proof (induction all rule: rev_induct)
  case Nil
  then show ?case by simp
next
  case (snoc n all)
  let ?ks = "first_occs (map key all)"
  obtain gs idx where run: "fold (dedup_group_step E) all ([], Map.empty) = (gs, idx)" by fastforce
  from snoc run have gs: "gs = map (\<lambda>e. filter (\<lambda>n. key n = e) all) ?ks"
    and idx: "\<And>e i. idx e = Some i \<longleftrightarrow> i < length ?ks \<and> ?ks ! i = e" by auto
  show ?case
  proof (cases "idx (key n)")
    case None
    then have new: "key n \<notin> set ?ks" using idx by (metis in_set_conv_nth not_None_eq)
    have "fold (dedup_group_step E) (all @ [n]) ([], Map.empty) = (gs @ [[n]], idx(key n \<mapsto> length gs))"
      using None run by (simp add: dedup_group_step_def key_def Let_def)
    moreover have "first_occs (map key (all @ [n])) = ?ks @ [key n]"
      using new by (simp add: first_occs_snoc)
    moreover have "map (\<lambda>e. filter (\<lambda>m. key m = e) (all @ [n])) (?ks @ [key n]) = gs @ [[n]]"
    proof -
      have "filter (\<lambda>m. key m = key n) all = []"
        using new by (simp add: filter_empty_conv) (metis image_eqI)
      moreover have "\<forall>e \<in> set ?ks. key n \<noteq> e" using new by auto
      ultimately show ?thesis by (auto simp: gs)
    qed
    moreover have "(idx(key n \<mapsto> length gs)) e = Some i \<longleftrightarrow> i < length (?ks @ [key n]) \<and> (?ks @ [key n]) ! i = e"
      for e i
      using new idx [of e i] by (auto simp: gs nth_append less_Suc_eq set_conv_nth)
    ultimately show ?thesis by simp
  next
    case (Some i)
    then have i: "i < length ?ks" "?ks ! i = key n" using idx by auto
    have "fold (dedup_group_step E) (all @ [n]) ([], Map.empty) = (gs[i := gs ! i @ [n]], idx)"
      using Some run by (simp add: dedup_group_step_def key_def Let_def)
    moreover have "first_occs (map key (all @ [n])) = ?ks"
      using i by (simp add: first_occs_snoc) (metis nth_mem set_first_occs set_map)
    moreover have "map (\<lambda>e. filter (\<lambda>m. key m = e) (all @ [n])) ?ks = gs[i := gs ! i @ [n]]"
    proof (rule nth_equalityI)
      fix j assume j: "j < length (map (\<lambda>e. filter (\<lambda>m. key m = e) (all @ [n])) ?ks)"
      have "?ks ! j = key n \<longleftrightarrow> j = i" using i j by (metis distinct_first_occs length_map nth_eq_iff_index_eq)
      with j i show "map (\<lambda>e. filter (\<lambda>m. key m = e) (all @ [n])) ?ks ! j = gs[i := gs ! i @ [n]] ! j"
        by (auto simp: gs nth_list_update)
    qed (simp add: gs)
    ultimately show ?thesis using idx by simp
  qed
qed

lemma duplicate_groups_eq:
  "duplicate_groups E all = filter (\<lambda>g. length g > 1)
     (map (\<lambda>e. filter (\<lambda>n. note_entity_id_of E n = e) all) (first_occs (map (note_entity_id_of E) all)))"
  using dedup_groups_inv [of E all] by (auto simp: duplicate_groups_def split: prod.splits)

text \<open>
  What the phases rely on: groups are sublists of the snapshot with one content each, of two
  notes or more, and no two groups share a content.
\<close>

lemma duplicate_groupsD:
  assumes "g \<in> set (duplicate_groups E all)"
  shows "length g > 1" and "\<exists>e. g = filter (\<lambda>n. note_entity_id_of E n = e) all"
  using assms by (auto simp: duplicate_groups_eq)

lemma duplicate_groups_cover:
  assumes "n \<in> set all" "m \<in> set all" "n \<noteq> m" "note_entity_id_of E n = note_entity_id_of E m"
  shows "filter (\<lambda>k. note_entity_id_of E k = note_entity_id_of E n) all \<in> set (duplicate_groups E all)"
proof -
  let ?g = "filter (\<lambda>k. note_entity_id_of E k = note_entity_id_of E n) all"
  have "{n, m} \<subseteq> set ?g" using assms by auto
  then have "card {n, m} \<le> card (set ?g)" by (intro card_mono) auto
  then have "length ?g > 1" using assms(3) card_length [of ?g] by simp
  with assms(1) show ?thesis unfolding duplicate_groups_eq by auto
qed

lemma distinct_duplicate_groups: "distinct (duplicate_groups E all)"
proof -
  let ?f = "\<lambda>e. filter (\<lambda>n. note_entity_id_of E n = e) all"
  have "distinct (map ?f (first_occs (map (note_entity_id_of E) all)))"
    unfolding distinct_map
  proof (intro conjI inj_onI)
    fix a b assume "a \<in> set (first_occs (map (note_entity_id_of E) all))" "?f a = ?f b"
    then obtain n where n: "n \<in> set all" "note_entity_id_of E n = a" by auto
    then have "n \<in> set (?f b)" using \<open>?f a = ?f b\<close> by (metis (mono_tags, lifting) filter_set mem_Collect_eq set_filter)
    with n show "a = b" by simp
  qed simp
  then show ?thesis by (simp add: duplicate_groups_eq)
qed


section \<open>What each write of the merge changes\<close>

definition row_core :: "notes_row \<Rightarrow> nat \<times> string \<times> string \<times> string \<times> string \<times> int \<times> string" where
  "row_core r = (row_id r, row_uuid r, row_kind r, row_title r, row_body r, row_created_at r, row_entity_id r)"

definition sup_rel :: "memory_store \<Rightarrow> (string \<times> string) set" where
  "sup_rel s = {(row_uuid r, v) | r v. r \<in> set (note_rows s) \<and> row_superseded_by r = Some v}"

definition active_ids :: "memory_store \<Rightarrow> string set" where
  "active_ids s = {row_uuid r | r. r \<in> set (note_rows s) \<and> row_status r = ''active''}"

text \<open>The merge amends rows in place: none comes or goes, and none is made active.\<close>

definition amends :: "memory_store \<Rightarrow> memory_store \<Rightarrow> bool" where
  "amends s t = (map row_core (note_rows t) = map row_core (note_rows s) \<and>
     project_root t = project_root s \<and> active_ids t \<subseteq> active_ids s)"

lemma amends_refl [simp]: "amends s s"
  by (simp add: amends_def)

lemma amends_trans: "amends s t \<Longrightarrow> amends t u \<Longrightarrow> amends s u"
  by (auto simp: amends_def)

lemma amends_uuids: "amends s t \<Longrightarrow> note_uuids t = note_uuids s"
proof -
  assume "amends s t"
  then have "map (fst \<circ> snd) (map row_core (note_rows t)) = map (fst \<circ> snd) (map row_core (note_rows s))"
    by (simp add: amends_def)
  then show ?thesis by (simp add: note_uuids_def row_core_def comp_def)
qed

lemma map_update_core:
  "(\<And>r. row_core (f r) = row_core r) \<Longrightarrow>
     map row_core (map (\<lambda>r. if P r then f r else r) rs) = map row_core rs"
  by simp

lemma amends_update:
  assumes "\<And>r. row_core (f r) = row_core r" and "\<And>r. row_status (f r) = ''active'' \<Longrightarrow> row_status r = ''active''"
  shows "amends s (s\<lparr>note_rows := map (\<lambda>r. if P r then f r else r) (note_rows s)\<rparr>)"
proof -
  have "row_uuid (f r) = row_uuid r" for r using assms(1) [of r] by (simp add: row_core_def)
  with assms show ?thesis
    by (fastforce simp: amends_def active_ids_def)
qed

lemma sup_rel_in: "(u, v) \<in> sup_rel s \<longleftrightarrow> (\<exists>r \<in> set (note_rows s). row_uuid r = u \<and> row_superseded_by r = Some v)"
  by (auto simp: sup_rel_def)

lemma sup_rel_map_in: "(u, v) \<in> sup_rel (s\<lparr>note_rows := map f rs\<rparr>) \<longleftrightarrow>
    (\<exists>r \<in> set rs. row_uuid (f r) = u \<and> row_superseded_by (f r) = Some v)"
  by (auto simp: sup_rel_def)

lemma archive_amends:
  "\<exists>t b. archive i s = (t, Inr b) \<and> amends s t \<and> i \<notin> active_ids t \<and>
     sup_rel t = sup_rel s \<and> tag_rel t = tag_rel s \<and> file_rel t = file_rel s"
proof -
  have "amends s (archive_rows i s)"
    unfolding archive_rows_def
    by (rule amends_update) (simp_all add: archived_row_def row_core_def)
  moreover have "i \<notin> active_ids (archive_rows i s)"
    using archive_rows_inactive [of i s] by (auto simp: active_ids_def list_ex_iff active_with_def)
  moreover have "sup_rel (archive_rows i s) = sup_rel s"
  proof (rule set_eqI)
    fix p :: "string \<times> string"
    obtain u v where p: "p = (u, v)" by (cases p)
    show "p \<in> sup_rel (archive_rows i s) \<longleftrightarrow> p \<in> sup_rel s"
      unfolding p archive_rows_def sup_rel_map_in
      unfolding sup_rel_in
      by (rule bex_cong) (simp_all add: archived_row_def)
  qed
  ultimately show ?thesis
    by (auto simp: archive_run archive_rows_def tag_rel_def file_rel_def)
qed

lemma set_superseded_amends:
  assumes "v \<in> set (note_uuids s)" and "i \<in> set (note_uuids s)"
  shows "\<exists>t. set_superseded_by i v s = (t, Inr ()) \<and> amends s t \<and>
     sup_rel t = {p \<in> sup_rel s. fst p \<noteq> i} \<union> {(i, v)} \<and> tag_rel t = tag_rel s \<and> file_rel t = file_rel s"
proof -
  let ?t = "s\<lparr>note_rows := map (\<lambda>r. if row_uuid r = i then r\<lparr>row_superseded_by := Some v\<rparr> else r) (note_rows s)\<rparr>"
  have "set_superseded_by i v s = (?t, Inr ())"
    using assms(1) by (simp add: set_superseded_by_def bind_def sql_update_def Let_def list_ex_iff)
  moreover have "amends s ?t" by (rule amends_update) (simp_all add: row_core_def)
  moreover have "sup_rel ?t = {p \<in> sup_rel s. fst p \<noteq> i} \<union> {(i, v)}"
  proof -
    from assms(2) obtain r where r: "r \<in> set (note_rows s)" "row_uuid r = i" by (auto simp: note_uuids_def)
    show ?thesis
    proof (rule set_eqI)
      fix p :: "string \<times> string"
      obtain u w where p: "p = (u, w)" by (cases p)
      show "p \<in> sup_rel ?t \<longleftrightarrow> p \<in> {p \<in> sup_rel s. fst p \<noteq> i} \<union> {(i, v)}"
        unfolding p sup_rel_map_in using r by (auto simp: sup_rel_in split: if_splits)
    qed
  qed
  ultimately show ?thesis by (auto simp: tag_rel_def file_rel_def)
qed

lemma clear_superseded_amends:
  "\<exists>t. clear_superseded_by i s = (t, Inr ()) \<and> amends s t \<and>
     sup_rel t = {p \<in> sup_rel s. fst p \<noteq> i} \<and> tag_rel t = tag_rel s \<and> file_rel t = file_rel s"
proof -
  let ?t = "s\<lparr>note_rows := map (\<lambda>r. if row_uuid r = i then r\<lparr>row_superseded_by := None\<rparr> else r) (note_rows s)\<rparr>"
  have "clear_superseded_by i s = (?t, Inr ())"
    by (simp add: clear_superseded_by_def bind_def sql_update_def Let_def list_ex_iff)
  moreover have "amends s ?t" by (rule amends_update) (simp_all add: row_core_def)
  moreover have "sup_rel ?t = {p \<in> sup_rel s. fst p \<noteq> i}"
  proof (rule set_eqI)
    fix p :: "string \<times> string"
    obtain u w where p: "p = (u, w)" by (cases p)
    show "p \<in> sup_rel ?t \<longleftrightarrow> p \<in> {p \<in> sup_rel s. fst p \<noteq> i}"
      unfolding p sup_rel_map_in by (auto simp: sup_rel_in split: if_splits)
  qed
  ultimately show ?thesis by (auto simp: tag_rel_def file_rel_def)
qed

lemma union_amends:
  assumes "i \<in> set (note_uuids s)" and "files_accepted (project_root s) files"
  shows "\<exists>t b. union_tags_and_files E now i tags files s = (t, Inr b) \<and> amends s t \<and>
     active_ids t = active_ids s \<and> sup_rel t = sup_rel s \<and>
     tag_rel t = tag_rel s \<union> {i} \<times> normalized_tags E tags \<and>
     file_rel t = file_rel s \<union> {i} \<times> linkable_paths (project_root s) files"
proof -
  from attach_run [OF assms, of E now tags] obtain ts fs links where
    a: "attach_tags_and_files E now i tags files s =
       (s\<lparr>note_tags := note_tags s @ ts, note_files := note_files s @ fs\<rparr>, Inr links)"
      "set (note_tags s @ ts) = tag_rel s \<union> {i} \<times> normalized_tags E tags"
      "set (map file_key (note_files s @ fs)) = file_rel s \<union> {i} \<times> linkable_paths (project_root s) files"
    by blast
  let ?t = "s\<lparr>note_tags := note_tags s @ ts, note_files := note_files s @ fs\<rparr>"
  have "\<exists>b. union_tags_and_files E now i tags files s = (?t, Inr b)"
    by (simp add: union_tags_and_files_def bind_def a(1))
  moreover have "amends s ?t" "active_ids ?t = active_ids s" "sup_rel ?t = sup_rel s"
    by (simp_all add: amends_def active_ids_def sup_rel_def)
  moreover have "tag_rel ?t = set (note_tags s @ ts)" "file_rel ?t = set (map file_key (note_files s @ fs))"
    by (simp_all add: tag_rel_def file_rel_def)
  ultimately show ?thesis using a(2,3) by metis
qed


section \<open>The snapshot\<close>

definition snap :: "memory_store \<Rightarrow> mem_note list" where
  "snap s = map (view_row s) (sort_key (\<lambda>r. (row_created_at r, row_id r)) (note_rows s))"

definition groups_of :: "env \<Rightarrow> memory_store \<Rightarrow> mem_note list list" where
  "groups_of E s = duplicate_groups E (snap s)"

definition doomed :: "mem_note list list \<Rightarrow> note_id set" where
  "doomed gs = (\<Union>g \<in> set gs. note_id ` set (tl g))"

lemma all_notes_snap: "wf_store s \<Longrightarrow> all_notes_for_dedup s = Inr (snap s)"
  unfolding all_notes_for_dedup_def snap_def by (rule notes_of_rows_wf) simp_all

lemma view_row_fields [simp]:
  "note_id (view_row s r) = row_uuid r" "note_superseded_by (view_row s r) = row_superseded_by r"
  "note_status (view_row s r) = row_status r" "note_kind (view_row s r) = row_kind r"
  "note_title (view_row s r) = row_title r" "note_body (view_row s r) = row_body r"
  "note_tags_of (view_row s r) = tags_for s (row_uuid r)"
  "note_linked_files (view_row s r) = linked_files_for s (row_uuid r)"
  "note_created_at (view_row s r) = row_created_at r"
  by (simp_all add: view_row_def)

lemma in_snap: "n \<in> set (snap s) \<longleftrightarrow> (\<exists>r \<in> set (note_rows s). n = view_row s r)"
  by (auto simp: snap_def)

lemma snap_ids:
  assumes "wf_store s"
  shows "distinct (map note_id (snap s))" and "note_id ` set (snap s) = set (note_uuids s)"
proof -
  have "map note_id (snap s) = map row_uuid (sort_key (\<lambda>r. (row_created_at r, row_id r)) (note_rows s))"
    by (simp add: snap_def)
  moreover have "distinct \<dots>"
    using assms by (simp add: wf_store_def wf_keys_def note_uuids_def distinct_map)
  ultimately show "distinct (map note_id (snap s))" by simp
  show "note_id ` set (snap s) = set (note_uuids s)"
    by (simp add: snap_def note_uuids_def image_image)
qed

lemma snap_sup:
  assumes "wf_store s" and "n \<in> set (snap s)"
  shows "(note_id n, v) \<in> sup_rel s \<longleftrightarrow> note_superseded_by n = Some v"
proof -
  from assms(2) obtain r where r: "r \<in> set (note_rows s)" "n = view_row s r" by (auto simp: in_snap)
  have "q = r" if "q \<in> set (note_rows s)" "row_uuid q = row_uuid r" for q
    by (rule uuid_unique [OF assms(1) that(1) r(1) that(2)])
  with r show ?thesis by (auto simp: sup_rel_in)
qed

lemma sup_rel_known: "wf_store s \<Longrightarrow> (u, v) \<in> sup_rel s \<Longrightarrow> v \<in> set (note_uuids s)"
  using wf_row(2) by (auto simp: sup_rel_in)

lemma group_in_snap:
  assumes "g \<in> set (groups_of E s)"
  shows "set g \<subseteq> set (snap s)" and "g \<noteq> []" and "hd g \<in> set g"
    and "wf_store s \<Longrightarrow> distinct (map note_id g)"
    and "n \<in> set g \<Longrightarrow> m \<in> set (snap s) \<Longrightarrow>
      note_entity_id_of E m = note_entity_id_of E n \<longleftrightarrow> m \<in> set g"
proof -
  from duplicate_groupsD [OF assms [unfolded groups_of_def]] obtain e where
    g: "length g > 1" "g = filter (\<lambda>n. note_entity_id_of E n = e) (snap s)" by blast
  show "set g \<subseteq> set (snap s)" "g \<noteq> []" using g by auto
  then show "hd g \<in> set g" by simp
  show "n \<in> set g \<Longrightarrow> m \<in> set (snap s) \<Longrightarrow>
      note_entity_id_of E m = note_entity_id_of E n \<longleftrightarrow> m \<in> set g" using g(2) by auto
  assume "wf_store s"
  with snap_ids(1) show "distinct (map note_id g)" unfolding g(2) by (simp add: distinct_map_filter)
qed

lemma group_content:
  assumes "g \<in> set (groups_of E s)" and "n \<in> set g"
  shows "g = filter (\<lambda>m. note_entity_id_of E m = note_entity_id_of E n) (snap s)"
proof -
  from duplicate_groupsD(2) [OF assms(1) [unfolded groups_of_def]] obtain e where
    e: "g = filter (\<lambda>n. note_entity_id_of E n = e) (snap s)" by blast
  with assms(2) have "note_entity_id_of E n = e" by simp
  with e show ?thesis by simp
qed

lemma note_by_id:
  assumes "wf_store s" and "n \<in> set (snap s)" and "m \<in> set (snap s)" and "note_id n = note_id m"
  shows "n = m"
  using snap_ids(1) [OF assms(1)] assms(2-4) by (auto simp: distinct_map inj_on_def)

lemma survivor_not_doomed:
  assumes wf: "wf_store s" and g: "g \<in> set (groups_of E s)"
  shows "note_id (hd g) \<notin> doomed (groups_of E s)"
proof
  assume "note_id (hd g) \<in> doomed (groups_of E s)"
  then obtain g' l where g': "g' \<in> set (groups_of E s)" and l: "l \<in> set (tl g')" "note_id l = note_id (hd g)"
    by (auto simp: doomed_def)
  have lg': "l \<in> set g'" using l(1) by (meson list.set_sel(2) group_in_snap(2) [OF g'])
  have "l = hd g"
    using note_by_id [OF wf _ _ l(2)] lg' group_in_snap(1,3) [OF g] group_in_snap(1) [OF g'] by blast
  then have h: "hd g \<in> set g'" "hd g \<in> set (tl g')" using lg' l(1) by simp_all
  have same: "g = g'"
    using group_content [OF g group_in_snap(3) [OF g]] group_content [OF g' h(1)] by simp
  have "distinct g" using group_in_snap(4) [OF g wf] by (simp add: distinct_map)
  with group_in_snap(2) [OF g] h(2) same show False by (cases g) auto
qed

lemma fold_map_upd:
  "fold (\<lambda>l m. m(f l \<mapsto> c)) ls m v = (if v \<in> f ` set ls then Some c else m v)"
  by (induction ls arbitrary: m) auto

lemma loser_to_survivor_run:
  "(v \<notin> doomed gs \<longrightarrow> fold (\<lambda>g m. fold (\<lambda>l m. m(note_id l \<mapsto> note_id (hd g))) (tl g) m) gs m v = m v) \<and>
   (v \<in> doomed gs \<longrightarrow> (\<exists>g \<in> set gs.
      fold (\<lambda>g m. fold (\<lambda>l m. m(note_id l \<mapsto> note_id (hd g))) (tl g) m) gs m v = Some (note_id (hd g)) \<and>
      v \<in> note_id ` set (tl g)))"
proof (induction gs arbitrary: m)
  case (Cons g gs)
  let ?F = "fold (\<lambda>g m. fold (\<lambda>l m. m(note_id l \<mapsto> note_id (hd g))) (tl g) m)"
  let ?m = "fold (\<lambda>l m. m(note_id l \<mapsto> note_id (hd g))) (tl g) m"
  have step: "?F (g # gs) m = ?F gs ?m" by simp
  have doomed: "doomed (g # gs) = note_id ` set (tl g) \<union> doomed gs" by (simp add: doomed_def)
  show ?case
  proof (cases "v \<in> doomed gs")
    case True
    with Cons [of ?m] obtain h where h: "h \<in> set gs" "?F gs ?m v = Some (note_id (hd h))"
      "v \<in> note_id ` set (tl h)" by blast
    then show ?thesis unfolding step doomed h(2) using True by (intro conjI impI bexI [of _ h]) simp_all
  next
    case False
    with Cons [of ?m] have "?F gs ?m v = ?m v" by blast
    then have "?F gs ?m v = (if v \<in> note_id ` set (tl g) then Some (note_id (hd g)) else m v)"
      by (simp only: fold_map_upd)
    then obtain w where w: "?F gs ?m v = w" "w = (if v \<in> note_id ` set (tl g) then Some (note_id (hd g)) else m v)"
      by blast
    show ?thesis unfolding step doomed w(1) using w(2) False by (cases "v \<in> note_id ` set (tl g)") auto
  qed
qed (simp add: doomed_def)

lemma loser_to_survivor_None: "loser_to_survivor gs v = None \<longleftrightarrow> v \<notin> doomed gs"
  using loser_to_survivor_run [of v gs Map.empty] by (auto simp: loser_to_survivor_def)

lemma loser_to_survivor_Some:
  "loser_to_survivor gs v = Some t \<Longrightarrow> \<exists>g \<in> set gs. t = note_id (hd g) \<and> v \<in> note_id ` set (tl g)"
  using loser_to_survivor_run [of v gs Map.empty] loser_to_survivor_None [of gs v]
  by (auto simp: loser_to_survivor_def)

lemma lts_target:
  assumes "wf_store s" and "loser_to_survivor (groups_of E s) v = Some t"
  shows "t \<in> set (note_uuids s) - doomed (groups_of E s)"
proof -
  from loser_to_survivor_Some [OF assms(2)] obtain g where
    g: "g \<in> set (groups_of E s)" "t = note_id (hd g)" by blast
  with survivor_not_doomed [OF assms(1) g(1)] group_in_snap(1,3) [OF g(1)] snap_ids(2) [OF assms(1)]
  show ?thesis by blast
qed

lemma resolve_target_known:
  assumes "wf_store s" and "resolve_target (loser_to_survivor (groups_of E s)) i v = Some t"
    and "v \<in> set (note_uuids s)"
  shows "t \<in> set (note_uuids s) - doomed (groups_of E s)"
  using assms lts_target [OF assms(1)] loser_to_survivor_None
  by (fastforce simp: resolve_target_def Let_def split: option.splits if_splits)


section \<open>Phase 1 succeeds\<close>

text \<open>
  The stored tags and paths are in the form a live write stores: normalising them again changes
  nothing. A path that an older store carried over unvalidated need not be.
\<close>

definition stored_forms_stable :: "env \<Rightarrow> memory_store \<Rightarrow> bool" where
  "stored_forms_stable E s =
     (list_all (\<lambda>t. normalize_tag E (snd t) = Some (snd t)) (note_tags s) \<and>
      list_all (\<lambda>f. trim (file_path f) \<noteq> [] \<and>
        normalize_relative_path (project_root s) (file_path f) = Inr (file_path f)) (note_files s))"

definition new_tags_of :: "mem_note list \<Rightarrow> string list" where
  "new_tags_of g = new_values (note_tags_of (hd g)) (concat (map note_tags_of (tl g)))"

definition new_files_of :: "mem_note list \<Rightarrow> string list" where
  "new_files_of g = new_values (note_linked_files (hd g)) (concat (map note_linked_files (tl g)))"

lemma set_new_values: "set (new_values h xs) = set xs - set h"
proof -
  have "set (fold (\<lambda>x acc. if x \<notin> set h \<and> x \<notin> set acc then acc @ [x] else acc) xs acc) =
      set acc \<union> (set xs - set h)" for acc
    by (induction xs arbitrary: acc) auto
  then show ?thesis by (simp add: new_values_def)
qed

lemma normalized_tags_stable:
  "(\<And>t. t \<in> set ts \<Longrightarrow> normalize_tag E t = Some t) \<Longrightarrow> normalized_tags E ts = set ts"
  by (induction ts) auto

lemma linkable_paths_stable:
  "(\<And>f. f \<in> set fs \<Longrightarrow> trim f \<noteq> [] \<and> normalize_relative_path root f = Inr f) \<Longrightarrow>
     linkable_paths root fs = set fs \<and> files_accepted root fs"
  by (induction fs) (auto simp: files_accepted_def result_option_def)

lemma snap_tags: "n \<in> set (snap s) \<Longrightarrow> t \<in> set (note_tags_of n) \<longleftrightarrow> (note_id n, t) \<in> tag_rel s"
  by (auto simp: in_snap tags_for_def tag_rel_def) force

lemma snap_files: "n \<in> set (snap s) \<Longrightarrow> f \<in> set (note_linked_files n) \<longleftrightarrow> (note_id n, f) \<in> file_rel s"
  by (auto simp: in_snap linked_files_for_def file_rel_def file_key_def) force

lemma new_tags_stable:
  assumes "stored_forms_stable E s" and "g \<in> set (groups_of E s)"
  shows "normalized_tags E (new_tags_of g) = set (new_tags_of g)"
    and "linkable_paths (project_root s) (new_files_of g) = set (new_files_of g)"
    and "files_accepted (project_root s) (new_files_of g)"
proof -
  have mem: "n \<in> set (snap s)" if "n \<in> set (tl g)" for n
    using group_in_snap(1,2) [OF assms(2)] that by (meson list.set_sel(2) subsetD)
  have "normalize_tag E t = Some t" if "t \<in> set (new_tags_of g)" for t
  proof -
    from that obtain n where "n \<in> set (tl g)" "t \<in> set (note_tags_of n)"
      by (auto simp: new_tags_of_def set_new_values)
    with mem snap_tags have "(note_id n, t) \<in> tag_rel s" by blast
    with assms(1) show ?thesis by (auto simp: stored_forms_stable_def tag_rel_def list_all_iff)
  qed
  then show "normalized_tags E (new_tags_of g) = set (new_tags_of g)" by (rule normalized_tags_stable)
  have paths: "trim f \<noteq> [] \<and> normalize_relative_path (project_root s) f = Inr f" if "f \<in> set (new_files_of g)" for f
  proof -
    from that obtain n where "n \<in> set (tl g)" "f \<in> set (note_linked_files n)"
      by (auto simp: new_files_of_def set_new_values)
    with mem snap_files have "(note_id n, f) \<in> file_rel s" by blast
    with assms(1) show ?thesis
      by (auto simp: stored_forms_stable_def file_rel_def file_key_def list_all_iff)
  qed
  show "linkable_paths (project_root s) (new_files_of g) = set (new_files_of g)"
    and "files_accepted (project_root s) (new_files_of g)"
    using linkable_paths_stable [OF paths] by simp_all
qed

text \<open>The state between the writes of phases 1 and 2.\<close>

definition merging :: "env \<Rightarrow> memory_store \<Rightarrow> memory_store \<Rightarrow> bool" where
  "merging E s t = (wf_store t \<and> amends s t \<and>
     sup_rel t \<subseteq> sup_rel s \<union> UNIV \<times> - doomed (groups_of E s))"

definition spared :: "env \<Rightarrow> memory_store \<Rightarrow> note_id \<Rightarrow> memory_store \<Rightarrow> bool" where
  "spared E s u t = (\<forall>v. (u, v) \<in> sup_rel t \<longrightarrow> v \<notin> doomed (groups_of E s))"

definition link_target :: "env \<Rightarrow> memory_store \<Rightarrow> mem_note list \<Rightarrow> note_id option" where
  "link_target E s g = first_value (external_values (loser_to_survivor (groups_of E s)) (note_id (hd g)) g)"

lemma link_target_known:
  assumes "wf_store s" and "g \<in> set (groups_of E s)" and "link_target E s g = Some v"
  shows "v \<in> set (note_uuids s) - doomed (groups_of E s)"
proof -
  from assms(3) have "v \<in> set (external_values (loser_to_survivor (groups_of E s)) (note_id (hd g)) g)"
    by (auto simp: link_target_def first_value_def split: list.splits)
  then obtain n w where n: "n \<in> set g" "note_superseded_by n = Some w"
    "resolve_target (loser_to_survivor (groups_of E s)) (note_id (hd g)) w = Some v"
    by (auto simp: external_values_def map_filter_def bind_eq_Some_conv)
  have ns: "n \<in> set (snap s)" using group_in_snap(1) [OF assms(2)] n(1) by blast
  with snap_sup [OF assms(1)] n(2) have "(note_id n, w) \<in> sup_rel s" by blast
  then have "w \<in> set (note_uuids s)" by (rule sup_rel_known [OF assms(1)])
  with resolve_target_known [OF assms(1) n(3)] show ?thesis by blast
qed

text \<open>The last write of a group: its survivor's link, set, cleared or left.\<close>

definition relink :: "mem_note \<Rightarrow> note_id option \<Rightarrow> unit op" where
  "relink survivor target = (case target of
        Some v \<Rightarrow> if note_superseded_by survivor \<noteq> Some v
                  then set_superseded_by (note_id survivor) v else ok ()
      | None \<Rightarrow> if note_superseded_by survivor \<noteq> None
                then clear_superseded_by (note_id survivor) else ok ())"

lemma relink_run:
  assumes wf: "wf_store s" and g: "g \<in> set (groups_of E s)"
    and t: "amends s t" "sup_rel t \<subseteq> sup_rel s \<union> UNIV \<times> - doomed (groups_of E s)"
  shows "\<exists>u. relink (hd g) (link_target E s g) t = (u, Inr ()) \<and> amends t u \<and>
    sup_rel u \<subseteq> sup_rel s \<union> UNIV \<times> - doomed (groups_of E s) \<and> spared E s (note_id (hd g)) u \<and>
    (\<forall>w. spared E s w t \<longrightarrow> spared E s w u) \<and> tag_rel u = tag_rel t \<and> file_rel u = file_rel t"
proof -
  have h: "hd g \<in> set (snap s)" using group_in_snap(1,3) [OF g] by blast
  have known: "note_id (hd g) \<in> set (note_uuids t)"
    using h snap_ids(2) [OF wf] amends_uuids [OF t(1)] by (metis image_eqI)
  show ?thesis
  proof (cases "link_target E s g")
    case (Some v)
    note v = link_target_known [OF wf g Some]
    show ?thesis
    proof (cases "note_superseded_by (hd g) = Some v")
      case True
      have "w = v" if "(note_id (hd g), w) \<in> sup_rel s" for w
        using that snap_sup [OF wf h] True by simp
      with True Some t v show ?thesis
        by (intro exI [of _ t]) (auto simp: relink_def spared_def)
    next
      case False
      have "v \<in> set (note_uuids t)" using v amends_uuids [OF t(1)] by simp
      from set_superseded_amends [OF this known] obtain u where
        u: "set_superseded_by (note_id (hd g)) v t = (u, Inr ())" "amends t u"
          "sup_rel u = {p \<in> sup_rel t. fst p \<noteq> note_id (hd g)} \<union> {(note_id (hd g), v)}"
          "tag_rel u = tag_rel t" "file_rel u = file_rel t" by blast
      with False Some t(2) v show ?thesis
        by (intro exI [of _ u]) (auto simp: relink_def spared_def)
    qed
  next
    case None
    show ?thesis
    proof (cases "note_superseded_by (hd g) = None")
      case True
      have "(note_id (hd g), w) \<notin> sup_rel s" for w using snap_sup [OF wf h] True by simp
      with True None t show ?thesis
        by (intro exI [of _ t]) (auto simp: relink_def spared_def)
    next
      case False
      from clear_superseded_amends [of "note_id (hd g)" t] obtain u where
        u: "clear_superseded_by (note_id (hd g)) t = (u, Inr ())" "amends t u"
          "sup_rel u = {p \<in> sup_rel t. fst p \<noteq> note_id (hd g)}"
          "tag_rel u = tag_rel t" "file_rel u = file_rel t" by blast
      with False None t(2) show ?thesis
        by (intro exI [of _ u]) (auto simp: relink_def spared_def)
    qed
  qed
qed

lemma apply_group_steps:
  "apply_group E now lts g =
    bind (if new_tags_of g \<noteq> [] \<or> new_files_of g \<noteq> []
          then bind (union_tags_and_files E now (note_id (hd g)) (new_tags_of g) (new_files_of g)) (\<lambda>_. ok ())
          else ok ()) (\<lambda>_.
    bind (if list_ex (\<lambda>n. note_status n = ''archived'') g
          then bind (archive (note_id (hd g))) (\<lambda>_. ok ()) else ok ()) (\<lambda>_.
    relink (hd g) (first_value (external_values lts (note_id (hd g)) g))))"
  by (simp add: apply_group_def Let_def new_tags_of_def new_files_of_def relink_def)

lemma wf_apply_group [wf_intros]: "wf_op (apply_group E now lts g)"
  unfolding apply_group_def Let_def by (intro wf_intros)

lemma apply_group_run:
  assumes wf: "wf_store s" and stable: "stored_forms_stable E s" and g: "g \<in> set (groups_of E s)"
    and t: "merging E s t"
  shows "\<exists>u. apply_group E now (loser_to_survivor (groups_of E s)) g t = (u, Inr ()) \<and> merging E s u \<and>
    amends t u \<and> spared E s (note_id (hd g)) u \<and> (\<forall>w. spared E s w t \<longrightarrow> spared E s w u) \<and>
    tag_rel u = tag_rel t \<union> {note_id (hd g)} \<times> set (new_tags_of g) \<and>
    file_rel u = file_rel t \<union> {note_id (hd g)} \<times> set (new_files_of g) \<and>
    (list_ex (\<lambda>n. note_status n = ''archived'') g \<longrightarrow> note_id (hd g) \<notin> active_ids u)"
proof -
  let ?i = "note_id (hd g)"
  have am: "amends s t" using t by (simp add: merging_def)
  have h: "hd g \<in> set (snap s)" using group_in_snap(1,3) [OF g] by blast
  have known: "?i \<in> set (note_uuids t)"
    using h snap_ids(2) [OF wf] amends_uuids [OF am] by (metis image_eqI)
  have root: "project_root t = project_root s" using am by (simp add: amends_def)
  note st = new_tags_stable [OF stable g]
  define union_step where "union_step = (if new_tags_of g \<noteq> [] \<or> new_files_of g \<noteq> []
          then bind (union_tags_and_files E now ?i (new_tags_of g) (new_files_of g)) (\<lambda>_. ok ())
          else ok ())"
  define archive_step where "archive_step = (if list_ex (\<lambda>n. note_status n = ''archived'') g
          then bind (archive ?i) (\<lambda>_. ok ()) else ok ())"
  obtain t1 where t1: "union_step t = (t1, Inr ())"
      "amends t t1" "sup_rel t1 = sup_rel t"
      "tag_rel t1 = tag_rel t \<union> {?i} \<times> set (new_tags_of g)"
      "file_rel t1 = file_rel t \<union> {?i} \<times> set (new_files_of g)"
  proof (cases "new_tags_of g \<noteq> [] \<or> new_files_of g \<noteq> []")
    case True
    have "files_accepted (project_root t) (new_files_of g)" using st(3) root by simp
    from union_amends [OF known this, of E now "new_tags_of g"] obtain t1 b where
      "union_tags_and_files E now ?i (new_tags_of g) (new_files_of g) t = (t1, Inr b)" "amends t t1"
      "sup_rel t1 = sup_rel t" "tag_rel t1 = tag_rel t \<union> {?i} \<times> set (new_tags_of g)"
      "file_rel t1 = file_rel t \<union> {?i} \<times> set (new_files_of g)"
      unfolding root st(1,2) by blast
    with True that [of t1] show ?thesis by (simp add: bind_def union_step_def)
  qed (use that [of t] in \<open>simp add: union_step_def\<close>)
  obtain t2 where t2: "archive_step t1 = (t2, Inr ())"
      "amends t1 t2" "sup_rel t2 = sup_rel t1" "tag_rel t2 = tag_rel t1" "file_rel t2 = file_rel t1"
      "list_ex (\<lambda>n. note_status n = ''archived'') g \<longrightarrow> ?i \<notin> active_ids t2"
  proof (cases "list_ex (\<lambda>n. note_status n = ''archived'') g")
    case True
    from archive_amends [of ?i t1] obtain t2 b where "archive ?i t1 = (t2, Inr b)" "amends t1 t2"
      "?i \<notin> active_ids t2" "sup_rel t2 = sup_rel t1" "tag_rel t2 = tag_rel t1" "file_rel t2 = file_rel t1"
      by blast
    with True that [of t2] show ?thesis by (simp add: bind_def archive_step_def)
  qed (use that [of t1] in \<open>simp add: archive_step_def\<close>)
  have am2: "amends s t2" using am t1(2) t2(2) by (blast intro: amends_trans)
  have sup2: "sup_rel t2 = sup_rel t" using t1(3) t2(3) by simp
  with t have "sup_rel t2 \<subseteq> sup_rel s \<union> UNIV \<times> - doomed (groups_of E s)" by (simp add: merging_def)
  from relink_run [OF wf g am2 this] obtain u where
    u: "relink (hd g) (link_target E s g) t2 = (u, Inr ())" "amends t2 u"
      "sup_rel u \<subseteq> sup_rel s \<union> UNIV \<times> - doomed (groups_of E s)" "spared E s ?i u"
      "\<forall>w. spared E s w t2 \<longrightarrow> spared E s w u" "tag_rel u = tag_rel t2" "file_rel u = file_rel t2" by blast
  have run: "apply_group E now (loser_to_survivor (groups_of E s)) g t = (u, Inr ())"
    using u(1) unfolding apply_group_steps link_target_def union_step_def [symmetric] archive_step_def [symmetric]
    by (simp add: bind_def t1(1) t2(1))
  have "wf_store u" using keeps_carriesD [OF wf_apply_group _ run] t by (simp add: merging_def)
  moreover have "amends t u" "amends s u"
    using t1(2) t2(2) u(2) am by (blast intro: amends_trans)+
  moreover have "?i \<notin> active_ids u" if "list_ex (\<lambda>n. note_status n = ''archived'') g"
    using t2(6) that u(2) by (auto simp: amends_def)
  moreover have "spared E s w t \<longrightarrow> spared E s w u" for w
    using u(5) sup2 by (simp add: spared_def)
  ultimately show ?thesis
    using run u t1(4,5) t2(4,5) by (intro exI [of _ u]) (simp add: merging_def)
qed

text \<open>All groups, one after another.\<close>

definition merged_tags :: "mem_note list list \<Rightarrow> (string \<times> string) set" where
  "merged_tags gs = (\<Union>g \<in> set gs. {note_id (hd g)} \<times> set (new_tags_of g))"

definition merged_files :: "mem_note list list \<Rightarrow> (string \<times> string) set" where
  "merged_files gs = (\<Union>g \<in> set gs. {note_id (hd g)} \<times> set (new_files_of g))"

lemma phase1_run:
  assumes wf: "wf_store s" and stable: "stored_forms_stable E s" and gs: "set gs \<subseteq> set (groups_of E s)"
    and t: "merging E s t"
  shows "\<exists>u. fold_each (collapse_group_survivor E now (loser_to_survivor (groups_of E s)) True) gs sm t =
      (u, Inr (fold (group_summary (loser_to_survivor (groups_of E s))) gs sm)) \<and> merging E s u \<and>
    amends t u \<and> (\<forall>g \<in> set gs. spared E s (note_id (hd g)) u) \<and> (\<forall>w. spared E s w t \<longrightarrow> spared E s w u) \<and>
    tag_rel u = tag_rel t \<union> merged_tags gs \<and> file_rel u = file_rel t \<union> merged_files gs \<and>
    (\<forall>g \<in> set gs. list_ex (\<lambda>n. note_status n = ''archived'') g \<longrightarrow> note_id (hd g) \<notin> active_ids u)"
  using gs t
proof (induction gs arbitrary: sm t)
  case Nil
  then show ?case by (simp add: merged_tags_def merged_files_def)
next
  case (Cons g gs)
  let ?lts = "loser_to_survivor (groups_of E s)"
  from Cons.prems have g: "g \<in> set (groups_of E s)" and gs: "set gs \<subseteq> set (groups_of E s)" by auto
  from apply_group_run [OF wf stable g Cons.prems(2), of now] obtain u where
    u: "apply_group E now ?lts g t = (u, Inr ())" "merging E s u" "amends t u"
      "spared E s (note_id (hd g)) u" "\<forall>w. spared E s w t \<longrightarrow> spared E s w u"
      "tag_rel u = tag_rel t \<union> {note_id (hd g)} \<times> set (new_tags_of g)"
      "file_rel u = file_rel t \<union> {note_id (hd g)} \<times> set (new_files_of g)"
      "list_ex (\<lambda>n. note_status n = ''archived'') g \<longrightarrow> note_id (hd g) \<notin> active_ids u" by blast
  from Cons.IH [OF gs u(2), of "group_summary ?lts g sm"] obtain v where
    v: "fold_each (collapse_group_survivor E now ?lts True) gs (group_summary ?lts g sm) u =
        (v, Inr (fold (group_summary ?lts) gs (group_summary ?lts g sm)))" "merging E s v" "amends u v"
      "\<forall>g \<in> set gs. spared E s (note_id (hd g)) v" "\<forall>w. spared E s w u \<longrightarrow> spared E s w v"
      "tag_rel v = tag_rel u \<union> merged_tags gs" "file_rel v = file_rel u \<union> merged_files gs"
      "\<forall>g \<in> set gs. list_ex (\<lambda>n. note_status n = ''archived'') g \<longrightarrow> note_id (hd g) \<notin> active_ids v"
    by blast
  have run: "fold_each (collapse_group_survivor E now ?lts True) (g # gs) sm t =
      (v, Inr (fold (group_summary ?lts) (g # gs) sm))"
    using v(1) by (simp add: bind_def collapse_group_survivor_def u(1))
  have act: "active_ids v \<subseteq> active_ids u" using v(3) by (simp add: amends_def)
  have "tag_rel v = tag_rel t \<union> merged_tags (g # gs)" "file_rel v = file_rel t \<union> merged_files (g # gs)"
    using u(6,7) v(6,7) by (auto simp: merged_tags_def merged_files_def)
  with run u(3-5,8) v(2-5,8) act show ?case
    by (intro exI [of _ v]) (auto intro: amends_trans)
qed

end
