(* ===== verification/Dedupe_Run.thy ===== *)
theory Dedupe_Run
  imports Dedupe
begin

text \<open>
  What a whole \<open>memory dedupe\<close> does: phases 2 and 3 on top of the group merges of \<open>Dedupe\<close>, and
  the run composed of all three.
\<close>

section \<open>Phase 2 leaves no link to a row about to go\<close>

definition rewrite_count ::
    "note_id list \<Rightarrow> (note_id \<rightharpoonup> note_id) \<Rightarrow> (note_id \<rightharpoonup> nat) \<Rightarrow> mem_note \<Rightarrow> dedupe_summary \<Rightarrow>
     dedupe_summary" where
  "rewrite_count survivors lts group_of n sm =
     (case Option.bind (note_superseded_by n) (\<lambda>v. map_option (\<lambda>_. v) (lts v)) of
        None \<Rightarrow> sm
      | Some v \<Rightarrow>
          if note_id n \<in> set survivors \<or>
             (case (group_of (note_id n), group_of v) of (Some a, Some b) \<Rightarrow> a = b | _ \<Rightarrow> False)
          then sm
          else sm\<lparr>supersede_edges_repointed := Suc (supersede_edges_repointed sm)\<rparr>)"

lemma rewrite_dry:
  "rewrite_cross_references all survivors lts group_of False sm s =
     (s, Inr (fold (rewrite_count survivors lts group_of) all sm))"
  unfolding rewrite_cross_references_def
  by (induction all arbitrary: sm)
    (auto simp: bind_def rewrite_step_def rewrite_count_def Let_def split: option.splits)

lemma collapse_dry:
  "fold_each (collapse_group_survivor E now lts False) gs sm s = (s, Inr (fold (group_summary lts) gs sm))"
  by (induction gs arbitrary: sm) (simp_all add: bind_def collapse_group_survivor_def)

lemma wf_set_superseded: "wf_store s \<Longrightarrow> set_superseded_by i v s = (t, r) \<Longrightarrow> wf_store t"
  by (rule keeps_carriesD) (rule wf_intros)

lemma rewrite_step_run:
  assumes wf: "wf_store s" and n: "n \<in> set (snap s)" and t: "merging E s t"
    and surv: "note_id n \<in> set survivors \<Longrightarrow> spared E s (note_id n) t"
  shows "\<exists>u. rewrite_step survivors (loser_to_survivor (groups_of E s)) group_of True n sm t =
      (u, Inr (rewrite_count survivors (loser_to_survivor (groups_of E s)) group_of n sm)) \<and>
    merging E s u \<and> amends t u \<and> spared E s (note_id n) u \<and> (\<forall>w. spared E s w t \<longrightarrow> spared E s w u) \<and>
    tag_rel u = tag_rel t \<and> file_rel u = file_rel t"
proof -
  let ?lts = "loser_to_survivor (groups_of E s)"
  have am: "amends s t" and tsup: "sup_rel t \<subseteq> sup_rel s \<union> UNIV \<times> - doomed (groups_of E s)"
    and wt: "wf_store t" using t by (simp_all add: merging_def)
  show ?thesis
  proof (cases "note_id n \<in> set survivors \<or> Option.bind (note_superseded_by n) ?lts = None")
    case True
    have "spared E s (note_id n) t"
    proof (cases "note_id n \<in> set survivors")
      case False
      have "v \<notin> doomed (groups_of E s)" if v: "(note_id n, v) \<in> sup_rel t" for v
      proof (cases "(note_id n, v) \<in> sup_rel s")
        case True
        then have "note_superseded_by n = Some v" using snap_sup [OF wf n] by simp
        with False \<open>note_id n \<in> set survivors \<or> _\<close> show ?thesis
          by (simp add: loser_to_survivor_None)
      qed (use v tsup in blast)
      then show ?thesis by (simp add: spared_def)
    qed (rule surv)
    moreover have "rewrite_step survivors ?lts group_of True n sm t =
        (t, Inr (rewrite_count survivors ?lts group_of n sm))"
      using True by (auto simp: rewrite_step_def rewrite_count_def split: option.splits)
    ultimately show ?thesis using t by (intro exI [of _ t]) simp
  next
    case False
    then obtain v w where v: "note_superseded_by n = Some v" "?lts v = Some w" "note_id n \<notin> set survivors"
      by (auto simp: bind_eq_None_conv)
    from lts_target [OF wf v(2)] have w: "w \<in> set (note_uuids t)" "w \<notin> doomed (groups_of E s)"
      using amends_uuids [OF am] by auto
    have "note_id n \<in> set (note_uuids t)"
      using n snap_ids(2) [OF wf] amends_uuids [OF am] by (metis image_eqI)
    from set_superseded_amends [OF w(1) this] obtain u where
      u: "set_superseded_by (note_id n) w t = (u, Inr ())" "amends t u"
        "sup_rel u = {p \<in> sup_rel t. fst p \<noteq> note_id n} \<union> {(note_id n, w)}"
        "tag_rel u = tag_rel t" "file_rel u = file_rel t" by blast
    have "rewrite_step survivors ?lts group_of True n sm t =
        (u, Inr (rewrite_count survivors ?lts group_of n sm))"
      using v by (simp add: rewrite_step_def rewrite_count_def bind_def u(1) Let_def)
    moreover have "merging E s u"
      using wf_set_superseded [OF wt u(1)] amends_trans [OF am u(2)] tsup w(2) u(3)
      by (auto simp: merging_def)
    moreover have "spared E s (note_id n) u" "\<forall>x. spared E s x t \<longrightarrow> spared E s x u"
      using u(3) w(2) by (auto simp: spared_def)
    ultimately show ?thesis using u(2,4,5) by blast
  qed
qed

lemma phase2_run:
  assumes wf: "wf_store s" and ns: "set ns \<subseteq> set (snap s)" and t: "merging E s t"
    and surv: "\<forall>i \<in> set survivors. spared E s i t"
  shows "\<exists>u. rewrite_cross_references ns survivors (loser_to_survivor (groups_of E s)) group_of True sm t =
      (u, Inr (fold (rewrite_count survivors (loser_to_survivor (groups_of E s)) group_of) ns sm)) \<and>
    merging E s u \<and> amends t u \<and> (\<forall>n \<in> set ns. spared E s (note_id n) u) \<and>
    (\<forall>w. spared E s w t \<longrightarrow> spared E s w u) \<and> tag_rel u = tag_rel t \<and> file_rel u = file_rel t"
  using ns t surv
proof (induction ns arbitrary: sm t)
  case Nil
  then show ?case by (simp add: rewrite_cross_references_def)
next
  case (Cons n ns)
  let ?lts = "loser_to_survivor (groups_of E s)"
  let ?count = "rewrite_count survivors ?lts group_of"
  from Cons.prems have n: "n \<in> set (snap s)" and ns: "set ns \<subseteq> set (snap s)" by auto
  from rewrite_step_run [OF wf n Cons.prems(2), of survivors group_of sm] Cons.prems(3) obtain u where
    u: "rewrite_step survivors ?lts group_of True n sm t = (u, Inr (?count n sm))"
      "merging E s u" "amends t u" "spared E s (note_id n) u" "\<forall>w. spared E s w t \<longrightarrow> spared E s w u"
      "tag_rel u = tag_rel t" "file_rel u = file_rel t" by blast
  have "\<forall>i \<in> set survivors. spared E s i u" using u(5) Cons.prems(3) by blast
  from Cons.IH [OF ns u(2) this, of "?count n sm"] obtain v where
    v: "rewrite_cross_references ns survivors ?lts group_of True (?count n sm) u =
        (v, Inr (fold ?count ns (?count n sm)))" "merging E s v" "amends u v"
      "\<forall>n \<in> set ns. spared E s (note_id n) v" "\<forall>w. spared E s w u \<longrightarrow> spared E s w v"
      "tag_rel v = tag_rel u" "file_rel v = file_rel u" by blast
  have "rewrite_cross_references (n # ns) survivors ?lts group_of True sm t = (v, Inr (fold ?count (n # ns) sm))"
    using v(1) by (simp add: rewrite_cross_references_def bind_def u(1))
  with u(3-7) v(2-7) show ?case by (intro exI [of _ v]) (auto intro: amends_trans)
qed


section \<open>Phase 3: every loser can be deleted\<close>

definition without :: "string set \<Rightarrow> memory_store \<Rightarrow> memory_store \<Rightarrow> bool" where
  "without D s t = (note_rows t = filter (\<lambda>r. row_uuid r \<notin> D) (note_rows s) \<and>
     note_tags t = filter (\<lambda>p. fst p \<notin> D) (note_tags s) \<and>
     note_files t = filter (\<lambda>f. file_note f \<notin> D) (note_files s) \<and>
     memory_edges t = filter (\<lambda>e. edge_from_id e \<notin> D \<and> edge_to_id e \<notin> D) (memory_edges s) \<and>
     project_root t = project_root s)"

lemma without_empty: "without {} s s"
  by (simp add: without_def)

lemma without_trans: "without D s t \<Longrightarrow> without D' t u \<Longrightarrow> without (D \<union> D') s u"
  by (simp add: without_def conj_commute conj_left_commute)

lemma delete_note_run:
  assumes wf: "wf_store s" and free: "\<And>u. (u, i) \<notin> sup_rel s"
  shows "\<exists>t. delete_note i s = (t, Inr ()) \<and> without {i} s t"
proof (cases "rowid_for s i")
  case None
  then have "i \<notin> set (note_uuids s)" by (simp add: rowid_for_None)
  moreover have "without {i} s s"
  proof -
    have "row_uuid r \<noteq> i" if "r \<in> set (note_rows s)" for r
      using that \<open>i \<notin> _\<close> by (auto simp: note_uuids_def)
    moreover have "fst p \<noteq> i" if "p \<in> set (note_tags s)" for p
      using that wf \<open>i \<notin> _\<close> by (auto simp: wf_store_def wf_tags_def)
    moreover have "file_note f \<noteq> i" if "f \<in> set (note_files s)" for f
      using that wf \<open>i \<notin> _\<close> by (auto simp: wf_store_def wf_files_def)
    moreover have "edge_from_id e \<noteq> i \<and> edge_to_id e \<noteq> i" if "e \<in> set (memory_edges s)" for e
      using that wf \<open>i \<notin> _\<close> by (auto simp: wf_store_def wf_edges_def)
    ultimately show ?thesis by (simp add: without_def)
  qed
  ultimately show ?thesis
    using None by (simp add: delete_note_def delete_note_embedding_def sql_delete_note_def bind_def)
next
  case (Some n)
  then have known: "i \<in> set (note_uuids s)" using rowid_for_Some by (force simp: note_uuids_def)
  have "row_superseded_by r \<noteq> Some i" if "r \<in> set (note_rows s)" for r
    using that free [of "row_uuid r"] by (auto simp: sup_rel_in)
  then have "\<not> list_ex (\<lambda>r. row_uuid r \<noteq> i \<and> row_superseded_by r = Some i) (note_rows s)"
    by (simp add: list_ex_iff)
  then show ?thesis
    using known Some by (simp add: delete_note_def delete_note_embedding_def sql_delete_embedding_def
        sql_delete_note_def bind_def without_def)
qed

lemma without_sup_rel: "without D s t \<Longrightarrow> sup_rel t \<subseteq> sup_rel s"
  by (auto simp: without_def sup_rel_def)

lemma delete_all_run:
  assumes "wf_store s" and "\<And>u v. (u, v) \<in> sup_rel s \<Longrightarrow> v \<notin> D" and "f ` set xs \<subseteq> D"
  shows "\<exists>t. for_each (\<lambda>x. delete_note (f x)) xs s = (t, Inr ()) \<and> wf_store t \<and> without (f ` set xs) s t"
  using assms
proof (induction xs arbitrary: s)
  case Nil
  then show ?case by (simp add: for_each_def without_empty)
next
  case (Cons x xs)
  from Cons.prems have "(u, f x) \<notin> sup_rel s" for u by auto
  from delete_note_run [OF Cons.prems(1) this] obtain t where
    t: "delete_note (f x) s = (t, Inr ())" "without {f x} s t" by blast
  have wt: "wf_store t" by (rule keeps_carriesD [OF delete_note_rules Cons.prems(1) t(1)])
  have "f ` set xs \<subseteq> D" using Cons.prems(3) by simp
  from Cons.IH [OF wt _ this] Cons.prems(2) without_sup_rel [OF t(2)] obtain u where
    u: "for_each (\<lambda>x. delete_note (f x)) xs t = (u, Inr ())" "wf_store u" "without (f ` set xs) t u"
    by blast
  have "without (f ` set (x # xs)) s u" using without_trans [OF t(2) u(3)] by simp
  with u(1,2) show ?case by (simp add: for_each_def bind_def t(1))
qed

lemma phase3_run:
  assumes "wf_store s" and "\<And>u v. (u, v) \<in> sup_rel s \<Longrightarrow> v \<notin> D" and "doomed gs \<subseteq> D"
  shows "\<exists>t. for_each (\<lambda>g. for_each (\<lambda>l. delete_note (note_id l)) (tl g)) gs s = (t, Inr ()) \<and>
    wf_store t \<and> without (doomed gs) s t"
  using assms
proof (induction gs arbitrary: s)
  case Nil
  then show ?case by (simp add: for_each_def doomed_def without_empty)
next
  case (Cons g gs)
  have d: "doomed (g # gs) = note_id ` set (tl g) \<union> doomed gs" by (simp add: doomed_def)
  have "note_id ` set (tl g) \<subseteq> D" using Cons.prems(3) d by blast
  from delete_all_run [OF Cons.prems(1) _ this] Cons.prems(2) obtain t where
    t: "for_each (\<lambda>l. delete_note (note_id l)) (tl g) s = (t, Inr ())" "wf_store t"
      "without (note_id ` set (tl g)) s t" by blast
  have "doomed gs \<subseteq> D" using Cons.prems(3) d by blast
  from Cons.IH [OF t(2) _ this] Cons.prems(2) without_sup_rel [OF t(3)] obtain u where
    u: "for_each (\<lambda>g. for_each (\<lambda>l. delete_note (note_id l)) (tl g)) gs t = (u, Inr ())"
      "wf_store u" "without (doomed gs) t u" by blast
  have "without (doomed (g # gs)) s u" using without_trans [OF t(3) u(3)] unfolding d .
  with u(1,2) show ?case by (simp add: for_each_def bind_def t(1) [unfolded for_each_def])
qed

section \<open>The snapshot afterwards\<close>

text \<open>The deterministic order of the snapshot is the order of the row cores.\<close>

definition core_key :: "nat \<times> string \<times> string \<times> string \<times> string \<times> int \<times> string \<Rightarrow> int \<times> nat" where
  "core_key c = (case c of (rid, _, _, _, _, created, _) \<Rightarrow> (created, rid))"

lemma snap_cores:
  "map row_core (sort_key (\<lambda>r. (row_created_at r, row_id r)) (note_rows s)) =
     sort_key core_key (map row_core (note_rows s))"
proof -
  have "(\<lambda>r. core_key (row_core r)) = (\<lambda>r. (row_created_at r, row_id r))"
    by (simp add: core_key_def row_core_def fun_eq_iff)
  then show ?thesis by (simp add: sort_key_map)
qed

definition core_fields :: "env \<Rightarrow> nat \<times> string \<times> string \<times> string \<times> string \<times> int \<times> string \<Rightarrow> note_id \<times> string" where
  "core_fields E c = (case c of (_, u, k, ti, b, _, _) \<Rightarrow> (u, entity_id E k ti b))"

lemma snap_fields:
  "map (\<lambda>n. (note_id n, note_entity_id_of E n)) (snap s) =
     map (core_fields E) (sort_key core_key (map row_core (note_rows s)))"
  unfolding snap_cores [symmetric]
  by (simp add: snap_def core_fields_def row_core_def note_entity_id_of_def)

lemma snap_after:
  assumes "amends s t" and "without D t u"
  shows "map (\<lambda>n. (note_id n, note_entity_id_of E n)) (snap u) =
    filter (\<lambda>p. fst p \<notin> D) (map (\<lambda>n. (note_id n, note_entity_id_of E n)) (snap s))"
proof -
  have "map row_core (note_rows u) = filter (\<lambda>c. fst (core_fields E c) \<notin> D) (map row_core (note_rows t))"
    using assms(2) by (simp add: without_def filter_map comp_def core_fields_def row_core_def)
  then have "map row_core (note_rows u) = filter (\<lambda>c. fst (core_fields E c) \<notin> D) (map row_core (note_rows s))"
    using assms(1) by (simp add: amends_def)
  then show ?thesis unfolding snap_fields by (simp add: filter_map comp_def filter_sort)
qed


section \<open>The run\<close>

lemma fold_union_doomed: "set (survivor_ids gs) = note_id ` hd ` set gs"
  by (simp add: survivor_ids_def image_image)

lemma dedupe_phases_run:
  assumes wf: "wf_store s" and stable: "stored_forms_stable E s"
  shows "\<exists>m t sm. dedupe_phases E now (snap s) (groups_of E s) False sm0 s = (s, Inr sm) \<and>
    dedupe_phases E now (snap s) (groups_of E s) True sm0 s = (t, Inr sm) \<and>
    amends s m \<and> wf_store t \<and> without (doomed (groups_of E s)) m t \<and>
    tag_rel m = tag_rel s \<union> merged_tags (groups_of E s) \<and>
    file_rel m = file_rel s \<union> merged_files (groups_of E s) \<and>
    (\<forall>g \<in> set (groups_of E s). list_ex (\<lambda>n. note_status n = ''archived'') g \<longrightarrow>
      note_id (hd g) \<notin> active_ids m)"
proof -
  let ?gs = "groups_of E s"
  let ?lts = "loser_to_survivor ?gs"
  let ?sm1 = "fold (group_summary ?lts) ?gs sm0"
  let ?sm2 = "fold (rewrite_count (survivor_ids ?gs) ?lts (note_group_of ?gs)) (snap s) ?sm1"
  have start: "merging E s s" using wf by (simp add: merging_def)
  from phase1_run [OF wf stable order_refl start, of now sm0] obtain u where
    u: "fold_each (collapse_group_survivor E now ?lts True) ?gs sm0 s = (u, Inr ?sm1)"
      "merging E s u" "amends s u" "\<forall>g \<in> set ?gs. spared E s (note_id (hd g)) u"
      "tag_rel u = tag_rel s \<union> merged_tags ?gs" "file_rel u = file_rel s \<union> merged_files ?gs"
      "\<forall>g \<in> set ?gs. list_ex (\<lambda>n. note_status n = ''archived'') g \<longrightarrow> note_id (hd g) \<notin> active_ids u"
    by blast
  have "\<forall>i \<in> set (survivor_ids ?gs). spared E s i u" using u(4) by (simp add: survivor_ids_def)
  from phase2_run [OF wf order_refl u(2) this, of "note_group_of ?gs" ?sm1] obtain m where
    m: "rewrite_cross_references (snap s) (survivor_ids ?gs) ?lts (note_group_of ?gs) True ?sm1 u = (m, Inr ?sm2)"
      "merging E s m" "amends u m" "\<forall>n \<in> set (snap s). spared E s (note_id n) m"
      "tag_rel m = tag_rel u" "file_rel m = file_rel u" by blast
  have wm: "wf_store m" and am: "amends s m" using m(2) by (simp_all add: merging_def)
  have clear: "v \<notin> doomed ?gs" if v: "(x, v) \<in> sup_rel m" for x v
  proof -
    from v have "x \<in> set (note_uuids m)" by (auto simp: sup_rel_in note_uuids_def)
    then have "x \<in> note_id ` set (snap s)" using amends_uuids [OF am] snap_ids(2) [OF wf] by simp
    with m(4) v show ?thesis by (auto simp: spared_def)
  qed
  from phase3_run [OF wm _ order_refl, of ?gs] clear obtain t where
    t: "for_each (\<lambda>g. for_each (\<lambda>l. delete_note (note_id l)) (tl g)) ?gs m = (t, Inr ())"
      "wf_store t" "without (doomed ?gs) m t" by blast
  have "dedupe_phases E now (snap s) ?gs True sm0 s = (t, Inr ?sm2)"
    by (simp add: dedupe_phases_def Let_def bind_def u(1) m(1) t(1))
  moreover have "dedupe_phases E now (snap s) ?gs False sm0 s = (s, Inr ?sm2)"
    by (simp add: dedupe_phases_def Let_def bind_def collapse_dry rewrite_dry)
  moreover have "\<forall>g \<in> set ?gs. list_ex (\<lambda>n. note_status n = ''archived'') g \<longrightarrow> note_id (hd g) \<notin> active_ids m"
    using u(7) m(3) by (auto simp: amends_def)
  ultimately show ?thesis using am t(2,3) u(5,6) m(5,6) by (intro exI conjI) simp_all
qed

definition dedupe_start :: "mem_note list \<Rightarrow> mem_note list list \<Rightarrow> dedupe_summary" where
  "dedupe_start all gs = \<lparr>total_notes = length all, duplicate_groups_found = length gs, rows_collapsed = 0,
     tags_merged = 0, linked_files_merged = 0, supersede_edges_repointed = 0,
     supersede_self_edges_dropped = 0\<rparr>"

lemma dedupe_steps:
  assumes "wf_store s"
  shows "dedupe_entity_ids E now dry s =
    (if groups_of E s = [] then (s, Inr (dedupe_start (snap s) []))
     else if dry then dedupe_phases E now (snap s) (groups_of E s) False (dedupe_start (snap s) (groups_of E s)) s
     else transaction (dedupe_phases E now (snap s) (groups_of E s) True
       (dedupe_start (snap s) (groups_of E s))) s)"
  by (simp add: dedupe_entity_ids_def bind_reading all_notes_snap [OF assms] Let_def groups_of_def
      dedupe_start_def)

lemma doomed_none: "doomed [] = {}" "merged_tags [] = {}" "merged_files [] = {}"
  by (simp_all add: doomed_def merged_tags_def merged_files_def)

lemma dedupe_run:
  assumes wf: "wf_store s" and stable: "stored_forms_stable E s"
  shows "\<exists>m t sm. dedupe_entity_ids E now True s = (s, Inr sm) \<and>
    dedupe_entity_ids E now False s = (t, Inr sm) \<and>
    amends s m \<and> wf_store t \<and> without (doomed (groups_of E s)) m t \<and>
    tag_rel m = tag_rel s \<union> merged_tags (groups_of E s) \<and>
    file_rel m = file_rel s \<union> merged_files (groups_of E s) \<and>
    (\<forall>g \<in> set (groups_of E s). list_ex (\<lambda>n. note_status n = ''archived'') g \<longrightarrow>
      note_id (hd g) \<notin> active_ids m)"
proof (cases "groups_of E s = []")
  case True
  then show ?thesis
    using wf by (intro exI [of _ s] exI) (simp add: dedupe_steps doomed_none without_empty)
next
  case False
  from dedupe_phases_run [OF assms, of now "dedupe_start (snap s) (groups_of E s)"] show ?thesis
    unfolding dedupe_steps [OF wf] using False by (simp add: transaction_eq_Inr)
qed

section \<open>The entries that stay\<close>

text \<open>The first element of each class, in order.\<close>

fun keep_first :: "('a \<Rightarrow> 'b) \<Rightarrow> 'a list \<Rightarrow> 'a list" where
  "keep_first f [] = []"
| "keep_first f (x # xs) = x # filter (\<lambda>y. f y \<noteq> f x) (keep_first f xs)"

lemma image_without: "f ` {x \<in> A. f x \<noteq> c} = f ` A - {c}"
  by auto

lemma set_keep_first: "f ` set (keep_first f xs) = f ` set xs"
  by (induction xs) (auto simp: image_without)

lemma distinct_keep_first: "distinct (map f (keep_first f xs))"
  by (induction xs) (auto simp: distinct_map_filter)

lemma keep_first_filter:
  "distinct xs \<Longrightarrow> keep_first f xs = filter (\<lambda>x. hd (filter (\<lambda>y. f y = f x) xs) = x) xs"
proof (induction xs)
  case (Cons x xs)
  have "hd (filter (\<lambda>y. f y = f z) (x # xs)) = z \<longleftrightarrow> f z \<noteq> f x \<and> hd (filter (\<lambda>y. f y = f z) xs) = z"
    if "z \<in> set xs" for z
    using that Cons.prems by auto
  then have "filter (\<lambda>z. hd (filter (\<lambda>y. f y = f z) (x # xs)) = z) xs =
      filter (\<lambda>z. f z \<noteq> f x \<and> hd (filter (\<lambda>y. f y = f z) xs) = z) xs"
    by (intro filter_cong) simp_all
  with Cons show ?case by (simp add: conj_commute)
qed simp

lemma not_doomed:
  assumes wf: "wf_store s" and n: "n \<in> set (snap s)"
  shows "note_id n \<notin> doomed (groups_of E s) \<longleftrightarrow>
    hd (filter (\<lambda>m. note_entity_id_of E m = note_entity_id_of E n) (snap s)) = n" (is "_ \<longleftrightarrow> hd ?c = n")
proof -
  have nc: "n \<in> set ?c" using n by simp
  show ?thesis
  proof (cases "?c \<in> set (groups_of E s)")
    case True
    show ?thesis
    proof
      assume "note_id n \<notin> doomed (groups_of E s)"
      with True have "n \<notin> set (tl ?c)" by (auto simp: doomed_def)
      with nc show "hd ?c = n" by (cases ?c) auto
    next
      assume "hd ?c = n"
      with survivor_not_doomed [OF wf True] show "note_id n \<notin> doomed (groups_of E s)" by simp
    qed
  next
    case False
    have "m = n" if "m \<in> set ?c" for m
    proof (rule ccontr)
      assume "m \<noteq> n"
      with duplicate_groups_cover [of n "snap s" m E] that n
      have "?c \<in> set (groups_of E s)" by (simp add: groups_of_def)
      with False show False by blast
    qed
    with nc have "hd ?c = n" by (metis hd_in_set list.distinct(1) list.set_cases)
    moreover have "note_id n \<notin> doomed (groups_of E s)"
    proof
      assume "note_id n \<in> doomed (groups_of E s)"
      then obtain g l where g: "g \<in> set (groups_of E s)" "l \<in> set (tl g)" "note_id l = note_id n"
        by (auto simp: doomed_def)
      have lg: "l \<in> set g" using g(2) by (meson list.set_sel(2) group_in_snap(2) [OF g(1)])
      then have "l = n" using note_by_id [OF wf _ n g(3)] group_in_snap(1) [OF g(1)] by blast
      with group_content [OF g(1) lg] g(1) False show False by simp
    qed
    ultimately show ?thesis by simp
  qed
qed

text \<open>Whose tags and paths the merge adds to a survivor.\<close>

lemma group_of_survivor:
  assumes wf: "wf_store s" and g: "g \<in> set (groups_of E s)" and n: "n \<in> set (snap s)"
    and "note_id (hd g) = note_id n"
  shows "g = filter (\<lambda>m. note_entity_id_of E m = note_entity_id_of E n) (snap s)"
proof -
  have "hd g = n" using note_by_id [OF wf _ n assms(4)] group_in_snap(1,3) [OF g] by blast
  with group_content [OF g group_in_snap(3) [OF g]] show ?thesis by simp
qed

text \<open>
  \<open>values\<close> stands for the tags or the paths of a note, \<open>rel\<close> for the table that holds them.
\<close>

lemma merged_values:
  fixes vals :: "mem_note \<Rightarrow> string list" and rel :: "(string \<times> string) set"
  assumes wf: "wf_store s" and n: "n \<in> set (snap s)" and live: "note_id n \<notin> doomed (groups_of E s)"
    and rel: "\<And>m v. m \<in> set (snap s) \<Longrightarrow> v \<in> set (vals m) \<longleftrightarrow> (note_id m, v) \<in> rel"
    and new: "\<And>g. set (new g) = set (concat (map vals (tl g))) - set (vals (hd g))"
  shows "(note_id n, v) \<in> rel \<union> (\<Union>g \<in> set (groups_of E s). {note_id (hd g)} \<times> set (new g)) \<longleftrightarrow>
    (\<exists>m \<in> set (snap s). note_entity_id_of E m = note_entity_id_of E n \<and> v \<in> set (vals m))" (is "?l \<longleftrightarrow> ?r")
proof
  assume ?l
  then consider "(note_id n, v) \<in> rel"
    | g where "g \<in> set (groups_of E s)" "note_id (hd g) = note_id n" "v \<in> set (new g)" by auto
  then show ?r
  proof cases
    case 1
    with rel [OF n] n show ?thesis by blast
  next
    case 2
    then obtain m where m: "m \<in> set (tl g)" "v \<in> set (vals m)" by (auto simp: new)
    have "m \<in> set g" using m(1) by (meson list.set_sel(2) group_in_snap(2) [OF 2(1)])
    with group_of_survivor [OF wf 2(1) n 2(2)] m(2) show ?thesis by auto
  qed
next
  assume ?r
  then obtain m where m: "m \<in> set (snap s)" "note_entity_id_of E m = note_entity_id_of E n" "v \<in> set (vals m)"
    by blast
  let ?c = "filter (\<lambda>m. note_entity_id_of E m = note_entity_id_of E n) (snap s)"
  have first: "hd ?c = n" using live not_doomed [OF wf n] by blast
  show ?l
  proof (cases "m = n \<or> (note_id n, v) \<in> rel")
    case True
    with m(3) rel [OF n] show ?thesis by blast
  next
    case False
    with m n duplicate_groups_cover [of n "snap s" m E] have g: "?c \<in> set (groups_of E s)"
      by (auto simp: groups_of_def)
    have "m \<in> set ?c" using m by simp
    with first False have "m \<in> set (tl ?c)" by (metis list.collapse list.sel(2) set_ConsD)
    moreover have "v \<notin> set (vals n)" using False rel [OF n] by blast
    ultimately have "v \<in> set (new ?c)" using m(3) first by (auto simp: new)
    with g first show ?thesis by (intro UnI2 UN_I [OF g]) simp
  qed
qed

lemma set_new_tags: "set (new_tags_of g) = set (concat (map note_tags_of (tl g))) - set (note_tags_of (hd g))"
  by (simp add: new_tags_of_def set_new_values)

lemma set_new_files:
  "set (new_files_of g) = set (concat (map note_linked_files (tl g))) - set (note_linked_files (hd g))"
  by (simp add: new_files_of_def set_new_values)

lemma without_rels:
  assumes "without D s t"
  shows "tag_rel t = {p \<in> tag_rel s. fst p \<notin> D}" and "file_rel t = {p \<in> file_rel s. fst p \<notin> D}"
    and "active_ids t \<subseteq> active_ids s"
  using assms by (auto simp: without_def tag_rel_def file_rel_def file_key_def active_ids_def)

text \<open>What the run does, over the entries read before and after.\<close>

definition same_content :: "env \<Rightarrow> mem_note list \<Rightarrow> mem_note \<Rightarrow> mem_note list" where
  "same_content E ns n = filter (\<lambda>m. note_entity_id_of E m = note_entity_id_of E n) ns"

lemma kept_first:
  assumes wf: "wf_store s"
  shows "filter (\<lambda>p. fst p \<notin> doomed (groups_of E s)) (map (\<lambda>n. (note_id n, note_entity_id_of E n)) (snap s)) =
    keep_first snd (map (\<lambda>n. (note_id n, note_entity_id_of E n)) (snap s))"
proof -
  let ?key = "\<lambda>n. (note_id n, note_entity_id_of E n)"
  let ?L = "map ?key (snap s)"
  have "distinct (map fst ?L)" using snap_ids(1) [OF wf] by (simp add: comp_def)
  then have dist: "distinct ?L" using distinct_map [of fst ?L] by blast
  have "fst p \<notin> doomed (groups_of E s) \<longleftrightarrow> hd (filter (\<lambda>q. snd q = snd p) ?L) = p" if "p \<in> set ?L" for p
  proof -
    from that obtain k where k: "k \<in> set (snap s)" "p = ?key k" by auto
    let ?c = "filter (\<lambda>m. note_entity_id_of E m = note_entity_id_of E k) (snap s)"
    have c: "hd ?c \<in> set ?c" by (rule hd_in_set) (use k(1) in \<open>auto simp: filter_empty_conv\<close>)
    have "filter (\<lambda>q. snd q = snd p) ?L = map ?key ?c" by (simp add: k(2) filter_map comp_def)
    then have "hd (filter (\<lambda>q. snd q = snd p) ?L) = ?key (hd ?c)" using c by (cases ?c) simp_all
    moreover have "?key (hd ?c) = ?key k \<longleftrightarrow> hd ?c = k"
      using note_by_id [OF wf _ k(1), of "hd ?c"] c by auto
    ultimately show ?thesis using not_doomed [OF wf k(1), of E] k(2) by simp
  qed
  then show ?thesis unfolding keep_first_filter [OF dist] by (intro filter_cong) simp_all
qed

lemma snap_active:
  assumes "wf_store s" and "k \<in> set (snap s)"
  shows "note_id k \<in> active_ids s \<longleftrightarrow> note_status k = ''active''"
proof -
  from assms(2) obtain r where r: "r \<in> set (note_rows s)" "k = view_row s r" by (auto simp: in_snap)
  show ?thesis
  proof
    assume "note_id k \<in> active_ids s"
    then obtain q where q: "q \<in> set (note_rows s)" "row_uuid q = row_uuid r" "row_status q = ''active''"
      unfolding active_ids_def r(2) by auto
    have "q = r" by (rule uuid_unique [OF assms(1) q(1) r(1) q(2)])
    with q(3) r(2) show "note_status k = ''active''" by simp
  qed (use r in \<open>auto simp: active_ids_def\<close>)
qed

lemma dedupe_entries:
  assumes wf: "wf_store s" and stable: "stored_forms_stable E s"
  shows "\<exists>t sm. dedupe_entity_ids E now True s = (s, Inr sm) \<and>
    dedupe_entity_ids E now False s = (t, Inr sm) \<and> wf_store t \<and>
    map (\<lambda>n. (note_id n, note_entity_id_of E n)) (snap t) =
      keep_first snd (map (\<lambda>n. (note_id n, note_entity_id_of E n)) (snap s)) \<and>
    (\<forall>n \<in> set (snap t).
      set (note_tags_of n) = (\<Union>m \<in> set (same_content E (snap s) n). set (note_tags_of m)) \<and>
      set (note_linked_files n) = (\<Union>m \<in> set (same_content E (snap s) n). set (note_linked_files m)) \<and>
      (note_status n = ''active'' \<longrightarrow>
        list_all (\<lambda>m. note_status m \<noteq> ''archived'') (same_content E (snap s) n)))"
proof -
  let ?gs = "groups_of E s"
  let ?key = "\<lambda>n. (note_id n, note_entity_id_of E n)"
  from dedupe_run [OF assms, of now] obtain m t sm where
    run: "dedupe_entity_ids E now True s = (s, Inr sm)" "dedupe_entity_ids E now False s = (t, Inr sm)"
    and am: "amends s m" and wt: "wf_store t" and wo: "without (doomed ?gs) m t"
    and tags: "tag_rel m = tag_rel s \<union> merged_tags ?gs" and files: "file_rel m = file_rel s \<union> merged_files ?gs"
    and arch: "\<forall>g \<in> set ?gs. list_ex (\<lambda>n. note_status n = ''archived'') g \<longrightarrow> note_id (hd g) \<notin> active_ids m"
    by blast
  have after: "map ?key (snap t) = filter (\<lambda>p. fst p \<notin> doomed ?gs) (map ?key (snap s))"
    by (rule snap_after [OF am wo])
  have content: "\<exists>k \<in> set (snap s). note_id k = note_id n \<and> note_entity_id_of E k = note_entity_id_of E n \<and>
      note_id k \<notin> doomed ?gs" if "n \<in> set (snap t)" for n
  proof -
    from that have "?key n \<in> set (map ?key (snap t))" by simp
    then show ?thesis unfolding after by auto
  qed
  have facts: "set (note_tags_of n) = (\<Union>k \<in> set (same_content E (snap s) n). set (note_tags_of k)) \<and>
      set (note_linked_files n) = (\<Union>k \<in> set (same_content E (snap s) n). set (note_linked_files k)) \<and>
      (note_status n = ''active'' \<longrightarrow>
        list_all (\<lambda>k. note_status k \<noteq> ''archived'') (same_content E (snap s) n))" if n: "n \<in> set (snap t)" for n
  proof -
    from content [OF n] obtain k where k: "k \<in> set (snap s)" "note_id k = note_id n"
      "note_entity_id_of E k = note_entity_id_of E n" "note_id k \<notin> doomed ?gs" by blast
    note rels = without_rels [OF wo]
    have "v \<in> set (note_tags_of n) \<longleftrightarrow> (\<exists>j \<in> set (snap s). note_entity_id_of E j = note_entity_id_of E n \<and> v \<in> set (note_tags_of j))" for v
      using merged_values [OF wf k(1,4), of note_tags_of "tag_rel s" new_tags_of v] set_new_tags snap_tags k(2-4)
      by (simp add: snap_tags [OF n] rels(1) tags merged_tags_def)
    moreover have "v \<in> set (note_linked_files n) \<longleftrightarrow> (\<exists>j \<in> set (snap s). note_entity_id_of E j = note_entity_id_of E n \<and> v \<in> set (note_linked_files j))" for v
      using merged_values [OF wf k(1,4), of note_linked_files "file_rel s" new_files_of v] set_new_files snap_files k(2-4)
      by (simp add: snap_files [OF n] rels(2) files merged_files_def)
    moreover have "note_status j \<noteq> ''archived''" if act: "note_status n = ''active''"
      and j: "j \<in> set (same_content E (snap s) n)" for j
    proof
      assume ja: "note_status j = ''archived''"
      have am': "note_id k \<in> active_ids m" using snap_active [OF wt n] act rels(3) k(2) by auto
      then have "note_status k = ''active''" using am snap_active [OF wf k(1)] by (auto simp: amends_def)
      with ja have "j \<noteq> k" by auto
      let ?c = "filter (\<lambda>l. note_entity_id_of E l = note_entity_id_of E k) (snap s)"
      have jc: "j \<in> set (snap s)" "note_entity_id_of E k = note_entity_id_of E j"
        using j k(3) by (auto simp: same_content_def)
      have "?c \<in> set ?gs"
        using duplicate_groups_cover [OF k(1) jc(1) \<open>j \<noteq> k\<close> [symmetric] jc(2)] by (simp add: groups_of_def)
      moreover have "hd ?c = k" using not_doomed [OF wf k(1)] k(4) by blast
      moreover have "list_ex (\<lambda>n. note_status n = ''archived'') ?c"
        using ja jc by (auto simp: list_ex_iff)
      ultimately have "note_id k \<notin> active_ids m" using arch by metis
      with am' show False by blast
    qed
    ultimately show ?thesis by (auto simp: same_content_def list_all_iff)
  qed
  from run wt after facts show ?thesis unfolding kept_first [OF wf] by blast
qed

lemma no_duplicate_groups:
  assumes "distinct (map (note_entity_id_of E) ns)"
  shows "duplicate_groups E ns = []"
proof -
  have "length (filter (\<lambda>n. note_entity_id_of E n = e) ns) \<le> 1" for e
    using assms by (induction ns) (auto simp: filter_empty_conv, metis image_eqI)
  then show ?thesis by (auto simp: duplicate_groups_eq filter_empty_conv not_less)
qed

text \<open>A store with two copies of one entry, the second archived, and an entry pointing at it.\<close>

definition copied_notes :: memory_store where
  "copied_notes = (empty_store ''/repo'')\<lparr>
     note_rows := [(new_row ''u1'' ''note'' ''A'' ''a'' 1 ''active'' ''e1'')\<lparr>row_id := 1\<rparr>,
                   (new_row ''u2'' ''note'' ''A'' ''a'' 2 ''archived'' ''e2'')\<lparr>row_id := 2\<rparr>,
                   (new_row ''u3'' ''note'' ''B'' ''b'' 3 ''active'' ''e3'')
                     \<lparr>row_id := 3, row_superseded_by := Some ''u2''\<rparr>],
     rowid_seq := 3, note_tags := [(''u1'', ''x''), (''u2'', ''y'')],
     note_files := [\<lparr>file_note = ''u2'', file_path = ''a.rs'', file_row_state = ''tracked'', file_checked_at = 1\<rparr>],
     memory_edges := [\<lparr>edge_from_id = ''u3'', edge_to_id = ''u2'', edge_row_kind = ''relates_to'', edge_created_at = 3\<rparr>]\<rparr>"

definition legacy_copies :: memory_store where
  "legacy_copies = copied_notes\<lparr>note_files := [\<lparr>file_note = ''u2'', file_path = ''../x.rs'',
     file_row_state = ''missing'', file_checked_at = 1\<rparr>]\<rparr>"

lemma copied_notes_facts:
  "wf_store copied_notes" "stored_forms_stable demo_env copied_notes" "wf_store legacy_copies"
  by code_simp+

section \<open>Properties\<close>

text \<open>
  C21. On a sound store whose tags and paths are in stored form a dedupe succeeds, reports what
  its dry run reported (and the dry run writes nothing), keeps the store sound, and leaves of
  every content exactly the earliest entry, in the same order and under the same id.
\<close>
theorem dedupe_keeps_first_of_each_content:
  assumes "wf_store s" and "stored_forms_stable E s" and "all_notes_for_dedup s = Inr before"
  shows "\<exists>t sm after. dedupe_entity_ids E now True s = (s, Inr sm) \<and>
    dedupe_entity_ids E now False s = (t, Inr sm) \<and> wf_store t \<and>
    all_notes_for_dedup t = Inr after \<and>
    map (\<lambda>n. (note_id n, note_entity_id_of E n)) after =
      keep_first snd (map (\<lambda>n. (note_id n, note_entity_id_of E n)) before)"
proof -
  have "before = snap s" using assms(3) all_notes_snap [OF assms(1)] by simp
  with dedupe_entries [OF assms(1,2), of now] all_notes_snap show ?thesis by blast
qed

theorem dedupe_keeps_first_of_each_content_witness:
  "case dedupe_entity_ids demo_env 9 False copied_notes of (t, Inr sm) \<Rightarrow>
     (case all_notes_for_dedup t of Inr after \<Rightarrow> map note_id after = [''u1'', ''u3''] | Inl _ \<Rightarrow> False)
   | (t, Inl _) \<Rightarrow> False"
proof -
  let ?key = "\<lambda>n. (note_id n, note_entity_id_of demo_env n)"
  have b: "all_notes_for_dedup copied_notes = Inr (snap copied_notes)"
    by (rule all_notes_snap [OF copied_notes_facts(1)])
  have first: "map fst (keep_first snd (map ?key (snap copied_notes))) = [''u1'', ''u3'']" by code_simp
  from dedupe_keeps_first_of_each_content [OF copied_notes_facts(1,2) b, of 9] obtain t sm after where
    r: "dedupe_entity_ids demo_env 9 False copied_notes = (t, Inr sm)" "all_notes_for_dedup t = Inr after"
      "map ?key after = keep_first snd (map ?key (snap copied_notes))" by blast
  have "map note_id after = map fst (map ?key after)" by simp
  then have "map note_id after = [''u1'', ''u3'']" unfolding r(3) first .
  with r(1,2) show ?thesis by simp
qed

text \<open>
  Nothing of a collapsed copy is lost: an entry that stays has exactly the tags and the
  linked files of all the copies of its content, and it is active only if no copy was archived.
\<close>
theorem dedupe_unites_copies:
  assumes "wf_store s" and "stored_forms_stable E s" and "all_notes_for_dedup s = Inr before"
    and "dedupe_entity_ids E now False s = (t, Inr sm)" and "all_notes_for_dedup t = Inr after"
    and "n \<in> set after"
  shows "set (note_tags_of n) = (\<Union>m \<in> set (same_content E before n). set (note_tags_of m)) \<and>
    set (note_linked_files n) = (\<Union>m \<in> set (same_content E before n). set (note_linked_files m)) \<and>
    (note_status n = ''active'' \<longrightarrow>
      list_all (\<lambda>m. note_status m \<noteq> ''archived'') (same_content E before n))"
proof -
  have before: "before = snap s" using assms(3) all_notes_snap [OF assms(1)] by simp
  from dedupe_entries [OF assms(1,2), of now] assms(4) have wt: "wf_store t" by auto
  have "after = snap t" using assms(5) all_notes_snap [OF wt] by simp
  with dedupe_entries [OF assms(1,2), of now] assms(4,6) before show ?thesis by auto
qed

theorem dedupe_unites_copies_witness:
  "case dedupe_entity_ids demo_env 9 False copied_notes of (t, Inr sm) \<Rightarrow>
     (case all_notes_for_dedup t of
        Inr (n # after) \<Rightarrow> set (note_tags_of n) = {''x'', ''y''} \<and> set (note_linked_files n) = {''a.rs''} \<and>
          note_status n = ''archived''
      | _ \<Rightarrow> False)
   | (t, Inl _) \<Rightarrow> False"
proof -
  have b: "all_notes_for_dedup copied_notes = Inr (snap copied_notes)"
    by (rule all_notes_snap [OF copied_notes_facts(1)])
  have shape: "case dedupe_entity_ids demo_env 9 False copied_notes of (t, Inr sm) \<Rightarrow>
     (case all_notes_for_dedup t of
        Inr (n # after) \<Rightarrow> note_status n = ''archived'' \<and>
          map note_tags_of (same_content demo_env (snap copied_notes) n) = [[''x''], [''y'']] \<and>
          map note_linked_files (same_content demo_env (snap copied_notes) n) = [[], [''a.rs'']]
      | _ \<Rightarrow> False)
   | (t, Inl _) \<Rightarrow> False" by code_simp
  then obtain t sm n after where
    r: "dedupe_entity_ids demo_env 9 False copied_notes = (t, Inr sm)" "all_notes_for_dedup t = Inr (n # after)"
    by (auto split: prod.splits sum.splits list.splits)
  note u = dedupe_unites_copies [OF copied_notes_facts(1,2) b r, of n]
  have vals: "(\<Union>m \<in> set ms. set (f m)) = set (concat (map f ms))" for f :: "mem_note \<Rightarrow> string list" and ms
    by simp
  from shape u show ?thesis unfolding vals by (simp add: r)
qed

text \<open>
  A dedupe finds nothing to do the second time: it reports no duplicate group and leaves the
  store unchanged.
\<close>
theorem dedupe_idempotent:
  assumes "wf_store s" and "stored_forms_stable E s" and "dedupe_entity_ids E now False s = (t, Inr sm)"
  shows "\<exists>sm'. dedupe_entity_ids E later dry t = (t, Inr sm') \<and> duplicate_groups_found sm' = 0 \<and>
    rows_collapsed sm' = 0"
proof -
  from dedupe_entries [OF assms(1,2), of now] assms(3) have wt: "wf_store t"
    and keys: "map (\<lambda>n. (note_id n, note_entity_id_of E n)) (snap t) =
      keep_first snd (map (\<lambda>n. (note_id n, note_entity_id_of E n)) (snap s))" by auto
  have "map (note_entity_id_of E) (snap t) = map snd (map (\<lambda>n. (note_id n, note_entity_id_of E n)) (snap t))"
    by simp
  then have "distinct (map (note_entity_id_of E) (snap t))" unfolding keys by (simp add: distinct_keep_first)
  then have "groups_of E t = []" by (simp add: groups_of_def no_duplicate_groups)
  then show ?thesis by (simp add: dedupe_steps [OF wt] dedupe_start_def)
qed

theorem dedupe_idempotent_witness:
  "case dedupe_entity_ids demo_env 9 False copied_notes of (t, Inr sm) \<Rightarrow>
     rows_collapsed sm = 1 \<and> fst (dedupe_entity_ids demo_env 10 False t) = t
   | (t, Inl _) \<Rightarrow> False"
proof -
  have one: "case dedupe_entity_ids demo_env 9 False copied_notes of (t, Inr sm) \<Rightarrow> rows_collapsed sm = 1
      | (t, Inl _) \<Rightarrow> False" by code_simp
  then obtain t sm where r: "dedupe_entity_ids demo_env 9 False copied_notes = (t, Inr sm)"
    by (auto split: prod.splits sum.splits)
  from dedupe_idempotent [OF copied_notes_facts(1,2) r, of 10 False] one show ?thesis by (auto simp: r)
qed

text \<open>
  A path that was stored before paths were validated makes a dry run promise what the run
  itself refuses: on such a store the dry run counts a collapsed copy, and the run fails with
  the path's error and leaves the store as it was.
\<close>
theorem dedupe_dry_run_overpromises:
  "(case snd (dedupe_entity_ids demo_env 9 True legacy_copies) of
      Inr sm \<Rightarrow> rows_collapsed sm = 1 \<and> linked_files_merged sm = 1 | Inl _ \<Rightarrow> False) \<and>
   (case snd (dedupe_entity_ids demo_env 9 False legacy_copies) of Inl (BadPath _) \<Rightarrow> True | _ \<Rightarrow> False) \<and>
   fst (dedupe_entity_ids demo_env 9 False legacy_copies) = legacy_copies"
proof -
  have "case snd (dedupe_entity_ids demo_env 9 True legacy_copies) of
      Inr sm \<Rightarrow> rows_collapsed sm = 1 \<and> linked_files_merged sm = 1 | Inl _ \<Rightarrow> False" by code_simp
  moreover have err: "case snd (dedupe_entity_ids demo_env 9 False legacy_copies) of
      Inl (BadPath _) \<Rightarrow> True | _ \<Rightarrow> False" by code_simp
  moreover have "fst (dedupe_entity_ids demo_env 9 False legacy_copies) = legacy_copies"
    using dedupe_atomic err by (cases "dedupe_entity_ids demo_env 9 False legacy_copies")
      (auto split: sum.splits)
  ultimately show ?thesis by blast
qed

text \<open>An edge between entries that touches a copy goes with the copy; it is not moved to the survivor.\<close>

lemma dedupe_drops_edges_of_copies:
  "memory_edges copied_notes \<noteq> [] \<and>
   memory_edges (fst (dedupe_entity_ids demo_env 9 False copied_notes)) = []"
  by code_simp

end
