(* ===== verification/Sync_Client.thy ===== *)
theory Sync_Client
  imports Rust_Str "HOL-Library.Word"
begin

text \<open>
  The client side of the sync protocol: the entries a push carries and the answers it gets
  (\<open>remote/sync.rs\<close>), and the retrying of a request the server sheds with 429
  (\<open>remote/retry.rs\<close>). The HTTP client is outside the program: a request is what it asks for,
  an answer is a transport failure or a status with a body, \<open>None\<close> when the body does not parse.
\<close>

section \<open>Entries and answers\<close>

text \<open>A pushed vector is its list of \<open>f32\<close> bit patterns.\<close>

record batch_push_item =
  bi_id :: "string option"
  bi_kind :: string
  bi_title :: string
  bi_body :: "string option"
  bi_external_id :: string
  bi_source_commit :: "string option"
  bi_vector :: "32 word list option"
  bi_vector_model :: "string option"
  bi_vector_precision :: "string option"

definition PUSHED_VECTOR_PRECISION :: string where
  "PUSHED_VECTOR_PRECISION = ''fp32''"

text \<open>The model tag is the build's model id up to its at sign.\<close>

definition pushed_vector_model_tag :: "string \<Rightarrow> string" where
  "pushed_vector_model_tag model_id = hd (split_on (CHR ''@'') model_id)"

definition maybe_attach_vector ::
    "string \<Rightarrow> bool \<Rightarrow> 32 word list option \<Rightarrow> batch_push_item \<Rightarrow> batch_push_item" where
  "maybe_attach_vector model_id server_accepts_vectors vector item =
     (case (server_accepts_vectors, vector) of
        (True, Some v) \<Rightarrow> item\<lparr>bi_vector := Some v,
          bi_vector_model := Some (pushed_vector_model_tag model_id),
          bi_vector_precision := Some PUSHED_VECTOR_PRECISION\<rparr>
      | _ \<Rightarrow> item)"

record batch_item_result =
  ir_status :: string
  ir_external_id :: "string option"
  ir_id :: "string option"

record batch_push_result =
  created_count :: "32 word"
  skipped_count :: "32 word"
  failed_count :: "32 word"
  item_results :: "batch_item_result list"

record remote_entry =
  re_id :: string
  re_kind :: string
  re_title :: string
  re_body :: "string option"
  re_source_commit :: "string option"
  re_archived_at :: "string option"
  re_created_at :: string

definition is_archived :: "remote_entry \<Rightarrow> bool" where
  "is_archived e = (re_archived_at e \<noteq> None)"

record since_page =
  page_entries :: "remote_entry list"
  page_total :: "int option"

section \<open>What the sync client asks and makes of an answer\<close>

datatype ('h, 'b) http_answer =
    Transport_Failed 'h
  | Answered nat "'b option"

text \<open>\<open>status.is_success()\<close>; the body is \<open>None\<close> when it does not parse.\<close>

definition is_success :: "nat \<Rightarrow> bool" where
  "is_success status = (200 \<le> status \<and> status < 300)"

datatype sync_error = Send_Failed | Http_Status nat | Bad_Body

definition nil_uuid :: string where
  "nil_uuid = ''00000000-0000-0000-0000-000000000000''"

definition MEMORY_SINCE_PULL_LIMIT :: nat where
  "MEMORY_SINCE_PULL_LIMIT = 100"

definition pull_cursor :: "string option \<Rightarrow> string" where
  "pull_cursor since_id = (case since_id of Some c \<Rightarrow> c | None \<Rightarrow> nil_uuid)"

definition pull_since_answer :: "('h, since_page) http_answer \<Rightarrow> sync_error + since_page" where
  "pull_since_answer a = (case a of
     Transport_Failed _ \<Rightarrow> Inl Send_Failed
   | Answered status body \<Rightarrow>
       if status = 404 then Inr \<lparr>page_entries = [], page_total = None\<rparr>
       else if 400 \<le> status \<and> status < 600 then Inl (Http_Status status)
       else (case body of None \<Rightarrow> Inl Bad_Body | Some p \<Rightarrow> Inr p))"

definition push_batch_answer ::
    "batch_push_item list \<Rightarrow> ('h, batch_push_result) http_answer \<Rightarrow> sync_error + batch_push_result" where
  "push_batch_answer entries a =
     (if entries = [] then Inr \<lparr>created_count = 0, skipped_count = 0, failed_count = 0, item_results = []\<rparr>
      else case a of
        Transport_Failed _ \<Rightarrow> Inl Send_Failed
      | Answered status body \<Rightarrow>
          if \<not> is_success status then Inl (Http_Status status)
          else (case body of None \<Rightarrow> Inl Bad_Body | Some r \<Rightarrow> Inr r))"

definition delete_remote_answer :: "('h, unit) http_answer \<Rightarrow> sync_error + unit" where
  "delete_remote_answer a = (case a of
     Transport_Failed _ \<Rightarrow> Inl Send_Failed
   | Answered status _ \<Rightarrow>
       if is_success status \<or> status = 404 then Inr () else Inl (Http_Status status))"

definition edges_applied :: "string list \<Rightarrow> nat" where
  "edges_applied statuses = length (filter (\<lambda>s. s \<in> {''created'', ''applied'', ''updated''}) statuses)"


section \<open>Retrying while the server sheds\<close>

text \<open>
  A \<open>Duration\<close> in nanoseconds; adding two of them panics past the greatest one.
\<close>

definition NANOS :: nat where
  "NANOS = 1000000000"

definition DURATION_MAX :: nat where
  "DURATION_MAX = (2 ^ 64 - 1) * NANOS + 999999999"

definition duration_add :: "nat \<Rightarrow> nat \<Rightarrow> nat option" where
  "duration_add a b = (if a + b \<le> DURATION_MAX then Some (a + b) else None)"

record retry_policy =
  rp_attempts :: nat
  rp_fallback :: nat
  rp_wait_budget :: nat

definition default_retry_policy :: retry_policy where
  "default_retry_policy = \<lparr>rp_attempts = 4, rp_fallback = 5 * NANOS, rp_wait_budget = 60 * NANOS\<rparr>"

text \<open>\<open>parse::<u64>\<close>: an optional plus sign and digits, within the type.\<close>

definition parse_u64 :: "string \<Rightarrow> nat option" where
  "parse_u64 s =
     (let ds = (case s of [] \<Rightarrow> [] | c # cs \<Rightarrow> if c = CHR ''+'' then cs else s);
          v = foldl (\<lambda>acc c. acc * 10 + (of_char c - 48)) 0 ds in
      if ds \<noteq> [] \<and> list_all is_ascii_digit ds \<and> v < 2 ^ 64 then Some v else None)"

definition retry_after :: "string option \<Rightarrow> nat option" where
  "retry_after header = Option.bind header (\<lambda>v. map_option (\<lambda>n. n * NANOS) (parse_u64 (trim v)))"

text \<open>What one send brings: no answer, a 429 with its header, or another answer.\<close>

datatype 'r sent = No_Answer | Shed "string option" | Final 'r

datatype 'r shed_result = Got 'r | Request_Failed | Still_Shed nat | Overflow_Panic

text \<open>
  The loop, over what the \<open>n\<close>-th send would bring; it returns its result with the number of
  sends and the time slept.
\<close>

function retry_loop ::
    "retry_policy \<Rightarrow> (nat \<Rightarrow> 'r sent) \<Rightarrow> nat \<Rightarrow> nat \<Rightarrow> 'r shed_result \<times> nat \<times> nat" where
  "retry_loop policy send attempt slept =
     (case send attempt of
        No_Answer \<Rightarrow> (Request_Failed, attempt, slept)
      | Final r \<Rightarrow> (Got r, attempt, slept)
      | Shed header \<Rightarrow>
          (let wait = (case retry_after header of Some w \<Rightarrow> w | None \<Rightarrow> rp_fallback policy) in
           if attempt \<ge> rp_attempts policy then (Still_Shed attempt, attempt, slept)
           else (case duration_add slept wait of
               None \<Rightarrow> (Overflow_Panic, attempt, slept)
             | Some waited \<Rightarrow>
                 if waited > rp_wait_budget policy then (Still_Shed attempt, attempt, slept)
                 else retry_loop policy send (Suc attempt) waited)))"
  by pat_completeness auto
termination
  by (relation "measure (\<lambda>(policy, _, attempt, _). rp_attempts policy - attempt)")
    (auto simp: not_le)

declare retry_loop.simps [simp del]

definition send_retrying_while_shed ::
    "retry_policy \<Rightarrow> (nat \<Rightarrow> 'r sent) \<Rightarrow> 'r shed_result \<times> nat \<times> nat" where
  "send_retrying_while_shed policy send = retry_loop policy send 1 0"

lemma retry_loop_bounds:
  assumes "slept \<le> rp_wait_budget policy" and "retry_loop policy send attempt slept = (r, n, waited)"
  shows "attempt \<le> n \<and> n \<le> max attempt (rp_attempts policy) \<and> waited \<le> rp_wait_budget policy \<and>
    (\<forall>i \<ge> attempt. i < n \<longrightarrow> (\<exists>h. send i = Shed h)) \<and>
    (case r of Got x \<Rightarrow> send n = Final x | Request_Failed \<Rightarrow> send n = No_Answer
     | _ \<Rightarrow> (\<exists>h. send n = Shed h))"
  using assms
proof (induction policy send attempt slept rule: retry_loop.induct)
  case (1 policy send attempt slept)
  show ?case
  proof (cases "send attempt")
    case (Shed header)
    let ?w = "case retry_after header of Some w \<Rightarrow> w | None \<Rightarrow> rp_fallback policy"
    show ?thesis
    proof (cases "attempt < rp_attempts policy \<and>
        (\<exists>t. duration_add slept ?w = Some t \<and> t \<le> rp_wait_budget policy)")
      case True
      then obtain t where t: "attempt < rp_attempts policy" "duration_add slept ?w = Some t"
        "t \<le> rp_wait_budget policy" by blast
      have run: "retry_loop policy send (Suc attempt) t = (r, n, waited)"
        using "1.prems"(2) Shed t by (simp add: retry_loop.simps [of policy send attempt slept] Let_def)
      have "Suc attempt \<le> n \<and> n \<le> max (Suc attempt) (rp_attempts policy) \<and> waited \<le> rp_wait_budget policy \<and>
          (\<forall>i \<ge> Suc attempt. i < n \<longrightarrow> (\<exists>h. send i = Shed h)) \<and>
          (case r of Got x \<Rightarrow> send n = Final x | Request_Failed \<Rightarrow> send n = No_Answer
           | _ \<Rightarrow> (\<exists>h. send n = Shed h))"
        by (rule "1.IH" [OF Shed refl _ t(2) _ t(3) run]) (use t in auto)
      with t(1) Shed show ?thesis by (auto simp: le_Suc_eq not_less_eq_eq Suc_le_eq dest: le_neq_implies_less)
    next
      case False
      with "1.prems" Shed show ?thesis
        by (auto simp: retry_loop.simps [of policy send attempt slept] Let_def not_le
            split: if_splits option.splits)
    qed
  qed (use "1.prems" in \<open>auto simp: retry_loop.simps [of policy send attempt slept]\<close>)
qed


text \<open>When the server asks for waits that fit, the loop ends with the first answer that is not a 429.\<close>

definition asked_wait :: "retry_policy \<Rightarrow> 'r sent \<Rightarrow> nat" where
  "asked_wait policy a = (case a of
     Shed header \<Rightarrow> (case retry_after header of Some w \<Rightarrow> w | None \<Rightarrow> rp_fallback policy)
   | _ \<Rightarrow> 0)"

lemma retry_loop_reaches:
  assumes "attempt \<le> k" and "k \<le> rp_attempts policy" and "send k = Final x"
    and "\<forall>i \<ge> attempt. i < k \<longrightarrow> (\<exists>h. send i = Shed h)"
    and "slept + (\<Sum>i = attempt..<k. asked_wait policy (send i)) \<le> rp_wait_budget policy"
    and "rp_wait_budget policy \<le> DURATION_MAX"
  shows "retry_loop policy send attempt slept =
    (Got x, k, slept + (\<Sum>i = attempt..<k. asked_wait policy (send i)))"
  using assms(1,4,5)
proof (induction "k - attempt" arbitrary: attempt slept)
  case 0
  then have "attempt = k" by simp
  with assms(3) show ?case by (simp add: retry_loop.simps)
next
  case (Suc d)
  then have lt: "attempt < k" by simp
  with Suc.prems(2) obtain h where h: "send attempt = Shed h" by blast
  let ?w = "asked_wait policy (send attempt)"
  have sum: "(\<Sum>i = attempt..<k. asked_wait policy (send i)) =
      ?w + (\<Sum>i = Suc attempt..<k. asked_wait policy (send i))"
    using lt by (simp add: sum.atLeast_Suc_lessThan)
  with Suc.prems(3) have fits: "slept + ?w + (\<Sum>i = Suc attempt..<k. asked_wait policy (send i)) \<le> rp_wait_budget policy"
    by simp
  then have "duration_add slept ?w = Some (slept + ?w)" "slept + ?w \<le> rp_wait_budget policy"
    using assms(6) by (simp_all add: duration_add_def)
  with h lt assms(2) have "retry_loop policy send attempt slept = retry_loop policy send (Suc attempt) (slept + ?w)"
    by (simp add: retry_loop.simps [of policy send attempt slept] asked_wait_def)
  also have "\<dots> = (Got x, k, slept + ?w + (\<Sum>i = Suc attempt..<k. asked_wait policy (send i)))"
    by (rule Suc.hyps(1)) (use Suc.hyps(2) Suc.prems lt fits in auto)
  finally show ?case using sum by simp
qed

lemma default_budget_fits: "rp_wait_budget default_retry_policy \<le> DURATION_MAX"
  by (simp add: default_retry_policy_def DURATION_MAX_def NANOS_def)

section \<open>Properties\<close>

text \<open>
  C24. A shed request is retried within bounds: it always ends, after at most four sends and sixty
  seconds of sleep, a 429 is never handed to the caller, only 429s are retried, and when a send
  within the bounds is answered otherwise that answer is what the caller gets.
\<close>
theorem retrying_is_bounded:
  "(case send_retrying_while_shed default_retry_policy send of (r, n, slept) \<Rightarrow>
      1 \<le> n \<and> n \<le> 4 \<and> slept \<le> 60 * NANOS \<and> (\<forall>i \<ge> 1. i < n \<longrightarrow> (\<exists>h. send i = Shed h)) \<and>
      (case r of Got x \<Rightarrow> send n = Final x | Request_Failed \<Rightarrow> send n = No_Answer
       | _ \<Rightarrow> (\<exists>h. send n = Shed h))) \<and>
   (\<forall>k x. 1 \<le> k \<and> k \<le> 4 \<and> send k = Final x \<and> (\<forall>i \<ge> 1. i < k \<longrightarrow> (\<exists>h. send i = Shed h)) \<and>
      (\<Sum>i = 1..<k. asked_wait default_retry_policy (send i)) \<le> 60 * NANOS \<longrightarrow>
      fst (send_retrying_while_shed default_retry_policy send) = Got x)"
proof (intro conjI allI impI)
  obtain r n w where run: "retry_loop default_retry_policy send 1 0 = (r, n, w)" by (metis prod_cases3)
  from retry_loop_bounds [OF _ run] run
  show "case send_retrying_while_shed default_retry_policy send of (r, n, slept) \<Rightarrow>
      1 \<le> n \<and> n \<le> 4 \<and> slept \<le> 60 * NANOS \<and> (\<forall>i \<ge> 1. i < n \<longrightarrow> (\<exists>h. send i = Shed h)) \<and>
      (case r of Got x \<Rightarrow> send n = Final x | Request_Failed \<Rightarrow> send n = No_Answer
       | _ \<Rightarrow> (\<exists>h. send n = Shed h))"
    by (simp add: send_retrying_while_shed_def default_retry_policy_def)
next
  fix k x
  assume k: "1 \<le> k \<and> k \<le> 4 \<and> send k = Final x \<and> (\<forall>i \<ge> 1. i < k \<longrightarrow> (\<exists>h. send i = Shed h)) \<and>
      (\<Sum>i = 1..<k. asked_wait default_retry_policy (send i)) \<le> 60 * NANOS"
  have "retry_loop default_retry_policy send 1 0 =
      (Got x, k, 0 + (\<Sum>i = 1..<k. asked_wait default_retry_policy (send i)))"
    by (rule retry_loop_reaches) (use k default_budget_fits in \<open>simp_all add: default_retry_policy_def\<close>)
  then show "fst (send_retrying_while_shed default_retry_policy send) = Got x"
    by (simp add: send_retrying_while_shed_def)
qed

theorem retrying_is_bounded_witness:
  "fst (send_retrying_while_shed default_retry_policy
      (\<lambda>n. if n < 4 then Shed None else Final (207 :: nat))) = Got 207"
proof -
  let ?send = "\<lambda>n :: nat. if n < 4 then Shed None else Final (207 :: nat)"
  have "(\<Sum>i = 1..<4. asked_wait default_retry_policy (?send i)) = (\<Sum>i = 1..<(4 :: nat). 5 * NANOS)"
    by (rule sum.cong) (simp_all add: asked_wait_def retry_after_def default_retry_policy_def)
  then have "(\<Sum>i = 1..<4. asked_wait default_retry_policy (?send i)) \<le> 60 * NANOS" by simp
  with conjunct2 [OF retrying_is_bounded [of ?send], rule_format, of 4 207] show ?thesis by simp
qed

text \<open>
  The wait comes from a header the server controls, and adding it to the time slept is not
  checked: after one ordinary 429 a second one that asks for the greatest number of seconds makes
  the client panic instead of giving up.
\<close>
theorem retry_after_overflow_panics:
  "fst (send_retrying_while_shed default_retry_policy
      (\<lambda>n. if n = 1 then Shed (Some ''1'') else Shed (Some ''18446744073709551615''))) = Overflow_Panic"
proof -
  have one: "retry_after (Some ''1'') = Some NANOS" and most: "retry_after (Some ''18446744073709551615'') =
      Some (18446744073709551615 * NANOS)"
    by (simp_all add: retry_after_def parse_u64_def trim_def trim_start_def trim_end_def is_ws_def is_ascii_digit_def)
  show ?thesis
    by (simp add: send_retrying_while_shed_def retry_loop.simps [of _ _ "Suc 0"] retry_loop.simps [of _ _ "Suc (Suc 0)"]
        one most duration_add_def default_retry_policy_def Let_def)
      (simp add: DURATION_MAX_def NANOS_def)
qed

end
