(* ===== verification/Relay.thy ===== *)
theory Relay
  imports Interfaces Sync_Client "HOL-Library.AList"
begin

text \<open>
  One session of the local relay (\<open>relay/mod.rs\<close> of the server). A session buffers what the team
  server answered to a push and what it pulled, both keyed by identity, until the CLI
  acknowledges that it applied them. Every critical section under the session's mutex is one
  operation here; a request to the team server and the handling of its answer are two. A hash map
  is an association list with distinct keys.
\<close>

section \<open>Session state\<close>

record relay_push_entry =
  pe_kind :: string
  pe_title :: string
  pe_body :: "string option"
  pe_external_id :: string
  pe_source_commit :: "string option"

definition batch_item_of_relay :: "relay_push_entry \<Rightarrow> batch_push_item" where
  "batch_item_of_relay e =
     \<lparr>bi_id = None, bi_kind = pe_kind e, bi_title = pe_title e, bi_body = pe_body e,
      bi_external_id = pe_external_id e, bi_source_commit = pe_source_commit e,
      bi_vector = None, bi_vector_model = None, bi_vector_precision = None\<rparr>"

record relay_push_result =
  pr_external_id :: string
  pr_remote_id :: "string option"
  pr_status :: string

record relay_pulled_entry =
  pu_remote_id :: string
  pu_kind :: string
  pu_title :: string
  pu_body :: "string option"
  pu_source_commit :: "string option"
  pu_created_at :: string
  pu_archived :: bool

definition pulled_of_remote :: "remote_entry \<Rightarrow> relay_pulled_entry" where
  "pulled_of_remote e =
     \<lparr>pu_remote_id = re_id e, pu_kind = re_kind e, pu_title = re_title e, pu_body = re_body e,
      pu_source_commit = re_source_commit e, pu_created_at = re_created_at e,
      pu_archived = is_archived e\<rparr>"

record relay_poll_response =
  poll_push_results :: "relay_push_result list"
  poll_pulled :: "relay_pulled_entry list"
  poll_last_synced_at :: "int option"
  poll_last_error :: "string option"

definition empty_poll_response :: relay_poll_response where
  "empty_poll_response = \<lparr>poll_push_results = [], poll_pulled = [], poll_last_synced_at = None,
     poll_last_error = None\<rparr>"

definition MAX_BUFFERED_ITEMS_PER_SESSION :: nat where
  "MAX_BUFFERED_ITEMS_PER_SESSION = 10000"

definition MAX_RELAY_SESSIONS :: nat where
  "MAX_RELAY_SESSIONS = 32"

text \<open>Seconds; the monotonic clock is an integer.\<close>

definition SESSION_IDLE_TIMEOUT :: int where
  "SESSION_IDLE_TIMEOUT = 30 * 60"

datatype relay_error = Remote_Hop_Failed | Push_Buffer_Full | Pull_Buffer_Full

record relay_inner =
  bearer :: "string option"
  cursor :: "string option"
  last_event_id :: "string option"
  push_results :: "(string \<times> relay_push_result) list"
  pulled :: "(string \<times> relay_pulled_entry) list"
  last_synced_at :: "int option"
  last_error :: "relay_error option"
  pull_task_started :: bool
  last_seen :: int

definition relay_inner_new :: "int \<Rightarrow> relay_inner" where
  "relay_inner_new now = \<lparr>bearer = None, cursor = None, last_event_id = None, push_results = [],
     pulled = [], last_synced_at = None, last_error = None, pull_task_started = False,
     last_seen = now\<rparr>"

section \<open>Operations\<close>

definition touch :: "int \<Rightarrow> relay_inner \<Rightarrow> relay_inner" where
  "touch now s = s\<lparr>last_seen := now\<rparr>"

definition idle_for :: "int \<Rightarrow> relay_inner \<Rightarrow> int" where
  "idle_for now s = max 0 (now - last_seen s)"

definition set_bearer :: "string option \<Rightarrow> relay_inner \<Rightarrow> relay_inner" where
  "set_bearer b s = (if b \<noteq> None then s\<lparr>bearer := b\<rparr> else s)"

definition seed_cursor :: "string option \<Rightarrow> relay_inner \<Rightarrow> relay_inner" where
  "seed_cursor since_cursor s = (case since_cursor of
     None \<Rightarrow> s
   | Some c \<Rightarrow> if (case cursor s of None \<Rightarrow> [] | Some d \<Rightarrow> d) < c then s\<lparr>cursor := Some c\<rparr> else s)"

definition record_error :: "relay_inner \<Rightarrow> relay_inner" where
  "record_error s = s\<lparr>last_error := Some Remote_Hop_Failed\<rparr>"

text \<open>The entries of a hash map slot: kept or replaced when occupied, refused when new and full.\<close>

definition buffer_offer ::
    "('v \<Rightarrow> 'v \<Rightarrow> 'v) \<Rightarrow> 'k \<Rightarrow> 'v \<Rightarrow> ('k \<times> 'v) list \<Rightarrow> ('k \<times> 'v) list \<times> bool" where
  "buffer_offer merge k v b = (case map_of b k of
     Some old \<Rightarrow> (AList.update k (merge old v) b, False)
   | None \<Rightarrow> if length b \<ge> MAX_BUFFERED_ITEMS_PER_SESSION then (b, True)
             else (AList.update k v b, False))"

text \<open>A later result never takes a known remote id away.\<close>

definition newer_push_result :: "relay_push_result \<Rightarrow> relay_push_result \<Rightarrow> relay_push_result" where
  "newer_push_result old new =
     (if pr_remote_id new \<noteq> None \<or> pr_remote_id old = None then new else old)"

definition keep_old :: "'v \<Rightarrow> 'v \<Rightarrow> 'v" where
  "keep_old old new = old"

definition durably_persisted :: "string \<Rightarrow> bool" where
  "durably_persisted status = (status = ''created'' \<or> status = ''skipped'')"

definition push_result_step ::
    "batch_item_result \<Rightarrow> (string \<times> relay_push_result) list \<times> bool \<Rightarrow>
     (string \<times> relay_push_result) list \<times> bool" where
  "push_result_step r acc = (case ir_external_id r of
     None \<Rightarrow> acc
   | Some x \<Rightarrow>
       if \<not> durably_persisted (ir_status r) then acc
       else (case buffer_offer newer_push_result x
                 \<lparr>pr_external_id = x, pr_remote_id = ir_id r, pr_status = ir_status r\<rparr> (fst acc) of
          (b, full) \<Rightarrow> (b, snd acc \<or> full)))"

text \<open>What a push sends: nothing at all without entries.\<close>

definition push_request :: "relay_push_entry list \<Rightarrow> batch_push_item list option" where
  "push_request entries = (if entries = [] then None else Some (map batch_item_of_relay entries))"

definition push_done :: "int \<Rightarrow> sync_error + batch_push_result \<Rightarrow> relay_inner \<Rightarrow> relay_inner" where
  "push_done now answer s = (case answer of
     Inl _ \<Rightarrow> record_error s
   | Inr res \<Rightarrow> (case fold push_result_step (item_results res) (push_results s, False) of
       (b, full) \<Rightarrow> s\<lparr>push_results := b, last_synced_at := Some now,
         last_error := (if full then Some Push_Buffer_Full else None)\<rparr>))"

text \<open>The loop over a page, which stops at the first entry the buffer refuses.\<close>

fun catch_up_loop :: "remote_entry list \<Rightarrow> relay_inner \<Rightarrow> relay_inner \<times> bool" where
  "catch_up_loop [] s = (s, False)"
| "catch_up_loop (e # es) s =
     (case buffer_offer keep_old (re_id e) (pulled_of_remote e) (pulled s) of
        (b, True) \<Rightarrow> (s, True)
      | (b, False) \<Rightarrow> catch_up_loop es
          (s\<lparr>pulled := b, cursor := (if cursor s < Some (re_id e) then Some (re_id e) else cursor s)\<rparr>))"

definition catch_up_done :: "int \<Rightarrow> sync_error + since_page \<Rightarrow> relay_inner \<Rightarrow> relay_inner" where
  "catch_up_done now answer s = (case answer of
     Inl _ \<Rightarrow> record_error s
   | Inr page \<Rightarrow>
       if page_entries page = [] then s
       else (case catch_up_loop (page_entries page) s of
         (t, full) \<Rightarrow> t\<lparr>last_synced_at := Some now,
           last_error := (if full then Some Pull_Buffer_Full else None)\<rparr>))"

definition error_text :: "relay_error \<Rightarrow> string" where
  "error_text e = (case e of
     Remote_Hop_Failed \<Rightarrow>
       ''sync with the configured team server failed; see `inkentry server logs` for details''
   | Push_Buffer_Full \<Rightarrow>
       ''local relay push-result buffer is full (10000 unconfirmed rows); waiting for the CLI to poll and confirm before buffering more''
   | Pull_Buffer_Full \<Rightarrow>
       ''local relay pulled-entry buffer is full (10000 unconfirmed rows); waiting for the CLI to poll and confirm before fetching further'')"

definition session_poll :: "relay_inner \<Rightarrow> relay_poll_response" where
  "session_poll s = \<lparr>poll_push_results = map snd (push_results s), poll_pulled = map snd (pulled s),
     poll_last_synced_at = last_synced_at s, poll_last_error = map_option error_text (last_error s)\<rparr>"

definition session_ack :: "string list \<Rightarrow> string list \<Rightarrow> relay_inner \<Rightarrow> relay_inner" where
  "session_ack push_ids pull_ids s =
     s\<lparr>push_results := fold AList.delete push_ids (push_results s),
       pulled := fold AList.delete pull_ids (pulled s)\<rparr>"

section \<open>The buffers\<close>

definition distinct_keys :: "('k \<times> 'v) list \<Rightarrow> bool" where
  "distinct_keys b = distinct (map fst b)"

lemma length_update: "length (AList.update k v b) = (if map_of b k = None then Suc (length b) else length b)"
  by (induction b) auto

lemma buffer_laws:
  fixes merge :: "'v \<Rightarrow> 'v \<Rightarrow> 'v"
  shows "acked_buffer (distinct_keys :: ('k \<times> 'v) list \<Rightarrow> bool) map_of length
    MAX_BUFFERED_ITEMS_PER_SESSION (buffer_offer merge) AList.delete"
proof unfold_locales
  fix b :: "('k \<times> 'v) list" and k k' :: 'k and v :: 'v
  show "distinct_keys b \<Longrightarrow> distinct_keys (fst (buffer_offer merge k v b))"
    by (auto simp: distinct_keys_def buffer_offer_def distinct_update split: option.splits)
  show "distinct_keys b \<Longrightarrow> distinct_keys (AList.delete k b)"
    by (simp add: distinct_keys_def distinct_delete)
  show "length b \<le> MAX_BUFFERED_ITEMS_PER_SESSION \<Longrightarrow>
      length (fst (buffer_offer merge k v b)) \<le> MAX_BUFFERED_ITEMS_PER_SESSION"
    by (auto simp: buffer_offer_def length_update split: option.splits)
  show "length (AList.delete k b) \<le> length b" by (rule length_delete_le)
  show "k' \<noteq> k \<Longrightarrow> map_of (fst (buffer_offer merge k v b)) k' = map_of b k'"
    by (auto simp: buffer_offer_def update_conv' split: option.splits)
  show "\<not> snd (buffer_offer merge k v b) \<Longrightarrow> map_of (fst (buffer_offer merge k v b)) k \<noteq> None"
    by (auto simp: buffer_offer_def update_conv' split: option.splits if_splits)
  show "snd (buffer_offer merge k v b) \<Longrightarrow> fst (buffer_offer merge k v b) = b \<and> map_of b k = None \<and>
      MAX_BUFFERED_ITEMS_PER_SESSION \<le> length b"
    by (auto simp: buffer_offer_def split: option.splits if_splits)
  show "map_of (AList.delete k b) k' = (if k' = k then None else map_of b k')"
    by (simp add: delete_conv')
qed

interpretation push_buffer: acked_buffer distinct_keys map_of length MAX_BUFFERED_ITEMS_PER_SESSION
    "buffer_offer newer_push_result" AList.delete
  by (rule buffer_laws)

interpretation pull_buffer: acked_buffer distinct_keys map_of length MAX_BUFFERED_ITEMS_PER_SESSION
    "buffer_offer keep_old" AList.delete
  by (rule buffer_laws)

end
