(* ===== verification/Transport.thy ===== *)
theory Transport
  imports Rust_Str
begin

text \<open>
  Which server URLs may carry memory and a bearer token (\<open>config/predicates.rs\<close>), the client
  address a request is attributed to (\<open>client_ip.rs\<close> of the server), and the parsing of IP
  addresses by the standard library that both rest on.
\<close>

section \<open>Addresses\<close>

datatype ip_addr = V4 int int int int | V6 "int list"

definition to_digit :: "int \<Rightarrow> char \<Rightarrow> int option" where
  "to_digit radix c =
     (let n = (of_char c :: int);
          d = (if 48 \<le> n \<and> n \<le> 57 then n - 48
               else if 97 \<le> n \<and> n \<le> 122 then n - 87
               else if 65 \<le> n \<and> n \<le> 90 then n - 55 else 99)
      in if d < radix then Some d else None)"

text \<open>
  \<open>Parser::read_number\<close>: a run of digits, too many of them or a refused leading zero fail; the
  limit is the range of the target type.
\<close>

definition read_number :: "int \<Rightarrow> nat \<Rightarrow> bool \<Rightarrow> int \<Rightarrow> string \<Rightarrow> (int \<times> string) option" where
  "read_number radix max_digits allow_zero_prefix limit s =
     (let ds = takeWhile (\<lambda>c. to_digit radix c \<noteq> None) s;
          v = foldl (\<lambda>acc c. acc * radix + the (to_digit radix c)) 0 ds in
      if ds = [] \<or> length ds > max_digits \<or> (\<not> allow_zero_prefix \<and> hd ds = CHR ''0'' \<and> length ds > 1) \<or> v \<ge> limit
      then None else Some (v, drop (length ds) s))"

definition read_given_char :: "char \<Rightarrow> string \<Rightarrow> string option" where
  "read_given_char c s = (case s of [] \<Rightarrow> None | d # ds \<Rightarrow> if d = c then Some ds else None)"

definition read_separator ::
    "char \<Rightarrow> nat \<Rightarrow> (string \<Rightarrow> ('a \<times> string) option) \<Rightarrow> string \<Rightarrow> ('a \<times> string) option" where
  "read_separator c i p s = (if i = 0 then p s else Option.bind (read_given_char c s) p)"

definition read_octet :: "nat \<Rightarrow> string \<Rightarrow> (int \<times> string) option" where
  "read_octet i = read_separator (CHR ''.'') i (read_number 10 3 False 256)"

definition read_ipv4 :: "string \<Rightarrow> ((int \<times> int \<times> int \<times> int) \<times> string) option" where
  "read_ipv4 s =
     Option.bind (read_octet 0 s) (\<lambda>(a, s). Option.bind (read_octet 1 s) (\<lambda>(b, s).
     Option.bind (read_octet 2 s) (\<lambda>(c, s). Option.bind (read_octet 3 s) (\<lambda>(d, s).
       Some ((a, b, c, d), s)))))"

text \<open>
  \<open>read_groups\<close> of at most \<open>n\<close> groups from index \<open>i\<close> on: the groups, whether the last two come
  from an embedded IPv4 address, and the rest of the text.
\<close>

fun read_groups :: "nat \<Rightarrow> nat \<Rightarrow> string \<Rightarrow> int list \<times> bool \<times> string" where
  "read_groups 0 i s = ([], False, s)"
| "read_groups (Suc n) i s =
     (case (if n > 0 then read_separator (CHR '':'') i read_ipv4 s else None) of
        Some ((a, b, c, d), s') \<Rightarrow> ([a * 256 + b, c * 256 + d], True, s')
      | None \<Rightarrow> (case read_separator (CHR '':'') i (read_number 16 4 True 65536) s of
          None \<Rightarrow> ([], False, s)
        | Some (g, s') \<Rightarrow> (case read_groups n (Suc i) s' of (gs, v4, s'') \<Rightarrow> (g # gs, v4, s''))))"

definition read_ipv6 :: "string \<Rightarrow> (int list \<times> string) option" where
  "read_ipv6 s = (case read_groups 8 0 s of (hs, v4, s1) \<Rightarrow>
     if length hs = 8 then Some (hs, s1)
     else if v4 then None
     else Option.bind (Option.bind (read_given_char (CHR '':'') s1) (read_given_char (CHR '':''))) (\<lambda>s2.
       case read_groups (7 - length hs) 0 s2 of (ts, _, s3) \<Rightarrow>
         Some (hs @ replicate (8 - length hs - length ts) 0 @ ts, s3)))"

text \<open>\<open>FromStr\<close> of the three types: the whole text must be read.\<close>

definition whole :: "('a \<times> string) option \<Rightarrow> 'a option" where
  "whole r = (case r of Some (x, []) \<Rightarrow> Some x | _ \<Rightarrow> None)"

definition parse_ipv4 :: "string \<Rightarrow> ip_addr option" where
  "parse_ipv4 s = (if length s > 15 then None else map_option (\<lambda>(a, b, c, d). V4 a b c d) (whole (read_ipv4 s)))"

definition parse_ipv6 :: "string \<Rightarrow> ip_addr option" where
  "parse_ipv6 s = map_option V6 (whole (read_ipv6 s))"

definition parse_ip :: "string \<Rightarrow> ip_addr option" where
  "parse_ip s = (case read_ipv4 s of
     Some ((a, b, c, d), r) \<Rightarrow> if r = [] then Some (V4 a b c d) else None
   | None \<Rightarrow> parse_ipv6 s)"

fun ip_is_loopback :: "ip_addr \<Rightarrow> bool" where
  "ip_is_loopback (V4 a b c d) = (a = 127)"
| "ip_is_loopback (V6 gs) = (gs = [0, 0, 0, 0, 0, 0, 0, 1])"

fun to_canonical :: "ip_addr \<Rightarrow> ip_addr" where
  "to_canonical (V6 gs) =
     (if length gs = 8 \<and> take 6 gs = [0, 0, 0, 0, 0, 65535]
      then V4 (gs ! 6 div 256) (gs ! 6 mod 256) (gs ! 7 div 256) (gs ! 7 mod 256) else V6 gs)"
| "to_canonical (V4 a b c d) = V4 a b c d"

section \<open>The transport check\<close>

definition host_is_loopback :: "string \<Rightarrow> bool" where
  "host_is_loopback host =
     (if host = ''localhost'' then True
      else case parse_ipv4 host of
        Some v4 \<Rightarrow> ip_is_loopback v4
      | None \<Rightarrow> (case parse_ipv6 host of Some v6 \<Rightarrow> ip_is_loopback v6 | None \<Rightarrow> False))"

definition url_rest :: "string \<Rightarrow> string" where
  "url_rest url = (case strip_prefix ''http://'' url of
     Some r \<Rightarrow> r
   | None \<Rightarrow> (case strip_prefix ''https://'' url of Some r \<Rightarrow> r | None \<Rightarrow> url))"

definition ends_authority :: "char \<Rightarrow> bool" where
  "ends_authority c = (c \<in> {CHR ''/'', CHR ''?'', CHR ''#'', CHR 0x5C})"

text \<open>\<open>rfind('@')\<close>: what follows the last one.\<close>

definition after_last :: "char \<Rightarrow> string \<Rightarrow> string" where
  "after_last c s = rev (takeWhile (\<lambda>d. d \<noteq> c) (rev s))"

definition url_host :: "string \<Rightarrow> string" where
  "url_host url =
     (let authority = takeWhile (\<lambda>c. \<not> ends_authority c) (url_rest url);
          host_port = after_last (CHR ''@'') authority in
      case strip_prefix ''['' host_port of
        Some after_bracket \<Rightarrow> hd (split_on (CHR '']'') after_bracket)
      | None \<Rightarrow> if length (filter (\<lambda>c. c = CHR '':'') host_port) > 1 then host_port
                else hd (split_on (CHR '':'') host_port))"

definition is_loopback_url :: "string \<Rightarrow> bool" where
  "is_loopback_url url = host_is_loopback (url_host url)"

datatype transport_error = PlaintextToRemote string | NotHttp string

definition validate_transport_url :: "string \<Rightarrow> transport_error + unit" where
  "validate_transport_url url =
     (if starts_with url ''https://'' then Inr ()
      else if starts_with url ''http://'' then
        (if is_loopback_url url then Inr () else Inl (PlaintextToRemote url))
      else Inl (NotHttp url))"

text \<open>The daemon's own bind host, where the name compares without case (\<open>lib.rs\<close> of the server).\<close>

definition bind_host_is_loopback :: "string \<Rightarrow> bool" where
  "bind_host_is_loopback host =
     (let h = trim host in
      if to_ascii_lowercase h = ''localhost'' then True
      else case parse_ip h of Some ip \<Rightarrow> ip_is_loopback ip | None \<Rightarrow> False)"

section \<open>The client's address\<close>

type_synonym trusted_proxies = "ip_addr list"

definition trusted_proxies_new :: "ip_addr list \<Rightarrow> trusted_proxies" where
  "trusted_proxies_new addrs = map to_canonical addrs"

definition trusts :: "trusted_proxies \<Rightarrow> ip_addr \<Rightarrow> bool" where
  "trusts tp peer = (to_canonical peer \<in> set tp)"

text \<open>The value of the \<open>X-Forwarded-For\<close> header, \<open>None\<close> when it is absent or not text.\<close>

definition forwarded_client_ip :: "string option \<Rightarrow> ip_addr option" where
  "forwarded_client_ip header =
     Option.bind header (\<lambda>v. parse_ip (trim (last (split_on (CHR '','') v))))"

text \<open>The key is the text of an address, which is one for one with the address.\<close>

datatype client_key = Address ip_addr | Unknown

definition client_ip_key :: "string option \<Rightarrow> ip_addr option \<Rightarrow> trusted_proxies \<Rightarrow> client_key" where
  "client_ip_key header peer trusted =
     (case (case peer of
              Some p \<Rightarrow> if trusts trusted p then forwarded_client_ip header else None
            | None \<Rightarrow> None) of
        Some forwarded \<Rightarrow> Address (to_canonical forwarded)
      | None \<Rightarrow> (case peer of Some p \<Rightarrow> Address (to_canonical p) | None \<Rightarrow> Unknown))"


section \<open>Decoration around a host\<close>

lemma after_last_none: "c \<notin> set s \<Longrightarrow> after_last c s = s"
proof -
  assume "c \<notin> set s"
  then have "takeWhile (\<lambda>d. d \<noteq> c) (rev s) = rev s" by (auto simp: takeWhile_eq_all_conv)
  then show ?thesis unfolding after_last_def by (simp only: rev_rev_ident)
qed

lemma after_last_sep: "c \<notin> set s \<Longrightarrow> after_last c (u @ c # s) = s"
proof -
  assume "c \<notin> set s"
  then have "takeWhile (\<lambda>d. d \<noteq> c) (rev s @ c # rev u) = rev s"
    by (subst takeWhile_append2) auto
  then show ?thesis by (simp add: after_last_def)
qed

lemma takeWhile_until: "\<forall>c \<in> set a. P c \<Longrightarrow> r = [] \<or> \<not> P (hd r) \<Longrightarrow> takeWhile P (a @ r) = a"
  by (induction a) (cases r; simp)+

text \<open>
  The host part as it is written: bare, or in brackets. A bare host has no bracket, colon or at
  sign; a bracketed one no closing bracket or at sign. The port part is empty or a colon and a
  text without these.
\<close>

definition host_part :: "bool \<Rightarrow> string \<Rightarrow> string" where
  "host_part bracketed h = (if bracketed then ''['' @ h @ '']'' else h)"

definition plain_host :: "bool \<Rightarrow> string \<Rightarrow> bool" where
  "plain_host bracketed h = (list_all (\<lambda>c. \<not> ends_authority c \<and> c \<noteq> CHR ''@'') h \<and>
     (if bracketed then CHR '']'' \<notin> set h else CHR '':'' \<notin> set h \<and> CHR ''['' \<notin> set h))"

definition port_part :: "string \<Rightarrow> bool" where
  "port_part p = (p = [] \<or> (hd p = CHR '':'' \<and>
     list_all (\<lambda>c. \<not> ends_authority c \<and> c \<noteq> CHR ''@'' \<and> c \<noteq> CHR '':'') (tl p)))"

definition user_part :: "string \<Rightarrow> bool" where
  "user_part u = (u = [] \<or> (last u = CHR ''@'' \<and> list_all (\<lambda>c. \<not> ends_authority c) u))"

definition path_part :: "string \<Rightarrow> bool" where
  "path_part r = (r = [] \<or> ends_authority (hd r))"

lemma not_ends_authority:
  "\<not> ends_authority (CHR ''['')" "\<not> ends_authority (CHR '']'')" "\<not> ends_authority (CHR '':'')"
  by code_simp+

lemma url_host_parts:
  assumes "plain_host bracketed h" and "port_part p" and "user_part u" and "path_part r"
  shows "url_host (''http://'' @ u @ host_part bracketed h @ p @ r) = h"
proof -
  let ?hp = "host_part bracketed h @ p"
  have "\<forall>c \<in> set (host_part bracketed h). \<not> ends_authority c"
    using assms(1) by (simp add: plain_host_def host_part_def list_all_iff not_ends_authority)
  moreover have "\<forall>c \<in> set p. \<not> ends_authority c"
    using assms(2) by (cases p) (simp_all add: port_part_def list_all_iff not_ends_authority)
  moreover have "\<forall>c \<in> set u. \<not> ends_authority c"
    using assms(3) by (auto simp: user_part_def list_all_iff)
  ultimately have clean: "\<forall>c \<in> set (u @ ?hp). \<not> ends_authority c" by auto
  have "strip_prefix ''http://'' (''http://'' @ u @ host_part bracketed h @ p @ r) = Some ((u @ ?hp) @ r)"
    by (simp add: strip_prefix_Some)
  then have auth: "takeWhile (\<lambda>c. \<not> ends_authority c)
      (url_rest (''http://'' @ u @ host_part bracketed h @ p @ r)) = u @ ?hp"
    using takeWhile_until [OF clean, of r] assms(4) by (simp add: url_rest_def path_part_def)
  have no_at: "CHR ''@'' \<notin> set ?hp"
    using assms(1,2) by (cases p) (auto simp: plain_host_def port_part_def host_part_def list_all_iff)
  have hp: "after_last (CHR ''@'') (u @ ?hp) = ?hp"
  proof (cases "u = []")
    case False
    with assms(3) have "last u = CHR ''@''" by (simp add: user_part_def)
    with False obtain v where "u = v @ [CHR ''@'']" by (cases u rule: rev_cases) auto
    then have "u @ ?hp = v @ CHR ''@'' # ?hp" by simp
    then show ?thesis by (simp only: after_last_sep [OF no_at])
  qed (simp only: after_last_none [OF no_at] append_Nil simp_thms)
  show ?thesis
  proof (cases bracketed)
    case True
    then have "strip_prefix ''['' ?hp = Some (h @ CHR '']'' # p)"
      by (simp add: strip_prefix_Some host_part_def)
    moreover have "hd (split_on (CHR '']'') (h @ CHR '']'' # p)) = h"
      using assms(1) True by (simp add: split_on_append_sep plain_host_def)
    ultimately show ?thesis unfolding url_host_def Let_def auth hp by simp
  next
    case False
    then have h: "CHR '':'' \<notin> set h" "CHR ''['' \<notin> set h" and hp': "?hp = h @ p"
      using assms(1) by (auto simp: plain_host_def host_part_def)
    have "strip_prefix ''['' ?hp = None"
      unfolding hp' using h(2) assms(2) by (cases h; cases p)
        (auto simp: strip_prefix_def starts_with_def port_part_def)
    moreover have "length (filter (\<lambda>c. c = CHR '':'') ?hp) \<le> 1"
    proof -
      have "filter (\<lambda>c. c = CHR '':'') h = []" using h(1) by (auto simp: filter_empty_conv)
      moreover have "filter (\<lambda>c. c = CHR '':'') (tl p) = []"
        using assms(2) by (cases p) (auto simp: port_part_def filter_empty_conv list_all_iff)
      then have "length (filter (\<lambda>c. c = CHR '':'') p) \<le> 1" by (cases p) auto
      ultimately show ?thesis unfolding hp' by simp
    qed
    moreover have "hd (split_on (CHR '':'') ?hp) = h"
      unfolding hp' using h(1) assms(2)
      by (cases p) (auto simp: split_on_plain split_on_append_sep port_part_def)
    ultimately show ?thesis unfolding url_host_def Let_def auth hp by simp
  qed
qed

section \<open>Properties\<close>



lemma last_split_on: "d \<notin> set y \<Longrightarrow> last (split_on d (x @ d # y)) = y"
proof (induction x)
  case (Cons c x)
  obtain p ps where ps: "split_on d (x @ d # y) = p # ps"
    by (metis split_on_nonempty neq_Nil_conv)
  have "ps \<noteq> []"
  proof
    assume "ps = []"
    with ps have "x @ d # y = p" by (metis join.simps(2) join_split_on)
    moreover have "d \<notin> set p" using split_on_no_sep [of p d "x @ d # y"] ps by simp
    ultimately show False by auto
  qed
  with Cons ps show ?case by auto
qed (simp add: split_on_plain)

text \<open>
  C23. A caller cannot choose its rate-limit key. From a peer that is not a trusted proxy the
  header is ignored; from a trusted one only the last entry counts, so what the client itself
  wrote in front of the address the proxy saw changes nothing; and a key is never other than the
  peer's address, a parsed address, or the shared bucket. Both spellings of one peer share a key.
\<close>
theorem client_key_not_chosen_by_caller:
  assumes "CHR '','' \<notin> set seen"
  shows "client_ip_key (Some (claimed @ CHR '','' # seen)) peer tp = client_ip_key (Some seen) peer tp \<and>
    (case peer of None \<Rightarrow> True | Some p \<Rightarrow>
      (trusts tp p \<or> client_ip_key header peer tp = client_ip_key None peer tp) \<and>
      client_ip_key header (Some (to_canonical p)) tp = client_ip_key header (Some p) tp)"
proof -
  have last: "forwarded_client_ip (Some (claimed @ CHR '','' # seen)) = forwarded_client_ip (Some seen)"
    using assms by (simp add: forwarded_client_ip_def last_split_on split_on_plain)
  have canon: "to_canonical (to_canonical p) = to_canonical p" for p by (cases p) auto
  show ?thesis
    by (cases peer) (simp_all add: client_ip_key_def last trusts_def canon forwarded_client_ip_def [of None]
      split: option.split)
qed

theorem client_key_not_chosen_by_caller_witness:
  "client_ip_key (Some ''9.9.9.9, 10.1.2.3'') (Some (V6 [0, 0, 0, 0, 0, 65535, 2560, 5]))
     (trusted_proxies_new [V4 10 0 0 5]) = Address (V4 10 1 2 3)"
proof -
  have "CHR '','' \<notin> set '' 10.1.2.3''" by simp
  from client_key_not_chosen_by_caller [OF this, of "''9.9.9.9''" "Some (V6 [0, 0, 0, 0, 0, 65535, 2560, 5])"
      "trusted_proxies_new [V4 10 0 0 5]" None]
  have "client_ip_key (Some ''9.9.9.9, 10.1.2.3'') (Some (V6 [0, 0, 0, 0, 0, 65535, 2560, 5]))
      (trusted_proxies_new [V4 10 0 0 5]) =
    client_ip_key (Some '' 10.1.2.3'') (Some (V6 [0, 0, 0, 0, 0, 65535, 2560, 5]))
      (trusted_proxies_new [V4 10 0 0 5])" by simp
  also have "\<dots> = Address (V4 10 1 2 3)" by code_simp
  finally show ?thesis .
qed

end
