(* ===== verification/Relay_Registry.thy ===== *)
theory Relay_Registry
  imports Relay Transport
begin

text \<open>
  The registry of relay sessions (\<open>relay/mod.rs\<close>), the policy that decides where the relay may
  connect (\<open>relay/policy.rs\<close>, \<open>config/team_target.rs\<close>), the reconnect loop of a session and the
  framing of its event stream. What a configuration file or the environment holds is an
  argument; the targets it declares are read afresh at every registration.
\<close>

section \<open>Declared targets\<close>

record team_target =
  tt_server_url :: string
  tt_project_id :: string
  tt_server_ca :: "string option"

definition target_matches :: "string \<Rightarrow> string \<Rightarrow> team_target \<Rightarrow> bool" where
  "target_matches server_url project_id t =
     (trim_end_matches (CHR ''/'') (tt_server_url t) = trim_end_matches (CHR ''/'') server_url \<and>
      tt_project_id t = project_id)"

definition non_blank :: "string option \<Rightarrow> string option" where
  "non_blank v = (case map_option trim v of Some (c # cs) \<Rightarrow> Some (c # cs) | _ \<Rightarrow> None)"

record project_config =
  pc_server_url :: "string option"
  pc_project_id :: "string option"
  pc_server_ca :: "string option"

definition or_else :: "'a option \<Rightarrow> 'a option \<Rightarrow> 'a option" where
  "or_else a b = (case a of Some x \<Rightarrow> Some x | None \<Rightarrow> b)"

definition read_project_target ::
    "string option \<Rightarrow> string option \<Rightarrow> project_config \<Rightarrow> team_target option" where
  "read_project_target env_ca global_ca proj =
     Option.bind (non_blank (pc_server_url proj)) (\<lambda>url.
     Option.bind (non_blank (pc_project_id proj)) (\<lambda>project.
       Some \<lparr>tt_server_url = url, tt_project_id = project,
             tt_server_ca = or_else env_ca (or_else (non_blank (pc_server_ca proj)) global_ca)\<rparr>))"

definition add_target ::
    "string option \<Rightarrow> string option \<Rightarrow> string option \<Rightarrow> team_target list \<Rightarrow> team_target list" where
  "add_target server_url project_id ca out =
     (case (non_blank server_url, non_blank project_id) of
        (Some url, Some project) \<Rightarrow>
          (let t = \<lparr>tt_server_url = url, tt_project_id = project, tt_server_ca = ca\<rparr>
           in if t \<in> set out then out else out @ [t])
      | _ \<Rightarrow> out)"

text \<open>One configuration per root, \<open>None\<close> where it is absent, unreadable or malformed.\<close>

definition declared_team_targets ::
    "string option \<Rightarrow> string option \<Rightarrow> string option \<Rightarrow> string option \<Rightarrow> project_config option list \<Rightarrow>
     team_target list" where
  "declared_team_targets env_url env_project env_ca global_ca roots =
     fold (\<lambda>root out. case Option.bind root (read_project_target env_ca global_ca) of
         None \<Rightarrow> out
       | Some t \<Rightarrow> add_target (Some (tt_server_url t)) (Some (tt_project_id t)) (tt_server_ca t) out)
       roots (add_target env_url env_project (or_else env_ca global_ca) [])"

definition policy_resolve :: "team_target list \<Rightarrow> string \<Rightarrow> string \<Rightarrow> team_target option" where
  "policy_resolve declared server_url project_id = find (target_matches server_url project_id) declared"

section \<open>Sessions\<close>

type_synonym relay_key = "string \<times> string"

definition relay_key_new :: "string \<Rightarrow> string \<Rightarrow> relay_key" where
  "relay_key_new server_url project_id = (trim_end_matches (CHR ''/'') server_url, project_id)"

record relay_session =
  rs_key :: relay_key
  rs_server_url :: string
  rs_project_id :: string
  rs_server_ca :: "string option"
  rs_inner :: relay_inner

definition relay_session_new :: "int \<Rightarrow> relay_key \<Rightarrow> team_target \<Rightarrow> relay_session" where
  "relay_session_new now key t =
     \<lparr>rs_key = key, rs_server_url = trim_end_matches (CHR ''/'') (tt_server_url t),
      rs_project_id = tt_project_id t, rs_server_ca = tt_server_ca t, rs_inner = relay_inner_new now\<rparr>"

definition in_session :: "(relay_inner \<Rightarrow> relay_inner) \<Rightarrow> relay_session \<Rightarrow> relay_session" where
  "in_session f s = s\<lparr>rs_inner := f (rs_inner s)\<rparr>"

datatype relay_refused = Refused_Disabled | Refused_Undeclared | Refused_Plaintext | Refused_At_Capacity

record relay_registry =
  relay_enabled :: bool
  idle_timeout :: int
  sessions :: "(relay_key \<times> relay_session) list"

definition registry_new :: relay_registry where
  "registry_new = \<lparr>relay_enabled = True, idle_timeout = SESSION_IDLE_TIMEOUT, sessions = []\<rparr>"

definition registry_disabled :: relay_registry where
  "registry_disabled = \<lparr>relay_enabled = False, idle_timeout = SESSION_IDLE_TIMEOUT, sessions = []\<rparr>"

definition registry_for_bind :: "string \<Rightarrow> relay_registry" where
  "registry_for_bind host = (if bind_host_is_loopback host then registry_new else registry_disabled)"

definition registry_resolve ::
    "relay_registry \<Rightarrow> team_target list \<Rightarrow> string \<Rightarrow> string \<Rightarrow> relay_refused + team_target" where
  "registry_resolve r declared server_url project_id =
     (if \<not> relay_enabled r then Inl Refused_Disabled
      else case policy_resolve declared (trim server_url) (trim project_id) of
        None \<Rightarrow> Inl Refused_Undeclared
      | Some t \<Rightarrow> (case validate_transport_url (tt_server_url t) of
          Inl _ \<Rightarrow> Inl Refused_Plaintext
        | Inr _ \<Rightarrow> Inr t))"

definition session_for ::
    "int \<Rightarrow> team_target \<Rightarrow> relay_registry \<Rightarrow> relay_refused + relay_registry \<times> relay_key" where
  "session_for now t r =
     (let key = relay_key_new (tt_server_url t) (tt_project_id t) in
      case map_of (sessions r) key of
        Some s \<Rightarrow> Inr (r\<lparr>sessions := AList.update key (in_session (touch now) s) (sessions r)\<rparr>, key)
      | None \<Rightarrow>
          if length (sessions r) \<ge> MAX_RELAY_SESSIONS then Inl Refused_At_Capacity
          else Inr (r\<lparr>sessions := AList.update key
                 (in_session (touch now) (relay_session_new now key t)) (sessions r)\<rparr>, key))"

definition with_session :: "relay_key \<Rightarrow> (relay_inner \<Rightarrow> relay_inner) \<Rightarrow> relay_registry \<Rightarrow> relay_registry" where
  "with_session key f r = (case map_of (sessions r) key of
     None \<Rightarrow> r
   | Some s \<Rightarrow> r\<lparr>sessions := AList.update key (in_session f s) (sessions r)\<rparr>)"

record relay_push_request =
  rq_server_url :: string
  rq_project_id :: string
  rq_bearer :: "string option"
  rq_since_cursor :: "string option"
  rq_entries :: "relay_push_entry list"

text \<open>
  A registration: the session is found or made, its pull task started once; the push itself runs
  detached, so what it will send is part of the result.
\<close>

definition registry_push ::
    "int \<Rightarrow> team_target list \<Rightarrow> relay_push_request \<Rightarrow> relay_registry \<Rightarrow>
     relay_refused + relay_registry \<times> batch_push_item list option" where
  "registry_push now declared req r =
     and_then (registry_resolve r declared (rq_server_url req) (rq_project_id req)) (\<lambda>t.
     and_then (session_for now t r) (\<lambda>(r1, key).
       Inr (with_session key (\<lambda>s. (seed_cursor (rq_since_cursor req) (set_bearer (rq_bearer req) s))
              \<lparr>pull_task_started := True\<rparr>) r1,
            push_request (rq_entries req))))"

text \<open>\<open>lookup\<close> touches what it finds and never makes a session.\<close>

definition registry_poll ::
    "int \<Rightarrow> string \<Rightarrow> string \<Rightarrow> relay_registry \<Rightarrow> relay_registry \<times> relay_poll_response" where
  "registry_poll now server_url project_id r =
     (let key = relay_key_new (trim server_url) (trim project_id) in
      case map_of (sessions r) key of
        Some s \<Rightarrow> (with_session key (touch now) r, session_poll (rs_inner s))
      | None \<Rightarrow> (r, empty_poll_response))"

definition registry_ack ::
    "int \<Rightarrow> string \<Rightarrow> string \<Rightarrow> string list \<Rightarrow> string list \<Rightarrow> relay_registry \<Rightarrow> relay_registry" where
  "registry_ack now server_url project_id push_ids pull_ids r =
     with_session (relay_key_new (trim server_url) (trim project_id))
       (\<lambda>s. session_ack push_ids pull_ids (touch now s)) r"

definition retire_if_idle :: "int \<Rightarrow> relay_key \<Rightarrow> relay_registry \<Rightarrow> relay_registry \<times> bool" where
  "retire_if_idle now key r = (case map_of (sessions r) key of
     None \<Rightarrow> (r, True)
   | Some s \<Rightarrow> if idle_for now (rs_inner s) < idle_timeout r then (r, False)
               else (r\<lparr>sessions := AList.delete key (sessions r)\<rparr>, True))"

section \<open>The reconnect loop\<close>

text \<open>\<open>1u64.checked_shl(attempt.min(5)).unwrap_or(32).min(30)\<close>, in seconds.\<close>

definition backoff :: "nat \<Rightarrow> nat" where
  "backoff attempt = min (2 ^ min attempt 5) 30"

text \<open>The attempt counter after one connection; \<open>saturating_add\<close> on 32 bits.\<close>

definition after_stream :: "bool \<Rightarrow> nat \<Rightarrow> nat" where
  "after_stream ended_gracefully attempt = (if ended_gracefully then 0 else min (Suc attempt) (2 ^ 32 - 1))"

text \<open>What is left to wait before a session is idle; none means it is.\<close>

definition idle_remaining :: "int \<Rightarrow> int \<Rightarrow> relay_inner \<Rightarrow> int" where
  "idle_remaining now timeout s = max 0 (timeout - idle_for now s)"

section \<open>The event stream\<close>

definition MAX_SSE_BUFFER_BYTES :: nat where
  "MAX_SSE_BUFFER_BYTES = 1024 * 1024"

fun find_double_newline :: "string \<Rightarrow> nat option" where
  "find_double_newline (c # d # cs) =
     (if c = CHR 0x0A \<and> d = CHR 0x0A then Some 0 else map_option Suc (find_double_newline (d # cs)))"
| "find_double_newline _ = None"

text \<open>The complete frames at the front of the buffer, each with its terminator, and the rest.\<close>

function drain_frames :: "string \<Rightarrow> string list \<times> string" where
  "drain_frames buf = (case find_double_newline buf of
     None \<Rightarrow> ([], buf)
   | Some pos \<Rightarrow> (case drain_frames (drop (pos + 2) buf) of
       (fs, rest) \<Rightarrow> (take (pos + 2) buf # fs, rest)))"
  by pat_completeness auto
termination
proof (relation "measure length")
  fix buf :: string and pos
  assume "find_double_newline buf = Some pos"
  then have "buf \<noteq> []" by auto
  then show "(drop (pos + 2) buf, buf) \<in> measure length" by simp
qed simp

declare drain_frames.simps [simp del]

text \<open>One chunk off the network: too much in the buffer drops the connection.\<close>

definition sse_chunk :: "string \<Rightarrow> string list \<times> string \<Rightarrow> unit + string list \<times> string" where
  "sse_chunk chunk acc =
     (let buf = snd acc @ chunk in
      if length buf > MAX_SSE_BUFFER_BYTES then Inl ()
      else (case drain_frames buf of (fs, rest) \<Rightarrow> Inr (fst acc @ fs, rest)))"

definition sse_stream :: "string list \<Rightarrow> unit + string list \<times> string" where
  "sse_stream chunks = try_fold sse_chunk chunks ([], [])"

text \<open>The fields of a frame; \<open>decode\<close> is the lossy decoding of UTF-8.\<close>

definition frame_line :: "string \<Rightarrow> bool \<times> string option \<Rightarrow> bool \<times> string option" where
  "frame_line line acc = (case strip_prefix ''data:'' line of
     Some rest \<Rightarrow> (fst acc \<or> trim rest \<noteq> [], snd acc)
   | None \<Rightarrow> (case strip_prefix ''id:'' line of
       Some rest \<Rightarrow> (fst acc, Some (trim rest))
     | None \<Rightarrow> acc))"

definition parse_frame :: "(string \<Rightarrow> string) \<Rightarrow> string \<Rightarrow> bool \<times> string option" where
  "parse_frame decode frame_bytes = fold frame_line (str_lines (decode frame_bytes)) (False, None)"

text \<open>The session after a frame, and whether it catches up now.\<close>

definition handle_frame :: "(string \<Rightarrow> string) \<Rightarrow> string \<Rightarrow> relay_inner \<Rightarrow> relay_inner \<times> bool" where
  "handle_frame decode frame_bytes s = (case parse_frame decode frame_bytes of
     (saw_data, frame_id) \<Rightarrow>
       (case frame_id of None \<Rightarrow> s | Some i \<Rightarrow> s\<lparr>last_event_id := Some i\<rparr>, saw_data))"

section \<open>Frames do not depend on where the network cuts\<close>

lemma find_double_newline_append:
  "find_double_newline a = Some p \<Longrightarrow> find_double_newline (a @ b) = Some p \<and> p + 2 \<le> length a"
proof (induction a arbitrary: p rule: find_double_newline.induct)
  case (1 c d cs)
  then show ?case by (cases "find_double_newline (d # cs)") (auto split: if_splits)
qed auto

lemma find_double_newline_take:
  "find_double_newline a = Some p \<Longrightarrow> find_double_newline (take (p + 2) a) = Some p \<and> p + 2 \<le> length a"
proof (induction a arbitrary: p rule: find_double_newline.induct)
  case (1 c d cs)
  then show ?case
  proof (cases "c = CHR 0x0A \<and> d = CHR 0x0A")
    case False
    with "1.prems" obtain q where q: "find_double_newline (d # cs) = Some q" "p = Suc q" by auto
    from "1.IH" [OF False q(1)] q False show ?thesis by auto
  qed auto
qed auto

lemma drain_frames_append:
  "drain_frames (a @ b) = (case drain_frames a of (fs, r) \<Rightarrow>
     (case drain_frames (r @ b) of (gs, r') \<Rightarrow> (fs @ gs, r')))"
proof (induction a rule: drain_frames.induct)
  case (1 a)
  show ?case
  proof (cases "find_double_newline a")
    case None
    then have "drain_frames a = ([], a)" by (simp add: drain_frames.simps)
    then show ?thesis by (simp split: prod.split)
  next
    case (Some p)
    note f = find_double_newline_append [OF Some, of b]
    have "drain_frames a = (case drain_frames (drop (p + 2) a) of (fs, r) \<Rightarrow> (take (p + 2) a # fs, r))"
      by (subst drain_frames.simps) (simp add: Some)
    moreover have "drain_frames (a @ b) =
        (case drain_frames (drop (p + 2) a @ b) of (fs, r) \<Rightarrow> (take (p + 2) a # fs, r))"
      using f by (subst drain_frames.simps) simp
    ultimately show ?thesis using "1.IH" [OF Some] by (simp split: prod.splits)
  qed
qed

lemma sse_stream_run:
  "try_fold sse_chunk chunks (fs, rest) = Inr (gs, r) \<Longrightarrow>
     (case drain_frames (rest @ concat chunks) of (hs, r') \<Rightarrow> gs = fs @ hs \<and> r = r') \<or>
     (chunks = [] \<and> gs = fs \<and> r = rest)"
proof (induction chunks arbitrary: fs rest)
  case (Cons c cs)
  obtain hs r1 where d: "drain_frames (rest @ c) = (hs, r1)" by fastforce
  have "sse_chunk c (fs, rest) = Inl () \<or> sse_chunk c (fs, rest) = Inr (fs @ hs, r1)"
    using d by (simp add: sse_chunk_def [of c] Let_def)
  with Cons.prems have run: "try_fold sse_chunk cs (fs @ hs, r1) = Inr (gs, r)"
    by auto
  have "drain_frames (rest @ concat (c # cs)) =
      (case drain_frames (r1 @ concat cs) of (gs', r') \<Rightarrow> (hs @ gs', r'))"
    using drain_frames_append [of "rest @ c" "concat cs"] d by simp
  with Cons.IH [OF run] show ?case
    using drain_frames_append [of "rest @ c" "[]"] d by (auto split: prod.splits)
qed simp

end
