(* ===== verification/Relay_Run.thy ===== *)
theory Relay_Run
  imports Relay
begin

text \<open>
  A relay session at work: what the team server's feed holds, the answers on their way, what the
  CLI claimed to have and what it acknowledged. The steps are the critical sections of the
  session in any order; several catch-ups may be in flight at once, and answers may be lost.
  The feed lists entries by their server-minted id, and later entries have greater ids.
\<close>

record relay_world =
  team_log :: "remote_entry list"
  session :: relay_inner
  in_flight :: "remote_entry list list"
  acked_pulls :: "string list"
  claimed :: "string option"

definition entries_after :: "remote_entry list \<Rightarrow> string \<Rightarrow> remote_entry list" where
  "entries_after log c = take MEMORY_SINCE_PULL_LIMIT (filter (\<lambda>e. c < re_id e) log)"

definition page_of :: "remote_entry list \<Rightarrow> since_page" where
  "page_of es = \<lparr>page_entries = es, page_total = None\<rparr>"

inductive relay_step :: "relay_world \<Rightarrow> relay_world \<Rightarrow> bool" where
  entry_arrives: "(\<forall>e \<in> set (team_log w). re_id e < re_id n) \<Longrightarrow> nil_uuid < re_id n \<Longrightarrow>
     relay_step w (w\<lparr>team_log := team_log w @ [n]\<rparr>)"
| pull_sent: "relay_step w
     (w\<lparr>in_flight := entries_after (team_log w) (pull_cursor (cursor (session w))) # in_flight w\<rparr>)"
| pull_answered: "page \<in> set (in_flight w) \<Longrightarrow> relay_step w
     (w\<lparr>in_flight := remove1 page (in_flight w),
        session := catch_up_done now (Inr (page_of page)) (session w)\<rparr>)"
| hop_failed: "relay_step w (w\<lparr>in_flight := remove1 page (in_flight w), session := record_error (session w)\<rparr>)"
| push_answered: "relay_step w (w\<lparr>session := push_done now answer (session w)\<rparr>)"
| registered: "relay_step w
     (w\<lparr>session := seed_cursor since (set_bearer b (touch now (session w))),
        claimed := max (claimed w) since\<rparr>)"
| acknowledged: "relay_step w
     (w\<lparr>session := session_ack push_ids pull_ids (touch now (session w)),
        acked_pulls := pull_ids @ acked_pulls w\<rparr>)"

inductive_cases relay_step_cases: "relay_step w v"

definition relay_start :: "relay_world \<Rightarrow> bool" where
  "relay_start w = (\<exists>now. w = \<lparr>team_log = [], session = relay_inner_new now, in_flight = [],
     acked_pulls = [], claimed = None\<rparr>)"

section \<open>Bounds\<close>

definition buffers_bounded :: "relay_inner \<Rightarrow> bool" where
  "buffers_bounded s = (distinct_keys (push_results s) \<and> distinct_keys (pulled s) \<and>
     length (push_results s) \<le> MAX_BUFFERED_ITEMS_PER_SESSION \<and>
     length (pulled s) \<le> MAX_BUFFERED_ITEMS_PER_SESSION)"

lemma catch_up_loop_bounded:
  "buffers_bounded s \<Longrightarrow> buffers_bounded (fst (catch_up_loop es s))"
proof (induction es s rule: catch_up_loop.induct)
  case (2 e es s)
  obtain b full where o: "buffer_offer keep_old (re_id e) (pulled_of_remote e) (pulled s) = (b, full)"
    by fastforce
  have "distinct_keys b" "length b \<le> MAX_BUFFERED_ITEMS_PER_SESSION"
    using pull_buffer.sound_offer [of "pulled s" "re_id e" "pulled_of_remote e"]
      pull_buffer.size_offer [of "pulled s" "re_id e" "pulled_of_remote e"] 2(2) o
    by (simp_all add: buffers_bounded_def)
  with 2 o show ?case by (cases full) (simp_all add: buffers_bounded_def)
qed simp

lemma push_step_bounded:
  "distinct_keys (fst acc) \<and> length (fst acc) \<le> MAX_BUFFERED_ITEMS_PER_SESSION \<Longrightarrow>
   distinct_keys (fst (push_result_step r acc)) \<and>
   length (fst (push_result_step r acc)) \<le> MAX_BUFFERED_ITEMS_PER_SESSION"
  unfolding push_result_step_def
  by (auto split: option.splits prod.splits)
    (metis fst_conv push_buffer.sound_offer push_buffer.size_offer)+

lemma push_fold_bounded:
  "distinct_keys (fst acc) \<and> length (fst acc) \<le> MAX_BUFFERED_ITEMS_PER_SESSION \<Longrightarrow>
   distinct_keys (fst (fold push_result_step rs acc)) \<and>
   length (fst (fold push_result_step rs acc)) \<le> MAX_BUFFERED_ITEMS_PER_SESSION"
  by (induction rs arbitrary: acc) (simp_all only: fold_simps comp_def push_step_bounded id_apply)

lemma operations_bounded:
  assumes "buffers_bounded s"
  shows "buffers_bounded (catch_up_done now a s)" and "buffers_bounded (push_done now r s)"
    and "buffers_bounded (session_ack ps qs s)" and "buffers_bounded (seed_cursor c s)"
    and "buffers_bounded (set_bearer b s)" and "buffers_bounded (touch now s)"
    and "buffers_bounded (record_error s)"
proof -
  show "buffers_bounded (catch_up_done now a s)"
  proof (cases a)
    case (Inr page)
    obtain t full where "catch_up_loop (page_entries page) s = (t, full)" by fastforce
    with catch_up_loop_bounded [OF assms, of "page_entries page"] Inr assms show ?thesis
      by (simp add: catch_up_done_def buffers_bounded_def)
  qed (use assms in \<open>simp add: catch_up_done_def record_error_def buffers_bounded_def\<close>)
  show "buffers_bounded (push_done now r s)"
  proof (cases r)
    case (Inr res)
    obtain b full where "fold push_result_step (item_results res) (push_results s, False) = (b, full)" by fastforce
    with push_fold_bounded [of "(push_results s, False)" "item_results res"] Inr assms show ?thesis
      by (simp add: push_done_def buffers_bounded_def)
  qed (use assms in \<open>simp add: push_done_def record_error_def buffers_bounded_def\<close>)
  show "buffers_bounded (session_ack ps qs s)"
    using assms by (simp add: session_ack_def buffers_bounded_def push_buffer.sound_retire_all
        pull_buffer.sound_retire_all order_trans [OF push_buffer.size_retire_all]
        order_trans [OF pull_buffer.size_retire_all])
qed (use assms in \<open>auto simp: seed_cursor_def set_bearer_def touch_def record_error_def buffers_bounded_def
    split: option.splits\<close>)

interpretation bounded: system_invariant relay_start relay_step "\<lambda>w. buffers_bounded (session w)"
proof
  fix w :: relay_world
  show "relay_start w \<Longrightarrow> buffers_bounded (session w)"
    by (auto simp: relay_start_def relay_inner_new_def buffers_bounded_def distinct_keys_def)
next
  fix w v :: relay_world
  assume "buffers_bounded (session w)" and "relay_step w v"
  then show "buffers_bounded (session v)"
    by (auto elim!: relay_step_cases simp: operations_bounded)
qed

section \<open>Nothing before the cursor is lost\<close>

definition page_sound :: "remote_entry list \<Rightarrow> string option \<Rightarrow> remote_entry list \<Rightarrow> bool" where
  "page_sound log c page = (sorted_wrt (<) (map re_id page) \<and> set page \<subseteq> set log \<and>
     (\<forall>e \<in> set log. c < Some (re_id e) \<and> (\<exists>q \<in> set page. re_id e \<le> re_id q) \<longrightarrow> e \<in> set page))"

definition accounted :: "relay_world \<Rightarrow> relay_inner \<Rightarrow> remote_entry \<Rightarrow> bool" where
  "accounted w s e = (Some (re_id e) \<le> claimed w \<or> map_of (pulled s) (re_id e) \<noteq> None \<or>
     re_id e \<in> set (acked_pulls w))"

definition feed_sound :: "relay_world \<Rightarrow> bool" where
  "feed_sound w = (sorted_wrt (<) (map re_id (team_log w)) \<and> (\<forall>e \<in> set (team_log w). nil_uuid < re_id e))"

text \<open>The cursor comes from the feed or from the CLI.\<close>

definition cursor_known :: "relay_world \<Rightarrow> string option \<Rightarrow> bool" where
  "cursor_known w c = (c \<le> claimed w \<or> c \<in> Some ` re_id ` set (team_log w))"

definition nothing_lost :: "relay_world \<Rightarrow> bool" where
  "nothing_lost w = (feed_sound w \<and> cursor_known w (cursor (session w)) \<and>
     (\<forall>e \<in> set (team_log w). Some (re_id e) \<le> cursor (session w) \<longrightarrow> accounted w (session w) e) \<and>
     (\<forall>page \<in> set (in_flight w). page_sound (team_log w) (cursor (session w)) page))"

lemma page_sound_tail: "page_sound log c (q # page) \<Longrightarrow> page_sound log (max c (Some (re_id q))) page"
proof -
  assume ps: "page_sound log c (q # page)"
  have "e \<in> set page" if e: "e \<in> set log" "max c (Some (re_id q)) < Some (re_id e)"
    "r \<in> set page" "re_id e \<le> re_id r" for e r
  proof -
    from e(2) have "c < Some (re_id e)" "re_id q < re_id e" by simp_all
    with ps e(1,3,4) have "e \<in> set (q # page)" by (auto simp: page_sound_def)
    with \<open>re_id q < re_id e\<close> show ?thesis by auto
  qed
  with ps show ?thesis by (auto simp: page_sound_def)
qed


lemma page_sound_later: "page_sound log c page \<Longrightarrow> c \<le> d \<Longrightarrow> page_sound log d page"
  unfolding page_sound_def by (meson order_le_less_trans)

definition covered :: "relay_world \<Rightarrow> relay_inner \<Rightarrow> bool" where
  "covered w s = (\<forall>e \<in> set (team_log w). Some (re_id e) \<le> cursor s \<longrightarrow> accounted w s e)"

lemma next_cursor: "(if c < Some x then Some x else c) = max c (Some x)" for x :: string
  by (auto simp: max_def)

lemma catch_up_loop_covers:
  "covered w s \<Longrightarrow> page_sound (team_log w) (cursor s) page \<Longrightarrow>
   covered w (fst (catch_up_loop page s)) \<and> cursor s \<le> cursor (fst (catch_up_loop page s))"
proof (induction page s rule: catch_up_loop.induct)
  case (2 q page s)
  let ?o = "buffer_offer keep_old (re_id q) (pulled_of_remote q) (pulled s)"
  obtain b full where o: "?o = (b, full)" by fastforce
  show ?case
  proof (cases full)
    case True
    with o 2 show ?thesis by simp
  next
    case False
    let ?t = "s\<lparr>pulled := b, cursor := max (cursor s) (Some (re_id q))\<rparr>"
    have q: "map_of b (re_id q) \<noteq> None" using pull_buffer.offer_taken [of "re_id q"] o False by (metis fst_conv snd_conv)
    have keep: "map_of b x \<noteq> None" if "map_of (pulled s) x \<noteq> None" for x
      using pull_buffer.offer_keeps [OF that] o by (metis fst_conv)
    have "accounted w ?t e" if e: "e \<in> set (team_log w)" "Some (re_id e) \<le> max (cursor s) (Some (re_id q))" for e
    proof (cases "Some (re_id e) \<le> cursor s")
      case True
      with "2.prems"(1) e(1) have "accounted w s e" by (simp add: covered_def)
      with keep show ?thesis by (auto simp: accounted_def)
    next
      case beyond: False
      with e(2) have "re_id e \<le> re_id q" by (auto simp: max_def split: if_splits)
      with beyond e(1) "2.prems"(2) have "e \<in> set (q # page)" by (auto simp: page_sound_def)
      with "2.prems"(2) \<open>re_id e \<le> re_id q\<close> have "e = q" by (auto simp: page_sound_def)
      with q show ?thesis by (simp add: accounted_def)
    qed
    then have "covered w ?t" by (simp add: covered_def)
    moreover have "page_sound (team_log w) (cursor ?t) page"
      using page_sound_tail [OF "2.prems"(2)] by simp
    ultimately have "covered w (fst (catch_up_loop page ?t)) \<and> cursor ?t \<le> cursor (fst (catch_up_loop page ?t))"
      using "2.IH" [OF o [symmetric]] False by (simp add: next_cursor)
    moreover have "catch_up_loop (q # page) s = catch_up_loop page ?t"
      using o False by (simp add: next_cursor)
    ultimately show ?thesis by (auto intro: order_trans [OF max.cobounded1])
  qed
qed simp

lemma catch_up_done_covers:
  assumes "covered w s" and "page_sound (team_log w) (cursor s) page"
  shows "covered w (catch_up_done now (Inr (page_of page)) s) \<and>
    cursor s \<le> cursor (catch_up_done now (Inr (page_of page)) s)"
proof (cases "page = []")
  case False
  obtain t full where "catch_up_loop page s = (t, full)" by fastforce
  with catch_up_loop_covers [OF assms] False show ?thesis
    by (simp add: catch_up_done_def page_of_def covered_def accounted_def)
qed (use assms in \<open>simp add: catch_up_done_def page_of_def\<close>)

lemma push_done_frame [simp]:
  "pulled (push_done now a s) = pulled s" "cursor (push_done now a s) = cursor s"
  by (auto simp: push_done_def record_error_def split: sum.splits prod.splits)

lemma seed_cursor_frame [simp]:
  "pulled (seed_cursor c s) = pulled s" "pulled (set_bearer b s) = pulled s" "cursor (set_bearer b s) = cursor s"
  by (auto simp: seed_cursor_def set_bearer_def split: option.splits)

text \<open>Seeding takes the greater of the two cursors, the absent one being least.\<close>

lemma seed_cursor_max: "cursor (seed_cursor c s) \<le> max (cursor s) c \<and> cursor s \<le> cursor (seed_cursor c s)"
  by (auto simp: seed_cursor_def max_def split: option.splits)

lemma entries_after_sound:
  assumes "feed_sound w"
  shows "page_sound (team_log w) c (entries_after (team_log w) (pull_cursor c))"
proof -
  let ?f = "filter (\<lambda>e. pull_cursor c < re_id e) (team_log w)"
  let ?p = "entries_after (team_log w) (pull_cursor c)"
  have sorted: "sorted_wrt (<) (map re_id ?f)"
    using assms by (simp add: feed_sound_def sorted_wrt_map sorted_wrt_filter)
  have split: "?f = ?p @ drop MEMORY_SINCE_PULL_LIMIT ?f" by (simp add: entries_after_def)
  have "e \<in> set ?p" if e: "e \<in> set (team_log w)" "c < Some (re_id e)" "q \<in> set ?p" "re_id e \<le> re_id q" for e q
  proof -
    have "pull_cursor c < re_id e"
      using e(1,2) assms by (auto simp: pull_cursor_def feed_sound_def split: option.splits)
    with e(1) have "e \<in> set ?f" by simp
    with split have "e \<in> set ?p \<or> e \<in> set (drop MEMORY_SINCE_PULL_LIMIT ?f)" by (metis Un_iff set_append)
    moreover have "re_id q < re_id d" if "d \<in> set (drop MEMORY_SINCE_PULL_LIMIT ?f)" for d
      using sorted that e(3) by (subst (asm) split) (auto simp: sorted_wrt_append)
    ultimately show ?thesis using e(4) by (meson leD)
  qed
  moreover have "sorted_wrt (<) (map re_id ?p)"
    using sorted by (subst (asm) split) (simp add: sorted_wrt_append)
  moreover have "set ?p \<subseteq> set (team_log w)" by (auto simp: entries_after_def dest: in_set_takeD)
  ultimately show ?thesis by (auto simp: page_sound_def)
qed

lemma nothing_lost_parts:
  "nothing_lost w = (feed_sound w \<and> cursor_known w (cursor (session w)) \<and> covered w (session w) \<and>
     (\<forall>page \<in> set (in_flight w). page_sound (team_log w) (cursor (session w)) page))"
  by (simp add: nothing_lost_def covered_def)

lemma catch_up_loop_cursor:
  "cursor_known w (cursor s) \<Longrightarrow> set page \<subseteq> set (team_log w) \<Longrightarrow>
   cursor_known w (cursor (fst (catch_up_loop page s)))"
proof (induction page s rule: catch_up_loop.induct)
  case (2 q page s)
  obtain b full where o: "buffer_offer keep_old (re_id q) (pulled_of_remote q) (pulled s) = (b, full)"
    by fastforce
  have "cursor_known w (max (cursor s) (Some (re_id q)))"
    using "2.prems" by (simp add: cursor_known_def max_def)
  with "2.IH" [OF o [symmetric]] "2.prems" o show ?case by (cases full) (simp_all add: next_cursor)
qed simp

lemma catch_up_done_cursor:
  assumes "cursor_known w (cursor s)" and "set page \<subseteq> set (team_log w)"
  shows "cursor_known w (cursor (catch_up_done now (Inr (page_of page)) s))"
proof -
  obtain t full where "catch_up_loop page s = (t, full)" by fastforce
  with catch_up_loop_cursor [OF assms] assms(1) show ?thesis by (simp add: catch_up_done_def page_of_def)
qed

lemma unsent_arrival:
  assumes "feed_sound w" and "\<forall>e \<in> set (team_log w). re_id e < re_id n"
    and "page_sound (team_log w) c page"
  shows "page_sound (team_log w @ [n]) c page"
proof -
  have "\<not> re_id n \<le> re_id q" if "q \<in> set page" for q
    using assms(2,3) that by (auto simp: page_sound_def not_le)
  with assms(3) show ?thesis by (auto simp: page_sound_def)
qed

lemma session_change:
  assumes "nothing_lost w" and "cursor (session w) \<le> cursor t" and "cursor_known w (cursor t)" and "covered w t"
    and "set pages \<subseteq> set (in_flight w)"
  shows "nothing_lost (w\<lparr>in_flight := pages, session := t\<rparr>)"
  using assms page_sound_later [OF _ assms(2)]
  by (auto simp: nothing_lost_parts feed_sound_def covered_def accounted_def cursor_known_def)

interpretation pulls: system_invariant relay_start relay_step nothing_lost
proof
  fix w :: relay_world
  show "relay_start w \<Longrightarrow> nothing_lost w"
    by (auto simp: relay_start_def nothing_lost_def feed_sound_def cursor_known_def relay_inner_new_def)
next
  fix w v :: relay_world
  assume inv: "nothing_lost w" and "relay_step w v"
  from this(2) show "nothing_lost v"
  proof cases
    case (entry_arrives n)
    have "accounted v (session v) e" if e: "e \<in> set (team_log v)" "Some (re_id e) \<le> cursor (session v)" for e
    proof (cases "e = n")
      case True
      with e(2) entry_arrives inv have "Some (re_id n) \<le> claimed w"
        by (auto simp: nothing_lost_parts cursor_known_def dest: leD)
      with True entry_arrives show ?thesis by (simp add: accounted_def)
    qed (use e inv entry_arrives in \<open>auto simp: nothing_lost_def accounted_def\<close>)
    with entry_arrives inv show ?thesis
      by (auto simp: nothing_lost_parts covered_def feed_sound_def sorted_wrt_append cursor_known_def
          intro: unsent_arrival)
  next
    case pull_sent
    with inv entries_after_sound [of w "cursor (session w)"] show ?thesis
      by (simp add: nothing_lost_parts covered_def accounted_def feed_sound_def cursor_known_def)
  next
    case (pull_answered page now)
    from inv pull_answered(2) have ps: "page_sound (team_log w) (cursor (session w)) page"
      and cov: "covered w (session w)" by (simp_all add: nothing_lost_parts)
    from ps have "set page \<subseteq> set (team_log w)" by (simp add: page_sound_def)
    with catch_up_done_covers [OF cov ps] catch_up_done_cursor inv show ?thesis
      unfolding pull_answered(1) by (intro session_change) (auto simp: nothing_lost_parts dest: set_mp [OF set_remove1_subset])
  next
    case (hop_failed page)
    with inv show ?thesis unfolding hop_failed
      by (intro session_change)
        (auto simp: nothing_lost_parts record_error_def covered_def accounted_def dest: set_mp [OF set_remove1_subset])
  next
    case (push_answered now answer)
    have "nothing_lost (w\<lparr>in_flight := in_flight w, session := push_done now answer (session w)\<rparr>)"
      using inv by (intro session_change) (auto simp: nothing_lost_parts covered_def accounted_def)
    with push_answered show ?thesis by simp
  next
    case (registered since b now)
    let ?t = "seed_cursor since (set_bearer b (touch now (session w)))"
    have between: "cursor ?t \<le> max (cursor (session w)) since" "cursor (session w) \<le> cursor ?t"
      using seed_cursor_max [of since "set_bearer b (touch now (session w))"] by (simp_all add: touch_def)
    have one: "cursor ?t = cursor (session w) \<or> cursor ?t = since"
      by (auto simp: seed_cursor_def touch_def split: option.splits)
    have "accounted v ?t e" if e: "e \<in> set (team_log w)" "Some (re_id e) \<le> cursor ?t" for e
    proof (cases "Some (re_id e) \<le> cursor (session w)")
      case True
      with inv e(1) have "accounted w (session w) e" by (simp add: nothing_lost_def)
      then show ?thesis using registered by (auto simp: accounted_def touch_def le_max_iff_disj)
    next
      case False
      with one e(2) have "Some (re_id e) \<le> since" by auto
      then show ?thesis using registered by (simp add: accounted_def le_max_iff_disj)
    qed
    moreover have "cursor_known v (cursor ?t)"
      using one inv registered by (auto simp: cursor_known_def nothing_lost_def le_max_iff_disj)
    ultimately show ?thesis
      using inv registered page_sound_later [OF _ between(2)]
      by (auto simp: nothing_lost_parts feed_sound_def covered_def)
  next
    case (acknowledged push_ids pull_ids now)
    with inv show ?thesis
      by (auto simp: nothing_lost_parts feed_sound_def covered_def accounted_def cursor_known_def
          session_ack_def touch_def pull_buffer.held_retire_all)
  qed
qed


section \<open>Progress\<close>

definition catch_up_round :: "remote_entry list \<Rightarrow> int \<Rightarrow> relay_inner \<Rightarrow> relay_inner" where
  "catch_up_round log now s = catch_up_done now (Inr (page_of (entries_after log (pull_cursor (cursor s))))) s"

definition pending :: "remote_entry list \<Rightarrow> string option \<Rightarrow> remote_entry list" where
  "pending log c = filter (\<lambda>e. pull_cursor c < re_id e) log"

definition last_id :: "string option \<Rightarrow> remote_entry list \<Rightarrow> string option" where
  "last_id c es = (if es = [] then c else Some (re_id (last es)))"

lemma offer_room:
  assumes "length b < MAX_BUFFERED_ITEMS_PER_SESSION"
  shows "\<not> snd (buffer_offer keep_old k v b)" and "length (fst (buffer_offer keep_old k v b)) \<le> Suc (length b)"
  using assms by (auto simp: buffer_offer_def length_update split: option.splits)

lemma catch_up_loop_all:
  assumes "sorted_wrt (<) (map re_id page)" and "\<forall>e \<in> set page. cursor s < Some (re_id e)"
    and "length (pulled s) + length page \<le> MAX_BUFFERED_ITEMS_PER_SESSION"
  shows "\<exists>t. catch_up_loop page s = (t, False) \<and> cursor t = last_id (cursor s) page \<and>
    length (pulled t) \<le> length (pulled s) + length page \<and>
    (\<forall>x. map_of (pulled s) x \<noteq> None \<or> x \<in> re_id ` set page \<longrightarrow> map_of (pulled t) x \<noteq> None)"
  using assms
proof (induction page s rule: catch_up_loop.induct)
  case (2 q page s)
  let ?o = "buffer_offer keep_old (re_id q) (pulled_of_remote q) (pulled s)"
  have room: "length (pulled s) < MAX_BUFFERED_ITEMS_PER_SESSION" using "2.prems"(3) by simp
  obtain b where o: "?o = (b, False)" using offer_room(1) [OF room] by (metis prod.collapse)
  have len: "length b \<le> Suc (length (pulled s))" using offer_room(2) [OF room] o by (metis fst_conv)
  have q: "map_of b (re_id q) \<noteq> None" using pull_buffer.offer_taken [of "re_id q"] o by (metis fst_conv snd_conv)
  have keep: "map_of b x \<noteq> None" if "map_of (pulled s) x \<noteq> None" for x
    using pull_buffer.offer_keeps [OF that] o by (metis fst_conv)
  let ?t = "s\<lparr>pulled := b, cursor := Some (re_id q)\<rparr>"
  have step: "catch_up_loop (q # page) s = catch_up_loop page ?t" using o "2.prems"(2) by simp
  have "\<exists>t. catch_up_loop page ?t = (t, False) \<and> cursor t = last_id (cursor ?t) page \<and>
      length (pulled t) \<le> length (pulled ?t) + length page \<and>
      (\<forall>x. map_of (pulled ?t) x \<noteq> None \<or> x \<in> re_id ` set page \<longrightarrow> map_of (pulled t) x \<noteq> None)"
    using "2.IH" [OF o [symmetric]] "2.prems" len by simp
  then obtain t where t: "catch_up_loop page ?t = (t, False)" "cursor t = last_id (cursor ?t) page"
    "length (pulled t) \<le> length b + length page"
    "\<forall>x. map_of b x \<noteq> None \<or> x \<in> re_id ` set page \<longrightarrow> map_of (pulled t) x \<noteq> None" by auto
  have "cursor t = last_id (cursor s) (q # page)" using t(2) by (simp add: last_id_def)
  with t len q keep show ?case unfolding step by (intro exI [of _ t]) auto
qed (simp add: last_id_def)

lemma catch_up_round_run:
  fixes now :: int
  assumes log: "sorted_wrt (<) (map re_id log)" "\<forall>e \<in> set log. nil_uuid < re_id e"
    and room: "length (pulled s) + length (pending log (cursor s)) \<le> MAX_BUFFERED_ITEMS_PER_SESSION"
  defines "P \<equiv> pending log (cursor s)" and "t \<equiv> catch_up_round log now s"
  shows "pending log (cursor t) = drop MEMORY_SINCE_PULL_LIMIT P"
    and "cursor t = last_id (cursor s) (take MEMORY_SINCE_PULL_LIMIT P)"
    and "length (pulled t) \<le> length (pulled s) + length (take MEMORY_SINCE_PULL_LIMIT P)"
    and "\<forall>x. map_of (pulled s) x \<noteq> None \<or> x \<in> re_id ` set (take MEMORY_SINCE_PULL_LIMIT P) \<longrightarrow>
      map_of (pulled t) x \<noteq> None"
proof -
  let ?page = "take MEMORY_SINCE_PULL_LIMIT P"
  have page: "entries_after log (pull_cursor (cursor s)) = ?page"
    by (simp add: entries_after_def P_def pending_def)
  have sorted: "sorted_wrt (<) (map re_id P)"
    using log(1) by (simp add: P_def pending_def sorted_wrt_map sorted_wrt_filter)
  have split: "P = ?page @ drop MEMORY_SINCE_PULL_LIMIT P" by simp
  have sorted': "sorted_wrt (<) (map re_id ?page @ map re_id (drop MEMORY_SINCE_PULL_LIMIT P))"
    using sorted by (simp flip: map_append)
  have fresh: "cursor s < Some (re_id e)" if "e \<in> set P" for e
    using that log(2) by (auto simp: P_def pending_def pull_cursor_def split: option.splits)
  have sp: "sorted_wrt (<) (map re_id ?page)" using sorted by (simp add: sorted_wrt_take flip: take_map)
  have "\<forall>e \<in> set ?page. cursor s < Some (re_id e)" using fresh by (auto dest: in_set_takeD)
  moreover have "length (pulled s) + length ?page \<le> MAX_BUFFERED_ITEMS_PER_SESSION"
    using room by (simp add: P_def)
  ultimately obtain u where u: "catch_up_loop ?page s = (u, False)" "cursor u = last_id (cursor s) ?page"
    "length (pulled u) \<le> length (pulled s) + length ?page"
    "\<forall>x. map_of (pulled s) x \<noteq> None \<or> x \<in> re_id ` set ?page \<longrightarrow> map_of (pulled u) x \<noteq> None"
    using catch_up_loop_all [OF sp] by blast
  have t: "cursor t = cursor u" "pulled t = pulled u"
    using u(1) by (auto simp: t_def catch_up_round_def page catch_up_done_def page_of_def)
  show "cursor t = last_id (cursor s) ?page" "length (pulled t) \<le> length (pulled s) + length ?page"
    "\<forall>x. map_of (pulled s) x \<noteq> None \<or> x \<in> re_id ` set ?page \<longrightarrow> map_of (pulled t) x \<noteq> None"
    using u(2-4) t by simp_all
  show "pending log (cursor t) = drop MEMORY_SINCE_PULL_LIMIT P"
  proof (cases "?page = []")
    case True
    then have "P = []" by (auto simp: MEMORY_SINCE_PULL_LIMIT_def)
    with True t u(2) show ?thesis by (simp add: last_id_def P_def)
  next
    case False
    have "pull_cursor (cursor s) < re_id (last ?page)"
      using last_in_set [OF False] by (auto simp: P_def pending_def dest: in_set_takeD)
    then have "pending log (cursor t) = filter (\<lambda>e. re_id (last ?page) < re_id e) P"
      using t u(2) False by (auto simp: pending_def last_id_def pull_cursor_def P_def intro!: filter_cong)
    also have "\<dots> = filter (\<lambda>e. re_id (last ?page) < re_id e) ?page @
        filter (\<lambda>e. re_id (last ?page) < re_id e) (drop MEMORY_SINCE_PULL_LIMIT P)"
      by (subst split) (simp only: filter_append)
    also have "filter (\<lambda>e. re_id (last ?page) < re_id e) ?page = []"
    proof -
      obtain ys z where page: "?page = ys @ [z]" using False by (cases ?page rule: rev_cases) auto
      with sp have "\<forall>y \<in> set ys. re_id y < re_id z" by (simp add: sorted_wrt_append)
      with page show ?thesis by (auto simp: filter_empty_conv dest: less_imp_not_less)
    qed
    also have "filter (\<lambda>e. re_id (last ?page) < re_id e) (drop MEMORY_SINCE_PULL_LIMIT P) =
        drop MEMORY_SINCE_PULL_LIMIT P"
    proof -
      have "\<forall>d \<in> set (drop MEMORY_SINCE_PULL_LIMIT P). re_id (last ?page) < re_id d"
        using sorted' last_in_set [OF False] by (auto simp: sorted_wrt_append)
      then show ?thesis by (simp add: filter_id_conv)
    qed
    finally show ?thesis by simp
  qed
qed


lemma last_id_append: "last_id (last_id c xs) ys = last_id c (xs @ ys)"
  by (simp add: last_id_def)

lemma take_add: "take (m + n) xs = take m xs @ take n (drop m xs)"
  by (rule List.take_add)

lemma catch_up_rounds_run:
  fixes now :: int
  assumes log: "sorted_wrt (<) (map re_id log)" "\<forall>e \<in> set log. nil_uuid < re_id e"
    and room: "length (pulled s) + length (pending log (cursor s)) \<le> MAX_BUFFERED_ITEMS_PER_SESSION"
  shows "let P = pending log (cursor s); t = (catch_up_round log now ^^ n) s in
    pending log (cursor t) = drop (n * MEMORY_SINCE_PULL_LIMIT) P \<and>
    cursor t = last_id (cursor s) (take (n * MEMORY_SINCE_PULL_LIMIT) P) \<and>
    length (pulled t) \<le> length (pulled s) + length (take (n * MEMORY_SINCE_PULL_LIMIT) P) \<and>
    (\<forall>x. map_of (pulled s) x \<noteq> None \<or> x \<in> re_id ` set (take (n * MEMORY_SINCE_PULL_LIMIT) P) \<longrightarrow>
      map_of (pulled t) x \<noteq> None)"
proof (induction n)
  case 0
  then show ?case by (simp add: last_id_def)
next
  case (Suc n)
  let ?L = MEMORY_SINCE_PULL_LIMIT
  let ?P = "pending log (cursor s)" and ?t = "(catch_up_round log now ^^ n) s"
  from Suc have t: "pending log (cursor ?t) = drop (n * ?L) ?P" "cursor ?t = last_id (cursor s) (take (n * ?L) ?P)"
    "length (pulled ?t) \<le> length (pulled s) + length (take (n * ?L) ?P)"
    "\<forall>x. map_of (pulled s) x \<noteq> None \<or> x \<in> re_id ` set (take (n * ?L) ?P) \<longrightarrow> map_of (pulled ?t) x \<noteq> None"
    unfolding Let_def by blast+
  have lens: "length (take (n * ?L) ?P) + length (drop (n * ?L) ?P) = length ?P" by simp
  have "length (pulled ?t) + length (pending log (cursor ?t)) \<le> MAX_BUFFERED_ITEMS_PER_SESSION"
    unfolding t(1) using t(3) room lens by linarith
  note r = catch_up_round_run [OF log this, where now = now, unfolded t(1)]
  have tk: "take (Suc n * ?L) ?P = take (n * ?L) ?P @ take ?L (drop (n * ?L) ?P)"
    by (simp add: take_add [of "n * ?L" ?L, symmetric] add.commute)
  have dr: "drop (Suc n * ?L) ?P = drop ?L (drop (n * ?L) ?P)" by (simp add: add.commute)
  have cur: "cursor (catch_up_round log now ?t) = last_id (cursor s) (take (Suc n * ?L) ?P)"
    unfolding r(2) t(2) last_id_append tk ..
  have len: "length (pulled (catch_up_round log now ?t)) \<le> length (pulled s) + length (take (Suc n * ?L) ?P)"
    unfolding tk length_append using r(3) t(3) by linarith
  have held: "\<forall>x. map_of (pulled s) x \<noteq> None \<or> x \<in> re_id ` set (take (Suc n * ?L) ?P) \<longrightarrow>
      map_of (pulled (catch_up_round log now ?t)) x \<noteq> None"
    unfolding tk set_append image_Un using r(4) t(4) by blast
  show ?case unfolding Let_def funpow.simps comp_def using r(1) cur len held unfolding dr by blast
qed

section \<open>Properties\<close>

text \<open>
  C25. However calls, answers and acknowledgements interleave, a session never buffers more than
  ten thousand push results or pulled entries, and holds one result per entry.
\<close>
theorem relay_buffers_bounded:
  "reach relay_start relay_step w \<Longrightarrow>
     length (push_results (session w)) \<le> 10000 \<and> length (pulled (session w)) \<le> 10000 \<and>
     distinct (map fst (push_results (session w))) \<and> distinct (map fst (pulled (session w)))"
  using bounded.holds [of w]
  by (simp add: buffers_bounded_def distinct_keys_def MAX_BUFFERED_ITEMS_PER_SESSION_def)

definition demo_entry :: "string \<Rightarrow> remote_entry" where
  "demo_entry i = \<lparr>re_id = i, re_kind = ''note'', re_title = i, re_body = None, re_source_commit = None,
     re_archived_at = None, re_created_at = ''2026-01-01T00:00:00Z''\<rparr>"

text \<open>A run: an entry arrives, is asked for and buffered.\<close>

definition demo_world :: relay_world where
  "demo_world = \<lparr>team_log = [demo_entry ''a''], session = catch_up_done 5 (Inr (page_of [demo_entry ''a''])) (relay_inner_new 0),
     in_flight = [], acked_pulls = [], claimed = None\<rparr>"

lemma demo_world_reached: "reach relay_start relay_step demo_world"
proof -
  let ?w0 = "\<lparr>team_log = [], session = relay_inner_new 0, in_flight = [], acked_pulls = [], claimed = None\<rparr> :: relay_world"
  let ?w1 = "?w0\<lparr>team_log := team_log ?w0 @ [demo_entry ''a'']\<rparr>"
  let ?w2 = "?w1\<lparr>in_flight := entries_after (team_log ?w1) (pull_cursor (cursor (session ?w1))) # in_flight ?w1\<rparr>"
  have "relay_start ?w0" by (auto simp: relay_start_def)
  then have "reach relay_start relay_step ?w0" by (rule reach_init)
  moreover have "nil_uuid < ''a''" by code_simp
  then have "relay_step ?w0 ?w1" by (intro entry_arrives) (simp_all add: demo_entry_def)
  ultimately have "reach relay_start relay_step ?w1" by (rule reach_step)
  then have two: "reach relay_start relay_step ?w2" by (rule reach_step) (rule pull_sent)
  have page: "entries_after (team_log ?w1) (pull_cursor (cursor (session ?w1))) = [demo_entry ''a'']"
    using \<open>nil_uuid < ''a''\<close>
    by (simp add: entries_after_def pull_cursor_def relay_inner_new_def MEMORY_SINCE_PULL_LIMIT_def demo_entry_def)
  have "relay_step ?w2 (?w2\<lparr>in_flight := remove1 [demo_entry ''a''] (in_flight ?w2),
      session := catch_up_done 5 (Inr (page_of [demo_entry ''a''])) (session ?w2)\<rparr>)"
    by (rule pull_answered) (simp add: page [simplified])
  with two have "reach relay_start relay_step (?w2\<lparr>in_flight := remove1 [demo_entry ''a''] (in_flight ?w2),
      session := catch_up_done 5 (Inr (page_of [demo_entry ''a''])) (session ?w2)\<rparr>)" by (rule reach_step)
  then show ?thesis by (simp add: demo_world_def page [simplified])
qed

theorem relay_buffers_bounded_witness: "length (pulled (session demo_world)) \<le> 10000"
  using relay_buffers_bounded [OF demo_world_reached] by simp



text \<open>
  A session catches up, a page at a time: with room for what is pending, \<open>n\<close> rounds buffer
  exactly the first \<open>100 n\<close> pending entries and leave the cursor at the last of them, so the
  backlog is drained once there were enough rounds, and not before. One wake-up makes one round.
\<close>
theorem relay_catches_up_in_rounds:
  assumes "sorted_wrt (<) (map re_id log)" and "\<forall>e \<in> set log. nil_uuid < re_id e"
    and "length (pulled s) + length (pending log (cursor s)) \<le> 10000"
    and "t = (catch_up_round log now ^^ n) s"
  shows "(\<forall>e \<in> set (take (100 * n) (pending log (cursor s))). map_of (pulled t) (re_id e) \<noteq> None) \<and>
    cursor t = last_id (cursor s) (take (100 * n) (pending log (cursor s))) \<and>
    (entries_after log (pull_cursor (cursor t)) = [] \<longleftrightarrow> length (pending log (cursor s)) \<le> 100 * n)"
proof -
  have room: "length (pulled s) + length (pending log (cursor s)) \<le> MAX_BUFFERED_ITEMS_PER_SESSION"
    using assms(3) by (simp add: MAX_BUFFERED_ITEMS_PER_SESSION_def)
  note r = catch_up_rounds_run [OF assms(1,2) room, where now = now and n = n, folded assms(4), unfolded Let_def MEMORY_SINCE_PULL_LIMIT_def]
  then have p: "pending log (cursor t) = drop (n * 100) (pending log (cursor s))" by blast
  have "entries_after log (pull_cursor (cursor t)) = [] \<longleftrightarrow> pending log (cursor t) = []"
    by (simp add: entries_after_def pending_def MEMORY_SINCE_PULL_LIMIT_def)
  with r p show ?thesis by (simp add: mult.commute)
qed

theorem relay_catches_up_in_rounds_witness:
  "cursor ((catch_up_round [demo_entry ''a'', demo_entry ''b''] 5 ^^ 1) (relay_inner_new 0)) = Some ''b''"
proof -
  let ?log = "[demo_entry ''a'', demo_entry ''b'']" and ?s = "relay_inner_new 0"
  have nil: "nil_uuid < ''a''" "nil_uuid < ''b''" by code_simp+
  have "sorted_wrt (<) (map re_id ?log)" "\<forall>e \<in> set ?log. nil_uuid < re_id e"
    using nil by (simp_all add: demo_entry_def)
  moreover have p: "pending ?log (cursor ?s) = ?log"
    using nil by (simp add: pending_def pull_cursor_def relay_inner_new_def demo_entry_def)
  ultimately show ?thesis
    using relay_catches_up_in_rounds [where log = ?log and s = ?s and now = 5 and n = 1]
    by (simp only: p) (simp add: relay_inner_new_def last_id_def demo_entry_def)
qed

end
