(* ===== verification/Registry_Run.thy ===== *)
theory Registry_Run
  imports Relay_Registry Relay_Run
begin

text \<open>
  The registry as a transition system: registrations against whatever targets the configuration
  declares at that moment (all of them in \<open>D\<close>), polls, acknowledgements, the work of the session
  tasks and their retirement. Then the framing of the event stream.
\<close>

inductive registry_step :: "team_target set \<Rightarrow> relay_registry \<Rightarrow> relay_registry \<Rightarrow> bool"
  for D :: "team_target set" where
  reg_push: "set declared \<subseteq> D \<Longrightarrow> registry_push now declared req r = Inr (r', out) \<Longrightarrow>
     registry_step D r r'"
| reg_poll: "registry_step D r (fst (registry_poll now u p r))"
| reg_ack: "registry_step D r (registry_ack now u p push_ids pull_ids r)"
| reg_push_done: "registry_step D r (with_session key (push_done now answer) r)"
| reg_catch_up: "registry_step D r (with_session key (catch_up_done now page) r)"
| reg_error: "registry_step D r (with_session key record_error r)"
| reg_frame: "registry_step D r (with_session key (\<lambda>s. fst (handle_frame decode f s)) r)"
| reg_retire: "registry_step D r (fst (retire_if_idle now key r))"

inductive_cases registry_step_cases: "registry_step D r r'"

section \<open>Where a session may connect\<close>

definition session_of_target :: "relay_session \<Rightarrow> team_target \<Rightarrow> bool" where
  "session_of_target s t =
     (validate_transport_url (tt_server_url t) = Inr () \<and>
      rs_server_url s = trim_end_matches (CHR ''/'') (tt_server_url t) \<and>
      rs_project_id s = tt_project_id t \<and> rs_server_ca s = tt_server_ca t)"

definition session_declared :: "team_target set \<Rightarrow> relay_key \<times> relay_session \<Rightarrow> bool" where
  "session_declared D p = (fst p = rs_key (snd p) \<and>
     fst p = (rs_server_url (snd p), rs_project_id (snd p)) \<and> (\<exists>t \<in> D. session_of_target (snd p) t))"

definition sessions_declared :: "team_target set \<Rightarrow> relay_registry \<Rightarrow> bool" where
  "sessions_declared D r =
     (distinct (map fst (sessions r)) \<and> length (sessions r) \<le> MAX_RELAY_SESSIONS \<and>
      (\<not> relay_enabled r \<longrightarrow> sessions r = []) \<and>
      (\<forall>p \<in> set (sessions r). session_declared D p))"

lemma in_session_fields:
  "rs_key (in_session f s) = rs_key s" "rs_server_url (in_session f s) = rs_server_url s"
  "rs_project_id (in_session f s) = rs_project_id s" "rs_server_ca (in_session f s) = rs_server_ca s"
  "session_of_target (in_session f s) t = session_of_target s t"
  by (simp_all add: in_session_def session_of_target_def)

lemma update_entries:
  "p \<in> set (AList.update k v xs) \<Longrightarrow> p = (k, v) \<or> p \<in> set xs"
  by (induction xs) (auto split: if_splits)

lemma delete_entries: "p \<in> set (AList.delete k xs) \<Longrightarrow> p \<in> set xs"
  by (simp add: AList.delete_eq)

lemma with_session_declared:
  assumes "sessions_declared D r"
  shows "sessions_declared D (with_session key f r)"
proof (cases "map_of (sessions r) key")
  case None
  then show ?thesis using assms by (simp add: with_session_def)
next
  case (Some s)
  have mem: "(key, s) \<in> set (sessions r)" by (rule map_of_SomeD [OF Some])
  let ?t = "r\<lparr>sessions := AList.update key (in_session f s) (sessions r)\<rparr>"
  have "sessions_declared D ?t"
    unfolding sessions_declared_def
  proof (intro conjI ballI)
    show "distinct (map fst (sessions ?t))" using assms
      by (simp add: sessions_declared_def distinct_update)
    show "length (sessions ?t) \<le> MAX_RELAY_SESSIONS" using assms Some
      by (simp add: sessions_declared_def length_update)
    show "\<not> relay_enabled ?t \<longrightarrow> sessions ?t = []" using assms mem
      by (auto simp: sessions_declared_def)
    fix p assume "p \<in> set (sessions ?t)"
    then have "p = (key, in_session f s) \<or> p \<in> set (sessions r)"
      by (auto dest: update_entries)
    moreover have "session_declared D (key, in_session f s)"
      using assms mem unfolding sessions_declared_def
      by (auto simp: session_declared_def in_session_fields dest!: bspec [OF _ mem])
    ultimately show "session_declared D p" using assms by (auto simp: sessions_declared_def)
  qed
  then show ?thesis using Some by (simp add: with_session_def)
qed

lemma with_session_enabled: "relay_enabled (with_session key f r) = relay_enabled r"
  by (simp add: with_session_def split: option.splits)

lemma session_for_declared:
  assumes "sessions_declared D r" and "t \<in> D" and "relay_enabled r"
    and "validate_transport_url (tt_server_url t) = Inr ()" and "session_for now t r = Inr (r', key)"
  shows "sessions_declared D r' \<and> relay_enabled r' = relay_enabled r"
proof (cases "map_of (sessions r) (relay_key_new (tt_server_url t) (tt_project_id t))")
  case (Some s)
  then have "r' = with_session key (touch now) r" using assms(5)
    by (auto simp: session_for_def Let_def with_session_def)
  then show ?thesis using with_session_declared [OF assms(1)] by (simp add: with_session_enabled)
next
  case None
  let ?k = "relay_key_new (tt_server_url t) (tt_project_id t)"
  let ?s = "in_session (touch now) (relay_session_new now ?k t)"
  from None assms(5) have short: "length (sessions r) < MAX_RELAY_SESSIONS"
    and r': "r' = r\<lparr>sessions := AList.update ?k ?s (sessions r)\<rparr>"
    by (auto simp: session_for_def Let_def split: if_splits)
  have new: "rs_key ?s = ?k" "?k = (rs_server_url ?s, rs_project_id ?s)" "session_of_target ?s t"
    using assms(4) by (simp_all add: in_session_fields relay_session_new_def relay_key_new_def
      session_of_target_def)
  have "sessions_declared D r'"
    unfolding sessions_declared_def
  proof (intro conjI ballI)
    show "distinct (map fst (sessions r'))" using assms(1)
      by (simp add: r' sessions_declared_def distinct_update)
    show "length (sessions r') \<le> MAX_RELAY_SESSIONS" using short None
      by (simp add: r' length_update)
    show "\<not> relay_enabled r' \<longrightarrow> sessions r' = []" using assms(3) by (simp add: r')
    fix p assume "p \<in> set (sessions r')"
    then have "p = (?k, ?s) \<or> p \<in> set (sessions r)" by (auto simp: r' dest: update_entries)
    moreover have "session_declared D (?k, ?s)"
      unfolding session_declared_def fst_conv snd_conv using new assms(2) by (intro conjI bexI [of _ t]) simp_all
    ultimately show "session_declared D p" using assms(1) by (auto simp: sessions_declared_def)
  qed
  then show ?thesis by (simp add: r')
qed

lemma registry_push_declared:
  assumes "sessions_declared D r" and "set declared \<subseteq> D"
    and "registry_push now declared req r = Inr (r', out)"
  shows "sessions_declared D r' \<and> relay_enabled r' = relay_enabled r"
proof -
  from assms(3) obtain t p
    where t: "registry_resolve r declared (rq_server_url req) (rq_project_id req) = Inr t"
      and f: "session_for now t r = Inr (fst p, snd p)"
      and "r' = with_session (snd p) (\<lambda>s. (seed_cursor (rq_since_cursor req)
              (set_bearer (rq_bearer req) s))\<lparr>pull_task_started := True\<rparr>) (fst p)"
    unfolding registry_push_def and_then_eq_Inr by (auto split: prod.splits)
  then obtain g where r': "r' = with_session (snd p) g (fst p)" by blast
  from t have "relay_enabled r" "validate_transport_url (tt_server_url t) = Inr ()" "t \<in> D"
    using assms(2) by (auto simp: registry_resolve_def policy_resolve_def find_Some_iff
      split: if_splits option.splits sum.splits)
  from session_for_declared [OF assms(1) this(3,1,2) f] r' show ?thesis
    by (auto intro: with_session_declared simp: with_session_enabled)
qed

lemma retire_declared:
  assumes "sessions_declared D r"
  shows "sessions_declared D (fst (retire_if_idle now key r))"
proof -
  have "fst (retire_if_idle now key r) = r \<or>
      fst (retire_if_idle now key r) = r\<lparr>sessions := AList.delete key (sessions r)\<rparr>"
    by (auto simp: retire_if_idle_def split: option.splits)
  then show ?thesis
  proof
    assume r': "fst (retire_if_idle now key r) = r\<lparr>sessions := AList.delete key (sessions r)\<rparr>"
    show ?thesis using assms order_trans [OF length_delete_le [of key "sessions r"]]
      unfolding r' sessions_declared_def by (auto simp: distinct_delete dest: delete_entries)
  qed (use assms in simp)
qed

lemma retire_enabled: "relay_enabled (fst (retire_if_idle now key r)) = relay_enabled r"
  by (auto simp: retire_if_idle_def split: option.splits)

lemma poll_is_touch:
  "fst (registry_poll now u p r) = with_session (relay_key_new (trim u) (trim p)) (touch now) r"
  by (auto simp: registry_poll_def Let_def with_session_def split: option.splits)

lemma registry_step_declared:
  "registry_step D r r' \<Longrightarrow> sessions_declared D r \<Longrightarrow>
     sessions_declared D r' \<and> relay_enabled r' = relay_enabled r"
  by (erule registry_step_cases)
    (auto simp: registry_push_declared poll_is_touch registry_ack_def with_session_declared
      with_session_enabled retire_declared retire_enabled)

interpretation registry: system_invariant "\<lambda>r. r = registry_for_bind host" "registry_step D"
    "\<lambda>r. sessions_declared D r \<and> relay_enabled r = bind_host_is_loopback host"
proof
  fix r r' :: relay_registry
  show "r = registry_for_bind host \<Longrightarrow>
      sessions_declared D r \<and> relay_enabled r = bind_host_is_loopback host"
    by (simp add: registry_for_bind_def registry_new_def registry_disabled_def sessions_declared_def
      MAX_RELAY_SESSIONS_def)
  show "sessions_declared D r \<and> relay_enabled r = bind_host_is_loopback host \<Longrightarrow>
      registry_step D r r' \<Longrightarrow> sessions_declared D r' \<and> relay_enabled r' = bind_host_is_loopback host"
    by (simp add: registry_step_declared)
qed

text \<open>
  C27. Whatever is registered, polled, acknowledged, pushed, pulled or retired, a registry holds at
  most 32 sessions, one per server and project, and each of them connects to a target that the
  local configuration declared and whose URL is safe to send a credential to; a daemon bound to
  a host that is not loopback has none.
\<close>

theorem relay_connects_only_to_declared_targets:
  assumes "reach (\<lambda>r. r = registry_for_bind host) (registry_step D) r"
  shows "distinct (map fst (sessions r)) \<and> length (sessions r) \<le> MAX_RELAY_SESSIONS \<and>
     (\<not> bind_host_is_loopback host \<longrightarrow> sessions r = []) \<and>
     (\<forall>(k, s) \<in> set (sessions r). k = (rs_server_url s, rs_project_id s) \<and>
        (\<exists>t \<in> D. validate_transport_url (tt_server_url t) = Inr () \<and>
           rs_server_url s = trim_end_matches (CHR ''/'') (tt_server_url t) \<and>
           rs_project_id s = tt_project_id t \<and> rs_server_ca s = tt_server_ca t))"
  using registry.holds [OF assms]
  unfolding sessions_declared_def session_declared_def session_of_target_def by fastforce

definition demo_target :: team_target where
  "demo_target = \<lparr>tt_server_url = ''https://team.example/'', tt_project_id = ''p'', tt_server_ca = None\<rparr>"

definition demo_registration :: relay_push_request where
  "demo_registration = \<lparr>rq_server_url = ''https://team.example'', rq_project_id = ''p'',
     rq_bearer = None, rq_since_cursor = None, rq_entries = []\<rparr>"

definition demo_registry :: relay_registry where
  "demo_registry = (case registry_push 0 [demo_target] demo_registration (registry_for_bind ''127.0.0.1'') of
     Inr (r, _) \<Rightarrow> r | Inl _ \<Rightarrow> registry_disabled)"

lemma demo_registered:
  "registry_push 0 [demo_target] demo_registration (registry_for_bind ''127.0.0.1'') =
     Inr (demo_registry, None) \<and> length (sessions demo_registry) = 1"
  by code_simp

theorem relay_connects_only_to_declared_targets_witness:
  "length (sessions demo_registry) = 1 \<and>
   rs_server_url (snd (hd (sessions demo_registry))) = ''https://team.example'' \<and>
   fst (hd (sessions demo_registry)) = (''https://team.example'', ''p'')"
proof -
  have "registry_step {demo_target} (registry_for_bind ''127.0.0.1'') demo_registry"
    by (rule reg_push [of "[demo_target]" _ 0 demo_registration _ _ None]) (simp_all add: demo_registered)
  then have "reach (\<lambda>r. r = registry_for_bind ''127.0.0.1'') (registry_step {demo_target}) demo_registry"
    by (intro reach_step [OF reach_init]) auto
  note declared = relay_connects_only_to_declared_targets [OF this]
  obtain k t where one: "sessions demo_registry = [(k, t)]"
    using demo_registered by (auto simp: length_Suc_conv)
  have "trim_end_matches (CHR ''/'') (tt_server_url demo_target) = ''https://team.example''"
    by code_simp
  with declared one show ?thesis by (simp add: demo_target_def)
qed

section \<open>Frames do not depend on where the network cuts\<close>

lemma drain_frames_parts:
  "drain_frames buf = (fs, rest) \<Longrightarrow> concat fs @ rest = buf \<and> find_double_newline rest = None \<and>
     (\<forall>f \<in> set fs. find_double_newline f = Some (length f - 2) \<and> 2 \<le> length f)"
proof (induction buf arbitrary: fs rest rule: drain_frames.induct)
  case (1 buf)
  show ?case
  proof (cases "find_double_newline buf")
    case None
    then show ?thesis using "1.prems" by (simp add: drain_frames.simps [of buf])
  next
    case (Some p)
    obtain gs r where d: "drain_frames (drop (p + 2) buf) = (gs, r)" by fastforce
    with Some "1.prems" have fs: "fs = take (p + 2) buf # gs" "rest = r"
      by (simp_all add: drain_frames.simps [of buf])
    have p: "find_double_newline (take (p + 2) buf) = Some p" "p + 2 \<le> length buf"
      using find_double_newline_take [OF Some] by simp_all
    from "1.IH" [OF Some d] p show ?thesis by (simp add: fs)
  qed
qed

lemma sse_stream_fails:
  "try_fold sse_chunk chunks (fs, rest) = Inl e \<Longrightarrow>
     MAX_SSE_BUFFER_BYTES < length rest + length (concat chunks)"
proof (induction chunks arbitrary: fs rest)
  case (Cons c cs)
  obtain hs r1 where d: "drain_frames (rest @ c) = (hs, r1)" by fastforce
  from drain_frames_parts [OF d] have "length r1 \<le> length rest + length c"
    by (metis length_append le_add2)
  moreover have "sse_chunk c (fs, rest) = (if length (rest @ c) > MAX_SSE_BUFFER_BYTES then Inl ()
      else Inr (fs @ hs, r1))"
    using d by (simp add: sse_chunk_def Let_def)
  ultimately show ?case using Cons.prems Cons.IH [of "fs @ hs" r1] by (auto split: if_splits)
qed simp

text \<open>
  C28. However the network cuts a stream into chunks, the frames read are those of the whole
  byte sequence, each ending at its first blank line, and together with the unread rest they are
  that sequence; a connection is dropped only after more than 1 MiB.
\<close>

theorem sse_frames_independent_of_cuts:
  "(case sse_stream chunks of
      Inl _ \<Rightarrow> MAX_SSE_BUFFER_BYTES < length (concat chunks)
    | Inr (fs, rest) \<Rightarrow> (fs, rest) = drain_frames (concat chunks) \<and> concat fs @ rest = concat chunks \<and>
        find_double_newline rest = None \<and>
        list_all (\<lambda>f. find_double_newline f = Some (length f - 2)) fs)"
proof (cases "sse_stream chunks")
  case (Inl e)
  from sse_stream_fails [of chunks "[]" "[]"] Inl show ?thesis by (auto simp: sse_stream_def)
next
  case (Inr p)
  obtain fs rest where p: "p = (fs, rest)" by fastforce
  have "drain_frames [] = ([], [])" by (simp add: drain_frames.simps)
  with sse_stream_run [of chunks "[]" "[]" fs rest] Inr p
  have d: "drain_frames (concat chunks) = (fs, rest)"
    by (auto simp: sse_stream_def split: prod.splits)
  from drain_frames_parts [OF d] d show ?thesis by (simp add: Inr p list_all_iff)
qed

end
