(* ===== verification/Team_Db.thy ===== *)
theory Team_Db
  imports Effect Tags Sync_Client "HOL-Library.AList"
begin

text \<open>
  The database of a team server (\<open>db.rs\<close>, \<open>migrations/server_00*.sql\<close>): projects, their entries
  with a server-minted \<open>sync_id\<close>, edges and vectors. SQLite is outside the program; what its
  documentation says of the declared constraints is written out: UNIQUE on \<open>slug\<close>, on \<open>sync_id\<close>
  and on \<open>(project_id, remote_id)\<close> where the latter is not NULL, immediate foreign keys
  (\<open>superseded_by\<close> without an action, edges ON DELETE CASCADE), AUTOINCREMENT, and a vector table
  without a foreign key that refuses a second vector for a row and one of another dimension. Rows
  stand in the order of their row ids, which is also the order of ties. A clock reading and a
  minted id are arguments. The vector search is not part of the model.
\<close>

section \<open>Tables\<close>

record project =
  prj_id :: nat
  prj_slug :: string
  prj_embedding_dim :: nat
  prj_embedding_model :: "string option"
  prj_created_at :: int

record team_row =
  tr_id :: nat
  tr_project :: nat
  tr_kind :: string
  tr_title :: string
  tr_body :: string
  tr_tags :: "string option"
  tr_linked_files :: "string option"
  tr_created_at :: int
  tr_status :: string
  tr_superseded_by :: "nat option"
  tr_remote_id :: "string option"
  tr_sync_id :: string

record team_edge =
  te_from :: nat
  te_to :: nat
  te_kind :: string

record team_db =
  projects :: "project list"
  project_seq :: nat
  team_rows :: "team_row list"
  team_seq :: nat
  team_edges :: "team_edge list"
  team_vectors :: "(nat \<times> 32 word list) list"
  embedding_dim :: nat
  embedding_model :: string

datatype team_error =
    Team_Unique
  | Team_Foreign_Key
  | Team_Vector_Refused
  | Dimension_Mismatch string nat nat
  | Model_Mismatch string string string
  | Team_Edge_Kind string

type_synonym 'a team_op = "(team_db, team_error, 'a) st"

text \<open>A database just migrated.\<close>

definition empty_team_db :: "nat \<Rightarrow> string \<Rightarrow> team_db" where
  "empty_team_db dim mdl = \<lparr>projects = [], project_seq = 0, team_rows = [], team_seq = 0,
     team_edges = [], team_vectors = [], embedding_dim = dim, embedding_model = mdl\<rparr>"

section \<open>Statements\<close>

definition remote_key :: "team_row \<Rightarrow> (nat \<times> string) option" where
  "remote_key r = map_option (Pair (tr_project r)) (tr_remote_id r)"

definition remote_keys :: "team_db \<Rightarrow> (nat \<times> string) list" where
  "remote_keys d = List.map_filter remote_key (team_rows d)"

definition row_ids :: "team_db \<Rightarrow> nat list" where
  "row_ids d = map tr_id (team_rows d)"

text \<open>\<open>INSERT INTO notes\<close> of a row without a successor, giving \<open>last_insert_rowid\<close>.\<close>

definition team_insert :: "team_row \<Rightarrow> nat team_op" where
  "team_insert r = (\<lambda>d.
     if tr_sync_id r \<in> set (map tr_sync_id (team_rows d)) \<or>
        (case remote_key r of None \<Rightarrow> False | Some k \<Rightarrow> k \<in> set (remote_keys d))
     then (d, Inl Team_Unique)
     else if tr_project r \<notin> set (map prj_id (projects d)) then (d, Inl Team_Foreign_Key)
     else (d\<lparr>team_rows := team_rows d @ [r\<lparr>tr_id := Suc (team_seq d)\<rparr>], team_seq := Suc (team_seq d)\<rparr>,
           Inr (Suc (team_seq d))))"

text \<open>An update that touches no indexed column, returning the number of rows matched.\<close>

definition team_update :: "(team_row \<Rightarrow> bool) \<Rightarrow> (team_row \<Rightarrow> team_row) \<Rightarrow> nat team_op" where
  "team_update P f = (\<lambda>d.
     if list_ex (\<lambda>r. P r \<and> (case tr_superseded_by (f r) of None \<Rightarrow> False
          | Some n \<Rightarrow> n \<notin> set (row_ids d))) (team_rows d)
     then (d, Inl Team_Foreign_Key)
     else (d\<lparr>team_rows := map (\<lambda>r. if P r then f r else r) (team_rows d)\<rparr>,
           Inr (length (filter P (team_rows d)))))"

definition team_insert_vector :: "nat \<Rightarrow> 32 word list \<Rightarrow> unit team_op" where
  "team_insert_vector n v = (\<lambda>d.
     if n \<in> set (map fst (team_vectors d)) \<or> length v \<noteq> embedding_dim d
     then (d, Inl Team_Vector_Refused)
     else (d\<lparr>team_vectors := team_vectors d @ [(n, v)]\<rparr>, Inr ()))"

definition team_delete_row :: "nat \<Rightarrow> nat \<Rightarrow> nat team_op" where
  "team_delete_row pid n = (\<lambda>d.
     let gone = filter (\<lambda>r. tr_id r = n \<and> tr_project r = pid) (team_rows d);
         left = filter (\<lambda>r. \<not> (tr_id r = n \<and> tr_project r = pid)) (team_rows d) in
     if gone \<noteq> [] \<and> list_ex (\<lambda>r. tr_superseded_by r = Some n) left
     then (d, Inl Team_Foreign_Key)
     else (d\<lparr>team_rows := left,
             team_edges := (if gone = [] then team_edges d
               else filter (\<lambda>e. te_from e \<noteq> n \<and> te_to e \<noteq> n) (team_edges d))\<rparr>,
           Inr (length gone)))"

section \<open>Projects\<close>

definition get_project :: "team_db \<Rightarrow> string \<Rightarrow> project option" where
  "get_project d slug = find (\<lambda>p. prj_slug p = slug) (projects d)"

definition list_projects :: "team_db \<Rightarrow> project list" where
  "list_projects d = sort_key prj_slug (projects d)"

definition update_project :: "nat \<Rightarrow> (project \<Rightarrow> project) \<Rightarrow> unit team_op" where
  "update_project i f = modify (\<lambda>d.
     d\<lparr>projects := map (\<lambda>p. if prj_id p = i then f p else p) (projects d)\<rparr>)"

text \<open>What a project recorded on its first write has to match; an empty column is filled below.\<close>

definition project_conflict :: "project \<Rightarrow> string \<Rightarrow> nat \<Rightarrow> string \<Rightarrow> team_error option" where
  "project_conflict p slug incoming_dim incoming_model =
     (if prj_embedding_dim p \<noteq> 0 \<and> prj_embedding_dim p \<noteq> incoming_dim
      then Some (Dimension_Mismatch slug (prj_embedding_dim p) incoming_dim)
      else case prj_embedding_model p of
        Some recorded \<Rightarrow> if recorded \<noteq> incoming_model
          then Some (Model_Mismatch slug recorded incoming_model) else None
      | None \<Rightarrow> None)"

definition insert_project :: "project \<Rightarrow> project team_op" where
  "insert_project p = (\<lambda>d. let q = p\<lparr>prj_id := Suc (project_seq d)\<rparr> in
     (d\<lparr>projects := projects d @ [q], project_seq := Suc (project_seq d)\<rparr>, Inr q))"

definition upsert_project :: "int \<Rightarrow> string \<Rightarrow> nat \<Rightarrow> string \<Rightarrow> project team_op" where
  "upsert_project now slug incoming_dim incoming_model =
     bind (query (\<lambda>d. get_project d slug)) (\<lambda>existing. case existing of
       None \<Rightarrow> insert_project \<lparr>prj_id = 0, prj_slug = slug, prj_embedding_dim = incoming_dim,
           prj_embedding_model = Some incoming_model, prj_created_at = now\<rparr>
     | Some p \<Rightarrow> (case project_conflict p slug incoming_dim incoming_model of
         Some e \<Rightarrow> fail e
       | None \<Rightarrow>
           bind (if prj_embedding_dim p = 0
                 then bind (update_project (prj_id p) (\<lambda>q. q\<lparr>prj_embedding_dim := incoming_dim\<rparr>))
                   (\<lambda>_. ok (p\<lparr>prj_embedding_dim := incoming_dim\<rparr>))
                 else ok p) (\<lambda>p.
           if prj_embedding_model p = None
           then bind (update_project (prj_id p) (\<lambda>q. q\<lparr>prj_embedding_model := Some incoming_model\<rparr>))
             (\<lambda>_. ok (p\<lparr>prj_embedding_model := Some incoming_model\<rparr>))
           else ok p)))"

section \<open>Entries\<close>

definition resolve_rowid :: "team_db \<Rightarrow> nat \<Rightarrow> string \<Rightarrow> nat option" where
  "resolve_rowid d pid note_id =
     map_option tr_id (find (\<lambda>r. tr_sync_id r = note_id \<and> tr_project r = pid) (team_rows d))"

definition csv_column :: "string list \<Rightarrow> string option" where
  "csv_column xs = (if xs = [] then None else Some (join '','' xs))"

text \<open>\<open>minted\<close> is what \<open>Uuid::now_v7\<close> gives.\<close>

definition team_add_note_with_sync_id ::
    "int \<Rightarrow> string \<Rightarrow> nat \<Rightarrow> string \<Rightarrow> string \<Rightarrow> string \<Rightarrow> string list \<Rightarrow> string list \<Rightarrow>
     32 word list option \<Rightarrow> string option \<Rightarrow> string option \<Rightarrow> (nat \<times> string) team_op" where
  "team_add_note_with_sync_id now minted pid kind title body tags linked_files embedding remote
     sync_id_override =
     (let sync_id = (case sync_id_override of Some i \<Rightarrow> i | None \<Rightarrow> minted) in
      bind (team_insert \<lparr>tr_id = 0, tr_project = pid, tr_kind = kind, tr_title = title, tr_body = body,
          tr_tags = csv_column tags, tr_linked_files = csv_column linked_files, tr_created_at = now,
          tr_status = ''active'', tr_superseded_by = None, tr_remote_id = remote,
          tr_sync_id = sync_id\<rparr>) (\<lambda>n.
      bind (case embedding of None \<Rightarrow> ok () | Some v \<Rightarrow> team_insert_vector n v) (\<lambda>_.
      ok (n, sync_id))))"

definition team_add_note ::
    "int \<Rightarrow> string \<Rightarrow> nat \<Rightarrow> string \<Rightarrow> string \<Rightarrow> string \<Rightarrow> string list \<Rightarrow> string list \<Rightarrow>
     32 word list option \<Rightarrow> string option \<Rightarrow> (nat \<times> string) team_op" where
  "team_add_note now minted pid kind title body tags linked_files embedding remote =
     team_add_note_with_sync_id now minted pid kind title body tags linked_files embedding remote None"

definition team_supersede_note :: "nat \<Rightarrow> string \<Rightarrow> string \<Rightarrow> bool team_op" where
  "team_supersede_note pid old_id new_id =
     bind (query (\<lambda>d. resolve_rowid d pid new_id)) (\<lambda>found. case found of
       None \<Rightarrow> ok False
     | Some n \<Rightarrow> bind (team_update
           (\<lambda>r. tr_sync_id r = old_id \<and> tr_project r = pid \<and> tr_status r = ''active'')
           (\<lambda>r. r\<lparr>tr_status := ''archived'', tr_superseded_by := Some n\<rparr>)) (\<lambda>changed. ok (changed > 0)))"

definition TEAM_EDGE_KINDS :: "string list" where
  "TEAM_EDGE_KINDS = [''supersedes'', ''relates_to'', ''contradicts'']"

definition team_insert_edge :: "team_edge \<Rightarrow> unit team_op" where
  "team_insert_edge e = (\<lambda>d.
     if te_kind e \<notin> set TEAM_EDGE_KINDS \<or> e \<in> set (team_edges d) then (d, Inr ())
     else if te_from e \<notin> set (row_ids d) \<or> te_to e \<notin> set (row_ids d) then (d, Inl Team_Foreign_Key)
     else (d\<lparr>team_edges := team_edges d @ [e]\<rparr>, Inr ()))"

definition team_add_edge :: "nat \<Rightarrow> nat \<Rightarrow> string \<Rightarrow> unit team_op" where
  "team_add_edge from_id to_id kind =
     (if kind \<notin> set TEAM_EDGE_KINDS then fail (Team_Edge_Kind kind)
      else team_insert_edge \<lparr>te_from = from_id, te_to = to_id, te_kind = kind\<rparr>)"

definition apply_resolution :: "nat \<Rightarrow> nat \<Rightarrow> string \<Rightarrow> string \<Rightarrow> string \<Rightarrow> unit team_op" where
  "apply_resolution pid new_rowid new_sync_id kind target_id =
     (if kind = ''supersedes''
      then bind (team_supersede_note pid target_id new_sync_id) (\<lambda>_. ok ())
      else if kind = ''relates_to'' \<or> kind = ''contradicts''
      then bind (query (\<lambda>d. resolve_rowid d pid target_id)) (\<lambda>t. case t of
          Some n \<Rightarrow> team_add_edge new_rowid n kind | None \<Rightarrow> ok ())
      else ok ())"

definition team_add_note_with_resolutions ::
    "int \<Rightarrow> string \<Rightarrow> nat \<Rightarrow> string \<Rightarrow> string \<Rightarrow> string \<Rightarrow> string list \<Rightarrow> string list \<Rightarrow>
     32 word list option \<Rightarrow> (string \<times> string) list \<Rightarrow> (nat \<times> string) team_op" where
  "team_add_note_with_resolutions now minted pid kind title body tags linked_files embedding
     resolutions = transaction
     (bind (team_add_note now minted pid kind title body tags linked_files embedding None)
       (\<lambda>(n, sync_id).
      bind (for_each (\<lambda>(rkind, target). apply_resolution pid n sync_id rkind target) resolutions) (\<lambda>_.
      ok (n, sync_id))))"

definition team_archive_note :: "nat \<Rightarrow> string \<Rightarrow> bool team_op" where
  "team_archive_note pid note_id =
     bind (team_update (\<lambda>r. tr_sync_id r = note_id \<and> tr_project r = pid \<and> tr_status r = ''active'')
       (\<lambda>r. r\<lparr>tr_status := ''archived''\<rparr>)) (\<lambda>changed. ok (changed > 0))"

text \<open>The commit an entry was anchored to is the tag \<open>git:<sha>\<close>; an update replaces it.\<close>

definition team_set_note_source_ref :: "nat \<Rightarrow> string \<Rightarrow> string \<Rightarrow> bool team_op" where
  "team_set_note_source_ref pid note_id source_ref =
     bind (query (\<lambda>d. find (\<lambda>r. tr_sync_id r = note_id \<and> tr_project r = pid) (team_rows d))) (\<lambda>row.
     case row of None \<Rightarrow> ok False
     | Some r \<Rightarrow>
         (let tags = filter (\<lambda>t. \<not> starts_with t ''git:'') (split_csv (tr_tags r)) @ [''git:'' @ source_ref] in
          bind (team_update (\<lambda>q. tr_sync_id q = note_id \<and> tr_project q = pid)
            (\<lambda>q. q\<lparr>tr_tags := Some (join '','' tags)\<rparr>)) (\<lambda>changed. ok (changed > 0))))"

definition team_delete_note :: "nat \<Rightarrow> string \<Rightarrow> bool team_op" where
  "team_delete_note pid note_id =
     bind (query (\<lambda>d. resolve_rowid d pid note_id)) (\<lambda>found. case found of
       None \<Rightarrow> ok False
     | Some n \<Rightarrow>
         bind (modify (\<lambda>d. d\<lparr>team_vectors := filter (\<lambda>v. fst v \<noteq> n) (team_vectors d)\<rparr>)) (\<lambda>_.
         bind (team_delete_row pid n) (\<lambda>changed. ok (changed > 0))))"

text \<open>A vector for a row that still is active and still has none.\<close>

definition insert_embedding_if_missing :: "nat \<Rightarrow> 32 word list \<Rightarrow> bool team_op" where
  "insert_embedding_if_missing n v =
     bind (query (\<lambda>d. list_ex (\<lambda>r. tr_id r = n \<and> tr_status r = ''active'') (team_rows d))) (\<lambda>still_active.
     if \<not> still_active then ok False
     else bind (query (\<lambda>d. n \<in> set (map fst (team_vectors d)))) (\<lambda>already_embedded.
       if already_embedded then ok False
       else bind (team_insert_vector n v) (\<lambda>_. ok True)))"

section \<open>Reading\<close>

record server_note =
  sn_id :: string
  sn_kind :: string
  sn_title :: string
  sn_body :: string
  sn_tags :: "string list"
  sn_linked_files :: "string list"
  sn_created_at :: int
  sn_status :: string
  sn_superseded_by :: "string option"
  sn_remote_id :: "string option"

text \<open>\<open>LEFT JOIN notes s ON s.id = n.superseded_by\<close>.\<close>

definition team_row_to_note :: "team_db \<Rightarrow> team_row \<Rightarrow> server_note" where
  "team_row_to_note d r = \<lparr>sn_id = tr_sync_id r, sn_kind = tr_kind r, sn_title = tr_title r,
     sn_body = tr_body r, sn_tags = split_csv (tr_tags r),
     sn_linked_files = split_csv (tr_linked_files r), sn_created_at = tr_created_at r,
     sn_status = tr_status r,
     sn_superseded_by = Option.bind (tr_superseded_by r) (\<lambda>n.
       map_option tr_sync_id (find (\<lambda>q. tr_id q = n) (team_rows d))),
     sn_remote_id = tr_remote_id r\<rparr>"

definition team_get_note :: "team_db \<Rightarrow> nat \<Rightarrow> string \<Rightarrow> server_note option" where
  "team_get_note d pid note_id = map_option (team_row_to_note d)
     (find (\<lambda>r. tr_sync_id r = note_id \<and> tr_project r = pid) (team_rows d))"

text \<open>Newest first, the row id breaking ties.\<close>

definition team_list_notes ::
    "team_db \<Rightarrow> nat \<Rightarrow> string option \<Rightarrow> nat \<Rightarrow> bool \<Rightarrow> nat \<Rightarrow> server_note list" where
  "team_list_notes d pid kind_filter limit include_archived offset =
     map (team_row_to_note d) (take (min limit 500) (drop offset
       (rev (sort_key (\<lambda>r. (tr_created_at r, tr_id r)) (filter (\<lambda>r. tr_project r = pid \<and>
          (case kind_filter of None \<Rightarrow> True | Some k \<Rightarrow> tr_kind r = k) \<and>
          (include_archived \<or> tr_status r = ''active'')) (team_rows d))))))"

definition clamp_limit :: "int \<Rightarrow> nat" where
  "clamp_limit limit = nat (max 1 (min limit 500))"

definition notes_since :: "team_db \<Rightarrow> nat \<Rightarrow> int \<Rightarrow> int \<Rightarrow> server_note list" where
  "notes_since d pid since_secs limit = map (team_row_to_note d) (take (clamp_limit limit)
     (sort_key tr_created_at (filter (\<lambda>r. tr_project r = pid \<and> tr_created_at r > since_secs \<and>
        tr_status r \<noteq> ''archived'') (team_rows d))))"

record since_id_row =
  si_sync_id :: string
  si_kind :: string
  si_title :: string
  si_body :: string
  si_source_commit :: "string option"
  si_created_at :: int

definition source_commit_from_tags :: "string list \<Rightarrow> string option" where
  "source_commit_from_tags tags =
     (case List.map_filter (strip_prefix ''git:'') tags of [] \<Rightarrow> None | t # ts \<Rightarrow> Some t)"

definition row_to_since_id_row :: "team_row \<Rightarrow> since_id_row" where
  "row_to_since_id_row r = \<lparr>si_sync_id = tr_sync_id r, si_kind = tr_kind r, si_title = tr_title r,
     si_body = tr_body r, si_source_commit = source_commit_from_tags (split_csv (tr_tags r)),
     si_created_at = tr_created_at r\<rparr>"

definition notes_since_id :: "team_db \<Rightarrow> nat \<Rightarrow> string \<Rightarrow> int \<Rightarrow> since_id_row list" where
  "notes_since_id d pid since_cursor limit = map row_to_since_id_row (take (clamp_limit limit)
     (sort_key tr_sync_id (filter (\<lambda>r. tr_project r = pid \<and> tr_status r \<noteq> ''archived'' \<and>
        tr_sync_id r > since_cursor) (team_rows d))))"

definition active_note_count :: "team_db \<Rightarrow> nat \<Rightarrow> nat" where
  "active_note_count d pid =
     length (filter (\<lambda>r. tr_project r = pid \<and> tr_status r = ''active'') (team_rows d))"

record project_stats =
  ps_count :: nat
  ps_total :: nat
  ps_embedding_dim :: nat

definition team_stats :: "team_db \<Rightarrow> nat \<Rightarrow> project_stats" where
  "team_stats d pid = \<lparr>ps_count = active_note_count d pid,
     ps_total = length (filter (\<lambda>r. tr_project r = pid) (team_rows d)), ps_embedding_dim = embedding_dim d\<rparr>"

text \<open>The SQL filter \<open>LIKE '%git:%'\<close> is implied by the prefix the loop asks for.\<close>

definition team_harvested_shas :: "team_db \<Rightarrow> nat \<Rightarrow> string list" where
  "team_harvested_shas d pid = concat (map (\<lambda>r. case tr_tags r of None \<Rightarrow> []
      | Some tags \<Rightarrow> List.map_filter (strip_prefix ''git:'') (map trim (split_on (CHR '','') tags)))
     (filter (\<lambda>r. tr_project r = pid) (team_rows d)))"

record existing_note =
  ex_sync_id :: string
  ex_has_embedding :: bool

definition has_vector :: "team_db \<Rightarrow> nat \<Rightarrow> bool" where
  "has_vector d n = (n \<in> set (map fst (team_vectors d)))"

text \<open>Live rows only; a map keyed by the pushed identity.\<close>

definition find_by_remote_ids :: "team_db \<Rightarrow> nat \<Rightarrow> string list \<Rightarrow> (string \<times> existing_note) list" where
  "find_by_remote_ids d pid ids = fold (\<lambda>r m. case tr_remote_id r of None \<Rightarrow> m
      | Some x \<Rightarrow> AList.update x \<lparr>ex_sync_id = tr_sync_id r, ex_has_embedding = has_vector d (tr_id r)\<rparr> m)
     (filter (\<lambda>r. tr_project r = pid \<and> tr_status r = ''active'' \<and>
        (case tr_remote_id r of None \<Rightarrow> False | Some x \<Rightarrow> x \<in> set ids)) (team_rows d)) []"

record vectorless_note =
  vn_rowid :: nat
  vn_title :: string
  vn_body :: string

definition team_notes_missing_embeddings :: "team_db \<Rightarrow> nat \<Rightarrow> nat \<Rightarrow> vectorless_note list" where
  "team_notes_missing_embeddings d after_rowid limit =
     map (\<lambda>r. \<lparr>vn_rowid = tr_id r, vn_title = tr_title r, vn_body = tr_body r\<rparr>)
       (take limit (sort_key tr_id (filter (\<lambda>r. tr_status r = ''active'' \<and> tr_id r > after_rowid \<and>
          \<not> has_vector d (tr_id r)) (team_rows d))))"

section \<open>What every operation keeps\<close>

definition team_keys :: "team_db \<Rightarrow> bool" where
  "team_keys d = (sorted_wrt (<) (row_ids d) \<and> list_all (\<lambda>n. 0 < n \<and> n \<le> team_seq d) (row_ids d) \<and>
     distinct (map tr_sync_id (team_rows d)) \<and> distinct (remote_keys d))"

definition team_projects :: "team_db \<Rightarrow> bool" where
  "team_projects d = (sorted_wrt (<) (map prj_id (projects d)) \<and>
     list_all (\<lambda>n. n \<le> project_seq d) (map prj_id (projects d)) \<and> distinct (map prj_slug (projects d)) \<and>
     set (map tr_project (team_rows d)) \<subseteq> set (map prj_id (projects d)))"

definition team_refs :: "team_db \<Rightarrow> bool" where
  "team_refs d = (set (List.map_filter tr_superseded_by (team_rows d)) \<subseteq> set (row_ids d) \<and>
     distinct (team_edges d) \<and> list_all (\<lambda>e. te_from e \<in> set (row_ids d) \<and> te_to e \<in> set (row_ids d) \<and>
       te_kind e \<in> set TEAM_EDGE_KINDS) (team_edges d))"

definition team_vectors_ok :: "team_db \<Rightarrow> bool" where
  "team_vectors_ok d = (distinct (map fst (team_vectors d)) \<and>
     list_all (\<lambda>v. fst v \<in> set (row_ids d) \<and> length (snd v) = embedding_dim d) (team_vectors d))"

definition team_wf :: "team_db \<Rightarrow> bool" where
  "team_wf d = (team_keys d \<and> team_projects d \<and> team_refs d \<and> team_vectors_ok d)"

lemmas team_wf_defs = team_wf_def team_keys_def team_projects_def team_refs_def team_vectors_ok_def

lemma map_filter_snoc:
  "List.map_filter f (xs @ [x]) = List.map_filter f xs @ (case f x of None \<Rightarrow> [] | Some y \<Rightarrow> [y])"
  by (simp add: map_filter_def split: option.splits)

lemma map_filter_map: "List.map_filter f (map g xs) = List.map_filter (f \<circ> g) xs"
  by (simp add: map_filter_def filter_map comp_def)

lemma set_map_filter: "set (List.map_filter f xs) = {y. \<exists>x \<in> set xs. f x = Some y}"
  by (force simp: map_filter_def)

lemma row_ids_projects [simp]:
  "row_ids (d\<lparr>projects := ps\<rparr>) = row_ids d" "row_ids (d\<lparr>project_seq := n\<rparr>) = row_ids d"
  "remote_keys (d\<lparr>projects := ps\<rparr>) = remote_keys d" "remote_keys (d\<lparr>project_seq := n\<rparr>) = remote_keys d"
  by (simp_all add: row_ids_def remote_keys_def)

lemma team_wf_projects:
  "team_wf d \<Longrightarrow> team_projects (d\<lparr>projects := ps, project_seq := n\<rparr>) \<Longrightarrow>
     team_wf (d\<lparr>projects := ps, project_seq := n\<rparr>)"
  by (simp add: team_wf_def team_keys_def team_refs_def team_vectors_ok_def)

lemma team_keys_cong:
  "row_ids e = row_ids d \<Longrightarrow> team_seq e = team_seq d \<Longrightarrow>
   map tr_sync_id (team_rows e) = map tr_sync_id (team_rows d) \<Longrightarrow> remote_keys e = remote_keys d \<Longrightarrow>
   team_keys e = team_keys d"
  by (simp only: team_keys_def)

lemma team_projects_cong:
  "map prj_id (projects e) = map prj_id (projects d) \<Longrightarrow> project_seq e = project_seq d \<Longrightarrow>
   map prj_slug (projects e) = map prj_slug (projects d) \<Longrightarrow>
   map tr_project (team_rows e) = map tr_project (team_rows d) \<Longrightarrow> team_projects e = team_projects d"
  by (simp only: team_projects_def)

lemma empty_team_db_wf: "team_wf (empty_team_db dim mdl)"
  by (simp add: empty_team_db_def team_wf_defs remote_keys_def row_ids_def map_filter_def)

lemma team_insert_keeps: "tr_superseded_by r = None \<Longrightarrow> keeps (carries team_wf) (team_insert r)"
proof (rule keeps_state)
  fix d :: team_db assume sup: "tr_superseded_by r = None"
  show "carries team_wf d (fst (team_insert r d))"
  proof (cases "\<exists>n. snd (team_insert r d) = Inr n")
    case True
    then have new: "tr_sync_id r \<notin> set (map tr_sync_id (team_rows d))"
      "case remote_key r of None \<Rightarrow> True | Some k \<Rightarrow> k \<notin> set (remote_keys d)"
      "tr_project r \<in> set (map prj_id (projects d))"
      and d': "fst (team_insert r d) = d\<lparr>team_rows := team_rows d @ [r\<lparr>tr_id := Suc (team_seq d)\<rparr>],
        team_seq := Suc (team_seq d)\<rparr>"
      by (auto simp: team_insert_def split: if_splits option.splits)
    have k: "remote_key (r\<lparr>tr_id := Suc (team_seq d)\<rparr>) = remote_key r" by (simp add: remote_key_def)
    show ?thesis
      unfolding carries_def
    proof
      assume wf: "team_wf d"
      have "team_keys (fst (team_insert r d))" using wf new k
        by (auto simp: d' team_wf_def team_keys_def row_ids_def remote_keys_def map_filter_snoc
          sorted_wrt_append list_all_iff le_imp_less_Suc le_SucI split: option.splits)
      moreover have "team_projects (fst (team_insert r d))" using wf new
        by (auto simp: d' team_wf_def team_projects_def list_all_iff)
      moreover have "team_refs (fst (team_insert r d))" using wf sup
        by (auto simp: d' team_wf_def team_refs_def row_ids_def list_all_iff map_filter_snoc)
      moreover have "team_vectors_ok (fst (team_insert r d))" using wf
        by (auto simp: d' team_wf_def team_vectors_ok_def row_ids_def list_all_iff)
      ultimately show "team_wf (fst (team_insert r d))" by (simp add: team_wf_def)
    qed
  qed (auto simp: team_insert_def carries_def Let_def split: if_splits)
qed

lemma team_update_keeps:
  assumes "\<And>r. tr_id (f r) = tr_id r \<and> tr_project (f r) = tr_project r \<and>
    tr_remote_id (f r) = tr_remote_id r \<and> tr_sync_id (f r) = tr_sync_id r"
  shows "keeps (carries team_wf) (team_update P f)"
proof (rule keeps_state)
  fix d :: team_db
  let ?g = "\<lambda>r. if P r then f r else r"
  have g: "tr_id (?g r) = tr_id r" "tr_project (?g r) = tr_project r"
    "tr_remote_id (?g r) = tr_remote_id r" "tr_sync_id (?g r) = tr_sync_id r" for r
    using assms by simp_all
  let ?d = "d\<lparr>team_rows := map ?g (team_rows d)\<rparr>"
  have ids: "row_ids ?d = row_ids d" "map tr_sync_id (team_rows ?d) = map tr_sync_id (team_rows d)"
    by (simp_all add: row_ids_def g comp_def)
  have "remote_key \<circ> ?g = remote_key" by (rule ext) (simp add: remote_key_def g)
  then have rk: "remote_keys ?d = remote_keys d"
    by (simp add: remote_keys_def map_filter_map)
  show "carries team_wf d (fst (team_update P f d))"
  proof (cases "list_ex (\<lambda>r. P r \<and> (case tr_superseded_by (f r) of None \<Rightarrow> False
        | Some n \<Rightarrow> n \<notin> set (row_ids d))) (team_rows d)")
    case False
    then have d': "fst (team_update P f d) = ?d" by (simp add: team_update_def)
    have "team_wf d \<Longrightarrow> team_wf ?d"
      unfolding team_wf_def
    proof (intro conjI; elim conjE)
      show "team_keys d \<Longrightarrow> team_keys ?d" using team_keys_cong [OF ids(1) _ ids(2) rk] by simp
      show "team_projects d \<Longrightarrow> team_projects ?d"
        using team_projects_cong [of ?d d] by (simp add: comp_def g)
      show "team_refs d \<Longrightarrow> team_refs ?d" using False
        by (fastforce simp: team_refs_def ids list_all_iff list_ex_iff set_map_filter split: option.splits)
      show "team_vectors_ok d \<Longrightarrow> team_vectors_ok ?d" by (simp add: team_vectors_ok_def ids)
    qed
    then show ?thesis by (simp add: d' carries_def)
  qed (simp add: team_update_def carries_def)
qed

lemma update_project_keeps:
  assumes "\<And>p. prj_id (f p) = prj_id p \<and> prj_slug (f p) = prj_slug p"
  shows "keeps (carries team_wf) (update_project i f)"
proof (rule keeps_state)
  fix d :: team_db
  let ?ps = "map (\<lambda>p. if prj_id p = i then f p else p) (projects d)"
  have "map prj_id ?ps = map prj_id (projects d)" "map prj_slug ?ps = map prj_slug (projects d)"
    using assms by (auto simp: comp_def)
  then have "team_projects (d\<lparr>projects := ?ps, project_seq := project_seq d\<rparr>) = team_projects d"
    by (intro team_projects_cong) simp_all
  moreover have "d\<lparr>projects := ?ps, project_seq := project_seq d\<rparr> = d\<lparr>projects := ?ps\<rparr>" by simp
  ultimately have "team_wf d \<Longrightarrow> team_wf (d\<lparr>projects := ?ps\<rparr>)"
    using team_wf_projects [of d "project_seq d" ?ps] by (simp add: team_wf_def)
  then show "carries team_wf d (fst (update_project i f d))"
    by (simp add: carries_def update_project_def)
qed

lemma get_project_None: "get_project d slug = None \<longleftrightarrow> slug \<notin> set (map prj_slug (projects d))"
  by (auto simp: get_project_def find_None_iff)

lemma upsert_project_keeps: "keeps (carries team_wf) (upsert_project now slug dim mdl)"
proof (rule keeps_state)
  fix d :: team_db
  show "carries team_wf d (fst (upsert_project now slug dim mdl d))"
  proof (cases "get_project d slug")
    case None
    let ?p = "\<lparr>prj_id = Suc (project_seq d), prj_slug = slug, prj_embedding_dim = dim,
      prj_embedding_model = Some mdl, prj_created_at = now\<rparr>"
    have "team_projects d \<Longrightarrow>
        team_projects (d\<lparr>projects := projects d @ [?p], project_seq := Suc (project_seq d)\<rparr>)"
      using None by (auto simp: team_projects_def get_project_None sorted_wrt_append list_all_iff
        le_imp_less_Suc le_SucI)
    then show ?thesis using None team_wf_projects [of d "Suc (project_seq d)" "projects d @ [?p]"]
      by (simp add: upsert_project_def insert_project_def Let_def carries_def team_wf_def)
  next
    case (Some p)
    have "keeps (carries team_wf) (update_project i (\<lambda>q. q\<lparr>prj_embedding_dim := dim\<rparr>))"
      "keeps (carries team_wf) (update_project i (\<lambda>q. q\<lparr>prj_embedding_model := Some mdl\<rparr>))" for i
      by (rule update_project_keeps; simp)+
    then have "keeps (carries team_wf) (case project_conflict p slug dim mdl of Some e \<Rightarrow> fail e
       | None \<Rightarrow> bind (if prj_embedding_dim p = 0
                 then bind (update_project (prj_id p) (\<lambda>q. q\<lparr>prj_embedding_dim := dim\<rparr>))
                   (\<lambda>_. ok (p\<lparr>prj_embedding_dim := dim\<rparr>))
                 else ok p) (\<lambda>p.
           if prj_embedding_model p = None
           then bind (update_project (prj_id p) (\<lambda>q. q\<lparr>prj_embedding_model := Some mdl\<rparr>))
             (\<lambda>_. ok (p\<lparr>prj_embedding_model := Some mdl\<rparr>))
           else ok p))"
      by (intro keeps_case_option keeps_If inv.keeps_intros)
    then show ?thesis by (simp add: upsert_project_def Some keeps_def)
  qed
qed

end
