(* ===== verification/Team_Handlers.thy ===== *)
theory Team_Handlers
  imports Team_Db
begin

text \<open>
  The requests of the sync protocol as the team server answers them (\<open>handlers/mod.rs\<close>,
  \<open>handlers/batch.rs\<close>, \<open>handlers/sync.rs\<close>, \<open>handlers/notes.rs\<close>, \<open>security.rs\<close>). Every handler
  runs under the database lock, so a request is one step. Regular expressions, the UUID and date
  libraries and the arithmetic of floating point are parameters; what the embedder answered is an
  argument.
\<close>

section \<open>Checks before anything is written\<close>

record server_env =
  is_uuid_v7 :: "string \<Rightarrow> bool"
  vector_usable :: "32 word list \<Rightarrow> bool"
  injection_matches :: "string \<Rightarrow> string \<Rightarrow> bool"
  rfc3339 :: "int \<Rightarrow> string"
  model_id :: string

datatype app_error =
    Bad_Request
  | Injection_Detected string string
  | Embed_Queue_Full
  | Not_Found
  | Db_Error team_error

definition MAX_TITLE_LEN :: int where "MAX_TITLE_LEN = 500"
definition MAX_BODY_LEN :: int where "MAX_BODY_LEN = 50000"
definition MAX_SLUG_LEN :: int where "MAX_SLUG_LEN = 200"
definition MAX_BATCH_ENTRIES :: int where "MAX_BATCH_ENTRIES = 200"

definition require :: "bool \<Rightarrow> app_error \<Rightarrow> app_error + unit" where
  "require b e = (if b then Inr () else Inl e)"

definition validate_project_slug :: "string \<Rightarrow> app_error + unit" where
  "validate_project_slug slug = require (slug \<noteq> [] \<and> int (length slug) \<le> MAX_SLUG_LEN) Bad_Request"

definition validate_title_body :: "string \<Rightarrow> string \<Rightarrow> app_error + unit" where
  "validate_title_body title body =
     require (int (length title) \<le> MAX_TITLE_LEN \<and> int (length body) \<le> MAX_BODY_LEN) Bad_Request"

definition validate_pushed_vector ::
    "server_env \<Rightarrow> 32 word list option \<Rightarrow> string option \<Rightarrow> string option \<Rightarrow> nat \<Rightarrow> app_error + unit" where
  "validate_pushed_vector E vector mdl precision configured_dim = (case vector of
     None \<Rightarrow> Inr ()
   | Some v \<Rightarrow> require (mdl = Some (pushed_vector_model_tag (model_id E)) \<and>
       precision = Some PUSHED_VECTOR_PRECISION \<and>
       (configured_dim = 0 \<or> length v = configured_dim) \<and> vector_usable E v) Bad_Request)"

definition validate_optional_uuid_v7 :: "server_env \<Rightarrow> string option \<Rightarrow> app_error + unit" where
  "validate_optional_uuid_v7 E i = (case i of None \<Rightarrow> Inr () | Some x \<Rightarrow> require (is_uuid_v7 E x) Bad_Request)"

definition INJECTION_CATEGORIES :: "string list" where
  "INJECTION_CATEGORIES = [''ignore_instructions'', ''you_are_now'', ''new_persona'', ''disregard'',
     ''forget'', ''system_prefix'', ''role_override'', ''jailbreak_sudo'', ''developer_mode'',
     ''system_override'', ''reveal_prompt'', ''repeat_above'']"

text \<open>The field and the category of the first pattern that matches, the title before the body.\<close>

definition scan_for_injection :: "server_env \<Rightarrow> string \<Rightarrow> string \<Rightarrow> (string \<times> string) option" where
  "scan_for_injection E title body =
     map_option (\<lambda>c. (if injection_matches E c title then ''title'' else ''body'', c))
       (find (\<lambda>c. injection_matches E c title \<or> injection_matches E c body) INJECTION_CATEGORIES)"

definition refuse_injection :: "server_env \<Rightarrow> string \<Rightarrow> string \<Rightarrow> app_error + unit" where
  "refuse_injection E title body = (case scan_for_injection E title body of
     None \<Rightarrow> Inr () | Some (field, category) \<Rightarrow> Inl (Injection_Detected field category))"

definition require_project :: "team_db \<Rightarrow> string \<Rightarrow> app_error + project" where
  "require_project d slug = and_then (validate_project_slug slug) (\<lambda>_.
     case get_project d slug of None \<Rightarrow> Inl Not_Found | Some p \<Rightarrow> Inr p)"

section \<open>Vectors for storage\<close>

datatype storage_embedding = Vectors "32 word list list" | Embedder_Not_Ready | Embedding_Failed

text \<open>
  \<open>answer\<close> is what the backend gives for the texts: \<open>None\<close> is an error; \<open>ready\<close> and \<open>admitted\<close>
  say whether there is a backend and a free place in the lane.
\<close>

definition embed_for_storage ::
    "bool \<Rightarrow> bool \<Rightarrow> (string list \<Rightarrow> 32 word list list option) \<Rightarrow> string list \<Rightarrow>
     app_error + storage_embedding" where
  "embed_for_storage ready admitted answer texts =
     (if texts = [] then Inr (Vectors [])
      else if \<not> ready then Inr Embedder_Not_Ready
      else if \<not> admitted then Inl Embed_Queue_Full
      else case answer texts of
        Some vs \<Rightarrow> if length vs = length texts then Inr (Vectors vs) else Inr Embedding_Failed
      | None \<Rightarrow> Inr Embedding_Failed)"

definition storage_embedding_text :: "string \<Rightarrow> string \<Rightarrow> string" where
  "storage_embedding_text title body = ''title: '' @ title @ '' | text: '' @ body"

section \<open>Pushing a batch\<close>

record batch_note_result =
  nr_status :: string
  nr_external_id :: string
  nr_id :: "string option"
  nr_embedded :: bool

record batch_push_response =
  resp_created :: nat
  resp_skipped :: nat
  resp_results :: "batch_note_result list"
  resp_needs_repair :: bool

definition body_of :: "batch_push_item \<Rightarrow> string" where
  "body_of e = (case bi_body e of Some b \<Rightarrow> b | None \<Rightarrow> [])"

definition validate_entry :: "server_env \<Rightarrow> nat \<Rightarrow> batch_push_item \<Rightarrow> app_error + unit" where
  "validate_entry E configured_dim e =
     and_then (validate_title_body (bi_title e) (body_of e)) (\<lambda>_.
     and_then (validate_pushed_vector E (bi_vector e) (bi_vector_model e) (bi_vector_precision e)
       configured_dim) (\<lambda>_.
     and_then (require (bi_external_id e \<noteq> []) Bad_Request) (\<lambda>_.
     and_then (validate_optional_uuid_v7 E (bi_id e)) (\<lambda>_.
     refuse_injection E (bi_title e) (body_of e)))))"

definition validate_batch :: "server_env \<Rightarrow> nat \<Rightarrow> string \<Rightarrow> batch_push_item list \<Rightarrow> app_error + unit" where
  "validate_batch E configured_dim slug entries =
     and_then (validate_project_slug slug) (\<lambda>_.
     and_then (require (int (length entries) \<le> MAX_BATCH_ENTRIES) Bad_Request) (\<lambda>_.
     try_fold (\<lambda>e _. validate_entry E configured_dim e) entries ()))"

text \<open>The vectors of the entries that came without one, in input order.\<close>

fun server_embeddings :: "batch_push_item list \<Rightarrow> 32 word list list \<Rightarrow> 32 word list option list" where
  "server_embeddings [] vs = []"
| "server_embeddings (e # es) vs = (if bi_vector e \<noteq> None then None # server_embeddings es vs
     else case vs of [] \<Rightarrow> None # server_embeddings es [] | v # ws \<Rightarrow> Some v # server_embeddings es ws)"

definition on_db :: "'a team_op \<Rightarrow> (team_db, app_error, 'a) st" where
  "on_db m = (\<lambda>d. case m d of (t, Inl e) \<Rightarrow> (t, Inl (Db_Error e)) | (t, Inr x) \<Rightarrow> (t, Inr x))"

record batch_progress =
  bp_existing :: "(string \<times> existing_note) list"
  bp_response :: batch_push_response

text \<open>One entry: \<open>minted\<close> is the id it gets unless it brings its own.\<close>

definition batch_step ::
    "int \<Rightarrow> nat \<Rightarrow> string \<times> 32 word list option \<times> batch_push_item \<Rightarrow> batch_progress \<Rightarrow>
     (team_db, app_error, batch_progress) st" where
  "batch_step now pid p acc = (case p of (minted, server_vector, e) \<Rightarrow>
     (case map_of (bp_existing acc) (bi_external_id e) of
        Some old \<Rightarrow> ok (acc\<lparr>bp_response := (bp_response acc)
          \<lparr>resp_skipped := Suc (resp_skipped (bp_response acc)),
           resp_results := resp_results (bp_response acc) @ [\<lparr>nr_status = ''skipped'',
             nr_external_id = bi_external_id e, nr_id = Some (ex_sync_id old),
             nr_embedded = ex_has_embedding old\<rparr>],
           resp_needs_repair := resp_needs_repair (bp_response acc) \<or> \<not> ex_has_embedding old\<rparr>\<rparr>)
      | None \<Rightarrow>
          (let embedding = (case bi_vector e of Some v \<Rightarrow> Some v | None \<Rightarrow> server_vector);
               tags = (case bi_source_commit e of Some sha \<Rightarrow> [''git:'' @ sha] | None \<Rightarrow> []) in
           bind (on_db (team_add_note_with_sync_id now minted pid (bi_kind e) (bi_title e) (body_of e)
             tags [] embedding (Some (bi_external_id e)) (bi_id e))) (\<lambda>(_, note_id).
           ok \<lparr>bp_existing = AList.update (bi_external_id e)
                 \<lparr>ex_sync_id = note_id, ex_has_embedding = embedding \<noteq> None\<rparr> (bp_existing acc),
               bp_response = (bp_response acc)
                 \<lparr>resp_created := Suc (resp_created (bp_response acc)),
                  resp_results := resp_results (bp_response acc) @ [\<lparr>nr_status = ''created'',
                    nr_external_id = bi_external_id e, nr_id = Some note_id,
                    nr_embedded = embedding \<noteq> None\<rparr>],
                  resp_needs_repair := resp_needs_repair (bp_response acc) \<or> embedding = None\<rparr>\<rparr>))))"

definition no_response :: batch_push_response where
  "no_response = \<lparr>resp_created = 0, resp_skipped = 0, resp_results = [], resp_needs_repair = False\<rparr>"

definition push_memory_batch ::
    "server_env \<Rightarrow> int \<Rightarrow> (string list \<Rightarrow> app_error + storage_embedding) \<Rightarrow> string list \<Rightarrow> string \<Rightarrow>
     batch_push_item list \<Rightarrow> (team_db, app_error, batch_push_response) st" where
  "push_memory_batch E now embed_texts minted slug entries =
     bind (reading (\<lambda>d. validate_batch E (embedding_dim d) slug entries)) (\<lambda>_.
     bind (lift (embed_texts (map (\<lambda>e. storage_embedding_text (bi_title e) (body_of e))
       (filter (\<lambda>e. bi_vector e = None) entries)))) (\<lambda>answer.
     let vectors = server_embeddings entries (case answer of Vectors vs \<Rightarrow> vs | _ \<Rightarrow> []) in
     bind (query (\<lambda>d. (embedding_dim d, embedding_model d))) (\<lambda>(dim, mdl).
     bind (on_db (upsert_project now slug dim mdl)) (\<lambda>p.
     bind (query (\<lambda>d. find_by_remote_ids d (prj_id p) (map bi_external_id entries))) (\<lambda>existing.
     bind (fold_each (batch_step now (prj_id p)) (zip minted (zip vectors entries))
       \<lparr>bp_existing = existing, bp_response = no_response\<rparr>) (\<lambda>final.
     ok (bp_response final)))))))"

section \<open>Adding one entry\<close>

record add_note_request =
  rq_kind :: string
  rq_title :: string
  rq_body :: string
  rq_tags :: "string list"
  rq_linked_files :: "string list"
  rq_vector :: "32 word list option"
  rq_vector_model :: "string option"
  rq_vector_precision :: "string option"
  rq_reconcile :: "string option"
  rq_resolutions :: "(string \<times> string) list"

datatype add_note_answer = Stored string | Refused_As_Duplicate

text \<open>\<open>duplicate\<close> says whether the vector search reports a duplicate.\<close>

definition team_handle_add_note ::
    "server_env \<Rightarrow> int \<Rightarrow> (string list \<Rightarrow> app_error + storage_embedding) \<Rightarrow>
     (team_db \<Rightarrow> nat \<Rightarrow> 32 word list option \<Rightarrow> bool) \<Rightarrow> string \<Rightarrow> string \<Rightarrow> add_note_request \<Rightarrow>
     (team_db, app_error, add_note_answer) st" where
  "team_handle_add_note E now embed_texts duplicate minted slug req =
     bind (lift (validate_project_slug slug)) (\<lambda>_.
     bind (lift (validate_title_body (rq_title req) (rq_body req))) (\<lambda>_.
     bind (reading (\<lambda>d. validate_pushed_vector E (rq_vector req) (rq_vector_model req)
       (rq_vector_precision req) (embedding_dim d))) (\<lambda>_.
     bind (lift (refuse_injection E (rq_title req) (rq_body req))) (\<lambda>_.
     bind (if rq_vector req = None
           then bind (lift (embed_texts [storage_embedding_text (rq_title req) (rq_body req)])) (\<lambda>a.
             ok (case a of Vectors vs \<Rightarrow> if vs = [] then None else Some (last vs) | _ \<Rightarrow> None))
           else ok None) (\<lambda>server_vector.
     let embedding = (case rq_vector req of Some v \<Rightarrow> Some v | None \<Rightarrow> server_vector);
         dim = (case embedding of Some v \<Rightarrow> length v | None \<Rightarrow> 0) in
     bind (query embedding_model) (\<lambda>mdl.
     bind (on_db (upsert_project now slug dim mdl)) (\<lambda>p.
     bind (query (\<lambda>d. duplicate d (prj_id p) embedding)) (\<lambda>dup.
     if rq_reconcile req = Some ''block'' \<and> dup \<and> rq_resolutions req = [] then ok Refused_As_Duplicate
     else bind (on_db (team_add_note_with_resolutions now minted (prj_id p) (rq_kind req) (rq_title req)
         (rq_body req) (rq_tags req) (rq_linked_files req) embedding (rq_resolutions req)))
       (\<lambda>(_, note_id). ok (Stored note_id))))))))))"

section \<open>Pulling\<close>

definition wire_since_entry :: "server_env \<Rightarrow> since_id_row \<Rightarrow> remote_entry" where
  "wire_since_entry E r = \<lparr>re_id = si_sync_id r, re_kind = si_kind r, re_title = si_title r,
     re_body = (if si_body r = [] then None else Some (si_body r)),
     re_source_commit = si_source_commit r, re_archived_at = None,
     re_created_at = rfc3339 E (si_created_at r)\<rparr>"

datatype since_answer = Delta since_page | Legacy "server_note list"

definition memory_since ::
    "server_env \<Rightarrow> team_db \<Rightarrow> string \<Rightarrow> string option \<Rightarrow> int option \<Rightarrow> int \<Rightarrow> app_error + since_answer" where
  "memory_since E d slug since_id t limit =
     and_then (require_project d slug) (\<lambda>p. case since_id of
       Some c \<Rightarrow> Inr (Delta \<lparr>page_entries = map (wire_since_entry E) (notes_since_id d (prj_id p) c limit),
           page_total = Some (int (active_note_count d (prj_id p)))\<rparr>)
     | None \<Rightarrow> (case t of None \<Rightarrow> Inl Bad_Request | Some t \<Rightarrow> Inr (Legacy (notes_since d (prj_id p) t limit))))"

text \<open>
  One poll of the event stream: the notes after the newest second seen so far, and that second
  after them; no project, no events.
\<close>

definition stream_poll :: "team_db \<Rightarrow> string \<Rightarrow> int \<Rightarrow> server_note list \<times> int" where
  "stream_poll d slug last_seen = (case get_project d slug of
     None \<Rightarrow> ([], last_seen)
   | Some p \<Rightarrow> (let ns = notes_since d (prj_id p) last_seen 50
                in (ns, fold (\<lambda>n m. max m (sn_created_at n)) ns last_seen)))"

text \<open>What the status of a refusal is, and the answer a client sees.\<close>

definition app_status :: "app_error \<Rightarrow> nat" where
  "app_status e = (case e of Bad_Request \<Rightarrow> 400 | Injection_Detected _ _ \<Rightarrow> 422 | Embed_Queue_Full \<Rightarrow> 429
     | Not_Found \<Rightarrow> 404
     | Db_Error d \<Rightarrow> (case d of Dimension_Mismatch _ _ _ \<Rightarrow> 400 | Model_Mismatch _ _ _ \<Rightarrow> 400 | _ \<Rightarrow> 500))"

definition wire_batch_result :: "batch_push_response \<Rightarrow> batch_push_result" where
  "wire_batch_result r = \<lparr>created_count = word_of_nat (resp_created r),
     skipped_count = word_of_nat (resp_skipped r), failed_count = 0,
     item_results = map (\<lambda>x. \<lparr>ir_status = nr_status x, ir_external_id = Some (nr_external_id x),
       ir_id = nr_id x\<rparr>) (resp_results r)\<rparr>"

end
