(* ===== verification/Team_Repair.thy ===== *)
theory Team_Repair
  imports Team_Handlers
begin

text \<open>
  The background repair of entries stored without a vector (\<open>repair.rs\<close>): a sweep reads the
  vectorless rows page by page, embeds a page, and writes the vectors that are still missing. The
  embedder is outside the program: whether it is ready, whether its lane admits a request and what
  it answers are functions of a state \<open>'w\<close> of its own that moves on with every request.
\<close>

record 'w embedder =
  emb_ready :: "'w \<Rightarrow> bool"
  emb_admits :: "'w \<Rightarrow> bool"
  emb_answer :: "'w \<Rightarrow> string list \<Rightarrow> 32 word list list option"
  emb_next :: "'w \<Rightarrow> 'w"

definition ask_embedder ::
    "'w embedder \<Rightarrow> string list \<Rightarrow> 'w \<Rightarrow> (app_error + storage_embedding) \<times> 'w" where
  "ask_embedder B texts w =
     (embed_for_storage (emb_ready B w) (emb_admits B w) (emb_answer B w) texts, emb_next B w)"

record repair_stats =
  scanned :: nat
  repaired :: nat
  failed :: nat
  stopped_early :: bool
  stopped_saturated :: bool

definition REPAIR_PAGE_SIZE :: nat where
  "REPAIR_PAGE_SIZE = 32"

datatype page_outcome = Page_Vectors "32 word list option list" | Stop_Not_Ready | Stop_Saturated

text \<open>One text at a time, after the page as a whole was refused.\<close>

fun embed_each ::
    "'w embedder \<Rightarrow> string list \<Rightarrow> 32 word list option list \<Rightarrow> 'w \<Rightarrow> page_outcome \<times> 'w" where
  "embed_each B [] out w = (Page_Vectors out, w)"
| "embed_each B (t # ts) out w = (case ask_embedder B [t] w of
     (Inr (Vectors vs), w') \<Rightarrow> embed_each B ts (out @ [if vs = [] then None else Some (last vs)]) w'
   | (Inr Embedding_Failed, w') \<Rightarrow> embed_each B ts (out @ [None]) w'
   | (Inr Embedder_Not_Ready, w') \<Rightarrow> (Stop_Not_Ready, w')
   | (Inl _, w') \<Rightarrow> (Stop_Saturated, w'))"

definition embed_page :: "'w embedder \<Rightarrow> vectorless_note list \<Rightarrow> 'w \<Rightarrow> page_outcome \<times> 'w" where
  "embed_page B page w =
     (let texts = map (\<lambda>n. storage_embedding_text (vn_title n) (vn_body n)) page in
      case ask_embedder B texts w of
        (Inr (Vectors vs), w') \<Rightarrow> (Page_Vectors (map Some vs), w')
      | (Inr Embedder_Not_Ready, w') \<Rightarrow> (Stop_Not_Ready, w')
      | (Inr Embedding_Failed, w') \<Rightarrow> embed_each B texts [] w'
      | (Inl _, w') \<Rightarrow> (Stop_Saturated, w'))"

definition repair_row ::
    "vectorless_note \<times> 32 word list option \<Rightarrow> repair_stats \<Rightarrow> repair_stats team_op" where
  "repair_row p stats = (case snd p of
     None \<Rightarrow> ok (stats\<lparr>failed := Suc (failed stats)\<rparr>)
   | Some v \<Rightarrow> bind (insert_embedding_if_missing (vn_rowid (fst p)) v) (\<lambda>written.
       ok (if written then stats\<lparr>repaired := Suc (repaired stats)\<rparr> else stats)))"

lemma insert_embedding_rows: "team_rows (fst (insert_embedding_if_missing n v d)) = team_rows d"
  by (simp add: insert_embedding_if_missing_def team_insert_vector_def bind_def split: prod.splits sum.splits)

lemma repair_row_rows: "team_rows (fst (repair_row p stats d)) = team_rows d"
  using insert_embedding_rows [of "vn_rowid (fst p)" "the (snd p)" d]
  by (auto simp: repair_row_def bind_def split: option.splits prod.splits sum.splits)

lemma repair_rows_rows:
  "team_rows (fst (fold_each repair_row ps stats d)) = team_rows d"
proof (induction ps arbitrary: stats d)
  case (Cons p ps)
  show ?case
  proof (cases "repair_row p stats d")
    case (Pair e r)
    with repair_row_rows [of p stats d] Cons show ?thesis
      by (cases r) (simp_all add: bind_def)
  qed
qed simp

lemma missing_above:
  "n \<in> set (team_notes_missing_embeddings d c k) \<Longrightarrow> c < vn_rowid n \<and> vn_rowid n \<in> set (row_ids d)"
  unfolding team_notes_missing_embeddings_def row_ids_def
  by (auto dest!: in_set_takeD)

text \<open>The sweep from a cursor, with the state of the embedder.\<close>

function repair_loop ::
    "'w embedder \<Rightarrow> nat \<Rightarrow> nat \<Rightarrow> repair_stats \<Rightarrow> 'w \<Rightarrow> team_db \<Rightarrow>
     (team_error + repair_stats) \<times> 'w \<times> team_db" where
  "repair_loop B page_size c stats w d =
     (let page = team_notes_missing_embeddings d c page_size in
      if page = [] then (Inr stats, w, d)
      else case embed_page B page w of
        (Stop_Not_Ready, w') \<Rightarrow> (Inr (stats\<lparr>stopped_early := True\<rparr>), w', d)
      | (Stop_Saturated, w') \<Rightarrow> (Inr (stats\<lparr>stopped_early := True, stopped_saturated := True\<rparr>), w', d)
      | (Page_Vectors vs, w') \<Rightarrow>
          (case fold_each repair_row (zip page vs) (stats\<lparr>scanned := scanned stats + length page\<rparr>) d of
             (d', Inl e) \<Rightarrow> (Inl e, w', d')
           | (d', Inr stats') \<Rightarrow> repair_loop B page_size (vn_rowid (last page)) stats' w' d'))"
  by pat_completeness auto
termination
proof (relation "measure (\<lambda>(B, page_size, c, stats, w, d). length (filter (\<lambda>n. c < n) (row_ids d)))", goal_cases)
  case (2 B page_size c stats w d page out w' vs d' r stats')
  let ?m = "vn_rowid (last page)"
  have last: "c < ?m" "?m \<in> set (row_ids d)"
    using missing_above [of "last page" d c page_size] 2(1,2) by (simp_all add: last_in_set)
  have "row_ids d' = row_ids d"
    using repair_rows_rows [of "zip page vs" "stats\<lparr>scanned := scanned stats + length page\<rparr>" d] 2(5)
    by (metis fst_conv row_ids_def)
  moreover have "filter (\<lambda>n. ?m < n) (row_ids d) = filter (\<lambda>n. ?m < n) (filter (\<lambda>n. c < n) (row_ids d))"
    using last(1) by (auto intro: filter_cong)
  moreover have "length (filter (\<lambda>n. ?m < n) (filter (\<lambda>n. c < n) (row_ids d))) <
      length (filter (\<lambda>n. c < n) (row_ids d))"
    by (rule length_filter_less [of ?m]) (use last in auto)
  ultimately show ?case by simp
qed simp

declare repair_loop.simps [simp del]

definition repair_missing_embeddings ::
    "'w embedder \<Rightarrow> nat \<Rightarrow> 'w \<Rightarrow> team_db \<Rightarrow> (team_error + repair_stats) \<times> 'w \<times> team_db" where
  "repair_missing_embeddings B page_size w d = repair_loop B (max page_size 1) 0
     \<lparr>scanned = 0, repaired = 0, failed = 0, stopped_early = False, stopped_saturated = False\<rparr> w d"

section \<open>What a page does\<close>

definition missing_rows :: "team_db \<Rightarrow> nat \<Rightarrow> team_row list" where
  "missing_rows d c = filter (\<lambda>r. tr_status r = ''active'' \<and> c < tr_id r \<and> \<not> has_vector d (tr_id r)) (team_rows d)"

definition vectorless_of :: "team_row \<Rightarrow> vectorless_note" where
  "vectorless_of r = \<lparr>vn_rowid = tr_id r, vn_title = tr_title r, vn_body = tr_body r\<rparr>"

lemma missing_page:
  assumes "team_wf d"
  shows "team_notes_missing_embeddings d c k = map vectorless_of (take k (missing_rows d c))"
proof -
  have "sorted (map tr_id (missing_rows d c))"
    using assms by (auto simp: missing_rows_def team_wf_def team_keys_def row_ids_def
      intro: sorted_filter strict_sorted_imp_sorted)
  then have "sort_key tr_id (missing_rows d c) = missing_rows d c" by (rule sort_key_id_if_sorted)
  then show ?thesis
    by (simp add: team_notes_missing_embeddings_def missing_rows_def vectorless_of_def)
qed

definition filled :: "(vectorless_note \<times> 32 word list option) list \<Rightarrow> (nat \<times> 32 word list) list" where
  "filled ps = List.map_filter (\<lambda>p. map_option (Pair (vn_rowid (fst p))) (snd p)) ps"

definition add_vectors :: "team_db \<Rightarrow> (nat \<times> 32 word list) list \<Rightarrow> team_db" where
  "add_vectors d new = d\<lparr>team_vectors := team_vectors d @ new\<rparr>"

lemma filled_simps:
  "filled [] = []" "filled ((n, None) # ps) = filled ps" "filled ((n, Some v) # ps) = (vn_rowid n, v) # filled ps"
  by (simp_all add: filled_def List.map_filter_simps)

lemma add_vectors_simps:
  "add_vectors (add_vectors d a) b = add_vectors d (a @ b)" "add_vectors d [] = d"
  "team_rows (add_vectors d a) = team_rows d" "row_ids (add_vectors d a) = row_ids d"
  "embedding_dim (add_vectors d a) = embedding_dim d"
  "has_vector (add_vectors d a) n \<longleftrightarrow> has_vector d n \<or> n \<in> set (map fst a)"
  by (auto simp: add_vectors_def row_ids_def has_vector_def)

lemma length_filled: "length (filled ps) \<le> length ps"
  unfolding filled_def map_filter_def by (simp add: le_trans [OF length_filter_le])

definition fillable :: "team_db \<Rightarrow> vectorless_note \<times> 32 word list option \<Rightarrow> bool" where
  "fillable d p = ((\<exists>r \<in> set (team_rows d). tr_id r = vn_rowid (fst p) \<and> tr_status r = ''active'') \<and>
     (\<forall>v. snd p = Some v \<longrightarrow> length v = embedding_dim d) \<and> \<not> has_vector d (vn_rowid (fst p)))"

lemma repair_rows_run:
  assumes "\<forall>p \<in> set ps. fillable d p" and "distinct (map (vn_rowid \<circ> fst) ps)"
  shows "fold_each repair_row ps stats d = (add_vectors d (filled ps),
     Inr (stats\<lparr>repaired := repaired stats + length (filled ps),
       failed := failed stats + (length ps - length (filled ps))\<rparr>))"
  using assms
proof (induction ps arbitrary: stats d)
  case Nil
  then show ?case by (simp add: filled_simps add_vectors_simps)
next
  case (Cons p ps)
  obtain n v where p: "p = (n, v)" by fastforce
  show ?case
  proof (cases v)
    case None
    with Cons p show ?thesis
      using length_filled [of ps] by (simp add: repair_row_def filled_simps bind_Inr Suc_diff_le)
  next
    case (Some x)
    let ?d = "add_vectors d [(vn_rowid n, x)]" and ?st = "stats\<lparr>repaired := Suc (repaired stats)\<rparr>"
    have "fillable d (n, Some x)" using Cons.prems p Some by simp
    then have "insert_embedding_if_missing (vn_rowid n) x d = (?d, Inr True)"
      by (auto simp: insert_embedding_if_missing_def team_insert_vector_def bind_def add_vectors_def
        has_vector_def list_ex_iff fillable_def)
    then have "repair_row p stats d = (?d, Inr ?st)"
      by (simp add: repair_row_def p Some bind_Inr)
    moreover have "\<forall>q \<in> set ps. fillable ?d q"
    proof
      fix q assume q: "q \<in> set ps"
      then have "fillable d q" "vn_rowid (fst q) \<noteq> vn_rowid n"
        using Cons.prems p by (auto simp: image_iff) 
      then show "fillable ?d q" by (simp add: fillable_def add_vectors_simps)
    qed
    then have "fold_each repair_row ps ?st ?d = (add_vectors ?d (filled ps),
        Inr (?st\<lparr>repaired := repaired ?st + length (filled ps),
           failed := failed ?st + (length ps - length (filled ps))\<rparr>))"
      using Cons.prems by (intro Cons.IH) auto
    ultimately show ?thesis by (simp add: p Some filled_simps bind_Inr add_vectors_simps)
  qed
qed

section \<open>What a sweep does\<close>

definition good_vectors :: "'w embedder \<Rightarrow> nat \<Rightarrow> bool" where
  "good_vectors B dim = (\<forall>w texts vs. emb_answer B w texts = Some vs \<longrightarrow> (\<forall>v \<in> set vs. length v = dim))"

lemma ask_embedder_vectors:
  assumes "good_vectors B dim" and "ask_embedder B texts w = (Inr (Vectors vs), w')"
  shows "length vs = length texts \<and> (\<forall>v \<in> set vs. length v = dim)"
  using assms by (auto simp: ask_embedder_def embed_for_storage_def good_vectors_def split: if_splits option.splits)

lemma embed_each_vectors:
  assumes "good_vectors B dim" and "embed_each B ts out w = (Page_Vectors vs, w')"
    and "\<forall>v. Some v \<in> set out \<longrightarrow> length v = dim"
  shows "length vs = length out + length ts \<and> (\<forall>v. Some v \<in> set vs \<longrightarrow> length v = dim)"
  using assms(2,3)
proof (induction ts arbitrary: out w)
  case (Cons t ts)
  obtain a w1 where a: "ask_embedder B [t] w = (a, w1)" by fastforce
  show ?case
  proof (cases a)
    case (Inr e)
    show ?thesis
    proof (cases e)
      case (Vectors us)
      with a Inr have "length us = 1" "\<forall>v \<in> set us. length v = dim"
        using ask_embedder_vectors [OF assms(1), of "[t]" w us w1] by auto
      then have "\<forall>v. Some v \<in> set (out @ [if us = [] then None else Some (last us)]) \<longrightarrow> length v = dim"
        using Cons.prems(2) by auto
      from Cons.IH [OF _ this] Cons.prems(1) a Inr Vectors show ?thesis by simp
    next
      case Embedding_Failed
      with Cons.IH [of "out @ [None]" w1] Cons.prems a Inr show ?thesis by simp
    qed (use Cons.prems a Inr in simp)
  qed (use Cons.prems a in simp)
qed simp

lemma embed_page_vectors:
  assumes "good_vectors B dim" and "embed_page B page w = (Page_Vectors vs, w')"
  shows "length vs = length page \<and> (\<forall>v. Some v \<in> set vs \<longrightarrow> length v = dim)"
  using assms(2) ask_embedder_vectors [OF assms(1)] embed_each_vectors [OF assms(1), of _ "[]"]
  unfolding embed_page_def Let_def
  by (fastforce split: prod.splits sum.splits storage_embedding.splits)

lemma add_vectors_wf:
  assumes "team_wf d" and "distinct (map fst new)" and "\<forall>n \<in> set (map fst new). \<not> has_vector d n"
    and "set (map fst new) \<subseteq> set (row_ids d)" and "\<forall>v. v \<in> set (map snd new) \<longrightarrow> length v = embedding_dim d"
  shows "team_wf (add_vectors d new)"
proof -
  have "team_vectors_ok (add_vectors d new)"
    using assms unfolding team_wf_def team_vectors_ok_def
    by (auto simp: add_vectors_def row_ids_def has_vector_def list_all_iff) (force intro: rev_image_eqI)
  then show ?thesis using assms(1)
    by (auto simp: team_wf_def team_keys_def team_projects_def team_refs_def add_vectors_def
      row_ids_def remote_keys_def)
qed

lemma last_greatest: "sorted_wrt (<) (map f xs) \<Longrightarrow> r \<in> set xs \<Longrightarrow> f r \<le> (f (last xs) :: nat)"
  by (cases xs rule: rev_cases) (auto simp: sorted_wrt_append)

text \<open>The rows a page leaves behind the cursor.\<close>

lemma missing_rows_after:
  assumes "team_wf d" and "missing_rows d c \<noteq> []" and "0 < k"
    and "set (map fst new) \<subseteq> set (map tr_id (take k (missing_rows d c)))"
  shows "missing_rows (add_vectors d new) (tr_id (last (take k (missing_rows d c)))) = drop k (missing_rows d c)"
proof -
  let ?m = "missing_rows d c" and ?n = "tr_id (last (take k (missing_rows d c)))"
  have s: "sorted_wrt (<) (map tr_id ?m)"
    using assms(1) unfolding missing_rows_def team_wf_def team_keys_def row_ids_def sorted_wrt_map
    by (blast intro: sorted_wrt_filter)
  have split: "?m = take k ?m @ drop k ?m" by simp
  have ne: "take k ?m \<noteq> []" using assms(2,3) by simp
  from s have sp: "sorted_wrt (<) (map tr_id (take k ?m) @ map tr_id (drop k ?m))"
    by (metis map_append split)
  have le: "tr_id r \<le> ?n" if "r \<in> set (take k ?m)" for r
    using sp that by (intro last_greatest) (simp_all add: sorted_wrt_append)
  have gt: "?n < tr_id r" if "r \<in> set (drop k ?m)" for r
    using sp ne that by (auto simp: sorted_wrt_append)
  have "last (take k ?m) \<in> set ?m" using last_in_set [OF ne] by (rule in_set_takeD)
  then have cn: "c < ?n" by (simp add: missing_rows_def)
  have "missing_rows (add_vectors d new) ?n = filter (\<lambda>r. ?n < tr_id r \<and> tr_id r \<notin> set (map fst new)) ?m"
    using cn by (auto simp: missing_rows_def add_vectors_simps intro!: filter_cong)
  also have "\<dots> = filter (\<lambda>r. ?n < tr_id r \<and> tr_id r \<notin> set (map fst new)) (take k ?m) @
      filter (\<lambda>r. ?n < tr_id r \<and> tr_id r \<notin> set (map fst new)) (drop k ?m)"
    by (metis filter_append split)
  also have "filter (\<lambda>r. ?n < tr_id r \<and> tr_id r \<notin> set (map fst new)) (take k ?m) = []"
    using le by (fastforce simp: filter_empty_conv)
  also have "filter (\<lambda>r. ?n < tr_id r \<and> tr_id r \<notin> set (map fst new)) (drop k ?m) = drop k ?m"
  proof (rule filter_True, rule ballI)
    fix r assume r: "r \<in> set (drop k ?m)"
    have "tr_id r \<notin> set (map tr_id (take k ?m))" using le gt [OF r] by fastforce
    then show "?n < tr_id r \<and> tr_id r \<notin> set (map fst new)" using gt [OF r] assms(4) by blast
  qed
  finally show ?thesis by simp
qed

text \<open>What a page writes: vectors for rows of the page, at most one each.\<close>

lemma filled_page:
  assumes "distinct (map tr_id rs)" and "length vs = length rs"
    and "\<forall>v. Some v \<in> set vs \<longrightarrow> length v = dim"
  shows "set (map fst (filled (zip (map vectorless_of rs) vs))) \<subseteq> set (map tr_id rs) \<and>
    distinct (map fst (filled (zip (map vectorless_of rs) vs))) \<and>
    (\<forall>v \<in> set (map snd (filled (zip (map vectorless_of rs) vs))). length v = dim)"
  using assms
proof (induction rs arbitrary: vs)
  case Nil
  then show ?case by (simp add: filled_simps)
next
  case (Cons r rs)
  then obtain v ws where vs: "vs = v # ws" by (cases vs) auto
  have IH: "set (map fst (filled (zip (map vectorless_of rs) ws))) \<subseteq> set (map tr_id rs) \<and>
    distinct (map fst (filled (zip (map vectorless_of rs) ws))) \<and>
    (\<forall>v \<in> set (map snd (filled (zip (map vectorless_of rs) ws))). length v = dim)"
    using Cons.prems vs by (intro Cons.IH) auto
  have "vn_rowid (vectorless_of r) = tr_id r" by (simp add: vectorless_of_def)
  with IH Cons.prems vs show ?case by (cases v) (auto simp: filled_simps)
qed

lemma repair_loop_run:
  assumes "team_wf d" and "0 < k" and "good_vectors B (embedding_dim d)"
  shows "\<exists>st' w' new. repair_loop B k c st w d = (Inr st', w', add_vectors d new) \<and>
     set (map fst new) \<subseteq> set (map tr_id (missing_rows d c)) \<and> distinct (map fst new) \<and>
     (\<forall>v \<in> set (map snd new). length v = embedding_dim d) \<and>
     repaired st' = repaired st + length new \<and>
     scanned st' + (repaired st + failed st) = scanned st + (repaired st' + failed st') \<and>
     (\<not> stopped_early st' \<longrightarrow> scanned st' = scanned st + length (missing_rows d c))"
  using assms
proof (induction B k c st w d rule: repair_loop.induct)
  case (1 B k c st w d)
  let ?m = "missing_rows d c" and ?page = "map vectorless_of (take k (missing_rows d c))"
  have page: "team_notes_missing_embeddings d c k = ?page" by (rule missing_page [OF "1.prems"(1)])
  show ?case
  proof (cases "?m = []")
    case True
    then have "repair_loop B k c st w d = (Inr st, w, add_vectors d [])"
      by (simp add: repair_loop.simps [of B k c st w d] page add_vectors_simps)
    with True show ?thesis by fastforce
  next
    case False
    then have ne: "?page \<noteq> []" using "1.prems"(2) by simp
    obtain out w1 where out: "embed_page B ?page w = (out, w1)" by fastforce
    show ?thesis
    proof (cases out)
      case (Page_Vectors vs)
      let ?new = "filled (zip ?page vs)" and ?st = "st\<lparr>scanned := scanned st + length ?page\<rparr>"
      have vs: "length vs = length ?page" "\<forall>v. Some v \<in> set vs \<longrightarrow> length v = embedding_dim d"
        using embed_page_vectors [OF "1.prems"(3)] out Page_Vectors by blast+
      have "distinct (map tr_id ?m)"
        using "1.prems"(1) by (auto simp: missing_rows_def team_wf_def team_keys_def row_ids_def
          strict_sorted_iff intro!: distinct_map_filter)
      then have dist: "distinct (map tr_id (take k ?m) @ map tr_id (drop k ?m))"
        by (simp only: map_append [symmetric] append_take_drop_id)
      note new = filled_page [OF distinct_append [THEN iffD1, THEN conjunct1, OF dist], of vs "embedding_dim d"]
      have fill: "\<forall>p \<in> set (zip ?page vs). fillable d p"
      proof
        fix p assume "p \<in> set (zip ?page vs)"
        then obtain n v where p: "p = (n, v)" "n \<in> set ?page" "v \<in> set vs"
          by (metis set_zip_leftD set_zip_rightD surj_pair)
        then obtain r where "r \<in> set ?m" "n = vectorless_of r" by (auto dest: in_set_takeD)
        with p vs(2) show "fillable d p" by (auto simp: fillable_def vectorless_of_def missing_rows_def)
      qed
      let ?st' = "?st\<lparr>repaired := repaired ?st + length ?new,
          failed := failed ?st + (length (zip ?page vs) - length ?new)\<rparr>"
      have run: "fold_each repair_row (zip ?page vs) ?st d = (add_vectors d ?new, Inr ?st')"
      proof (rule repair_rows_run [OF fill])
        have "map fst (zip ?page vs) = ?page" by (rule map_fst_zip) (simp add: vs(1))
        then have "map vn_rowid (map fst (zip ?page vs)) = map vn_rowid ?page" by (rule arg_cong)
        then have "map (vn_rowid \<circ> fst) (zip ?page vs) = map tr_id (take k ?m)"
          by (simp only: map_map) (simp add: vectorless_of_def comp_def)
        then show "distinct (map (vn_rowid \<circ> fst) (zip ?page vs))" using dist by (simp only: distinct_append)
      qed
      let ?d = "add_vectors d ?new" and ?c = "vn_rowid (last ?page)"
      have sub: "set (map fst ?new) \<subseteq> set (map tr_id (take k ?m))" "distinct (map fst ?new)"
        "\<forall>v \<in> set (map snd ?new). length v = embedding_dim d"
        using new vs by simp_all
      have none: "\<forall>n \<in> set (map tr_id (take k ?m)). \<not> has_vector d n \<and> n \<in> set (row_ids d)"
        by (auto simp: missing_rows_def row_ids_def dest!: in_set_takeD)
      have wf: "team_wf ?d"
        by (rule add_vectors_wf [OF "1.prems"(1) sub(2)]) (use sub none in blast)+
      have "?c = tr_id (last (take k ?m))" using ne by (simp add: last_map vectorless_of_def)
      then have rest: "missing_rows ?d ?c = drop k ?m"
        using missing_rows_after [OF "1.prems"(1) False "1.prems"(2) sub(1)] by simp
      have good: "good_vectors B (embedding_dim ?d)" using "1.prems"(3) by (simp add: add_vectors_simps)
      obtain st2 w2 new2 where IH: "repair_loop B k ?c ?st' w1 ?d = (Inr st2, w2, add_vectors ?d new2)"
        "set (map fst new2) \<subseteq> set (map tr_id (drop k ?m))" "distinct (map fst new2)"
        "\<forall>v \<in> set (map snd new2). length v = embedding_dim d"
        "repaired st2 = repaired ?st' + length new2"
        "scanned st2 + (repaired ?st' + failed ?st') = scanned ?st' + (repaired st2 + failed st2)"
        "\<not> stopped_early st2 \<longrightarrow> scanned st2 = scanned ?st' + length (drop k ?m)"
        using "1.IH" [OF page [symmetric] ne out [symmetric] Page_Vectors run [symmetric] refl wf
          "1.prems"(2) good] unfolding rest add_vectors_simps(5) by blast
      have "repair_loop B k c st w d = repair_loop B k ?c ?st' w1 ?d"
        using ne out Page_Vectors run
        by (simp add: repair_loop.simps [of B k c st w d] page Let_def del: length_map)
      also note IH(1)
      finally have total: "repair_loop B k c st w d = (Inr st2, w2, add_vectors d (?new @ new2))"
        by (simp add: add_vectors_simps)
      have parts: "set (map tr_id ?m) = set (map tr_id (take k ?m)) \<union> set (map tr_id (drop k ?m))"
        by (metis append_take_drop_id map_append set_append)
      have "set (map tr_id (take k ?m)) \<inter> set (map tr_id (drop k ?m)) = {}"
        using dist by (simp only: distinct_append)
      then have "set (map fst ?new) \<inter> set (map fst new2) = {}" using sub(1) IH(2) by blast
      then have "distinct (map fst (?new @ new2))" using sub(2) IH(3)
        by (simp only: map_append distinct_append)
      moreover have "set (map fst (?new @ new2)) \<subseteq> set (map tr_id ?m)" using sub(1) IH(2) parts by auto
      moreover have "\<forall>v \<in> set (map snd (?new @ new2)). length v = embedding_dim d"
        using sub(3) IH(4) by auto
      moreover have n: "length ?new \<le> length ?page" "length (zip ?page vs) = length ?page"
        using length_filled [of "zip ?page vs"] vs(1) by simp_all
      have "repaired st2 = repaired st + length (?new @ new2)" using IH(5) by simp
      moreover have "scanned st2 + (repaired st + failed st) = scanned st + (repaired st2 + failed st2)"
        using IH(6) n unfolding n(2) by (simp del: length_map)
      moreover have "\<not> stopped_early st2 \<longrightarrow> scanned st2 = scanned st + length ?m" using IH(7) by auto
      ultimately show ?thesis using total by blast
    qed (use False out ne in \<open>auto simp: repair_loop.simps [of B k c st w d] page add_vectors_simps
      intro!: exI [of _ "[]"]\<close>)
  qed
qed

section \<open>A sweep fills the backlog\<close>

definition backlog :: "team_db \<Rightarrow> team_row list" where
  "backlog d = filter (\<lambda>r. tr_status r = ''active'' \<and> \<not> has_vector d (tr_id r)) (team_rows d)"

lemma backlog_missing: "team_wf d \<Longrightarrow> missing_rows d 0 = backlog d"
  by (auto simp: missing_rows_def backlog_def team_wf_def team_keys_def row_ids_def list_all_iff
    intro!: filter_cong)

lemma backlog_add: "backlog (add_vectors d new) = filter (\<lambda>r. tr_id r \<notin> set (map fst new)) (backlog d)"
  by (auto simp: backlog_def add_vectors_simps intro!: filter_cong)

lemma length_filter_subset:
  "distinct (map f xs) \<Longrightarrow> distinct ns \<Longrightarrow> set ns \<subseteq> set (map f xs) \<Longrightarrow>
     length (filter (\<lambda>x. f x \<notin> set ns) xs) + length ns = length xs"
proof -
  assume a: "distinct (map f xs)" "distinct ns" "set ns \<subseteq> set (map f xs)"
  have "length (filter (\<lambda>x. f x \<in> set ns) xs) = length ns"
  proof -
    have "distinct (map f (filter (\<lambda>x. f x \<in> set ns) xs))" using a(1) by (rule distinct_map_filter)
    moreover have "set (map f (filter (\<lambda>x. f x \<in> set ns) xs)) = set ns" using a(3) by auto
    ultimately show ?thesis using a(2) by (metis distinct_card length_map)
  qed
  then show ?thesis using sum_length_filter_compl [of "\<lambda>x. f x \<in> set ns" xs] by simp
qed


text \<open>Two entries without a vector, and an embedder that refuses texts that mention a curse.\<close>

definition demo_team :: team_db where
  "demo_team = (empty_team_db 1 ''m'')
     \<lparr>projects := [\<lparr>prj_id = 1, prj_slug = ''p'', prj_embedding_dim = 1, prj_embedding_model = Some ''m'',
        prj_created_at = 0\<rparr>], project_seq := 1, team_seq := 2,
      team_rows := map (\<lambda>(i, t). \<lparr>tr_id = i, tr_project = 1, tr_kind = ''note'', tr_title = t, tr_body = ''b'',
        tr_tags = None, tr_linked_files = None, tr_created_at = 5, tr_status = ''active'',
        tr_superseded_by = None, tr_remote_id = Some t, tr_sync_id = ''id-'' @ t\<rparr>)
        [(1, ''one''), (2, ''two'')]\<rparr>"

definition demo_embedder :: "unit embedder" where
  "demo_embedder = \<lparr>emb_ready = (\<lambda>_. True), emb_admits = (\<lambda>_. True),
     emb_answer = (\<lambda>_ texts. if list_all (\<lambda>t. starts_with t ''title: one'') texts
       then Some (map (\<lambda>_. [7]) texts) else None), emb_next = id\<rparr>"

lemma demo_team_wf: "team_wf demo_team"
  by code_simp


end
