(* ===== verification/Team_Run.thy ===== *)
theory Team_Run
  imports Team_Repair Interfaces
begin

text \<open>
  The team server as a transition system: every request it serves and every repair sweep keeps the
  database well formed; then what a repeated push does.
\<close>

section \<open>Every operation keeps the database well formed\<close>

lemma insert_with_vector_keeps:
  assumes "tr_superseded_by r = None"
  shows "keeps (carries team_wf) (bind (team_insert r) (\<lambda>n.
    bind (case embedding of None \<Rightarrow> ok () | Some v \<Rightarrow> team_insert_vector n v) (\<lambda>_. ok (n, i))))"
proof (rule keeps_state)
  fix d :: team_db
  obtain d1 x where ins: "team_insert r d = (d1, x)" by fastforce
  have wf1: "carries team_wf d d1" using team_insert_keeps [OF assms] ins by (auto simp: keeps_def dest: spec [of _ d])
  show "carries team_wf d (fst (bind (team_insert r) (\<lambda>n.
    bind (case embedding of None \<Rightarrow> ok () | Some v \<Rightarrow> team_insert_vector n v) (\<lambda>_. ok (n, i))) d))"
  proof (cases "\<exists>n v. x = Inr n \<and> embedding = Some v \<and> team_insert_vector n v d1 = (add_vectors d1 [(n, v)], Inr ())")
    case True
    then obtain n v where n: "x = Inr n" "embedding = Some v"
      "team_insert_vector n v d1 = (add_vectors d1 [(n, v)], Inr ())" by blast
    from n(3) have v: "\<not> has_vector d1 n" "length v = embedding_dim d1"
      by (auto simp: team_insert_vector_def has_vector_def add_vectors_def split: if_splits)
    have "n \<in> set (row_ids d1)" using ins n(1) by (auto simp: team_insert_def row_ids_def split: if_splits)
    then have "team_wf d1 \<Longrightarrow> team_wf (add_vectors d1 [(n, v)])" using v by (intro add_vectors_wf) auto
    then show ?thesis using wf1 n by (simp add: bind_Inr ins carries_def)
  next
    case False
    then show ?thesis using wf1
      by (cases x; cases embedding) (auto simp: bind_def ins team_insert_vector_def add_vectors_def split: if_splits)
  qed
qed

lemma team_add_keeps: "keeps (carries team_wf)
    (team_add_note_with_sync_id now minted pid kind title body tags files embedding remote override)"
  unfolding team_add_note_with_sync_id_def Let_def by (rule insert_with_vector_keeps) simp

lemma team_supersede_keeps: "keeps (carries team_wf) (team_supersede_note pid old new)"
  unfolding team_supersede_note_def
  by (intro inv.keeps_intros keeps_case_option team_update_keeps) simp

lemma team_insert_edge_keeps: "keeps (carries team_wf) (team_insert_edge e)"
  by (auto simp: keeps_def carries_def team_insert_edge_def team_wf_defs row_ids_def remote_keys_def list_all_iff)

lemma team_add_edge_keeps: "keeps (carries team_wf) (team_add_edge f t k)"
  unfolding team_add_edge_def by (intro keeps_If inv.keeps_intros team_insert_edge_keeps)

lemma apply_resolution_keeps: "keeps (carries team_wf) (apply_resolution pid n i k t)"
  unfolding apply_resolution_def
  by (intro keeps_If inv.keeps_intros keeps_case_option team_supersede_keeps team_add_edge_keeps)

lemma team_add_resolved_keeps: "keeps (carries team_wf)
    (team_add_note_with_resolutions now minted pid kind title body tags files embedding resolutions)"
  unfolding team_add_note_with_resolutions_def team_add_note_def
  by (intro inv.keeps_intros team_add_keeps) (auto simp: split_beta intro!: inv.keeps_intros apply_resolution_keeps team_add_keeps)

lemma team_archive_keeps: "keeps (carries team_wf) (team_archive_note pid i)"
  unfolding team_archive_note_def by (intro inv.keeps_intros team_update_keeps) simp

lemma team_source_ref_keeps: "keeps (carries team_wf) (team_set_note_source_ref pid i ref)"
  unfolding team_set_note_source_ref_def Let_def
  by (intro inv.keeps_intros keeps_case_option team_update_keeps) simp

lemma insert_missing_keeps: "keeps (carries team_wf) (insert_embedding_if_missing n v)"
proof (rule keeps_state)
  fix d :: team_db
  have "fst (insert_embedding_if_missing n v d) = d \<or>
      (fst (insert_embedding_if_missing n v d) = add_vectors d [(n, v)] \<and> n \<in> set (row_ids d) \<and>
       \<not> has_vector d n \<and> length v = embedding_dim d)"
    by (auto simp: insert_embedding_if_missing_def team_insert_vector_def bind_def add_vectors_def
      has_vector_def list_ex_iff row_ids_def)
  then show "carries team_wf d (fst (insert_embedding_if_missing n v d))"
    by (auto simp: carries_def intro!: add_vectors_wf)
qed

lemma distinct_map_filter_filter:
  "distinct (List.map_filter f xs) \<Longrightarrow> distinct (List.map_filter f (filter P xs))"
  by (induction xs) (auto simp: map_filter_simps set_map_filter split: option.splits)

lemma team_delete_row_wf:
  assumes wf: "team_wf d" and "\<not> has_vector d n"
  shows "team_wf (fst (team_delete_row pid n d))"
proof -
  let ?left = "filter (\<lambda>r. \<not> (tr_id r = n \<and> tr_project r = pid)) (team_rows d)"
  let ?gone = "filter (\<lambda>r. tr_id r = n \<and> tr_project r = pid) (team_rows d)"
  consider "?gone = []" | "?gone \<noteq> []" "list_ex (\<lambda>r. tr_superseded_by r = Some n) ?left"
    | "?gone \<noteq> []" "\<not> list_ex (\<lambda>r. tr_superseded_by r = Some n) ?left" by blast
  then show ?thesis
  proof cases
    case 1
    then have "?left = team_rows d" by (auto simp: filter_empty_conv intro: filter_True)
    with 1 wf show ?thesis by (simp add: team_delete_row_def Let_def)
  next
    case 2
    with wf show ?thesis by (simp add: team_delete_row_def Let_def)
  next
    case 3
    from 3(1) obtain g where g: "g \<in> set (team_rows d)" "tr_id g = n" "tr_project g = pid"
      by (auto simp: filter_empty_conv)
    have inj: "distinct (map tr_id (team_rows d))"
      using wf by (simp add: team_wf_def team_keys_def row_ids_def strict_sorted_iff)
    have left: "?left = filter (\<lambda>r. tr_id r \<noteq> n) (team_rows d)"
      by (rule filter_cong) (use g inj in \<open>auto simp: distinct_map dest: inj_onD\<close>)
    let ?e = "filter (\<lambda>e. te_from e \<noteq> n \<and> te_to e \<noteq> n) (team_edges d)"
    let ?d = "d\<lparr>team_rows := filter (\<lambda>r. tr_id r \<noteq> n) (team_rows d), team_edges := ?e\<rparr>"
    have d': "fst (team_delete_row pid n d) = ?d"
      using 3 left by (simp add: team_delete_row_def Let_def)
    have ids: "row_ids ?d = filter (\<lambda>i. i \<noteq> n) (row_ids d)"
      by (simp add: row_ids_def filter_map comp_def)
    have "team_keys ?d" using wf
      by (auto simp: team_wf_def team_keys_def ids remote_keys_def sorted_wrt_filter distinct_map_filter
        distinct_map_filter_filter list_all_iff)
    moreover have "team_projects ?d" using wf by (auto simp: team_wf_def team_projects_def)
    moreover have "team_refs ?d" using wf 3(2) unfolding left
      by (fastforce simp: team_wf_def team_refs_def ids set_map_filter list_all_iff list_ex_iff)
    moreover have "team_vectors_ok ?d" using wf assms(2)
      by (auto simp: team_wf_def team_vectors_ok_def ids list_all_iff has_vector_def)
    ultimately show ?thesis by (simp add: d' team_wf_def)
  qed
qed

lemma team_delete_keeps: "keeps (carries team_wf) (team_delete_note pid i)"
proof (rule keeps_state)
  fix d :: team_db
  show "carries team_wf d (fst (team_delete_note pid i d))"
  proof (cases "resolve_rowid d pid i")
    case None
    then show ?thesis by (simp add: team_delete_note_def carries_def)
  next
    case (Some n)
    let ?d = "d\<lparr>team_vectors := filter (\<lambda>v. fst v \<noteq> n) (team_vectors d)\<rparr>"
    have wf: "team_wf d \<Longrightarrow> team_wf ?d"
      by (auto simp: team_wf_defs row_ids_def remote_keys_def list_all_iff distinct_map_filter)
    have "fst (team_delete_note pid i d) = fst (team_delete_row pid n ?d)"
      by (simp add: team_delete_note_def Some bind_def split: prod.splits sum.splits)
    moreover have "team_wf ?d \<Longrightarrow> team_wf (fst (team_delete_row pid n ?d))"
      by (rule team_delete_row_wf) (auto simp: has_vector_def)
    ultimately show ?thesis using wf by (simp add: carries_def)
  qed
qed

section \<open>Requests\<close>

lemma on_db_keeps: "keeps R m \<Longrightarrow> keeps R (on_db m)"
proof -
  have "fst (on_db m s) = fst (m s)" for s by (simp add: on_db_def split: prod.splits sum.splits)
  then show "keeps R m \<Longrightarrow> keeps R (on_db m)" by (simp add: keeps_def)
qed

lemma batch_step_keeps: "keeps (carries team_wf) (batch_step now pid p acc)"
  unfolding batch_step_def Let_def
  by (auto simp: split_beta split: option.split intro!: inv.keeps_intros on_db_keeps team_add_keeps)

lemma push_batch_keeps:
  "keeps (carries team_wf) (push_memory_batch E now embed_texts minted slug entries)"
  unfolding push_memory_batch_def Let_def
  by (intro inv.keeps_intros keeps_case_prod on_db_keeps upsert_project_keeps batch_step_keeps)

lemma handle_add_keeps:
  "keeps (carries team_wf) (team_handle_add_note E now embed_texts duplicate minted slug req)"
  unfolding team_handle_add_note_def Let_def
  by (intro inv.keeps_intros keeps_If keeps_case_prod on_db_keeps upsert_project_keeps team_add_resolved_keeps)

lemma repair_row_keeps: "keeps (carries team_wf) (repair_row p st)"
  unfolding repair_row_def by (intro keeps_case_option inv.keeps_intros insert_missing_keeps)

text \<open>One step: a request served to its end, or one page of a repair sweep, between which the lock is free.\<close>

inductive team_step :: "team_db \<Rightarrow> team_db \<Rightarrow> bool" where
  step_push: "team_step d (fst (push_memory_batch E now embed_texts minted slug entries d))"
| step_add: "team_step d (fst (team_handle_add_note E now embed_texts duplicate minted slug req d))"
| step_archive: "team_step d (fst (team_archive_note pid i d))"
| step_supersede: "team_step d (fst (team_supersede_note pid old new d))"
| step_anchor: "team_step d (fst (team_set_note_source_ref pid i ref d))"
| step_delete: "team_step d (fst (team_delete_note pid i d))"
| step_repair: "team_step d (fst (fold_each repair_row ps st d))"

inductive_cases team_step_cases: "team_step d e"

lemma keeps_step: "keeps (carries P) m \<Longrightarrow> P s \<Longrightarrow> P (fst (m s))"
  by (simp add: keeps_def carries_def)

interpretation team: system_invariant "\<lambda>d. d = empty_team_db dim mdl" team_step team_wf
proof
  fix d e :: team_db
  show "d = empty_team_db dim mdl \<Longrightarrow> team_wf d" by (simp add: empty_team_db_wf)
  assume "team_wf d" and "team_step d e"
  then show "team_wf e"
    by (elim team_step_cases)
      (simp_all add: keeps_step push_batch_keeps handle_add_keeps team_archive_keeps team_supersede_keeps
        team_source_ref_keeps team_delete_keeps inv.keeps_fold_each repair_row_keeps)
qed

end
