(* ===== verification/Team_Push.thy ===== *)
theory Team_Push
  imports Team_Run
begin

text \<open>
  What a batch push leaves in the database and what repeating it does: the map of existing
  entries the loop carries is the map a lookup gives at every moment.
\<close>

section \<open>The lookup by pushed identity\<close>

definition live_row :: "team_db \<Rightarrow> nat \<Rightarrow> string \<Rightarrow> team_row option" where
  "live_row d pid x =
     find (\<lambda>r. tr_project r = pid \<and> tr_status r = ''active'' \<and> tr_remote_id r = Some x) (team_rows d)"

definition live_note :: "team_db \<Rightarrow> nat \<Rightarrow> string \<Rightarrow> existing_note option" where
  "live_note d pid x = map_option
     (\<lambda>r. \<lparr>ex_sync_id = tr_sync_id r, ex_has_embedding = has_vector d (tr_id r)\<rparr>) (live_row d pid x)"

lemma remote_keys_unique:
  "distinct (List.map_filter remote_key rs) \<Longrightarrow> r \<in> set rs \<Longrightarrow> q \<in> set rs \<Longrightarrow>
     remote_key r = Some k \<Longrightarrow> remote_key q = Some k \<Longrightarrow> r = q"
  by (induction rs) (auto simp: map_filter_simps set_map_filter split: option.splits)

lemma fold_update_lookup:
  assumes "\<forall>r \<in> set rs. \<exists>y. key r = Some y"
    and "\<forall>r \<in> set rs. \<forall>q \<in> set rs. key r = key q \<longrightarrow> r = q"
  shows "map_of (fold (\<lambda>r m. case key r of None \<Rightarrow> m | Some y \<Rightarrow> AList.update y (val r) m) rs m) x =
    (case find (\<lambda>r. key r = Some x) rs of Some r \<Rightarrow> Some (val r) | None \<Rightarrow> map_of m x)"
  using assms
proof (induction rs arbitrary: m)
  case (Cons r rs)
  then obtain y where y: "key r = Some y" by auto
  have IH: "map_of (fold (\<lambda>r m. case key r of None \<Rightarrow> m | Some y \<Rightarrow> AList.update y (val r) m) rs m) x =
    (case find (\<lambda>r. key r = Some x) rs of Some r \<Rightarrow> Some (val r) | None \<Rightarrow> map_of m x)" for m
    using Cons.prems by (intro Cons.IH) auto
  show ?case
  proof (cases "y = x")
    case True
    have "val q = val r" if "find (\<lambda>r. key r = Some x) rs = Some q" for q
    proof -
      from that have "q \<in> set rs" "key q = Some x" by (auto simp: find_Some_iff)
      with Cons.prems(2) y True have "r = q" by simp
      then show ?thesis by simp
    qed
    then show ?thesis using y True
      by (auto simp: IH update_conv' split: option.split)
  qed (use y in \<open>simp add: IH update_conv' split: option.split\<close>)
qed simp

lemma find_by_remote_ids_lookup:
  assumes "team_wf d"
  shows "map_of (find_by_remote_ids d pid ids) x = (if x \<in> set ids then live_note d pid x else None)"
proof -
  let ?P = "\<lambda>r. tr_project r = pid \<and> tr_status r = ''active'' \<and>
        (case tr_remote_id r of None \<Rightarrow> False | Some x \<Rightarrow> x \<in> set ids)"
  let ?rs = "filter ?P (team_rows d)"
  have "distinct (List.map_filter remote_key (team_rows d))"
    using assms by (simp add: team_wf_def team_keys_def remote_keys_def)
  then have one: "\<forall>r \<in> set ?rs. \<forall>q \<in> set ?rs. tr_remote_id r = tr_remote_id q \<longrightarrow> r = q"
    by (auto simp: remote_key_def split: option.splits intro!: remote_keys_unique)
  have "find (\<lambda>r. tr_remote_id r = Some x) (filter ?P rs) = (if x \<in> set ids then
      find (\<lambda>r. tr_project r = pid \<and> tr_status r = ''active'' \<and> tr_remote_id r = Some x) rs else None)" for rs
    by (induction rs) auto
  from this [of "team_rows d"]
  have "find (\<lambda>r. tr_remote_id r = Some x) ?rs = (if x \<in> set ids then live_row d pid x else None)"
    by (simp only: live_row_def)
  moreover have "map_of (find_by_remote_ids d pid ids) x =
      (case find (\<lambda>r. tr_remote_id r = Some x) ?rs of
         Some r \<Rightarrow> Some \<lparr>ex_sync_id = tr_sync_id r, ex_has_embedding = has_vector d (tr_id r)\<rparr>
       | None \<Rightarrow> map_of [] x)"
    unfolding find_by_remote_ids_def by (rule fold_update_lookup [OF _ one]) (auto split: option.splits)
  ultimately show ?thesis by (auto simp: live_note_def split: option.splits)
qed

section \<open>One entry of a batch\<close>

definition new_team_row ::
    "int \<Rightarrow> nat \<Rightarrow> nat \<Rightarrow> string \<Rightarrow> string \<Rightarrow> string \<Rightarrow> string list \<Rightarrow> string list \<Rightarrow> string option \<Rightarrow>
     string \<Rightarrow> team_row" where
  "new_team_row now n pid kind title body tags files remote i = \<lparr>tr_id = n, tr_project = pid,
     tr_kind = kind, tr_title = title, tr_body = body, tr_tags = csv_column tags,
     tr_linked_files = csv_column files, tr_created_at = now, tr_status = ''active'',
     tr_superseded_by = None, tr_remote_id = remote, tr_sync_id = i\<rparr>"

definition with_row :: "team_db \<Rightarrow> team_row \<Rightarrow> 32 word list option \<Rightarrow> team_db" where
  "with_row d r embedding = add_vectors (d\<lparr>team_rows := team_rows d @ [r], team_seq := tr_id r\<rparr>)
     (case embedding of None \<Rightarrow> [] | Some v \<Rightarrow> [(tr_id r, v)])"

lemma team_add_result:
  assumes "team_add_note_with_sync_id now minted pid kind title body tags files embedding remote given d =
    (d', Inr (n, i))"
  shows "n = Suc (team_seq d) \<and> i = (case given of Some i \<Rightarrow> i | None \<Rightarrow> minted) \<and>
    d' = with_row d (new_team_row now n pid kind title body tags files remote i) embedding"
  using assms
  by (auto simp: team_add_note_with_sync_id_def Let_def bind_eq_Inr team_insert_def team_insert_vector_def
    new_team_row_def with_row_def add_vectors_def split: if_splits option.splits)

lemma with_row_fields:
  "projects (with_row d r v) = projects d" "embedding_dim (with_row d r v) = embedding_dim d"
  "embedding_model (with_row d r v) = embedding_model d" "team_rows (with_row d r v) = team_rows d @ [r]"
  "has_vector (with_row d r v) n \<longleftrightarrow> has_vector d n \<or> (v \<noteq> None \<and> n = tr_id r)"
  by (auto simp: with_row_def add_vectors_def has_vector_def split: option.splits)

lemma vector_below: "team_wf d \<Longrightarrow> has_vector d n \<Longrightarrow> n \<le> team_seq d"
  by (force simp: team_wf_def team_vectors_ok_def team_keys_def has_vector_def list_all_iff)

lemma live_note_with_row:
  assumes "team_wf d" and "tr_id r = Suc (team_seq d)" and "tr_status r = ''active''"
  shows "live_note (with_row d r v) pid x = (case live_note d pid x of Some a \<Rightarrow> Some a
    | None \<Rightarrow> if tr_project r = pid \<and> tr_remote_id r = Some x
        then Some \<lparr>ex_sync_id = tr_sync_id r, ex_has_embedding = v \<noteq> None\<rparr> else None)"
proof -
  let ?P = "\<lambda>r. tr_project r = pid \<and> tr_status r = ''active'' \<and> tr_remote_id r = Some x"
  have ids: "\<forall>q \<in> set (team_rows d). tr_id q \<le> team_seq d"
    using assms(1) by (simp add: team_wf_def team_keys_def row_ids_def list_all_iff)
  have "find ?P (rs @ [r]) = (case find ?P rs of Some q \<Rightarrow> Some q | None \<Rightarrow> if ?P r then Some r else None)" for rs
    by (induction rs) auto
  note f = this [of "team_rows d"]
  show ?thesis
  proof (cases "find ?P (team_rows d)")
    case None
    have "\<not> has_vector d (tr_id r)" using vector_below [OF assms(1)] assms(2) by fastforce
    then show ?thesis using None f assms(3) by (simp add: live_note_def live_row_def with_row_fields)
  next
    case (Some q)
    then have "q \<in> set (team_rows d)" by (auto simp: find_Some_iff)
    with ids assms(2) have "tr_id q \<noteq> tr_id r" by fastforce
    then show ?thesis using Some f by (simp add: live_note_def live_row_def with_row_fields)
  qed
qed

definition agrees :: "team_db \<Rightarrow> nat \<Rightarrow> string list \<Rightarrow> batch_progress \<Rightarrow> bool" where
  "agrees d pid ids acc = (\<forall>x \<in> set ids. map_of (bp_existing acc) x = live_note d pid x)"

definition grown :: "team_db \<Rightarrow> team_db \<Rightarrow> nat \<Rightarrow> bool" where
  "grown d e pid = (team_wf e \<and> projects e = projects d \<and> embedding_dim e = embedding_dim d \<and>
     embedding_model e = embedding_model d \<and>
     (\<forall>x a. live_note d pid x = Some a \<longrightarrow> live_note e pid x = Some a))"

definition answered :: "team_db \<Rightarrow> nat \<Rightarrow> batch_push_item \<Rightarrow> batch_note_result \<Rightarrow> bool" where
  "answered d pid e r = (nr_external_id r = bi_external_id e \<and>
     (nr_status r = ''created'' \<or> nr_status r = ''skipped'') \<and>
     (\<exists>a. live_note d pid (bi_external_id e) = Some a \<and> nr_id r = Some (ex_sync_id a) \<and>
       nr_embedded r = ex_has_embedding a))"

lemma on_db_eq_Inr: "on_db m d = (e, Inr x) \<longleftrightarrow> m d = (e, Inr x)"
  by (simp add: on_db_def split: prod.splits sum.splits)

lemma batch_step_run:
  assumes "team_wf d" and "agrees d pid ids acc" and "bi_external_id e \<in> set ids"
    and "batch_step now pid (minted, sv, e) acc d = (d', Inr acc')"
  shows "grown d d' pid \<and> agrees d' pid ids acc' \<and>
    (\<exists>r. resp_results (bp_response acc') = resp_results (bp_response acc) @ [r] \<and> answered d' pid e r)"
proof (cases "map_of (bp_existing acc) (bi_external_id e)")
  case (Some a)
  with assms show ?thesis
    by (auto simp: batch_step_def agrees_def grown_def answered_def)
next
  case None
  define emb where "emb = (case bi_vector e of Some v \<Rightarrow> Some v | None \<Rightarrow> sv)"
  let ?tags = "case bi_source_commit e of Some sha \<Rightarrow> [''git:'' @ sha] | None \<Rightarrow> []"
  let ?next = "\<lambda>i. \<lparr>bp_existing = AList.update (bi_external_id e)
                 \<lparr>ex_sync_id = i, ex_has_embedding = emb \<noteq> None\<rparr> (bp_existing acc),
               bp_response = (bp_response acc)
                 \<lparr>resp_created := Suc (resp_created (bp_response acc)),
                  resp_results := resp_results (bp_response acc) @ [\<lparr>nr_status = ''created'',
                    nr_external_id = bi_external_id e, nr_id = Some i, nr_embedded = emb \<noteq> None\<rparr>],
                  resp_needs_repair := resp_needs_repair (bp_response acc) \<or> emb = None\<rparr>\<rparr>"
  have "bind (on_db (team_add_note_with_sync_id now minted pid (bi_kind e) (bi_title e) (body_of e)
      ?tags [] emb (Some (bi_external_id e)) (bi_id e))) (\<lambda>(_, i). ok (?next i)) d = (d', Inr acc')"
    using assms(4) by (simp only: batch_step_def Let_def prod.case None option.case emb_def)
  then obtain n i where add: "team_add_note_with_sync_id now minted pid (bi_kind e) (bi_title e) (body_of e)
      ?tags [] emb (Some (bi_external_id e)) (bi_id e) d = (d', Inr (n, i))"
    and acc': "acc' = ?next i"
    unfolding bind_eq_Inr on_db_eq_Inr by (auto simp only: prod.case effect_simps prod.inject sum.inject)
  define row where "row = new_team_row now n pid (bi_kind e) (bi_title e) (body_of e)
    (case bi_source_commit e of Some sha \<Rightarrow> [''git:'' @ sha] | None \<Rightarrow> []) [] (Some (bi_external_id e)) i"
  have d': "d' = with_row d row emb" "n = Suc (team_seq d)"
    using team_add_result [OF add] by (simp_all add: row_def)
  have row: "tr_id row = Suc (team_seq d)" "tr_status row = ''active''" "tr_project row = pid"
    "tr_remote_id row = Some (bi_external_id e)" "tr_sync_id row = i"
    by (simp_all add: row_def new_team_row_def d'(2))
  note live = live_note_with_row [OF assms(1) row(1,2), of emb, folded d'(1)]
  have none: "live_note d pid (bi_external_id e) = None" using None assms(2,3) by (simp add: agrees_def)
  have "team_wf d'" using team_add_keeps assms(1) add by (metis carries_def fst_conv keeps_def)
  then have "grown d d' pid" by (simp add: grown_def live) (simp add: d'(1) with_row_fields)
  moreover have "agrees d' pid ids acc'" using assms(2)
    by (auto simp: agrees_def live row acc' update_conv' none split: option.split)
  moreover have "live_note d' pid (bi_external_id e) = Some \<lparr>ex_sync_id = i, ex_has_embedding = emb \<noteq> None\<rparr>"
    by (simp add: live none row)
  ultimately show ?thesis by (simp add: acc' answered_def)
qed

section \<open>A whole batch\<close>

lemma grown_refl: "team_wf d \<Longrightarrow> grown d d pid"
  by (simp add: grown_def)

lemma grown_trans: "grown d e pid \<Longrightarrow> grown e f pid \<Longrightarrow> grown d f pid"
  by (simp add: grown_def)

lemma answered_grown: "answered d pid e r \<Longrightarrow> grown d d' pid \<Longrightarrow> answered d' pid e r"
  by (auto simp: answered_def grown_def)

lemma answered_same: "answered d pid e r \<Longrightarrow> answered d pid e q \<Longrightarrow> nr_id r = nr_id q"
  by (auto simp: answered_def)

lemma batch_run:
  assumes "team_wf d" and "agrees d pid ids acc" and "bi_external_id ` set es \<subseteq> set ids"
    and "length ms = length es" and "length vs = length es"
    and "fold_each (batch_step now pid) (zip ms (zip vs es)) acc d = (d', Inr acc')"
  shows "grown d d' pid \<and>
    (\<exists>rs. resp_results (bp_response acc') = resp_results (bp_response acc) @ rs \<and> list_all2 (answered d' pid) es rs)"
  using assms
proof (induction es arbitrary: ms vs acc d)
  case Nil
  then show ?case by (simp add: grown_refl)
next
  case (Cons e es)
  then obtain m ms' v vs' where ms: "ms = m # ms'" "vs = v # vs'" "length ms' = length es" "length vs' = length es"
    by (auto simp: length_Suc_conv)
  with Cons.prems(6) obtain u acc1 where step: "batch_step now pid (m, v, e) acc d = (u, Inr acc1)"
    and rest: "fold_each (batch_step now pid) (zip ms' (zip vs' es)) acc1 u = (d', Inr acc')"
    by (auto simp: bind_eq_Inr)
  from batch_step_run [OF Cons.prems(1,2) _ step] Cons.prems(3)
  obtain r where u: "grown d u pid" "agrees u pid ids acc1" "answered u pid e r"
    "resp_results (bp_response acc1) = resp_results (bp_response acc) @ [r]" by auto
  from u(1) have "team_wf u" by (simp add: grown_def)
  from Cons.IH [OF this u(2) _ ms(3,4) rest] Cons.prems(3)
  obtain rs where g: "grown u d' pid" "list_all2 (answered d' pid) es rs"
    "resp_results (bp_response acc') = resp_results (bp_response acc1) @ rs" by auto
  with u answered_grown [OF u(3) g(1)] show ?case
    by (auto intro: grown_trans intro!: exI [of _ "r # rs"])
qed

lemma batch_repeat:
  assumes "agrees d pid ids acc" and "bi_external_id ` set es \<subseteq> set ids"
    and "list_all (\<lambda>e. live_note d pid (bi_external_id e) \<noteq> None) es"
    and "length ms = length es" and "length vs = length es"
  shows "\<exists>acc' rs. fold_each (batch_step now pid) (zip ms (zip vs es)) acc d = (d, Inr acc') \<and>
    resp_results (bp_response acc') = resp_results (bp_response acc) @ rs \<and> list_all2 (answered d pid) es rs \<and>
    resp_created (bp_response acc') = resp_created (bp_response acc) \<and>
    resp_skipped (bp_response acc') = resp_skipped (bp_response acc) + length es"
  using assms
proof (induction es arbitrary: ms vs acc)
  case (Cons e es)
  then obtain m ms' v vs' where ms: "ms = m # ms'" "vs = v # vs'" "length ms' = length es" "length vs' = length es"
    by (auto simp: length_Suc_conv)
  from Cons.prems obtain a where a: "live_note d pid (bi_external_id e) = Some a" by auto
  with Cons.prems(1,2) have m: "map_of (bp_existing acc) (bi_external_id e) = Some a" by (simp add: agrees_def)
  let ?r = "\<lparr>nr_status = ''skipped'', nr_external_id = bi_external_id e, nr_id = Some (ex_sync_id a),
    nr_embedded = ex_has_embedding a\<rparr>"
  have r: "answered d pid e ?r" using a by (simp add: answered_def)
  obtain acc1 where step: "batch_step now pid (m, v, e) acc d = (d, Inr acc1)" and
    acc1: "bp_existing acc1 = bp_existing acc" "resp_results (bp_response acc1) = resp_results (bp_response acc) @ [?r]"
      "resp_created (bp_response acc1) = resp_created (bp_response acc)"
      "resp_skipped (bp_response acc1) = Suc (resp_skipped (bp_response acc))"
    using m by (simp add: batch_step_def)
  from Cons.IH [of acc1 ms' vs'] Cons.prems ms acc1(1)
  obtain acc' rs where run: "fold_each (batch_step now pid) (zip ms' (zip vs' es)) acc1 d = (d, Inr acc')"
    "resp_results (bp_response acc') = resp_results (bp_response acc1) @ rs" "list_all2 (answered d pid) es rs"
    "resp_created (bp_response acc') = resp_created (bp_response acc1)"
    "resp_skipped (bp_response acc') = resp_skipped (bp_response acc1) + length es"
    by (auto simp: agrees_def)
  then show ?case using ms step acc1 r
    by (intro exI [of _ acc'] exI [of _ "?r # rs"]) (simp add: bind_Inr)
qed simp

lemma length_server_embeddings [simp]: "length (server_embeddings es vs) = length es"
  by (induction es vs rule: server_embeddings.induct) (auto split: list.splits)

section \<open>Registering a project twice\<close>

lemma find_key:
  "distinct (map key xs) \<Longrightarrow> find (\<lambda>p. key p = k) xs = Some p \<longleftrightarrow> p \<in> set xs \<and> key p = k"
  by (induction xs) auto

lemma get_project_unique:
  "team_wf d \<Longrightarrow> get_project d slug = Some p \<longleftrightarrow> p \<in> set (projects d) \<and> prj_slug p = slug"
  by (simp add: get_project_def find_key team_wf_def team_projects_def)

lemma update_project_get:
  assumes "team_wf d" and "get_project d slug = Some p" and "\<And>q. prj_slug (f q) = prj_slug q"
  shows "get_project (fst (update_project (prj_id p) f d)) slug = Some (f p)"
proof -
  have p: "p \<in> set (projects d)" "prj_slug p = slug" using assms(1,2) by (auto simp: get_project_unique)
  have d: "distinct (map prj_slug (projects d))" using assms(1) by (simp add: team_wf_def team_projects_def)
  let ?ps = "map (\<lambda>q. if prj_id q = prj_id p then f q else q) (projects d)"
  have "map prj_slug ?ps = map prj_slug (projects d)" using assms(3) by (auto simp: comp_def)
  with d have "distinct (map prj_slug ?ps)" by (simp only:)
  moreover have "f p \<in> set ?ps" using p by auto
  ultimately have "find (\<lambda>q. prj_slug q = slug) ?ps = Some (f p)" using p assms(3) by (simp add: find_key)
  then show ?thesis by (simp add: get_project_def update_project_def)
qed

lemma project_fill:
  assumes "\<And>q. prj_id (f q) = prj_id q" and "\<And>q. prj_slug (f q) = prj_slug q"
    and "team_wf d" and "get_project d slug = Some q"
    and "(if c then bind (update_project (prj_id q) f) (\<lambda>_. ok (f q)) else ok q) d = (e, Inr q')"
  shows "team_wf e \<and> get_project e slug = Some q' \<and> q' = (if c then f q else q) \<and>
    (\<exists>ps. e = d\<lparr>projects := ps\<rparr>)"
proof (cases c)
  case True
  with assms(5) have e: "e = fst (update_project (prj_id q) f d)" "q' = f q"
    by (auto simp: update_project_def)
  have "team_wf e" using update_project_keeps [of f "prj_id q"] assms(1-3) e(1)
    by (simp add: keeps_def carries_def)
  then show ?thesis using update_project_get [OF assms(3,4), of f] assms(2) e True
    by (auto simp: update_project_def)
next
  case False
  with assms show ?thesis by (auto intro: exI [of _ "projects d"])
qed

text \<open>After a registration the project is there and agrees with what it was registered with.\<close>

lemma upsert_project_result:
  assumes "team_wf d" and "upsert_project now slug dim mdl d = (d', Inr p)"
  shows "team_wf d' \<and> get_project d' slug = Some p \<and> prj_embedding_dim p = dim \<and>
    prj_embedding_model p = Some mdl \<and> team_rows d' = team_rows d \<and> team_vectors d' = team_vectors d \<and>
    embedding_dim d' = embedding_dim d \<and> embedding_model d' = embedding_model d"
proof -
  have wf: "team_wf d'" using upsert_project_keeps assms by (metis carries_def fst_conv keeps_def)
  show ?thesis
  proof (cases "get_project d slug")
    case None
    have "get_project d' slug = Some p" using assms None
      by (subst get_project_unique [OF wf]) (auto simp: upsert_project_def insert_project_def Let_def)
    then show ?thesis using assms None wf
      by (auto simp: upsert_project_def insert_project_def Let_def)
  next
    case (Some q)
    let ?f = "\<lambda>r. r\<lparr>prj_embedding_dim := dim\<rparr>" and ?g = "\<lambda>r. r\<lparr>prj_embedding_model := Some mdl\<rparr>"
    have ok: "project_conflict q slug dim mdl = None"
      using assms(2) Some by (auto simp: upsert_project_def split: option.splits)
    then obtain e q' where
      e: "(if prj_embedding_dim q = 0 then bind (update_project (prj_id q) ?f) (\<lambda>_. ok (?f q)) else ok q) d = (e, Inr q')"
      and d': "(if prj_embedding_model q' = None then bind (update_project (prj_id q') ?g) (\<lambda>_. ok (?g q')) else ok q') e = (d', Inr p)"
      using assms(2) Some by (auto simp: upsert_project_def bind_eq_Inr)
    from project_fill [OF _ _ assms(1) Some e] have q': "team_wf e" "get_project e slug = Some q'"
      "q' = (if prj_embedding_dim q = 0 then ?f q else q)" "\<exists>ps. e = d\<lparr>projects := ps\<rparr>" by simp_all
    from project_fill [OF _ _ q'(1,2) d'] have "team_wf d'" "get_project d' slug = Some p"
      "p = (if prj_embedding_model q' = None then ?g q' else q')" "\<exists>ps. d' = e\<lparr>projects := ps\<rparr>" by simp_all
    then show ?thesis using q' ok by (auto simp: project_conflict_def split: if_splits option.splits)
  qed
qed

text \<open>Registering again changes nothing.\<close>

lemma map_if_same: "distinct (map key xs) \<Longrightarrow> p \<in> set xs \<Longrightarrow> f p = p \<Longrightarrow>
    map (\<lambda>q. if key q = key p then f q else q) xs = xs"
  by (rule map_idI) (auto simp: distinct_map dest: inj_onD)

lemma upsert_project_again:
  assumes "team_wf d" and "get_project d slug = Some p" and "prj_embedding_dim p = dim"
    and "prj_embedding_model p = Some mdl"
  shows "upsert_project now slug dim mdl d = (d, Inr p)"
proof -
  have p: "p \<in> set (projects d)" using assms(1,2) by (simp add: get_project_unique)
  have ids: "distinct (map prj_id (projects d))"
    using assms(1) by (simp add: team_wf_def team_projects_def strict_sorted_iff)
  have same: "p\<lparr>prj_embedding_dim := dim\<rparr> = p" using assms(3) by (cases p) simp
  have "map (\<lambda>q. if prj_id q = prj_id p then q\<lparr>prj_embedding_dim := dim\<rparr> else q) (projects d) = projects d"
    using map_if_same [where f = "\<lambda>q. q\<lparr>prj_embedding_dim := dim\<rparr>", OF ids p] same by simp
  then have "update_project (prj_id p) (\<lambda>q. q\<lparr>prj_embedding_dim := dim\<rparr>) d = (d, Inr ())"
    by (simp add: update_project_def)
  then have "(if prj_embedding_dim p = 0 then bind (update_project (prj_id p) (\<lambda>q. q\<lparr>prj_embedding_dim := dim\<rparr>))
      (\<lambda>_. ok (p\<lparr>prj_embedding_dim := dim\<rparr>)) else ok p) d = (d, Inr p)"
    using same by (simp add: bind_Inr)
  moreover have "project_conflict p slug dim mdl = None" using assms(3,4) by (simp add: project_conflict_def)
  ultimately show ?thesis using assms(2,4)
    by (simp only: upsert_project_def bind_query option.case) (simp add: bind_Inr)
qed

text \<open>A push that succeeds: what was checked, registered and gone through.\<close>

abbreviation text_only_docs :: "batch_push_item list \<Rightarrow> string list" where
  "text_only_docs entries \<equiv> map (\<lambda>e. storage_embedding_text (bi_title e) (body_of e))
     (filter (\<lambda>e. bi_vector e = None) entries)"

abbreviation vectors_of :: "batch_push_item list \<Rightarrow> storage_embedding \<Rightarrow> 32 word list option list" where
  "vectors_of entries answer \<equiv> server_embeddings entries (case answer of Vectors vs \<Rightarrow> vs | _ \<Rightarrow> [])"

abbreviation batch_start :: "team_db \<Rightarrow> nat \<Rightarrow> batch_push_item list \<Rightarrow> batch_progress" where
  "batch_start d pid entries \<equiv>
     \<lparr>bp_existing = find_by_remote_ids d pid (map bi_external_id entries), bp_response = no_response\<rparr>"

lemma push_batch_unfold:
  assumes "validate_batch E (embedding_dim d) slug entries = Inr ()"
    and "embed_texts (text_only_docs entries) = Inr answer"
  shows "push_memory_batch E now embed_texts minted slug entries d =
      bind (on_db (upsert_project now slug (embedding_dim d) (embedding_model d))) (\<lambda>p.
      bind (query (\<lambda>d. find_by_remote_ids d (prj_id p) (map bi_external_id entries))) (\<lambda>existing.
      bind (fold_each (batch_step now (prj_id p)) (zip minted (zip (vectors_of entries answer) entries))
        \<lparr>bp_existing = existing, bp_response = no_response\<rparr>) (\<lambda>final. ok (bp_response final)))) d"
  using assms by (simp add: push_memory_batch_def bind_reading bind_lift Let_def)

lemma push_batch_parts:
  assumes "push_memory_batch E now embed_texts minted slug entries d = (d1, Inr resp)"
  obtains answer p u acc where "validate_batch E (embedding_dim d) slug entries = Inr ()"
    and "embed_texts (text_only_docs entries) = Inr answer"
    and "upsert_project now slug (embedding_dim d) (embedding_model d) d = (u, Inr p)"
    and "fold_each (batch_step now (prj_id p)) (zip minted (zip (vectors_of entries answer) entries))
      (batch_start u (prj_id p) entries) u = (d1, Inr acc)"
    and "resp = bp_response acc"
proof -
  obtain answer where valid: "validate_batch E (embedding_dim d) slug entries = Inr ()"
    and emb: "embed_texts (text_only_docs entries) = Inr answer"
    using assms unfolding push_memory_batch_def by (auto simp: bind_eq_Inr)
  with assms that show thesis
    unfolding push_batch_unfold [where E = E and embed_texts = embed_texts, OF valid emb]
    by (auto simp: bind_eq_Inr on_db_eq_Inr)
qed

lemma batch_start_agrees: "team_wf d \<Longrightarrow> agrees d pid (map bi_external_id entries) (batch_start d pid entries)"
  by (simp add: agrees_def find_by_remote_ids_lookup)

lemma push_batch_answers:
  assumes "team_wf d" and "length minted = length entries"
    and "push_memory_batch E now embed_texts minted slug entries d = (d1, Inr resp)"
  shows "\<exists>p. team_wf d1 \<and> get_project d1 slug = Some p \<and> prj_embedding_dim p = embedding_dim d \<and>
    prj_embedding_model p = Some (embedding_model d) \<and> embedding_dim d1 = embedding_dim d \<and>
    embedding_model d1 = embedding_model d \<and> list_all2 (answered d1 (prj_id p)) entries (resp_results resp)"
proof (rule push_batch_parts [OF assms(3)])
  fix answer p u acc
  assume up: "upsert_project now slug (embedding_dim d) (embedding_model d) d = (u, Inr p)"
    and run: "fold_each (batch_step now (prj_id p)) (zip minted (zip (vectors_of entries answer) entries))
      (batch_start u (prj_id p) entries) u = (d1, Inr acc)"
    and resp: "resp = bp_response acc"
  note u = upsert_project_result [OF assms(1) up]
  have uw: "team_wf u" using u by blast
  obtain rs where "grown u d1 (prj_id p)" and "resp_results (bp_response acc) = [] @ rs"
    "list_all2 (answered d1 (prj_id p)) entries rs"
    using batch_run [OF uw batch_start_agrees [OF uw] _ assms(2) _ run] by (auto simp: no_response_def)
  with u show ?thesis by (auto simp: grown_def get_project_def resp)
qed

text \<open>
  C29. Pushing a batch is idempotent: after a push every entry of it is one live note of the
  project under its external id, with the id that was answered, and the same push again creates
  nothing, answers the same ids as skipped and leaves the database as it is, whatever ids the
  server would have minted and whatever repeats the batch holds.
\<close>

theorem push_batch_idempotent:
  assumes "team_wf d" and "length minted = length entries" and "length minted' = length entries"
    and "push_memory_batch E now embed_texts minted slug entries d = (d1, Inr resp)"
  shows "\<exists>p resp'. push_memory_batch E now' embed_texts minted' slug entries d1 = (d1, Inr resp') \<and>
    get_project d1 slug = Some p \<and> list_all2 (answered d1 (prj_id p)) entries (resp_results resp) \<and>
    resp_created resp' = 0 \<and> resp_skipped resp' = length entries \<and>
    map nr_id (resp_results resp') = map nr_id (resp_results resp)"
proof -
  from push_batch_answers [OF assms(1,2,4)] obtain p where
    p: "team_wf d1" "get_project d1 slug = Some p" "prj_embedding_dim p = embedding_dim d"
      "prj_embedding_model p = Some (embedding_model d)" "embedding_dim d1 = embedding_dim d"
      "embedding_model d1 = embedding_model d"
    and rs: "list_all2 (answered d1 (prj_id p)) entries (resp_results resp)" by blast
  from assms(4) obtain answer where valid: "validate_batch E (embedding_dim d1) slug entries = Inr ()"
    and emb: "embed_texts (text_only_docs entries) = Inr answer"
    by (rule push_batch_parts) (simp add: p)
  have live: "list_all (\<lambda>e. live_note d1 (prj_id p) (bi_external_id e) \<noteq> None) entries"
    using rs unfolding list_all_length by (auto simp: answered_def list_all2_conv_all_nth)
  obtain acc rs' where again: "fold_each (batch_step now' (prj_id p)) (zip minted' (zip (vectors_of entries answer) entries))
      (batch_start d1 (prj_id p) entries) d1 = (d1, Inr acc)"
    "resp_results (bp_response acc) = rs'" "list_all2 (answered d1 (prj_id p)) entries rs'"
    "resp_created (bp_response acc) = 0" "resp_skipped (bp_response acc) = length entries"
    using batch_repeat [where vs = "vectors_of entries answer" and now = now',
        OF batch_start_agrees [OF p(1), of _ entries] _ live assms(3)]
    by (auto simp: no_response_def)
  have "map nr_id rs' = map nr_id (resp_results resp)"
    using again(3) rs by (auto simp: list_all2_conv_all_nth intro!: nth_equalityI) (metis answered_same)
  moreover have "push_memory_batch E now' embed_texts minted' slug entries d1 = (d1, Inr (bp_response acc))"
    using again(1) upsert_project_again [OF p(1-4)] p(5,6)
    unfolding push_batch_unfold [where E = E and embed_texts = embed_texts, OF valid emb]
    by (simp add: bind_Inr on_db_eq_Inr)
  ultimately show ?thesis using p(2) rs again by auto
qed

section \<open>Concrete runs\<close>

definition demo_server :: server_env where
  "demo_server = \<lparr>is_uuid_v7 = (\<lambda>_. True), vector_usable = (\<lambda>_. True), injection_matches = (\<lambda>_ _. False),
     rfc3339 = (\<lambda>_. ''1970-01-01T00:00:00Z''), model_id = ''m@1''\<rparr>"

definition demo_item :: "string \<Rightarrow> batch_push_item" where
  "demo_item x = \<lparr>bi_id = None, bi_kind = ''note'', bi_title = x, bi_body = None, bi_external_id = x,
     bi_source_commit = None, bi_vector = None, bi_vector_model = None, bi_vector_precision = None\<rparr>"

definition not_ready :: "string list \<Rightarrow> app_error + storage_embedding" where
  "not_ready texts = embed_for_storage False True (\<lambda>_. None) texts"

definition demo_push :: "string list \<Rightarrow> string list \<Rightarrow> team_db \<Rightarrow> team_db \<times> (app_error + batch_push_response)" where
  "demo_push minted titles =
     push_memory_batch demo_server 9 not_ready minted ''p'' (map demo_item titles)"

lemma demo_push_run:
  "snd (demo_push [''i1'', ''i2'', ''i3''] [''a'', ''b'', ''a''] (empty_team_db 1 ''m'')) =
     Inr \<lparr>resp_created = 2, resp_skipped = 1, resp_results =
       [\<lparr>nr_status = ''created'', nr_external_id = ''a'', nr_id = Some ''i1'', nr_embedded = False\<rparr>,
        \<lparr>nr_status = ''created'', nr_external_id = ''b'', nr_id = Some ''i2'', nr_embedded = False\<rparr>,
        \<lparr>nr_status = ''skipped'', nr_external_id = ''a'', nr_id = Some ''i1'', nr_embedded = False\<rparr>],
       resp_needs_repair = True\<rparr>"
  by code_simp

theorem push_batch_idempotent_witness:
  "\<exists>resp'. demo_push [''x'', ''y'', ''z''] [''a'', ''b'', ''a'']
      (fst (demo_push [''i1'', ''i2'', ''i3''] [''a'', ''b'', ''a''] (empty_team_db 1 ''m''))) =
     (fst (demo_push [''i1'', ''i2'', ''i3''] [''a'', ''b'', ''a''] (empty_team_db 1 ''m'')), Inr resp') \<and>
     resp_created resp' = 0 \<and> resp_skipped resp' = 3"
proof -
  let ?d = "fst (demo_push [''i1'', ''i2'', ''i3''] [''a'', ''b'', ''a''] (empty_team_db 1 ''m''))"
  obtain r where "demo_push [''i1'', ''i2'', ''i3''] [''a'', ''b'', ''a''] (empty_team_db 1 ''m'') = (?d, Inr r)"
    using demo_push_run by (metis prod.collapse)
  then have "push_memory_batch demo_server 9 not_ready [''i1'', ''i2'', ''i3''] ''p''
      (map demo_item [''a'', ''b'', ''a'']) (empty_team_db 1 ''m'') = (?d, Inr r)"
    by (simp only: demo_push_def)
  from push_batch_idempotent [OF empty_team_db_wf _ _ this, of "[''x'', ''y'', ''z'']" 9]
  show ?thesis unfolding demo_push_def by auto
qed

text \<open>
  A lookup of pushed identities sees live notes only, but the index that keeps them unique covers
  archived ones too: pushing an entry again after the server archived it is refused by the
  database, the whole request fails, and the entries before it are stored all the same.
\<close>

theorem repush_after_archive_fails:
  "(case demo_push [''i3'', ''i4''] [''three'', ''one''] (fst (team_archive_note 1 ''id-one'' demo_team)) of
      (d, r) \<Rightarrow> r = Inl (Db_Error Team_Unique) \<and>
        map (\<lambda>r. (tr_title r, tr_status r)) (team_rows d) =
          [(''one'', ''archived''), (''two'', ''active''), (''three'', ''active'')])"
  by code_simp

text \<open>
  An entry that cannot be embedded right now is registered with dimension 0, which a project that
  has vectors refuses: adding it fails instead of storing the text.
\<close>

theorem text_only_write_refused:
  "team_handle_add_note demo_server 9 not_ready (\<lambda>_ _ _. False) ''i3'' ''p''
     \<lparr>rq_kind = ''note'', rq_title = ''three'', rq_body = ''b'', rq_tags = [], rq_linked_files = [],
      rq_vector = None, rq_vector_model = None, rq_vector_precision = None, rq_reconcile = None,
      rq_resolutions = []\<rparr> demo_team =
   (demo_team, Inl (Db_Error (Dimension_Mismatch ''p'' 1 0)))"
  by code_simp

text \<open>
  Deleting the successor of another entry is refused by the foreign key, after its vector is gone.
\<close>

theorem refused_delete_loses_vector:
  "(case team_delete_note 1 ''id-two'' (fst (team_supersede_note 1 ''id-one'' ''id-two''
        (add_vectors demo_team [(2, [7])]))) of
      (d, r) \<Rightarrow> r = Inl Team_Foreign_Key \<and> tr_id (last (team_rows d)) = 2 \<and> team_vectors d = [])"
  by code_simp

text \<open>
  The stream asks for entries strictly after the newest second it has seen, so an entry written
  later in that second is never sent.
\<close>

theorem stream_misses_same_second:
  "(let d1 = fst (demo_push [''i3''] [''three''] demo_team);
        d2 = fst (demo_push [''i4''] [''four''] d1);
        (seen, second) = stream_poll d1 ''p'' 5
    in map sn_title seen = [''three''] \<and> stream_poll d2 ''p'' second = ([], second))"
  by code_simp

section \<open>The database over its whole life\<close>



end
