(* ===== verification/Sync_Round.thy ===== *)
theory Sync_Round
  imports Sync Sync_Client
begin

text \<open>
  \<open>inkentry sync\<close> (\<open>memory/sync/pull.rs\<close>, \<open>push/mod.rs\<close>, \<open>round.rs\<close>, \<open>local_embed.rs\<close>): draining the
  pages of the server's feed into the local store, pushing the outbox in chunks, and the order of
  the two in a round. The server is a record of functions on a state \<open>'w\<close> of its own, and the
  state of a round is the local store with it. The embedder is outside the program.
\<close>

record 'w team_server =
  srv_pull :: "string option \<Rightarrow> 'w \<Rightarrow> sync_error + since_page"
  srv_push :: "batch_push_item list \<Rightarrow> 'w \<Rightarrow> 'w \<times> (sync_error + batch_push_result)"
  srv_delete :: "string \<Rightarrow> 'w \<Rightarrow> 'w \<times> (sync_error + unit)"
  srv_push_edges :: "(string \<times> string) list \<Rightarrow> 'w \<Rightarrow> 'w \<times> (sync_error + nat)"
  srv_push_anchor :: "string \<Rightarrow> string \<Rightarrow> 'w \<Rightarrow> 'w \<times> (sync_error + unit)"

datatype sync_failure = Remote sync_error | Local store_error | Out_Of_Fuel

type_synonym ('w, 'a) net_op = "(memory_store \<times> 'w, sync_failure, 'a) st"

definition locally :: "'a op \<Rightarrow> ('w, 'a) net_op" where
  "locally m = (\<lambda>(s, w). case m s of (t, Inl e) \<Rightarrow> ((t, w), Inl (Local e)) | (t, Inr x) \<Rightarrow> ((t, w), Inr x))"

definition on_server :: "('w \<Rightarrow> 'w \<times> (sync_error + 'a)) \<Rightarrow> ('w, 'a) net_op" where
  "on_server f = (\<lambda>(s, w). case f w of (v, Inl e) \<Rightarrow> ((s, v), Inl (Remote e)) | (v, Inr x) \<Rightarrow> ((s, v), Inr x))"

definition ask_server :: "('w \<Rightarrow> sync_error + 'a) \<Rightarrow> ('w, 'a) net_op" where
  "ask_server f = on_server (\<lambda>w. (w, f w))"

section \<open>Vectors\<close>

text \<open>Four bytes, little endian, are one \<open>f32\<close>; an incomplete rest is dropped.\<close>

fun blob_to_vec :: "string \<Rightarrow> 32 word list" where
  "blob_to_vec (a # b # c # d # rest) =
     word_of_nat (of_char a + 256 * of_char b + 65536 * of_char c + 16777216 * of_char d) # blob_to_vec rest"
| "blob_to_vec _ = []"

definition EMBEDDING_DIM :: int where
  "EMBEDDING_DIM = 896"

definition usable_vector :: "string option \<Rightarrow> 32 word list option" where
  "usable_vector blob = (case map_option blob_to_vec blob of
     Some v \<Rightarrow> if int (length v) = EMBEDDING_DIM then Some v else None | None \<Rightarrow> None)"

text \<open>The local embedder, if there is one, gives the blob of a document or fails on it.\<close>

datatype local_embed_policy = Repair_With "(string \<Rightarrow> string option) option" | Skip_Embedding

record repair_counts =
  rc_embedded :: nat
  rc_without_vector :: nat

definition repair_one ::
    "(string \<Rightarrow> string option) \<Rightarrow> sync_row \<Rightarrow> repair_counts \<Rightarrow> repair_counts op" where
  "repair_one embed_text r acc =
     (case embed_text (''title: '' @ sync_title r @ '' | text: '' @ sync_body r) of
        Some blob \<Rightarrow> bind (insert_embedding (sync_id r) blob) (\<lambda>_.
          ok (acc\<lparr>rc_embedded := Suc (rc_embedded acc)\<rparr>))
      | None \<Rightarrow> ok (acc\<lparr>rc_without_vector := Suc (rc_without_vector acc)\<rparr>))"

definition repair_local_embeddings ::
    "local_embed_policy \<Rightarrow> sync_row list \<Rightarrow> repair_counts op" where
  "repair_local_embeddings policy live = (case policy of
     Skip_Embedding \<Rightarrow> ok \<lparr>rc_embedded = 0, rc_without_vector = 0\<rparr>
   | Repair_With embedder \<Rightarrow>
       bind (query (\<lambda>s. filter (\<lambda>r. usable_vector (get_embedding s (sync_id r)) = None) live)) (\<lambda>missing.
       if missing = [] then ok \<lparr>rc_embedded = 0, rc_without_vector = 0\<rparr>
       else case embedder of
         None \<Rightarrow> ok \<lparr>rc_embedded = 0, rc_without_vector = length missing\<rparr>
       | Some embed_text \<Rightarrow> fold_each (repair_one embed_text) missing
           \<lparr>rc_embedded = 0, rc_without_vector = 0\<rparr>))"

section \<open>Pulling\<close>

record pull_summary =
  pl_applied :: nat
  pl_embedded_locally :: nat
  pl_without_local_vector :: nat

definition merge_pulls :: "pull_summary \<Rightarrow> pull_summary \<Rightarrow> pull_summary" where
  "merge_pulls a b = \<lparr>pl_applied = pl_applied a + pl_applied b,
     pl_embedded_locally = pl_embedded_locally a + pl_embedded_locally b,
     pl_without_local_vector = pl_without_local_vector b\<rparr>"

text \<open>
  What a pull needs of the machine it runs on: RFC 3339 parsing, the clock it falls back to, and
  the random bits of the id an entry gets (a function of the entry, so that a run is a function).
\<close>

record pull_env =
  pull_base :: env
  parse_rfc3339 :: "string \<Rightarrow> int option"
  pull_now :: int
  pull_entropy :: "string \<Rightarrow> string"

definition parse_iso_to_secs :: "pull_env \<Rightarrow> string \<Rightarrow> int" where
  "parse_iso_to_secs P t = (case parse_rfc3339 P t of Some secs \<Rightarrow> secs | None \<Rightarrow> pull_now P)"

definition apply_pulled :: "pull_env \<Rightarrow> remote_entry \<Rightarrow> nat \<Rightarrow> nat op" where
  "apply_pulled P e landed =
     bind (apply_remote_note (pull_base P) (pull_now P) (pull_entropy P (re_id e)) (re_id e) (re_kind e)
       (re_title e) (case re_body e of Some b \<Rightarrow> b | None \<Rightarrow> []) (re_source_commit e)
       (parse_iso_to_secs P (re_created_at e)) (is_archived e)) (\<lambda>inserted.
     ok (if inserted then Suc landed else landed))"

text \<open>The loop over the pages, with fuel for as many pages as there may be.\<close>

fun drain_pages ::
    "nat \<Rightarrow> pull_env \<Rightarrow> 'w team_server \<Rightarrow> string option \<Rightarrow> nat \<Rightarrow> int option \<Rightarrow>
     ('w, nat \<times> int option) net_op" where
  "drain_pages 0 P srv c landed tot = fail Out_Of_Fuel"
| "drain_pages (Suc k) P srv c landed tot =
     bind (ask_server (srv_pull srv c)) (\<lambda>page.
     bind (locally (fold_each (apply_pulled P) (page_entries page) landed)) (\<lambda>n'.
     let tot' = (if page_total page \<noteq> None then page_total page else tot) in
     if length (page_entries page) < MEMORY_SINCE_PULL_LIMIT then ok (n', tot')
     else drain_pages k P srv (Some (re_id (last (page_entries page)))) n' tot'))"

definition drain_pages_since ::
    "nat \<Rightarrow> pull_env \<Rightarrow> 'w team_server \<Rightarrow> string option \<Rightarrow> ('w, nat \<times> int option) net_op" where
  "drain_pages_since fuel P srv c = drain_pages fuel P srv c 0 None"

definition embed_synced_rows :: "local_embed_policy \<Rightarrow> repair_counts op" where
  "embed_synced_rows policy = bind (reading (\<lambda>s. rows_for_sync s False)) (\<lambda>rows.
     repair_local_embeddings policy (filter (\<lambda>r. sync_remote_id r \<noteq> None) rows))"

definition pull_and_apply_since ::
    "nat \<Rightarrow> pull_env \<Rightarrow> local_embed_policy \<Rightarrow> 'w team_server \<Rightarrow> string option \<Rightarrow> ('w, pull_summary) net_op" where
  "pull_and_apply_since fuel P policy srv c =
     bind (drain_pages_since fuel P srv c) (\<lambda>(landed, server_total).
     bind (locally (query count_notes)) (\<lambda>held.
     bind (case server_total of
         Some tot \<Rightarrow> if tot > int held then bind (drain_pages_since fuel P srv None) (\<lambda>(again, _).
             ok (landed + again)) else ok landed
       | None \<Rightarrow> ok landed) (\<lambda>n'.
     bind (locally (embed_synced_rows policy)) (\<lambda>repair.
     ok \<lparr>pl_applied = n', pl_embedded_locally = rc_embedded repair,
         pl_without_local_vector = rc_without_vector repair\<rparr>))))"

definition pull_and_apply ::
    "nat \<Rightarrow> pull_env \<Rightarrow> local_embed_policy \<Rightarrow> 'w team_server \<Rightarrow> ('w, pull_summary) net_op" where
  "pull_and_apply fuel P policy srv = bind (locally (query max_remote_id)) (\<lambda>c.
     pull_and_apply_since fuel P policy srv c)"

section \<open>Pushing\<close>

record push_summary =
  ps_attempted :: nat
  ps_created :: "32 word"
  ps_skipped :: "32 word"
  ps_failed :: "32 word"
  ps_already_synced :: nat
  ps_interrupted :: "sync_error option"
  ps_embedded_locally :: nat
  ps_without_local_vector :: nat
  ps_edges_pushed :: nat
  ps_anchors_pushed :: nat

definition empty_push_summary :: push_summary where
  "empty_push_summary = \<lparr>ps_attempted = 0, ps_created = 0, ps_skipped = 0, ps_failed = 0,
     ps_already_synced = 0, ps_interrupted = None, ps_embedded_locally = 0,
     ps_without_local_vector = 0, ps_edges_pushed = 0, ps_anchors_pushed = 0\<rparr>"

definition PUSH_BATCH_CHUNK_SIZE :: nat where
  "PUSH_BATCH_CHUNK_SIZE = 50"

text \<open>\<open>slice::chunks\<close>.\<close>

function chunks :: "nat \<Rightarrow> 'a list \<Rightarrow> 'a list list" where
  "chunks n xs = (if n = 0 \<or> xs = [] then [] else take n xs # chunks n (drop n xs))"
  by pat_completeness auto
termination by (relation "measure (length \<circ> snd)") auto

declare chunks.simps [simp del]

definition push_item ::
    "string \<Rightarrow> bool \<Rightarrow> bool \<Rightarrow> memory_store \<Rightarrow> sync_row \<Rightarrow> batch_push_item" where
  "push_item mdl accepts_vectors force s r = maybe_attach_vector mdl accepts_vectors
     (if accepts_vectors then usable_vector (get_embedding s (sync_id r)) else None)
     \<lparr>bi_id = (if force then sync_remote_id r else None), bi_kind = sync_kind r, bi_title = sync_title r,
      bi_body = (if sync_body r = [] then None else Some (sync_body r)), bi_external_id = sync_id r,
      bi_source_commit = sync_source_ref r, bi_vector = None, bi_vector_model = None,
      bi_vector_precision = None\<rparr>"

record push_progress =
  pp_created :: "32 word"
  pp_skipped :: "32 word"
  pp_failed :: "32 word"
  pp_just_synced :: "note_id list"
  pp_interrupted :: "sync_error option"

definition push_start :: push_progress where
  "push_start = \<lparr>pp_created = 0, pp_skipped = 0, pp_failed = 0, pp_just_synced = [], pp_interrupted = None\<rparr>"

definition count_result :: "string \<Rightarrow> push_progress \<Rightarrow> push_progress" where
  "count_result status acc = (if status = ''created'' then acc\<lparr>pp_created := pp_created acc + 1\<rparr>
     else if status = ''skipped'' then acc\<lparr>pp_skipped := pp_skipped acc + 1\<rparr>
     else acc\<lparr>pp_failed := pp_failed acc + 1\<rparr>)"

text \<open>One result: counted, and stamped on the row it names when it says the entry is stored.\<close>

definition stamp_result :: "sync_row list \<Rightarrow> batch_item_result \<Rightarrow> push_progress \<Rightarrow> push_progress op" where
  "stamp_result chunk item acc =
     (let acc' = count_result (ir_status item) acc in
      case (ir_external_id item, ir_id item) of
        (Some ext, Some cloud_id) \<Rightarrow>
          if (ir_status item = ''created'' \<or> ir_status item = ''skipped'') \<and>
             list_ex (\<lambda>r. sync_id r = ext) chunk
          then bind (set_remote_id ext cloud_id) (\<lambda>_.
            ok (acc'\<lparr>pp_just_synced := List.insert ext (pp_just_synced acc')\<rparr>))
          else ok acc'
      | _ \<Rightarrow> ok acc')"

definition add_aggregates :: "batch_push_result \<Rightarrow> push_progress \<Rightarrow> push_progress" where
  "add_aggregates res acc = (if item_results res = [] then
     acc\<lparr>pp_created := pp_created acc + created_count res, pp_skipped := pp_skipped acc + skipped_count res,
         pp_failed := pp_failed acc + failed_count res\<rparr> else acc)"

fun push_chunks ::
    "string \<Rightarrow> bool \<Rightarrow> bool \<Rightarrow> 'w team_server \<Rightarrow> sync_row list list \<Rightarrow> push_progress \<Rightarrow>
     ('w, push_progress) net_op" where
  "push_chunks mdl accepts_vectors force srv [] acc = ok acc"
| "push_chunks mdl accepts_vectors force srv (chunk # rest) acc =
     bind (locally (query (\<lambda>s. map (push_item mdl accepts_vectors force s) chunk))) (\<lambda>items.
     bind (attempt (on_server (srv_push srv items))) (\<lambda>answer. case answer of
       Inl (Remote e) \<Rightarrow> ok (acc\<lparr>pp_interrupted := Some e\<rparr>)
     | Inl f \<Rightarrow> fail f
     | Inr res \<Rightarrow> bind (locally (fold_each (stamp_result chunk) (item_results res) (add_aggregates res acc)))
         (\<lambda>acc'. push_chunks mdl accepts_vectors force srv rest acc')))"

definition push_tombstones :: "'w team_server \<Rightarrow> sync_row list \<Rightarrow> ('w, unit) net_op" where
  "push_tombstones srv rows = for_each (\<lambda>r. case sync_remote_id r of
     Some remote \<Rightarrow> on_server (srv_delete srv remote) | None \<Rightarrow> ok ()) (filter sync_archived rows)"

definition push_relates_to_edges :: "'w team_server \<Rightarrow> note_id list \<Rightarrow> ('w, nat) net_op" where
  "push_relates_to_edges srv just_synced =
     (if just_synced = [] then ok 0
      else bind (locally (reading relates_to_edges_for_sync)) (\<lambda>edges.
        let es = filter (\<lambda>(f, t). f \<in> set just_synced \<or> t \<in> set just_synced) edges in
        if es = [] then ok 0 else on_server (srv_push_edges srv es)))"

definition push_anchor :: "'w team_server \<Rightarrow> sync_row \<Rightarrow> nat \<Rightarrow> ('w, nat) net_op" where
  "push_anchor srv r pushed = (case (sync_remote_id r, sync_source_ref r) of
     (Some remote, Some source_ref) \<Rightarrow>
       bind (attempt (on_server (srv_push_anchor srv remote source_ref))) (\<lambda>answer.
         ok (case answer of Inr _ \<Rightarrow> Suc pushed | Inl _ \<Rightarrow> pushed))
   | _ \<Rightarrow> ok pushed)"

definition push_local_reporting ::
    "local_embed_policy \<Rightarrow> string \<Rightarrow> bool \<Rightarrow> bool \<Rightarrow> bool \<Rightarrow> 'w team_server \<Rightarrow> ('w, push_summary) net_op" where
  "push_local_reporting policy mdl include_archived accepts_vectors force srv =
     bind (locally (reading (\<lambda>s. rows_for_sync s include_archived))) (\<lambda>rows.
     if rows = [] then ok empty_push_summary
     else
       let live = filter (\<lambda>r. \<not> sync_archived r \<and> (force \<or> sync_remote_id r = None)) rows;
           already = (if force then 0 else length (filter (\<lambda>r. \<not> sync_archived r \<and> sync_remote_id r \<noteq> None) rows)) in
       bind (locally (repair_local_embeddings policy live)) (\<lambda>repair.
       bind (push_chunks mdl accepts_vectors force srv (chunks PUSH_BATCH_CHUNK_SIZE live) push_start) (\<lambda>acc.
       bind (if pp_interrupted acc = None \<and> include_archived then push_tombstones srv rows else ok ()) (\<lambda>_.
       bind (if pp_interrupted acc = None
             then bind (attempt (push_relates_to_edges srv (pp_just_synced acc))) (\<lambda>answer.
               ok (case answer of Inr n \<Rightarrow> n | Inl _ \<Rightarrow> 0)) else ok 0) (\<lambda>edges.
       bind (if pp_interrupted acc = None then fold_each (push_anchor srv) rows 0 else ok 0) (\<lambda>anchors.
       ok \<lparr>ps_attempted = length live, ps_created = pp_created acc, ps_skipped = pp_skipped acc,
           ps_failed = pp_failed acc, ps_already_synced = already, ps_interrupted = pp_interrupted acc,
           ps_embedded_locally = rc_embedded repair, ps_without_local_vector = rc_without_vector repair,
           ps_edges_pushed = edges, ps_anchors_pushed = anchors\<rparr>))))))"

definition push_local ::
    "local_embed_policy \<Rightarrow> string \<Rightarrow> bool \<Rightarrow> bool \<Rightarrow> 'w team_server \<Rightarrow> ('w, push_summary) net_op" where
  "push_local policy mdl include_archived accepts_vectors srv =
     push_local_reporting policy mdl include_archived accepts_vectors False srv"

section \<open>A round\<close>

text \<open>\<open>meanwhile\<close> is what other clients do to the server between two requests of the round.\<close>

definition others :: "('w \<Rightarrow> 'w) \<Rightarrow> ('w, unit) net_op" where
  "others f = (\<lambda>(s, w). ((s, f w), Inr ()))"

definition sync_round_first ::
    "nat \<Rightarrow> pull_env \<Rightarrow> local_embed_policy \<Rightarrow> string \<Rightarrow> bool \<Rightarrow> bool \<Rightarrow> ('w \<Rightarrow> 'w) \<Rightarrow> 'w team_server \<Rightarrow>
     ('w, push_summary \<times> pull_summary) net_op" where
  "sync_round_first fuel P policy mdl include_archived accepts_vectors meanwhile srv =
     bind (push_local policy mdl include_archived accepts_vectors srv) (\<lambda>pushed.
     bind (others meanwhile) (\<lambda>_.
     bind (pull_and_apply_since fuel P policy srv None) (\<lambda>pulled. ok (pushed, pulled))))"

definition sync_round ::
    "nat \<Rightarrow> pull_env \<Rightarrow> local_embed_policy \<Rightarrow> string \<Rightarrow> bool \<Rightarrow> bool \<Rightarrow> ('w \<Rightarrow> 'w) \<Rightarrow> 'w team_server \<Rightarrow>
     ('w, push_summary \<times> pull_summary) net_op" where
  "sync_round fuel P policy mdl include_archived accepts_vectors meanwhile srv =
     bind (locally (query max_remote_id)) (\<lambda>pre_round_cursor.
     if pre_round_cursor = None
     then sync_round_first fuel P policy mdl include_archived accepts_vectors meanwhile srv
     else bind (pull_and_apply_since fuel P policy srv pre_round_cursor) (\<lambda>pulled_first.
       bind (others meanwhile) (\<lambda>_.
       bind (push_local policy mdl include_archived accepts_vectors srv) (\<lambda>pushed.
       bind (others meanwhile) (\<lambda>_.
       bind (pull_and_apply_since fuel P policy srv pre_round_cursor) (\<lambda>pulled_second.
       ok (pushed, merge_pulls pulled_first pulled_second)))))))"

end
