(* ===== verification/Sync_Converge.thy ===== *)
theory Sync_Converge
  imports Sync_Round
begin

text \<open>
  What a pull achieves: against a server that pages a sorted feed it always returns, and
  afterwards the store holds every entry of the feed past the cursor.
\<close>

section \<open>Entries that have landed\<close>

definition entry_body :: "remote_entry \<Rightarrow> string" where
  "entry_body e = (case re_body e of Some b \<Rightarrow> b | None \<Rightarrow> [])"

definition pulled_id :: "pull_env \<Rightarrow> remote_entry \<Rightarrow> string" where
  "pulled_id P e = uuid_v7_at (pull_base P) (parse_iso_to_secs P (re_created_at e)) (pull_entropy P (re_id e))"

definition holds :: "pull_env \<Rightarrow> memory_store \<Rightarrow> remote_entry \<Rightarrow> bool" where
  "holds P s e = list_ex (\<lambda>r. row_remote_id r = Some (re_id e) \<or>
     row_entity_id r = entity_id (pull_base P) (re_kind e) (re_title e) (entry_body e)) (note_rows s)"

text \<open>An entry that is not here yet gets an id no row has, and no two entries get the same one.\<close>

definition can_land :: "pull_env \<Rightarrow> remote_entry list \<Rightarrow> memory_store \<Rightarrow> bool" where
  "can_land P es s = (distinct (map (pulled_id P) es) \<and>
     list_all (\<lambda>e. holds P s e \<or> pulled_id P e \<notin> set (note_uuids s)) es)"

definition lands :: "pull_env \<Rightarrow> remote_entry list \<Rightarrow> memory_store \<Rightarrow> memory_store \<Rightarrow> bool" where
  "lands P es s t = (wf_store t \<and> grows s t \<and> can_land P es t)"

lemma holds_mono: "grows s t \<Longrightarrow> holds P s e \<Longrightarrow> holds P t e"
  unfolding holds_def list_ex_iff grows_def
  by (metis (no_types, lifting) option.distinct(1) row_evolves_def rows_evolve_in)

lemma lands_refl: "wf_store s \<Longrightarrow> can_land P es s \<Longrightarrow> lands P es s s"
  by (simp add: lands_def growth.R_refl)

lemma lands_trans: "lands P es s t \<Longrightarrow> lands P es t u \<Longrightarrow> lands P es s u"
  unfolding lands_def using growth.R_trans by blast

text \<open>A store with the same ids that grew can take what the other could.\<close>

lemma can_land_same: "can_land P es s \<Longrightarrow> grows s t \<Longrightarrow> set (note_uuids t) = set (note_uuids s) \<Longrightarrow> can_land P es t"
  unfolding can_land_def by (auto simp: list_all_iff holds_mono)

lemma archive_rows_uuids [simp]: "note_uuids (archive_rows i s) = note_uuids s"
  by (simp add: archive_rows_def note_uuids_def archived_row_def comp_def if_distrib cong: if_cong)

lemma adopted_uuids:
  assumes "u = s\<lparr>note_rows := map (\<lambda>r. if Q r then r\<lparr>row_remote_id := y\<rparr> else r) (note_rows s)\<rparr>"
  shows "note_uuids (if archived then archive_rows i u else u) = note_uuids s"
  unfolding assms by (simp add: comp_def if_distrib note_uuids_def [of s] cong: if_cong)

lemma apply_pulled_lands:
  assumes wf: "wf_store s" and mints: "mints_ids (pull_base P)"
    and fresh: "holds P s e \<or> pulled_id P e \<notin> set (note_uuids s)"
  shows "\<exists>t m. apply_pulled P e n s = (t, Inr m) \<and> wf_store t \<and> grows s t \<and> holds P t e \<and>
    set (note_uuids t) \<subseteq> (if holds P s e then {} else {pulled_id P e}) \<union> set (note_uuids s)"
proof -
  let ?E = "pull_base P" and ?at = "parse_iso_to_secs P (re_created_at e)" and ?x = "re_id e"
  let ?ent = "pull_entropy P ?x" and ?eid = "entity_id (pull_base P) (re_kind e) (re_title e) (entry_body e)"
  let ?m = "apply_remote_note ?E (pull_now P) ?ent ?x (re_kind e) (re_title e) (entry_body e)
    (re_source_commit e) ?at (is_archived e)"
  have ne: "uuid_v7_at ?E ?at ?ent \<noteq> []" using mints by (simp add: uuid_v7_nonempty)
  have "\<exists>t b. ?m s = (t, Inr b) \<and> holds P t e \<and>
    set (note_uuids t) \<subseteq> (if holds P s e then {} else {pulled_id P e}) \<union> set (note_uuids s)"
  proof (cases "select_one (\<lambda>r. row_remote_id r = Some ?x) s")
    case (Some r)
    then have r: "r \<in> set (note_rows s)" "row_remote_id r = Some ?x"
      by (auto simp: select_one_def find_Some_iff)
    then have "holds P s e" by (auto simp: holds_def list_ex_iff)
    moreover note run = apply_known [OF note_id_for_remote_id_known [OF wf r]]
    ultimately show ?thesis using run holds_mono [OF apply_keeps(2) [OF wf ne run]] by auto
  next
    case None
    then have x: "note_id_for_remote_id s ?x = Inr None" by (simp add: note_id_for_remote_id_wf [OF wf])
    show ?thesis
    proof (cases "?eid \<in> set (map row_entity_id (note_rows s))")
      case True
      then obtain q where q: "q \<in> set (note_rows s)" "row_entity_id q = ?eid" by auto
      then have "holds P s e" by (auto simp: holds_def list_ex_iff)
      moreover obtain t where run: "?m s = (t, Inr False)" and "note_uuids t = note_uuids s"
        by (rule that [OF apply_adopt [OF wf x q] adopted_uuids [OF refl]])
      ultimately show ?thesis using holds_mono [OF apply_keeps(2) [OF wf ne run]] by auto
    next
      case False
      have not: "\<not> holds P s e" using None False
        by (auto simp: holds_def list_ex_iff select_one_def find_None_iff) (metis image_eqI)
      with fresh have "uuid_v7_at ?E ?at ?ent \<notin> set (note_uuids s)" by (simp add: pulled_id_def)
      from apply_insert [OF wf x False ne this] not show ?thesis
        by (simp add: holds_def) (auto simp: note_uuids_def pulled_id_def)
    qed
  qed
  then obtain t b where run: "?m s = (t, Inr b)" and t: "holds P t e"
    "set (note_uuids t) \<subseteq> (if holds P s e then {} else {pulled_id P e}) \<union> set (note_uuids s)" by blast
  from apply_keeps [OF wf ne run] t run show ?thesis
    by (auto simp: apply_pulled_def bind_def entry_body_def)
qed

lemma page_lands:
  assumes "mints_ids (pull_base P)" and "set es \<subseteq> set feed" and "wf_store s" and "can_land P feed s"
  shows "\<exists>t m. fold_each (apply_pulled P) es n s = (t, Inr m) \<and> lands P feed s t \<and> list_all (holds P t) es"
  using assms(2-)
proof (induction es arbitrary: n s)
  case Nil
  then show ?case by (simp add: lands_refl)
next
  case (Cons e es)
  have e: "e \<in> set feed" "holds P s e \<or> pulled_id P e \<notin> set (note_uuids s)"
    using Cons.prems by (auto simp: can_land_def list_all_iff)
  from apply_pulled_lands [OF Cons.prems(2) assms(1) e(2), of n] obtain u k where
    run: "apply_pulled P e n s = (u, Inr k)" and u: "wf_store u" "grows s u" "holds P u e"
      "set (note_uuids u) \<subseteq> (if holds P s e then {} else {pulled_id P e}) \<union> set (note_uuids s)" by blast
  have "holds P u q \<or> pulled_id P q \<notin> set (note_uuids u)" if "q \<in> set feed" for q
  proof (cases "q = e \<or> holds P s q")
    case True
    with u show ?thesis using holds_mono by auto
  next
    case False
    with Cons.prems(3) that e(1) have "pulled_id P q \<noteq> pulled_id P e" "pulled_id P q \<notin> set (note_uuids s)"
      by (auto simp: can_land_def list_all_iff distinct_map inj_on_def)
    with u(4) show ?thesis by (auto split: if_splits)
  qed
  then have "can_land P feed u" using Cons.prems(3) by (simp add: can_land_def list_all_iff)
  with Cons.IH [of u k] Cons.prems(1) u(1) obtain t m where
    "fold_each (apply_pulled P) es k u = (t, Inr m)" "lands P feed u t" "list_all (holds P t) es" by auto
  with run u show ?case
    by (auto simp: bind_def lands_def intro: growth.R_trans holds_mono)
qed

text \<open>Without a word on fresh ids: an entry that was applied is there.\<close>

lemma apply_collides:
  assumes wf: "wf_store s" and new: "\<not> holds P s e" and taken: "pulled_id P e \<in> set (note_uuids s)"
  shows "\<exists>x. snd (apply_pulled P e n s) = Inl x"
proof -
  let ?r = "pulled_row (pull_base P) (pull_entropy P (re_id e)) (re_id e) (re_kind e) (re_title e)
    (entry_body e) (re_source_commit e) (parse_iso_to_secs P (re_created_at e)) (is_archived e)"
  have rem: "select_one (\<lambda>r. row_remote_id r = Some (re_id e)) s = None"
    and eid: "select_one (\<lambda>r. row_entity_id r = row_entity_id ?r) s = None"
    using new by (auto simp: holds_def list_ex_iff select_one_def find_None_iff)
  from rem have x: "note_id_for_remote_id s (re_id e) = Inr None" by (simp add: note_id_for_remote_id_wf [OF wf])
  have "sql_insert_note ?r s = (s, Inl (Sql UniqueViolation))"
    using taken by (simp add: sql_insert_note_def pulled_id_def)
  with eid have "bind (attempt (sql_insert_note ?r)) (\<lambda>r. recover_from_entity_id_collision (pull_base P)
      (pull_now P) r (row_entity_id ?r) [] []) s = (s, Inl (Sql QueryReturnedNoRows))"
    by (simp add: bind_attempt recover_from_entity_id_collision_def bind_reading)
  then show ?thesis
    by (simp add: apply_pulled_def apply_unknown [OF x] entry_body_def transaction_def bind_Inl bind_def)
qed

lemma apply_pulled_held:
  assumes "wf_store s" and "mints_ids (pull_base P)" and "apply_pulled P e n s = (t, Inr m)"
  shows "wf_store t \<and> grows s t \<and> holds P t e"
proof (cases "holds P s e \<or> pulled_id P e \<notin> set (note_uuids s)")
  case True
  from apply_pulled_lands [OF assms(1,2) True, of n] assms(3) show ?thesis by auto
next
  case False
  with apply_collides [OF assms(1), of P e n] assms(3) show ?thesis by auto
qed

lemma page_held:
  assumes "mints_ids (pull_base P)" and "wf_store s" and "fold_each (apply_pulled P) es n s = (t, Inr m)"
  shows "wf_store t \<and> grows s t \<and> list_all (holds P t) es"
  using assms(2-)
proof (induction es arbitrary: n s)
  case Nil
  then show ?case by (simp add: growth.R_refl)
next
  case (Cons e es)
  from Cons.prems(2) obtain u k where u: "apply_pulled P e n s = (u, Inr k)"
    and rest: "fold_each (apply_pulled P) es k u = (t, Inr m)" by (auto simp: bind_eq_Inr)
  from apply_pulled_held [OF Cons.prems(1) assms(1) u] Cons.IH [OF _ rest] show ?case
    by (auto intro: growth.R_trans holds_mono)
qed

section \<open>Vectors do not disturb the rows\<close>

definition same_rows :: "memory_store \<Rightarrow> memory_store \<Rightarrow> bool" where
  "same_rows s t = (wf_store t \<and> grows s t \<and> note_rows t = note_rows s)"

lemma insert_embedding_runs:
  assumes "wf_store s" and "i \<in> set (note_uuids s)"
  shows "\<exists>t. insert_embedding i blob s = (t, Inr ()) \<and> same_rows s t"
proof -
  obtain n where n: "rowid_for s i = Some n" using assms(2) by (metis not_None_eq rowid_for_None)
  then have run: "\<exists>t. insert_embedding i blob s = (t, Inr ()) \<and> note_rows t = note_rows s"
    by (auto simp: insert_embedding_def sql_delete_embedding_def transaction_def bind_def)
  then obtain t where t: "insert_embedding i blob s = (t, Inr ())" "note_rows t = note_rows s" by blast
  moreover have "wf_store t" by (rule keeps_carriesD [OF insert_embedding_rules(1) assms(1) t(1)])
  moreover have "grows s t" using insert_embedding_rules(2) t(1) by (metis fst_conv keeps_def)
  ultimately show ?thesis by (auto simp: same_rows_def)
qed

lemma same_rows_trans: "same_rows s t \<Longrightarrow> same_rows t u \<Longrightarrow> same_rows s u"
  unfolding same_rows_def using growth.R_trans by auto

lemma embed_rows_run:
  assumes "wf_store s" and "list_all (\<lambda>r. sync_id r \<in> set (note_uuids s)) rows"
  shows "\<exists>t c. fold_each (repair_one f) rows acc s = (t, Inr c) \<and> same_rows s t"
  using assms
proof (induction rows arbitrary: acc s)
  case Nil
  then show ?case by (simp add: same_rows_def growth.R_refl)
next
  case (Cons r rows)
  have "\<exists>u a. repair_one f r acc s = (u, Inr a) \<and> same_rows s u"
  proof (cases "f (''title: '' @ sync_title r @ '' | text: '' @ sync_body r)")
    case None
    then show ?thesis using Cons.prems(1) by (simp add: repair_one_def same_rows_def growth.R_refl)
  next
    case (Some blob)
    with insert_embedding_runs [OF Cons.prems(1), of "sync_id r" blob] Cons.prems(2)
    show ?thesis by (auto simp: repair_one_def bind_def)
  qed
  then obtain u a where u: "repair_one f r acc s = (u, Inr a)" "same_rows s u" by blast
  with Cons.IH [of u a] Cons.prems(2) obtain t c where
    "fold_each (repair_one f) rows a u = (t, Inr c)" "same_rows u t"
    by (auto simp: same_rows_def note_uuids_def)
  with u show ?case by (auto simp: bind_def intro: same_rows_trans)
qed

lemma list_all_filter: "list_all P xs \<Longrightarrow> list_all P (filter Q xs)"
  by (auto simp: list_all_iff)

lemma repair_local_runs:
  assumes "wf_store s" and "list_all (\<lambda>r. sync_id r \<in> set (note_uuids s)) rows"
  shows "\<exists>t c. repair_local_embeddings policy rows s = (t, Inr c) \<and> same_rows s t"
  using embed_rows_run [OF assms(1) list_all_filter [OF assms(2)]] assms(1)
  by (auto simp: repair_local_embeddings_def same_rows_def growth.R_refl
      split: local_embed_policy.split option.split)

lemma collect_Inr: "collect rs = Inr xs \<Longrightarrow> rs = map Inr xs"
proof (induction rs arbitrary: xs)
  case (Cons r rs)
  then show ?case by (cases r; cases "collect rs") auto
qed simp

lemma synced_row_ids:
  assumes "rows_for_sync s b = Inr rows"
  shows "list_all (\<lambda>r. sync_id r \<in> set (note_uuids s)) rows"
proof -
  have id: "sync_id q = row_uuid r" if "to_sync_row r = Inr q" for r q
    using that by (auto simp: to_sync_row_def split: if_splits)
  have "\<exists>r \<in> set rs. to_sync_row r = Inr q" if "collect (map to_sync_row rs) = Inr rows" "q \<in> set rows" for q rs
  proof -
    from arg_cong [OF collect_Inr [OF that(1)], of set] that(2) have "Inr q \<in> to_sync_row ` set rs" by simp
    then show ?thesis by (auto simp: image_iff intro: sym)
  qed
  then show ?thesis
    using assms id by (fastforce simp: rows_for_sync_def list_all_iff note_uuids_def)
qed

lemma embed_synced_runs:
  assumes "wf_store s"
  shows "\<exists>t c. embed_synced_rows policy s = (t, Inr c) \<and> same_rows s t"
proof -
  from rows_for_sync_wf [OF assms] obtain rows where rows: "rows_for_sync s False = Inr rows" by blast
  from repair_local_runs [OF assms list_all_filter [OF synced_row_ids [OF rows]]] rows
  show ?thesis by (simp add: embed_synced_rows_def bind_def)
qed

section \<open>Draining the feed\<close>

lemma bind_locally: "bind (locally m) f (s, w) =
    (case m s of (t, Inl e) \<Rightarrow> ((t, w), Inl (Local e)) | (t, Inr x) \<Rightarrow> f x (t, w))"
  by (simp add: bind_def locally_def split: prod.split sum.split)

lemma bind_on_server: "bind (on_server g) f (s, w) =
    (case g w of (v, Inl e) \<Rightarrow> ((s, v), Inl (Remote e)) | (v, Inr x) \<Rightarrow> f x (s, v))"
  by (simp add: bind_def on_server_def split: prod.split sum.split)

lemma bind_ask_server: "bind (ask_server g) f (s, w) =
    (case g w of Inl e \<Rightarrow> ((s, w), Inl (Remote e)) | Inr x \<Rightarrow> f x (s, w))"
  by (simp add: ask_server_def bind_on_server split: sum.split)

lemmas bind_net = bind_locally bind_on_server bind_ask_server

definition beyond :: "string option \<Rightarrow> remote_entry list \<Rightarrow> remote_entry list" where
  "beyond c es = filter (\<lambda>e. pull_cursor c < re_id e) es"

text \<open>The entries after the last one of a full page are the rest of the list.\<close>

lemma beyond_last:
  assumes "sorted_wrt (<) (map re_id es)" and "0 < n" and "n \<le> length (beyond c es)"
  shows "beyond (Some (re_id (last (take n (beyond c es))))) es = drop n (beyond c es)"
proof -
  let ?b = "beyond c es" and ?l = "re_id (last (take n (beyond c es)))"
  have srt: "sorted_wrt (<) (map re_id ?b)" using assms(1)
    by (auto simp: beyond_def sorted_wrt_map sorted_wrt_filter)
  have l: "last (take n ?b) = ?b ! (n - 1)" using assms(2,3)
    by (subst last_conv_nth) auto
  have "pull_cursor c < ?l" 
  proof -
    have "?b ! (n - 1) \<in> set ?b" using assms(2,3) by (intro nth_mem) simp
    then show ?thesis unfolding l by (simp add: beyond_def)
  qed
  then have "beyond (Some ?l) es = filter (\<lambda>e. ?l < re_id e) ?b"
    unfolding beyond_def filter_filter by (intro filter_cong) (auto simp: pull_cursor_def)
  also have "\<dots> = filter (\<lambda>e. ?l < re_id e) (take n ?b) @ filter (\<lambda>e. ?l < re_id e) (drop n ?b)"
    by (metis append_take_drop_id filter_append)
  also have "filter (\<lambda>e. ?l < re_id e) (take n ?b) = []"
  proof -
    have "re_id (?b ! i) \<le> ?l" if "i < n" for i
      using sorted_wrt_nth_less [OF srt, of i "n - 1"] that assms(3)
      by (cases "i = n - 1") (auto simp: l intro!: less_imp_le)
    then show ?thesis using assms(3) by (auto simp: filter_empty_conv in_set_conv_nth leD)
  qed
  also have "filter (\<lambda>e. ?l < re_id e) (drop n ?b) = drop n ?b"
  proof -
    have "?l < re_id (?b ! i)" if "n \<le> i" "i < length ?b" for i
      using sorted_wrt_nth_less [OF srt, of "n - 1" i] that assms(2,3) by (auto simp: l)
    then show ?thesis by (auto simp: filter_id_conv in_set_conv_nth)
  qed
  finally show ?thesis by simp
qed

text \<open>
  What the client relies on: a page is what the feed has first after the cursor, and the feed is
  ordered by the ids the cursor compares.
\<close>

locale delta_feed =
  fixes pull :: "string option \<Rightarrow> 'w \<Rightarrow> sync_error + since_page"
    and feed :: "'w \<Rightarrow> remote_entry list"
    and serves :: "'w \<Rightarrow> bool"
  assumes feed_sorted: "serves w \<Longrightarrow> sorted_wrt (<) (map re_id (feed w))"
    and pull_page: "serves w \<Longrightarrow> \<exists>n. pull c w = Inr
      \<lparr>page_entries = take MEMORY_SINCE_PULL_LIMIT (beyond c (feed w)), page_total = n\<rparr>"
begin

lemma drain_step:
  assumes "srv_pull srv = pull" and "pull c w = Inr \<lparr>page_entries = es, page_total = num\<rparr>"
    and "fold_each (apply_pulled P) es n s = (t, Inr m)"
  shows "drain_pages (Suc k) P srv c n tot (s, w) =
    (if length es < MEMORY_SINCE_PULL_LIMIT then ok (m, if num \<noteq> None then num else tot)
     else drain_pages k P srv (Some (re_id (last es))) m (if num \<noteq> None then num else tot)) (t, w)"
  using assms by (simp add: bind_net Let_def)

lemma drain_run:
  assumes "serves w" and "srv_pull srv = pull" and "mints_ids (pull_base P)"
    and "wf_store s" and "can_land P (feed w) s"
    and "length (beyond c (feed w)) div MEMORY_SINCE_PULL_LIMIT < fuel"
  shows "\<exists>t m. drain_pages fuel P srv c n tot (s, w) = ((t, w), Inr m) \<and> lands P (feed w) s t \<and>
    list_all (holds P t) (beyond c (feed w))"
  using assms(4-)
proof (induction fuel arbitrary: c n tot s)
  case (Suc k)
  let ?b = "beyond c (feed w)" and ?L = MEMORY_SINCE_PULL_LIMIT
  obtain num where page: "pull c w = Inr \<lparr>page_entries = take ?L ?b, page_total = num\<rparr>"
    using pull_page [OF assms(1)] by blast
  have "set (take ?L ?b) \<subseteq> set (feed w)"
    using set_take_subset [of ?L ?b] by (auto simp: beyond_def)
  from page_lands [OF assms(3) this Suc.prems(1,2)] obtain t m where
    run: "fold_each (apply_pulled P) (take ?L ?b) n s = (t, Inr m)"
    and t: "lands P (feed w) s t" "list_all (holds P t) (take ?L ?b)" by blast
  let ?tot = "if num \<noteq> None then num else tot"
  note step = drain_step [OF assms(2) page run, of k tot]
  show ?case
  proof (cases "length ?b < ?L")
    case True
    then show ?thesis using step t by simp
  next
    case False
    have L: "0 < ?L" by (simp add: MEMORY_SINCE_PULL_LIMIT_def)
    note rest = beyond_last [OF feed_sorted [OF assms(1)] L, of c] False
    have "length (drop ?L ?b) div ?L < k"
      using Suc.prems(3) False L by (simp add: le_div_geq)
    with Suc.IH [of t "Some (re_id (last (take ?L ?b)))" m ?tot] t(1) rest obtain u k' where
      u: "drain_pages k P srv (Some (re_id (last (take ?L ?b)))) m ?tot (t, w) = ((u, w), Inr k')"
      "lands P (feed w) t u" "list_all (holds P u) (drop ?L ?b)"
      by (auto simp: lands_def)
    have "list_all (holds P u) (take ?L ?b @ drop ?L ?b)"
      unfolding list_all_append using t(2) u(2,3) by (auto simp: lands_def list_all_iff intro: holds_mono)
    then show ?thesis using step False u(1) lands_trans [OF t(1) u(2)] by auto
  qed
qed simp

text \<open>The pull as a whole: the pages, the pages again when the server holds more, the vectors.\<close>

lemma pull_run:
  assumes "serves w" and "srv_pull srv = pull" and "mints_ids (pull_base P)"
    and "wf_store s" and "can_land P (feed w) s" and "length (feed w) div MEMORY_SINCE_PULL_LIMIT < fuel"
  shows "\<exists>t m. pull_and_apply_since fuel P policy srv c (s, w) = ((t, w), Inr m) \<and>
    wf_store t \<and> grows s t \<and> can_land P (feed w) t \<and> list_all (holds P t) (beyond c (feed w))"
proof -
  have fuel: "length (beyond c (feed w)) div MEMORY_SINCE_PULL_LIMIT < fuel" for c
    using assms(6) div_le_mono [OF length_filter_le, of "\<lambda>e. pull_cursor c < re_id e" "feed w"]
    by (auto simp: beyond_def intro: le_less_trans)
  from drain_run [OF assms(1-5) fuel, of c 0 None] obtain u n tot where
    u: "drain_pages_since fuel P srv c (s, w) = ((u, w), Inr (n, tot))" "lands P (feed w) s u"
      "list_all (holds P u) (beyond c (feed w))" by (auto simp: drain_pages_since_def)
  have wu: "wf_store u" "can_land P (feed w) u" using u(2) by (auto simp: lands_def)
  from drain_run [OF assms(1-3) wu fuel, of None 0 None] obtain v n' tot' where
    v: "drain_pages_since fuel P srv None (u, w) = ((v, w), Inr (n', tot'))" "lands P (feed w) u v"
    by (auto simp: drain_pages_since_def)
  obtain x k where x: "(case tot of
         Some tot \<Rightarrow> if tot > int (count_notes u) then bind (drain_pages_since fuel P srv None) (\<lambda>(again, _).
             ok (n + again)) else ok n
       | None \<Rightarrow> ok n) (u, w) = ((x, w), Inr k)" "lands P (feed w) u x"
  proof (cases "\<exists>a. tot = Some a \<and> a > int (count_notes u)")
    case True
    with v that [of v "n + n'"] show ?thesis by (auto simp: bind_Inr)
  next
    case False
    with lands_refl [OF wu] that [of u n] show ?thesis by (auto split: option.split)
  qed
  have wx: "wf_store x" using x(2) by (simp add: lands_def)
  from embed_synced_runs [OF wx, of policy] obtain t c' where
    t: "embed_synced_rows policy x = (t, Inr c')" "same_rows x t" by blast
  have "lands P (feed w) x t" using t(2) x(2)
    by (auto simp: same_rows_def lands_def note_uuids_def intro: can_land_same)
  with lands_trans [OF lands_trans [OF u(2) x(2)]] have l: "lands P (feed w) s t" by blast
  have g: "grows u t" using x(2) t(2) growth.R_trans by (auto simp: lands_def same_rows_def)
  have "list_all (holds P t) (beyond c (feed w))"
    using u(3) holds_mono [OF g] by (auto simp: list_all_iff)
  moreover have "\<exists>m. pull_and_apply_since fuel P policy srv c (s, w) = ((t, w), Inr m)"
    using u(1) x(1) t(1)
    by (simp add: pull_and_apply_since_def bind_Inr [of "drain_pages_since fuel P srv c"] bind_locally bind_Inr)
  ultimately show ?thesis using l by (auto simp: lands_def)
qed

text \<open>Whatever the fuel and the ids: a pull that returns holds what was past its cursor.\<close>

lemma drain_held:
  assumes "serves w" and "srv_pull srv = pull" and "mints_ids (pull_base P)" and "wf_store s"
    and "drain_pages fuel P srv c n tot (s, w) = (y, Inr r)"
  shows "\<exists>t. y = (t, w) \<and> wf_store t \<and> grows s t \<and> list_all (holds P t) (beyond c (feed w))"
  using assms(4-)
proof (induction fuel arbitrary: c n tot s)
  case (Suc k)
  let ?b = "beyond c (feed w)" and ?L = MEMORY_SINCE_PULL_LIMIT
  obtain num where page: "pull c w = Inr \<lparr>page_entries = take ?L ?b, page_total = num\<rparr>"
    using pull_page [OF assms(1)] by blast
  let ?tot = "if num \<noteq> None then num else tot"
  obtain t q where tq: "fold_each (apply_pulled P) (take ?L ?b) n s = (t, q)" by fastforce
  then obtain m where run: "fold_each (apply_pulled P) (take ?L ?b) n s = (t, Inr m)"
    using Suc.prems(2) assms(2) page by (cases q) (simp_all add: bind_net)
  have rest: "(if length (take ?L ?b) < ?L then ok (m, ?tot)
       else drain_pages k P srv (Some (re_id (last (take ?L ?b)))) m ?tot) (t, w) = (y, Inr r)"
    using Suc.prems(2) drain_step [OF assms(2) page run, of k tot] by (simp only:)
  note t = page_held [OF assms(3) Suc.prems(1) run]
  show ?case
  proof (cases "length ?b < ?L")
    case True
    then show ?thesis using rest t by auto
  next
    case False
    have L: "0 < ?L" by (simp add: MEMORY_SINCE_PULL_LIMIT_def)
    note last = beyond_last [OF feed_sorted [OF assms(1)] L, of c]
    from False rest Suc.IH [of t "Some (re_id (last (take ?L ?b)))" m ?tot] t last obtain u where
      u: "y = (u, w)" "wf_store u" "grows t u" "list_all (holds P u) (drop ?L ?b)" by auto
    have "list_all (holds P u) (take ?L ?b @ drop ?L ?b)"
      unfolding list_all_append using t u by (auto simp: list_all_iff intro: holds_mono)
    then show ?thesis using t u by (auto intro: growth.R_trans)
  qed
qed simp

lemma pull_held:
  assumes "serves w" and "srv_pull srv = pull" and "mints_ids (pull_base P)" and "wf_store s"
    and "pull_and_apply_since fuel P policy srv c (s, w) = (y, Inr out)"
  shows "\<exists>t. y = (t, w) \<and> wf_store t \<and> grows s t \<and> list_all (holds P t) (beyond c (feed w))"
proof -
  from assms(5) obtain y1 n tot where
    one: "drain_pages_since fuel P srv c (s, w) = (y1, Inr (n, tot))"
    by (auto simp: pull_and_apply_since_def bind_eq_Inr)
  from drain_held [OF assms(1-4) one [unfolded drain_pages_since_def]] obtain u where
    u: "y1 = (u, w)" "wf_store u" "grows s u" "list_all (holds P u) (beyond c (feed w))" by blast
  let ?again = "case tot of
         Some tot \<Rightarrow> if tot > int (count_notes u) then bind (drain_pages_since fuel P srv None) (\<lambda>(again, _).
             ok (n + again)) else ok n
       | None \<Rightarrow> ok n"
  from assms(5) one u(1) obtain y2 k where two: "?again (u, w) = (y2, Inr k)"
    and "bind (locally (embed_synced_rows policy)) (\<lambda>repair.
     ok \<lparr>pl_applied = k, pl_embedded_locally = rc_embedded repair,
         pl_without_local_vector = rc_without_vector repair\<rparr>) y2 = (y, Inr out)"
    by (simp add: pull_and_apply_since_def bind_Inr [where m = "drain_pages_since fuel P srv c", OF one]
        bind_locally bind_eq_Inr) blast
  then obtain c' where three: "locally (embed_synced_rows policy) y2 = (y, Inr c')"
    by (auto simp: bind_eq_Inr)
  have "\<exists>x. y2 = (x, w) \<and> wf_store x \<and> grows u x"
  proof (cases "\<exists>a. tot = Some a \<and> a > int (count_notes u)")
    case True
    with two obtain n' tot' where "drain_pages_since fuel P srv None (u, w) = (y2, Inr (n', tot'))"
      by (auto simp: bind_eq_Inr)
    from drain_held [OF assms(1-3) u(2) this [unfolded drain_pages_since_def]] show ?thesis by blast
  next
    case False
    with two u(2) show ?thesis by (auto simp: growth.R_refl split: option.splits)
  qed
  then obtain x where x: "y2 = (x, w)" "wf_store x" "grows u x" by blast
  from embed_synced_runs [OF x(2), of policy] obtain t c'' where
    t: "embed_synced_rows policy x = (t, Inr c'')" "same_rows x t" by blast
  have "y = (t, w)" using three t(1) x(1) by (simp add: locally_def)
  moreover have "grows s t" "grows u t" using u(3) x(3) t(2) growth.R_trans by (auto simp: same_rows_def)
  moreover have "list_all (holds P t) (beyond c (feed w))"
    using u(4) holds_mono [OF \<open>grows u t\<close>] by (auto simp: list_all_iff)
  ultimately show ?thesis using t(2) by (auto simp: same_rows_def)
qed

end

end
