(* ===== verification/Push_Drain.thy ===== *)
theory Push_Drain
  imports Sync_Converge
begin

text \<open>
  What a push achieves: against a server that answers every entry it takes, a push that is not
  interrupted leaves nothing pending and reports no failed entry.
\<close>

section \<open>Stamping\<close>

definition synced :: "memory_store \<Rightarrow> note_id \<Rightarrow> bool" where
  "synced s i = list_ex (\<lambda>r. row_uuid r = i \<and> row_remote_id r \<noteq> None) (note_rows s)"

definition id_and_status :: "memory_store \<Rightarrow> (string \<times> string) list" where
  "id_and_status s = map (\<lambda>r. (row_uuid r, row_status r)) (note_rows s)"

text \<open>What stamping and embedding may do to the store.\<close>

definition stamps :: "memory_store \<Rightarrow> memory_store \<Rightarrow> bool" where
  "stamps s t = ((wf_store s \<longrightarrow> wf_store t) \<and> grows s t \<and> id_and_status t = id_and_status s)"

interpretation stamping: step_relation stamps
  by unfold_locales (auto simp: stamps_def growth.R_refl intro: growth.R_trans)

lemma synced_mono: "stamps s t \<Longrightarrow> synced s i \<Longrightarrow> synced t i"
proof -
  assume "stamps s t" "synced s i"
  then obtain r where r: "r \<in> set (note_rows s)" "row_uuid r = i" "row_remote_id r \<noteq> None"
    by (auto simp: synced_def list_ex_iff)
  from \<open>stamps s t\<close> have "rows_evolve (note_rows s) (note_rows t)" by (simp add: stamps_def grows_def)
  from rows_evolve_in [OF this r(1)] r(2,3) show "synced t i"
    by (auto simp: synced_def list_ex_iff row_evolves_def)
qed

lemma uuids_id_and_status: "note_uuids s = map fst (id_and_status s)"
  by (simp add: note_uuids_def id_and_status_def comp_def)

lemma stamps_uuids: "stamps s t \<Longrightarrow> note_uuids t = note_uuids s"
  by (simp add: stamps_def uuids_id_and_status)

lemma same_rows_stamps: "same_rows s t \<Longrightarrow> stamps s t"
  by (simp add: same_rows_def stamps_def id_and_status_def)

lemma set_remote_id_stamps: "keeps stamps (set_remote_id i x)"
proof (rule keeps_state)
  fix s
  have "wf_store s \<longrightarrow> wf_store (fst (set_remote_id i x s))"
    using set_remote_id_rules(1) by (simp add: keeps_def carries_def)
  moreover have "grows s (fst (set_remote_id i x s))" using set_remote_id_rules(2) by (simp add: keeps_def)
  moreover have "id_and_status (fst (set_remote_id i x s)) = id_and_status s"
    by (simp add: set_remote_id_def bind_def sql_update_def Let_def id_and_status_def)
  ultimately show "stamps s (fst (set_remote_id i x s))" by (simp add: stamps_def)
qed

lemma set_remote_id_synced:
  assumes "set_remote_id i x s = (t, Inr ())" and "i \<in> set (note_uuids s)"
  shows "synced t i"
proof -
  have "note_rows t = map (\<lambda>r. if row_uuid r = i \<and> row_remote_id r = None
      then r\<lparr>row_remote_id := Some x\<rparr> else r) (note_rows s)"
    using assms(1) by (auto simp: set_remote_id_def bind_def sql_update_def Let_def split: if_splits)
  moreover obtain r where r: "r \<in> set (note_rows s)" "row_uuid r = i"
    using assms(2) by (auto simp: in_note_uuids)
  ultimately have "(if row_remote_id r = None then r\<lparr>row_remote_id := Some x\<rparr> else r) \<in> set (note_rows t)"
    by (auto simp: image_iff intro!: bexI [of _ r])
  moreover have "row_uuid (if row_remote_id r = None then r\<lparr>row_remote_id := Some x\<rparr> else r) = i \<and>
      row_remote_id (if row_remote_id r = None then r\<lparr>row_remote_id := Some x\<rparr> else r) \<noteq> None"
    using r(2) by simp
  ultimately show ?thesis unfolding synced_def list_ex_iff by blast
qed

section \<open>The answers of a server that takes every entry\<close>

definition stored_answer :: "batch_push_item \<Rightarrow> batch_item_result \<Rightarrow> bool" where
  "stored_answer i r = (ir_external_id r = Some (bi_external_id i) \<and>
     (ir_status r = ''created'' \<or> ir_status r = ''skipped'') \<and> ir_id r \<noteq> None)"

lemma stored_answer_other_item:
  "bi_external_id i = bi_external_id j \<Longrightarrow> stored_answer i r = stored_answer j r"
  by (simp add: stored_answer_def)

definition no_failures :: "push_progress \<Rightarrow> push_progress \<Rightarrow> nat \<Rightarrow> bool" where
  "no_failures a b n = (pp_failed b = pp_failed a \<and>
     pp_created b + pp_skipped b = pp_created a + pp_skipped a + word_of_nat n \<and>
     pp_interrupted b = pp_interrupted a)"

lemma stamp_result_stamps: "keeps stamps (stamp_result chunk item acc)"
  unfolding stamp_result_def Let_def
  by (auto split: option.split intro!: stamping.keeps_intros set_remote_id_stamps)

lemma stamp_result_run:
  assumes "stamp_result chunk item acc s = (t, Inr acc')" and "ir_external_id item = Some i"
    and "ir_status item = ''created'' \<or> ir_status item = ''skipped''" and "ir_id item \<noteq> None"
    and "i \<in> sync_id ` set chunk" and "i \<in> set (note_uuids s)"
  shows "synced t i \<and> no_failures acc acc' 1"
proof -
  obtain x where x: "ir_id item = Some x" using assms(4) by blast
  have "list_ex (\<lambda>r. sync_id r = i) chunk" using assms(5) by (auto simp: list_ex_iff)
  with assms(1-3) x obtain u where u: "set_remote_id i x s = (t, Inr u)"
    "acc' = (count_result (ir_status item) acc)\<lparr>pp_just_synced :=
      List.insert i (pp_just_synced (count_result (ir_status item) acc))\<rparr>"
    by (auto simp: stamp_result_def Let_def bind_eq_Inr)
  have "no_failures acc acc' 1" using assms(3) u(2) by (auto simp: no_failures_def count_result_def)
  with set_remote_id_synced [OF u(1) [unfolded unit_eq [of u]] assms(6)] show ?thesis by simp
qed

lemma stamp_all:
  assumes "fold_each (stamp_result chunk) rs acc s = (t, Inr acc')"
    and "list_all2 (\<lambda>q r. \<exists>i. stored_answer i r \<and> bi_external_id i = sync_id q) qs rs"
    and "set qs \<subseteq> set chunk" and "list_all (\<lambda>q. sync_id q \<in> set (note_uuids s)) qs"
  shows "stamps s t \<and> list_all (\<lambda>q. synced t (sync_id q)) qs \<and> no_failures acc acc' (length qs)"
  using assms(2,1,3,4)
proof (induction qs rs arbitrary: acc s rule: list_all2_induct)
  case Nil
  then show ?case by (simp add: stamping.R_refl no_failures_def)
next
  case (Cons q qs r rs)
  from Cons.prems(1) obtain u a where u: "stamp_result chunk r acc s = (u, Inr a)"
    and rest: "fold_each (stamp_result chunk) rs a u = (t, Inr acc')" by (auto simp: bind_eq_Inr)
  from Cons.hyps(1) obtain i where i: "stored_answer i r" "bi_external_id i = sync_id q" by blast
  have su: "stamps s u" using stamp_result_stamps [of chunk r acc] u by (metis fst_conv keeps_def)
  have one: "synced u (sync_id q) \<and> no_failures acc a 1"
    by (rule stamp_result_run [OF u]) (use i Cons.prems(2,3) in \<open>auto simp: stored_answer_def\<close>)
  have "stamps u t \<and> list_all (\<lambda>q. synced t (sync_id q)) qs \<and> no_failures a acc' (length qs)"
    by (rule Cons.IH [OF rest]) (use Cons.prems(2,3) stamps_uuids [OF su] in auto)
  with su one show ?case
    by (auto simp: no_failures_def intro: stamping.R_trans synced_mono)
qed

section \<open>All chunks\<close>

lemma bind_attempt_on_server: "bind (attempt (on_server g)) f (s, w) =
    (case g w of (v, Inl e) \<Rightarrow> f (Inl (Remote e)) (s, v) | (v, Inr x) \<Rightarrow> f (Inr x) (s, v))"
  by (simp add: bind_attempt on_server_def split: prod.split sum.split)

lemma chunks_concat: "0 < n \<Longrightarrow> concat (chunks n xs) = xs"
  by (induction n xs rule: chunks.induct) (subst chunks.simps, auto)

lemma chunks_nonempty: "[] \<notin> set (chunks n xs)"
  by (induction n xs rule: chunks.induct) (subst chunks.simps, auto)

lemma chunks_short: "ys \<in> set (chunks n xs) \<Longrightarrow> length ys \<le> n"
proof (induction n xs rule: chunks.induct)
  case (1 n xs)
  then show ?case by (cases "n = 0 \<or> xs = []") (auto simp: chunks.simps [of n xs])
qed

text \<open>
  What a push relies on: a batch that is taken is answered entry by entry, in order, each stored
  or already there, with the id it has on the server.
\<close>

locale push_service =
  fixes push :: "batch_push_item list \<Rightarrow> 'w \<Rightarrow> 'w \<times> (sync_error + batch_push_result)"
    and serves :: "'w \<Rightarrow> bool"
  assumes push_keeps: "serves w \<Longrightarrow> serves (fst (push items w))"
    and push_answers: "serves w \<Longrightarrow> push items w = (v, Inr res) \<Longrightarrow>
      list_all2 stored_answer items (item_results res)"
begin

lemma push_chunks_run:
  assumes "srv_push srv = push" and "serves w" and "[] \<notin> set cs"
    and "push_chunks mdl av force srv cs acc (s, w) = ((t, v), Inr acc')"
    and "pp_interrupted acc = None" and "pp_interrupted acc' = None"
    and "list_all (\<lambda>q. sync_id q \<in> set (note_uuids s)) (concat cs)"
  shows "serves v \<and> stamps s t \<and> list_all (\<lambda>q. synced t (sync_id q)) (concat cs) \<and>
    no_failures acc acc' (length (concat cs))"
  using assms(2-)
proof (induction cs arbitrary: acc s w)
  case Nil
  then show ?case by (simp add: stamping.R_refl no_failures_def)
next
  case (Cons chunk cs)
  let ?items = "map (push_item mdl av force s) chunk"
  obtain w' r where push: "push ?items w = (w', r)" by (cases "push ?items w")
  obtain res where r: "r = Inr res"
    using Cons.prems(3,5) push assms(1) by (cases r) (simp_all add: bind_locally bind_attempt_on_server, auto)
  have run: "bind (locally (fold_each (stamp_result chunk) (item_results res) (add_aggregates res acc)))
      (push_chunks mdl av force srv cs) (s, w') = ((t, v), Inr acc')"
    using Cons.prems(3) push r assms(1) by (simp add: bind_locally bind_attempt_on_server)
  then obtain u a where
    u: "fold_each (stamp_result chunk) (item_results res) (add_aggregates res acc) s = (u, Inr a)"
    and rest: "push_chunks mdl av force srv cs a (u, w') = ((t, v), Inr acc')"
    unfolding bind_locally by (auto split: prod.splits sum.splits)
  have ans: "list_all2 stored_answer ?items (item_results res)"
    using push_answers [OF Cons.prems(1)] push r by blast
  have ne: "item_results res \<noteq> []" using ans Cons.prems(2) by auto
  have ext: "bi_external_id (push_item mdl av force s q) = sync_id q" for q
    by (simp add: push_item_def maybe_attach_vector_def split: option.split bool.split)
  have "list_all2 (\<lambda>q r. \<exists>i. stored_answer i r \<and> bi_external_id i = sync_id q) chunk (item_results res)"
    using ans unfolding list.rel_map by (rule list_all2_mono) (use ext in blast)
  from stamp_all [OF u this] Cons.prems(6) ne have su: "stamps s u"
    "list_all (\<lambda>q. synced u (sync_id q)) chunk" "no_failures acc a (length chunk)"
    by (auto simp: add_aggregates_def)
  have "serves w'" using push_keeps [OF Cons.prems(1), of ?items] push by simp
  moreover have "list_all (\<lambda>q. sync_id q \<in> set (note_uuids u)) (concat cs)"
    using Cons.prems(6) stamps_uuids [OF su(1)] by simp
  moreover have "pp_interrupted a = None" using su(3) Cons.prems(4) by (simp add: no_failures_def)
  ultimately have "serves v \<and> stamps u t \<and> list_all (\<lambda>q. synced t (sync_id q)) (concat cs) \<and>
      no_failures a acc' (length (concat cs))"
    using Cons.prems(2,5) by (intro Cons.IH [OF _ _ rest]) auto
  with su show ?case
    by (auto simp: no_failures_def list_all_iff intro: stamping.R_trans synced_mono)
qed

end

section \<open>The push as a whole\<close>

text \<open>What follows the chunks does not touch the local store.\<close>

definition same_store :: "memory_store \<times> 'w \<Rightarrow> memory_store \<times> 'w \<Rightarrow> bool" where
  "same_store x y = (fst y = fst x)"

interpretation remote_only: step_relation same_store
  by unfold_locales (auto simp: same_store_def)

lemma on_server_same_store: "keeps same_store (on_server g)"
  by (rule keeps_state) (auto simp: on_server_def same_store_def split: prod.split sum.split)

lemma locally_reading_same_store: "keeps same_store (locally (reading k))"
  by (rule keeps_state) (auto simp: locally_def same_store_def split: prod.split sum.split)

lemma push_rest_same_store:
  "keeps same_store (push_tombstones srv rows)" "keeps same_store (push_relates_to_edges srv just)"
  "keeps same_store (fold_each (push_anchor srv) rows n)"
  unfolding push_tombstones_def push_relates_to_edges_def push_anchor_def Let_def
  by (auto split: option.split
      intro!: remote_only.keeps_intros on_server_same_store locally_reading_same_store)

lemma same_storeD: "keeps same_store m \<Longrightarrow> m (s, w) = ((t, v), r) \<Longrightarrow> t = s"
  by (metis fst_conv keeps_def same_store_def)

lemma row_of_sync:
  assumes "rows_for_sync s b = Inr rows" and "r \<in> set (note_rows s)" and "row_status r = ''active''"
  shows "\<exists>q \<in> set rows. sync_id q = row_uuid r \<and> sync_remote_id q = row_remote_id r \<and> \<not> sync_archived q"
proof -
  let ?rs = "sort_key (\<lambda>r. (row_created_at r, row_id r))
    (filter (\<lambda>r. b \<or> row_status r = ''active'') (note_rows s))"
  have "map to_sync_row ?rs = map Inr rows"
    using assms(1) by (intro collect_Inr) (simp add: rows_for_sync_def)
  from arg_cong [OF this, of set] have img: "to_sync_row ` set ?rs = Inr ` set rows" by simp
  have "to_sync_row r \<in> to_sync_row ` set ?rs" using assms(2,3) by (intro imageI) simp
  then obtain q where "q \<in> set rows" "to_sync_row r = Inr q" unfolding img by blast
  then show ?thesis using assms(3) by (intro bexI [of _ q]) (auto simp: to_sync_row_def split: if_splits)
qed

lemma none_pending:
  assumes wf: "wf_store t" and st: "stamps s t" and rows: "rows_for_sync s b = Inr rows"
    and stamped: "list_all (\<lambda>q. synced t (sync_id q)) (filter (\<lambda>q. \<not> sync_archived q \<and> sync_remote_id q = None) rows)"
  shows "pending_sync_count t = 0"
proof -
  have False if r: "r \<in> set (note_rows t)" "row_status r = ''active''" "row_remote_id r = None" for r
  proof -
    have "(row_uuid r, row_status r) \<in> set (id_and_status s)"
    proof -
      have "(row_uuid r, row_status r) \<in> set (id_and_status t)" using r(1) by (simp add: id_and_status_def)
      with st show ?thesis by (simp add: stamps_def)
    qed
    then obtain q where q: "q \<in> set (note_rows s)" "row_uuid q = row_uuid r" "row_status q = ''active''"
      using r(2) by (auto simp: id_and_status_def)
    from row_of_sync [OF rows q(1,3)] obtain y where
      y: "y \<in> set rows" "sync_id y = row_uuid r" "sync_remote_id y = row_remote_id q" "\<not> sync_archived y"
      using q(2) by auto
    have "synced t (row_uuid r)"
    proof (cases "row_remote_id q = None")
      case True
      with y stamped show ?thesis by (auto simp: list_all_iff)
    next
      case False
      with q have "synced s (row_uuid r)" by (auto simp: synced_def list_ex_iff)
      with st show ?thesis by (rule synced_mono)
    qed
    then obtain x where "x \<in> set (note_rows t)" "row_uuid x = row_uuid r" "row_remote_id x \<noteq> None"
      by (auto simp: synced_def list_ex_iff)
    with uuid_unique [OF wf this(1) r(1)] r(3) show False by simp
  qed
  then show ?thesis by (auto simp: pending_sync_count_def filter_empty_conv)
qed

context push_service
begin

lemma push_drains:
  assumes "srv_push srv = push" and "serves w" and "wf_store s"
    and "push_local policy mdl include_archived av srv (s, w) = ((t, v), Inr out)"
    and "ps_interrupted out = None"
  shows "wf_store t \<and> grows s t \<and> pending_sync_count t = 0 \<and> ps_failed out = 0 \<and>
    ps_created out + ps_skipped out = word_of_nat (ps_attempted out)"
proof -
  obtain rows where rows: "rows_for_sync s include_archived = Inr rows"
    using assms(4) by (cases "rows_for_sync s include_archived")
      (auto simp: push_local_def push_local_reporting_def bind_locally)
  show ?thesis
  proof (cases "rows = []")
    case True
    then have "t = s" "out = empty_push_summary"
      using assms(4) rows by (simp_all add: push_local_def push_local_reporting_def bind_locally)
    moreover from this(1) have "pending_sync_count t = 0"
      using none_pending [OF assms(3) stamping.R_refl rows] True by simp
    ultimately show ?thesis using assms(3) by (simp add: growth.R_refl empty_push_summary_def)
  next
    case False
    let ?live = "filter (\<lambda>r. \<not> sync_archived r \<and> sync_remote_id r = None) rows"
    have ids: "list_all (\<lambda>q. sync_id q \<in> set (note_uuids s)) ?live"
      by (rule list_all_filter [OF synced_row_ids [OF rows]])
    from repair_local_runs [OF assms(3) ids, of policy] obtain s1 rc where
      rep: "repair_local_embeddings policy ?live s = (s1, Inr rc)" "same_rows s s1" by blast
    let ?push = "push_chunks mdl av False srv (chunks PUSH_BATCH_CHUNK_SIZE ?live) push_start"
    define rest where "rest acc = bind (if pp_interrupted acc = None \<and> include_archived then push_tombstones srv rows else ok ()) (\<lambda>_.
       bind (if pp_interrupted acc = None
             then bind (attempt (push_relates_to_edges srv (pp_just_synced acc))) (\<lambda>answer.
               ok (case answer of Inr n \<Rightarrow> n | Inl _ \<Rightarrow> 0)) else ok 0) (\<lambda>edges.
       bind (if pp_interrupted acc = None then fold_each (push_anchor srv) rows 0 else ok 0) (\<lambda>anchors.
       ok \<lparr>ps_attempted = length ?live, ps_created = pp_created acc, ps_skipped = pp_skipped acc,
           ps_failed = pp_failed acc,
           ps_already_synced = length (filter (\<lambda>r. \<not> sync_archived r \<and> sync_remote_id r \<noteq> None) rows),
           ps_interrupted = pp_interrupted acc,
           ps_embedded_locally = rc_embedded rc, ps_without_local_vector = rc_without_vector rc,
           ps_edges_pushed = edges, ps_anchors_pushed = anchors\<rparr>)))" for acc :: push_progress
    have "bind ?push rest (s1, w) = ((t, v), Inr out)"
      using assms(4) False rows rep(1)
      by (simp add: push_local_def push_local_reporting_def bind_locally Let_def rest_def [abs_def])
    then obtain t1 v1 acc where push: "?push (s1, w) = ((t1, v1), Inr acc)"
      and rest: "rest acc (t1, v1) = ((t, v), Inr out)" by (auto simp: bind_eq_Inr)
    have "keeps same_store (rest acc)" unfolding rest_def
      by (intro remote_only.keeps_intros keeps_If push_rest_same_store)
    from same_storeD [OF this rest] have t: "t = t1" .
    have out: "ps_attempted out = length ?live" "ps_failed out = pp_failed acc"
        "ps_created out = pp_created acc" "ps_skipped out = pp_skipped acc" "ps_interrupted out = pp_interrupted acc"
      using rest by (auto simp: rest_def bind_eq_Inr)
    have live: "concat (chunks PUSH_BATCH_CHUNK_SIZE ?live) = ?live"
      by (rule chunks_concat) (simp add: PUSH_BATCH_CHUNK_SIZE_def)
    have res: "serves v1 \<and> stamps s1 t1 \<and> list_all (\<lambda>q. synced t1 (sync_id q)) ?live \<and>
        no_failures push_start acc (length ?live)"
      using push_chunks_run [OF assms(1,2) chunks_nonempty push] assms(5) out(5) ids rep(2)
      unfolding live by (simp add: push_start_def same_rows_def note_uuids_def)
    have st: "stamps s t" using stamping.R_trans [OF same_rows_stamps [OF rep(2)]] res t by blast
    have "wf_store t" "grows s t" using st assms(3) by (auto simp: stamps_def)
    moreover have "pending_sync_count t = 0"
      by (rule none_pending [OF \<open>wf_store t\<close> st rows]) (use res t in simp)
    ultimately show ?thesis using res out by (auto simp: no_failures_def push_start_def)
  qed
qed

end

section \<open>What a push keeps, interrupted or not\<close>

definition advances :: "('w \<Rightarrow> bool) \<Rightarrow> memory_store \<times> 'w \<Rightarrow> memory_store \<times> 'w \<Rightarrow> bool" where
  "advances serves x y = ((wf_store (fst x) \<longrightarrow> wf_store (fst y)) \<and> grows (fst x) (fst y) \<and>
     (serves (snd x) \<longrightarrow> serves (snd y)))"

interpretation advance: step_relation "advances serves" for serves
  by unfold_locales (auto simp: advances_def growth.R_refl intro: growth.R_trans)

definition srv_keeps :: "('w \<Rightarrow> bool) \<Rightarrow> 'w team_server \<Rightarrow> bool" where
  "srv_keeps serves srv = (\<forall>w. serves w \<longrightarrow> (\<forall>items. serves (fst (srv_push srv items w))) \<and>
     (\<forall>i. serves (fst (srv_delete srv i w))) \<and> (\<forall>es. serves (fst (srv_push_edges srv es w))) \<and>
     (\<forall>i r. serves (fst (srv_push_anchor srv i r w))))"

lemma fst_locally: "fst (locally m x) = (fst (m (fst x)), snd x)"
  by (cases x) (simp add: locally_def split: prod.split sum.split)

lemma fst_on_server: "fst (on_server g x) = (fst x, fst (g (snd x)))"
  by (cases x) (simp add: on_server_def split: prod.split sum.split)

lemma locally_advances: "wf_op m \<Longrightarrow> grow_op m \<Longrightarrow> keeps (advances serves) (locally m)"
  by (rule keeps_state) (auto simp: fst_locally advances_def keeps_def carries_def)

lemma on_server_advances: "(\<And>w. serves w \<Longrightarrow> serves (fst (g w))) \<Longrightarrow> keeps (advances serves) (on_server g)"
  by (rule keeps_state) (auto simp: fst_on_server advances_def growth.R_refl)

lemma srv_advances:
  assumes "srv_keeps serves srv"
  shows "keeps (advances serves) (on_server (srv_push srv items))"
    "keeps (advances serves) (on_server (srv_delete srv i))"
    "keeps (advances serves) (on_server (srv_push_edges srv es))"
    "keeps (advances serves) (on_server (srv_push_anchor srv i r))"
  using assms by (auto simp: srv_keeps_def intro!: on_server_advances)

lemma repair_one_keeps: "wf_op (repair_one f r acc)" "grow_op (repair_one f r acc)"
  unfolding repair_one_def by (intro wf_intros)+

lemma repair_keeps: "wf_op (repair_local_embeddings policy rows)" "grow_op (repair_local_embeddings policy rows)"
  unfolding repair_local_embeddings_def
  by (auto split: local_embed_policy.split option.split intro!: wf_intros repair_one_keeps)

lemma stamp_result_keeps: "wf_op (stamp_result chunk item acc)" "grow_op (stamp_result chunk item acc)"
  using stamp_result_stamps [of chunk item acc] by (auto simp: keeps_def carries_def stamps_def)

lemma locally_pure_advances: "keeps (advances serves) (locally (query f))" "keeps (advances serves) (locally (reading k))"
  by (intro locally_advances wf_intros)+

lemma push_chunks_advances:
  assumes "srv_keeps serves srv"
  shows "keeps (advances serves) (push_chunks mdl av force srv cs acc)"
proof (induction cs arbitrary: acc)
  case (Cons chunk cs)
  show ?case
    by (auto split: sum.split sync_failure.split intro!: advance.keeps_intros locally_pure_advances
        srv_advances [OF assms] locally_advances wf_intros stamp_result_keeps Cons.IH)
qed (simp add: advance.keeps_pure)

lemma push_rest_advances:
  assumes "srv_keeps serves srv"
  shows "keeps (advances serves) (push_tombstones srv rows)"
    "keeps (advances serves) (push_relates_to_edges srv just)"
    "keeps (advances serves) (fold_each (push_anchor srv) rows n)"
  unfolding push_tombstones_def push_relates_to_edges_def push_anchor_def Let_def
  by (auto split: option.split intro!: advance.keeps_intros locally_pure_advances srv_advances [OF assms])

lemma push_local_advances:
  assumes "srv_keeps serves srv"
  shows "keeps (advances serves) (push_local policy mdl include_archived av srv)"
  unfolding push_local_def push_local_reporting_def Let_def
  by (intro advance.keeps_intros keeps_If locally_pure_advances locally_advances repair_keeps
      push_chunks_advances [OF assms] push_rest_advances [OF assms])

end
