(* ===== verification/Team_Service.thy ===== *)
theory Team_Service
  imports Team_Push Push_Drain
begin

text \<open>
  The team server as the sync client sees it: the routes of \<open>handlers/notes.rs\<close> that a push uses
  besides the batch, the answers as the client reads them, and the two contracts of a round - a
  sorted feed, an answer for every pushed entry - discharged by the server's own operations.
\<close>

section \<open>Routes\<close>

definition handle_delete_note :: "string \<Rightarrow> string \<Rightarrow> (team_db, app_error, bool) st" where
  "handle_delete_note slug nid = bind (reading (\<lambda>d. require_project d slug)) (\<lambda>p.
     on_db (team_delete_note (prj_id p) nid))"

definition handle_archive_note :: "string \<Rightarrow> string \<Rightarrow> (team_db, app_error, bool) st" where
  "handle_archive_note slug nid = bind (reading (\<lambda>d. require_project d slug)) (\<lambda>p.
     on_db (team_archive_note (prj_id p) nid))"

definition handle_supersede_note :: "string \<Rightarrow> string \<Rightarrow> string \<Rightarrow> (team_db, app_error, bool) st" where
  "handle_supersede_note slug nid new_id = bind (reading (\<lambda>d. require_project d slug)) (\<lambda>p.
     on_db (team_supersede_note (prj_id p) nid new_id))"

definition handle_update_anchor :: "string \<Rightarrow> string \<Rightarrow> string \<Rightarrow> (team_db, app_error, bool) st" where
  "handle_update_anchor slug nid source_ref = bind (reading (\<lambda>d. require_project d slug)) (\<lambda>p.
     on_db (team_set_note_source_ref (prj_id p) nid source_ref))"

lemma handlers_keep:
  "keeps (carries team_wf) (handle_delete_note slug i)"
  "keeps (carries team_wf) (handle_archive_note slug i)"
  "keeps (carries team_wf) (handle_supersede_note slug i j)"
  "keeps (carries team_wf) (handle_update_anchor slug i ref)"
  unfolding handle_delete_note_def handle_archive_note_def handle_supersede_note_def handle_update_anchor_def
  by (intro inv.keeps_intros on_db_keeps team_delete_keeps team_archive_keeps team_supersede_keeps
      team_source_ref_keeps)+

section \<open>The server behind the client\<close>

text \<open>What a handler returned, as a status and a body.\<close>

definition answer_of :: "nat \<Rightarrow> app_error + 'a \<Rightarrow> (unit, 'a) http_answer" where
  "answer_of good r = (case r of Inl e \<Rightarrow> Answered (app_status e) None | Inr x \<Rightarrow> Answered good (Some x))"

definition map_result :: "('a \<Rightarrow> 'b) \<Rightarrow> app_error + 'a \<Rightarrow> app_error + 'b" where
  "map_result f r = (case r of Inl e \<Rightarrow> Inl e | Inr x \<Rightarrow> Inr (f x))"

definition since_page_answer :: "since_answer \<Rightarrow> since_page option" where
  "since_page_answer a = (case a of Delta p \<Rightarrow> Some p | Legacy _ \<Rightarrow> None)"

definition team_pull ::
    "server_env \<Rightarrow> string \<Rightarrow> string option \<Rightarrow> team_db \<Rightarrow> sync_error + since_page" where
  "team_pull E slug c d = pull_since_answer
     (case memory_since E d slug (Some (pull_cursor c)) None (int MEMORY_SINCE_PULL_LIMIT) of
        Inl e \<Rightarrow> (Answered (app_status e) None :: (unit, since_page) http_answer)
      | Inr a \<Rightarrow> Answered 200 (since_page_answer a))"

text \<open>\<open>mint\<close> is the supply of ids, \<open>now\<close> the clock; an empty batch makes no request.\<close>

definition minted_ids :: "(team_db \<Rightarrow> nat \<Rightarrow> string) \<Rightarrow> team_db \<Rightarrow> 'a list \<Rightarrow> string list" where
  "minted_ids mint d items = map (mint d) [0..<length items]"

definition team_push_batch ::
    "server_env \<Rightarrow> int \<Rightarrow> (string list \<Rightarrow> app_error + storage_embedding) \<Rightarrow> (team_db \<Rightarrow> nat \<Rightarrow> string) \<Rightarrow>
     string \<Rightarrow> batch_push_item list \<Rightarrow> team_db \<Rightarrow> team_db \<times> (sync_error + batch_push_result)" where
  "team_push_batch E now embed_texts mint slug items d =
     (if items = [] then (d, push_batch_answer items (Answered 207 None :: (unit, batch_push_result) http_answer))
      else case push_memory_batch E now embed_texts (minted_ids mint d items) slug items d of
        (d', r) \<Rightarrow> (d', push_batch_answer items (answer_of 207 (map_result wire_batch_result r))))"

text \<open>The batch route reads \<open>entries\<close> only, and its answer has no \<open>edges\<close>.\<close>

definition team_push_edges ::
    "server_env \<Rightarrow> int \<Rightarrow> (string list \<Rightarrow> app_error + storage_embedding) \<Rightarrow> string \<Rightarrow>
     (string \<times> string) list \<Rightarrow> team_db \<Rightarrow> team_db \<times> (sync_error + nat)" where
  "team_push_edges E now embed_texts slug es d =
     (if es = [] then (d, Inr (edges_applied []))
      else case push_memory_batch E now embed_texts [] slug [] d of
        (d', Inl e) \<Rightarrow> (d', Inl (Http_Status (app_status e))) | (d', Inr _) \<Rightarrow> (d', Inr (edges_applied [])))"

definition team_delete :: "string \<Rightarrow> string \<Rightarrow> team_db \<Rightarrow> team_db \<times> (sync_error + unit)" where
  "team_delete slug i d = (case handle_delete_note slug i d of
     (d', r) \<Rightarrow> (d', delete_remote_answer (answer_of 200 (map_result (\<lambda>_. ()) r))))"

definition team_push_anchor :: "string \<Rightarrow> string \<Rightarrow> string \<Rightarrow> team_db \<Rightarrow> team_db \<times> (sync_error + unit)" where
  "team_push_anchor slug i ref d = (case handle_update_anchor slug i ref d of
     (d', Inl e) \<Rightarrow> (d', Inl (Http_Status (app_status e))) | (d', Inr _) \<Rightarrow> (d', Inr ()))"

definition team_service ::
    "server_env \<Rightarrow> int \<Rightarrow> (string list \<Rightarrow> app_error + storage_embedding) \<Rightarrow> (team_db \<Rightarrow> nat \<Rightarrow> string) \<Rightarrow>
     string \<Rightarrow> team_db team_server" where
  "team_service E now embed_texts mint slug =
     \<lparr>srv_pull = team_pull E slug, srv_push = team_push_batch E now embed_texts mint slug,
      srv_delete = team_delete slug, srv_push_edges = team_push_edges E now embed_texts slug,
      srv_push_anchor = team_push_anchor slug\<rparr>"

section \<open>The feed\<close>

definition team_feed :: "server_env \<Rightarrow> string \<Rightarrow> team_db \<Rightarrow> remote_entry list" where
  "team_feed E slug d = (case get_project d slug of None \<Rightarrow> []
     | Some p \<Rightarrow> map (wire_since_entry E \<circ> row_to_since_id_row) (sort_key tr_sync_id
         (filter (\<lambda>r. tr_project r = prj_id p \<and> tr_status r \<noteq> ''archived'') (team_rows d))))"

definition team_serves :: "string \<Rightarrow> team_db \<Rightarrow> bool" where
  "team_serves slug d = (team_wf d \<and> validate_project_slug slug = Inr ())"

lemma re_id_wire: "re_id (wire_since_entry E (row_to_since_id_row r)) = tr_sync_id r"
  by (simp add: wire_since_entry_def row_to_since_id_row_def)

lemma team_feed_sorted:
  assumes "team_wf d"
  shows "sorted_wrt (<) (map re_id (team_feed E slug d))"
proof (cases "get_project d slug")
  case (Some p)
  let ?rs = "filter (\<lambda>r. tr_project r = prj_id p \<and> tr_status r \<noteq> ''archived'') (team_rows d)"
  have "distinct (map tr_sync_id ?rs)"
    using assms by (intro distinct_map_filter) (simp add: team_wf_defs)
  then have "distinct (map tr_sync_id (sort_key tr_sync_id ?rs))"
    by (simp add: distinct_map)
  then have "sorted_wrt (<) (map tr_sync_id (sort_key tr_sync_id ?rs))"
    by (simp add: strict_sorted_iff)
  then show ?thesis using Some by (simp add: team_feed_def comp_def re_id_wire)
qed (simp add: team_feed_def)

lemma clamp_pull_limit: "clamp_limit (int MEMORY_SINCE_PULL_LIMIT) = MEMORY_SINCE_PULL_LIMIT"
  by (simp add: clamp_limit_def MEMORY_SINCE_PULL_LIMIT_def)

lemma team_pull_page:
  assumes "team_serves slug d"
  shows "\<exists>n. team_pull E slug c d = Inr
    \<lparr>page_entries = take MEMORY_SINCE_PULL_LIMIT (beyond c (team_feed E slug d)), page_total = n\<rparr>"
proof (cases "get_project d slug")
  case None
  then show ?thesis using assms
    by (simp add: team_pull_def memory_since_def require_project_def team_serves_def team_feed_def
        beyond_def pull_since_answer_def app_status_def)
next
  case (Some p)
  then show ?thesis using assms
    by (simp add: team_pull_def memory_since_def require_project_def team_serves_def team_feed_def
        beyond_def pull_since_answer_def since_page_answer_def notes_since_id_def clamp_pull_limit
        take_map filter_map comp_def re_id_wire filter_sort conj_assoc)
qed

interpretation team_feed: delta_feed "team_pull E slug" "team_feed E slug" "team_serves slug" for E slug
  by unfold_locales (simp_all add: team_feed_sorted team_serves_def team_pull_page)

section \<open>The answers\<close>

lemma team_push_batch_serves:
  "team_serves slug d \<Longrightarrow> team_serves slug (fst (team_push_batch E now embed_texts mint slug items d))"
  using keeps_step [OF push_batch_keeps, of d E now embed_texts "minted_ids mint d items" slug items]
  by (auto simp: team_serves_def team_push_batch_def split: prod.splits)

lemma team_push_batch_answers:
  assumes "team_serves slug d" and "team_push_batch E now embed_texts mint slug items d = (v, Inr res)"
  shows "list_all2 stored_answer items (item_results res)"
proof (cases "items = []")
  case True
  with assms(2) show ?thesis by (auto simp: team_push_batch_def push_batch_answer_def)
next
  case False
  with assms(2) obtain resp where
    push: "push_memory_batch E now embed_texts (minted_ids mint d items) slug items d = (v, Inr resp)"
    and res: "res = wire_batch_result resp"
    by (auto simp: team_push_batch_def push_batch_answer_def answer_of_def map_result_def is_success_def
        split: prod.splits sum.splits if_splits)
  from assms(1) have "team_wf d" by (simp add: team_serves_def)
  from push_batch_answers [OF this _ push] obtain p :: project where
    "list_all2 (answered v (prj_id p)) items (resp_results resp)" by (auto simp: minted_ids_def)
  then show ?thesis
    by (auto simp: res wire_batch_result_def list.rel_map stored_answer_def answered_def elim!: list.rel_mono_strong)
qed

interpretation team_push: push_service "team_push_batch E now embed_texts mint slug" "team_serves slug"
  for E now embed_texts mint slug
  by unfold_locales (simp_all add: team_push_batch_serves team_push_batch_answers)

lemma team_service_keeps: "srv_keeps (team_serves slug) (team_service E now embed_texts mint slug)"
proof -
  have "team_serves slug (fst (team_push_edges E now embed_texts slug es d))" if "team_serves slug d" for es d
    using keeps_step [OF push_batch_keeps, of d E now embed_texts "[]" slug "[]"] that
    by (auto simp: team_serves_def team_push_edges_def split: prod.splits sum.splits)
  moreover have "team_serves slug (fst (team_delete slug i d))" if "team_serves slug d" for i d
    using keeps_step [OF handlers_keep(1), of d slug i] that
    by (auto simp: team_serves_def team_delete_def split: prod.splits)
  moreover have "team_serves slug (fst (team_push_anchor slug i r d))" if "team_serves slug d" for i r d
    using keeps_step [OF handlers_keep(4), of d slug i r] that
    by (auto simp: team_serves_def team_push_anchor_def split: prod.splits sum.splits)
  ultimately show ?thesis
    using team_push_batch_serves by (simp add: srv_keeps_def team_service_def)
qed

section \<open>Properties\<close>

text \<open>
  C32. A pull always returns and misses nothing: against a team server in order, with fuel for as
  many pages as its feed has, it ends without an error, the store stays well-formed and only grows,
  and every live note of the project past the cursor is in the store, under its remote id or as a
  row with the same content. What the server and the store can make it fail on is an id that two
  entries would get.
\<close>

theorem pull_returns_and_misses_nothing:
  assumes "team_serves slug d" and "mints_ids (pull_base P)" and "wf_store s"
    and "can_land P (team_feed E slug d) s"
    and "length (team_feed E slug d) div MEMORY_SINCE_PULL_LIMIT < fuel"
  shows "\<exists>t pulled. pull_and_apply_since fuel P policy (team_service E now embed_texts mint slug) c (s, d) =
      ((t, d), Inr pulled) \<and>
    wf_store t \<and> grows s t \<and> list_all (holds P t) (beyond c (team_feed E slug d))"
proof -
  have "srv_pull (team_service E now embed_texts mint slug) = team_pull E slug" by (simp add: team_service_def)
  from team_feed.pull_run [OF assms(1) this assms(2-5), of policy c] show ?thesis by blast
qed

text \<open>
  C33. A push that is not interrupted empties the outbox: against a team server in order, whatever
  the vectors and the chunks, a push that returns with every chunk sent has no failed entry, counts
  each attempted entry as created or skipped, and leaves no active row without a remote id.
\<close>

theorem push_leaves_nothing_pending:
  assumes "team_serves slug d" and "wf_store s"
    and "push_local policy mdl include_archived accepts_vectors (team_service E now embed_texts mint slug) (s, d) =
      ((t, d'), Inr pushed)"
    and "ps_interrupted pushed = None"
  shows "wf_store t \<and> grows s t \<and> pending_sync_count t = 0 \<and> ps_failed pushed = 0 \<and>
    ps_created pushed + ps_skipped pushed = word_of_nat (ps_attempted pushed)"
proof -
  have "srv_push (team_service E now embed_texts mint slug) = team_push_batch E now embed_texts mint slug"
    by (simp add: team_service_def)
  from team_push.push_drains [OF this assms] show ?thesis .
qed

text \<open>
  C34. A sync round shadows nobody: whatever other clients do to the server between the requests of
  a round and even when the push is interrupted, once the round returns every live note the server
  has past the cursor the round began with is in the local store. Taking the cursor once and using
  it for both pulls is what makes this true: the push stamps newer ids on local rows.
\<close>

theorem sync_round_shadows_nobody:
  assumes "team_serves slug d" and "mints_ids (pull_base P)" and "wf_store s"
    and "\<And>e. team_serves slug e \<Longrightarrow> team_serves slug (meanwhile e)"
    and "sync_round fuel P policy mdl include_archived accepts_vectors meanwhile
      (team_service E now embed_texts mint slug) (s, d) = ((t, d'), Inr (pushed, pulled))"
  shows "wf_store t \<and> grows s t \<and> team_serves slug d' \<and>
    list_all (holds P t) (beyond (max_remote_id s) (team_feed E slug d'))"
proof -
  let ?srv = "team_service E now embed_texts mint slug"
  let ?push = "push_local policy mdl include_archived accepts_vectors ?srv"
  have srv: "srv_pull ?srv = team_pull E slug" by (simp add: team_service_def)
  have push: "wf_store u \<and> grows x u \<and> team_serves slug e'"
    if "?push (x, e) = ((u, e'), r)" "wf_store x" "team_serves slug e" for x e u e' r
  proof -
    have "advances (team_serves slug) (x, e) (fst (?push (x, e)))"
      using push_local_advances [OF team_service_keeps] unfolding keeps_def by (rule spec)
    with that show ?thesis by (simp add: advances_def)
  qed
  note pull = team_feed.pull_held [OF _ srv assms(2)]
  show ?thesis
  proof (cases "max_remote_id s")
    case None
    with assms(5) obtain u e where "?push (s, d) = ((u, e), Inr pushed)"
      and last: "pull_and_apply_since fuel P policy ?srv None (u, meanwhile e) = ((t, d'), Inr pulled)"
      by (auto simp: sync_round_def sync_round_first_def bind_locally bind_eq_Inr others_def)
    note u = push [OF this(1) assms(3,1)]
    from pull [OF assms(4) _ last] u have "d' = meanwhile e" "wf_store t" "grows u t"
      "list_all (holds P t) (beyond None (team_feed E slug d'))" by auto
    then show ?thesis using None u assms(4) by (auto intro: growth.R_trans)
  next
    case (Some c)
    with assms(5) obtain s1 d1 p1 s2 d2 p2 where
      one: "pull_and_apply_since fuel P policy ?srv (Some c) (s, d) = ((s1, d1), Inr p1)"
      and two: "?push (s1, meanwhile d1) = ((s2, d2), Inr pushed)"
      and three: "pull_and_apply_since fuel P policy ?srv (Some c) (s2, meanwhile d2) = ((t, d'), Inr p2)"
      by (auto simp: sync_round_def bind_locally bind_eq_Inr others_def)
    from pull [OF assms(1,3) one] have s1: "d1 = d" "wf_store s1" "grows s s1" by auto
    from push [OF two s1(2)] assms(1,4) s1(1) have s2: "wf_store s2" "grows s1 s2" "team_serves slug d2" by auto
    from pull [OF assms(4) [OF s2(3)] s2(1) three] show ?thesis
      using Some s1 s2 assms(4) by (auto intro: growth.R_trans)
  qed
qed

section \<open>The properties on a concrete server\<close>

definition demo_pull :: pull_env where
  "demo_pull = \<lparr>pull_base = demo_env, parse_rfc3339 = (\<lambda>_. Some 5), pull_now = 9,
     pull_entropy = (\<lambda>i. drop 3 i @ ''0123456789abcdef'')\<rparr>"

definition demo_mint :: "team_db \<Rightarrow> nat \<Rightarrow> string" where
  "demo_mint d n = ''id-'' @ replicate (team_seq d + n) (CHR ''n'')"

definition demo_service :: "team_db team_server" where
  "demo_service = team_service demo_server 9 not_ready demo_mint ''p''"

text \<open>Another client's entry, and a store that has the cursor \<open>id-n\<close>.\<close>

definition demo_late :: "team_db \<Rightarrow> team_db" where
  "demo_late d = fst (demo_push [''id-nb''] [''late''] d)"

definition demo_synced :: memory_store where
  "demo_synced = fst (set_remote_id ''u1'' ''id-n'' two_notes)"

definition demo_round ::
    "(memory_store \<times> team_db) \<times> (sync_failure + push_summary \<times> pull_summary)" where
  "demo_round = sync_round 3 demo_pull Skip_Embedding ''m@1'' False False demo_late demo_service
     (demo_synced, demo_team)"

lemma demo_mints: "mints_ids (pull_base demo_pull)"
  by (simp add: mints_ids_def demo_pull_def demo_env_def)

lemma demo_serves: "team_serves ''p'' demo_team"
  using demo_team_wf by (simp add: team_serves_def validate_project_slug_def require_def MAX_SLUG_LEN_def)

lemma demo_late_serves: "team_serves ''p'' d \<Longrightarrow> team_serves ''p'' (demo_late d)"
  using keeps_step [OF push_batch_keeps, of d] by (auto simp: team_serves_def demo_late_def demo_push_def)

lemma demo_synced_wf: "wf_store demo_synced"
  using set_remote_id_rules(1) [of "''u1''" "''id-n''"] wf_two_notes
  by (simp add: demo_synced_def keeps_def carries_def)

theorem pull_returns_and_misses_nothing_witness:
  "\<exists>t pulled. pull_and_apply_since 1 demo_pull Skip_Embedding demo_service None (two_notes, demo_team) =
     ((t, demo_team), Inr pulled) \<and>
   list_all (holds demo_pull t) (beyond None (team_feed demo_server ''p'' demo_team)) \<and>
   map re_id (beyond None (team_feed demo_server ''p'' demo_team)) = [''id-one'', ''id-two'']"
proof -
  have can: "can_land demo_pull (team_feed demo_server ''p'' demo_team) two_notes" by code_simp
  have fuel: "length (team_feed demo_server ''p'' demo_team) div MEMORY_SINCE_PULL_LIMIT < 1" by code_simp
  have ids: "map re_id (beyond None (team_feed demo_server ''p'' demo_team)) = [''id-one'', ''id-two'']" by code_simp
  from pull_returns_and_misses_nothing [OF demo_serves demo_mints wf_two_notes can fuel, of Skip_Embedding 9
      not_ready demo_mint None, folded demo_service_def] obtain t pulled where
    "pull_and_apply_since 1 demo_pull Skip_Embedding demo_service None (two_notes, demo_team) =
      ((t, demo_team), Inr pulled)"
    "list_all (holds demo_pull t) (beyond None (team_feed demo_server ''p'' demo_team))"
    by (elim exE conjE) (rule that)
  with ids show ?thesis by (intro exI conjI)
qed

lemma demo_push_local_run:
  "(case push_local Skip_Embedding ''m@1'' False False demo_service (two_notes, demo_team) of
      (_, Inr p) \<Rightarrow> ps_interrupted p = None \<and> ps_attempted p = 2 | _ \<Rightarrow> False)"
  by code_simp

theorem push_leaves_nothing_pending_witness:
  "\<exists>t d pushed. push_local Skip_Embedding ''m@1'' False False demo_service (two_notes, demo_team) =
     ((t, d), Inr pushed) \<and> ps_attempted pushed = 2 \<and> pending_sync_count t = 0"
proof -
  from demo_push_local_run obtain t d p where
    run: "push_local Skip_Embedding ''m@1'' False False demo_service (two_notes, demo_team) = ((t, d), Inr p)"
    and p: "ps_interrupted p = None" "ps_attempted p = 2"
    by (auto split: prod.splits sum.splits)
  from push_leaves_nothing_pending [OF demo_serves wf_two_notes run [unfolded demo_service_def] p(1)] run p(2)
  show ?thesis by blast
qed

lemma demo_round_run:
  "(case demo_round of ((t, d), Inr _) \<Rightarrow> max_remote_id t = Some ''id-two'' \<and>
      map re_id (beyond (max_remote_id demo_synced) (team_feed demo_server ''p'' d)) =
        [''id-nb'', ''id-nnn'', ''id-one'', ''id-two''] | _ \<Rightarrow> False)"
  by code_simp

theorem sync_round_shadows_nobody_witness:
  "\<exists>t d out. demo_round = ((t, d), Inr out) \<and>
     list_all (holds demo_pull t) (beyond (max_remote_id demo_synced) (team_feed demo_server ''p'' d)) \<and>
     map re_id (beyond (max_remote_id demo_synced) (team_feed demo_server ''p'' d)) =
       [''id-nb'', ''id-nnn'', ''id-one'', ''id-two'']"
proof -
  from demo_round_run obtain t d pushed pulled where run: "demo_round = ((t, d), Inr (pushed, pulled))"
    and ids: "map re_id (beyond (max_remote_id demo_synced) (team_feed demo_server ''p'' d)) =
       [''id-nb'', ''id-nnn'', ''id-one'', ''id-two'']"
    by (auto split: prod.splits sum.splits)
  from sync_round_shadows_nobody [where meanwhile = demo_late, OF demo_serves demo_mints demo_synced_wf _
      run [unfolded demo_round_def demo_service_def]] demo_late_serves
  have "list_all (holds demo_pull t) (beyond (max_remote_id demo_synced) (team_feed demo_server ''p'' d))" by simp
  with run ids show ?thesis by (intro exI conjI)
qed

text \<open>Edges between entries never reach this server: the route takes no notice of them.\<close>

theorem relates_to_edges_are_dropped:
  "team_push_edges demo_server 9 not_ready ''p'' [(''a'', ''b'')] demo_team = (demo_team, Inr 0)"
  by code_simp

end
