(* ===== verification/Rate_Limiter.thy ===== *)
theory Rate_Limiter
  imports Interfaces "HOL-Library.AList" "HOL-Library.Word"
begin

text \<open>
  The fixed-window rate limiter of the server (\<open>inkentry-server/src/rate_limiter.rs\<close>). Instants
  and durations are naturals (nanoseconds; \<open>duration_since\<close> saturates at zero), counters 32 bits
  wide. The buckets are an association list; the order in which the hash map is iterated, which
  decides between buckets that opened at the same instant, is a parameter. \<open>check_all\<close> runs a
  sequence of calls, each at its instant, and keeps the answers.
\<close>

section \<open>The limiter\<close>

record window_entry =
  we_count :: "32 word"
  window_start :: nat

type_synonym bucket_map = "(string \<times> window_entry) list"

record buckets =
  bk_entries :: bucket_map
  last_sweep :: nat

record rate_limiter =
  max_requests :: "32 word"
  window :: nat
  max_buckets :: nat
  iteration_order :: "bucket_map \<Rightarrow> bucket_map"

definition DEFAULT_MAX_BUCKETS :: nat where
  "DEFAULT_MAX_BUCKETS = 10000"

definition with_window :: "(bucket_map \<Rightarrow> bucket_map) \<Rightarrow> 32 word \<Rightarrow> nat \<Rightarrow> nat \<Rightarrow> rate_limiter \<times> buckets" where
  "with_window iter limit w now =
     (\<lparr>max_requests = limit, window = w, max_buckets = DEFAULT_MAX_BUCKETS, iteration_order = iter\<rparr>,
      \<lparr>bk_entries = [], last_sweep = now\<rparr>)"

definition NANOS_PER_SEC :: nat where
  "NANOS_PER_SEC = 1000000000"

definition rate_limiter_new :: "(bucket_map \<Rightarrow> bucket_map) \<Rightarrow> 32 word \<Rightarrow> nat \<Rightarrow> nat \<Rightarrow> rate_limiter \<times> buckets" where
  "rate_limiter_new iter limit window_secs now = with_window iter limit (window_secs * NANOS_PER_SEC) now"

definition with_max_buckets :: "nat \<Rightarrow> rate_limiter \<Rightarrow> rate_limiter" where
  "with_max_buckets n rl = rl\<lparr>max_buckets := max n 1\<rparr>"

definition tracked_buckets :: "buckets \<Rightarrow> nat" where
  "tracked_buckets b = length (bk_entries b)"

definition sweep_expired :: "rate_limiter \<Rightarrow> nat \<Rightarrow> buckets \<Rightarrow> buckets" where
  "sweep_expired rl now b =
     \<lparr>bk_entries = filter (\<lambda>(k, e). now - window_start e < window rl) (bk_entries b), last_sweep = now\<rparr>"

text \<open>\<open>Iterator::min_by_key\<close>: the first of the smallest.\<close>

fun oldest_of :: "bucket_map \<Rightarrow> (string \<times> window_entry) option" where
  "oldest_of [] = None"
| "oldest_of (p # ps) = (case oldest_of ps of
     None \<Rightarrow> Some p
   | Some q \<Rightarrow> if window_start (snd q) < window_start (snd p) then Some q else Some p)"

text \<open>The eviction loop; every round removes a bucket, so it needs no more rounds than there are.\<close>

fun make_room :: "rate_limiter \<Rightarrow> nat \<Rightarrow> bucket_map \<Rightarrow> bucket_map" where
  "make_room rl 0 es = es"
| "make_room rl (Suc fuel) es = (if length es \<ge> max_buckets rl then
     (case oldest_of (iteration_order rl es) of
        None \<Rightarrow> es
      | Some oldest \<Rightarrow> make_room rl fuel (AList.delete (fst oldest) es)) else es)"

definition refresh :: "rate_limiter \<Rightarrow> nat \<Rightarrow> window_entry \<Rightarrow> window_entry" where
  "refresh rl now e = (if now - window_start e \<ge> window rl
     then \<lparr>we_count = 0, window_start = now\<rparr> else e)"

definition make_place :: "rate_limiter \<Rightarrow> string \<Rightarrow> nat \<Rightarrow> buckets \<Rightarrow> buckets" where
  "make_place rl key now b =
     (let b1 = (if now - last_sweep b \<ge> window rl then sweep_expired rl now b else b) in
      if map_of (bk_entries b1) key = None \<and> length (bk_entries b1) \<ge> max_buckets rl
      then (let b2 = sweep_expired rl now b1 in
        b2\<lparr>bk_entries := make_room rl (length (bk_entries b2)) (bk_entries b2)\<rparr>)
      else b1)"

definition check :: "rate_limiter \<Rightarrow> string \<Rightarrow> nat \<Rightarrow> buckets \<Rightarrow> buckets \<times> bool" where
  "check rl key now b =
     (let b' = make_place rl key now b;
          found = (case map_of (bk_entries b') key of
            Some e \<Rightarrow> e | None \<Rightarrow> \<lparr>we_count = 0, window_start = now\<rparr>);
          e = refresh rl now found in
      if we_count e \<ge> max_requests rl
      then (b'\<lparr>bk_entries := AList.update key e (bk_entries b')\<rparr>, False)
      else (b'\<lparr>bk_entries := AList.update key (e\<lparr>we_count := we_count e + 1\<rparr>) (bk_entries b')\<rparr>, True))"

type_synonym answered = "nat \<times> string \<times> bool"

fun check_all :: "rate_limiter \<Rightarrow> (nat \<times> string) list \<Rightarrow> buckets \<Rightarrow> answered list \<Rightarrow> buckets \<times> answered list" where
  "check_all rl [] b log = (b, log)"
| "check_all rl ((now, key) # calls) b log = (case check rl key now b of
     (b', allowed) \<Rightarrow> check_all rl calls b' (log @ [(now, key, allowed)]))"

text \<open>The requests of one caller that were let through from instant \<open>a\<close> on, before instant \<open>z\<close>.\<close>

definition granted :: "answered list \<Rightarrow> string \<Rightarrow> nat \<Rightarrow> nat \<Rightarrow> nat" where
  "granted log key a z = length (filter (\<lambda>(t, k, g). g \<and> k = key \<and> a \<le> t \<and> t < z) log)"

definition granted_since :: "answered list \<Rightarrow> string \<Rightarrow> nat \<Rightarrow> nat" where
  "granted_since log key a = length (filter (\<lambda>(t, k, g). g \<and> k = key \<and> a \<le> t) log)"

section \<open>The buckets\<close>

definition order_of_map :: "rate_limiter \<Rightarrow> bool" where
  "order_of_map rl = (\<forall>es. set (iteration_order rl es) = set es)"

definition wf_buckets :: "rate_limiter \<Rightarrow> buckets \<Rightarrow> bool" where
  "wf_buckets rl b = (distinct (map fst (bk_entries b)) \<and> length (bk_entries b) \<le> max_buckets rl)"

lemma oldest_of_None [simp]: "oldest_of ps = None \<longleftrightarrow> ps = []"
  by (cases ps) (auto split: option.split)

lemma oldest_of_member: "oldest_of ps = Some p \<Longrightarrow> p \<in> set ps"
  by (induction ps) (auto split: option.splits if_splits)

lemma delete_shortens: "p \<in> set es \<Longrightarrow> length (AList.delete (fst p) es) < length es"
  unfolding AList.delete_eq by (rule length_filter_less) auto

lemma distinct_delete: "distinct (map fst es) \<Longrightarrow> distinct (map fst (AList.delete k es))"
  by (rule AList.distinct_delete)

lemma distinct_fst_filter: "distinct (map fst es) \<Longrightarrow> distinct (map fst (filter P es))"
  by (rule distinct_map_filter)

lemma make_room_subset: "set (make_room rl n es) \<subseteq> set es"
proof (induction n arbitrary: es)
  case (Suc n)
  have "set (make_room rl n (AList.delete k es)) \<subseteq> set es" for k
    using Suc.IH [of "AList.delete k es"] by (auto simp: AList.delete_eq)
  then show ?case by (simp split: option.split)
qed simp

lemma make_room_distinct: "distinct (map fst es) \<Longrightarrow> distinct (map fst (make_room rl n es))"
  by (induction n arbitrary: es) (auto simp: AList.distinct_delete split: option.splits)

lemma make_room_small: "length es < max_buckets rl \<Longrightarrow> make_room rl n es = es"
  by (cases n) auto

lemma make_room_makes_room:
  assumes "order_of_map rl" "max_buckets rl > 0" "length es \<le> n"
  shows "length (make_room rl n es) < max_buckets rl"
  using assms(3)
proof (induction n arbitrary: es)
  case 0
  then show ?case using assms(2) by simp
next
  case (Suc n)
  show ?case
  proof (cases "max_buckets rl \<le> length es")
    case True
    with assms(2) have "es \<noteq> []" by auto
    then have "set (iteration_order rl es) \<noteq> {}" using assms(1) by (simp add: order_of_map_def)
    then obtain p where p: "oldest_of (iteration_order rl es) = Some p"
      by (metis oldest_of_None not_None_eq set_empty)
    then have "p \<in> set es" using assms(1) oldest_of_member by (metis order_of_map_def)
    then have "length (AList.delete (fst p) es) \<le> n" using delete_shortens Suc.prems by fastforce
    then show ?thesis using p True Suc.IH by simp
  qed simp
qed

text \<open>Room for a caller who has no bucket; buckets only ever leave, and none changes.\<close>

lemma make_place_subset: "set (bk_entries (make_place rl key now b)) \<subseteq> set (bk_entries b)"
proof -
  have m: "p \<in> set es" if "p \<in> set (make_room rl n es)" for p n es
    using that make_room_subset by blast
  show ?thesis
    by (auto simp: make_place_def Let_def sweep_expired_def split: if_splits dest!: m)
qed

lemma make_place_distinct:
  "distinct (map fst (bk_entries b)) \<Longrightarrow> distinct (map fst (bk_entries (make_place rl key now b)))"
  by (simp add: make_place_def Let_def sweep_expired_def make_room_distinct distinct_fst_filter)

lemma make_place_length:
  assumes "order_of_map rl" "max_buckets rl > 0" "length (bk_entries b) \<le> max_buckets rl"
  shows "length (bk_entries (make_place rl key now b)) \<le> max_buckets rl \<and>
    (map_of (bk_entries (make_place rl key now b)) key = None \<longrightarrow>
       length (bk_entries (make_place rl key now b)) < max_buckets rl)"
proof -
  define b1 where "b1 = (if window rl \<le> now - last_sweep b then sweep_expired rl now b else b)"
  have l1: "length (bk_entries b1) \<le> max_buckets rl"
    using assms(3) by (simp add: b1_def sweep_expired_def order_trans [OF length_filter_le])
  show ?thesis
  proof (cases "map_of (bk_entries b1) key = None \<and> max_buckets rl \<le> length (bk_entries b1)")
    case True
    define b2 where "b2 = sweep_expired rl now b1"
    have "make_place rl key now b = b2\<lparr>bk_entries := make_room rl (length (bk_entries b2)) (bk_entries b2)\<rparr>"
      using True by (simp add: make_place_def Let_def b1_def b2_def)
    then show ?thesis using make_room_makes_room [OF assms(1,2) order_refl, of "bk_entries b2"] by simp
  next
    case False
    then have "make_place rl key now b = b1" by (auto simp: make_place_def Let_def b1_def)
    then show ?thesis using False l1 by auto
  qed
qed

lemma bucket_update_length:
  "length (AList.update k v es) = (if map_of es k = None then Suc (length es) else length es)"
  by (induction es) auto

definition bucket_for :: "rate_limiter \<Rightarrow> string \<Rightarrow> nat \<Rightarrow> buckets \<Rightarrow> window_entry" where
  "bucket_for rl key now b = refresh rl now (case map_of (bk_entries (make_place rl key now b)) key of
     Some e \<Rightarrow> e | None \<Rightarrow> \<lparr>we_count = 0, window_start = now\<rparr>)"

lemma check_bucket_for:
  "check rl key now b = (let e = bucket_for rl key now b; b' = make_place rl key now b in
     if we_count e \<ge> max_requests rl then (b'\<lparr>bk_entries := AList.update key e (bk_entries b')\<rparr>, False)
     else (b'\<lparr>bk_entries := AList.update key (e\<lparr>we_count := we_count e + 1\<rparr>) (bk_entries b')\<rparr>, True))"
  by (simp add: check_def bucket_for_def Let_def)

lemma check_wf:
  assumes "order_of_map rl" "max_buckets rl > 0" "wf_buckets rl b"
  shows "wf_buckets rl (fst (check rl key now b))"
proof -
  have d: "distinct (map fst (bk_entries (make_place rl key now b)))"
    using assms(3) make_place_distinct by (simp add: wf_buckets_def)
  have l: "length (bk_entries b) \<le> max_buckets rl" using assms(3) by (simp add: wf_buckets_def)
  note L = make_place_length [OF assms(1,2) l, of key now]
  define b' where "b' = make_place rl key now b"
  have u: "wf_buckets rl (b'\<lparr>bk_entries := AList.update key v (bk_entries b')\<rparr>)" for v
    using L d by (auto simp: b'_def wf_buckets_def bucket_update_length distinct_update)
  show ?thesis by (simp add: check_bucket_for Let_def u b'_def [symmetric])
qed

section \<open>A refusal is earned\<close>

text \<open>
  What a log is worth at instant \<open>T\<close>: every bucket counts no more than was let through since it
  opened, and whoever was refused had been let through \<open>max_requests\<close> times within the window
  that ended there.
\<close>

definition earned :: "rate_limiter \<Rightarrow> nat \<Rightarrow> buckets \<Rightarrow> answered list \<Rightarrow> bool" where
  "earned rl T b log = (wf_buckets rl b \<and> (\<forall>p \<in> set log. fst p \<le> T) \<and>
     (\<forall>p \<in> set (bk_entries b). window_start (snd p) \<le> T \<and>
        unat (we_count (snd p)) \<le> granted_since log (fst p) (window_start (snd p))) \<and>
     list_all (\<lambda>(t, k, g). g \<or> unat (max_requests rl) \<le> granted log k (Suc t - window rl) (Suc t)) log)"

lemma granted_since_snoc [simp]:
  "granted_since (log @ [(t, k, g)]) key a =
     granted_since log key a + (if g \<and> k = key \<and> a \<le> t then 1 else 0)"
  by (simp add: granted_since_def)

lemma granted_snoc [simp]:
  "granted (log @ [(t, k, g)]) key a z =
     granted log key a z + (if g \<and> k = key \<and> a \<le> t \<and> t < z then 1 else 0)"
  by (simp add: granted_def)

lemma granted_mono: "a \<le> a' \<Longrightarrow> z' \<le> z \<Longrightarrow> granted log key a' z' \<le> granted log key a z"
  unfolding granted_def by (induction log) auto

lemma granted_since_granted:
  assumes "\<forall>p \<in> set log. fst p \<le> T" "a' \<le> a"
  shows "granted_since log key a \<le> granted log key a' (Suc T)"
  using assms unfolding granted_def granted_since_def by (induction log) auto

lemma unat_Suc_le: "unat (x + 1 :: 32 word) \<le> Suc (unat x)"
  using mod_less_eq_dividend [of "Suc (unat x)" "2 ^ 32"] by (simp add: unat_word_ariths)

lemma bucket_for_cases:
  assumes "refresh rl now e0 = e"
  shows "(e = e0 \<and> now - window_start e0 < window rl) \<or> e = \<lparr>we_count = 0, window_start = now\<rparr>"
  using assms by (auto simp: refresh_def split: if_splits)

lemma bucket_for_known:
  "bucket_for rl key now b = \<lparr>we_count = 0, window_start = now\<rparr> \<or>
   (key, bucket_for rl key now b) \<in> set (bk_entries (make_place rl key now b)) \<and>
     now - window_start (bucket_for rl key now b) < window rl"
  by (auto simp: bucket_for_def refresh_def split: option.split dest: map_of_SomeD)

lemma earned_bucket:
  assumes "earned rl T b log" "T \<le> now"
  shows "window_start (bucket_for rl key now b) \<le> now \<and>
    unat (we_count (bucket_for rl key now b)) \<le> granted_since log key (window_start (bucket_for rl key now b))"
proof (cases "bucket_for rl key now b = \<lparr>we_count = 0, window_start = now\<rparr>")
  case False
  then have "(key, bucket_for rl key now b) \<in> set (bk_entries b)"
    using bucket_for_known make_place_subset by blast
  then show ?thesis using assms by (force simp: earned_def)
qed simp

lemma check_log:
  "check rl key now b = (b', g) \<Longrightarrow> g \<longleftrightarrow> we_count (bucket_for rl key now b) < max_requests rl"
  by (auto simp: check_bucket_for Let_def not_le split: if_splits)

lemma check_entries:
  assumes "check rl key now b = (b', g)" "p \<in> set (bk_entries b')"
    "distinct (map fst (bk_entries b))"
  shows "(p \<in> set (bk_entries b) \<and> fst p \<noteq> key) \<or> (fst p = key \<and> snd p = (bucket_for rl key now b)
    \<lparr>we_count := we_count (bucket_for rl key now b) + (if g then 1 else 0)\<rparr>)"
proof -
  define b0 where "b0 = make_place rl key now b"
  define e where "e = (bucket_for rl key now b)
    \<lparr>we_count := we_count (bucket_for rl key now b) + (if g then 1 else 0)\<rparr>"
  have d: "distinct (map fst (bk_entries b0))" using make_place_distinct [OF assms(3)] by (simp add: b0_def)
  have "bk_entries b' = AList.update key e (bk_entries b0)"
    using assms(1) by (auto simp: check_bucket_for Let_def b0_def e_def split: if_splits)
  then have "map_of (AList.update key e (bk_entries b0)) (fst p) = Some (snd p)"
    using assms(2) d by (simp add: distinct_update)
  then have "(fst p = key \<and> snd p = e) \<or> (fst p \<noteq> key \<and> map_of (bk_entries b0) (fst p) = Some (snd p))"
    by (auto simp: update_conv' split: if_splits)
  then show ?thesis using make_place_subset [of rl key now b] unfolding e_def b0_def
    by (metis map_of_SomeD prod.collapse subsetD)
qed

lemma earned_check:
  assumes ord: "order_of_map rl" "max_buckets rl > 0" and E: "earned rl T b log" and le: "T \<le> now"
    and c: "check rl key now b = (b', g)"
  shows "earned rl now b' (log @ [(now, key, g)])"
proof -
  let ?e = "bucket_for rl key now b"
  note B = earned_bucket [OF E le, of key]
  have times: "\<forall>p \<in> set log. fst p \<le> now" using E le by (auto simp: earned_def)
  have d: "distinct (map fst (bk_entries b))" using E by (simp add: earned_def wf_buckets_def)
  have wf: "wf_buckets rl b'" using check_wf [OF ord] E c by (metis earned_def fst_conv)
  have entries: "window_start (snd p) \<le> now \<and>
      unat (we_count (snd p)) \<le> granted_since (log @ [(now, key, g)]) (fst p) (window_start (snd p))"
    if "p \<in> set (bk_entries b')" for p
    using check_entries [OF c that d]
  proof
    assume "p \<in> set (bk_entries b) \<and> fst p \<noteq> key"
    then show ?thesis using E le by (auto simp: earned_def)
  next
    assume "fst p = key \<and> snd p = ?e\<lparr>we_count := we_count ?e + (if g then 1 else 0)\<rparr>"
    then show ?thesis using B unat_Suc_le [of "we_count ?e"] by auto
  qed
  have refused: "unat (max_requests rl) \<le> granted log key (Suc now - window rl) (Suc now)" if "\<not> g"
  proof -
    have m: "unat (max_requests rl) \<le> unat (we_count ?e)"
      using check_log [OF c] that by (simp add: word_le_nat_alt not_less)
    show ?thesis
    proof (cases "now - window_start ?e < window rl")
      case True
      then have "Suc now - window rl \<le> window_start ?e" by linarith
      from granted_since_granted [OF times this, of key] show ?thesis using m B by linarith
    next
      case False
      then have "?e = \<lparr>we_count = 0, window_start = now\<rparr>" using bucket_for_known by blast
      then show ?thesis using m by simp
    qed
  qed
  have old: "list_all (\<lambda>(t, k, g). g \<or>
      unat (max_requests rl) \<le> granted (log @ [(now, key, h)]) k (Suc t - window rl) (Suc t)) log" for h
    using E by (auto simp: earned_def list_all_iff intro: le_trans)
  have t: "\<forall>p \<in> set (log @ [(now, key, g)]). fst p \<le> now" using times by simp
  have r: "list_all (\<lambda>(t, k, g'). g' \<or> unat (max_requests rl) \<le>
      granted (log @ [(now, key, g)]) k (Suc t - window rl) (Suc t)) (log @ [(now, key, g)])"
    unfolding list_all_append using old [of g] refused by auto
  show ?thesis unfolding earned_def by (intro conjI ballI wf t [rule_format] r entries)
qed

lemma earned_all:
  assumes "order_of_map rl" "max_buckets rl > 0"
  shows "earned rl T b log \<Longrightarrow> sorted (T # map fst calls) \<Longrightarrow> check_all rl calls b log = (b', log') \<Longrightarrow>
    \<exists>T'. earned rl T' b' log'"
proof (induction calls arbitrary: T b log)
  case (Cons c calls)
  obtain now key where n: "c = (now, key)" by (cases c)
  obtain b1 g where k: "check rl key now b = (b1, g)" by (cases "check rl key now b")
  from Cons.prems have "T \<le> now" "sorted (now # map fst calls)" by (auto simp: n)
  with Cons.IH [OF earned_check [OF assms Cons.prems(1) _ k]] Cons.prems(3)
  show ?case by (simp add: n k)
qed auto

section \<open>A window bounds what is let through\<close>

text \<open>
  As long as no live bucket is evicted, a caller is let through at most \<open>max_requests\<close> times per
  bucket, and an interval of the length of a window meets at most two buckets. A key without a
  bucket had its last one expire.
\<close>

fun key_paced :: "rate_limiter \<Rightarrow> nat \<Rightarrow> answered list \<Rightarrow> string \<Rightarrow> window_entry option \<Rightarrow> bool" where
  "key_paced rl T log k None = (granted_since log k T = 0 \<and>
     granted_since log k (T - window rl) \<le> unat (max_requests rl))"
| "key_paced rl T log k (Some e) = (window_start e \<le> T \<and>
     granted_since log k (window_start e) = unat (we_count e) \<and>
     unat (we_count e) \<le> unat (max_requests rl) \<and>
     granted log k (window_start e - window rl) (window_start e) \<le> unat (max_requests rl) \<and>
     granted_since log k (window_start e + window rl) = 0)"

definition paced :: "rate_limiter \<Rightarrow> nat \<Rightarrow> buckets \<Rightarrow> answered list \<Rightarrow> bool" where
  "paced rl T b log = (distinct (map fst (bk_entries b)) \<and>
     (\<forall>k. key_paced rl T log k (map_of (bk_entries b) k)) \<and>
     (\<forall>k a. granted log k a (a + window rl) \<le> 2 * unat (max_requests rl)))"

lemma granted_since_mono: "a \<le> a' \<Longrightarrow> granted_since log k a' \<le> granted_since log k a"
  unfolding granted_since_def by (induction log) auto

lemma granted_le_since: "a' \<le> a \<Longrightarrow> granted log k a z \<le> granted_since log k a'"
  unfolding granted_def granted_since_def by (induction log) auto

lemma granted_split: "a' \<le> a \<Longrightarrow> granted log k a z \<le> granted log k a' m + granted_since log k m"
  unfolding granted_def granted_since_def by (induction log) auto

text \<open>Without an eviction a bucket goes only when it has expired.\<close>

lemma map_of_sweep:
  assumes "distinct (map fst es)"
  shows "map_of (filter (\<lambda>(k, e). P e) es) k = (case map_of es k of
    Some e \<Rightarrow> if P e then Some e else None | None \<Rightarrow> None)"
  using assms by (induction es) (auto split: option.split simp: map_of_eq_None_iff dest: map_of_SomeD)

lemma make_place_no_eviction:
  assumes d: "distinct (map fst (bk_entries b))" and u: "fst ` set (bk_entries b) \<subseteq> U" "key \<in> U"
    and c: "finite U" "card U \<le> max_buckets rl"
  shows "make_place rl key now b = (if now - last_sweep b \<ge> window rl then sweep_expired rl now b else b)"
proof -
  define b1 where "b1 = (if now - last_sweep b \<ge> window rl then sweep_expired rl now b else b)"
  have d1: "distinct (map fst (bk_entries b1))" and s1: "fst ` set (bk_entries b1) \<subseteq> U"
    using d u(1) by (auto simp: b1_def sweep_expired_def distinct_fst_filter)
  have "length (bk_entries b1) < max_buckets rl" if "map_of (bk_entries b1) key = None"
  proof -
    have "fst ` set (bk_entries b1) \<subset> U" using s1 u(2) that by (metis map_of_eq_None_iff psubsetI)
    then have "card (fst ` set (bk_entries b1)) < card U" using c(1) psubset_card_mono by blast
    then show ?thesis using c(2) distinct_card [OF d1] by simp
  qed
  then show ?thesis by (auto simp: make_place_def Let_def b1_def [symmetric])
qed

lemma key_paced_place:
  assumes d: "distinct (map fst (bk_entries b))" and u: "fst ` set (bk_entries b) \<subseteq> U" "key \<in> U"
    and c: "finite U" "card U \<le> max_buckets rl"
    and k: "key_paced rl T log k (map_of (bk_entries b) k)" and le: "T \<le> now"
  shows "key_paced rl now log k (map_of (bk_entries (make_place rl key now b)) k)"
proof -
  have m: "map_of (bk_entries (make_place rl key now b)) k = map_of (bk_entries b) k \<or>
      (map_of (bk_entries (make_place rl key now b)) k = None \<and>
       (\<exists>e. map_of (bk_entries b) k = Some e \<and> window rl \<le> now - window_start e))"
    by (auto simp: make_place_no_eviction [OF d u c] sweep_expired_def map_of_sweep [OF d]
      split: option.split)
  show ?thesis
  proof (cases "map_of (bk_entries b) k")
    case None
    have "granted_since log k now \<le> granted_since log k T"
      "granted_since log k (now - window rl) \<le> granted_since log k (T - window rl)"
      using le by (auto intro!: granted_since_mono)
    then show ?thesis using k m None by auto
  next
    case (Some e)
    show ?thesis
    proof (cases "map_of (bk_entries (make_place rl key now b)) k")
      case None
      with m Some have w: "window rl \<le> now - window_start e" by auto
      have "window_start e \<le> now" using k Some le by auto
      with w have "window_start e + window rl \<le> now" "window_start e \<le> now - window rl" by auto
      then have "granted_since log k now \<le> granted_since log k (window_start e + window rl)"
        "granted_since log k (now - window rl) \<le> granted_since log k (window_start e)"
        by (auto intro!: granted_since_mono)
      then show ?thesis using k Some None by auto
    qed (use k m Some le in auto)
  qed
qed

text \<open>What the bucket of the caller is worth: it is live, or it opens now.\<close>

lemma key_paced_bucket:
  assumes "key_paced rl now log key (map_of (bk_entries (make_place rl key now b)) key)"
  shows "key_paced rl now log key (Some (bucket_for rl key now b)) \<and>
    now < window_start (bucket_for rl key now b) + window rl \<or>
    (bucket_for rl key now b = \<lparr>we_count = 0, window_start = now\<rparr> \<and> granted_since log key now = 0 \<and>
     granted log key (now - window rl) now \<le> unat (max_requests rl))"
proof (cases "map_of (bk_entries (make_place rl key now b)) key")
  case None
  then show ?thesis using assms granted_le_since [of "now - window rl" "now - window rl" log key now]
    by (auto simp: bucket_for_def refresh_def)
next
  case (Some e)
  show ?thesis
  proof (cases "now - window_start e < window rl")
    case False
    then have "window_start e + window rl \<le> now" "window_start e \<le> now - window rl"
      using assms Some by auto
    then have "granted_since log key now \<le> granted_since log key (window_start e + window rl)"
      "granted log key (now - window rl) now \<le> granted_since log key (window_start e)"
      by (auto intro!: granted_since_mono granted_le_since)
    then show ?thesis using assms Some False by (auto simp: bucket_for_def refresh_def)
  qed (use assms Some in \<open>auto simp: bucket_for_def refresh_def\<close>)
qed

lemma unat_Suc_below: "c < m \<Longrightarrow> unat (c + 1 :: 32 word) = Suc (unat c)"
proof -
  assume "c < m"
  moreover have "unat m < 2 ^ LENGTH(32)" by (rule unsigned_less)
  ultimately show ?thesis by (simp add: unat_word_ariths word_less_nat_alt)
qed

lemma key_paced_other: "k \<noteq> key \<Longrightarrow> key_paced rl T (log @ [(t, key, g)]) k v = key_paced rl T log k v"
  by (cases v) auto

lemma check_map:
  assumes "check rl key now b = (b', g)"
  shows "bk_entries b' = AList.update key ((bucket_for rl key now b)\<lparr>we_count :=
    we_count (bucket_for rl key now b) + (if g then 1 else 0)\<rparr>) (bk_entries (make_place rl key now b))"
  using assms by (auto simp: check_bucket_for Let_def split: if_splits)

lemma paced_check:
  assumes P: "paced rl T b log" and le: "T \<le> now" and c: "check rl key now b = (b', g)"
    and u: "fst ` set (bk_entries b) \<subseteq> U" "key \<in> U" "finite U" "card U \<le> max_buckets rl"
    and w: "window rl > 0"
  shows "paced rl now b' (log @ [(now, key, g)])"
proof -
  let ?b = "make_place rl key now b" and ?e = "bucket_for rl key now b"
  let ?M = "unat (max_requests rl)" and ?log = "log @ [(now, key, g)]"
  have d: "distinct (map fst (bk_entries b))" using P by (simp add: paced_def)
  have K: "key_paced rl now log k (map_of (bk_entries ?b) k)" for k
    using key_paced_place [OF d u _ le] P by (simp add: paced_def)
  have lt: "g \<Longrightarrow> unat (we_count ?e + 1) = Suc (unat (we_count ?e)) \<and> Suc (unat (we_count ?e)) \<le> ?M"
    using check_log [OF c] unat_Suc_below by (auto simp: word_less_nat_alt)
  from key_paced_bucket [OF K] have caller: "key_paced rl now ?log key (Some (?e\<lparr>we_count :=
      we_count ?e + (if g then 1 else 0)\<rparr>)) \<and> (g \<longrightarrow> (\<forall>a. now < a + window rl \<longrightarrow>
      Suc (granted log key a (a + window rl)) \<le> 2 * ?M))"
  proof
    assume L: "key_paced rl now log key (Some ?e) \<and> now < window_start ?e + window rl"
    have "Suc (granted log key a (a + window rl)) \<le> 2 * ?M" if "g" "now < a + window rl" for a
    proof -
      have "window_start ?e - window rl \<le> a" using L that(2) by auto
      from granted_split [OF this, of log key "a + window rl" "window_start ?e"]
      show ?thesis using L lt [OF that(1)] by auto
    qed
    then show ?thesis using L lt by auto
  next
    assume F: "?e = \<lparr>we_count = 0, window_start = now\<rparr> \<and> granted_since log key now = 0 \<and>
      granted log key (now - window rl) now \<le> ?M"
    have "Suc (granted log key a (a + window rl)) \<le> 2 * ?M" if "g" "now < a + window rl" for a
    proof -
      have "now - window rl \<le> a" using that(2) by auto
      from granted_split [OF this, of log key "a + window rl" now]
      show ?thesis using F lt [OF that(1)] by auto
    qed
    moreover have "granted_since log key (now + window rl) = 0"
      using F granted_since_mono [of now "now + window rl" log key] by simp
    ultimately show ?thesis using F lt w by auto
  qed
  have "granted ?log k a (a + window rl) \<le> 2 * ?M" for k a
  proof -
    have "granted log k a (a + window rl) \<le> 2 * ?M" using P by (simp add: paced_def)
    then show ?thesis using caller by auto
  qed
  moreover have "key_paced rl now ?log k (map_of (bk_entries b') k)" for k
  proof (cases "k = key")
    case True
    then show ?thesis using caller by (simp only: check_map [OF c] update_conv' fun_upd_same)
  next
    case False
    then show ?thesis using K [of k] by (simp add: check_map [OF c] update_conv' key_paced_other)
  qed
  moreover have "distinct (map fst (bk_entries b'))"
    by (simp add: check_map [OF c] distinct_update make_place_distinct d)
  ultimately show ?thesis by (simp add: paced_def)
qed

lemma check_keys:
  assumes "check rl key now b = (b', g)" "fst ` set (bk_entries b) \<subseteq> U" "key \<in> U"
  shows "fst ` set (bk_entries b') \<subseteq> U"
proof -
  have "fst ` set (bk_entries b') = insert key (fst ` set (bk_entries (make_place rl key now b)))"
    by (simp add: check_map [OF assms(1)] AList.dom_update)
  moreover have "fst ` set (bk_entries (make_place rl key now b)) \<subseteq> fst ` set (bk_entries b)"
    by (rule image_mono [OF make_place_subset])
  ultimately show ?thesis using assms(2,3) by auto
qed

lemma paced_all:
  assumes "finite U" "card U \<le> max_buckets rl" "window rl > 0"
  shows "paced rl T b log \<Longrightarrow> sorted (T # map fst calls) \<Longrightarrow> snd ` set calls \<subseteq> U \<Longrightarrow>
    fst ` set (bk_entries b) \<subseteq> U \<Longrightarrow> check_all rl calls b log = (b', log') \<Longrightarrow> \<exists>T'. paced rl T' b' log'"
proof (induction calls arbitrary: T b log)
  case (Cons c calls)
  obtain now key where n: "c = (now, key)" by (cases c)
  obtain b1 g where k: "check rl key now b = (b1, g)" by (cases "check rl key now b")
  from Cons.prems have s: "T \<le> now" "sorted (now # map fst calls)" "key \<in> U" "snd ` set calls \<subseteq> U"
    by (auto simp: n)
  show ?case
    using Cons.IH [OF paced_check [OF Cons.prems(1) s(1) k Cons.prems(4) s(3) assms] s(2,4)
      check_keys [OF k Cons.prems(4) s(3)]] Cons.prems(5)
    by (simp add: n k)
qed auto

section \<open>The limiter of the server\<close>

lemma granted_Nil [simp]: "granted [] k a z = 0" "granted_since [] k a = 0"
  by (simp_all add: granted_def granted_since_def)

text \<open>
  C40. A refusal is earned, and memory is bounded. Whatever calls arrive at a fresh limiter, in the
  order of their instants, it never tracks more than \<open>max_buckets\<close> callers, and a caller it
  refuses at some instant has been let through at least \<open>max_requests\<close> times within the window
  that ends there; evicting a live bucket can only make it more lenient.
\<close>

theorem rate_limiter_refusals_earned:
  assumes "order_of_map rl" "max_buckets rl > 0" "sorted (map fst calls)"
    and "check_all rl calls \<lparr>bk_entries = [], last_sweep = t0\<rparr> [] = (b, log)"
  shows "tracked_buckets b \<le> max_buckets rl \<and>
    list_all (\<lambda>(t, k, g). g \<or> unat (max_requests rl) \<le> granted log k (Suc t - window rl) (Suc t)) log"
proof -
  have "earned rl 0 \<lparr>bk_entries = [], last_sweep = t0\<rparr> []" by (simp add: earned_def wf_buckets_def)
  moreover have "sorted (0 # map fst calls)" using assms(3) by simp
  ultimately obtain T where "earned rl T b log" using earned_all [OF assms(1,2) _ _ assms(4)] by blast
  then show ?thesis by (simp add: earned_def wf_buckets_def tracked_buckets_def)
qed

definition demo_limiter :: rate_limiter where
  "demo_limiter = with_max_buckets 2 \<lparr>max_requests = 2, window = 10, max_buckets = 0, iteration_order = id\<rparr>"

definition demo_calls :: "(nat \<times> string) list" where
  "demo_calls = [(0, ''a''), (1, ''a''), (2, ''a''), (3, ''b''), (11, ''a'')]"

definition demo_answers :: "answered list" where
  "demo_answers = [(0, ''a'', True), (1, ''a'', True), (2, ''a'', False), (3, ''b'', True), (11, ''a'', True)]"

lemma demo_run: "check_all demo_limiter demo_calls \<lparr>bk_entries = [], last_sweep = 0\<rparr> [] =
  (\<lparr>bk_entries = [(''b'', \<lparr>we_count = 1, window_start = 3\<rparr>), (''a'', \<lparr>we_count = 1, window_start = 11\<rparr>)],
    last_sweep = 11\<rparr>, demo_answers)"
  by code_simp

lemma demo_order: "order_of_map demo_limiter" "max_buckets demo_limiter = 2" "window demo_limiter = 10"
  "max_requests demo_limiter = 2" "sorted (map fst demo_calls)" "snd ` set demo_calls = {''a'', ''b''}"
  by (auto simp: order_of_map_def demo_limiter_def with_max_buckets_def demo_calls_def)

theorem rate_limiter_refusals_earned_witness:
  "list_all (\<lambda>(t, k, g). g \<or> 2 \<le> granted demo_answers k (Suc t - 10) (Suc t)) demo_answers"
  using rate_limiter_refusals_earned [OF demo_order(1) _ demo_order(5) demo_run]
  by (simp add: demo_order)

text \<open>
  What a window lets through. As long as there are no more callers than buckets, no caller
  is let through more than twice \<open>max_requests\<close> times in any interval as long as the window (a
  fixed window allows the second batch right after the first window closes).
\<close>

theorem rate_limiter_bounds_grants:
  assumes "window rl > 0" "card (snd ` set calls) \<le> max_buckets rl" "sorted (map fst calls)"
    and "check_all rl calls \<lparr>bk_entries = [], last_sweep = t0\<rparr> [] = (b, log)"
  shows "granted log key a (a + window rl) \<le> 2 * unat (max_requests rl)"
proof -
  have "key_paced rl 0 [] k None" for k by simp
  then have "paced rl 0 \<lparr>bk_entries = [], last_sweep = t0\<rparr> []" by (simp add: paced_def)
  moreover have "sorted (0 # map fst calls)" using assms(3) by simp
  ultimately obtain T where "paced rl T b log"
    using paced_all [OF _ assms(2,1) _ _ order_refl _ assms(4)] by fastforce
  then show ?thesis by (simp add: paced_def)
qed

theorem rate_limiter_bounds_grants_witness: "granted demo_answers ''a'' 1 11 \<le> 4"
  using rate_limiter_bounds_grants [OF _ _ demo_order(5) demo_run, of "''a''" 1]
  by (simp add: demo_order)

end
