(* ===== verification/Migration_Ladder.thy ===== *)
theory Migration_Ladder
  imports Interfaces Effect
begin

text \<open>
  The forward-only migration ladder (\<open>core/src/storage/migration_ladder.rs\<close>) that takes a store
  file from the schema version stamped in it to the one the build needs. The file is any record
  that carries \<open>user_version\<close>; a step is an operation on it that may fail. \<open>BEGIN IMMEDIATE\<close>
  serialises the openers of one file, so a rung (lock, read the version again, run the body,
  stamp, commit or roll back) is one atomic step of the system of openers below.
\<close>

record versioned =
  user_version :: int

type_synonym ('a, 'e) migration_step = "int \<times> ('a versioned_scheme, 'e, unit) st"

datatype 'e ladder_error =
    Step_Failed int int 'e    \<comment> \<open>the step, the version the store was left at, the cause\<close>
  | Ladder_Gap int int        \<comment> \<open>the version reached, the version needed\<close>

definition stamp_version :: "int \<Rightarrow> ('a versioned_scheme, 'e, unit) st" where
  "stamp_version v = modify (\<lambda>f. f\<lparr>user_version := v\<rparr>)"

text \<open>A rung: the version is read again under the write lock.\<close>

definition rung :: "('a, 'e) migration_step \<Rightarrow> ('a versioned_scheme, 'e, unit) st" where
  "rung p = (case p of (version, step) \<Rightarrow> transaction
     (bind (query user_version) (\<lambda>cur.
      if cur \<ge> version then ok ()
      else bind step (\<lambda>_. stamp_version version))))"

definition with_context :: "('e \<Rightarrow> 'e2) \<Rightarrow> ('s, 'e, 'a) st \<Rightarrow> ('s, 'e2, 'a) st" where
  "with_context g m = (\<lambda>s. case m s of (t, Inl e) \<Rightarrow> (t, Inl (g e)) | (t, Inr x) \<Rightarrow> (t, Inr x))"

fun ladder_loop ::
    "int \<Rightarrow> int \<Rightarrow> ('a, 'e) migration_step list \<Rightarrow> int \<Rightarrow> ('a versioned_scheme, 'e ladder_error, int) st" where
  "ladder_loop found target [] at = ok at"
| "ladder_loop found target (p # steps) at =
     (if fst p \<le> found then ladder_loop found target steps at
      else if fst p > target then ok at
      else bind (with_context (Step_Failed (fst p) at) (rung p)) (\<lambda>_.
        ladder_loop found target steps (fst p)))"

definition ensure_target :: "int \<Rightarrow> int \<Rightarrow> ('a versioned_scheme, 'e ladder_error, unit) st" where
  "ensure_target target at = (if at = target then ok () else fail (Ladder_Gap at target))"

definition run_ladder ::
    "int \<Rightarrow> int \<Rightarrow> ('a, 'e) migration_step list \<Rightarrow> ('a versioned_scheme, 'e ladder_error, unit) st" where
  "run_ladder found target steps = bind (ladder_loop found target steps found) (ensure_target target)"

text \<open>\<open>assert_contiguous\<close>: the registry has no gap and no repetition.\<close>

definition contiguous :: "('a, 'e) migration_step list \<Rightarrow> int \<Rightarrow> int \<Rightarrow> bool" where
  "contiguous steps lo hi = (if steps = [] then lo > hi
     else map fst steps = [lo..hi])"

section \<open>Openers\<close>

text \<open>
  An opener between two rungs: the version it found, its target, the rungs left, the version it
  believes to be at, and how it ended. \<open>opener_next\<close> is one turn of the loop of \<open>run_ladder\<close>.
\<close>

record ('a, 'e) opener =
  op_found :: int
  op_target :: int
  op_left :: "('a, 'e) migration_step list"
  op_at :: int
  op_result :: "('e ladder_error + unit) option"

definition opener_ends :: "('a, 'e) opener \<Rightarrow> ('a, 'e) opener" where
  "opener_ends p = p\<lparr>op_result := Some (if op_at p = op_target p then Inr ()
     else Inl (Ladder_Gap (op_at p) (op_target p)))\<rparr>"

definition opener_next ::
    "('a, 'e) opener \<Rightarrow> 'a versioned_scheme \<Rightarrow> ('a, 'e) opener \<times> 'a versioned_scheme" where
  "opener_next p f = (if op_result p \<noteq> None then (p, f) else
     case op_left p of
       [] \<Rightarrow> (opener_ends p, f)
     | r # rest \<Rightarrow>
         if fst r \<le> op_found p then (p\<lparr>op_left := rest\<rparr>, f)
         else if fst r > op_target p then (opener_ends p, f)
         else (case rung r f of
             (f', Inl e) \<Rightarrow> (p\<lparr>op_result := Some (Inl (Step_Failed (fst r) (op_at p) e))\<rparr>, f')
           | (f', Inr _) \<Rightarrow> (p\<lparr>op_left := rest, op_at := fst r\<rparr>, f')))"

definition new_opener :: "('a, 'e) migration_step list \<Rightarrow> int \<Rightarrow> int \<Rightarrow> ('a, 'e) opener" where
  "new_opener steps target found =
     \<lparr>op_found = found, op_target = target, op_left = steps, op_at = found, op_result = None\<rparr>"

fun opener_run :: "nat \<Rightarrow> ('a, 'e) opener \<Rightarrow> 'a versioned_scheme \<Rightarrow> ('a, 'e) opener \<times> 'a versioned_scheme" where
  "opener_run 0 p f = (p, f)"
| "opener_run (Suc n) p f = (case opener_next p f of (p', f') \<Rightarrow> opener_run n p' f')"

text \<open>An opener nobody disturbs does what \<open>run_ladder\<close> does.\<close>

lemma opener_run_done: "op_result p \<noteq> None \<Longrightarrow> opener_run n p f = (p, f)"
  by (induction n) (auto simp: opener_next_def)

lemma opener_run_ladder:
  assumes "op_result p = None"
  shows "\<exists>p' f'. opener_run (Suc (length (op_left p))) p f = (p', f') \<and>
    bind (ladder_loop (op_found p) (op_target p) (op_left p) (op_at p))
      (ensure_target (op_target p)) f = (f', the (op_result p')) \<and>
    op_result p' \<noteq> None"
  using assms
proof (induction "op_left p" arbitrary: p f)
  case Nil
  from Nil.hyps [symmetric] Nil.prems show ?case
    by (cases "op_at p = op_target p") (simp_all add: opener_next_def opener_ends_def bind_def ensure_target_def)
next
  case (Cons r rest)
  note l = Cons.hyps(2) [symmetric]
  consider (skip) "fst r \<le> op_found p" | (stop) "fst r > op_found p" "fst r > op_target p"
    | (climb) "fst r > op_found p" "fst r \<le> op_target p" by linarith
  then show ?case
  proof cases
    case skip
    let ?p = "p\<lparr>op_left := rest\<rparr>"
    have "opener_run (Suc (length (op_left p))) p f = opener_run (Suc (length (op_left ?p))) ?p f"
      using Cons.prems skip l by (simp add: opener_next_def)
    with Cons.hyps(1) [of ?p f] Cons.prems skip l show ?thesis by simp
  next
    case stop
    then have "opener_next p f = (opener_ends p, f)" using Cons.prems l by (simp add: opener_next_def)
    moreover have "op_result (opener_ends p) \<noteq> None" by (simp add: opener_ends_def)
    moreover have "ladder_loop (op_found p) (op_target p) (op_left p) (op_at p) = ok (op_at p)"
      using stop l by simp
    ultimately show ?thesis
      by (cases "op_at p = op_target p") (simp_all add: opener_run_done opener_ends_def bind_def ensure_target_def)
  next
    case climb
    show ?thesis
    proof (cases "rung r f")
      case (Pair f1 res)
      show ?thesis
      proof (cases res)
        case (Inl e)
        let ?p = "p\<lparr>op_result := Some (Inl (Step_Failed (fst r) (op_at p) e))\<rparr>"
        have "opener_next p f = (?p, f1)"
          using climb Cons.prems l Pair Inl by (simp add: opener_next_def)
        then have "opener_run (Suc (length (op_left p))) p f = (?p, f1)" by (simp add: opener_run_done)
        then show ?thesis using climb l Pair Inl by (simp add: bind_def with_context_def)
      next
        case (Inr u)
        let ?p = "p\<lparr>op_left := rest, op_at := fst r\<rparr>"
        have "opener_next p f = (?p, f1)"
          using climb Cons.prems l Pair Inr by (simp add: opener_next_def)
        then have "opener_run (Suc (length (op_left p))) p f = opener_run (Suc (length (op_left ?p))) ?p f1"
          using l by simp
        with Cons.hyps(1) [of ?p f1] Cons.prems climb l Pair Inr show ?thesis
          by (simp add: bind_def with_context_def)
      qed
    qed
  qed
qed

lemma run_ladder_opener:
  assumes "opener_run (Suc (length steps)) (new_opener steps target found) f = (p, f')"
  shows "run_ladder found target steps f = (f', the (op_result p)) \<and> op_result p \<noteq> None"
  using opener_run_ladder [of "new_opener steps target found" f] assms
  by (simp add: new_opener_def run_ladder_def)

section \<open>One pass\<close>

text \<open>What the openers together are to amount to: one pass over the rungs, each body run once.\<close>

definition climb_one :: "('a, 'e) migration_step \<Rightarrow> ('a versioned_scheme, 'e, unit) st" where
  "climb_one p = bind (snd p) (\<lambda>_. stamp_version (fst p))"

definition rungs_between :: "int \<Rightarrow> int \<Rightarrow> ('a, 'e) migration_step list \<Rightarrow> ('a, 'e) migration_step list" where
  "rungs_between a z steps = filter (\<lambda>p. a < fst p \<and> fst p \<le> z) steps"

definition one_pass :: "int \<Rightarrow> int \<Rightarrow> ('a, 'e) migration_step list \<Rightarrow> ('a versioned_scheme, 'e, unit) st" where
  "one_pass a z steps = for_each climb_one (rungs_between a z steps)"

lemma rung_cases:
  "rung p f = (if user_version f \<ge> fst p then (f, Inr ())
     else case climb_one p f of (f', Inr _) \<Rightarrow> (f', Inr ()) | (_, Inl e) \<Rightarrow> (f, Inl e))"
  by (cases p) (auto simp: rung_def climb_one_def transaction_def split: prod.splits sum.splits)

lemma climb_one_version: "climb_one p f = (f', Inr u) \<Longrightarrow> user_version f' = fst p"
  by (auto simp: climb_one_def stamp_version_def bind_eq_Inr)

lemma for_each_snoc:
  "for_each m (xs @ [x]) s = (case for_each m xs s of (t, Inl e) \<Rightarrow> (t, Inl e) | (t, Inr _) \<Rightarrow> m x t)"
proof -
  have "fold_each (\<lambda>x _. m x) (xs @ [x]) b s = (case fold_each (\<lambda>x _. m x) xs b s of
      (t, Inl e) \<Rightarrow> (t, Inl e) | (t, Inr _) \<Rightarrow> m x t)" for b
    by (induction xs arbitrary: b s)
      (auto simp: bind_def split: prod.splits sum.splits)
  then show ?thesis by (simp add: for_each_def)
qed

lemma rungs_between_climb:
  assumes "steps = pre @ p # rest" "sorted_wrt (<) (map fst steps)"
    and "a \<le> cur" "cur < fst p" "\<forall>q \<in> set pre. fst q \<le> cur"
  shows "rungs_between a (fst p) steps = rungs_between a cur steps @ [p]"
proof -
  have "\<forall>q \<in> set rest. fst p < fst q" using assms(1,2) by (auto simp: sorted_wrt_append)
  then have "filter (\<lambda>q. a < fst q \<and> fst q \<le> fst p) rest = []"
    "filter (\<lambda>q. a < fst q \<and> fst q \<le> cur) rest = []"
    using assms(4) by (auto simp: filter_empty_conv)
  moreover have "filter (\<lambda>q. a < fst q \<and> fst q \<le> fst p) pre = filter (\<lambda>q. a < fst q \<and> fst q \<le> cur) pre"
    using assms(4,5) by (intro filter_cong) auto
  ultimately show ?thesis using assms by (simp add: rungs_between_def)
qed

section \<open>Openers of one file\<close>

text \<open>
  The file and those who are opening it. Openers come from builds with different targets but one
  registry (which is append only); they take turns between rungs and may vanish at any moment,
  a transaction they had open being rolled back.
\<close>

type_synonym ('a, 'e) open_state = "'a versioned_scheme \<times> ('a, 'e) opener list"

inductive opening_step ::
    "('a, 'e) migration_step list \<Rightarrow> ('a, 'e) open_state \<Rightarrow> ('a, 'e) open_state \<Rightarrow> bool"
  for steps :: "('a, 'e) migration_step list" where
  opener_starts: "opening_step steps (f, ps) (f, ps @ [new_opener steps target (user_version f)])"
| opener_turns: "i < length ps \<Longrightarrow> opener_next (ps ! i) f = (p, f') \<Longrightarrow>
    opening_step steps (f, ps) (f', ps[i := p])"
| opener_vanishes: "i < length ps \<Longrightarrow> opening_step steps (f, ps) (f, take i ps @ drop (Suc i) ps)"

definition sound_opener :: "('a, 'e) migration_step list \<Rightarrow> int \<Rightarrow> ('a, 'e) opener \<Rightarrow> bool" where
  "sound_opener steps v p = (op_found p \<le> v \<and> op_at p \<le> v \<and>
     (\<exists>pre. steps = pre @ op_left p \<and> (\<forall>q \<in> set pre. fst q \<le> v)) \<and>
     (op_result p = Some (Inr ()) \<longrightarrow> op_target p \<le> v))"

definition sound_opening :: "('a, 'e) migration_step list \<Rightarrow> 'a versioned_scheme \<Rightarrow> ('a, 'e) open_state \<Rightarrow> bool" where
  "sound_opening steps f0 s = (user_version f0 \<le> user_version (fst s) \<and>
     one_pass (user_version f0) (user_version (fst s)) steps f0 = (fst s, Inr ()) \<and>
     (\<forall>p \<in> set (snd s). sound_opener steps (user_version (fst s)) p))"

lemma sound_opener_mono: "sound_opener steps v p \<Longrightarrow> v \<le> w \<Longrightarrow> sound_opener steps w p"
  by (fastforce simp: sound_opener_def)

lemma sound_rung:
  assumes "sorted_wrt (<) (map fst steps)" "steps = pre @ r # rest"
    and "\<forall>q \<in> set pre. fst q \<le> user_version f"
    and "v0 \<le> user_version f" "one_pass v0 (user_version f) steps f0 = (f, Inr ())"
    and "rung r f = (f', res)"
  shows "user_version f \<le> user_version f' \<and> one_pass v0 (user_version f') steps f0 = (f', Inr ()) \<and>
    (case res of Inr _ \<Rightarrow> fst r \<le> user_version f' | Inl _ \<Rightarrow> f' = f)"
proof (cases "fst r \<le> user_version f")
  case True
  then show ?thesis using assms by (auto simp: rung_cases)
next
  case False
  show ?thesis
  proof (cases res)
    case (Inl e)
    then have "f' = f" using assms(6) False by (auto simp: rung_cases split: prod.splits sum.splits)
    then show ?thesis using assms Inl by simp
  next
    case (Inr u)
    then have c: "climb_one r f = (f', Inr ())"
      using assms(6) False by (auto simp: rung_cases split: prod.splits sum.splits)
    have v: "user_version f' = fst r" by (rule climb_one_version [OF c])
    have "one_pass v0 (fst r) steps f0 = (f', Inr ())"
      using rungs_between_climb [OF assms(2,1,4) _ assms(3)] False assms(5) c
      by (simp add: one_pass_def for_each_snoc)
    then show ?thesis using v False Inr by simp
  qed
qed

lemma sound_turn:
  assumes sorted: "sorted_wrt (<) (map fst steps)" and S: "sound_opening steps f0 (f, ps)"
    and p: "p \<in> set ps" and n: "opener_next p f = (p', f')"
  shows "user_version f \<le> user_version f' \<and> one_pass (user_version f0) (user_version f') steps f0 = (f', Inr ()) \<and>
    sound_opener steps (user_version f') p'"
proof -
  from S p have P: "sound_opener steps (user_version f) p" and F: "user_version f0 \<le> user_version f"
    "one_pass (user_version f0) (user_version f) steps f0 = (f, Inr ())"
    by (auto simp: sound_opening_def)
  have ends: "sound_opener steps (user_version f) (opener_ends p)"
    using P by (auto simp: sound_opener_def opener_ends_def)
  show ?thesis
  proof (cases "op_result p \<noteq> None \<or> op_left p = []")
    case True
    then show ?thesis using n P F ends by (auto simp: opener_next_def split: if_splits)
  next
    case False
    then obtain r rest where l: "op_left p = r # rest" and res: "op_result p = None"
      by (cases "op_left p") auto
    from P l obtain pre where pre: "steps = pre @ r # rest" "\<forall>q \<in> set pre. fst q \<le> user_version f"
      and at: "op_found p \<le> user_version f" "op_at p \<le> user_version f"
      by (auto simp: sound_opener_def)
    consider (skip) "fst r \<le> op_found p" | (stop) "fst r > op_found p" "fst r > op_target p"
      | (climb) "fst r > op_found p" "fst r \<le> op_target p" by linarith
    then show ?thesis
    proof cases
      case skip
      then have e: "p' = p\<lparr>op_left := rest\<rparr>" "f' = f" using n l res by (simp_all add: opener_next_def)
      have "sound_opener steps (user_version f) p'"
        using pre at skip res by (auto simp: sound_opener_def e intro: exI [of _ "pre @ [r]"])
      then show ?thesis using F by (simp add: e)
    next
      case stop
      then have "p' = opener_ends p" "f' = f" using n l res by (simp_all add: opener_next_def)
      then show ?thesis using F ends by simp
    next
      case climb
      obtain f1 out where g: "rung r f = (f1, out)" by (cases "rung r f")
      note R = sound_rung [OF sorted pre F g]
      show ?thesis
      proof (cases out)
        case (Inl e)
        then have "p' = p\<lparr>op_result := Some (Inl (Step_Failed (fst r) (op_at p) e))\<rparr>" "f' = f1"
          using n l res climb g by (auto simp: opener_next_def)
        then show ?thesis using R P Inl by (auto simp: sound_opener_def)
      next
        case (Inr u)
        then have e: "p' = p\<lparr>op_left := rest, op_at := fst r\<rparr>" "f' = f1"
          using n l res climb g by (auto simp: opener_next_def)
        have "sound_opener steps (user_version f1) p'"
          using R Inr pre at res by (fastforce simp: sound_opener_def e intro: exI [of _ "pre @ [r]"])
        then show ?thesis using R by (simp add: e)
      qed
    qed
  qed
qed

lemma sound_opening_step:
  assumes "sorted_wrt (<) (map fst steps)" "sound_opening steps f0 s" "opening_step steps s t"
  shows "sound_opening steps f0 t"
  using assms(3)
proof cases
  case (opener_starts f ps target)
  have "sound_opener steps (user_version f) (new_opener steps target (user_version f))"
    by (simp add: sound_opener_def new_opener_def)
  then show ?thesis using assms(2) opener_starts by (auto simp: sound_opening_def)
next
  case (opener_turns i ps f p f')
  have "ps ! i \<in> set ps" using opener_turns(3) by simp
  with assms opener_turns sound_turn [of steps f0 f ps "ps ! i" p f']
  have T: "user_version f \<le> user_version f'" "one_pass (user_version f0) (user_version f') steps f0 = (f', Inr ())"
    "sound_opener steps (user_version f') p" by auto
  have "sound_opener steps (user_version f') q" if "q \<in> set (ps[i := p])" for q
    using that T assms(2) opener_turns(1) set_update_subset_insert [of ps i p]
    by (auto simp: sound_opening_def intro: sound_opener_mono)
  then show ?thesis using T assms(2) opener_turns by (auto simp: sound_opening_def)
next
  case (opener_vanishes i ps f)
  then show ?thesis using assms(2)
    by (auto simp: sound_opening_def dest: in_set_takeD in_set_dropD)
qed

interpretation openers: system_invariant "\<lambda>s. s = (f0, [])" "opening_step steps"
  "\<lambda>s. sorted_wrt (<) (map fst steps) \<longrightarrow> sound_opening steps f0 s" for f0 steps
proof (unfold_locales, goal_cases)
  case (1 s)
  then show ?case by (simp add: sound_opening_def one_pass_def rungs_between_def for_each_def)
next
  case (2 s t)
  then show ?case using sound_opening_step by blast
qed

text \<open>
  C37. However many processes open one store at the same time, whatever builds they come from,
  wherever each of them stops or crashes, the file is what one pass over the rungs up to its
  version makes of the file they found: no step is skipped, run twice or half applied. An opener
  that returned without an error left the file at its target or beyond.
\<close>

theorem openers_refine_one_pass:
  assumes "sorted_wrt (<) (map fst steps)" and "reach (\<lambda>s. s = (f0, [])) (opening_step steps) (f, ps)"
  shows "one_pass (user_version f0) (user_version f) steps f0 = (f, Inr ()) \<and>
    list_all (\<lambda>p. op_result p = Some (Inr ()) \<longrightarrow> op_target p \<le> user_version f) ps"
proof -
  from openers.holds [OF assms(2)] assms(1) have "sound_opening steps f0 (f, ps)" by blast
  then show ?thesis by (auto simp: sound_opening_def sound_opener_def list_all_iff)
qed

text \<open>A lone opener: what it returns, and what it leaves behind when a step fails.\<close>

lemma reach_turns:
  assumes "reach init (opening_step steps) (f, [p])" "opener_run n p f = (p', f')"
  shows "reach init (opening_step steps) (f', [p'])"
  using assms
proof (induction n arbitrary: p f)
  case (Suc n)
  obtain p1 f1 where n: "opener_next p f = (p1, f1)" by (cases "opener_next p f")
  have "opening_step steps (f, [p]) (f1, [p][0 := p1])"
    by (rule opener_turns) (simp_all add: n)
  then have "reach init (opening_step steps) (f1, [p1])" using Suc.prems(1) reach_step by fastforce
  with Suc.IH [of f1 p1] Suc.prems(2) show ?case by (simp add: n)
qed auto

lemma reach_opener_starts:
  assumes "reach init (opening_step steps) (f, [])"
  shows "reach init (opening_step steps) (f, [new_opener steps target (user_version f)])"
proof -
  have "opening_step steps (f, []) (f, [] @ [new_opener steps target (user_version f)])" by (rule opener_starts)
  with assms have "reach init (opening_step steps) (f, [] @ [new_opener steps target (user_version f)])"
    by (rule reach_step)
  then show ?thesis by (simp only: append_Nil)
qed

lemma reach_opener_vanishes:
  assumes "reach init (opening_step steps) (f, [p])"
  shows "reach init (opening_step steps) (f, [])"
proof -
  have "opening_step steps (f, [p]) (f, take 0 [p] @ drop (Suc 0) [p])" by (rule opener_vanishes) simp
  with assms have "reach init (opening_step steps) (f, take 0 [p] @ drop (Suc 0) [p])" by (rule reach_step)
  then show ?thesis by simp
qed

lemma opener_next_target: "op_target (fst (opener_next p f)) = op_target p"
  by (auto simp: opener_next_def opener_ends_def split: list.split prod.split sum.split)

lemma opener_run_target: "op_target (fst (opener_run n p f)) = op_target p"
proof (induction n arbitrary: p f)
  case (Suc n)
  then show ?case using opener_next_target [of p f] by (cases "opener_next p f") simp
qed simp

lemma run_ladder_one_pass:
  assumes "sorted_wrt (<) (map fst steps)" "run_ladder (user_version f) target steps f = (f', r)"
  shows "one_pass (user_version f) (user_version f') steps f = (f', Inr ()) \<and>
    (r = Inr () \<longrightarrow> target \<le> user_version f')"
proof -
  let ?p = "new_opener steps target (user_version f)"
  obtain p' f1 where run: "opener_run (Suc (length steps)) ?p f = (p', f1)"
    by (cases "opener_run (Suc (length steps)) ?p f")
  from run_ladder_opener [OF run] have "run_ladder (user_version f) target steps f = (f1, the (op_result p'))"
    and "op_result p' \<noteq> None" by simp_all
  then have "f1 = f' \<and> the (op_result p') = r" using assms(2) by simp
  then have e: "f1 = f'" "op_result p' = Some r" using \<open>op_result p' \<noteq> None\<close> by auto
  have r0: "reach (\<lambda>s. s = (f, [])) (opening_step steps) (f, [])"
    by (rule reach_init) (rule refl)
  from reach_opener_starts [OF r0] have "reach (\<lambda>s. s = (f, [])) (opening_step steps) (f, [?p])" .
  from reach_turns [OF this run] have "reach (\<lambda>s. s = (f, [])) (opening_step steps) (f', [p'])"
    by (simp add: e)
  from openers.holds [OF this] assms(1) have S: "sound_opening steps f (f', [p'])" by blast
  then have "one_pass (user_version f) (user_version f') steps f = (f', Inr ())"
    by (simp add: sound_opening_def)
  moreover have "r = Inr () \<longrightarrow> op_target p' \<le> user_version f'"
    using S e(2) by (simp add: sound_opening_def sound_opener_def)
  moreover have "op_target p' = target"
    using opener_run_target [of "Suc (length steps)" ?p f] run by (simp add: new_opener_def)
  ultimately show ?thesis by simp
qed

end
