(* ===== verification/Memory_Migrate.thy ===== *)
theory Memory_Migrate
  imports Migration_Ladder Tags
begin

text \<open>
  The schema of \<open>memory.db\<close> by version: the steps of its ladder
  (\<open>core/src/storage/memory/migrate.rs\<close> with the statements of \<open>migrations/memory_*.sql\<close>) and
  \<open>create_schema\<close> of \<open>memory/mod.rs\<close>, which creates, migrates, accepts or refuses a file. The file
  is modelled by what the steps read and change: the names of its tables and of the columns of
  \<open>notes\<close> and \<open>events\<close>, the comma-joined columns of old rows, the rows that replace them. A DDL
  statement fails as SQLite documents: a table or column that exists is not created, one that
  does not exist is neither dropped nor read. Indexes, triggers and the contents of the full-text
  table are left out.
\<close>

section \<open>The file\<close>

record legacy_row =
  lr_uuid :: string
  lr_tags :: "string option"
  lr_linked_files :: "string option"

record memory_file = versioned +
  mf_tables :: "string list"
  notes_columns :: "string list"
  events_columns :: "string list"
  mf_notes :: "legacy_row list"
  mf_tags :: "(string \<times> string) list"
  mf_files :: "(string \<times> string \<times> string \<times> int) list"

datatype ddl_error =
    Table_Exists string | No_Such_Table string | Duplicate_Column string | No_Such_Column string

type_synonym 'a ddl = "(memory_file, ddl_error, 'a) st"

definition create_table :: "string \<Rightarrow> unit ddl" where
  "create_table t = (\<lambda>f. if t \<in> set (mf_tables f) then (f, Inl (Table_Exists t))
     else (f\<lparr>mf_tables := mf_tables f @ [t]\<rparr>, Inr ()))"

definition drop_table :: "string \<Rightarrow> unit ddl" where
  "drop_table t = (\<lambda>f. if t \<notin> set (mf_tables f) then (f, Inl (No_Such_Table t))
     else (f\<lparr>mf_tables := removeAll t (mf_tables f)\<rparr>, Inr ()))"

definition add_notes_column :: "string \<Rightarrow> unit ddl" where
  "add_notes_column c = (\<lambda>f. if ''notes'' \<notin> set (mf_tables f) then (f, Inl (No_Such_Table ''notes''))
     else if c \<in> set (notes_columns f) then (f, Inl (Duplicate_Column c))
     else (f\<lparr>notes_columns := notes_columns f @ [c]\<rparr>, Inr ()))"

definition add_events_column :: "string \<Rightarrow> unit ddl" where
  "add_events_column c = (\<lambda>f. if ''events'' \<notin> set (mf_tables f) then (f, Inl (No_Such_Table ''events''))
     else if c \<in> set (events_columns f) then (f, Inl (Duplicate_Column c))
     else (f\<lparr>events_columns := events_columns f @ [c]\<rparr>, Inr ()))"

text \<open>The data of a dropped column goes with it.\<close>

definition drop_notes_column :: "string \<Rightarrow> (legacy_row \<Rightarrow> legacy_row) \<Rightarrow> unit ddl" where
  "drop_notes_column c forget = (\<lambda>f. if c \<notin> set (notes_columns f) then (f, Inl (No_Such_Column c))
     else (f\<lparr>notes_columns := removeAll c (notes_columns f), mf_notes := map forget (mf_notes f)\<rparr>, Inr ()))"

section \<open>The steps\<close>

definition migration_clean_path :: "string \<Rightarrow> string" where
  "migration_clean_path raw =
     (let slashed = replace_char CHR 0x5C CHR ''/'' (trim raw) in
      case strip_prefix ''./'' slashed of Some rest \<Rightarrow> rest | None \<Rightarrow> slashed)"

definition sql_insert_legacy_tag :: "string \<Rightarrow> string \<Rightarrow> unit ddl" where
  "sql_insert_legacy_tag uuid tag = modify (\<lambda>f. if (uuid, tag) \<in> set (mf_tags f) then f
     else f\<lparr>mf_tags := mf_tags f @ [(uuid, tag)]\<rparr>)"

definition sql_insert_legacy_file :: "string \<Rightarrow> string \<Rightarrow> unit ddl" where
  "sql_insert_legacy_file uuid path = modify (\<lambda>f.
     if (uuid, path) \<in> set (map (\<lambda>(u, p, _). (u, p)) (mf_files f)) then f
     else f\<lparr>mf_files := mf_files f @ [(uuid, path, ''untracked'', 0)]\<rparr>)"

definition select_legacy :: "legacy_row list ddl" where
  "select_legacy = (\<lambda>f. if ''tags'' \<notin> set (notes_columns f) then (f, Inl (No_Such_Column ''tags''))
     else if ''linked_files'' \<notin> set (notes_columns f) then (f, Inl (No_Such_Column ''linked_files''))
     else (f, Inr (mf_notes f)))"

definition copy_legacy_row :: "env \<Rightarrow> legacy_row \<Rightarrow> unit ddl" where
  "copy_legacy_row E r =
     bind (for_each (\<lambda>raw. case normalize_tag E raw of
         Some tag \<Rightarrow> sql_insert_legacy_tag (lr_uuid r) tag | None \<Rightarrow> ok ()) (split_csv (lr_tags r))) (\<lambda>_.
     for_each (\<lambda>raw. if migration_clean_path raw \<noteq> []
         then sql_insert_legacy_file (lr_uuid r) (migration_clean_path raw) else ok ())
       (split_csv (lr_linked_files r)))"

definition add_note_tags_and_files :: "env \<Rightarrow> unit ddl" where
  "add_note_tags_and_files E =
     bind (create_table ''note_tags'') (\<lambda>_.
     bind (create_table ''note_files'') (\<lambda>_.
     bind (drop_table ''memory_fts'') (\<lambda>_.
     bind (create_table ''memory_fts'') (\<lambda>_.
     bind select_legacy (\<lambda>rows.
     bind (for_each (copy_legacy_row E) rows) (\<lambda>_.
     bind (drop_notes_column ''tags'' (\<lambda>r. r\<lparr>lr_tags := None\<rparr>)) (\<lambda>_.
     drop_notes_column ''linked_files'' (\<lambda>r. r\<lparr>lr_linked_files := None\<rparr>))))))))"

definition EVENT_COLUMNS :: "string list" where
  "EVENT_COLUMNS = [''at'', ''command'', ''surface'', ''trigger'', ''actor_kind'', ''session_ref'',
     ''code_results'', ''memory_results'', ''returned_ids'', ''tokens_out'', ''latency_ms'', ''ok'']"

definition add_events_and_origin :: "unit ddl" where
  "add_events_and_origin =
     bind (create_table ''events'') (\<lambda>_.
     bind (modify (\<lambda>f. f\<lparr>events_columns := EVENT_COLUMNS\<rparr>)) (\<lambda>_.
     for_each add_notes_column [''origin_actor_kind'', ''origin_tool'', ''origin_model'']))"

definition add_pending_anchors :: "unit ddl" where
  "add_pending_anchors = for_each create_table [''pending_anchors'', ''patch_id_cache'']"

definition add_events_reconcile_outcome :: "unit ddl" where
  "add_events_reconcile_outcome = for_each add_events_column [''reconcile'', ''resolution'']"

definition MEMORY_MIGRATIONS :: "env \<Rightarrow> (int \<times> unit ddl) list" where
  "MEMORY_MIGRATIONS E = [(12, add_note_tags_and_files E), (13, add_events_and_origin),
     (14, add_pending_anchors), (15, add_events_reconcile_outcome)]"

section \<open>Opening\<close>

definition MEMORY_SCHEMA_VERSION :: int where
  "MEMORY_SCHEMA_VERSION = 15"

definition LAST_LEGACY_SCHEMA_VERSION :: int where
  "LAST_LEGACY_SCHEMA_VERSION = 10"

definition INITIAL_SCHEMA_VERSION :: int where
  "INITIAL_SCHEMA_VERSION = LAST_LEGACY_SCHEMA_VERSION + 1"

datatype open_error = Newer_Build int | Older_Product int | Ladder_Error "ddl_error ladder_error"

definition is_empty_file :: "memory_file \<Rightarrow> bool" where
  "is_empty_file f = (mf_tables f = [])"

definition INITIAL_TABLES :: "string list" where
  "INITIAL_TABLES = [''notes'', ''note_embeddings'', ''memory_fts'', ''memory_edges'', ''notes_import_state'']"

definition INITIAL_NOTES_COLUMNS :: "string list" where
  "INITIAL_NOTES_COLUMNS = [''id'', ''uuid'', ''kind'', ''title'', ''body'', ''tags'', ''linked_files'',
     ''created_at'', ''status'', ''superseded_by'', ''source_ref'', ''valid_at'', ''invalid_at'',
     ''entity_id'', ''remote_id'']"

text \<open>\<open>memory_001_initial.sql\<close> and its stamp, in one transaction, on a file without tables.\<close>

definition create_initial :: "(memory_file, open_error, unit) st" where
  "create_initial = modify (\<lambda>f. f\<lparr>user_version := INITIAL_SCHEMA_VERSION, mf_tables := INITIAL_TABLES,
     notes_columns := INITIAL_NOTES_COLUMNS, mf_notes := []\<rparr>)"

definition create_schema :: "env \<Rightarrow> (memory_file, open_error, unit) st" where
  "create_schema E = bind (query user_version) (\<lambda>version.
     if version = MEMORY_SCHEMA_VERSION then ok ()
     else if version > MEMORY_SCHEMA_VERSION then fail (Newer_Build version)
     else if version > LAST_LEGACY_SCHEMA_VERSION
     then with_context Ladder_Error (run_ladder version MEMORY_SCHEMA_VERSION (MEMORY_MIGRATIONS E))
     else bind (query is_empty_file) (\<lambda>empty.
       if version > 0 \<or> \<not> empty then fail (Older_Product version)
       else bind create_initial (\<lambda>_.
         with_context Ladder_Error
           (run_ladder INITIAL_SCHEMA_VERSION MEMORY_SCHEMA_VERSION (MEMORY_MIGRATIONS E)))))"

section \<open>The shape of a file at a version\<close>

definition tables_at :: "int \<Rightarrow> string list" where
  "tables_at v = (if v < 12 then INITIAL_TABLES
     else removeAll ''memory_fts'' INITIAL_TABLES @ [''note_tags'', ''note_files'', ''memory_fts''] @
       (if v < 13 then [] else [''events'']) @
       (if v < 14 then [] else [''pending_anchors'', ''patch_id_cache'']))"

definition notes_columns_at :: "int \<Rightarrow> string list" where
  "notes_columns_at v = (if v < 12 then INITIAL_NOTES_COLUMNS
     else removeAll ''linked_files'' (removeAll ''tags'' INITIAL_NOTES_COLUMNS) @
       (if v < 13 then [] else [''origin_actor_kind'', ''origin_tool'', ''origin_model'']))"

definition events_columns_at :: "int \<Rightarrow> string list" where
  "events_columns_at v = EVENT_COLUMNS @ (if v < 15 then [] else [''reconcile'', ''resolution''])"

definition shaped_at :: "int \<Rightarrow> memory_file \<Rightarrow> bool" where
  "shaped_at v f = (user_version f = v \<and> mf_tables f = tables_at v \<and> notes_columns f = notes_columns_at v \<and>
     (13 \<le> v \<longrightarrow> events_columns f = events_columns_at v) \<and> (v < 12 \<longrightarrow> mf_tags f = [] \<and> mf_files f = []))"

definition file_keys :: "memory_file \<Rightarrow> (string \<times> string) list" where
  "file_keys f = map (\<lambda>(u, p, _). (u, p)) (mf_files f)"

text \<open>What the old rows carry over: their tags in normal form, their paths cleaned.\<close>

definition carried_tags :: "env \<Rightarrow> legacy_row list \<Rightarrow> (string \<times> string) list" where
  "carried_tags E rows = concat (map (\<lambda>r. map (Pair (lr_uuid r))
     (List.map_filter (normalize_tag E) (split_csv (lr_tags r)))) rows)"

definition carried_files :: "legacy_row list \<Rightarrow> (string \<times> string) list" where
  "carried_files rows = concat (map (\<lambda>r. map (Pair (lr_uuid r))
     (filter (\<lambda>p. p \<noteq> []) (map migration_clean_path (split_csv (lr_linked_files r))))) rows)"

section \<open>The copy\<close>

definition put_tag :: "env \<Rightarrow> string \<Rightarrow> string \<Rightarrow> memory_file \<Rightarrow> memory_file" where
  "put_tag E u raw f = (case normalize_tag E raw of None \<Rightarrow> f
     | Some t \<Rightarrow> if (u, t) \<in> set (mf_tags f) then f else f\<lparr>mf_tags := mf_tags f @ [(u, t)]\<rparr>)"

definition put_file :: "string \<Rightarrow> string \<Rightarrow> memory_file \<Rightarrow> memory_file" where
  "put_file u raw f = (if migration_clean_path raw = [] \<or> (u, migration_clean_path raw) \<in> set (file_keys f) then f
     else f\<lparr>mf_files := mf_files f @ [(u, migration_clean_path raw, ''untracked'', 0)]\<rparr>)"

lemma for_each_modify:
  assumes "\<And>x. m x = modify (g x)"
  shows "for_each m xs = modify (fold g xs)"
proof -
  have "fold_each (\<lambda>x _. m x) xs () = modify (fold g xs)"
    by (induction xs) (auto simp: assms ok_def modify_def bind_def)
  then show ?thesis by (simp add: for_each_def)
qed

lemma copy_legacy_row_pure:
  "copy_legacy_row E r = modify (\<lambda>f. fold (put_file (lr_uuid r)) (split_csv (lr_linked_files r))
     (fold (put_tag E (lr_uuid r)) (split_csv (lr_tags r)) f))"
proof -
  have "(case normalize_tag E raw of Some tag \<Rightarrow> sql_insert_legacy_tag u tag | None \<Rightarrow> ok ()) =
      modify (put_tag E u raw)" for u raw
    by (auto simp: put_tag_def sql_insert_legacy_tag_def modify_def ok_def split: option.split)
  moreover have "(if migration_clean_path raw \<noteq> [] then sql_insert_legacy_file u (migration_clean_path raw)
      else ok ()) = modify (put_file u raw)" for u raw
    by (auto simp: put_file_def sql_insert_legacy_file_def modify_def ok_def file_keys_def)
  ultimately show ?thesis
    by (simp add: copy_legacy_row_def for_each_modify) (simp add: fun_eq_iff)
qed

text \<open>Only the two new tables change, and they gain exactly what is carried.\<close>

definition only_copied :: "memory_file \<Rightarrow> memory_file \<Rightarrow> bool" where
  "only_copied f f' = (user_version f' = user_version f \<and> mf_tables f' = mf_tables f \<and>
     notes_columns f' = notes_columns f \<and> events_columns f' = events_columns f \<and> mf_notes f' = mf_notes f)"

lemma put_tags:
  "only_copied f (fold (put_tag E u) raws f) \<and> mf_files (fold (put_tag E u) raws f) = mf_files f \<and>
   set (mf_tags (fold (put_tag E u) raws f)) =
     set (mf_tags f) \<union> Pair u ` set (List.map_filter (normalize_tag E) raws)"
proof (induction raws arbitrary: f)
  case (Cons raw raws)
  from Cons [of "put_tag E u raw f"] show ?case
    by (auto simp: put_tag_def only_copied_def map_filter_simps split: option.split)
qed (simp add: only_copied_def map_filter_simps)

lemma put_file_one:
  "only_copied f (put_file u raw f) \<and> mf_tags (put_file u raw f) = mf_tags f \<and>
   set (file_keys (put_file u raw f)) = set (file_keys f) \<union>
     (if migration_clean_path raw = [] then {} else {(u, migration_clean_path raw)})"
proof -
  have "file_keys (f\<lparr>mf_files := mf_files f @ [(u, p, st, t)]\<rparr>) = file_keys f @ [(u, p)]" for p st t
    by (simp add: file_keys_def)
  then show ?thesis by (auto simp: put_file_def only_copied_def)
qed

lemma put_files:
  "only_copied f (fold (put_file u) raws f) \<and> mf_tags (fold (put_file u) raws f) = mf_tags f \<and>
   set (file_keys (fold (put_file u) raws f)) =
     set (file_keys f) \<union> Pair u ` set (filter (\<lambda>p. p \<noteq> []) (map migration_clean_path raws))"
proof (induction raws arbitrary: f)
  case (Cons raw raws)
  from Cons [of "put_file u raw f"] put_file_one [of f u raw] show ?case
    by (auto simp: only_copied_def)
qed (simp add: only_copied_def)

lemma copy_rows:
  "\<exists>f'. for_each (copy_legacy_row E) rows f = (f', Inr ()) \<and> only_copied f f' \<and>
     set (mf_tags f') = set (mf_tags f) \<union> set (carried_tags E rows) \<and>
     set (file_keys f') = set (file_keys f) \<union> set (carried_files rows)"
proof -
  let ?g = "\<lambda>r f. fold (put_file (lr_uuid r)) (split_csv (lr_linked_files r))
     (fold (put_tag E (lr_uuid r)) (split_csv (lr_tags r)) f)"
  have e: "for_each (copy_legacy_row E) rows f = (fold ?g rows f, Inr ())"
    by (simp add: for_each_modify [OF copy_legacy_row_pure])
  have "only_copied f (fold ?g rows f) \<and>
     set (mf_tags (fold ?g rows f)) = set (mf_tags f) \<union> set (carried_tags E rows) \<and>
     set (file_keys (fold ?g rows f)) = set (file_keys f) \<union> set (carried_files rows)"
  proof (induction rows arbitrary: f)
    case (Cons r rows)
    let ?f1 = "fold (put_tag E (lr_uuid r)) (split_csv (lr_tags r)) f"
    have k: "file_keys ?f1 = file_keys f" using put_tags by (simp add: file_keys_def)
    from Cons [of "?g r f"] show ?case
      using put_tags [of f E "lr_uuid r" "split_csv (lr_tags r)"] k
        put_files [of ?f1 "lr_uuid r" "split_csv (lr_linked_files r)"]
      by (simp add: only_copied_def carried_tags_def carried_files_def Un_assoc)
  qed (simp add: only_copied_def carried_tags_def carried_files_def)
  then show ?thesis using e by blast
qed

section \<open>Each step takes a shape to the next\<close>

lemma step_12:
  assumes "shaped_at 11 f"
  shows "\<exists>f'. climb_one (12, add_note_tags_and_files E) f = (f', Inr ()) \<and> shaped_at 12 f' \<and>
    map lr_uuid (mf_notes f') = map lr_uuid (mf_notes f) \<and>
    set (mf_tags f') = set (carried_tags E (mf_notes f)) \<and>
    set (file_keys f') = set (carried_files (mf_notes f))"
proof -
  let ?f1 = "f\<lparr>mf_tables := tables_at 12\<rparr>"
  from assms have sh: "user_version f = 11" "mf_tables f = tables_at 11" "notes_columns f = notes_columns_at 11"
    "mf_tags f = []" "mf_files f = []" by (simp_all add: shaped_at_def)
  obtain f2 where c: "for_each (copy_legacy_row E) (mf_notes f) ?f1 = (f2, Inr ())" "only_copied ?f1 f2"
    "set (mf_tags f2) = set (carried_tags E (mf_notes f))" "set (file_keys f2) = set (carried_files (mf_notes f))"
    using copy_rows [of E "mf_notes f" ?f1] sh by (auto simp: file_keys_def)
  let ?f3 = "f2\<lparr>user_version := 12, notes_columns := notes_columns_at 12,
     mf_notes := map (\<lambda>r. r\<lparr>lr_linked_files := None\<rparr>) (map (\<lambda>r. r\<lparr>lr_tags := None\<rparr>) (mf_notes f2))\<rparr>"
  have t: "bind (create_table ''note_tags'') (\<lambda>_. bind (create_table ''note_files'') (\<lambda>_.
      bind (drop_table ''memory_fts'') (\<lambda>_. bind (create_table ''memory_fts'') k))) f = k () ?f1" for k :: "unit \<Rightarrow> 'x ddl"
    by (simp add: bind_def create_table_def drop_table_def sh tables_at_def INITIAL_TABLES_def)
  have s: "select_legacy ?f1 = (?f1, Inr (mf_notes f))"
    by (simp add: select_legacy_def sh notes_columns_at_def INITIAL_NOTES_COLUMNS_def)
  have n: "notes_columns f2 = notes_columns_at 11" using c(2) sh by (simp add: only_copied_def)
  have "climb_one (12, add_note_tags_and_files E) f = (?f3, Inr ())"
    unfolding climb_one_def add_note_tags_and_files_def
    by (simp add: bind_def [of "bind _ _"] t [unfolded bind_def] bind_def s c(1) n stamp_version_def
      drop_notes_column_def notes_columns_at_def INITIAL_NOTES_COLUMNS_def comp_def)
  moreover have "shaped_at 12 ?f3"
    using c(2) by (simp add: only_copied_def shaped_at_def)
  ultimately show ?thesis using c by (auto simp: only_copied_def file_keys_def)
qed

lemma step_13:
  assumes "shaped_at 12 f"
  shows "\<exists>f'. climb_one (13, add_events_and_origin) f = (f', Inr ()) \<and> shaped_at 13 f' \<and>
    mf_notes f' = mf_notes f \<and> mf_tags f' = mf_tags f \<and> mf_files f' = mf_files f"
  using assms
  by (simp add: climb_one_def add_events_and_origin_def create_table_def for_each_def add_notes_column_def
    bind_def stamp_version_def shaped_at_def tables_at_def notes_columns_at_def events_columns_at_def
    INITIAL_TABLES_def INITIAL_NOTES_COLUMNS_def)

lemma step_14:
  assumes "shaped_at 13 f"
  shows "\<exists>f'. climb_one (14, add_pending_anchors) f = (f', Inr ()) \<and> shaped_at 14 f' \<and>
    mf_notes f' = mf_notes f \<and> mf_tags f' = mf_tags f \<and> mf_files f' = mf_files f"
  using assms
  by (simp add: climb_one_def add_pending_anchors_def create_table_def for_each_def
    bind_def stamp_version_def shaped_at_def tables_at_def notes_columns_at_def events_columns_at_def
    INITIAL_TABLES_def INITIAL_NOTES_COLUMNS_def)

lemma step_15:
  assumes "shaped_at 14 f"
  shows "\<exists>f'. climb_one (15, add_events_reconcile_outcome) f = (f', Inr ()) \<and> shaped_at 15 f' \<and>
    mf_notes f' = mf_notes f \<and> mf_tags f' = mf_tags f \<and> mf_files f' = mf_files f"
  using assms
  by (simp add: climb_one_def add_events_reconcile_outcome_def add_events_column_def for_each_def
    bind_def stamp_version_def shaped_at_def tables_at_def notes_columns_at_def events_columns_at_def
    INITIAL_TABLES_def INITIAL_NOTES_COLUMNS_def EVENT_COLUMNS_def)

section \<open>The climb\<close>

lemma rung_climbs:
  "climb_one p f = (f', Inr ()) \<Longrightarrow> user_version f < fst p \<Longrightarrow> rung p f = (f', Inr ())"
  by (simp add: rung_cases)

lemma ladder_climbs:
  assumes "climb_one p f = (f1, Inr ())" "user_version f < fst p" "found < fst p" "fst p \<le> target"
  shows "ladder_loop found target (p # steps) at f = ladder_loop found target steps (fst p) f1"
  using rung_climbs [OF assms(1,2)] assms(3,4) by (simp add: with_context_def bind_def)

text \<open>What a climb leaves alone once the old columns are gone.\<close>

definition same_rows :: "memory_file \<Rightarrow> memory_file \<Rightarrow> bool" where
  "same_rows f f' = (mf_notes f' = mf_notes f \<and> mf_tags f' = mf_tags f \<and> mf_files f' = mf_files f)"

lemma climb_15:
  assumes "shaped_at 14 f" "found \<le> 14"
  shows "\<exists>f'. ladder_loop found 15 [(15, add_events_reconcile_outcome)] at f = (f', Inr 15) \<and>
    shaped_at 15 f' \<and> same_rows f f'"
proof -
  from step_15 [OF assms(1)] obtain f1 where s: "climb_one (15, add_events_reconcile_outcome) f = (f1, Inr ())"
    "shaped_at 15 f1" "same_rows f f1" by (auto simp: same_rows_def)
  have "ladder_loop found 15 [(15, add_events_reconcile_outcome)] at f = (f1, Inr 15)"
    using ladder_climbs [OF s(1), of found 15 "[]" at] assms by (simp add: shaped_at_def)
  with s show ?thesis by blast
qed

lemma climb_14:
  assumes "shaped_at 13 f" "found \<le> 13"
  shows "\<exists>f'. ladder_loop found 15 [(14, add_pending_anchors), (15, add_events_reconcile_outcome)] at f =
    (f', Inr 15) \<and> shaped_at 15 f' \<and> same_rows f f'"
proof -
  from step_14 [OF assms(1)] obtain f1 where s: "climb_one (14, add_pending_anchors) f = (f1, Inr ())"
    "shaped_at 14 f1" "same_rows f f1" by (auto simp: same_rows_def)
  have "found \<le> 14" using assms(2) by simp
  from climb_15 [OF s(2) this, of 14] obtain f' where
    "ladder_loop found 15 [(15, add_events_reconcile_outcome)] 14 f1 = (f', Inr 15)" "shaped_at 15 f'"
    "same_rows f1 f'" by blast
  then show ?thesis
    using ladder_climbs [OF s(1), of found 15 "[(15, add_events_reconcile_outcome)]" at] assms s(3)
    by (simp add: shaped_at_def same_rows_def)
qed

lemma climb_13:
  assumes "shaped_at 12 f" "found \<le> 12"
  shows "\<exists>f'. ladder_loop found 15 (tl (MEMORY_MIGRATIONS E)) at f = (f', Inr 15) \<and>
    shaped_at 15 f' \<and> same_rows f f'"
proof -
  from step_13 [OF assms(1)] obtain f1 where s: "climb_one (13, add_events_and_origin) f = (f1, Inr ())"
    "shaped_at 13 f1" "same_rows f f1" by (auto simp: same_rows_def)
  have "found \<le> 13" using assms(2) by simp
  from climb_14 [OF s(2) this, of 13] obtain f' where
    "ladder_loop found 15 [(14, add_pending_anchors), (15, add_events_reconcile_outcome)] 13 f1 = (f', Inr 15)"
    "shaped_at 15 f'" "same_rows f1 f'" by blast
  then show ?thesis
    using ladder_climbs [OF s(1), of found 15 "[(14, add_pending_anchors), (15, add_events_reconcile_outcome)]" at]
      assms s(3)
    by (simp add: shaped_at_def same_rows_def MEMORY_MIGRATIONS_def)
qed

definition carried_over :: "env \<Rightarrow> memory_file \<Rightarrow> memory_file \<Rightarrow> bool" where
  "carried_over E f f' = (map lr_uuid (mf_notes f') = map lr_uuid (mf_notes f) \<and>
     set (mf_tags f') = set (carried_tags E (mf_notes f)) \<and>
     set (file_keys f') = set (carried_files (mf_notes f)))"

lemma climb_12:
  assumes "shaped_at 11 f"
  shows "\<exists>f'. ladder_loop 11 15 (MEMORY_MIGRATIONS E) at f = (f', Inr 15) \<and>
    shaped_at 15 f' \<and> carried_over E f f'"
proof -
  from step_12 [OF assms(1), of E] obtain f1 where s: "climb_one (12, add_note_tags_and_files E) f = (f1, Inr ())"
    "shaped_at 12 f1" "carried_over E f f1" by (auto simp: carried_over_def)
  from climb_13 [OF s(2), of 11 E 12] obtain f' where
    "ladder_loop 11 15 (tl (MEMORY_MIGRATIONS E)) 12 f1 = (f', Inr 15)" "shaped_at 15 f'" "same_rows f1 f'" by auto
  then show ?thesis
    using ladder_climbs [OF s(1), of 11 15 "tl (MEMORY_MIGRATIONS E)" at] assms s(3)
    by (simp add: shaped_at_def same_rows_def carried_over_def file_keys_def MEMORY_MIGRATIONS_def)
qed

lemma run_ladder_15:
  assumes "ladder_loop found 15 (MEMORY_MIGRATIONS E) found f = (f', Inr 15)"
  shows "with_context Ladder_Error (run_ladder found 15 (MEMORY_MIGRATIONS E)) f = (f', Inr ())"
  using assms by (simp add: run_ladder_def bind_def ensure_target_def with_context_def)

lemma ladder_skips:
  "fst p \<le> found \<Longrightarrow> ladder_loop found target (p # steps) at = ladder_loop found target steps at"
  by simp

text \<open>A file this build can open: one of its own history, or an empty one.\<close>

definition openable :: "memory_file \<Rightarrow> bool" where
  "openable f = (list_ex (\<lambda>v. shaped_at v f) [11, 12, 13, 14, 15] \<or>
     (user_version f \<le> 0 \<and> mf_tables f = [] \<and> mf_notes f = [] \<and> mf_tags f = [] \<and> mf_files f = []))"

lemma create_schema_current: "user_version f = 15 \<Longrightarrow> create_schema E f = (f, Inr ())"
  by (simp add: create_schema_def MEMORY_SCHEMA_VERSION_def)

lemma create_schema_ladder:
  assumes "11 \<le> user_version f" "user_version f < 15"
  shows "create_schema E f = with_context Ladder_Error (run_ladder (user_version f) 15 (MEMORY_MIGRATIONS E)) f"
  using assms by (simp add: create_schema_def MEMORY_SCHEMA_VERSION_def LAST_LEGACY_SCHEMA_VERSION_def)

lemma create_schema_later:
  assumes "shaped_at v f" "v = 12 \<or> v = 13 \<or> v = 14"
  shows "\<exists>f'. create_schema E f = (f', Inr ()) \<and> shaped_at 15 f' \<and> same_rows f f'"
proof -
  have "\<exists>f'. ladder_loop v 15 (MEMORY_MIGRATIONS E) v f = (f', Inr 15) \<and> shaped_at 15 f' \<and> same_rows f f'"
    using assms climb_13 [of f v E v] climb_14 [of f v v] climb_15 [of f v v]
    by (auto simp: MEMORY_MIGRATIONS_def ladder_skips simp del: ladder_loop.simps(2))
  moreover have "user_version f = v" using assms(1) by (simp add: shaped_at_def)
  ultimately show ?thesis using create_schema_ladder [of f E] run_ladder_15 [of v E f] assms(2) by auto
qed

lemma create_schema_first:
  assumes "shaped_at 11 f"
  shows "\<exists>f'. create_schema E f = (f', Inr ()) \<and> shaped_at 15 f' \<and> carried_over E f f'"
proof -
  from climb_12 [OF assms, of E 11] obtain f' where
    f': "ladder_loop 11 15 (MEMORY_MIGRATIONS E) 11 f = (f', Inr 15)" "shaped_at 15 f'" "carried_over E f f'" by blast
  have "user_version f = 11" using assms by (simp add: shaped_at_def)
  then show ?thesis using create_schema_ladder [of f E] run_ladder_15 [OF f'(1)] f' by auto
qed

lemma create_schema_fresh:
  assumes "user_version f \<le> 0" "mf_tables f = []" "mf_notes f = []" "mf_tags f = []" "mf_files f = []"
  shows "\<exists>f'. create_schema E f = (f', Inr ()) \<and> shaped_at 15 f' \<and> carried_over E f f'"
proof -
  let ?f = "f\<lparr>user_version := 11, mf_tables := INITIAL_TABLES, notes_columns := INITIAL_NOTES_COLUMNS, mf_notes := []\<rparr>"
  have "shaped_at 11 ?f" using assms by (simp add: shaped_at_def tables_at_def notes_columns_at_def)
  from climb_12 [OF this, of E 11] obtain f' where
    f': "ladder_loop 11 15 (MEMORY_MIGRATIONS E) 11 ?f = (f', Inr 15)" "shaped_at 15 f'" "carried_over E ?f f'" by blast
  have "create_schema E f = with_context Ladder_Error (run_ladder 11 15 (MEMORY_MIGRATIONS E)) ?f"
    using assms by (simp add: create_schema_def MEMORY_SCHEMA_VERSION_def LAST_LEGACY_SCHEMA_VERSION_def
      INITIAL_SCHEMA_VERSION_def is_empty_file_def create_initial_def)
  then show ?thesis using run_ladder_15 [OF f'(1)] f' assms(3)
    by (simp add: carried_over_def carried_tags_def carried_files_def)
qed

text \<open>
  C38. Opening brings every file of the product's own history, or an empty one, to the schema of
  this build, step by step: each step finds the tables and columns it needs. No entry is lost,
  what the old comma-joined columns held becomes exactly the normal form of its tags and cleaned
  paths, and later files keep their rows as they are. Opening again changes nothing.
\<close>

theorem opening_reaches_current_schema:
  assumes "openable f"
  shows "\<exists>f'. create_schema E f = (f', Inr ()) \<and> shaped_at 15 f' \<and> create_schema E f' = (f', Inr ()) \<and>
    (if user_version f < 12 then carried_over E f f' else same_rows f f')"
proof -
  have "\<exists>f'. create_schema E f = (f', Inr ()) \<and> shaped_at 15 f' \<and>
      (if user_version f < 12 then carried_over E f f' else same_rows f f')"
  proof (cases "list_ex (\<lambda>v. shaped_at v f) [11, 12, 13, 14, 15]")
    case True
    then consider "shaped_at 11 f" | v where "shaped_at v f" "v = 12 \<or> v = 13 \<or> v = 14" | "shaped_at 15 f"
      by auto
    then show ?thesis
    proof cases
      case 1
      then show ?thesis using create_schema_first [OF 1, of E] by (auto simp: shaped_at_def)
    next
      case 2
      then have "\<not> user_version f < 12" by (auto simp: shaped_at_def)
      then show ?thesis using create_schema_later [OF 2, of E] by simp
    next
      case 3
      then show ?thesis using create_schema_current [of f E] by (auto simp: shaped_at_def same_rows_def)
    qed
  next
    case False
    with assms have f: "user_version f \<le> 0" "mf_tables f = []" "mf_notes f = []" "mf_tags f = []" "mf_files f = []"
      by (auto simp: openable_def)
    then have "user_version f < 12" by simp
    then show ?thesis using create_schema_fresh [OF f, of E] by simp
  qed
  then show ?thesis using create_schema_current by (auto simp: shaped_at_def)
qed

section \<open>Refusals\<close>

lemma migrations_sorted: "sorted_wrt (<) (map fst (MEMORY_MIGRATIONS E))"
  by (simp add: MEMORY_MIGRATIONS_def)

definition initial_file :: "memory_file \<Rightarrow> memory_file" where
  "initial_file f = f\<lparr>user_version := INITIAL_SCHEMA_VERSION, mf_tables := INITIAL_TABLES,
     notes_columns := INITIAL_NOTES_COLUMNS, mf_notes := []\<rparr>"

definition opening_outcome :: "env \<Rightarrow> memory_file \<Rightarrow> memory_file \<Rightarrow> open_error + unit \<Rightarrow> bool" where
  "opening_outcome E f f' r = (case r of
     Inr _ \<Rightarrow> 15 \<le> user_version f'
   | Inl (Newer_Build v) \<Rightarrow> f' = f \<and> v = user_version f \<and> 15 < v
   | Inl (Older_Product v) \<Rightarrow> f' = f \<and> v = user_version f \<and> v \<le> 10 \<and> (0 < v \<or> mf_tables f \<noteq> [])
   | Inl (Ladder_Error _) \<Rightarrow> (let g = (if user_version f \<le> 10 then initial_file f else f) in
       one_pass (user_version g) (user_version f') (MEMORY_MIGRATIONS E) g = (f', Inr ())))"

lemma ladder_outcome:
  assumes "with_context Ladder_Error (run_ladder (user_version g) 15 (MEMORY_MIGRATIONS E)) g = (f', r)"
  shows "(case r of Inr _ \<Rightarrow> 15 \<le> user_version f' | Inl (Ladder_Error _) \<Rightarrow>
    one_pass (user_version g) (user_version f') (MEMORY_MIGRATIONS E) g = (f', Inr ()) | Inl _ \<Rightarrow> False)"
proof (cases "run_ladder (user_version g) 15 (MEMORY_MIGRATIONS E) g")
  case (Pair f1 out)
  from run_ladder_one_pass [OF migrations_sorted Pair]
  have "one_pass (user_version g) (user_version f1) (MEMORY_MIGRATIONS E) g = (f1, Inr ())"
    "out = Inr () \<longrightarrow> 15 \<le> user_version f1" by blast+
  then show ?thesis using assms Pair
    by (cases out) (auto simp: with_context_def)
qed

text \<open>
  C39. Opening is all or nothing. A file of a newer build or of the older product is refused
  unchanged; when a step fails, the file is left as one pass over the steps before it makes it,
  so that the next build can go on from there.
\<close>

theorem opening_refuses_without_half_steps:
  "case create_schema E f of (f', r) \<Rightarrow> opening_outcome E f f' r"
proof -
  consider "user_version f = 15" | "user_version f > 15" | (own) "10 < user_version f" "user_version f < 15"
    | (old) "user_version f \<le> 10" "0 < user_version f \<or> mf_tables f \<noteq> []"
    | (fresh) "user_version f \<le> 10" "\<not> 0 < user_version f" "mf_tables f = []" by fastforce
  then show ?thesis
  proof cases
    case own
    obtain f' r where e: "with_context Ladder_Error (run_ladder (user_version f) 15 (MEMORY_MIGRATIONS E)) f = (f', r)"
      by fastforce
    have "create_schema E f = (f', r)" using create_schema_ladder [of f E] own e by simp
    then show ?thesis using ladder_outcome [OF e] own
      by (auto simp: opening_outcome_def split: sum.split open_error.split)
  next
    case fresh
    let ?g = "initial_file f"
    have v: "user_version ?g = 11"
      by (simp add: initial_file_def INITIAL_SCHEMA_VERSION_def LAST_LEGACY_SCHEMA_VERSION_def)
    obtain f' r where e: "with_context Ladder_Error (run_ladder (user_version ?g) 15 (MEMORY_MIGRATIONS E)) ?g = (f', r)"
      by fastforce
    have "create_schema E f = (f', r)" using fresh e v
      by (simp add: create_schema_def MEMORY_SCHEMA_VERSION_def LAST_LEGACY_SCHEMA_VERSION_def
        is_empty_file_def create_initial_def initial_file_def INITIAL_SCHEMA_VERSION_def)
    then show ?thesis using ladder_outcome [OF e] fresh
      by (auto simp: opening_outcome_def Let_def split: sum.split open_error.split)
  qed (simp_all add: create_schema_def opening_outcome_def MEMORY_SCHEMA_VERSION_def
    LAST_LEGACY_SCHEMA_VERSION_def is_empty_file_def)
qed

section \<open>A file of version 11\<close>

definition legacy_file :: memory_file where
  "legacy_file = \<lparr>user_version = 11, mf_tables = INITIAL_TABLES, notes_columns = INITIAL_NOTES_COLUMNS,
     events_columns = [],
     mf_notes = [\<lparr>lr_uuid = ''u1'', lr_tags = Some ''Big Idea,,x, big_idea'', lr_linked_files = Some ''./src/a.rs''\<rparr>],
     mf_tags = [], mf_files = []\<rparr>"

lemma legacy_shape: "shaped_at 11 legacy_file"
  by (simp add: shaped_at_def legacy_file_def tables_at_def notes_columns_at_def)

lemma legacy_carried:
  "carried_tags demo_env (mf_notes legacy_file) =
     [(''u1'', ''big-idea''), (''u1'', ''x''), (''u1'', ''big-idea'')] \<and>
   carried_files (mf_notes legacy_file) = [(''u1'', ''src/a.rs'')]"
  by code_simp

theorem opening_reaches_current_schema_witness:
  "case create_schema demo_env legacy_file of (f', r) \<Rightarrow> r = Inr () \<and> shaped_at 15 f' \<and>
     set (mf_tags f') = {(''u1'', ''big-idea''), (''u1'', ''x'')} \<and> set (file_keys f') = {(''u1'', ''src/a.rs'')}"
proof -
  have "openable legacy_file" using legacy_shape by (simp add: openable_def)
  moreover have "user_version legacy_file < 12" by (simp add: legacy_file_def)
  ultimately obtain f' where "create_schema demo_env legacy_file = (f', Inr ())" "shaped_at 15 f'"
    "carried_over demo_env legacy_file f'"
    using opening_reaches_current_schema [of legacy_file demo_env] by auto
  then show ?thesis using legacy_carried by (auto simp: carried_over_def)
qed

text \<open>An opener that crashes after its first step, and the next one.\<close>

definition crashed_once :: memory_file where
  "crashed_once = snd (opener_run 1 (new_opener (MEMORY_MIGRATIONS demo_env) 15 11) legacy_file)"

definition recovered :: memory_file where
  "recovered = snd (opener_run 5 (new_opener (MEMORY_MIGRATIONS demo_env) 15 12) crashed_once)"

lemma crash_versions: "user_version legacy_file = 11" "user_version crashed_once = 12"
  "user_version recovered = 15"
  by code_simp+

lemma crash_reachable:
  "\<exists>ps. reach (\<lambda>s. s = (legacy_file, [])) (opening_step (MEMORY_MIGRATIONS demo_env)) (recovered, ps)"
proof -
  let ?M = "MEMORY_MIGRATIONS demo_env"
  let ?R = "reach (\<lambda>s. s = (legacy_file, [])) (opening_step ?M)"
  have start: "?R (f, []) \<Longrightarrow> ?R (f, [new_opener ?M 15 (user_version f)])" for f
    by (rule reach_opener_starts)
  have "?R (legacy_file, [])" by (rule reach_init) (rule refl)
  from start [OF this] have r: "?R (legacy_file, [new_opener ?M 15 11])" by (simp add: crash_versions)
  obtain p where "opener_run 1 (new_opener ?M 15 11) legacy_file = (p, crashed_once)"
    by (metis crashed_once_def prod.collapse)
  from reach_turns [OF r this] have "?R (crashed_once, [p])" .
  from reach_opener_vanishes [OF this] have "?R (crashed_once, [])" .
  from start [OF this] have r: "?R (crashed_once, [new_opener ?M 15 12])" by (simp add: crash_versions)
  obtain q where "opener_run 5 (new_opener ?M 15 12) crashed_once = (q, recovered)"
    by (metis recovered_def prod.collapse)
  from reach_turns [OF r this] show ?thesis by blast
qed

theorem openers_refine_one_pass_witness:
  "one_pass 11 15 (MEMORY_MIGRATIONS demo_env) legacy_file = (recovered, Inr ())"
proof -
  from crash_reachable obtain ps where
    "reach (\<lambda>s. s = (legacy_file, [])) (opening_step (MEMORY_MIGRATIONS demo_env)) (recovered, ps)" by blast
  from openers_refine_one_pass [OF migrations_sorted this] show ?thesis by (simp add: crash_versions)
qed

end
