(* ===== verification/Dump_Reader.thy ===== *)
theory Dump_Reader
  imports Identity "HOL-Library.AList" "HOL-Library.Word"
begin

text \<open>
  Reading a portable dump (\<open>core/src/dump/reader.rs\<close>, \<open>dump/record.rs\<close>): the checks that refuse
  a file that is not whole, the deduplication of relationships, the resolution of their endpoints
  and the folding of entries that share a convergence key. Decoding the JSON of a line is serde's
  and a parameter (\<open>dump_codec\<close>), and so is SHA-256; the bytes of the file are a \<open>string\<close>.
\<close>

section \<open>Records\<close>

record dump_header =
  dh_format :: string
  dh_format_version :: "32 word"
  dh_generated_at :: int
  dh_generator :: string

record dump_counts =
  dc_entity :: "(string \<times> nat) list"
  dc_relationship :: "(string \<times> nat) list"

record dump_footer =
  df_counts :: dump_counts
  df_digest :: string

record memory_entry =
  me_ref :: string
  me_uuid :: "string option"
  me_kind :: string
  me_title :: string
  me_body :: string
  me_tags :: "string list"
  me_linked_files :: "string list"
  me_created_at :: int
  me_status :: "string option"
  me_source_ref :: "string option"
  me_valid_at :: "int option"
  me_invalid_at :: "int option"
  me_entity_id :: "string option"
  me_remote_id :: "string option"
  me_namespace :: "string option"
  me_origin_actor_kind :: "string option"
  me_origin_tool :: "string option"
  me_origin_model :: "string option"

record dump_project =
  dp_ref :: string
  dp_root_path :: string
  dp_registered_at :: "int option"

record command_usage =
  cu_ref :: string
  cu_command :: string
  cu_at :: int

datatype dump_entity =
    Memory_Entry memory_entry | Dump_Project dump_project | Command_Usage command_usage

datatype relationship_kind = Supersedes | Relates_To | Contradicts | Depends_On

record relationship =
  rl_kind :: relationship_kind
  rl_from :: string
  rl_to :: string
  rl_created_at :: "int option"

datatype dump_record =
    Entity_Record dump_entity | Relationship_Record relationship | Header_Record | Footer_Record

fun dump_ref :: "dump_entity \<Rightarrow> string" where
  "dump_ref (Memory_Entry e) = me_ref e"
| "dump_ref (Dump_Project p) = dp_ref p"
| "dump_ref (Command_Usage u) = cu_ref u"

fun type_name :: "dump_entity \<Rightarrow> string" where
  "type_name (Memory_Entry e) = ''memory_entry''"
| "type_name (Dump_Project p) = ''project''"
| "type_name (Command_Usage u) = ''command_usage''"

fun relationship_kind_str :: "relationship_kind \<Rightarrow> string" where
  "relationship_kind_str Supersedes = ''supersedes''"
| "relationship_kind_str Relates_To = ''relates_to''"
| "relationship_kind_str Contradicts = ''contradicts''"
| "relationship_kind_str Depends_On = ''depends_on''"

definition DUMP_FORMAT :: string where
  "DUMP_FORMAT = ''portable-dump''"

definition DUMP_FORMAT_VERSION :: "32 word" where
  "DUMP_FORMAT_VERSION = 1"

record dump_codec =
  decode_header :: "string \<Rightarrow> dump_header option"
  decode_footer :: "string \<Rightarrow> dump_footer option"
  decode_record :: "string \<Rightarrow> dump_record option"

datatype dump_error =
    Empty_Dump | No_Final_Newline | No_Header_And_Footer
  | Not_A_Header | Other_Format string | Other_Format_Version "32 word" | Not_A_Footer
  | Bad_Record nat | Second_Header nat | Early_Footer nat
  | Counts_Differ | Digest_Differs | Repeated_Reference | Blank_Identity string
  | Repeated_Uuid string | Repeated_Remote_Id string | Dangling_Endpoint string

section \<open>Lines and integrity\<close>

definition split_lines :: "string \<Rightarrow> dump_error + string list" where
  "split_lines bytes = (if bytes = [] then Inl Empty_Dump
     else case strip_suffix [CHR 0x0A] bytes of
       None \<Rightarrow> Inl No_Final_Newline
     | Some body \<Rightarrow> Inr (split_on (CHR 0x0A) body))"

text \<open>The body: line \<open>n\<close> of the file is the first of the list.\<close>

fun read_body ::
    "dump_codec \<Rightarrow> nat \<Rightarrow> string list \<Rightarrow> dump_entity list \<Rightarrow> relationship list \<Rightarrow>
     dump_error + dump_entity list \<times> relationship list" where
  "read_body D n [] es rs = Inr (es, rs)"
| "read_body D n (l # ls) es rs = (case decode_record D l of
     None \<Rightarrow> Inl (Bad_Record n)
   | Some (Entity_Record e) \<Rightarrow> read_body D (Suc n) ls (es @ [e]) rs
   | Some (Relationship_Record r) \<Rightarrow> read_body D (Suc n) ls es (rs @ [r])
   | Some Header_Record \<Rightarrow> Inl (Second_Header n)
   | Some Footer_Record \<Rightarrow> Inl (Early_Footer n))"

text \<open>A \<open>BTreeMap<String, u64>\<close> is the list of its entries in the order of the keys.\<close>

fun count_up :: "string \<Rightarrow> (string \<times> nat) list \<Rightarrow> (string \<times> nat) list" where
  "count_up k [] = [(k, 1)]"
| "count_up k ((k', n) # m) =
     (if k = k' then (k', Suc n) # m else if k < k' then (k, 1) # (k', n) # m
      else (k', n) # count_up k m)"

definition verify_counts :: "dump_counts \<Rightarrow> dump_entity list \<Rightarrow> relationship list \<Rightarrow> dump_error + unit" where
  "verify_counts declared es rs =
     (let found = \<lparr>dc_entity = fold (\<lambda>e. count_up (type_name e)) es [],
                   dc_relationship = fold (\<lambda>r. count_up (relationship_kind_str (rl_kind r))) rs []\<rparr> in
      if found \<noteq> declared then Inl Counts_Differ else Inr ())"

definition fold_digest :: "env \<Rightarrow> string list \<Rightarrow> string" where
  "fold_digest E ls = ''sha256:'' @ sha256_hex E (concat (map (sha256_hex E) ls))"

definition verify_digest :: "env \<Rightarrow> string \<Rightarrow> string list \<Rightarrow> dump_error + unit" where
  "verify_digest E declared ls = (if fold_digest E ls \<noteq> declared then Inl Digest_Differs else Inr ())"

section \<open>References and identities\<close>

text \<open>The map and the set of the keys inserted twice.\<close>

fun index_refs :: "nat \<Rightarrow> dump_entity list \<Rightarrow> (string \<times> nat) list \<Rightarrow> (string \<times> nat) list \<times> string set" where
  "index_refs i [] m = (m, {})"
| "index_refs i (e # es) m = (case index_refs (Suc i) es (AList.update (dump_ref e) i m) of
     (m', dups) \<Rightarrow> (m', if map_of m (dump_ref e) \<noteq> None then insert (dump_ref e) dups else dups))"

definition index_by_ref :: "dump_entity list \<Rightarrow> dump_error + (string \<times> nat) list" where
  "index_by_ref es = (case index_refs 0 es [] of
     (m, dups) \<Rightarrow> if dups \<noteq> {} then Inl Repeated_Reference else Inr m)"

definition is_blank :: "string option \<Rightarrow> bool" where
  "is_blank v = (case v of None \<Rightarrow> False | Some t \<Rightarrow> trim t = [])"

fun refuse_blank_identities :: "dump_entity list \<Rightarrow> dump_error + unit" where
  "refuse_blank_identities [] = Inr ()"
| "refuse_blank_identities (Memory_Entry m # es) =
     (if is_blank (me_uuid m) then Inl (Blank_Identity ''uuid'')
      else if is_blank (me_remote_id m) then Inl (Blank_Identity ''remote_id'')
      else if is_blank (me_entity_id m) then Inl (Blank_Identity ''entity_id'')
      else refuse_blank_identities es)"
| "refuse_blank_identities (_ # es) = refuse_blank_identities es"

fun refuse_repeated :: "string list \<Rightarrow> string list \<Rightarrow> dump_entity list \<Rightarrow> dump_error + unit" where
  "refuse_repeated uuids remotes [] = Inr ()"
| "refuse_repeated uuids remotes (Memory_Entry m # es) =
     (case me_uuid m of
        Some u \<Rightarrow> if u \<in> set uuids then Inl (Repeated_Uuid u)
          else (case me_remote_id m of
            Some r \<Rightarrow> if r \<in> set remotes then Inl (Repeated_Remote_Id r)
                      else refuse_repeated (u # uuids) (r # remotes) es
          | None \<Rightarrow> refuse_repeated (u # uuids) remotes es)
      | None \<Rightarrow> (case me_remote_id m of
            Some r \<Rightarrow> if r \<in> set remotes then Inl (Repeated_Remote_Id r)
                      else refuse_repeated uuids (r # remotes) es
          | None \<Rightarrow> refuse_repeated uuids remotes es))"
| "refuse_repeated uuids remotes (_ # es) = refuse_repeated uuids remotes es"

definition refuse_repeated_identities :: "dump_entity list \<Rightarrow> dump_error + unit" where
  "refuse_repeated_identities es = refuse_repeated [] [] es"

section \<open>Relationships\<close>

text \<open>
  Both passes over the relationships keep the first of a key and fill a missing date of it from
  a later one; \<open>seen\<close> is the position of each key in \<open>out\<close>.
\<close>

fun dedupe_loop ::
    "relationship list \<Rightarrow> ((relationship_kind \<times> string \<times> string) \<times> nat) list \<Rightarrow> relationship list \<Rightarrow>
     relationship list" where
  "dedupe_loop [] seen out = out"
| "dedupe_loop (r # rs) seen out = (case map_of seen (rl_kind r, rl_from r, rl_to r) of
     Some at \<Rightarrow> dedupe_loop rs seen (if rl_created_at (out ! at) = None
       then out[at := (out ! at)\<lparr>rl_created_at := rl_created_at r\<rparr>] else out)
   | None \<Rightarrow> dedupe_loop rs (((rl_kind r, rl_from r, rl_to r), length out) # seen) (out @ [r]))"

definition dedupe_relationships :: "relationship list \<Rightarrow> relationship list" where
  "dedupe_relationships rs = dedupe_loop rs [] []"

record resolved_relationship =
  rr_kind :: relationship_kind
  rr_from :: nat
  rr_to :: nat
  rr_created_at :: "int option"

fun resolve_relationships ::
    "(string \<times> nat) list \<Rightarrow> relationship list \<Rightarrow> dump_error + resolved_relationship list" where
  "resolve_relationships m [] = Inr []"
| "resolve_relationships m (r # rs) = (case map_of m (rl_from r) of
     None \<Rightarrow> Inl (Dangling_Endpoint (rl_from r))
   | Some f \<Rightarrow> (case map_of m (rl_to r) of
       None \<Rightarrow> Inl (Dangling_Endpoint (rl_to r))
     | Some t \<Rightarrow> and_then (resolve_relationships m rs) (\<lambda>out.
         Inr (\<lparr>rr_kind = rl_kind r, rr_from = f, rr_to = t, rr_created_at = rl_created_at r\<rparr> # out))))"

fun redirect_loop ::
    "nat list \<Rightarrow> resolved_relationship list \<Rightarrow> ((relationship_kind \<times> nat \<times> nat) \<times> nat) list \<Rightarrow>
     resolved_relationship list \<Rightarrow> resolved_relationship list" where
  "redirect_loop remap [] seen out = out"
| "redirect_loop remap (r # rs) seen out =
     (let f = remap ! rr_from r; t = remap ! rr_to r in
      if f = t then redirect_loop remap rs seen out
      else case map_of seen (rr_kind r, f, t) of
        Some at \<Rightarrow> redirect_loop remap rs seen (if rr_created_at (out ! at) = None
          then out[at := (out ! at)\<lparr>rr_created_at := rr_created_at r\<rparr>] else out)
      | None \<Rightarrow> redirect_loop remap rs (((rr_kind r, f, t), length out) # seen)
          (out @ [\<lparr>rr_kind = rr_kind r, rr_from = f, rr_to = t, rr_created_at = rr_created_at r\<rparr>]))"

definition redirect_to_survivors :: "resolved_relationship list \<Rightarrow> nat list \<Rightarrow> resolved_relationship list" where
  "redirect_to_survivors rs remap = redirect_loop remap rs [] []"

section \<open>Entries that share a convergence key\<close>

text \<open>\<open>groups\<close>: the positions of the memory entries by key, a map ordered by the key.\<close>

fun btree_push :: "string \<Rightarrow> nat \<Rightarrow> (string \<times> nat list) list \<Rightarrow> (string \<times> nat list) list" where
  "btree_push k i [] = [(k, [i])]"
| "btree_push k i ((k', is) # m) =
     (if k = k' then (k', is @ [i]) # m else if k < k' then (k, [i]) # (k', is) # m
      else (k', is) # btree_push k i m)"

definition dump_key :: "env \<Rightarrow> memory_entry \<Rightarrow> string" where
  "dump_key E m = (case me_entity_id m of Some k \<Rightarrow> k
     | None \<Rightarrow> entity_id E (me_kind m) (me_title m) (me_body m))"

definition group_step :: "env \<Rightarrow> dump_entity list \<Rightarrow> nat \<Rightarrow> (string \<times> nat list) list \<Rightarrow> (string \<times> nat list) list" where
  "group_step E es i m = (case es ! i of Memory_Entry e \<Rightarrow> btree_push (dump_key E e) i m | _ \<Rightarrow> m)"

definition key_groups :: "env \<Rightarrow> dump_entity list \<Rightarrow> (string \<times> nat list) list" where
  "key_groups E es = fold (group_step E es) [0..<length es] []"

fun age_key :: "dump_entity \<Rightarrow> int \<times> string" where
  "age_key (Memory_Entry m) = (me_created_at m, me_ref m)"
| "age_key _ = (0, [])"

text \<open>Of a group with several members the oldest survives, ties broken by the reference.\<close>

definition folds_of :: "env \<Rightarrow> dump_entity list \<Rightarrow> (nat \<times> nat list) list" where
  "folds_of E es = map (\<lambda>is. (hd is, tl is)) (map (sort_key (\<lambda>i. age_key (es ! i)))
     (filter (\<lambda>is. length is \<noteq> 1) (map snd (key_groups E es))))"

definition push_new :: "'a list \<Rightarrow> 'a list \<Rightarrow> 'a list" where
  "push_new kept extra = fold (\<lambda>t ts. if t \<in> set ts then ts else ts @ [t]) extra kept"

fun tags_at :: "dump_entity \<Rightarrow> string list" where
  "tags_at (Memory_Entry m) = me_tags m"
| "tags_at _ = []"

fun files_at :: "dump_entity \<Rightarrow> string list" where
  "files_at (Memory_Entry m) = me_linked_files m"
| "files_at _ = []"

fun inherit_from :: "string list \<Rightarrow> string list \<Rightarrow> dump_entity \<Rightarrow> dump_entity" where
  "inherit_from tags files (Memory_Entry m) = Memory_Entry
     (m\<lparr>me_tags := push_new (me_tags m) tags, me_linked_files := push_new (me_linked_files m) files\<rparr>)"
| "inherit_from tags files e = e"

definition inherit_step :: "nat \<times> nat list \<Rightarrow> dump_entity list \<Rightarrow> dump_entity list" where
  "inherit_step p es = (case p of (survivor, losers) \<Rightarrow>
     es[survivor := inherit_from (concat (map (\<lambda>i. tags_at (es ! i)) losers))
       (concat (map (\<lambda>i. files_at (es ! i)) losers)) (es ! survivor)])"

text \<open>What is kept, where each kept entity ends up, and \<open>remap\<close> before the folded ones.\<close>

definition USIZE_MAX :: nat where
  "USIZE_MAX = 2 ^ 64 - 1"

fun keep_loop ::
    "nat set \<Rightarrow> nat \<Rightarrow> dump_entity list \<Rightarrow> dump_entity list \<Rightarrow> nat list \<Rightarrow> dump_entity list \<times> nat list" where
  "keep_loop folded i [] kept remap = (kept, remap)"
| "keep_loop folded i (e # es) kept remap =
     (if i \<in> folded then keep_loop folded (Suc i) es kept remap
      else keep_loop folded (Suc i) es (kept @ [e]) (remap[i := length kept]))"

record collapsed =
  cl_entities :: "dump_entity list"
  cl_remap :: "nat list"
  cl_merged :: nat

definition collapse_by_convergence_key :: "env \<Rightarrow> dump_entity list \<Rightarrow> collapsed" where
  "collapse_by_convergence_key E es =
     (let folds = folds_of E es;
          folded = concat (map (\<lambda>(survivor, losers). map (\<lambda>l. (l, survivor)) losers) folds);
          es' = fold inherit_step (sort_key fst folds) es;
          (kept, remap) = keep_loop (set (map fst folded)) 0 es' [] (replicate (length es) USIZE_MAX) in
      \<lparr>cl_entities = kept,
       cl_remap = fold (\<lambda>(l, survivor) r. r[l := r ! survivor]) folded remap,
       cl_merged = length folded\<rparr>)"

section \<open>Reading\<close>

record dump =
  dump_entities :: "dump_entity list"
  dump_relationships :: "resolved_relationship list"
  merged_memory_entries :: nat

definition read_dump :: "env \<Rightarrow> dump_codec \<Rightarrow> string \<Rightarrow> dump_error + dump" where
  "read_dump E D bytes =
     and_then (split_lines bytes) (\<lambda>lines.
     if length lines < 2 then Inl No_Header_And_Footer
     else case decode_header D (hd lines) of
       None \<Rightarrow> Inl Not_A_Header
     | Some h \<Rightarrow>
         if dh_format h \<noteq> DUMP_FORMAT then Inl (Other_Format (dh_format h))
         else if dh_format_version h \<noteq> DUMP_FORMAT_VERSION then Inl (Other_Format_Version (dh_format_version h))
         else case decode_footer D (last lines) of
           None \<Rightarrow> Inl Not_A_Footer
         | Some footer \<Rightarrow>
             and_then (read_body D 2 (butlast (tl lines)) [] []) (\<lambda>(es, rs).
             and_then (verify_counts (df_counts footer) es rs) (\<lambda>_.
             and_then (verify_digest E (df_digest footer) (butlast lines)) (\<lambda>_.
             and_then (index_by_ref es) (\<lambda>by_ref.
             and_then (refuse_blank_identities es) (\<lambda>_.
             and_then (refuse_repeated_identities es) (\<lambda>_.
             and_then (resolve_relationships by_ref (dedupe_relationships rs)) (\<lambda>rels.
             let c = collapse_by_convergence_key E es in
             Inr \<lparr>dump_entities = cl_entities c, dump_relationships = redirect_to_survivors rels (cl_remap c),
                  merged_memory_entries = cl_merged c\<rparr>))))))))"

end
