(* ===== verification/Dump_Collapse.thy ===== *)
theory Dump_Collapse
  imports Dump_Reader
begin

text \<open>
  What reading a dump guarantees: the entries that share a convergence key are folded into the
  oldest of them, nothing else is lost, and every relationship of the file ends at the entities
  that stand for the ones it named.
\<close>

section \<open>Groups\<close>

definition members :: "env \<Rightarrow> dump_entity list \<Rightarrow> string \<Rightarrow> nat list \<Rightarrow> nat list" where
  "members E es k xs = filter (\<lambda>i. case es ! i of Memory_Entry m \<Rightarrow> dump_key E m = k | _ \<Rightarrow> False) xs"

lemma members_snoc:
  "members E es k (xs @ [i]) = members E es k xs @
     (case es ! i of Memory_Entry m \<Rightarrow> if dump_key E m = k then [i] else [] | _ \<Rightarrow> [])"
  by (simp add: members_def split: dump_entity.split)

lemma btree_push_keys: "fst ` set (btree_push k i m) = insert k (fst ` set m)"
  by (induction k i m rule: btree_push.induct) auto

lemma btree_push_sorted: "sorted_wrt (<) (map fst m) \<Longrightarrow> sorted_wrt (<) (map fst (btree_push k i m))"
proof (induction k i m rule: btree_push.induct)
  case (2 k i k' "is" m)
  have "k' < x" if "x \<in> set (map fst (btree_push k i m))" "\<not> k < k'" "k \<noteq> k'" for x
  proof -
    have "x = k \<or> x \<in> fst ` set m" using that(1) btree_push_keys [of k i m] by auto
    then show ?thesis using that 2(2) by (auto simp: not_less)
  qed
  with 2 show ?case by (auto intro: less_trans)
qed simp

lemma btree_push_map:
  "sorted_wrt (<) (map fst m) \<Longrightarrow> map_of (btree_push k i m) =
     (map_of m)(k \<mapsto> (case map_of m k of None \<Rightarrow> [] | Some l \<Rightarrow> l) @ [i])"
proof (induction k i m rule: btree_push.induct)
  case (2 k i k' "is" m)
  show ?case
  proof (cases "k < k'")
    case True
    have "map_of m k = None"
      using 2(2) True by (auto simp: map_of_eq_None_iff dest: less_asym intro: less_trans)
    then show ?thesis using True by (auto simp: fun_eq_iff)
  qed (use 2 in \<open>auto simp: fun_eq_iff\<close>)
qed auto

lemma key_groups_inv:
  "sorted_wrt (<) (map fst (fold (group_step E es) xs [])) \<and>
   map_of (fold (group_step E es) xs []) k =
     (if members E es k xs = [] then None else Some (members E es k xs))"
proof (induction xs arbitrary: k rule: rev_induct)
  case Nil
  show ?case by (simp add: members_def)
next
  case (snoc i xs)
  then show ?case
    by (auto simp: group_step_def members_snoc btree_push_sorted btree_push_map split: dump_entity.split option.split)
qed

lemma key_groups_member:
  "(k, is) \<in> set (key_groups E es) \<longleftrightarrow> is = members E es k [0..<length es] \<and> is \<noteq> []"
proof -
  note inv = key_groups_inv [of E es "[0..<length es]" k, folded key_groups_def]
  then have "distinct (map fst (key_groups E es))" by (simp add: strict_sorted_iff)
  then have "(k, is) \<in> set (key_groups E es) \<longleftrightarrow> map_of (key_groups E es) k = Some is" by simp
  then show ?thesis using inv by auto
qed

section \<open>Survivors\<close>

definition group_of :: "env \<Rightarrow> dump_entity list \<Rightarrow> nat \<Rightarrow> nat list" where
  "group_of E es i = (case es ! i of
     Memory_Entry m \<Rightarrow> sort_key (\<lambda>i. age_key (es ! i)) (members E es (dump_key E m) [0..<length es])
   | _ \<Rightarrow> [i])"

definition survivor_of :: "env \<Rightarrow> dump_entity list \<Rightarrow> nat \<Rightarrow> nat" where
  "survivor_of E es i = hd (group_of E es i)"

definition folded_pairs :: "env \<Rightarrow> dump_entity list \<Rightarrow> (nat \<times> nat) list" where
  "folded_pairs E es = concat (map (\<lambda>(survivor, losers). map (\<lambda>l. (l, survivor)) losers) (folds_of E es))"

lemma group_of_distinct: "distinct (group_of E es i)"
  by (auto simp: group_of_def members_def split: dump_entity.split)

lemma group_of_member: "i < length es \<Longrightarrow> i \<in> set (group_of E es i)"
  by (auto simp: group_of_def members_def split: dump_entity.split)

lemma group_of_same:
  assumes "i < length es" "j \<in> set (group_of E es i)"
  shows "j < length es \<and> group_of E es j = group_of E es i"
  using assms by (auto simp: group_of_def members_def split: dump_entity.splits)

lemma survivor_in_group: "i < length es \<Longrightarrow> survivor_of E es i \<in> set (group_of E es i)"
  unfolding survivor_of_def using group_of_member by (metis hd_in_set list.set_cases list.simps(3))

lemma survivor_bound: "i < length es \<Longrightarrow> survivor_of E es i < length es"
  using group_of_same survivor_in_group by blast

lemma survivor_idem: "i < length es \<Longrightarrow> survivor_of E es (survivor_of E es i) = survivor_of E es i"
  using group_of_same [OF _ survivor_in_group] by (simp add: survivor_of_def)

lemma survivor_oldest:
  assumes "i < length es" "j \<in> set (group_of E es i)"
  shows "age_key (es ! survivor_of E es i) \<le> age_key (es ! j)"
proof (cases "es ! i")
  case (Memory_Entry m)
  let ?f = "\<lambda>i. age_key (es ! i)"
  let ?g = "sort_key ?f (members E es (dump_key E m) [0..<length es])"
  have g: "group_of E es i = ?g" using Memory_Entry by (simp add: group_of_def)
  have "sorted (map ?f ?g)" by simp
  moreover obtain s ls where "?g = s # ls" using assms(2) g by (cases ?g) auto
  ultimately show ?thesis using assms(2) g by (auto simp: survivor_of_def)
qed (use assms in \<open>auto simp: survivor_of_def group_of_def\<close>)

lemma folds_of_member:
  "(s, ls) \<in> set (folds_of E es) \<longleftrightarrow> (\<exists>i < length es. group_of E es i = s # ls \<and> ls \<noteq> [])"
proof -
  let ?f = "\<lambda>i. age_key (es ! i)"
  have "(s, ls) \<in> set (folds_of E es) \<longleftrightarrow> (\<exists>k. let is = members E es k [0..<length es] in
      is \<noteq> [] \<and> length is \<noteq> 1 \<and> sort_key ?f is = s # ls)"
  proof -
    have "(s, ls) \<in> set (folds_of E es) \<longleftrightarrow> (\<exists>k is. (k, is) \<in> set (key_groups E es) \<and> length is \<noteq> 1 \<and>
        s = hd (sort_key ?f is) \<and> ls = tl (sort_key ?f is))"
      by (force simp: folds_of_def image_iff)
    moreover have "s = hd (sort_key ?f is) \<and> ls = tl (sort_key ?f is) \<longleftrightarrow> sort_key ?f is = s # ls" if "is \<noteq> []" for "is"
      using that by (metis length_0_conv length_sort list.collapse list.sel(1,3))
    ultimately show ?thesis by (auto simp: key_groups_member Let_def)
  qed
  also have "\<dots> \<longleftrightarrow> (\<exists>i < length es. group_of E es i = s # ls \<and> ls \<noteq> [])"
  proof
    assume "\<exists>k. let is = members E es k [0..<length es] in is \<noteq> [] \<and> length is \<noteq> 1 \<and> sort_key ?f is = s # ls"
    then obtain k where k: "length (members E es k [0..<length es]) \<noteq> 1"
      "sort_key ?f (members E es k [0..<length es]) = s # ls" by (auto simp: Let_def)
    then have "s \<in> set (members E es k [0..<length es])" by (metis list.set_intros(1) set_sort)
    then have s: "s < length es" "\<exists>m. es ! s = Memory_Entry m \<and> dump_key E m = k"
      by (auto simp: members_def split: dump_entity.splits)
    have "ls \<noteq> []" using k by (metis One_nat_def length_Cons length_sort list.size(3))
    with s k show "\<exists>i < length es. group_of E es i = s # ls \<and> ls \<noteq> []" by (auto simp: group_of_def)
  next
    assume "\<exists>i < length es. group_of E es i = s # ls \<and> ls \<noteq> []"
    then obtain i where i: "i < length es" "group_of E es i = s # ls" "ls \<noteq> []" by blast
    then obtain m where m: "es ! i = Memory_Entry m" by (auto simp: group_of_def split: dump_entity.splits)
    let ?is = "members E es (dump_key E m) [0..<length es]"
    have g: "sort_key ?f ?is = s # ls" using i m by (simp add: group_of_def)
    then have "length ?is = Suc (length ls)" by (metis length_Cons length_sort)
    then show "\<exists>k. let is = members E es k [0..<length es] in is \<noteq> [] \<and> length is \<noteq> 1 \<and> sort_key ?f is = s # ls"
      using g i(3) by (intro exI [of _ "dump_key E m"]) (auto simp: Let_def)
  qed
  finally show ?thesis .
qed

text \<open>A loser is folded into the survivor of its group, and nothing else is folded.\<close>

lemma folded_pairs_member:
  "(l, s) \<in> set (folded_pairs E es) \<longleftrightarrow> l < length es \<and> s = survivor_of E es l \<and> s \<noteq> l"
proof -
  have "(l, s) \<in> set (folded_pairs E es) \<longleftrightarrow> (\<exists>ls. (s, ls) \<in> set (folds_of E es) \<and> l \<in> set ls)"
    by (force simp: folded_pairs_def)
  also have "\<dots> \<longleftrightarrow> (\<exists>ls. \<exists>i < length es. group_of E es i = s # ls \<and> l \<in> set ls)"
    unfolding folds_of_member by (metis empty_iff list.set(1))
  also have "\<dots> \<longleftrightarrow> l < length es \<and> s = survivor_of E es l \<and> s \<noteq> l"
  proof
    assume "\<exists>ls. \<exists>i < length es. group_of E es i = s # ls \<and> l \<in> set ls"
    then obtain ls i where g: "i < length es" "group_of E es i = s # ls" "l \<in> set ls" by blast
    then have "l < length es" "group_of E es l = s # ls" using group_of_same [of i es l E] by auto
    moreover have "l \<noteq> s" using group_of_distinct [of E es i] g by auto
    ultimately show "l < length es \<and> s = survivor_of E es l \<and> s \<noteq> l" by (simp add: survivor_of_def)
  next
    assume l: "l < length es \<and> s = survivor_of E es l \<and> s \<noteq> l"
    then have "l \<in> set (group_of E es l)" by (simp add: group_of_member)
    with l have "group_of E es l = s # tl (group_of E es l) \<and> l \<in> set (tl (group_of E es l))"
      by (cases "group_of E es l") (auto simp: survivor_of_def)
    with l show "\<exists>ls. \<exists>i < length es. group_of E es i = s # ls \<and> l \<in> set ls" by blast
  qed
  finally show ?thesis .
qed

lemma set_tl: "x \<in> set (tl l) \<Longrightarrow> x \<in> set l"
  by (cases l) auto

lemma member_key:
  "x \<in> set (members E es k xs) \<Longrightarrow> \<exists>m. es ! x = Memory_Entry m \<and> dump_key E m = k"
  by (auto simp: members_def split: dump_entity.splits)

lemma distinct_concat_tl: "distinct (concat ls) \<Longrightarrow> distinct (concat (map tl ls))"
proof (induction ls)
  case (Cons l ls)
  have "set (concat (map tl ls)) \<subseteq> set (concat ls)" by (auto dest: set_tl)
  then show ?case using Cons by (auto simp: distinct_tl dest: set_tl)
qed simp

lemma folded_pairs_distinct: "distinct (map fst (folded_pairs E es))"
proof -
  let ?f = "\<lambda>i. age_key (es ! i)"
  define L where "L = map (sort_key ?f) (filter (\<lambda>is. length is \<noteq> 1) (map snd (key_groups E es)))"
  have key: "\<exists>k. ys = sort_key ?f (members E es k [0..<length es]) \<and>
      (\<forall>x \<in> set ys. \<exists>m. es ! x = Memory_Entry m \<and> dump_key E m = k)" if "ys \<in> set L" for ys
  proof -
    from that obtain k "is" where "(k, is) \<in> set (key_groups E es)" "ys = sort_key ?f is" by (auto simp: L_def)
    then show ?thesis by (auto simp: key_groups_member members_def split: dump_entity.splits)
  qed
  have dk: "distinct (map fst (key_groups E es))"
    using key_groups_inv [of E es "[0..<length es]", folded key_groups_def] by (simp add: strict_sorted_iff)
  have inj: "inj_on (\<lambda>p. sort_key ?f (snd p)) (set (key_groups E es))"
  proof (rule inj_onI)
    fix p q assume pq: "p \<in> set (key_groups E es)" "q \<in> set (key_groups E es)"
      "sort_key ?f (snd p) = sort_key ?f (snd q)"
    then have "set (snd p) = set (snd q)" by (metis set_sort)
    moreover have "snd p = members E es (fst p) [0..<length es] \<and> snd p \<noteq> []"
      "snd q = members E es (fst q) [0..<length es] \<and> snd q \<noteq> []"
      using pq key_groups_member by (metis prod.collapse)+
    moreover obtain x where "x \<in> set (snd p)" using calculation(2) by (meson ex_in_conv set_empty)
    ultimately have "x \<in> set (members E es (fst p) [0..<length es])" "x \<in> set (members E es (fst q) [0..<length es])"
      by simp_all
    from this [THEN member_key] have "fst p = fst q" by auto
    then show "p = q" using pq(1,2) dk by (metis key_groups_member prod.collapse)
  qed
  have "distinct (map (\<lambda>p. sort_key ?f (snd p)) (filter (\<lambda>p. length (snd p) \<noteq> 1) (key_groups E es)))"
    using dk inj by (auto simp: distinct_map intro: inj_on_subset)
  moreover have "L = map (\<lambda>p. sort_key ?f (snd p)) (filter (\<lambda>p. length (snd p) \<noteq> 1) (key_groups E es))"
    unfolding L_def by (simp add: filter_map comp_def)
  ultimately have dL: "distinct L" by simp
  have "distinct (concat L)"
  proof (rule distinct_concat [OF dL])
    fix ys assume "ys \<in> set L"
    from key [OF this] obtain k where "ys = sort_key ?f (members E es k [0..<length es])" by blast
    then show "distinct ys" by (simp add: members_def)
  next
    fix ys zs assume y: "ys \<in> set L" "zs \<in> set L" "ys \<noteq> zs"
    obtain k k' where K: "ys = sort_key ?f (members E es k [0..<length es])"
      "\<forall>x \<in> set ys. \<exists>m. es ! x = Memory_Entry m \<and> dump_key E m = k"
      "zs = sort_key ?f (members E es k' [0..<length es])"
      "\<forall>x \<in> set zs. \<exists>m. es ! x = Memory_Entry m \<and> dump_key E m = k'"
      using key y(1,2) by blast
    with y(3) have "k \<noteq> k'" by blast
    then show "set ys \<inter> set zs = {}" using K(2,4) by force
  qed
  from distinct_concat_tl [OF this] show ?thesis
    by (simp add: folded_pairs_def folds_of_def L_def map_concat comp_def case_prod_beta)
qed

section \<open>Inheriting\<close>

lemma inherit_step_other: "i \<noteq> fst p \<Longrightarrow> inherit_step p es ! i = es ! i"
  by (cases p) (simp add: inherit_step_def)

lemma inherit_steps_length [simp]: "length (fold inherit_step ps es) = length es"
  by (induction ps arbitrary: es) (auto simp: inherit_step_def split: prod.split)

text \<open>No survivor is a loser, so the order of the folds does not matter.\<close>

lemma inherit_steps_nth:
  assumes "distinct (map fst ps)" "\<forall>p \<in> set ps. \<forall>q \<in> set ps. fst p \<notin> set (snd q)" "i < length es"
  shows "fold inherit_step ps es ! i = (case map_of ps i of None \<Rightarrow> es ! i
    | Some losers \<Rightarrow> inherit_from (concat (map (\<lambda>j. tags_at (es ! j)) losers))
        (concat (map (\<lambda>j. files_at (es ! j)) losers)) (es ! i))"
  using assms
proof (induction ps arbitrary: es)
  case (Cons p ps)
  obtain s ls where p: "p = (s, ls)" by (cases p)
  let ?es = "inherit_step p es"
  have IH: "fold inherit_step ps ?es ! i = (case map_of ps i of None \<Rightarrow> ?es ! i
    | Some losers \<Rightarrow> inherit_from (concat (map (\<lambda>j. tags_at (?es ! j)) losers))
        (concat (map (\<lambda>j. files_at (?es ! j)) losers)) (?es ! i))"
  proof (rule Cons.IH)
    show "distinct (map fst ps)" "\<forall>p \<in> set ps. \<forall>q \<in> set ps. fst p \<notin> set (snd q)"
      using Cons.prems by simp_all
    show "i < length ?es" using Cons.prems(3) by (simp add: p inherit_step_def)
  qed
  show ?case
  proof (cases "i = s")
    case True
    then have "map_of ps i = None" using Cons.prems(1) p by (simp add: map_of_eq_None_iff)
    moreover have "?es ! i = inherit_from (concat (map (\<lambda>j. tags_at (es ! j)) ls))
        (concat (map (\<lambda>j. files_at (es ! j)) ls)) (es ! i)"
      using True Cons.prems(3) by (simp add: p inherit_step_def)
    ultimately show ?thesis using IH True by (simp add: p)
  next
    case False
    have "map_of ps i = Some losers \<Longrightarrow> \<forall>j \<in> set losers. ?es ! j = es ! j" for losers
      using Cons.prems(2) p inherit_step_other [of _ p es] by (fastforce dest: map_of_SomeD)
    then show ?thesis using IH False p
      by (auto simp: inherit_step_other split: option.split intro!: arg_cong2 [where f = "\<lambda>a b. inherit_from a b _"]
        arg_cong [where f = concat])
  qed
qed simp

lemma push_new_set: "set (push_new kept extra) = set kept \<union> set extra"
  unfolding push_new_def by (induction extra arbitrary: kept) auto

section \<open>Keeping\<close>

lemma keep_loop_spec:
  assumes "i + length es \<le> length remap"
  shows "\<exists>R. keep_loop F i es kept remap =
      (kept @ map (\<lambda>j. es ! (j - i)) (filter (\<lambda>j. j \<notin> F) [i..<i + length es]), R) \<and>
    length R = length remap \<and>
    (\<forall>j. i \<le> j \<and> j < i + length es \<and> j \<notin> F \<longrightarrow> R ! j = length kept + length (filter (\<lambda>j. j \<notin> F) [i..<j])) \<and>
    (\<forall>j. j < i \<longrightarrow> R ! j = remap ! j)"
  using assms
proof (induction es arbitrary: i kept remap)
  case (Cons e es)
  have up: "[i..<j] = i # [Suc i..<j]" if "i < j" for j using that by (simp add: upt_conv_Cons)
  have nth: "map (\<lambda>j. (e # es) ! (j - i)) (filter (\<lambda>j. j \<notin> F) [Suc i..<Suc i + length es]) =
      map (\<lambda>j. es ! (j - Suc i)) (filter (\<lambda>j. j \<notin> F) [Suc i..<Suc i + length es])"
    by (auto simp: nth_Cons' Suc_diff_Suc)
  show ?case
  proof (cases "i \<in> F")
    case True
    have "Suc i + length es \<le> length remap" using Cons.prems by simp
    from Cons.IH [OF this, of kept] obtain R where R: "keep_loop F (Suc i) es kept remap =
        (kept @ map (\<lambda>j. es ! (j - Suc i)) (filter (\<lambda>j. j \<notin> F) [Suc i..<Suc i + length es]), R)"
      "length R = length remap"
      "\<forall>j. Suc i \<le> j \<and> j < Suc i + length es \<and> j \<notin> F \<longrightarrow> R ! j = length kept + length (filter (\<lambda>j. j \<notin> F) [Suc i..<j])"
      "\<forall>j. j < Suc i \<longrightarrow> R ! j = remap ! j" by blast
    have "\<forall>j. i \<le> j \<and> j < i + length (e # es) \<and> j \<notin> F \<longrightarrow> R ! j = length kept + length (filter (\<lambda>j. j \<notin> F) [i..<j])"
      using R(3) True by (metis Suc_leI add_Suc_shift filter.simps(2) length_Cons order_le_imp_less_or_eq up)
    then show ?thesis using R(1,2,4) True nth by (intro exI [of _ R]) (simp add: up del: upt_Suc)
  next
    case False
    have "Suc i + length es \<le> length (remap[i := length kept])" using Cons.prems by simp
    from Cons.IH [OF this, of "kept @ [e]"] obtain R where R: "keep_loop F (Suc i) es (kept @ [e]) (remap[i := length kept]) =
        ((kept @ [e]) @ map (\<lambda>j. es ! (j - Suc i)) (filter (\<lambda>j. j \<notin> F) [Suc i..<Suc i + length es]), R)"
      "length R = length remap"
      "\<forall>j. Suc i \<le> j \<and> j < Suc i + length es \<and> j \<notin> F \<longrightarrow> R ! j = length (kept @ [e]) + length (filter (\<lambda>j. j \<notin> F) [Suc i..<j])"
      "\<forall>j. j < Suc i \<longrightarrow> R ! j = remap[i := length kept] ! j" by auto
    have "R ! i = length kept" using R(4) Cons.prems by simp
    then have "\<forall>j. i \<le> j \<and> j < i + length (e # es) \<and> j \<notin> F \<longrightarrow> R ! j = length kept + length (filter (\<lambda>j. j \<notin> F) [i..<j])"
    proof (intro allI impI)
      fix j assume j: "i \<le> j \<and> j < i + length (e # es) \<and> j \<notin> F"
      show "R ! j = length kept + length (filter (\<lambda>j. j \<notin> F) [i..<j])"
      proof (cases "j = i")
        case False
        with j have "Suc i \<le> j \<and> j < Suc i + length es \<and> j \<notin> F" "i < j" by auto
        with R(3) show ?thesis using \<open>i \<notin> F\<close> by (simp add: up)
      qed (use \<open>R ! i = length kept\<close> in simp)
    qed
    then show ?thesis using R(1,2,4) False nth by (intro exI [of _ R]) (simp add: up del: upt_Suc)
  qed
qed simp

lemma remap_losers:
  assumes "distinct (map fst ps)" "\<forall>p \<in> set ps. snd p \<notin> fst ` set ps" "\<forall>p \<in> set ps. fst p < length r"
  shows "\<forall>i < length r. fold (\<lambda>(l, s) r. r[l := r ! s]) ps r ! i =
    (case map_of ps i of None \<Rightarrow> r ! i | Some s \<Rightarrow> r ! s)"
  using assms
proof (induction ps arbitrary: r)
  case (Cons p ps)
  obtain l s where p: "p = (l, s)" by (cases p)
  let ?r = "r[l := r ! s]"
  have IH: "\<forall>i < length ?r. fold (\<lambda>(l, s) r. r[l := r ! s]) ps ?r ! i =
      (case map_of ps i of None \<Rightarrow> ?r ! i | Some s \<Rightarrow> ?r ! s)"
    by (rule Cons.IH) (use Cons.prems in auto)
  have "map_of ps l = None" using Cons.prems(1) p by (simp add: map_of_eq_None_iff)
  moreover have "map_of ps i = Some t \<Longrightarrow> t \<noteq> l" for i t
    using Cons.prems(2) p by (force dest: map_of_SomeD)
  then have "map_of ps i = Some t \<Longrightarrow> ?r ! t = r ! t" for i t by (metis nth_list_update_neq)
  ultimately show ?case using IH p Cons.prems(3) by (auto split: option.split)
qed simp

lemma remap_losers_length [simp]: "length (fold (\<lambda>(l, s) r. r[l := r ! s]) ps r) = length r"
  by (induction ps arbitrary: r) (auto split: prod.split)

section \<open>The collapse\<close>

definition survivors :: "env \<Rightarrow> dump_entity list \<Rightarrow> nat list" where
  "survivors E es = filter (\<lambda>i. survivor_of E es i = i) [0..<length es]"

definition enriched :: "env \<Rightarrow> dump_entity list \<Rightarrow> dump_entity list" where
  "enriched E es = fold inherit_step (sort_key fst (folds_of E es)) es"

lemma folded_set:
  "set (map fst (folded_pairs E es)) = {i. i < length es \<and> survivor_of E es i \<noteq> i}"
proof -
  have "i \<in> set (map fst (folded_pairs E es)) \<longleftrightarrow> (\<exists>s. (i, s) \<in> set (folded_pairs E es))" for i by force
  then show ?thesis by (auto simp: folded_pairs_member)
qed

lemma rank_nth:
  assumes "j < n" "P j"
  shows "length (filter P [0..<j]) < length (filter P [0..<n]) \<and> filter P [0..<n] ! length (filter P [0..<j]) = j"
proof -
  have "[0..<j + (n - j)] = [0..<j] @ [j..<j + (n - j)]" by (rule upt_add_eq_append) simp
  then have "[0..<n] = [0..<j] @ j # [Suc j..<n]" using assms(1) by (simp add: upt_conv_Cons del: upt_Suc)
  then have "filter P [0..<n] = filter P [0..<j] @ j # filter P [Suc j..<n]" using assms(2) by simp
  then show ?thesis by simp
qed

lemma collapse_spec:
  "cl_entities (collapse_by_convergence_key E es) = map (\<lambda>j. enriched E es ! j) (survivors E es) \<and>
   length (cl_remap (collapse_by_convergence_key E es)) = length es \<and>
   (\<forall>i < length es. cl_remap (collapse_by_convergence_key E es) ! i < length (survivors E es) \<and>
      survivors E es ! (cl_remap (collapse_by_convergence_key E es) ! i) = survivor_of E es i) \<and>
   cl_merged (collapse_by_convergence_key E es) + length (survivors E es) = length es"
proof -
  define F where "F = set (map fst (folded_pairs E es))"
  define r0 where "r0 = replicate (length es) USIZE_MAX"
  have len: "length (enriched E es) = length es" by (simp add: enriched_def)
  have surv: "filter (\<lambda>j. j \<notin> F) [0..<m] = filter (\<lambda>i. survivor_of E es i = i) [0..<m]" if "m \<le> length es" for m
    using that by (intro filter_cong) (auto simp: F_def folded_set simp del: set_map)
  have "0 + length (enriched E es) \<le> length r0" by (simp add: len r0_def)
  from keep_loop_spec [OF this, of F "[]"] obtain R where
    K: "keep_loop F 0 (enriched E es) [] r0 = (map (\<lambda>j. enriched E es ! j) (survivors E es), R)"
    and R: "length R = length es" "\<forall>j. j < length es \<and> j \<notin> F \<longrightarrow> R ! j = length (filter (\<lambda>j. j \<notin> F) [0..<j])"
    by (auto simp: len r0_def surv survivors_def)
  define r1 where "r1 = fold (\<lambda>(l, s) r. r[l := r ! s]) (folded_pairs E es) R"
  have C: "collapse_by_convergence_key E es = \<lparr>cl_entities = map (\<lambda>j. enriched E es ! j) (survivors E es),
      cl_remap = r1, cl_merged = length (folded_pairs E es)\<rparr>"
    using K unfolding collapse_by_convergence_key_def Let_def folded_pairs_def [symmetric]
      enriched_def [symmetric] F_def [symmetric] r0_def [symmetric] r1_def by simp
  have rank: "R ! survivor_of E es i = length (filter (\<lambda>i. survivor_of E es i = i) [0..<survivor_of E es i])"
    if "i < length es" for i
  proof -
    have "survivor_of E es i \<notin> F" using survivor_idem [OF that, of E] by (simp add: F_def folded_set del: set_map)
    then show ?thesis using R(2) survivor_bound [OF that, of E] surv by simp
  qed
  have "r1 ! i = R ! survivor_of E es i" if "i < length es" for i
  proof -
    have s: "\<forall>p \<in> set (folded_pairs E es). snd p \<notin> fst ` set (folded_pairs E es)"
      by (auto simp: folded_pairs_member survivor_idem)
    have b: "\<forall>p \<in> set (folded_pairs E es). fst p < length R" by (auto simp: folded_pairs_member R)
    have m: "map_of (folded_pairs E es) i = (if survivor_of E es i = i then None else Some (survivor_of E es i))"
      using that folded_pairs_distinct [of E es]
      by (auto simp: folded_pairs_member map_of_eq_None_iff)
    show ?thesis using remap_losers [OF folded_pairs_distinct s b] that R(1) m by (auto simp: r1_def)
  qed
  then have "\<forall>i < length es. r1 ! i < length (survivors E es) \<and> survivors E es ! (r1 ! i) = survivor_of E es i"
    using rank rank_nth [OF survivor_bound, of _ es "\<lambda>i. survivor_of E es i = i" E] survivor_idem
    by (simp add: survivors_def)
  moreover have "length (folded_pairs E es) + length (survivors E es) = length es"
  proof -
    have "length (folded_pairs E es) = card F"
      using distinct_card [OF folded_pairs_distinct [of E es]] by (simp add: F_def)
    moreover have "F = set (filter (\<lambda>i. survivor_of E es i \<noteq> i) [0..<length es])"
      by (auto simp: F_def folded_set simp del: set_map)
    then have "card F = length (filter (\<lambda>i. survivor_of E es i \<noteq> i) [0..<length es])"
      by (simp only: distinct_card distinct_filter distinct_upt)
    ultimately show ?thesis
      using sum_length_filter_compl [of "\<lambda>i. survivor_of E es i = i" "[0..<length es]"] by (simp add: survivors_def)
  qed
  ultimately show ?thesis using R(1) by (simp add: C r1_def)
qed

text \<open>The collapse said directly: the enriched survivors, and for each entity the place of its own.\<close>

definition collapse_direct :: "env \<Rightarrow> dump_entity list \<Rightarrow> collapsed" where
  "collapse_direct E es = \<lparr>cl_entities = map (\<lambda>j. enriched E es ! j) (survivors E es),
     cl_remap = map (\<lambda>i. length (filter (\<lambda>j. survivor_of E es j = j) [0..<survivor_of E es i])) [0..<length es],
     cl_merged = length es - length (survivors E es)\<rparr>"

lemma collapse_direct_eq [code]: "collapse_by_convergence_key E es = collapse_direct E es"
proof -
  let ?c = "collapse_by_convergence_key E es" and ?P = "\<lambda>j. survivor_of E es j = j"
  note S = collapse_spec [of E es]
  have "cl_remap ?c ! i = length (filter ?P [0..<survivor_of E es i])" if "i < length es" for i
  proof -
    have a: "cl_remap ?c ! i < length (survivors E es)" "survivors E es ! (cl_remap ?c ! i) = survivor_of E es i"
      using S that by auto
    from rank_nth [OF survivor_bound [OF that, of E], of ?P] survivor_idem [OF that]
    have b: "length (filter ?P [0..<survivor_of E es i]) < length (survivors E es)"
      "survivors E es ! length (filter ?P [0..<survivor_of E es i]) = survivor_of E es i"
      by (simp_all add: survivors_def)
    have "distinct (survivors E es)" by (simp add: survivors_def)
    then show ?thesis using a b nth_eq_iff_index_eq by metis
  qed
  then have "cl_remap ?c = cl_remap (collapse_direct E es)"
    using S by (intro nth_equalityI) (simp_all add: collapse_direct_def)
  then show ?thesis using S by (cases ?c) (auto simp: collapse_direct_def)
qed

section \<open>What an entity of the result stands for\<close>

text \<open>
  An entity of the result stands for an entity of the file: itself, or a memory entry with the
  same key, at least as old, that has all its tags and files.
\<close>

fun stands_for :: "env \<Rightarrow> dump_entity \<Rightarrow> dump_entity \<Rightarrow> bool" where
  "stands_for E (Memory_Entry k) (Memory_Entry m) = (dump_key E k = dump_key E m \<and>
     (me_created_at k, me_ref k) \<le> (me_created_at m, me_ref m) \<and>
     set (me_tags m) \<subseteq> set (me_tags k) \<and> set (me_linked_files m) \<subseteq> set (me_linked_files k))"
| "stands_for E k m = (k = m)"

definition keys_of :: "env \<Rightarrow> dump_entity list \<Rightarrow> string list" where
  "keys_of E es = List.map_filter (\<lambda>e. case e of Memory_Entry m \<Rightarrow> Some (dump_key E m) | _ \<Rightarrow> None) es"

lemma folds_of_group:
  assumes "p \<in> set (folds_of E es)" "j = fst p \<or> j \<in> set (snd p)"
  shows "group_of E es j = fst p # snd p"
proof -
  obtain i where "i < length es" "group_of E es i = fst p # snd p"
    using assms(1) folds_of_member [of "fst p" "snd p" E es] by auto
  then show ?thesis using group_of_same [of i es j E] assms(2) by auto
qed

lemma folds_no_survivor_lost:
  "\<forall>p \<in> set (folds_of E es). \<forall>q \<in> set (folds_of E es). fst p \<notin> set (snd q)"
proof (intro ballI notI)
  fix p q assume "p \<in> set (folds_of E es)" "q \<in> set (folds_of E es)" "fst p \<in> set (snd q)"
  then have "group_of E es (fst p) = fst p # snd p" "group_of E es (fst p) = fst q # snd q"
    using folds_of_group by blast+
  then show False using group_of_distinct [of E es "fst p"] \<open>fst p \<in> set (snd q)\<close> by auto
qed

lemma folds_distinct: "distinct (map fst (folds_of E es))"
proof -
  have "[] \<notin> set (map snd (folds_of E es))" by (auto simp: folds_of_member)
  then have r: "removeAll [] (map snd (folds_of E es)) = map snd (folds_of E es)" by (rule removeAll_id)
  have "distinct (concat (map snd (folds_of E es)))"
    using folded_pairs_distinct [of E es] by (simp add: folded_pairs_def map_concat comp_def case_prod_beta)
  then have "distinct (removeAll [] (map snd (folds_of E es)))" by (simp only: distinct_concat_iff)
  then have "distinct (map snd (folds_of E es))" by (simp only: r)
  moreover have "snd p = snd q" if "p \<in> set (folds_of E es)" "q \<in> set (folds_of E es)" "fst p = fst q" for p q
  proof -
    have "group_of E es (fst p) = fst p # snd p" "group_of E es (fst p) = fst q # snd q"
      using folds_of_group [OF that(1), of "fst p"] folds_of_group [OF that(2), of "fst p"] that(3) by auto
    then show ?thesis by simp
  qed
  ultimately show ?thesis
    unfolding distinct_map by (metis inj_onI prod_eqI)
qed

lemma enriched_nth:
  assumes "i < length es" "survivor_of E es i = i"
  shows "enriched E es ! i = inherit_from (concat (map (\<lambda>j. tags_at (es ! j)) (tl (group_of E es i))))
    (concat (map (\<lambda>j. files_at (es ! j)) (tl (group_of E es i)))) (es ! i)"
proof -
  let ?ps = "sort_key fst (folds_of E es)"
  have d: "distinct (map fst ?ps)" using folds_distinct [of E es]
    by (metis distinct_map distinct_sort set_sort)
  have n: "\<forall>p \<in> set ?ps. \<forall>q \<in> set ?ps. fst p \<notin> set (snd q)" using folds_no_survivor_lost by simp
  have g: "group_of E es i = i # tl (group_of E es i)"
    using assms group_of_member [OF assms(1), of E] by (cases "group_of E es i") (auto simp: survivor_of_def)
  note N = inherit_steps_nth [OF d n assms(1), folded enriched_def]
  show ?thesis
  proof (cases "tl (group_of E es i) = []")
    case True
    have "map_of ?ps i = None"
    proof (rule ccontr)
      assume "map_of ?ps i \<noteq> None"
      then obtain ls where "map_of ?ps i = Some ls" by blast
      then have "(i, ls) \<in> set (folds_of E es)" using map_of_SomeD set_sort by fastforce
      then obtain j where "j < length es" "group_of E es j = i # ls" "ls \<noteq> []" by (auto simp: folds_of_member)
      with group_of_same [of j es i E] have "group_of E es i = i # ls" by simp
      with True \<open>ls \<noteq> []\<close> show False by simp
    qed
    then show ?thesis using N True by (cases "es ! i") (simp_all add: push_new_def)
  next
    case False
    with g assms(1) have "(i, tl (group_of E es i)) \<in> set (folds_of E es)"
      unfolding folds_of_member by blast
    then have "map_of ?ps i = Some (tl (group_of E es i))" using d by simp
    then show ?thesis using N by simp
  qed
qed

text \<open>The survivor of its group stands for every entity of the file.\<close>

lemma inherit_from_key: "age_key (inherit_from ts fs e) = age_key e"
  by (cases e) auto

lemma survivor_stands_for:
  assumes "i < length es"
  shows "stands_for E (enriched E es ! survivor_of E es i) (es ! i)"
proof -
  let ?s = "survivor_of E es i"
  have s: "?s < length es" "survivor_of E es ?s = ?s" using assms survivor_bound survivor_idem by auto
  have gs: "group_of E es ?s = group_of E es i" using group_of_same [OF assms survivor_in_group [OF assms]] by simp
  have g: "group_of E es i = ?s # tl (group_of E es i)"
    using survivor_in_group [OF assms, of E] by (cases "group_of E es i") (auto simp: survivor_of_def)
  note N = enriched_nth [OF s, unfolded gs]
  show ?thesis
  proof (cases "es ! i")
    case (Memory_Entry m)
    have "?s \<in> set (members E es (dump_key E m) [0..<length es])"
      using survivor_in_group [OF assms, of E] Memory_Entry by (simp add: group_of_def)
    from member_key [OF this] obtain k where k: "es ! ?s = Memory_Entry k" "dump_key E k = dump_key E m" by blast
    have age: "age_key (es ! ?s) \<le> age_key (es ! i)"
      by (rule survivor_oldest [OF assms group_of_member [OF assms]])
    have "i = ?s \<or> i \<in> set (tl (group_of E es i))" using group_of_member [OF assms, of E] g
      by (metis set_ConsD)
    then have "set (me_tags m) \<subseteq> set (me_tags k) \<union> set (concat (map (\<lambda>j. tags_at (es ! j)) (tl (group_of E es i))))"
      "set (me_linked_files m) \<subseteq> set (me_linked_files k) \<union>
        set (concat (map (\<lambda>j. files_at (es ! j)) (tl (group_of E es i))))"
      using k Memory_Entry by force+
    then show ?thesis using N k Memory_Entry age by (simp add: push_new_set dump_key_def split: option.splits)
  next
    case (Dump_Project p)
    then have "?s = i" by (simp add: survivor_of_def group_of_def)
    then show ?thesis using N Dump_Project by simp
  next
    case (Command_Usage u)
    then have "?s = i" by (simp add: survivor_of_def group_of_def)
    then show ?thesis using N Command_Usage by simp
  qed
qed

lemma distinct_map_filter_inj:
  assumes "distinct js" "\<And>i j k. i \<in> set js \<Longrightarrow> j \<in> set js \<Longrightarrow> g i = Some k \<Longrightarrow> g j = Some k \<Longrightarrow> i = j"
  shows "distinct (List.map_filter g js)"
  using assms by (fastforce simp: map_filter_def distinct_map inj_on_def)

lemma survivors_distinct_keys:
  "distinct (keys_of E (map (\<lambda>j. enriched E es ! j) (survivors E es)))"
proof -
  let ?g = "\<lambda>j. case enriched E es ! j of Memory_Entry m \<Rightarrow> Some (dump_key E m) | _ \<Rightarrow> None"
  have one: "es ! j \<in> range Memory_Entry \<and> j < length es \<and> survivor_of E es j = j \<and>
      j \<in> set (members E es k [0..<length es]) \<and> group_of E es j = sort_key (\<lambda>i. age_key (es ! i)) (members E es k [0..<length es])"
    if "j \<in> set (survivors E es)" "?g j = Some k" for j k
  proof -
    have j: "j < length es" "survivor_of E es j = j" using that(1) by (auto simp: survivors_def)
    note key = that(2)
    have e: "stands_for E (enriched E es ! j) (es ! j)" using survivor_stands_for [OF j(1), of E] j(2) by simp
    obtain m where m: "enriched E es ! j = Memory_Entry m" "dump_key E m = k"
      using key by (auto split: dump_entity.splits)
    then obtain m' where "es ! j = Memory_Entry m'" "dump_key E m' = k" using e by (cases "es ! j") auto
    then show ?thesis using j by (auto simp: members_def group_of_def)
  qed
  have "distinct (List.map_filter ?g (survivors E es))"
  proof (rule distinct_map_filter_inj)
    fix i j k assume "i \<in> set (survivors E es)" "j \<in> set (survivors E es)" "?g i = Some k" "?g j = Some k"
    then show "i = j" using one [of i k] one [of j k] by (metis survivor_of_def)
  qed (simp add: survivors_def)
  then show ?thesis by (simp add: keys_of_def map_filter_def comp_def filter_map)
qed

section \<open>Relationships\<close>

definition rkey :: "resolved_relationship \<Rightarrow> relationship_kind \<times> nat \<times> nat" where
  "rkey r = (rr_kind r, rr_from r, rr_to r)"

definition lkey :: "relationship \<Rightarrow> relationship_kind \<times> string \<times> string" where
  "lkey r = (rl_kind r, rl_from r, rl_to r)"

definition seen_in :: "('k \<times> nat) list \<Rightarrow> 'k list \<Rightarrow> bool" where
  "seen_in seen ks = ((\<forall>k. map_of seen k = None \<longrightarrow> k \<notin> set ks) \<and>
     (\<forall>k i. map_of seen k = Some i \<longrightarrow> i < length ks \<and> ks ! i = k))"

lemma seen_in_None: "seen_in seen ks \<Longrightarrow> map_of seen k = None \<Longrightarrow> k \<notin> set ks"
  by (simp add: seen_in_def)

lemma seen_in_Some: "seen_in seen ks \<Longrightarrow> map_of seen k = Some i \<Longrightarrow> i < length ks \<and> ks ! i = k \<and> k \<in> set ks"
  unfolding seen_in_def by (metis nth_mem)

lemma seen_in_add: "seen_in seen ks \<Longrightarrow> seen_in ((k, length ks) # seen) (ks @ [k])"
  by (auto simp: seen_in_def nth_append less_Suc_eq)

lemma push_new_step: "push_new ks (k # extra) = push_new (if k \<in> set ks then ks else ks @ [k]) extra"
  by (simp add: push_new_def)

lemma push_new_distinct: "distinct ks \<Longrightarrow> distinct (push_new ks extra)"
  unfolding push_new_def by (induction extra arbitrary: ks) auto

lemma keep_key: "at < length out \<Longrightarrow> map g (out[at := v]) = (map g out)[at := g v]"
  by (rule map_update)

lemma dedupe_keys:
  "seen_in seen (map lkey out) \<Longrightarrow> map lkey (dedupe_loop rs seen out) = push_new (map lkey out) (map lkey rs)"
proof (induction rs seen out rule: dedupe_loop.induct)
  case (2 r rs seen out)
  show ?case
  proof (cases "map_of seen (lkey r)")
    case None
    note n = seen_in_None [OF 2(3) None]
    from seen_in_add [OF 2(3), of "lkey r"]
    have s: "seen_in ((lkey r, length out) # seen) (map lkey (out @ [r]))" by simp
    from 2(1) [OF None [unfolded lkey_def], folded lkey_def, OF s] show ?thesis using None n
      by (simp add: push_new_step lkey_def [symmetric] del: set_map)
  next
    case (Some at)
    then have at: "at < length out" "lkey r \<in> set (map lkey out)"
      using seen_in_Some [OF 2(3) Some] by simp_all
    have k: "map lkey (if rl_created_at (out ! at) = None
        then out[at := (out ! at)\<lparr>rl_created_at := rl_created_at r\<rparr>] else out) = map lkey out"
      using at(1) by (simp add: map_update lkey_def list_update_same_conv)
    show ?thesis using Some 2(2) [of at] 2(3) at(2) k
      by (simp only: dedupe_loop.simps lkey_def [symmetric] option.case list.map push_new_step if_True)
  qed
qed (simp add: push_new_def)

lemma redirect_keys:
  "seen_in seen (map rkey out) \<Longrightarrow> map rkey (redirect_loop remap rs seen out) = push_new (map rkey out)
     (map (\<lambda>r. (rr_kind r, remap ! rr_from r, remap ! rr_to r))
       (filter (\<lambda>r. remap ! rr_from r \<noteq> remap ! rr_to r) rs))"
proof (induction remap rs seen out rule: redirect_loop.induct)
  case (2 remap r rs seen out)
  let ?k = "(rr_kind r, remap ! rr_from r, remap ! rr_to r)"
  show ?case
  proof (cases "remap ! rr_from r = remap ! rr_to r")
    case True
    then show ?thesis using 2(1) [OF refl refl] 2(4) by simp
  next
    case False
    show ?thesis
    proof (cases "map_of seen ?k")
      case None
      note n = seen_in_None [OF 2(4) None]
      let ?x = "\<lparr>rr_kind = rr_kind r, rr_from = remap ! rr_from r, rr_to = remap ! rr_to r, rr_created_at = rr_created_at r\<rparr>"
      from seen_in_add [OF 2(4), of ?k]
      have "seen_in ((?k, length out) # seen) (map rkey (out @ [?x]))" by (simp add: rkey_def [of ?x])
      from 2(2) [OF refl refl False None this] show ?thesis using None False n
        by (simp add: push_new_step rkey_def [of ?x] Let_def del: set_map)
    next
      case (Some at)
      then have at: "at < length out" "?k \<in> set (map rkey out)"
        using seen_in_Some [OF 2(4) Some] by simp_all
      have k: "map rkey (if rr_created_at (out ! at) = None
          then out[at := (out ! at)\<lparr>rr_created_at := rr_created_at r\<rparr>] else out) = map rkey out"
        using at(1) by (simp add: map_update rkey_def list_update_same_conv)
      from 2(3) [OF refl refl False Some] 2(4) k show ?thesis using Some False at(2)
        by (simp add: push_new_step Let_def del: set_map)
    qed
  qed
qed (simp add: push_new_def)

lemma index_refs_spec:
  assumes "index_refs i es m = (m', {})"
  shows "distinct (map dump_ref es) \<and> (\<forall>e \<in> set es. map_of m (dump_ref e) = None) \<and>
    (\<forall>j < length es. map_of m' (dump_ref (es ! j)) = Some (i + j)) \<and>
    (\<forall>r. r \<notin> dump_ref ` set es \<longrightarrow> map_of m' r = map_of m r)"
  using assms
proof (induction es arbitrary: i m)
  case (Cons e es)
  let ?m = "AList.update (dump_ref e) i m"
  from Cons.prems have rest: "index_refs (Suc i) es ?m = (m', {})" and new: "map_of m (dump_ref e) = None"
    by (auto split: prod.splits if_splits)
  note IH = Cons.IH [OF rest]
  have other: "\<forall>e' \<in> set es. dump_ref e' \<noteq> dump_ref e \<and> map_of m (dump_ref e') = None"
    using IH by (auto simp: update_conv' split: if_splits)
  have "map_of m' (dump_ref e) = Some i"
  proof -
    have "dump_ref e \<notin> dump_ref ` set es" using other by fastforce
    then show ?thesis using IH by (simp add: update_conv')
  qed
  then show ?case using IH other new
    by (auto simp: update_conv' nth_Cons split: nat.split)
qed simp

lemma resolve_spec:
  "resolve_relationships m rs = Inr out \<Longrightarrow> list_all2 (\<lambda>r x. rr_kind x = rl_kind r \<and>
     map_of m (rl_from r) = Some (rr_from x) \<and> map_of m (rl_to r) = Some (rr_to x)) rs out"
  by (induction m rs arbitrary: out rule: resolve_relationships.induct)
    (auto simp: and_then_def split: option.splits sum.splits)

definition named :: "dump_entity list \<Rightarrow> string \<Rightarrow> dump_entity option" where
  "named es r = find (\<lambda>e. dump_ref e = r) es"

lemma index_named:
  assumes "index_by_ref es = Inr m" "map_of m r = Some i"
  shows "i < length es \<and> named es r = Some (es ! i)"
proof -
  have I: "index_refs 0 es [] = (m, {})"
    using assms(1) by (auto simp: index_by_ref_def split: prod.splits if_splits)
  note S = index_refs_spec [OF I]
  have "r \<in> dump_ref ` set es" using S assms(2) by fastforce
  then obtain j where j: "j < length es" "dump_ref (es ! j) = r" by (auto simp: in_set_conv_nth)
  then have "i = j" using S assms(2) by auto
  moreover have "\<forall>k < j. dump_ref (es ! k) \<noteq> r"
    using S j by (metis distinct_conv_nth length_map less_imp_neq less_trans nth_map)
  ultimately show ?thesis using j by (auto simp: named_def find_Some_iff)
qed

definition body_records :: "dump_codec \<Rightarrow> string \<Rightarrow> dump_error + dump_entity list \<times> relationship list" where
  "body_records D bytes = and_then (split_lines bytes) (\<lambda>lines. read_body D 2 (butlast (tl lines)) [] [])"

text \<open>A relationship of the file survives between the entities that stand for its endpoints, or
  within one entity that stands for both.\<close>

definition relationship_carried :: "env \<Rightarrow> dump \<Rightarrow> dump_entity list \<Rightarrow> relationship \<Rightarrow> bool" where
  "relationship_carried E d es r = (case (named es (rl_from r), named es (rl_to r)) of
     (Some e, Some f) \<Rightarrow>
       list_ex (\<lambda>x. rr_kind x = rl_kind r \<and> stands_for E (dump_entities d ! rr_from x) e \<and>
         stands_for E (dump_entities d ! rr_to x) f) (dump_relationships d) \<or>
       list_ex (\<lambda>k. stands_for E k e \<and> stands_for E k f) (dump_entities d)
   | _ \<Rightarrow> False)"

lemma read_dump_parts:
  assumes "read_dump E D bytes = Inr d"
  obtains es rs m rels where "body_records D bytes = Inr (es, rs)" "index_by_ref es = Inr m"
    "resolve_relationships m (dedupe_relationships rs) = Inr rels"
    "refuse_blank_identities es = Inr ()" "refuse_repeated_identities es = Inr ()"
    "d = \<lparr>dump_entities = cl_entities (collapse_by_convergence_key E es),
       dump_relationships = redirect_to_survivors rels (cl_remap (collapse_by_convergence_key E es)),
       merged_memory_entries = cl_merged (collapse_by_convergence_key E es)\<rparr>"
proof -
  obtain lines where l: "split_lines bytes = Inr lines"
    using assms by (cases "split_lines bytes") (auto simp: read_dump_def)
  obtain es rs where b: "read_body D 2 (butlast (tl lines)) [] [] = Inr (es, rs)"
    using assms l by (cases "read_body D 2 (butlast (tl lines)) [] []")
      (auto simp: read_dump_def split: if_splits option.splits)
  show ?thesis
    using that [of es rs] assms l b
    by (auto simp: read_dump_def body_records_def and_then_def Let_def split: if_splits option.splits sum.splits)
qed

lemma carried_index:
  assumes "i < length es" "c = collapse_by_convergence_key E es"
  shows "cl_remap c ! i < length (cl_entities c) \<and> stands_for E (cl_entities c ! (cl_remap c ! i)) (es ! i)"
  using collapse_spec [of E es] survivor_stands_for [OF assms(1), of E] assms by simp

lemma resolved_bound:
  assumes "index_by_ref es = Inr m" "resolve_relationships m rs = Inr rels" "x \<in> set rels"
  shows "rr_from x < length es \<and> rr_to x < length es"
  using resolve_spec [OF assms(2)] index_named [OF assms(1)] assms(3)
  by (fastforce simp: list_all2_conv_all_nth in_set_conv_nth)

lemma redirected_keys:
  "map rkey (redirect_to_survivors rels rm) = push_new [] (map (\<lambda>x. (rr_kind x, rm ! rr_from x, rm ! rr_to x))
     (filter (\<lambda>x. rm ! rr_from x \<noteq> rm ! rr_to x) rels))"
  using redirect_keys [of "[]" "[]" rm rels] by (simp add: seen_in_def redirect_to_survivors_def)

lemma redirected_set:
  "rkey ` set (redirect_to_survivors rels rm) = (\<lambda>x. (rr_kind x, rm ! rr_from x, rm ! rr_to x)) `
     {x \<in> set rels. rm ! rr_from x \<noteq> rm ! rr_to x}"
  using arg_cong [OF redirected_keys [of rels rm], of set] by (simp only: push_new_set set_map set_filter) simp

text \<open>What the reader checked, and both ends of every relationship it returns.\<close>

lemma read_dump_ends:
  assumes "read_dump E D bytes = Inr d" "x \<in> set (dump_relationships d)"
  shows "rr_from x \<noteq> rr_to x \<and> rr_from x < length (dump_entities d) \<and> rr_to x < length (dump_entities d)"
proof -
  obtain es rs m rels where p: "index_by_ref es = Inr m"
    "resolve_relationships m (dedupe_relationships rs) = Inr rels"
    "d = \<lparr>dump_entities = cl_entities (collapse_by_convergence_key E es),
       dump_relationships = redirect_to_survivors rels (cl_remap (collapse_by_convergence_key E es)),
       merged_memory_entries = cl_merged (collapse_by_convergence_key E es)\<rparr>"
    by (rule read_dump_parts [OF assms(1)])
  have "rkey x \<in> rkey ` set (redirect_to_survivors rels (cl_remap (collapse_by_convergence_key E es)))"
    using assms(2) by (simp add: p(3))
  then obtain y where "y \<in> set rels" "rkey x = (rr_kind y, cl_remap (collapse_by_convergence_key E es) ! rr_from y,
      cl_remap (collapse_by_convergence_key E es) ! rr_to y)" "rr_from x \<noteq> rr_to x"
    unfolding redirected_set by (auto simp: rkey_def)
  then show ?thesis
    using resolved_bound [OF p(1,2)] carried_index [of _ es _ E] by (simp add: rkey_def p(3))
qed

text \<open>A relationship of the file is still there, between the entities that stand for its ends.\<close>

lemma relationship_stays:
  assumes m: "index_by_ref es = Inr m" and rels: "resolve_relationships m (dedupe_relationships rs) = Inr rels"
    and D: "dump_entities d = cl_entities c" and red: "dump_relationships d = redirect_to_survivors rels (cl_remap c)"
    and c: "c = collapse_by_convergence_key E es" and r: "r \<in> set rs"
  shows "relationship_carried E d es r"
proof -
  let ?rm = "cl_remap c" and ?key = "\<lambda>x. (rr_kind x, cl_remap c ! rr_from x, cl_remap c ! rr_to x)"
  note ends = carried_index [OF _ c]
  note at = resolve_spec [OF rels]
  have kset: "rkey ` set (dump_relationships d) = ?key ` {x \<in> set rels. ?rm ! rr_from x \<noteq> ?rm ! rr_to x}"
    unfolding red by (rule redirected_set)
  have "map lkey (dedupe_relationships rs) = push_new [] (map lkey rs)"
    unfolding dedupe_relationships_def using dedupe_keys [of "[]" "[]" rs] by (simp add: seen_in_def)
  then have "lkey r \<in> set (map lkey (dedupe_relationships rs))" using r by (simp add: push_new_set)
  then obtain r' where r': "r' \<in> set (dedupe_relationships rs)" "lkey r' = lkey r" by auto
  then obtain x where x: "x \<in> set rels" "rr_kind x = rl_kind r" "map_of m (rl_from r) = Some (rr_from x)"
    "map_of m (rl_to r) = Some (rr_to x)"
    using at by (fastforce simp: list_all2_conv_all_nth in_set_conv_nth lkey_def)
  from index_named [OF m x(3)] index_named [OF m x(4)] have
    n: "named es (rl_from r) = Some (es ! rr_from x)" "named es (rl_to r) = Some (es ! rr_to x)"
    and b: "rr_from x < length es" "rr_to x < length es" by auto
  show ?thesis
  proof (cases "?rm ! rr_from x = ?rm ! rr_to x")
    case True
    then have "stands_for E (cl_entities c ! (?rm ! rr_from x)) (es ! rr_from x) \<and>
        stands_for E (cl_entities c ! (?rm ! rr_from x)) (es ! rr_to x)"
      using ends [OF b(1)] ends [OF b(2)] by simp
    then show ?thesis using ends [OF b(1)] n
      by (auto simp: relationship_carried_def D list_ex_iff intro: nth_mem)
  next
    case False
    then have "?key x \<in> rkey ` set (dump_relationships d)" using kset x(1) by auto
    then obtain y where "y \<in> set (dump_relationships d)" "rkey y = ?key x" by auto
    then show ?thesis using ends [OF b(1)] ends [OF b(2)] n x(2)
      by (auto simp: relationship_carried_def D list_ex_iff rkey_def)
  qed
qed

text \<open>
  C35. Reading a dump loses nothing. When every check passes, no two memory entries of the result
  share a convergence key; every entity of the file is stood for by one of the result (itself, or
  the oldest entry of its key, with all tags and files of the group); every relationship joins
  the entities that stand for its endpoints, is listed once, never joins an entity to itself, and
  has both ends in the result; and the count of merged entries is exact.
\<close>

theorem read_dump_loses_nothing:
  assumes "read_dump E D bytes = Inr d" "body_records D bytes = Inr (es, rs)"
  shows "distinct (keys_of E (dump_entities d)) \<and>
    length (dump_entities d) + merged_memory_entries d = length es \<and>
    list_all (\<lambda>e. list_ex (\<lambda>k. stands_for E k e) (dump_entities d)) es \<and>
    list_all (relationship_carried E d es) rs \<and>
    distinct (map rkey (dump_relationships d)) \<and>
    list_all (\<lambda>x. rr_from x \<noteq> rr_to x \<and> rr_from x < length (dump_entities d) \<and>
      rr_to x < length (dump_entities d)) (dump_relationships d)"
proof -
  obtain es' rs' m rels where p: "body_records D bytes = Inr (es', rs')" "index_by_ref es' = Inr m"
    "resolve_relationships m (dedupe_relationships rs') = Inr rels"
    "d = \<lparr>dump_entities = cl_entities (collapse_by_convergence_key E es'),
       dump_relationships = redirect_to_survivors rels (cl_remap (collapse_by_convergence_key E es')),
       merged_memory_entries = cl_merged (collapse_by_convergence_key E es')\<rparr>"
    by (rule read_dump_parts [OF assms(1)])
  have e: "es' = es" "rs' = rs" using p(1) assms(2) by simp_all
  note m = p(2) [unfolded e] and rels = p(3) [unfolded e] and d = p(4) [unfolded e]
  define c where "c = collapse_by_convergence_key E es"
  have D: "dump_entities d = cl_entities c" "merged_memory_entries d = cl_merged c"
    by (simp_all add: d c_def)
  note ends = carried_index [OF _ c_def]
  have red: "dump_relationships d = redirect_to_survivors rels (cl_remap c)" by (simp add: d c_def)
  note rel = relationship_stays [OF m rels D(1) red c_def]
  have "\<exists>k \<in> set (dump_entities d). stands_for E k e" if e: "e \<in> set es" for e
  proof -
    from e obtain i where "i < length es" "e = es ! i" by (auto simp: in_set_conv_nth)
    with ends [of i] show ?thesis by (auto simp: D intro: nth_mem)
  qed
  moreover have "distinct (keys_of E (dump_entities d))" "length (dump_entities d) + merged_memory_entries d = length es"
    using survivors_distinct_keys [of E es] collapse_spec [of E es] by (simp_all add: D c_def)
  moreover have "distinct (map rkey (dump_relationships d))" unfolding red redirected_keys by (rule push_new_distinct) simp
  ultimately show ?thesis using rel read_dump_ends [OF assms(1)] by (simp add: list_all_iff list_ex_iff)
qed

section \<open>A dump of three entries, two of one content\<close>

definition demo_entry :: "string \<Rightarrow> string \<Rightarrow> int \<Rightarrow> string list \<Rightarrow> memory_entry" where
  "demo_entry r k t tags = \<lparr>me_ref = r, me_uuid = None, me_kind = ''note'', me_title = ''T'', me_body = ''B'',
     me_tags = tags, me_linked_files = [], me_created_at = t, me_status = None, me_source_ref = None,
     me_valid_at = None, me_invalid_at = None, me_entity_id = Some k, me_remote_id = None,
     me_namespace = None, me_origin_actor_kind = None, me_origin_tool = None, me_origin_model = None\<rparr>"

definition demo_link :: "string \<Rightarrow> string \<Rightarrow> relationship" where
  "demo_link a b = \<lparr>rl_kind = Relates_To, rl_from = a, rl_to = b, rl_created_at = None\<rparr>"

definition demo_entities :: "dump_entity list" where
  "demo_entities = [Memory_Entry (demo_entry ''a'' ''k'' 2 [''x'']), Memory_Entry (demo_entry ''b'' ''k'' 1 [''y'']),
     Memory_Entry (demo_entry ''c'' ''l'' 3 [])]"

definition demo_links :: "relationship list" where
  "demo_links = [demo_link ''a'' ''c'', demo_link ''b'' ''c'', demo_link ''a'' ''b'']"

definition demo_codec :: dump_codec where
  "demo_codec = \<lparr>
     decode_header = (\<lambda>l. if l = ''H'' then Some \<lparr>dh_format = ''portable-dump'', dh_format_version = 1,
       dh_generated_at = 0, dh_generator = []\<rparr> else None),
     decode_footer = (\<lambda>l. if l = ''F'' then Some \<lparr>df_counts = \<lparr>dc_entity = [(''memory_entry'', 3)],
       dc_relationship = [(''relates_to'', 3)]\<rparr>, df_digest = ''sha256:Habcpqr''\<rparr> else None),
     decode_record = (\<lambda>l. map_of [(''a'', Entity_Record (demo_entities ! 0)), (''b'', Entity_Record (demo_entities ! 1)),
       (''c'', Entity_Record (demo_entities ! 2)), (''p'', Relationship_Record (demo_links ! 0)),
       (''q'', Relationship_Record (demo_links ! 1)), (''r'', Relationship_Record (demo_links ! 2))] l)\<rparr>"

definition demo_bytes :: string where
  "demo_bytes = join [CHR 0x0A] [''H'', ''a'', ''b'', ''c'', ''p'', ''q'', ''r'', ''F''] @ [CHR 0x0A]"

definition demo_dump :: dump where
  "demo_dump = \<lparr>dump_entities = [Memory_Entry (demo_entry ''b'' ''k'' 1 [''y'', ''x'']), Memory_Entry (demo_entry ''c'' ''l'' 3 [])],
     dump_relationships = [\<lparr>rr_kind = Relates_To, rr_from = 0, rr_to = 1, rr_created_at = None\<rparr>],
     merged_memory_entries = 1\<rparr>"

lemma demo_read: "read_dump demo_env demo_codec demo_bytes = Inr demo_dump"
  by code_simp

lemma demo_body: "body_records demo_codec demo_bytes = Inr (demo_entities, demo_links)"
  by code_simp

theorem read_dump_loses_nothing_witness:
  "distinct (keys_of demo_env (dump_entities demo_dump)) \<and> length demo_entities = 3 \<and>
   list_all (\<lambda>e. list_ex (\<lambda>k. stands_for demo_env k e) (dump_entities demo_dump)) demo_entities \<and>
   list_all (relationship_carried demo_env demo_dump demo_entities) demo_links"
  using read_dump_loses_nothing [OF demo_read demo_body] by (simp add: demo_entities_def)

end
