(* ===== verification/Dump_Import.thy ===== *)
theory Dump_Import
  imports Dump_Collapse Sync
begin

text \<open>
  Applying a dump to the stores (\<open>core/src/dump/import.rs\<close>): the memory store, the project registry
  (\<open>core/src/registry.rs\<close>) and the table of recorded commands. All three are written in open
  transactions; what a commit that fails partway leaves behind is written out, its outcome being a
  parameter. The clock and the random bits of a minted uuid are parameters too.
\<close>

section \<open>The stores\<close>

record project_row =
  pj_id :: nat
  pj_root_path :: string
  pj_db_path :: string

record project_registry =
  reg_projects :: "project_row list"
  reg_seq :: nat
  reg_deps :: "(nat \<times> nat) list"

record usage_store =
  usage_has_table :: bool
  usage_rows :: "(string \<times> int) list"

record import_world =
  iw_memory :: memory_store
  iw_registry :: "project_registry option"
  iw_usage :: "usage_store option"

datatype import_error =
    Import_Store store_error | No_Registry | No_Index_Database | No_Usage_Table
  | Links_What_It_Cannot string | Dangling_Dependency | Commit_Refused

type_synonym 'a importing = "(import_world, import_error, 'a) st"

definition on_memory :: "'a op \<Rightarrow> 'a importing" where
  "on_memory m = (\<lambda>w. case m (iw_memory w) of
     (s, Inl e) \<Rightarrow> (w\<lparr>iw_memory := s\<rparr>, Inl (Import_Store e))
   | (s, Inr x) \<Rightarrow> (w\<lparr>iw_memory := s\<rparr>, Inr x))"

section \<open>The registry\<close>

text \<open>\<open>INSERT \<dots> ON CONFLICT(root_path) DO UPDATE SET db_path\<close>, then the id of the row.\<close>

definition registry_register :: "string \<Rightarrow> string \<Rightarrow> project_registry \<Rightarrow> project_registry \<times> nat" where
  "registry_register root db g = (case find (\<lambda>p. pj_root_path p = root) (reg_projects g) of
     Some p \<Rightarrow> (g\<lparr>reg_projects := map (\<lambda>q. if pj_root_path q = root then q\<lparr>pj_db_path := db\<rparr> else q)
                  (reg_projects g)\<rparr>, pj_id p)
   | None \<Rightarrow> (g\<lparr>reg_projects := reg_projects g @ [\<lparr>pj_id = Suc (reg_seq g), pj_root_path = root, pj_db_path = db\<rparr>],
                reg_seq := Suc (reg_seq g)\<rparr>, Suc (reg_seq g)))"

text \<open>\<open>INSERT OR IGNORE\<close>, which still fails on a foreign key.\<close>

definition registry_add_dep :: "nat \<Rightarrow> nat \<Rightarrow> project_registry \<Rightarrow> project_registry option" where
  "registry_add_dep i j g = (if i \<notin> set (map pj_id (reg_projects g)) \<or> j \<notin> set (map pj_id (reg_projects g))
     then None
     else Some (if (i, j) \<in> set (reg_deps g) then g else g\<lparr>reg_deps := reg_deps g @ [(i, j)]\<rparr>))"

section \<open>One record\<close>

record import_summary =
  is_memory_entries :: nat
  is_memory_entries_merged :: nat
  is_already_present :: nat
  is_memory_edges :: nat
  is_supersede_links :: nat
  is_projects :: nat
  is_project_dependencies :: nat
  is_command_usages :: nat
  is_needing_embedding :: nat

definition summary_of_merge :: "nat \<Rightarrow> import_summary" where
  "summary_of_merge merged = \<lparr>is_memory_entries = 0, is_memory_entries_merged = merged,
     is_already_present = 0, is_memory_edges = 0, is_supersede_links = 0, is_projects = 0,
     is_project_dependencies = 0, is_command_usages = 0, is_needing_embedding = 0\<rparr>"

datatype landed = Landed_Memory note_id nat | Landed_Project nat | Landed_Command

record import_progress =
  ip_landed :: "landed list"
  ip_summary :: import_summary
  ip_carriers :: "note_record list"

record import_env =
  im_env :: env
  im_now :: int
  im_now_millis :: int
  im_entropy :: "string \<Rightarrow> string"

definition carrier_record :: "int \<Rightarrow> memory_entry \<Rightarrow> string \<Rightarrow> string \<Rightarrow> nat \<Rightarrow> note_record" where
  "carrier_record now_millis e eid status offset =
     \<lparr>rec_schema_version = 1, rec_id = min (now_millis + int offset) (2 ^ 63 - 1), rec_kind = me_kind e,
      rec_title = me_title e, rec_body = me_body e, rec_tags = me_tags e,
      rec_linked_files = me_linked_files e, rec_created_at = me_created_at e, rec_status = status,
      rec_source_ref = me_source_ref e, rec_valid_at = me_valid_at e, rec_invalid_at = me_invalid_at e,
      rec_superseded_by = None, rec_remote_id = me_remote_id e, rec_entity_id = Some eid,
      rec_superseded_by_entity_id = None, rec_edges = [],
      rec_origin = origin_from_parts (me_origin_actor_kind e) (me_origin_tool e) (me_origin_model e),
      rec_op = None, rec_patch_id = None\<rparr>"

definition import_memory_entry :: "import_env \<Rightarrow> memory_entry \<Rightarrow> (note_id \<times> bool) op" where
  "import_memory_entry M e = import_entry (im_env M) (im_now M)
     (case me_uuid e of Some u \<Rightarrow> u | None \<Rightarrow> uuid_v7_at (im_env M) (me_created_at e) (im_entropy M (me_ref e)))
     (me_kind e) (me_title e) (me_body e) (me_tags e) (me_linked_files e) (me_created_at e)
     (case me_status e of Some st \<Rightarrow> st | None \<Rightarrow> ''active'') (me_source_ref e) (me_valid_at e)
     (me_invalid_at e) (Some (dump_key (im_env M) e)) (me_remote_id e)
     (origin_from_parts (me_origin_actor_kind e) (me_origin_tool e) (me_origin_model e))"

definition index_db_path :: "string \<Rightarrow> string" where
  "index_db_path root = path_join (path_join root ''.inkentry'') ''index.db''"

fun insert_entity :: "import_env \<Rightarrow> dump_entity \<Rightarrow> import_progress \<Rightarrow> import_progress importing" where
  "insert_entity M (Memory_Entry e) p =
     bind (on_memory (import_memory_entry M e)) (\<lambda>(i, created).
     ok (p\<lparr>ip_landed := ip_landed p @ [Landed_Memory i (length (ip_carriers p))],
           ip_summary := (if created
             then (ip_summary p)\<lparr>is_memory_entries := Suc (is_memory_entries (ip_summary p))\<rparr>
             else (ip_summary p)\<lparr>is_already_present := Suc (is_already_present (ip_summary p))\<rparr>),
           ip_carriers := ip_carriers p @ [carrier_record (im_now_millis M) e (dump_key (im_env M) e)
             (case me_status e of Some st \<Rightarrow> st | None \<Rightarrow> ''active'') (length (ip_carriers p))]\<rparr>))"
| "insert_entity M (Dump_Project q) p = (\<lambda>w. case iw_registry w of
     None \<Rightarrow> (w, Inl No_Registry)
   | Some g \<Rightarrow> (case registry_register (dp_root_path q) (index_db_path (dp_root_path q)) g of (g', i) \<Rightarrow>
       (w\<lparr>iw_registry := Some g'\<rparr>, Inr (p\<lparr>ip_landed := ip_landed p @ [Landed_Project i],
         ip_summary := (ip_summary p)\<lparr>is_projects := Suc (is_projects (ip_summary p))\<rparr>\<rparr>))))"
| "insert_entity M (Command_Usage u) p = (\<lambda>w. case iw_usage w of
     None \<Rightarrow> (w, Inl No_Index_Database)
   | Some d \<Rightarrow> (w\<lparr>iw_usage := Some (d\<lparr>usage_rows := usage_rows d @ [(cu_command u, cu_at u)]\<rparr>)\<rparr>,
       Inr (p\<lparr>ip_landed := ip_landed p @ [Landed_Command],
         ip_summary := (ip_summary p)\<lparr>is_command_usages := Suc (is_command_usages (ip_summary p))\<rparr>\<rparr>)))"

definition link_count :: "import_progress \<Rightarrow> import_progress" where
  "link_count p = p\<lparr>ip_summary := (ip_summary p)\<lparr>is_memory_edges := Suc (is_memory_edges (ip_summary p))\<rparr>\<rparr>"

definition carrier_entity_id :: "env \<Rightarrow> import_progress \<Rightarrow> nat \<Rightarrow> string" where
  "carrier_entity_id E p i = resolve_entity_id E (ip_carriers p ! i)"

fun insert_relationship ::
    "import_env \<Rightarrow> relationship_kind \<Rightarrow> landed \<Rightarrow> landed \<Rightarrow> int option \<Rightarrow> import_progress \<Rightarrow>
     import_progress importing" where
  "insert_relationship M Depends_On (Landed_Project i) (Landed_Project j) created p = (\<lambda>w.
     case iw_registry w of None \<Rightarrow> (w, Inl No_Registry)
     | Some g \<Rightarrow> (case registry_add_dep i j g of None \<Rightarrow> (w, Inl Dangling_Dependency)
       | Some g' \<Rightarrow> (w\<lparr>iw_registry := Some g'\<rparr>, Inr (p\<lparr>ip_summary := (ip_summary p)
           \<lparr>is_project_dependencies := Suc (is_project_dependencies (ip_summary p))\<rparr>\<rparr>))))"
| "insert_relationship M Supersedes (Landed_Memory i a) (Landed_Memory j b) created p =
     bind (on_memory (import_edge (im_now M) i j ''supersedes'' created)) (\<lambda>_.
     bind (on_memory (set_superseded_by j i)) (\<lambda>_.
     ok ((link_count p)\<lparr>
       ip_carriers := (ip_carriers p)[b := (ip_carriers p ! b)
         \<lparr>rec_superseded_by_entity_id := Some (carrier_entity_id (im_env M) p a)\<rparr>],
       ip_summary := (ip_summary (link_count p))
         \<lparr>is_supersede_links := Suc (is_supersede_links (ip_summary p))\<rparr>\<rparr>)))"
| "insert_relationship M Depends_On a b created p = fail (Links_What_It_Cannot ''depends_on'')"
| "insert_relationship M Supersedes a b created p = fail (Links_What_It_Cannot ''supersedes'')"
| "insert_relationship M kind (Landed_Memory i a) (Landed_Memory j b) created p =
     bind (on_memory (import_edge (im_now M) i j (relationship_kind_str kind) created)) (\<lambda>_.
     ok ((link_count p)\<lparr>ip_carriers := (ip_carriers p)[a := (ip_carriers p ! a)
       \<lparr>rec_edges := rec_edges (ip_carriers p ! a) @
          [CarriedEdge (relationship_kind_str kind) (carrier_entity_id (im_env M) p b)]\<rparr>]\<rparr>))"
| "insert_relationship M kind a b created p = fail (Links_What_It_Cannot (relationship_kind_str kind))"

section \<open>The whole file\<close>

text \<open>
  Commits go to the memory store, the registry and the recorded commands in this order; the
  outcome says which of them is refused first. A store whose transaction was not committed is
  rolled back.
\<close>

datatype commit_outcome = All_Commit | Memory_Refuses | Registry_Refuses | Usage_Refuses

definition needs_registry :: "dump \<Rightarrow> bool" where
  "needs_registry d = list_ex (\<lambda>e. case e of Dump_Project _ \<Rightarrow> True | _ \<Rightarrow> False) (dump_entities d)"

definition needs_usage :: "dump \<Rightarrow> bool" where
  "needs_usage d = list_ex (\<lambda>e. case e of Command_Usage _ \<Rightarrow> True | _ \<Rightarrow> False) (dump_entities d)"

definition open_usage_store :: "usage_store option \<Rightarrow> import_error + unit" where
  "open_usage_store u = (case u of None \<Rightarrow> Inl No_Index_Database
     | Some d \<Rightarrow> if usage_has_table d then Inr () else Inl No_Usage_Table)"

definition write_relationship :: "import_env \<Rightarrow> import_progress \<Rightarrow> resolved_relationship \<Rightarrow> import_progress \<Rightarrow> import_progress importing" where
  "write_relationship M p x q = insert_relationship M (rr_kind x) (ip_landed p ! rr_from x) (ip_landed p ! rr_to x)
     (rr_created_at x) q"

definition write_dump :: "import_env \<Rightarrow> dump \<Rightarrow> import_progress importing" where
  "write_dump M d =
     bind (fold_each (insert_entity M) (dump_entities d)
       \<lparr>ip_landed = [], ip_summary = summary_of_merge (merged_memory_entries d), ip_carriers = []\<rparr>) (\<lambda>p.
     fold_each (write_relationship M p) (dump_relationships d) p)"

definition commit_dump ::
    "commit_outcome \<Rightarrow> import_world \<Rightarrow> import_world \<Rightarrow> import_progress \<Rightarrow> import_world \<times> (import_error + import_progress)" where
  "commit_dump c w w1 p = (case c of
     Memory_Refuses \<Rightarrow> (w, Inl Commit_Refused)
   | Registry_Refuses \<Rightarrow> (w\<lparr>iw_memory := iw_memory w1\<rparr>, Inl Commit_Refused)
   | Usage_Refuses \<Rightarrow> (w1\<lparr>iw_usage := iw_usage w\<rparr>, Inl Commit_Refused)
   | All_Commit \<Rightarrow> (w1, case notes_missing_embeddings (iw_memory w1) False of
       Inl e \<Rightarrow> Inl (Import_Store e)
     | Inr missing \<Rightarrow> Inr (p\<lparr>ip_summary := (ip_summary p)\<lparr>is_needing_embedding := length missing\<rparr>\<rparr>)))"

definition apply_dump :: "import_env \<Rightarrow> commit_outcome \<Rightarrow> dump \<Rightarrow> import_progress importing" where
  "apply_dump M c d = (\<lambda>w.
     if needs_registry d \<and> iw_registry w = None then (w, Inl No_Registry)
     else case (if needs_usage d then open_usage_store (iw_usage w) else Inr ()) of
       Inl e \<Rightarrow> (w, Inl e)
     | Inr _ \<Rightarrow> (case write_dump M d w of
         (_, Inl e) \<Rightarrow> (w, Inl e)
       | (w1, Inr p) \<Rightarrow> commit_dump c w w1 p))"

text \<open>The user imports the same file again until it succeeds.\<close>

fun import_attempts ::
    "import_env \<Rightarrow> dump \<Rightarrow> commit_outcome list \<Rightarrow> import_world \<Rightarrow> import_world \<times> (import_error + import_progress)" where
  "import_attempts M d [] w = (w, Inl Commit_Refused)"
| "import_attempts M d (c # cs) w = (case apply_dump M c d w of
     (w1, Inl e) \<Rightarrow> import_attempts M d cs w1
   | (w1, Inr p) \<Rightarrow> (w1, Inr p))"

section \<open>What an import leaves\<close>

definition has_row :: "note_id \<Rightarrow> string \<Rightarrow> memory_store \<Rightarrow> bool" where
  "has_row i k s = list_ex (\<lambda>r. row_uuid r = i \<and> row_entity_id r = k) (note_rows s)"

lemma has_row_grows: "grows s t \<Longrightarrow> has_row i k s \<Longrightarrow> has_row i k t"
  unfolding has_row_def list_ex_iff grows_def row_evolves_def
  by (auto dest!: rows_evolve_in simp: row_evolves_def)

lemma grow_op_run: "grow_op m \<Longrightarrow> m s = (t, r) \<Longrightarrow> grows s t"
  by (metis fst_conv keeps_def)

text \<open>An imported entry has its row, under the id the import returns.\<close>

lemma import_entry_row:
  assumes wf: "wf_store s" and ne: "uuid \<noteq> []"
    and run: "import_entry E now uuid kind title body tags files at st src va iv (Some k) rem q s = (t, Inr (i, created))"
  shows "has_row i k t"
proof -
  let ?row = "(new_row uuid kind title body at st k)
    \<lparr>row_source_ref := src, row_valid_at := va, row_invalid_at := iv, row_remote_id := rem\<rparr>"
  obtain v x where ins: "sql_insert_note ?row s = (v, x)" by (cases "sql_insert_note ?row s")
  define guard :: "unit op" where "guard = (if x = Inl (Sql UniqueViolation)
      then bind (reading (\<lambda>s. note_id_for_entity_id s k)) (\<lambda>found.
        if found = None then reading (\<lambda>s. Inl (identity_already_taken s uuid rem)) else ok ())
      else ok ())"
  define give_origin :: "note_id \<Rightarrow> bool \<Rightarrow> unit op" where
    "give_origin = (\<lambda>i c. case q of None \<Rightarrow> ok () | Some og \<Rightarrow> if c then set_origin i og else ok ())"
  have "bind guard (\<lambda>_. bind (recover_from_entity_id_collision E now x k tags files) (\<lambda>(i, created).
      bind (give_origin i created) (\<lambda>_. ok (i, created)))) v = (t, Inr (i, created))"
    using run unfolding import_entry_def Let_def option.case bind_attempt ins prod.case guard_def give_origin_def .
  then obtain w0 y where g: "guard v = (w0, Inr y)" and rest: "bind (recover_from_entity_id_collision E now x k tags files)
      (\<lambda>(i, created). bind (give_origin i created) (\<lambda>_. ok (i, created))) w0 = (t, Inr (i, created))"
    unfolding bind_eq_Inr [of guard] by blast
  have "w0 = v" using g by (auto simp: guard_def bind_reading split: if_splits sum.splits)
  with rest obtain u z where rec': "recover_from_entity_id_collision E now x k tags files v = (u, Inr z)"
    and o: "(case z of (i, created) \<Rightarrow> bind (give_origin i created) (\<lambda>_. ok (i, created))) u = (t, Inr (i, created))"
    unfolding bind_eq_Inr [of "recover_from_entity_id_collision E now x k tags files"] by blast
  have z: "z = (i, created)" and org: "give_origin i created u = (t, Inr ())"
    using o by (cases z, auto simp: bind_eq_Inr)+
  note rec = rec' [unfolded z]
  have "grows u t"
  proof -
    have "grow_op (give_origin i created)" unfolding give_origin_def by (intro wf_intros)
    then show ?thesis using org by (metis fst_conv keeps_def)
  qed
  moreover have "has_row i k u"
  proof (cases x)
    case (Inr y)
    then have v: "v = s\<lparr>note_rows := note_rows s @ [?row\<lparr>row_id := Suc (rowid_seq s)\<rparr>], rowid_seq := Suc (rowid_seq s)\<rparr>"
      using ins by (auto simp: sql_insert_note_def split: if_splits)
    have wfv: "wf_store v" using wf_insert_note [of ?row s] wf ne ins by (simp add: new_row_def)
    have found: "uuid_for_rowid v (rowid_seq v) = Inr (Some uuid)"
      using find_last_row [OF wfv] ne v by (simp add: uuid_for_rowid_def select_one_def id_of_row_def new_row_def)
    from rec Inr found have att: "\<exists>l. attach_tags_and_files E now uuid tags files v = (u, Inr l)" and i: "i = uuid"
      by (auto simp: recover_from_entity_id_collision_def bind_eq_Inr)
    then have "grows v u" using grow_op_run [OF attach_rules(2) [of E now uuid tags files]] by blast
    moreover have "has_row uuid k v" by (simp add: v new_row_def has_row_def)
    ultimately show ?thesis unfolding i by (rule has_row_grows)
  next
    case (Inl e)
    then have v: "v = s" and e: "e = Sql UniqueViolation"
      using ins by (auto simp: sql_insert_note_def split: if_splits)
    from rec Inl e v obtain n where n: "select_one (\<lambda>n. row_entity_id n = k) s = Some n" "i = row_uuid n"
      and att: "\<exists>l. attach_tags_and_files E now i tags files s = (u, Inr l)"
      by (auto simp: recover_from_entity_id_collision_def bind_eq_Inr split: option.splits if_splits)
    have "grows s u" using att grow_op_run [OF attach_rules(2) [of E now i tags files]] by blast
    moreover have "has_row i k s" using n by (auto simp: select_one_def find_Some_iff has_row_def list_ex_iff)
    ultimately show ?thesis by (rule has_row_grows)
  qed
  ultimately show ?thesis by (rule has_row_grows)
qed

lemma import_edge_lands:
  assumes "import_edge now i j k at s = (t, Inr b)" "k \<in> set EDGE_KINDS"
  shows "(i, j, k) \<in> set (map edge_key (memory_edges t))"
  using assms by (auto simp: import_edge_def sql_insert_edge_def bind_def edge_key_def split: if_splits)

section \<open>Where entities land\<close>

definition known_project :: "string \<Rightarrow> nat \<Rightarrow> import_world \<Rightarrow> bool" where
  "known_project root i w = (case iw_registry w of None \<Rightarrow> False
     | Some g \<Rightarrow> list_ex (\<lambda>p. pj_root_path p = root \<and> pj_id p = i) (reg_projects g))"

definition known_dep :: "nat \<Rightarrow> nat \<Rightarrow> import_world \<Rightarrow> bool" where
  "known_dep i j w = (case iw_registry w of None \<Rightarrow> False | Some g \<Rightarrow> (i, j) \<in> set (reg_deps g))"

definition recorded :: "import_world \<Rightarrow> (string \<times> int) list" where
  "recorded w = (case iw_usage w of None \<Rightarrow> [] | Some d \<Rightarrow> usage_rows d)"

fun landed_ok :: "import_env \<Rightarrow> import_world \<Rightarrow> dump_entity \<Rightarrow> landed \<Rightarrow> bool" where
  "landed_ok M w (Memory_Entry e) (Landed_Memory i a) = has_row i (dump_key (im_env M) e) (iw_memory w)"
| "landed_ok M w (Dump_Project q) (Landed_Project i) = known_project (dp_root_path q) i w"
| "landed_ok M w (Command_Usage u) Landed_Command = True"
| "landed_ok M w e l = False"

definition world_grows :: "import_world \<Rightarrow> import_world \<Rightarrow> bool" where
  "world_grows w w' = (grows (iw_memory w) (iw_memory w') \<and>
     (\<forall>root i. known_project root i w \<longrightarrow> known_project root i w') \<and>
     (\<forall>i j. known_dep i j w \<longrightarrow> known_dep i j w'))"

lemma world_grows_refl: "world_grows w w"
  by (simp add: world_grows_def growth.R_refl)

lemma world_grows_trans: "world_grows w w1 \<Longrightarrow> world_grows w1 w2 \<Longrightarrow> world_grows w w2"
  by (auto simp: world_grows_def intro: growth.R_trans)

lemma landed_ok_grows: "world_grows w w' \<Longrightarrow> landed_ok M w e l \<Longrightarrow> landed_ok M w' e l"
  by (cases "(M, w, e, l)" rule: landed_ok.cases) (auto simp: world_grows_def has_row_grows)

definition commands_of :: "dump_entity list \<Rightarrow> (string \<times> int) list" where
  "commands_of es = concat (map (\<lambda>e. case e of Command_Usage u \<Rightarrow> [(cu_command u, cu_at u)] | _ \<Rightarrow> []) es)"

definition entries_of :: "dump_entity list \<Rightarrow> memory_entry list" where
  "entries_of es = concat (map (\<lambda>e. case e of Memory_Entry m \<Rightarrow> [m] | _ \<Rightarrow> []) es)"

definition entries_seen :: "import_progress \<Rightarrow> nat" where
  "entries_seen p = is_memory_entries (ip_summary p) + is_already_present (ip_summary p)"

lemma on_memory_Inr:
  "on_memory m w = (w', Inr x) \<longleftrightarrow> (\<exists>s. m (iw_memory w) = (s, Inr x) \<and> w' = w\<lparr>iw_memory := s\<rparr>)"
  by (auto simp: on_memory_def split: prod.splits sum.splits)

lemma on_memory_grows:
  assumes "on_memory m w = (w', Inr x)" "wf_op m" "grow_op m" "wf_store (iw_memory w)"
  shows "wf_store (iw_memory w') \<and> world_grows w w' \<and> recorded w' = recorded w \<and> iw_usage w' = iw_usage w"
proof -
  from assms(1) obtain s where s: "m (iw_memory w) = (s, Inr x)" "w' = w\<lparr>iw_memory := s\<rparr>"
    by (auto simp: on_memory_Inr)
  have "wf_store s" by (rule keeps_carriesD [OF assms(2,4) s(1)])
  moreover have "grows (iw_memory w) s" by (rule grow_op_run [OF assms(3) s(1)])
  ultimately show ?thesis by (simp add: s world_grows_def known_project_def known_dep_def recorded_def)
qed

text \<open>What the file needs for its entries to be rows: a minted uuid is not empty, a carried one neither.\<close>

definition importable :: "import_env \<Rightarrow> dump_entity list \<Rightarrow> bool" where
  "importable M es = (mints_ids (im_env M) \<and> list_all (\<lambda>m. me_uuid m \<noteq> Some []) (entries_of es))"

lemma import_memory_entry_rules:
  assumes "mints_ids (im_env M)" "me_uuid e \<noteq> Some []"
  shows "wf_op (import_memory_entry M e)" "grow_op (import_memory_entry M e)"
  using assms unfolding import_memory_entry_def
  by (auto intro!: import_entry_rules simp: uuid_v7_nonempty split: option.split)

lemma list_ex_map: "list_ex P (map h xs) = list_ex (\<lambda>x. P (h x)) xs"
  by (induction xs) auto

lemma registry_register_spec:
  assumes "registry_register root db g = (g', i)"
  shows "list_ex (\<lambda>p. pj_root_path p = root \<and> pj_id p = i) (reg_projects g') \<and> reg_deps g' = reg_deps g \<and>
    (\<forall>r j. list_ex (\<lambda>p. pj_root_path p = r \<and> pj_id p = j) (reg_projects g) \<longrightarrow>
       list_ex (\<lambda>p. pj_root_path p = r \<and> pj_id p = j) (reg_projects g'))"
proof (cases "find (\<lambda>p. pj_root_path p = root) (reg_projects g)")
  case None
  then show ?thesis using assms by (auto simp: registry_register_def)
next
  case (Some q)
  let ?f = "\<lambda>q. if pj_root_path q = root then q\<lparr>pj_db_path := db\<rparr> else q"
  have g': "g' = g\<lparr>reg_projects := map ?f (reg_projects g)\<rparr>" "i = pj_id q"
    using assms Some by (auto simp: registry_register_def)
  have q: "q \<in> set (reg_projects g)" "pj_root_path q = root" using Some by (auto simp: find_Some_iff)
  have "list_ex (\<lambda>p. pj_root_path p = r \<and> pj_id p = j) (reg_projects g') \<longleftrightarrow>
      list_ex (\<lambda>p. pj_root_path p = r \<and> pj_id p = j) (reg_projects g)" for r j
  proof -
    have e: "(\<lambda>p. pj_root_path (?f p) = r \<and> pj_id (?f p) = j) = (\<lambda>p. pj_root_path p = r \<and> pj_id p = j)"
      by (rule ext) simp
    have rg: "reg_projects g' = map ?f (reg_projects g)" unfolding g' by simp
    show ?thesis unfolding rg list_ex_map e ..
  qed
  then show ?thesis using g' q by (auto simp: list_ex_iff)
qed

lemma insert_entity_lands:
  assumes run: "insert_entity M e p w = (w', Inr p')" and im: "importable M [e]"
    and wf: "wf_store (iw_memory w)"
  shows "wf_store (iw_memory w') \<and> world_grows w w' \<and> recorded w' = recorded w @ commands_of [e] \<and>
    (\<exists>l. ip_landed p' = ip_landed p @ [l] \<and> landed_ok M w' e l) \<and>
    entries_seen p' = entries_seen p + length (entries_of [e])"
proof (cases e)
  case (Memory_Entry m)
  from run obtain w1 i created where o: "on_memory (import_memory_entry M m) w = (w1, Inr (i, created))"
    and rest: "w' = w1" "ip_landed p' = ip_landed p @ [Landed_Memory i (length (ip_carriers p))]"
      "entries_seen p' = Suc (entries_seen p)"
    by (auto simp: Memory_Entry bind_eq_Inr entries_seen_def split: if_splits)
  have ok: "mints_ids (im_env M)" "me_uuid m \<noteq> Some []" using im by (simp_all add: importable_def entries_of_def Memory_Entry)
  note G = on_memory_grows [OF o import_memory_entry_rules [OF ok] wf]
  from o obtain s where s: "import_memory_entry M m (iw_memory w) = (s, Inr (i, created))" "w1 = w\<lparr>iw_memory := s\<rparr>"
    by (auto simp: on_memory_Inr)
  have "(case me_uuid m of Some u \<Rightarrow> u | None \<Rightarrow> uuid_v7_at (im_env M) (me_created_at m) (im_entropy M (me_ref m))) \<noteq> []"
    using ok by (auto simp: uuid_v7_nonempty split: option.split)
  from import_entry_row [OF wf this s(1) [unfolded import_memory_entry_def]]
  have "has_row i (dump_key (im_env M) m) s" .
  then show ?thesis using G rest by (simp add: Memory_Entry s commands_of_def entries_of_def)
next
  case (Dump_Project q)
  from run obtain g g' i where g: "iw_registry w = Some g"
      "registry_register (dp_root_path q) (index_db_path (dp_root_path q)) g = (g', i)"
    and rest: "w' = w\<lparr>iw_registry := Some g'\<rparr>" "ip_landed p' = ip_landed p @ [Landed_Project i]"
      "entries_seen p' = entries_seen p"
    by (auto simp: Dump_Project entries_seen_def split: option.splits prod.splits)
  note registry_register_spec [OF g(2)]
  then show ?thesis using wf g rest
    by (simp add: Dump_Project world_grows_def growth.R_refl known_project_def known_dep_def recorded_def
      commands_of_def entries_of_def)
next
  case (Command_Usage u)
  then show ?thesis using run wf
    by (auto simp: recorded_def world_grows_def growth.R_refl known_project_def known_dep_def
      commands_of_def entries_of_def entries_seen_def split: option.splits)
qed

lemma importable_Cons: "importable M (e # es) \<longleftrightarrow> importable M [e] \<and> importable M es"
  by (auto simp: importable_def entries_of_def split: dump_entity.split)

lemma insert_entities_land:
  assumes "fold_each (insert_entity M) es p w = (w', Inr p')" "importable M es" "wf_store (iw_memory w)"
    and "list_all2 (landed_ok M w) before (ip_landed p)"
  shows "wf_store (iw_memory w') \<and> world_grows w w' \<and> recorded w' = recorded w @ commands_of es \<and>
    list_all2 (landed_ok M w') (before @ es) (ip_landed p') \<and>
    entries_seen p' = entries_seen p + length (entries_of es)"
  using assms
proof (induction es arbitrary: p w before)
  case Nil
  then show ?case by (simp add: world_grows_refl commands_of_def entries_of_def)
next
  case (Cons e es)
  from Cons.prems(1) obtain w1 p1 where step: "insert_entity M e p w = (w1, Inr p1)"
    and rest: "fold_each (insert_entity M) es p1 w1 = (w', Inr p')" by (auto simp: bind_eq_Inr)
  note im = importable_Cons [THEN iffD1, OF Cons.prems(2)]
  note L = insert_entity_lands [OF step conjunct1 [OF im] Cons.prems(3)]
  then obtain l where l: "ip_landed p1 = ip_landed p @ [l]" "landed_ok M w1 e l" by blast
  have "list_all2 (landed_ok M w1) (before @ [e]) (ip_landed p1)"
    unfolding l(1) by (rule list_all2_appendI)
      (use Cons.prems(4) L l(2) in \<open>auto intro: list_all2_mono landed_ok_grows\<close>)
  note I = Cons.IH [OF rest conjunct2 [OF im] _ this]
  have c: "commands_of (e # es) = commands_of [e] @ commands_of es"
    "length (entries_of (e # es)) = length (entries_of [e]) + length (entries_of es)"
    by (simp_all add: commands_of_def entries_of_def)
  show ?case unfolding c using I L by (auto intro: world_grows_trans)
qed

section \<open>Where relationships land\<close>

definition edge_between :: "string \<Rightarrow> string \<Rightarrow> string \<Rightarrow> memory_store \<Rightarrow> bool" where
  "edge_between kind k l s = list_ex (\<lambda>e. edge_row_kind e = kind \<and> has_row (edge_from_id e) k s \<and>
     has_row (edge_to_id e) l s) (memory_edges s)"

definition dep_between :: "string \<Rightarrow> string \<Rightarrow> import_world \<Rightarrow> bool" where
  "dep_between r q w = (\<exists>i j. known_project r i w \<and> known_project q j w \<and> known_dep i j w)"

fun linked :: "import_env \<Rightarrow> import_world \<Rightarrow> relationship_kind \<Rightarrow> dump_entity \<Rightarrow> dump_entity \<Rightarrow> bool" where
  "linked M w Depends_On (Dump_Project p) (Dump_Project q) = dep_between (dp_root_path p) (dp_root_path q) w"
| "linked M w Depends_On e f = False"
| "linked M w kind (Memory_Entry e) (Memory_Entry f) = edge_between (relationship_kind_str kind)
     (dump_key (im_env M) e) (dump_key (im_env M) f) (iw_memory w)"
| "linked M w kind e f = False"

lemma edge_between_grows:
  assumes "grows s t" "edge_between kind k l s"
  shows "edge_between kind k l t"
proof -
  obtain e where e: "e \<in> set (memory_edges s)" "edge_row_kind e = kind" "has_row (edge_from_id e) k s"
    "has_row (edge_to_id e) l s" using assms(2) by (auto simp: edge_between_def list_ex_iff)
  have "e \<in> set (memory_edges t)" using assms(1) e(1) by (auto simp: grows_def)
  then show ?thesis using e has_row_grows [OF assms(1)] by (auto simp: edge_between_def list_ex_iff)
qed

lemma dep_between_grows: "world_grows w w' \<Longrightarrow> dep_between r q w \<Longrightarrow> dep_between r q w'"
  unfolding world_grows_def dep_between_def by blast

lemma world_memory_grows: "world_grows w w' \<Longrightarrow> grows (iw_memory w) (iw_memory w')"
  by (simp add: world_grows_def)

lemma linked_grows: "world_grows w w' \<Longrightarrow> linked M w kind e f \<Longrightarrow> linked M w' kind e f"
  by (cases "(M, w, kind, e, f)" rule: linked.cases)
    (auto simp: dep_between_grows world_memory_grows elim: edge_between_grows [rotated])

lemma insert_edge_lands:
  assumes "on_memory (import_edge now i j (relationship_kind_str kind) created) w = (w', Inr b)"
    and "wf_store (iw_memory w)" "has_row i k (iw_memory w)" "has_row j l (iw_memory w)"
    and "kind \<noteq> Depends_On"
  shows "wf_store (iw_memory w') \<and> world_grows w w' \<and> recorded w' = recorded w \<and>
    edge_between (relationship_kind_str kind) k l (iw_memory w')"
proof -
  note G = on_memory_grows [OF assms(1) import_edge_rules(1,2) assms(2)]
  from assms(1) obtain s where s: "import_edge now i j (relationship_kind_str kind) created (iw_memory w) = (s, Inr b)"
    "w' = w\<lparr>iw_memory := s\<rparr>" by (auto simp: on_memory_Inr)
  have "relationship_kind_str kind \<in> set EDGE_KINDS" using assms(5) by (cases kind) (auto simp: EDGE_KINDS_def)
  from import_edge_lands [OF s(1) this] have "(i, j, relationship_kind_str kind) \<in> set (map edge_key (memory_edges (iw_memory w')))"
    by (simp add: s)
  moreover have "has_row i k (iw_memory w')" "has_row j l (iw_memory w')"
    using G assms(3,4) by (auto simp: world_grows_def has_row_grows)
  ultimately have "edge_between (relationship_kind_str kind) k l (iw_memory w')"
    by (auto simp: edge_between_def list_ex_iff edge_key_def)
  then show ?thesis using G by blast
qed

lemma registry_add_dep_spec:
  assumes "registry_add_dep i j g = Some g'"
  shows "reg_projects g' = reg_projects g \<and> set (reg_deps g') = insert (i, j) (set (reg_deps g))"
  using assms by (auto simp: registry_add_dep_def split: if_splits)

lemma on_memory_set_superseded:
  assumes "on_memory (set_superseded_by j i) w = (w', Inr x)" "wf_store (iw_memory w)"
  shows "wf_store (iw_memory w') \<and> world_grows w w' \<and> recorded w' = recorded w"
  using on_memory_grows [OF assms(1) update_ops_rules(2,7) assms(2)] by simp

lemma link_count_simps [simp]:
  "ip_landed (link_count p) = ip_landed p" "is_memory_entries (ip_summary (link_count p)) = is_memory_entries (ip_summary p)"
  "is_already_present (ip_summary (link_count p)) = is_already_present (ip_summary p)"
  by (simp_all add: link_count_def)

definition carries_on :: "import_world \<Rightarrow> import_progress \<Rightarrow> import_world \<Rightarrow> import_progress \<Rightarrow> bool" where
  "carries_on w p w' p' = (wf_store (iw_memory w') \<and> world_grows w w' \<and> recorded w' = recorded w \<and>
     ip_landed p' = ip_landed p \<and> entries_seen p' = entries_seen p)"

lemma insert_dependency_links:
  assumes run: "insert_relationship M Depends_On a b c p w = (w', Inr p')" and wf: "wf_store (iw_memory w)"
    and la: "landed_ok M w e a" and lb: "landed_ok M w f b"
  shows "carries_on w p w' p' \<and> linked M w' Depends_On e f"
proof -
  obtain i j where ab: "a = Landed_Project i" "b = Landed_Project j"
    using run by (cases a; cases b) (auto simp: fail_def)
  obtain q r where ef: "e = Dump_Project q" "f = Dump_Project r" using la lb ab by (cases e; cases f) auto
  from run ab obtain g g' where g: "iw_registry w = Some g" "registry_add_dep i j g = Some g'"
    "w' = w\<lparr>iw_registry := Some g'\<rparr>" "ip_landed p' = ip_landed p" "entries_seen p' = entries_seen p"
    by (auto simp: entries_seen_def split: option.splits)
  note registry_add_dep_spec [OF g(2)]
  then have "world_grows w w'" "known_dep i j w'" "recorded w' = recorded w"
    using g by (auto simp: world_grows_def growth.R_refl known_project_def known_dep_def recorded_def)
  moreover from this la lb have "known_project (dp_root_path q) i w'" "known_project (dp_root_path r) j w'"
    by (auto simp: ab ef world_grows_def)
  ultimately show ?thesis using wf g by (auto simp: ef dep_between_def carries_on_def)
qed

lemma insert_memory_edge_links:
  assumes run: "insert_relationship M kind a b c p w = (w', Inr p')" and wf: "wf_store (iw_memory w)"
    and la: "landed_ok M w e a" and lb: "landed_ok M w f b" and k: "kind \<noteq> Depends_On"
  shows "carries_on w p w' p' \<and> linked M w' kind e f"
proof -
  obtain i x j y where ab: "a = Landed_Memory i x" "b = Landed_Memory j y"
    using run k by (cases kind; cases a; cases b) (auto simp: fail_def)
  obtain q r where ef: "e = Memory_Entry q" "f = Memory_Entry r" using la lb ab by (cases e; cases f) auto
  have rows: "has_row i (dump_key (im_env M) q) (iw_memory w)" "has_row j (dump_key (im_env M) r) (iw_memory w)"
    using la lb by (simp_all add: ab ef)
  obtain w1 bb where o: "on_memory (import_edge (im_now M) i j (relationship_kind_str kind) c) w = (w1, Inr bb)"
    and rest: "(kind = Supersedes \<and> (\<exists>u. on_memory (set_superseded_by j i) w1 = (w', Inr u))) \<or> (kind \<noteq> Supersedes \<and> w' = w1)"
    and p': "ip_landed p' = ip_landed p" "entries_seen p' = entries_seen p"
    using run k by (cases kind) (auto simp: ab bind_eq_Inr entries_seen_def)
  note E = insert_edge_lands [OF o wf rows k]
  have "wf_store (iw_memory w') \<and> world_grows w1 w' \<and> recorded w' = recorded w1"
    using rest E on_memory_set_superseded by (auto simp: world_grows_refl)
  moreover from this have "edge_between (relationship_kind_str kind) (dump_key (im_env M) q) (dump_key (im_env M) r) (iw_memory w')"
    using E edge_between_grows world_memory_grows by blast
  moreover have "linked M w' kind e f = edge_between (relationship_kind_str kind) (dump_key (im_env M) q)
      (dump_key (im_env M) r) (iw_memory w')" using k by (cases kind) (simp_all add: ef)
  ultimately show ?thesis using E p' by (auto simp: carries_on_def intro: world_grows_trans)
qed

lemma insert_relationship_links:
  assumes "insert_relationship M kind a b c p w = (w', Inr p')" "wf_store (iw_memory w)"
    and "landed_ok M w e a" "landed_ok M w f b"
  shows "carries_on w p w' p' \<and> linked M w' kind e f"
  using insert_dependency_links insert_memory_edge_links assms by (cases "kind = Depends_On") blast+

lemma insert_relationships_link:
  assumes "fold_each (write_relationship M p) rs q w = (w', Inr p')" "wf_store (iw_memory w)"
    and "list_all2 (landed_ok M w) es (ip_landed p)"
    and "\<And>x. x \<in> set rs \<Longrightarrow> rr_from x < length es \<and> rr_to x < length es"
  shows "carries_on w q w' p' \<and> (\<forall>x \<in> set rs. linked M w' (rr_kind x) (es ! rr_from x) (es ! rr_to x))"
  using assms
proof (induction rs arbitrary: q w)
  case Nil
  then show ?case by (simp add: carries_on_def world_grows_refl)
next
  case (Cons x rs)
  from Cons.prems(1) obtain w1 q1 where step: "write_relationship M p x q w = (w1, Inr q1)"
    and rest: "fold_each (write_relationship M p) rs q1 w1 = (w', Inr p')" by (auto simp: bind_eq_Inr)
  have ends: "landed_ok M w (es ! rr_from x) (ip_landed p ! rr_from x)" "landed_ok M w (es ! rr_to x) (ip_landed p ! rr_to x)"
    using Cons.prems(3,4) by (auto simp: list_all2_conv_all_nth)
  note S = insert_relationship_links [OF step [unfolded write_relationship_def] Cons.prems(2) ends]
  then have g: "world_grows w w1" "wf_store (iw_memory w1)" by (auto simp: carries_on_def)
  have "list_all2 (landed_ok M w1) es (ip_landed p)"
    using Cons.prems(3) by (rule list_all2_mono) (rule landed_ok_grows [OF g(1)])
  note I = Cons.IH [OF rest g(2) this Cons.prems(4)]
  then have I1: "carries_on w1 q1 w' p'" and I2: "\<forall>x \<in> set rs. linked M w' (rr_kind x) (es ! rr_from x) (es ! rr_to x)"
    by auto
  have "linked M w' (rr_kind x) (es ! rr_from x) (es ! rr_to x)"
    by (rule linked_grows [OF _ conjunct2 [OF S]]) (use I1 in \<open>simp add: carries_on_def\<close>)
  moreover have "carries_on w q w' p'"
    using I1 S by (auto simp: carries_on_def intro: world_grows_trans)
  ultimately show ?case using I2 by simp
qed

section \<open>What the reader passes on\<close>

lemma refuse_blank_uuids:
  "refuse_blank_identities es = Inr () \<Longrightarrow> Memory_Entry m \<in> set es \<Longrightarrow> me_uuid m \<noteq> Some []"
  by (induction es rule: refuse_blank_identities.induct) (auto simp: is_blank_def split: if_splits)

lemma entries_of_set: "m \<in> set (entries_of es) \<longleftrightarrow> Memory_Entry m \<in> set es"
  by (force simp: entries_of_def split: dump_entity.splits)

lemma inherit_from_uuid: "inherit_from ts fs e = Memory_Entry m \<Longrightarrow> \<exists>k. e = Memory_Entry k \<and> me_uuid m = me_uuid k"
  by (cases e) auto

lemma read_dump_importable:
  assumes "read_dump (im_env M) D bytes = Inr d" "mints_ids (im_env M)"
  shows "importable M (dump_entities d)"
proof -
  let ?E = "im_env M"
  obtain es rs m rels where p: "refuse_blank_identities es = Inr ()"
    "d = \<lparr>dump_entities = cl_entities (collapse_by_convergence_key ?E es),
       dump_relationships = redirect_to_survivors rels (cl_remap (collapse_by_convergence_key ?E es)),
       merged_memory_entries = cl_merged (collapse_by_convergence_key ?E es)\<rparr>"
    by (rule read_dump_parts [OF assms(1)])
  have "me_uuid e \<noteq> Some []" if e: "Memory_Entry e \<in> set (dump_entities d)" for e
  proof -
    from e obtain j where j: "j \<in> set (survivors ?E es)" "enriched ?E es ! j = Memory_Entry e"
      using collapse_spec [of ?E es] by (auto simp: p(2))
    then have s: "j < length es" "survivor_of ?E es j = j" by (auto simp: survivors_def)
    from inherit_from_uuid [OF j(2) [unfolded enriched_nth [OF s]]] obtain k where
      "es ! j = Memory_Entry k" "me_uuid e = me_uuid k" by blast
    then show ?thesis using refuse_blank_uuids [OF p(1)] s(1) nth_mem by metis
  qed
  then show ?thesis using assms(2) by (auto simp: importable_def list_all_iff entries_of_set)
qed

section \<open>One import, and one that was tried again\<close>

lemma missing_embeddings_counted: "wf_store s \<Longrightarrow> \<exists>l. notes_missing_embeddings s b = Inr l"
  unfolding notes_missing_embeddings_def
  by (rule exI, rule collect_map_cong)
    (auto simp: reembed_row_def parse_id_def wf_store_def wf_keys_def note_id_from_str_def)

definition dump_landed :: "import_env \<Rightarrow> dump \<Rightarrow> import_world \<Rightarrow> bool" where
  "dump_landed M d w = (list_all (\<lambda>e. list_ex (\<lambda>r. row_entity_id r = dump_key (im_env M) e) (note_rows (iw_memory w)))
       (entries_of (dump_entities d)) \<and>
     list_all (\<lambda>x. linked M w (rr_kind x) (dump_entities d ! rr_from x) (dump_entities d ! rr_to x))
       (dump_relationships d))"

definition sound_dump :: "import_env \<Rightarrow> dump \<Rightarrow> bool" where
  "sound_dump M d = (importable M (dump_entities d) \<and> list_all (\<lambda>x. rr_from x < length (dump_entities d) \<and>
     rr_to x < length (dump_entities d)) (dump_relationships d))"

lemma read_dump_sound:
  "read_dump (im_env M) D bytes = Inr d \<Longrightarrow> mints_ids (im_env M) \<Longrightarrow> sound_dump M d"
  using read_dump_ends read_dump_importable by (fastforce simp: sound_dump_def list_all_iff)

lemma write_dump_lands:
  assumes run: "write_dump M d w = (w', Inr p)" and ok: "sound_dump M d" and wf: "wf_store (iw_memory w)"
  shows "wf_store (iw_memory w') \<and> world_grows w w' \<and> recorded w' = recorded w @ commands_of (dump_entities d) \<and>
    dump_landed M d w' \<and> entries_seen p = length (entries_of (dump_entities d))"
proof -
  let ?p0 = "\<lparr>ip_landed = [], ip_summary = summary_of_merge (merged_memory_entries d), ip_carriers = []\<rparr>"
  from run obtain w1 q where es: "fold_each (insert_entity M) (dump_entities d) ?p0 w = (w1, Inr q)"
    and rs: "fold_each (write_relationship M q) (dump_relationships d) q w1 = (w', Inr p)"
    by (auto simp: write_dump_def bind_eq_Inr)
  have im: "importable M (dump_entities d)"
    and bd: "\<And>x. x \<in> set (dump_relationships d) \<Longrightarrow> rr_from x < length (dump_entities d) \<and> rr_to x < length (dump_entities d)"
    using ok by (auto simp: sound_dump_def list_all_iff)
  have E: "wf_store (iw_memory w1)" "world_grows w w1" "recorded w1 = recorded w @ commands_of (dump_entities d)"
    "list_all2 (landed_ok M w1) (dump_entities d) (ip_landed q)" "entries_seen q = length (entries_of (dump_entities d))"
    using insert_entities_land [OF es im wf, of "[]"] by (simp_all add: entries_seen_def summary_of_merge_def)
  note R = insert_relationships_link [OF rs E(1,4) bd]
  then have g: "world_grows w1 w'" by (simp add: carries_on_def)
  have "list_ex (\<lambda>r. row_entity_id r = dump_key (im_env M) m) (note_rows (iw_memory w'))"
    if m: "m \<in> set (entries_of (dump_entities d))" for m
  proof -
    obtain n where n: "n < length (dump_entities d)" "dump_entities d ! n = Memory_Entry m"
      using m unfolding entries_of_set by (meson in_set_conv_nth)
    with E(4) have "landed_ok M w1 (Memory_Entry m) (ip_landed q ! n)" by (auto simp: list_all2_conv_all_nth)
    from landed_ok_grows [OF g this] show ?thesis
      by (cases "ip_landed q ! n") (auto simp: has_row_def list_ex_iff)
  qed
  then have "dump_landed M d w'" using R by (auto simp: dump_landed_def list_all_iff)
  then show ?thesis using R E by (auto simp: carries_on_def intro: world_grows_trans)
qed

text \<open>A failed attempt: nothing recorded, and what a partial commit left is an import's work.\<close>

lemma apply_dump_failed:
  assumes run: "apply_dump M c d w = (w', Inl e)" and ok: "sound_dump M d" and wf: "wf_store (iw_memory w)"
  shows "wf_store (iw_memory w') \<and> world_grows w w' \<and> recorded w' = recorded w"
proof (cases "w' = w")
  case True
  then show ?thesis using wf by (simp add: world_grows_refl)
next
  case False
  then obtain w1 p where wr: "write_dump M d w = (w1, Inr p)" and co: "commit_dump c w w1 p = (w', Inl e)"
    using run by (auto simp: apply_dump_def split: if_splits sum.splits prod.splits)
  note W = write_dump_lands [OF wr ok wf]
  then show ?thesis
    using co missing_embeddings_counted [of "iw_memory w1" False] wf
    by (auto simp: commit_dump_def world_grows_def known_project_def known_dep_def recorded_def growth.R_refl
      split: commit_outcome.splits)
qed

lemma apply_dump_done:
  assumes run: "apply_dump M c d w = (w', Inr p)" and ok: "sound_dump M d" and wf: "wf_store (iw_memory w)"
  shows "wf_store (iw_memory w') \<and> world_grows w w' \<and> recorded w' = recorded w @ commands_of (dump_entities d) \<and>
    dump_landed M d w' \<and> entries_seen p = length (entries_of (dump_entities d))"
proof -
  obtain q where "write_dump M d w = (w', Inr q)" "entries_seen p = entries_seen q"
    using run by (auto simp: apply_dump_def commit_dump_def entries_seen_def
      split: if_splits sum.splits prod.splits commit_outcome.splits)
  then show ?thesis using write_dump_lands [OF _ ok wf] by simp
qed

text \<open>
  C36. Importing a dump lands it exactly once, however often it was refused before. Let a file the
  reader accepts be imported again and again, every earlier attempt failing anywhere (a missing
  store, a constraint, a commit refused by the memory store, by the registry after the memory
  store was committed, or by the last store after both), until one succeeds. Then the store is
  well formed and nothing it held is lost; every entry of the dump is a row under its convergence
  key and every relationship an edge or dependency between the rows of its ends; every recorded
  command was inserted exactly once; and the summary counts every memory entry as added or present.
\<close>

theorem dump_import_lands_once:
  assumes "read_dump (im_env M) D bytes = Inr d" "mints_ids (im_env M)" "wf_store (iw_memory w)"
    and "import_attempts M d cs w = (w', Inr p)"
  shows "wf_store (iw_memory w') \<and> world_grows w w' \<and> dump_landed M d w' \<and>
    recorded w' = recorded w @ commands_of (dump_entities d) \<and>
    entries_seen p = length (entries_of (dump_entities d))"
  using assms(3,4)
proof (induction cs arbitrary: w)
  case (Cons c cs)
  note ok = read_dump_sound [OF assms(1,2)]
  obtain w1 r where s: "apply_dump M c d w = (w1, r)" by (cases "apply_dump M c d w")
  show ?case
  proof (cases r)
    case (Inl e)
    note F = apply_dump_failed [OF s [unfolded Inl] ok Cons.prems(1)]
    have "import_attempts M d cs w1 = (w', Inr p)" using Cons.prems(2) s Inl by simp
    from Cons.IH [OF conjunct1 [OF F] this] F show ?thesis by (auto intro: world_grows_trans)
  next
    case (Inr q)
    then show ?thesis using apply_dump_done [OF s [unfolded Inr] ok Cons.prems(1)] Cons.prems(2) s by simp
  qed
qed simp

section \<open>Two entries, two projects and a command, imported at the third attempt\<close>

definition parcel_entities :: "dump_entity list" where
  "parcel_entities = [Memory_Entry (demo_entry ''a'' ''k'' 2 [''x'']), Memory_Entry (demo_entry ''c'' ''l'' 3 []),
     Dump_Project \<lparr>dp_ref = ''p'', dp_root_path = ''/p'', dp_registered_at = None\<rparr>,
     Dump_Project \<lparr>dp_ref = ''q'', dp_root_path = ''/q'', dp_registered_at = None\<rparr>,
     Command_Usage \<lparr>cu_ref = ''u'', cu_command = ''search'', cu_at = 5\<rparr>]"

definition parcel_links :: "relationship list" where
  "parcel_links = [\<lparr>rl_kind = Supersedes, rl_from = ''c'', rl_to = ''a'', rl_created_at = Some 4\<rparr>,
     \<lparr>rl_kind = Depends_On, rl_from = ''p'', rl_to = ''q'', rl_created_at = None\<rparr>]"

definition parcel_codec :: dump_codec where
  "parcel_codec = \<lparr>
     decode_header = (\<lambda>l. if l = ''H'' then Some \<lparr>dh_format = ''portable-dump'', dh_format_version = 1,
       dh_generated_at = 0, dh_generator = []\<rparr> else None),
     decode_footer = (\<lambda>l. if l = ''F'' then Some \<lparr>df_counts = \<lparr>dc_entity =
         [(''command_usage'', 1), (''memory_entry'', 2), (''project'', 2)],
       dc_relationship = [(''depends_on'', 1), (''supersedes'', 1)]\<rparr>, df_digest = ''sha256:Hacpqust''\<rparr> else None),
     decode_record = (\<lambda>l. map_of [(''a'', Entity_Record (parcel_entities ! 0)), (''c'', Entity_Record (parcel_entities ! 1)),
       (''p'', Entity_Record (parcel_entities ! 2)), (''q'', Entity_Record (parcel_entities ! 3)),
       (''u'', Entity_Record (parcel_entities ! 4)), (''s'', Relationship_Record (parcel_links ! 0)),
       (''t'', Relationship_Record (parcel_links ! 1))] l)\<rparr>"

definition parcel_dump :: dump where
  "parcel_dump = \<lparr>dump_entities = parcel_entities, dump_relationships =
     [\<lparr>rr_kind = Supersedes, rr_from = 1, rr_to = 0, rr_created_at = Some 4\<rparr>,
      \<lparr>rr_kind = Depends_On, rr_from = 2, rr_to = 3, rr_created_at = None\<rparr>],
     merged_memory_entries = 0\<rparr>"

definition demo_import :: import_env where
  "demo_import = \<lparr>im_env = demo_env, im_now = 9, im_now_millis = 9000, im_entropy = (\<lambda>r. r)\<rparr>"

definition fresh_world :: import_world where
  "fresh_world = \<lparr>iw_memory = empty_store ''/p'', iw_registry = Some \<lparr>reg_projects = [], reg_seq = 0, reg_deps = []\<rparr>,
     iw_usage = Some \<lparr>usage_has_table = True, usage_rows = [(''init'', 1)]\<rparr>\<rparr>"

lemma parcel_read: "read_dump (im_env demo_import) parcel_codec
    (join [CHR 0x0A] [''H'', ''a'', ''c'', ''p'', ''q'', ''u'', ''s'', ''t'', ''F''] @ [CHR 0x0A]) = Inr parcel_dump"
  by code_simp

definition tried_world :: "import_world \<times> (import_error + import_progress)" where
  "tried_world = import_attempts demo_import parcel_dump [Registry_Refuses, Usage_Refuses, All_Commit] fresh_world"

lemma tried_world_Inr: "case snd tried_world of Inl _ \<Rightarrow> False | Inr p \<Rightarrow> is_already_present (ip_summary p) = 2"
  by code_simp

lemma demo_import_mints: "mints_ids (im_env demo_import)"
  by (simp add: mints_ids_def demo_import_def demo_env_def)

theorem dump_import_lands_once_witness:
  "recorded (fst tried_world) = [(''init'', 1), (''search'', 5)] \<and> dump_landed demo_import parcel_dump (fst tried_world)"
proof -
  obtain w p where t: "tried_world = (w, Inr p)"
    using tried_world_Inr by (metis prod.collapse sum.case(1) sum.exhaust)
  have "wf_store (iw_memory fresh_world)" by (simp add: fresh_world_def wf_empty_store)
  from dump_import_lands_once [OF parcel_read demo_import_mints this t [unfolded tried_world_def]]
  show ?thesis by (simp add: t recorded_def fresh_world_def commands_of_def parcel_dump_def parcel_entities_def)
qed

end
