(* ===== verification/Notes_Carrier.thy ===== *)
theory Notes_Carrier
  imports Fold Edges Sync_Client
begin

text \<open>
  The git carrier of entries (\<open>storage/git_notes/mod.rs\<close>, \<open>lock.rs\<close>, \<open>publish.rs\<close>,
  \<open>backend_impl.rs\<close>): the notes ref is a log of JSON lines, one note per commit, that writers
  append to under a lock, readers fold, and clones unite. Git itself is a parameter: a record of
  the subprocesses the code runs, each a function on the state of the world that returns its
  exit status and output. So are JSON and the clocks.
\<close>

section \<open>Git, JSON and the clocks\<close>

datatype show_outcome = Shown string | No_Note | Died string   \<comment> \<open>exit code 0, 1, another\<close>

datatype try_lock = Locked | Would_Block | Lock_Error string

record 'g git =
  git_rewrite_refs :: "'g \<Rightarrow> 'g \<times> string option"     \<comment> \<open>\<open>config --get-all notes.rewriteRef\<close>\<close>
  git_add_rewrite_ref :: "'g \<Rightarrow> 'g \<times> bool"           \<comment> \<open>\<open>config --add notes.rewriteRef\<close>\<close>
  git_head :: "'g \<Rightarrow> 'g \<times> string option"             \<comment> \<open>\<open>rev-parse HEAD\<close>\<close>
  git_show :: "string \<Rightarrow> 'g \<Rightarrow> 'g \<times> show_outcome"     \<comment> \<open>\<open>notes show\<close>\<close>
  git_notes_add :: "string \<Rightarrow> string \<Rightarrow> 'g \<Rightarrow> 'g \<times> bool"   \<comment> \<open>\<open>notes add -f -F -\<close>\<close>
  git_notes_list :: "'g \<Rightarrow> 'g \<times> string option"       \<comment> \<open>\<open>notes list\<close>\<close>
  git_log :: "'g \<Rightarrow> 'g \<times> string option"              \<comment> \<open>\<open>log --format=%H\<close>\<close>
  git_cat_file :: "string \<Rightarrow> 'g \<Rightarrow> 'g \<times> string option" \<comment> \<open>\<open>cat-file --batch\<close>\<close>
  git_merge :: "'g \<Rightarrow> 'g \<times> bool"                     \<comment> \<open>\<open>notes merge -s cat_sort_uniq\<close>\<close>
  git_verify_ref :: "'g \<Rightarrow> 'g \<times> bool"                \<comment> \<open>\<open>rev-parse --verify refs/notes/inkentry\<close>\<close>
  git_remote_url :: "string \<Rightarrow> 'g \<Rightarrow> 'g \<times> bool"
  git_fetch :: "string \<Rightarrow> 'g \<Rightarrow> 'g \<times> bool"
  git_push :: "string \<Rightarrow> 'g \<Rightarrow> 'g \<times> string option"    \<comment> \<open>the standard error of a failed push\<close>
  common_dir_absolute :: "'g \<Rightarrow> 'g \<times> string option"
  common_dir_relative :: "'g \<Rightarrow> 'g \<times> string option"
  canonicalize :: "string \<Rightarrow> string option"
  open_lock_file :: "string \<Rightarrow> 'g \<Rightarrow> 'g \<times> string option"   \<comment> \<open>the reason of a failure\<close>
  try_lock_file :: "'g \<Rightarrow> 'g \<times> try_lock"
  unlock_file :: "'g \<Rightarrow> 'g"
  instant :: "'g \<Rightarrow> 'g \<times> int"
  sleep_for :: "int \<Rightarrow> 'g \<Rightarrow> 'g"

record carrier_env =
  ce_env :: env
  json_object :: "string \<Rightarrow> bool"
  object_record :: "string \<Rightarrow> note_record option"
  record_json :: "note_record \<Rightarrow> string"
  ce_millis :: int
  ce_secs :: int

datatype carrier_error =
    Git_Failed string | Lock_Contended string | No_Lock_Path | Lock_Wait_Exhausted
  | Schema_Mismatch nat | Header_Without_Newline | Bad_Size | Truncated_Body | Unexpected_Header
  | Fold_Panics | Bad_Token | No_Such_Entry note_id | Backend_Unsupported string

type_synonym ('g, 'a) carrying = "('g, carrier_error, 'a) st"

text \<open>A subprocess whose failure is an error, and one whose output is text.\<close>

definition run_git :: "('g \<Rightarrow> 'g \<times> string option) \<Rightarrow> string \<Rightarrow> ('g, string) carrying" where
  "run_git command name = (\<lambda>g. case command g of
     (g', Some out) \<Rightarrow> (g', Inr out) | (g', None) \<Rightarrow> (g', Inl (Git_Failed name)))"

section \<open>The notes that survive a rewrite\<close>

definition INKENTRY_NOTES_REF :: string where
  "INKENTRY_NOTES_REF = ''refs/notes/inkentry''"

definition NOTES_NAMESPACE :: string where
  "NOTES_NAMESPACE = ''refs/notes/''"

datatype rewrite_ref_status = Configured | Already_Covered | Config_Failed

definition rewrite_ref_covers_inkentry :: "string \<Rightarrow> bool" where
  "rewrite_ref_covers_inkentry raw =
     (let v = trim raw in v = INKENTRY_NOTES_REF \<or>
       (case strip_suffix ''*'' v of None \<Rightarrow> False
        | Some p \<Rightarrow> starts_with p NOTES_NAMESPACE \<and> starts_with INKENTRY_NOTES_REF p))"

definition ensure_notes_rewrite_ref :: "'g git \<Rightarrow> ('g, rewrite_ref_status) carrying" where
  "ensure_notes_rewrite_ref G = (\<lambda>g. case git_rewrite_refs G g of (g1, existing) \<Rightarrow>
     if list_ex rewrite_ref_covers_inkentry (str_lines (case existing of None \<Rightarrow> [] | Some t \<Rightarrow> t))
     then (g1, Inr Already_Covered)
     else (case git_add_rewrite_ref G g1 of (g2, added) \<Rightarrow>
       (g2, Inr (if added then Configured else Config_Failed))))"

section \<open>The lock\<close>

datatype lock_attempt = Acquired | Contended string | Unusable string string

definition LOCK_WAIT_BUDGET :: int where
  "LOCK_WAIT_BUDGET = 5000000000"

definition LOCK_POLL_INTERVAL :: int where
  "LOCK_POLL_INTERVAL = 10000000"

definition parse_absolute_dir :: "string \<Rightarrow> string option" where
  "parse_absolute_dir out = (case filter (\<lambda>l. trim l \<noteq> []) (str_lines out) of
     [l] \<Rightarrow> if starts_with (trim l) ''--'' then None
            else if is_absolute (trim l) then Some (trim l) else None
   | _ \<Rightarrow> None)"

definition resolve_relative_common_dir :: "string \<Rightarrow> string option \<Rightarrow> carrier_error + string" where
  "resolve_relative_common_dir raw root = (case root of
     Some r \<Rightarrow> Inr (path_join r raw) | None \<Rightarrow> Inl No_Lock_Path)"

definition notes_lock_path :: "'g git \<Rightarrow> string option \<Rightarrow> ('g, string) carrying" where
  "notes_lock_path G root = (\<lambda>g. case common_dir_absolute G g of (g1, flagged) \<Rightarrow>
     (let done = (\<lambda>d. path_join (case canonicalize G d of None \<Rightarrow> d | Some c \<Rightarrow> c) ''inkentry-notes.lock'') in
      case Option.bind flagged parse_absolute_dir of
        Some d \<Rightarrow> (g1, Inr (done d))
      | None \<Rightarrow> (case run_git (common_dir_relative G) ''rev-parse'' g1 of
          (g2, Inl e) \<Rightarrow> (g2, Inl e)
        | (g2, Inr raw) \<Rightarrow> (g2, if is_absolute (trim raw) then Inr (done (trim raw))
            else and_then (resolve_relative_common_dir (trim raw) root) (\<lambda>d. Inr (done d))))))"

text \<open>The polling loop, with the number of polls as fuel.\<close>

fun lock_poll :: "nat \<Rightarrow> 'g git \<Rightarrow> string \<Rightarrow> int \<Rightarrow> ('g, lock_attempt) carrying" where
  "lock_poll 0 G path deadline g = (g, Inl Lock_Wait_Exhausted)"
| "lock_poll (Suc n) G path deadline g = (case try_lock_file G g of
     (g1, Locked) \<Rightarrow> (g1, Inr Acquired)
   | (g1, Lock_Error e) \<Rightarrow> (g1, Inr (Unusable path (''could not lock: '' @ e)))
   | (g1, Would_Block) \<Rightarrow> (case instant G g1 of (g2, now) \<Rightarrow>
       if now \<ge> deadline then (g2, Inr (Contended path))
       else lock_poll n G path deadline (sleep_for G LOCK_POLL_INTERVAL g2)))"

definition LOCK_POLLS :: nat where
  "LOCK_POLLS = 501"

definition lock_notes :: "'g git \<Rightarrow> string option \<Rightarrow> ('g, lock_attempt) carrying" where
  "lock_notes G root = bind (notes_lock_path G root) (\<lambda>path g. case open_lock_file G path g of
     (g1, Some e) \<Rightarrow> (g1, Inr (Unusable path (''could not open: '' @ e)))
   | (g1, None) \<Rightarrow> (case instant G g1 of (g2, now) \<Rightarrow>
       lock_poll LOCK_POLLS G path (now + LOCK_WAIT_BUDGET) g2))"

datatype writer_lock = Held | Unlocked string string

definition writer_lock :: "'g git \<Rightarrow> string option \<Rightarrow> ('g, writer_lock) carrying" where
  "writer_lock G root = bind (lock_notes G root) (\<lambda>a. case a of
     Acquired \<Rightarrow> ok Held
   | Contended path \<Rightarrow> fail (Lock_Contended path)
   | Unusable path reason \<Rightarrow> ok (Unlocked path reason))"

text \<open>The guard is dropped, and the lock released, on every way out of the body.\<close>

definition under_writer_lock ::
    "'g git \<Rightarrow> string option \<Rightarrow> (writer_lock \<Rightarrow> ('g, 'a) carrying) \<Rightarrow> ('g, 'a) carrying" where
  "under_writer_lock G root body = bind (writer_lock G root) (\<lambda>l g. case body l g of
     (g', r) \<Rightarrow> (if l = Held then unlock_file G g' else g', r))"

section \<open>Reading and appending\<close>

definition NOTE_READ_ATTEMPTS :: nat where
  "NOTE_READ_ATTEMPTS = 4"

definition NOTE_READ_BACKOFF :: int where
  "NOTE_READ_BACKOFF = 50000000"

definition read_note_body :: "'g git \<Rightarrow> string \<Rightarrow> ('g, string option) carrying" where
  "read_note_body G object = (\<lambda>g. case git_show G object g of
     (g', Shown body) \<Rightarrow> (g', Inr (Some body))
   | (g', No_Note) \<Rightarrow> (g', Inr None)
   | (g', Died e) \<Rightarrow> (g', Inl (Git_Failed e)))"

text \<open>\<open>left\<close> is the number of attempts that remain, \<open>e\<close> the last error.\<close>

fun read_attempts :: "nat \<Rightarrow> carrier_error \<Rightarrow> 'g git \<Rightarrow> string \<Rightarrow> ('g, string option) carrying" where
  "read_attempts 0 e G object g = (g, Inl e)"
| "read_attempts (Suc left) e G object g = (case read_note_body G object g of
     (g1, Inr body) \<Rightarrow> (g1, Inr body)
   | (g1, Inl e1) \<Rightarrow> read_attempts left e1 G object
       (if left > 0 then sleep_for G (NOTE_READ_BACKOFF * int (NOTE_READ_ATTEMPTS - left)) g1 else g1))"

definition read_note_body_with_retry :: "'g git \<Rightarrow> string \<Rightarrow> ('g, string option) carrying" where
  "read_note_body_with_retry G object = read_attempts NOTE_READ_ATTEMPTS (Git_Failed []) G object"

definition combined :: "string option \<Rightarrow> string \<Rightarrow> string" where
  "combined existing new = (case existing of
     Some body \<Rightarrow> if trim body \<noteq> [] then trim_end_matches (CHR 0x0A) body @ [CHR 0x0A] @ new else new
   | None \<Rightarrow> new)"

definition add_note_stdin :: "'g git \<Rightarrow> string \<Rightarrow> string \<Rightarrow> ('g, unit) carrying" where
  "add_note_stdin G object body = (\<lambda>g. case git_notes_add G object body g of
     (g', added) \<Rightarrow> (g', if added then Inr () else Inl (Git_Failed ''notes add'')))"

text \<open>What the lock guards: the body is read and written back with the new lines.\<close>

definition append_lines :: "'g git \<Rightarrow> string \<Rightarrow> string \<Rightarrow> ('g, unit) carrying" where
  "append_lines G target new = bind (read_note_body_with_retry G target) (\<lambda>existing.
     add_note_stdin G target (combined existing new))"

record append_outcome =
  ao_rewrite_ref :: rewrite_ref_status
  ao_lock_degradation :: "(string \<times> string) option"

definition lock_degradation :: "writer_lock \<Rightarrow> (string \<times> string) option" where
  "lock_degradation l = (case l of Held \<Rightarrow> None | Unlocked path reason \<Rightarrow> Some (path, reason))"

definition append_to_git_notes_at ::
    "carrier_env \<Rightarrow> 'g git \<Rightarrow> string option \<Rightarrow> string \<Rightarrow> note_record \<Rightarrow> ('g, append_outcome) carrying" where
  "append_to_git_notes_at C G root target r =
     bind (ensure_notes_rewrite_ref G) (\<lambda>status.
     under_writer_lock G root (\<lambda>l.
     bind (append_lines G target (record_json C r)) (\<lambda>_.
     ok \<lparr>ao_rewrite_ref = status, ao_lock_degradation = lock_degradation l\<rparr>)))"

definition append_to_git_notes ::
    "carrier_env \<Rightarrow> 'g git \<Rightarrow> string option \<Rightarrow> note_record \<Rightarrow> ('g, append_outcome) carrying" where
  "append_to_git_notes C G root r = bind (run_git (git_head G) ''rev-parse HEAD'') (\<lambda>h.
     append_to_git_notes_at C G root (trim h) r)"

section \<open>Entity updates\<close>

definition append_state_update ::
    "carrier_env \<Rightarrow> 'g git \<Rightarrow> string option \<Rightarrow> mem_note \<Rightarrow> string \<Rightarrow> int option \<Rightarrow> string option \<Rightarrow>
     ('g, append_outcome) carrying" where
  "append_state_update C G root base status invalid_at successor = append_to_git_notes C G root
     (entity_update_record (ce_env C) (ce_millis C) (ce_secs C) base status invalid_at successor [] None None)"

definition append_edges ::
    "carrier_env \<Rightarrow> 'g git \<Rightarrow> string option \<Rightarrow> mem_note \<Rightarrow> carried_edge list \<Rightarrow> ('g, append_outcome) carrying" where
  "append_edges C G root base edges = append_to_git_notes C G root
     (entity_update_record (ce_env C) (ce_millis C) (ce_secs C) base (note_status base) (note_invalid_at base)
       None edges None None)"

definition append_anchor_record ::
    "carrier_env \<Rightarrow> 'g git \<Rightarrow> string option \<Rightarrow> string \<Rightarrow> mem_note \<Rightarrow> string option \<Rightarrow> ('g, append_outcome) carrying" where
  "append_anchor_record C G root target base patch = append_to_git_notes_at C G root target
     (entity_update_record (ce_env C) (ce_millis C) (ce_secs C) base (note_status base) (note_invalid_at base)
       None [] (Some ''anchor'') patch)"

section \<open>Reading the ref\<close>

text \<open>\<open>str::split_whitespace\<close>, and the two fields of a line of \<open>git notes list\<close>.\<close>

fun split_whitespace :: "string \<Rightarrow> string list" where
  "split_whitespace [] = []"
| "split_whitespace (c # cs) = (if is_ws c then split_whitespace cs
     else (case cs of [] \<Rightarrow> [[c]]
       | d # _ \<Rightarrow> if is_ws d then [c] # split_whitespace cs
           else (case split_whitespace cs of [] \<Rightarrow> [[c]] | w # ws \<Rightarrow> (c # w) # ws)))"

definition listed_note :: "string \<Rightarrow> (string \<times> string) option" where
  "listed_note l = (case split_whitespace l of blob # commit # _ \<Rightarrow> Some (commit, blob) | _ \<Rightarrow> None)"

definition listed_notes :: "string \<Rightarrow> (string \<times> string) list" where
  "listed_notes out = List.map_filter listed_note (str_lines out)"

text \<open>
  \<open>noted\<close> is collected into a hash map, in which a later pair replaces an earlier one of the same
  commit. A listing that fails is an empty one.
\<close>

definition noted_commits :: "'g git \<Rightarrow> ('g, (string \<times> string) list) carrying" where
  "noted_commits G = (\<lambda>g. case git_notes_list G g of
     (g1, None) \<Rightarrow> (g1, Inr [])
   | (g1, Some listing) \<Rightarrow>
       (let noted = map_of (rev (listed_notes listing)) in
        if listed_notes listing = [] then (g1, Inr [])
        else (case git_log G g1 of
            (g2, None) \<Rightarrow> (g2, Inr [])
          | (g2, Some out) \<Rightarrow> (g2, Inr (List.map_filter (\<lambda>l.
              map_option (Pair (trim l)) (noted (trim l))) (str_lines out))))))"

definition all_noted_commits :: "'g git \<Rightarrow> ('g, (string \<times> string) list) carrying" where
  "all_noted_commits G = (\<lambda>g. case git_notes_list G g of
     (g1, None) \<Rightarrow> (g1, Inr []) | (g1, Some listing) \<Rightarrow> (g1, Inr (listed_notes listing)))"

text \<open>
  One header and body per object; a header of two fields is an object git could not read. The
  rest gets shorter with every header, so its length is fuel enough.
\<close>

fun batch_bodies :: "nat \<Rightarrow> string \<Rightarrow> carrier_error + string list" where
  "batch_bodies 0 rest = (if rest = [] then Inr [] else Inl Header_Without_Newline)"
| "batch_bodies (Suc n) rest = (if rest = [] then Inr []
     else if CHR 0x0A \<notin> set rest then Inl Header_Without_Newline
     else (let header = takeWhile (\<lambda>c. c \<noteq> CHR 0x0A) rest;
               after = drop (Suc (length header)) rest in
       case split_on CHR '' '' header of
         [_, _] \<Rightarrow> and_then (batch_bodies n after) (\<lambda>bs. Inr ([] # bs))
       | [_, _, bytes] \<Rightarrow> (case parse_u64 bytes of
             None \<Rightarrow> Inl Bad_Size
           | Some k \<Rightarrow> if length after < k + 1 then Inl Truncated_Body
               else and_then (batch_bodies n (drop (k + 1) after)) (\<lambda>bs. Inr (take k after # bs)))
       | _ \<Rightarrow> Inl Unexpected_Header))"

text \<open>The bound is compared on integers, so that a batch can be evaluated.\<close>

lemma parse_u64_int [code]:
  "parse_u64 s =
     (let ds = (case s of [] \<Rightarrow> [] | c # cs \<Rightarrow> if c = CHR ''+'' then cs else s);
          v = foldl (\<lambda>acc c. acc * 10 + (of_char c - 48)) 0 ds in
      if ds \<noteq> [] \<and> list_all is_ascii_digit ds \<and> int v < 2 ^ 64 then Some v else None)"
  by (simp add: parse_u64_def Let_def)

definition parse_cat_file_batch :: "string \<Rightarrow> carrier_error + string list" where
  "parse_cat_file_batch out = batch_bodies (length out) out"

definition read_note_blobs :: "'g git \<Rightarrow> string list \<Rightarrow> ('g, string list) carrying" where
  "read_note_blobs G blobs = (if blobs = [] then ok []
     else bind (run_git (git_cat_file G (join [CHR 0x0A] blobs @ [CHR 0x0A])) ''cat-file'') (\<lambda>out.
       lift (parse_cat_file_batch out)))"

definition parse_inkentry_line :: "carrier_env \<Rightarrow> string \<Rightarrow> note_record option" where
  "parse_inkentry_line C l = (let t = trim l in
     if t = [] then None else if \<not> json_object C t then None else object_record C t)"

fun parse_lines :: "carrier_env \<Rightarrow> string list \<Rightarrow> carrier_error + note_record list" where
  "parse_lines C [] = Inr []"
| "parse_lines C (l # ls) = (case parse_inkentry_line C l of
     None \<Rightarrow> parse_lines C ls
   | Some r \<Rightarrow> if rec_schema_version r > 1 then Inl (Schema_Mismatch (rec_schema_version r))
       else and_then (parse_lines C ls) (\<lambda>rs. Inr (r # rs)))"

definition parse_records :: "carrier_env \<Rightarrow> string \<Rightarrow> carrier_error + note_record list" where
  "parse_records C blob = parse_lines C (str_lines blob)"

definition fold_all :: "carrier_env \<Rightarrow> note_record list \<Rightarrow> carrier_error + note_record list" where
  "fold_all C rs = (case fold_records (ce_env C) rs of None \<Rightarrow> Inl Fold_Panics | Some out \<Rightarrow> Inr out)"

definition folded_records :: "carrier_env \<Rightarrow> 'g git \<Rightarrow> ('g, note_record list) carrying" where
  "folded_records C G = bind (noted_commits G) (\<lambda>noted.
     bind (read_note_blobs G (map snd noted)) (\<lambda>blobs.
     bind (lift (collect (map (parse_records C) blobs))) (\<lambda>rss.
     lift (fold_all C (concat rss)))))"

definition with_commits ::
    "carrier_env \<Rightarrow> 'g git \<Rightarrow> (string \<times> string) list \<Rightarrow> ('g, (string \<times> note_record) list) carrying" where
  "with_commits C G noted = bind (read_note_blobs G (map snd noted)) (\<lambda>blobs.
     bind (lift (collect (map (\<lambda>(c, b). and_then (parse_records C b) (\<lambda>rs. Inr (map (Pair (fst c)) rs)))
       (zip noted blobs)))) (\<lambda>rss. ok (concat rss)))"

definition records_with_commit :: "carrier_env \<Rightarrow> 'g git \<Rightarrow> ('g, (string \<times> note_record) list) carrying" where
  "records_with_commit C G = bind (noted_commits G) (with_commits C G)"

definition all_noted_records :: "carrier_env \<Rightarrow> 'g git \<Rightarrow> ('g, (string \<times> note_record) list) carrying" where
  "all_noted_records C G = bind (all_noted_commits G) (with_commits C G)"

definition carried_edges :: "carrier_env \<Rightarrow> 'g git \<Rightarrow> ('g, (string \<times> carried_edge) list) carrying" where
  "carried_edges C G = bind (folded_records C G) (\<lambda>rs.
     ok (concat (map (\<lambda>r. map (Pair (resolve_entity_id (ce_env C) r)) (rec_edges r)) rs)))"

definition carried_supersede_edges :: "carrier_env \<Rightarrow> 'g git \<Rightarrow> ('g, (string \<times> string) list) carrying" where
  "carried_supersede_edges C G = bind (folded_records C G) (\<lambda>rs.
     ok (List.map_filter (\<lambda>r. map_option (Pair (resolve_entity_id (ce_env C) r)) (rec_superseded_by_entity_id r)) rs))"

section \<open>Appending what is not carried yet\<close>

record batch_append_outcome =
  bo_rewrite_ref :: rewrite_ref_status
  bo_lock_degradation :: "(string \<times> string) option"
  bo_written :: nat
  bo_already_carried :: nat

definition fresh_records :: "carrier_env \<Rightarrow> note_record list \<Rightarrow> note_record list \<Rightarrow> note_record list" where
  "fresh_records C entries rs = filter (\<lambda>r. resolve_entity_id (ce_env C) r \<notin>
     set (map (resolve_entity_id (ce_env C)) entries)) rs"

definition append_fresh ::
    "carrier_env \<Rightarrow> 'g git \<Rightarrow> rewrite_ref_status \<Rightarrow> writer_lock \<Rightarrow> note_record list \<Rightarrow> nat \<Rightarrow>
     ('g, batch_append_outcome) carrying" where
  "append_fresh C G status l fresh already =
     (let outcome = (\<lambda>n. \<lparr>bo_rewrite_ref = status, bo_lock_degradation = lock_degradation l,
            bo_written = n, bo_already_carried = already\<rparr>) in
      if fresh = [] then ok (outcome 0)
      else bind (run_git (git_head G) ''rev-parse HEAD'') (\<lambda>h.
        bind (append_lines G (trim h) (join [CHR 0x0A] (map (record_json C) fresh))) (\<lambda>_.
        ok (outcome (length fresh)))))"

definition append_new_to_git_notes ::
    "carrier_env \<Rightarrow> 'g git \<Rightarrow> string option \<Rightarrow> note_record list \<Rightarrow> ('g, batch_append_outcome) carrying" where
  "append_new_to_git_notes C G root rs =
     bind (ensure_notes_rewrite_ref G) (\<lambda>status.
     under_writer_lock G root (\<lambda>l.
     bind (folded_records C G) (\<lambda>entries.
     let fresh = fresh_records C entries rs in
     append_fresh C G status l fresh (length rs - length fresh))))"

section \<open>The backend\<close>

definition record_in_window :: "note_record \<Rightarrow> bool \<Rightarrow> int option \<Rightarrow> bool" where
  "record_in_window r include_archived as_of = (case as_of of
     Some ts \<Rightarrow> (case rec_valid_at r of None \<Rightarrow> rec_created_at r | Some v \<Rightarrow> v) \<le> ts \<and>
       (case rec_invalid_at r of None \<Rightarrow> True | Some ia \<Rightarrow> \<not> ia \<le> ts)
   | None \<Rightarrow> include_archived \<or> rec_status r \<noteq> ''archived'')"

definition notes_of_records :: "carrier_env \<Rightarrow> note_record list \<Rightarrow> carrier_error + mem_note list" where
  "notes_of_records C rs = collect (map (\<lambda>r. case record_to_note (ce_env C) r of
     Inl _ \<Rightarrow> Inl Bad_Token | Inr n \<Rightarrow> Inr n) rs)"

text \<open>Oldest first; of more than \<open>limit\<close> records the newest are kept.\<close>

definition newest_records :: "nat \<Rightarrow> note_record list \<Rightarrow> note_record list" where
  "newest_records limit rs = (let sorted = sort_key rec_created_at rs in
     if length sorted > limit then drop (length sorted - limit) sorted else sorted)"

definition carrier_collect ::
    "carrier_env \<Rightarrow> 'g git \<Rightarrow> string option \<Rightarrow> bool \<Rightarrow> int option \<Rightarrow> nat \<Rightarrow> ('g, mem_note list) carrying" where
  "carrier_collect C G kind include_archived as_of limit = bind (folded_records C G) (\<lambda>entries.
     lift (notes_of_records C (newest_records limit (filter (\<lambda>r.
       (case kind of None \<Rightarrow> True | Some k \<Rightarrow> rec_kind r = k) \<and> record_in_window r include_archived as_of) entries))))"

definition anchored_to :: "carrier_env \<Rightarrow> (string \<times> note_record) list \<Rightarrow> string \<Rightarrow> string \<Rightarrow> bool" where
  "anchored_to C rs sha_prefix eid =
     (\<exists>c \<in> all_anchor_commits (ce_env C) rs eid. starts_with c sha_prefix)"

definition list_anchored_to ::
    "carrier_env \<Rightarrow> 'g git \<Rightarrow> string \<Rightarrow> bool \<Rightarrow> int option \<Rightarrow> nat \<Rightarrow> ('g, mem_note list) carrying" where
  "list_anchored_to C G sha_prefix include_archived as_of limit = bind (records_with_commit C G) (\<lambda>rs.
     bind (lift (fold_all C (map snd rs))) (\<lambda>entries.
     lift (notes_of_records C (newest_records limit (filter (\<lambda>r.
       anchored_to C rs sha_prefix (resolve_entity_id (ce_env C) r) \<and>
       record_in_window r include_archived as_of) entries)))))"

text \<open>In the order of a hash map; here of the first record of each entity.\<close>

definition entity_ids_anchored_to :: "carrier_env \<Rightarrow> 'g git \<Rightarrow> string \<Rightarrow> ('g, string list) carrying" where
  "entity_ids_anchored_to C G sha_prefix = bind (records_with_commit C G) (\<lambda>rs.
     ok (filter (anchored_to C rs sha_prefix) (first_occs (map (\<lambda>(c, r). resolve_entity_id (ce_env C) r) rs))))"

definition anchored_commit_shas :: "carrier_env \<Rightarrow> 'g git \<Rightarrow> ('g, string set) carrying" where
  "anchored_commit_shas C G = bind (records_with_commit C G) (\<lambda>rs.
     ok (\<Union>e \<in> set (map (\<lambda>(c, r). resolve_entity_id (ce_env C) r) rs). all_anchor_commits (ce_env C) rs e))"

definition carrier_anchors_for_entity :: "carrier_env \<Rightarrow> 'g git \<Rightarrow> string \<Rightarrow> ('g, (string \<times> int) list) carrying" where
  "carrier_anchors_for_entity C G eid = bind (records_with_commit C G) (\<lambda>rs.
     ok (anchors_for_entity (ce_env C) rs eid))"

text \<open>\<open>parse::<i64>\<close>: an optional sign and digits, within the type.\<close>

definition parse_i64 :: "string \<Rightarrow> int option" where
  "parse_i64 s =
     (let neg = (s \<noteq> [] \<and> hd s = CHR ''-'');
          ds = (if s \<noteq> [] \<and> (hd s = CHR ''-'' \<or> hd s = CHR ''+'') then tl s else s);
          v = int (foldl (\<lambda>acc c. acc * 10 + (of_char c - 48)) 0 ds) in
      if ds = [] \<or> \<not> list_all is_ascii_digit ds then None
      else if neg then (if v \<le> 2 ^ 63 then Some (- v) else None)
      else (if v < 2 ^ 63 then Some v else None))"

definition carrier_id :: "note_id \<Rightarrow> int option" where
  "carrier_id i = parse_i64 i"

definition carrier_token_of :: "int \<Rightarrow> carrier_error + note_id" where
  "carrier_token_of i = (case carrier_token i of Inl _ \<Rightarrow> Inl Bad_Token | Inr t \<Rightarrow> Inr t)"

definition head_sha :: "'g git \<Rightarrow> ('g, string) carrying" where
  "head_sha G = bind (run_git (git_head G) ''rev-parse HEAD'') (\<lambda>h. ok (trim h))"

definition append_record ::
    "carrier_env \<Rightarrow> 'g git \<Rightarrow> string option \<Rightarrow> string \<Rightarrow> note_record \<Rightarrow> ('g, unit) carrying" where
  "append_record C G root object r = bind (ensure_notes_rewrite_ref G) (\<lambda>_.
     under_writer_lock G root (\<lambda>_. append_lines G object (record_json C r)))"

definition added_record :: "carrier_env \<Rightarrow> note_input \<Rightarrow> note_record" where
  "added_record C n = \<lparr>rec_schema_version = 1, rec_id = ce_millis C, rec_kind = in_kind n,
     rec_title = in_title n, rec_body = in_body n, rec_tags = in_tags n,
     rec_linked_files = in_linked_files n, rec_created_at = ce_secs C, rec_status = ''active'',
     rec_source_ref = in_source_ref n, rec_valid_at = in_valid_at n, rec_invalid_at = None,
     rec_superseded_by = None, rec_remote_id = None,
     rec_entity_id = Some (entity_id (ce_env C) (in_kind n) (in_title n) (in_body n)),
     rec_superseded_by_entity_id = None, rec_edges = [], rec_origin = in_origin n,
     rec_op = None, rec_patch_id = None\<rparr>"

definition carrier_add ::
    "carrier_env \<Rightarrow> 'g git \<Rightarrow> string option \<Rightarrow> note_input \<Rightarrow> ('g, note_id \<times> bool) carrying" where
  "carrier_add C G root n = bind (head_sha G) (\<lambda>h.
     bind (append_record C G root h (added_record C n)) (\<lambda>_.
     bind (lift (carrier_token_of (ce_millis C))) (\<lambda>t. ok (t, True))))"

definition GIT_NOTES_MAX_LIST :: nat where
  "GIT_NOTES_MAX_LIST = 500"

definition carrier_list ::
    "carrier_env \<Rightarrow> 'g git \<Rightarrow> string option \<Rightarrow> nat \<Rightarrow> bool \<Rightarrow> int option \<Rightarrow> ('g, mem_note list) carrying" where
  "carrier_list C G kind limit include_archived as_of =
     carrier_collect C G kind include_archived as_of (min limit GIT_NOTES_MAX_LIST)"

definition carrier_list_by_source_ref ::
    "carrier_env \<Rightarrow> 'g git \<Rightarrow> string \<Rightarrow> nat \<Rightarrow> bool \<Rightarrow> int option \<Rightarrow> ('g, mem_note list) carrying" where
  "carrier_list_by_source_ref C G sha_prefix limit include_archived as_of =
     list_anchored_to C G sha_prefix include_archived as_of (min limit GIT_NOTES_MAX_LIST)"

definition carrier_get :: "carrier_env \<Rightarrow> 'g git \<Rightarrow> note_id \<Rightarrow> ('g, mem_note option) carrying" where
  "carrier_get C G i = (case carrier_id i of None \<Rightarrow> ok None
     | Some k \<Rightarrow> bind (folded_records C G) (\<lambda>rs. case find (\<lambda>r. rec_id r = k) rs of
         None \<Rightarrow> ok None
       | Some r \<Rightarrow> bind (lift (notes_of_records C [r])) (\<lambda>ns. ok (Some (hd ns)))))"

definition carrier_ids_for_prefix :: "carrier_env \<Rightarrow> 'g git \<Rightarrow> string \<Rightarrow> ('g, note_id list) carrying" where
  "carrier_ids_for_prefix C G prefix = bind (folded_records C G) (\<lambda>rs.
     bind (lift (notes_of_records C rs)) (\<lambda>ns.
     ok (map note_id (filter (\<lambda>n. starts_with (note_entity_id n) prefix) ns))))"

definition carrier_count :: "'g git \<Rightarrow> ('g, nat) carrying" where
  "carrier_count G = bind (noted_commits G) (\<lambda>noted. ok (length noted))"

fun find_record :: "carrier_env \<Rightarrow> 'g git \<Rightarrow> int \<Rightarrow> string list \<Rightarrow> ('g, note_record option) carrying" where
  "find_record C G k [] = ok None"
| "find_record C G k (commit # commits) = bind (read_note_body_with_retry G commit) (\<lambda>body.
     case find (\<lambda>r. rec_id r = k) (List.map_filter (parse_inkentry_line C)
       (str_lines (case body of None \<Rightarrow> [] | Some b \<Rightarrow> b))) of
       Some r \<Rightarrow> ok (Some r) | None \<Rightarrow> find_record C G k commits)"

definition carrier_archive :: "carrier_env \<Rightarrow> 'g git \<Rightarrow> string option \<Rightarrow> note_id \<Rightarrow> ('g, bool) carrying" where
  "carrier_archive C G root i = (case carrier_id i of None \<Rightarrow> ok False
     | Some k \<Rightarrow> bind (noted_commits G) (\<lambda>noted.
         bind (find_record C G k (map fst noted)) (\<lambda>found. case found of
           None \<Rightarrow> ok False
         | Some r \<Rightarrow> bind (lift (notes_of_records C [r])) (\<lambda>ns.
             bind (append_state_update C G root (hd ns) ''archived''
               (case note_invalid_at (hd ns) of Some t \<Rightarrow> Some t | None \<Rightarrow> Some (ce_secs C)) None) (\<lambda>_.
             ok True)))))"

definition carrier_add_edge ::
    "carrier_env \<Rightarrow> 'g git \<Rightarrow> string option \<Rightarrow> note_id \<Rightarrow> note_id \<Rightarrow> string \<Rightarrow> ('g, unit) carrying" where
  "carrier_add_edge C G root i j kind =
     (if kind \<noteq> ''relates_to'' \<and> kind \<noteq> ''contradicts'' then fail (Backend_Unsupported (''add_edge('' @ kind @ '')''))
      else bind (carrier_get C G i) (\<lambda>src. case src of None \<Rightarrow> fail (No_Such_Entry i)
        | Some a \<Rightarrow> bind (carrier_get C G j) (\<lambda>dst. case dst of None \<Rightarrow> fail (No_Such_Entry j)
          | Some b \<Rightarrow> bind (append_edges C G root a [CarriedEdge kind (note_entity_id_of (ce_env C) b)]) (\<lambda>_.
              ok ()))))"

section \<open>Uniting the clones\<close>

datatype notes_merge_outcome = Merged | Merge_Skipped | Lock_Unavailable

definition merge_tracking_notes :: "'g git \<Rightarrow> string option \<Rightarrow> 'g \<Rightarrow> 'g \<times> notes_merge_outcome" where
  "merge_tracking_notes G root g = (case lock_notes G root g of
     (g1, Inr Acquired) \<Rightarrow> (case git_merge G g1 of (g2, merged) \<Rightarrow>
        (unlock_file G g2, if merged then Merged else Merge_Skipped))
   | (g1, _) \<Rightarrow> (g1, Lock_Unavailable))"

definition MAX_PUSH_ATTEMPTS :: nat where
  "MAX_PUSH_ATTEMPTS = 3"

datatype skip_reason = Recursion | No_Local_Notes | No_Such_Remote | Skip_Lock_Unavailable

definition skip_reason_str :: "skip_reason \<Rightarrow> string" where
  "skip_reason_str r = (case r of Recursion \<Rightarrow> ''recursion'' | No_Local_Notes \<Rightarrow> ''no_local_notes''
     | No_Such_Remote \<Rightarrow> ''no_such_remote'' | Skip_Lock_Unavailable \<Rightarrow> ''lock_unavailable'')"

datatype publish_outcome = Published nat | Skipped skip_reason

definition str_contains :: "string \<Rightarrow> string \<Rightarrow> bool" where
  "str_contains s p = list_ex (\<lambda>k. starts_with (drop k s) p) [0..<Suc (length s)]"

definition is_lost_race :: "string \<Rightarrow> bool" where
  "is_lost_race stderr = (str_contains stderr ''non-fast-forward'' \<or> str_contains stderr ''fetch first'')"

text \<open>\<open>left\<close> attempts remain; the attempts made are counted from the maximum.\<close>

fun publish_attempts ::
    "nat \<Rightarrow> string \<Rightarrow> 'g git \<Rightarrow> string option \<Rightarrow> string \<Rightarrow> 'g \<Rightarrow> 'g \<times> (string + publish_outcome)" where
  "publish_attempts 0 last_err G root remote g = (g, Inl (trim last_err))"
| "publish_attempts (Suc left) last_err G root remote g = (case git_fetch G remote g of (g1, _) \<Rightarrow>
     (case merge_tracking_notes G root g1 of (g2, outcome) \<Rightarrow>
        if outcome = Lock_Unavailable then (g2, Inr (Skipped Skip_Lock_Unavailable))
        else (case git_push G remote g2 of
            (g3, None) \<Rightarrow> (g3, Inr (Published (MAX_PUSH_ATTEMPTS - left)))
          | (g3, Some stderr) \<Rightarrow> if \<not> is_lost_race stderr then (g3, Inl (trim stderr))
              else publish_attempts left stderr G root remote g3)))"

definition publish_notes ::
    "'g git \<Rightarrow> bool \<Rightarrow> string option \<Rightarrow> string \<Rightarrow> 'g \<Rightarrow> 'g \<times> (string + publish_outcome)" where
  "publish_notes G sentinel_set root remote g =
     (if sentinel_set then (g, Inr (Skipped Recursion))
      else (case git_verify_ref G g of (g1, present) \<Rightarrow>
        if \<not> present then (g1, Inr (Skipped No_Local_Notes))
        else (case git_remote_url G remote g1 of (g2, known) \<Rightarrow>
          if \<not> known then (g2, Inr (Skipped No_Such_Remote))
          else publish_attempts MAX_PUSH_ATTEMPTS [] G root remote g2)))"

end
