(* ===== verification/Notes_Writers.thy ===== *)
theory Notes_Writers
  imports Notes_Carrier
begin

text \<open>
  Writers of the notes ref that run at the same time: processes that append lines under the lock,
  readers that merge what a fetch brought, and processes that die. What git documents is stated
  over \<open>body_of\<close>, the body of each object's note, and \<open>track\<close>, the lines of the tracking ref.
\<close>

section \<open>The lines of a note\<close>

text \<open>
  Lines up to trailing white space, blank ones left out: what a reader can tell of a body, and what
  git's clean-up of a note (trailing white space, repeated blank lines) keeps.
\<close>

definition ink_lines :: "string \<Rightarrow> string list" where
  "ink_lines b = filter (\<lambda>l. l \<noteq> []) (map trim_end (split_on (CHR 0x0A) b))"

definition note_lines :: "string option \<Rightarrow> string list" where
  "note_lines n = (case n of None \<Rightarrow> [] | Some b \<Rightarrow> ink_lines b)"

definition clean_line :: "string \<Rightarrow> bool" where
  "clean_line l = (l \<noteq> [] \<and> CHR 0x0A \<notin> set l \<and> trim l = l)"

lemma is_ws_cr_lf [simp]: "is_ws (CHR 0x0D)" "is_ws (CHR 0x0A)"
  by (simp_all add: is_ws_def)

lemma trim_end_snoc_ws: "is_ws c \<Longrightarrow> trim_end (s @ [c]) = trim_end s"
  by (simp add: trim_end_def)

lemma trim_end_strip_cr: "trim_end (strip_cr l) = trim_end l"
  by (cases l rule: rev_cases) (auto simp: strip_cr_def trim_end_snoc_ws)

lemma ink_lines_append: "ink_lines (a @ CHR 0x0A # b) = ink_lines a @ ink_lines b"
  by (simp add: ink_lines_def split_on_append)

lemma ink_lines_Nil [simp]: "ink_lines [] = []"
  by (simp add: ink_lines_def trim_end_def)

lemma map_trim_end_strip_cr: "map trim_end (map strip_cr ls) = map trim_end ls"
  by (simp add: trim_end_strip_cr)

lemma ink_lines_str_lines: "filter (\<lambda>l. l \<noteq> []) (map trim_end (str_lines b)) = ink_lines b"
proof -
  let ?ps = "split_on (CHR 0x0A) b"
  have "?ps = butlast ?ps @ [last ?ps]" by simp
  then have "map trim_end ?ps = map trim_end (butlast ?ps) @ [trim_end (last ?ps)]" by (metis map_append list.map)
  then have i: "ink_lines b = filter (\<lambda>l. l \<noteq> []) (map trim_end (butlast ?ps) @ [trim_end (last ?ps)])"
    by (simp only: ink_lines_def)
  have "map trim_end (str_lines b) = map trim_end (butlast ?ps) @ (if last ?ps = [] then [] else [trim_end (last ?ps)])"
    unfolding str_lines_def Let_def map_append map_trim_end_strip_cr by simp
  moreover have "trim_end [] = []" by (simp add: trim_end_def)
  ultimately show ?thesis unfolding i by simp
qed

lemma ink_lines_trim_lf: "ink_lines (trim_end_matches (CHR 0x0A) b) = ink_lines b"
proof (induction b rule: rev_induct)
  case (snoc c b)
  then show ?case
    using ink_lines_append [of b "[]"] by (cases "c = CHR 0x0A") (simp_all add: trim_end_matches_def)
qed (simp add: trim_end_matches_def)

lemma trim_blank: "trim s = [] \<longleftrightarrow> list_all is_ws s"
proof
  assume "trim s = []"
  then have "dropWhile is_ws (rev (dropWhile is_ws s)) = []" by (simp add: trim_def trim_end_def trim_start_def)
  then have "\<forall>c \<in> set (dropWhile is_ws s). is_ws c" by (simp add: dropWhile_eq_Nil_conv)
  then have "dropWhile is_ws s = []" by (metis hd_dropWhile hd_in_set)
  then show "list_all is_ws s" by (simp add: dropWhile_eq_Nil_conv list_all_iff)
next
  assume "list_all is_ws s"
  then have "trim_start s = []" by (metis trim_start_def dropWhile_eq_Nil_conv list_all_iff)
  then show "trim s = []" by (simp add: trim_def trim_end_def)
qed

lemma trim_end_blank: "list_all is_ws s \<Longrightarrow> trim_end s = []"
  by (simp add: trim_end_def list_all_iff dropWhile_eq_Nil_conv)

lemma set_split_on: "p \<in> set (split_on d s) \<Longrightarrow> set p \<subseteq> set s"
proof (induction s arbitrary: p)
  case (Cons c s)
  then show ?case by (cases "split_on d s") (fastforce split: if_splits)+
qed simp

lemma ink_lines_blank: "trim b = [] \<Longrightarrow> ink_lines b = []"
  unfolding trim_blank ink_lines_def
  by (auto simp: filter_empty_conv list_all_iff dest!: set_split_on intro!: trim_end_blank) blast

lemma clean_line_trim_end: "clean_line l \<Longrightarrow> trim_end l = l"
  unfolding clean_line_def by (metis trim_def trim_end_idem)

lemma ink_lines_clean: "clean_line l \<Longrightarrow> ink_lines l = [l]"
  by (simp add: ink_lines_def clean_line_def split_on_plain clean_line_trim_end)

lemma ink_lines_join: "list_all clean_line ls \<Longrightarrow> ink_lines (join [CHR 0x0A] ls) = ls"
proof (induction "[CHR 0x0A]" ls rule: join.induct)
  case (3 p q ps)
  then show ?case using ink_lines_append [of p "join [CHR 0x0A] (q # ps)"] by (simp add: ink_lines_clean)
qed (simp_all add: ink_lines_clean)

text \<open>Appending adds the new lines after the old ones.\<close>

lemma ink_lines_combined: "ink_lines (combined existing new) = note_lines existing @ ink_lines new"
proof (cases existing)
  case (Some b)
  have "ink_lines (trim_end_matches (CHR 0x0A) b @ CHR 0x0A # new) = ink_lines b @ ink_lines new"
    by (simp add: ink_lines_append ink_lines_trim_lf)
  then show ?thesis by (cases "trim b = []") (simp_all add: combined_def note_lines_def Some ink_lines_blank)
qed (simp add: combined_def note_lines_def)

section \<open>What git documents\<close>

text \<open>
  Reads and waits leave the notes alone, and a read that succeeds tells the body; \<open>notes add -f\<close>
  replaces one note, up to white space, or fails without a trace; a merge that succeeds leaves the
  lines of both sides (clones only ever add lines).
\<close>

definition git_reads :: "'g git \<Rightarrow> ('g \<Rightarrow> string \<Rightarrow> string option) \<Rightarrow> bool" where
  "git_reads G body_of = ((\<forall>t g. body_of (fst (git_show G t g)) = body_of g \<and>
       (case snd (git_show G t g) of Shown b \<Rightarrow> body_of g t = Some b | No_Note \<Rightarrow> body_of g t = None | Died _ \<Rightarrow> True)) \<and>
     (\<forall>d g. body_of (sleep_for G d g) = body_of g))"

definition git_adds :: "'g git \<Rightarrow> ('g \<Rightarrow> string \<Rightarrow> string option) \<Rightarrow> bool" where
  "git_adds G body_of = (\<forall>t b g. ink_lines b \<noteq> [] \<longrightarrow> (if snd (git_notes_add G t b g)
     then \<exists>c. body_of (fst (git_notes_add G t b g)) = (body_of g)(t \<mapsto> c) \<and> ink_lines c = ink_lines b
     else body_of (fst (git_notes_add G t b g)) = body_of g))"

definition git_merges ::
    "'g git \<Rightarrow> ('g \<Rightarrow> string \<Rightarrow> string option) \<Rightarrow> ('g \<Rightarrow> string \<Rightarrow> string set) \<Rightarrow> bool" where
  "git_merges G body_of track = (\<forall>g. if snd (git_merge G g)
     then \<forall>t. set (note_lines (body_of (fst (git_merge G g)) t)) = set (note_lines (body_of g t)) \<union> track g t
     else body_of (fst (git_merge G g)) = body_of g)"

lemma read_attempts_reads:
  assumes "git_reads G body_of" "read_attempts n e G t g = (g', r)"
  shows "body_of g' = body_of g \<and> (\<forall>x. r = Inr x \<longrightarrow> x = body_of g t)"
  using assms(2)
proof (induction n arbitrary: e g)
  case (Suc n)
  obtain g1 o1 where s: "git_show G t g = (g1, o1)" by fastforce
  with assms(1) have o1: "body_of g1 = body_of g"
    "case o1 of Shown b \<Rightarrow> body_of g t = Some b | No_Note \<Rightarrow> body_of g t = None | Died _ \<Rightarrow> True"
    by (simp_all add: git_reads_def) (metis fst_conv snd_conv)+
  have w: "body_of (sleep_for G d g1) = body_of g" for d using assms(1) o1(1) by (simp add: git_reads_def)
  show ?case
  proof (cases o1)
    case (Died x)
    then show ?thesis using Suc.prems s o1 w
      by (auto simp: read_note_body_def dest!: Suc.IH split: if_splits)
  qed (use Suc.prems s o1 in \<open>auto simp: read_note_body_def\<close>)
qed auto

section \<open>Writers\<close>

datatype write_phase =
    Waits                              \<comment> \<open>for the lock\<close>
  | Reads                              \<comment> \<open>the body, holding the lock\<close>
  | Writes "string option"             \<comment> \<open>the body it read and its lines\<close>
  | Returned "carrier_error + unit"

record carrier_writer =
  wr_target :: string
  wr_lines :: "string list"
  wr_phase :: write_phase

record 'g carrier_sys =
  cs_world :: 'g
  cs_holder :: "nat option"
  cs_writers :: "carrier_writer list"

definition at_phase :: "'g carrier_sys \<Rightarrow> nat \<Rightarrow> write_phase \<Rightarrow> bool" where
  "at_phase s i ph = (i < length (cs_writers s) \<and> wr_phase (cs_writers s ! i) = ph)"

definition to_phase :: "nat \<Rightarrow> write_phase \<Rightarrow> 'g carrier_sys \<Rightarrow> 'g carrier_sys" where
  "to_phase i ph s = s\<lparr>cs_writers := (cs_writers s)[i := (cs_writers s ! i)\<lparr>wr_phase := ph\<rparr>]\<rparr>"

text \<open>
  One step of one process. The lock file works: it is held by one process at a time, released when
  its holder returns or dies, and whoever waits for it too long gives up. A merge holds the lock
  for its one command. Steps of others (fetches, commits) do not touch the notes.
\<close>

inductive carrier_step ::
    "'g git \<Rightarrow> ('g \<Rightarrow> string \<Rightarrow> string option) \<Rightarrow> ('g \<Rightarrow> string \<Rightarrow> string set) \<Rightarrow> (string \<Rightarrow> string set) \<Rightarrow>
     'g carrier_sys \<Rightarrow> 'g carrier_sys \<Rightarrow> bool"
  for G :: "'g git" and body_of :: "'g \<Rightarrow> string \<Rightarrow> string option"
    and track :: "'g \<Rightarrow> string \<Rightarrow> string set" and fetched :: "string \<Rightarrow> string set" where
  writer_starts: "list_all clean_line ls \<Longrightarrow> ls \<noteq> [] \<Longrightarrow> carrier_step G body_of track fetched s
    (s\<lparr>cs_writers := cs_writers s @ [\<lparr>wr_target = t, wr_lines = ls, wr_phase = Waits\<rparr>]\<rparr>)"
| writer_locks: "at_phase s i Waits \<Longrightarrow> cs_holder s = None \<Longrightarrow>
    carrier_step G body_of track fetched s (to_phase i Reads (s\<lparr>cs_holder := Some i\<rparr>))"
| writer_gives_up: "at_phase s i Waits \<Longrightarrow>
    carrier_step G body_of track fetched s (to_phase i (Returned (Inl e)) s)"
| writer_reads: "at_phase s i Reads \<Longrightarrow>
    read_note_body_with_retry G (wr_target (cs_writers s ! i)) (cs_world s) = (g, Inr body) \<Longrightarrow>
    carrier_step G body_of track fetched s (to_phase i (Writes body) (s\<lparr>cs_world := g\<rparr>))"
| writer_cannot_read: "at_phase s i Reads \<Longrightarrow>
    read_note_body_with_retry G (wr_target (cs_writers s ! i)) (cs_world s) = (g, Inl e) \<Longrightarrow>
    carrier_step G body_of track fetched s
      (to_phase i (Returned (Inl e)) (s\<lparr>cs_world := g, cs_holder := None\<rparr>))"
| writer_writes: "at_phase s i (Writes body) \<Longrightarrow>
    add_note_stdin G (wr_target (cs_writers s ! i))
      (combined body (join [CHR 0x0A] (wr_lines (cs_writers s ! i)))) (cs_world s) = (g, r) \<Longrightarrow>
    carrier_step G body_of track fetched s (to_phase i (Returned r) (s\<lparr>cs_world := g, cs_holder := None\<rparr>))"
| writer_dies: "at_phase s i ph \<Longrightarrow> \<forall>r. ph \<noteq> Returned r \<Longrightarrow>
    carrier_step G body_of track fetched s
      (to_phase i (Returned (Inl e)) (if cs_holder s = Some i then s\<lparr>cs_holder := None\<rparr> else s))"
| reader_merges: "cs_holder s = None \<Longrightarrow> \<forall>t. track (cs_world s) t \<subseteq> fetched t \<Longrightarrow>
    carrier_step G body_of track fetched s (s\<lparr>cs_world := fst (git_merge G (cs_world s))\<rparr>)"
| others_act: "body_of g = body_of (cs_world s) \<Longrightarrow>
    carrier_step G body_of track fetched s (s\<lparr>cs_world := g\<rparr>)"

inductive_cases carrier_stepE: "carrier_step G body_of track fetched s t"

text \<open>What the writers of one target have appended, or meant to.\<close>

definition lines_meant :: "'g carrier_sys \<Rightarrow> string \<Rightarrow> string set" where
  "lines_meant s t = (\<Union>w \<in> set (cs_writers s). if wr_target w = t then set (wr_lines w) else {})"

definition lock_sound :: "'g carrier_sys \<Rightarrow> bool" where
  "lock_sound s = ((\<forall>i. cs_holder s = Some i \<longrightarrow> i < length (cs_writers s)) \<and>
     (\<forall>i < length (cs_writers s). (cs_holder s = Some i) =
       (wr_phase (cs_writers s ! i) = Reads \<or> (\<exists>b. wr_phase (cs_writers s ! i) = Writes b))))"

definition writer_sound :: "(string \<Rightarrow> string option) \<Rightarrow> carrier_writer \<Rightarrow> bool" where
  "writer_sound n w = (list_all clean_line (wr_lines w) \<and> wr_lines w \<noteq> [] \<and>
     (\<forall>b. wr_phase w = Writes b \<longrightarrow> b = n (wr_target w)) \<and>
     (wr_phase w = Returned (Inr ()) \<longrightarrow> set (wr_lines w) \<subseteq> set (note_lines (n (wr_target w)))))"

definition carrier_sound ::
    "('g \<Rightarrow> string \<Rightarrow> string option) \<Rightarrow> (string \<Rightarrow> string set) \<Rightarrow> (string \<Rightarrow> string option) \<Rightarrow> 'g carrier_sys \<Rightarrow> bool" where
  "carrier_sound body_of fetched n0 s = (lock_sound s \<and> list_all (writer_sound (body_of (cs_world s))) (cs_writers s) \<and>
     (\<forall>t. set (note_lines (n0 t)) \<subseteq> set (note_lines (body_of (cs_world s) t)) \<and>
       set (note_lines (body_of (cs_world s) t)) \<subseteq> set (note_lines (n0 t)) \<union> lines_meant s t \<union> fetched t))"

section \<open>Nothing a writer returned is lost\<close>

lemma to_phase_simps [simp]:
  "cs_world (to_phase i ph s) = cs_world s" "cs_holder (to_phase i ph s) = cs_holder s"
  "length (cs_writers (to_phase i ph s)) = length (cs_writers s)"
  "cs_writers (to_phase i ph s) = (cs_writers s)[i := (cs_writers s ! i)\<lparr>wr_phase := ph\<rparr>]"
  by (simp_all add: to_phase_def)

lemma lines_meant_to_phase:
  assumes "at_phase s i ph0"
  shows "lines_meant (to_phase i ph s) t = lines_meant s t"
proof -
  let ?f = "\<lambda>w. if wr_target w = t then set (wr_lines w) else {}"
  have "map ?f ((cs_writers s)[i := (cs_writers s ! i)\<lparr>wr_phase := ph\<rparr>]) = map ?f (cs_writers s)"
  proof -
    have "?f ((cs_writers s ! i)\<lparr>wr_phase := ph\<rparr>) = map ?f (cs_writers s) ! i"
      using assms by (simp add: at_phase_def)
    then show ?thesis unfolding map_update by (simp only: list_update_id)
  qed
  then have "set (map ?f ((cs_writers s)[i := (cs_writers s ! i)\<lparr>wr_phase := ph\<rparr>])) = set (map ?f (cs_writers s))"
    by (rule arg_cong)
  then show ?thesis unfolding lines_meant_def to_phase_simps by (simp only: set_map)
qed

lemma lines_meant_frame [simp]:
  "lines_meant (s\<lparr>cs_world := g\<rparr>) t = lines_meant s t" "lines_meant (s\<lparr>cs_holder := h\<rparr>) t = lines_meant s t"
  by (simp_all add: lines_meant_def)

lemma at_phase_frame [simp]:
  "at_phase (s\<lparr>cs_world := g\<rparr>) i ph = at_phase s i ph" "at_phase (s\<lparr>cs_holder := h\<rparr>) i ph = at_phase s i ph"
  by (simp_all add: at_phase_def)

text \<open>A writer moves on, and the notes stay as they are.\<close>

lemma sound_phase:
  assumes S: "carrier_sound body_of fetched n0 s" and i: "at_phase s i ph0"
    and w: "cs_writers s' = cs_writers s" "body_of (cs_world s') = body_of (cs_world s)"
    and lock: "lock_sound (to_phase i ph s')"
    and ph: "writer_sound (body_of (cs_world s)) ((cs_writers s ! i)\<lparr>wr_phase := ph\<rparr>)"
  shows "carrier_sound body_of fetched n0 (to_phase i ph s')"
proof -
  have "lines_meant (to_phase i ph s') t = lines_meant s t" for t
    using lines_meant_to_phase [of s' i ph0 ph t] i w(1) by (simp add: at_phase_def lines_meant_def)
  then show ?thesis using S lock ph i w
    by (auto simp: carrier_sound_def list_all_length nth_list_update at_phase_def)
qed

lemma writer_sound_grows:
  assumes "writer_sound n w" "\<forall>b. wr_phase w \<noteq> Writes b"
    and "\<forall>t. set (note_lines (n t)) \<subseteq> set (note_lines (m t))"
  shows "writer_sound m w"
  using assms by (auto simp: writer_sound_def)

lemma writers_sound_grow:
  assumes S: "carrier_sound body_of fetched n0 s" and h: "cs_holder s = h"
    and g: "\<forall>t. set (note_lines (body_of (cs_world s) t)) \<subseteq> set (note_lines (m t))"
    and j: "j < length (cs_writers s)" "h \<noteq> Some j"
  shows "writer_sound m (cs_writers s ! j)"
  by (rule writer_sound_grows [of "body_of (cs_world s)"])
    (use assms in \<open>auto simp: carrier_sound_def lock_sound_def list_all_length\<close>)

text \<open>A write under the lock: the body it read is still the body.\<close>

lemma sound_write:
  assumes S: "carrier_sound body_of fetched n0 s" and i: "at_phase s i (Writes body)" and G: "git_adds G body_of"
    and run: "add_note_stdin G (wr_target (cs_writers s ! i))
      (combined body (join [CHR 0x0A] (wr_lines (cs_writers s ! i)))) (cs_world s) = (g, r)"
  shows "carrier_sound body_of fetched n0 (to_phase i (Returned r) (s\<lparr>cs_world := g, cs_holder := None\<rparr>))"
proof -
  let ?w = "cs_writers s ! i" and ?n = "body_of (cs_world s)"
  let ?s = "to_phase i (Returned r) (s\<lparr>cs_world := g, cs_holder := None\<rparr>)"
  have len: "i < length (cs_writers s)" and hold: "cs_holder s = Some i"
    using S i by (auto simp: at_phase_def carrier_sound_def lock_sound_def)
  have w: "writer_sound ?n ?w" using S len by (simp add: carrier_sound_def list_all_length)
  then have ls: "ink_lines (join [CHR 0x0A] (wr_lines ?w)) = wr_lines ?w" "wr_lines ?w \<noteq> []" and b: "body = ?n (wr_target ?w)"
    using i by (auto simp: writer_sound_def at_phase_def ink_lines_join)
  let ?b = "combined body (join [CHR 0x0A] (wr_lines ?w))"
  have ink: "ink_lines ?b = note_lines (?n (wr_target ?w)) @ wr_lines ?w" by (simp add: ink_lines_combined ls b)
  have lock: "lock_sound ?s" using S len hold
    by (auto simp: carrier_sound_def lock_sound_def nth_list_update)
  have out: "r = (if snd (git_notes_add G (wr_target ?w) ?b (cs_world s)) then Inr () else Inl (Git_Failed ''notes add''))"
    "g = fst (git_notes_add G (wr_target ?w) ?b (cs_world s))"
    using run by (auto simp: add_note_stdin_def split: prod.splits)
  from G ink ls have A: "if snd (git_notes_add G (wr_target ?w) ?b (cs_world s))
     then \<exists>c. body_of g = ?n(wr_target ?w \<mapsto> c) \<and> ink_lines c = ink_lines ?b else body_of g = ?n"
    unfolding git_adds_def out(2) by (metis append_is_Nil_conv)
  have meant: "lines_meant ?s t = lines_meant s t" for t
    using lines_meant_to_phase [of "s\<lparr>cs_world := g, cs_holder := None\<rparr>" i "Writes body" "Returned r" t] i
    by (simp add: at_phase_def lines_meant_def)
  show ?thesis
  proof (cases r)
    case (Inl e)
    then have "body_of g = ?n" using A out(1) by (auto split: if_splits)
    moreover have "writer_sound ?n (?w\<lparr>wr_phase := Returned r\<rparr>)" using w Inl by (simp add: writer_sound_def)
    ultimately show ?thesis using sound_phase [OF S i, of "s\<lparr>cs_world := g, cs_holder := None\<rparr>"] lock by simp
  next
    case (Inr u)
    then obtain c where c: "body_of g = ?n(wr_target ?w \<mapsto> c)" "ink_lines c = ink_lines ?b"
      using A out(1) by (auto split: if_splits)
    have lines: "note_lines (body_of g t) = note_lines (?n t) @ (if t = wr_target ?w then wr_lines ?w else [])" for t
      by (simp add: c ink note_lines_def [of "Some c"])
    have new: "writer_sound (body_of g) (?w\<lparr>wr_phase := Returned r\<rparr>)" using w Inr by (simp add: writer_sound_def lines)
    have "writer_sound (body_of g) (cs_writers s ! j)" if "j < length (cs_writers s)" "j \<noteq> i" for j
      by (rule writers_sound_grow [OF S hold]) (use that in \<open>simp_all add: lines\<close>)
    then have "list_all (writer_sound (body_of g)) (cs_writers ?s)"
      using new len by (simp add: list_all_length nth_list_update)
    moreover have "set (wr_lines ?w) \<subseteq> lines_meant s (wr_target ?w)"
      using nth_mem [OF len] unfolding lines_meant_def by force
    ultimately show ?thesis using S lock unfolding carrier_sound_def meant by (auto simp: lines)
  qed
qed

lemma sound_merge:
  assumes S: "carrier_sound body_of fetched n0 s" and h: "cs_holder s = None" and G: "git_merges G body_of track"
    and tr: "\<forall>t. track (cs_world s) t \<subseteq> fetched t"
  shows "carrier_sound body_of fetched n0 (s\<lparr>cs_world := fst (git_merge G (cs_world s))\<rparr>)"
proof -
  let ?g = "fst (git_merge G (cs_world s))"
  have M: "set (note_lines (body_of (cs_world s) t)) \<subseteq> set (note_lines (body_of ?g t)) \<and>
      set (note_lines (body_of ?g t)) \<subseteq> set (note_lines (body_of (cs_world s) t)) \<union> fetched t" for t
    using G tr unfolding git_merges_def by (cases "snd (git_merge G (cs_world s))") (fastforce, auto)
  have "writer_sound (body_of ?g) (cs_writers s ! j)" if "j < length (cs_writers s)" for j
    by (rule writers_sound_grow [OF S h]) (use that M in auto)
  moreover have "lock_sound (s\<lparr>cs_world := ?g\<rparr>)" using S by (simp add: carrier_sound_def lock_sound_def)
  ultimately show ?thesis using S M unfolding carrier_sound_def by (fastforce simp: list_all_length)
qed

lemma reader_holds: "carrier_sound body_of fetched n0 s \<Longrightarrow> at_phase s i Reads \<Longrightarrow> cs_holder s = Some i"
  by (auto simp: carrier_sound_def lock_sound_def at_phase_def)

lemma carrier_sound_step:
  assumes S: "carrier_sound body_of fetched n0 s" and step: "carrier_step G body_of track fetched s t"
    and G: "git_reads G body_of" "git_adds G body_of" "git_merges G body_of track"
  shows "carrier_sound body_of fetched n0 t"
  using step
proof cases
  case (writer_starts ls t0)
  have "lock_sound t" using S unfolding writer_starts(1)
    by (auto simp: carrier_sound_def lock_sound_def nth_append less_Suc_eq)
  moreover have "writer_sound n \<lparr>wr_target = t0, wr_lines = ls, wr_phase = Waits\<rparr>" for n
    using writer_starts by (simp add: writer_sound_def)
  moreover have "lines_meant s u \<subseteq> lines_meant t u" for u unfolding writer_starts(1) by (auto simp: lines_meant_def)
  ultimately show ?thesis using S unfolding writer_starts(1) carrier_sound_def by simp blast
next
  case (writer_locks i)
  then show ?thesis unfolding writer_locks(1)
    by (intro sound_phase [OF S]) (use S in \<open>auto simp: carrier_sound_def lock_sound_def writer_sound_def at_phase_def
      nth_list_update list_all_length\<close>)
next
  case (writer_gives_up i e)
  then show ?thesis unfolding writer_gives_up(1)
    by (intro sound_phase [OF S]) (use S in \<open>auto simp: carrier_sound_def lock_sound_def writer_sound_def at_phase_def
      nth_list_update list_all_length\<close>)
next
  case (writer_reads i g body)
  note R = read_attempts_reads [OF G(1) writer_reads(3) [unfolded read_note_body_with_retry_def]]
  show ?thesis unfolding writer_reads(1)
    by (intro sound_phase [OF S writer_reads(2)]) (use S R writer_reads(2) reader_holds [OF S writer_reads(2)] in \<open>auto simp: carrier_sound_def lock_sound_def
      writer_sound_def at_phase_def nth_list_update list_all_length\<close>)
next
  case (writer_cannot_read i g e)
  note R = read_attempts_reads [OF G(1) writer_cannot_read(3) [unfolded read_note_body_with_retry_def]]
  show ?thesis unfolding writer_cannot_read(1)
    by (intro sound_phase [OF S writer_cannot_read(2)]) (use S R writer_cannot_read(2) reader_holds [OF S writer_cannot_read(2)] in \<open>auto simp: carrier_sound_def
      lock_sound_def writer_sound_def at_phase_def nth_list_update list_all_length\<close>)
next
  case (writer_writes i body g r)
  show ?thesis unfolding writer_writes(1) by (rule sound_write [OF S writer_writes(2) G(2) writer_writes(3)])
next
  case (writer_dies i ph e)
  let ?s = "if cs_holder s = Some i then s\<lparr>cs_holder := None\<rparr> else s"
  have "lock_sound s" using S by (simp add: carrier_sound_def)
  then have "lock_sound (to_phase i (Returned (Inl e)) ?s)"
    using writer_dies(2) by (cases "cs_holder s = Some i") (auto simp: lock_sound_def at_phase_def nth_list_update)
  moreover have "writer_sound (body_of (cs_world s)) ((cs_writers s ! i)\<lparr>wr_phase := Returned (Inl e)\<rparr>)"
    using S writer_dies(2) by (auto simp: carrier_sound_def at_phase_def list_all_length writer_sound_def)
  ultimately show ?thesis unfolding writer_dies(1) by (intro sound_phase [OF S writer_dies(2)]) simp_all
next
  case reader_merges
  show ?thesis unfolding reader_merges(1) by (rule sound_merge [OF S reader_merges(2) G(3) reader_merges(3)])
next
  case (others_act g)
  then show ?thesis using S by (simp add: carrier_sound_def lock_sound_def)
qed

definition carrier_start :: "('g \<Rightarrow> string \<Rightarrow> string option) \<Rightarrow> (string \<Rightarrow> string option) \<Rightarrow> 'g carrier_sys \<Rightarrow> bool" where
  "carrier_start body_of n0 s = (body_of (cs_world s) = n0 \<and> cs_holder s = None \<and> cs_writers s = [])"

interpretation carriers: system_invariant "carrier_start body_of n0" "carrier_step G body_of track fetched"
  "\<lambda>s. git_reads G body_of \<and> git_adds G body_of \<and> git_merges G body_of track \<longrightarrow> carrier_sound body_of fetched n0 s"
  for G :: "'g git" and body_of track fetched n0
proof (unfold_locales, goal_cases)
  case (1 s)
  then show ?case by (auto simp: carrier_start_def carrier_sound_def lock_sound_def)
next
  case (2 s t)
  then show ?case using carrier_sound_step by blast
qed


end
