(* ===== verification/Notes_Append.thy ===== *)
theory Notes_Append
  imports Notes_Writers
begin

text \<open>
  Reading the whole notes ref, and the batch append of an import: the texts git prints are parsed
  back into what they were printed from, so that the code's reading of a repository is the fold
  of the records of its notes, and a batch appended twice is appended once.
\<close>

section \<open>Words and lines of git's output\<close>

definition git_word :: "string \<Rightarrow> bool" where
  "git_word w = (w \<noteq> [] \<and> list_all (\<lambda>c. \<not> is_ws c) w)"

lemma git_word_no_lf: "git_word w \<Longrightarrow> CHR 0x0A \<notin> set w" "git_word w \<Longrightarrow> CHR '' '' \<notin> set w"
  unfolding git_word_def list_all_iff by (auto dest!: bspec simp: is_ws_def)

lemma git_word_trim: "git_word w \<Longrightarrow> trim w = w"
proof -
  assume w: "git_word w"
  have "\<not> is_ws (hd w)" "\<not> is_ws (last w)" using w by (auto simp: git_word_def list_all_iff)
  then have "dropWhile is_ws w = w" "dropWhile is_ws (rev w) = rev w"
    by (simp_all add: dropWhile_eq_self_iff hd_rev)
  then show ?thesis by (simp add: trim_def trim_start_def trim_end_def)
qed

lemma strip_cr_word: "last w \<noteq> CHR 0x0D \<Longrightarrow> strip_cr w = w"
  by (simp add: strip_cr_def)

lemma git_word_last: "git_word w \<Longrightarrow> last w \<noteq> CHR 0x0D"
  unfolding git_word_def list_all_iff by (metis is_ws_cr_lf(1) last_in_set)

lemma str_lines_Cons: "CHR 0x0A \<notin> set l \<Longrightarrow> str_lines (l @ CHR 0x0A # s) = strip_cr l # str_lines s"
  by (simp add: str_lines_def split_on_append_sep Let_def)

lemma str_lines_concat:
  "list_all (\<lambda>l. CHR 0x0A \<notin> set l \<and> last l \<noteq> CHR 0x0D) ls \<Longrightarrow>
     str_lines (concat (map (\<lambda>l. l @ [CHR 0x0A]) ls)) = ls"
proof (induction ls)
  case (Cons l ls)
  then show ?case using str_lines_Cons [of l "concat (map (\<lambda>l. l @ [CHR 0x0A]) ls)"] by (simp add: strip_cr_word)
qed (simp add: str_lines_def)

lemma split_whitespace_word: "git_word w \<Longrightarrow> split_whitespace w = [w]"
proof (induction w)
  case (Cons c w)
  then show ?case by (cases w) (auto simp: git_word_def)
qed (simp add: git_word_def)

lemma split_whitespace_sep: "git_word w \<Longrightarrow> is_ws d \<Longrightarrow> split_whitespace (w @ d # s) = w # split_whitespace s"
proof (induction w)
  case (Cons c w)
  then show ?case by (cases w) (auto simp: git_word_def)
qed (simp add: git_word_def)

definition listing_of :: "(string \<Rightarrow> string) \<Rightarrow> (string \<times> string) list \<Rightarrow> string" where
  "listing_of blob ns = concat (map (\<lambda>(c, b). blob b @ '' '' @ c @ [CHR 0x0A]) ns)"

lemma listed_notes_listing:
  assumes "\<And>b. git_word (blob b)" "list_all (\<lambda>(c, b). git_word c) ns"
  shows "listed_notes (listing_of blob ns) = map (\<lambda>(c, b). (c, blob b)) ns"
proof -
  let ?line = "\<lambda>(c, b). blob b @ '' '' @ c"
  have e: "listing_of blob ns = concat (map (\<lambda>l. l @ [CHR 0x0A]) (map ?line ns))"
    by (simp add: listing_of_def comp_def split_def)
  have "list_all (\<lambda>l. CHR 0x0A \<notin> set l \<and> last l \<noteq> CHR 0x0D) (map ?line ns)"
    unfolding list.pred_map by (rule list.pred_mono_strong [OF assms(2)])
      (use assms(1) git_word_no_lf git_word_last in \<open>auto simp: git_word_def [of "_ :: string"]\<close>)
  then have "str_lines (listing_of blob ns) = map ?line ns" unfolding e by (rule str_lines_concat)
  moreover have "listed_note (?line x) = Some (fst x, blob (snd x))" if "x \<in> set ns" for x
    using that assms split_whitespace_sep [OF assms(1) [of "snd x"], of "CHR '' ''" "fst x"]
    by (cases x) (auto simp: listed_note_def split_whitespace_word list_all_iff is_ws_def)
  ultimately show ?thesis unfolding listed_notes_def map_filter_def by (auto simp: filter_map comp_def split_def)
qed

section \<open>The framing of \<open>git cat-file --batch\<close>\<close>

definition cat_frame :: "(string \<Rightarrow> string) \<Rightarrow> string \<Rightarrow> string" where
  "cat_frame blob b = blob b @ '' blob '' @ nat_digits (length b) @ [CHR 0x0A] @ b @ [CHR 0x0A]"

lemma digit_char:
  assumes "(d::nat) < 10"
  shows "(of_char (char_of (48 + d)) :: nat) = 48 + d" "is_ascii_digit (char_of (48 + d))" "\<not> is_ws (char_of (48 + d))"
    "char_of (48 + d) \<noteq> CHR ''+''" "char_of (48 + d) \<noteq> CHR '' ''"
proof -
  show c: "(of_char (char_of (48 + d)) :: nat) = 48 + d" using assms by simp
  show "is_ascii_digit (char_of (48 + d))" "\<not> is_ws (char_of (48 + d))"
    using assms unfolding is_ascii_digit_def is_ws_def Let_def c by auto
  show "char_of (48 + d) \<noteq> CHR ''+''" "char_of (48 + d) \<noteq> CHR '' ''"
    using arg_cong [of "char_of (48 + d)" _ "of_char :: char \<Rightarrow> nat"] c assms by fastforce+
qed

lemma nat_digits_value: "foldl (\<lambda>acc c. acc * 10 + (of_char c - 48)) 0 (nat_digits n) = n"
proof (induction n rule: nat_digits.induct)
  case (1 n)
  then show ?case by (subst nat_digits.simps) (simp add: digit_char)
qed

lemma nat_digits_chars: "list_all (\<lambda>c. is_ascii_digit c \<and> \<not> is_ws c \<and> c \<noteq> CHR ''+'' \<and> c \<noteq> CHR '' '') (nat_digits n)"
proof (induction n rule: nat_digits.induct)
  case (1 n)
  then show ?case by (subst nat_digits.simps) (auto simp: digit_char)
qed

lemma parse_u64_digits: "n < 2 ^ 64 \<Longrightarrow> parse_u64 (nat_digits n) = Some n"
  using nat_digits_chars [of n] nat_digits_value [of n]
  by (cases "nat_digits n") (auto simp: parse_u64_def Let_def list_all_iff)

lemma nat_digits_word: "git_word (nat_digits n)"
  using nat_digits_chars [of n] by (auto simp: git_word_def list_all_iff)

lemma batch_bodies_frames:
  assumes "\<And>b. git_word (blob b)" "list_all (\<lambda>b. length b < 2 ^ 64) bs" "length bs \<le> n"
  shows "batch_bodies n (concat (map (cat_frame blob) bs)) = Inr bs"
  using assms(2,3)
proof (induction bs arbitrary: n)
  case Nil
  then show ?case by (cases n) simp_all
next
  case (Cons b bs)
  then obtain m where m: "n = Suc m" "length bs \<le> m" by (cases n) auto
  let ?h = "blob b @ '' blob '' @ nat_digits (length b)" and ?rest = "concat (map (cat_frame blob) bs)"
  let ?all = "?h @ CHR 0x0A # b @ CHR 0x0A # ?rest"
  have e: "concat (map (cat_frame blob) (b # bs)) = ?all" by (simp add: cat_frame_def)
  have nl: "CHR 0x0A \<notin> set ?h" using git_word_no_lf assms(1) nat_digits_word by auto
  then have tw: "takeWhile (\<lambda>c. c \<noteq> CHR 0x0A) ?all = ?h" by (subst takeWhile_append2) auto
  have sp: "split_on CHR '' '' ?h = [blob b, ''blob'', nat_digits (length b)]"
    using split_on_append_sep [OF git_word_no_lf(2) [OF assms(1) [of b]], of "''blob '' @ nat_digits (length b)"]
      split_on_append_sep [of "CHR '' ''" "''blob''" "nat_digits (length b)"]
      split_on_plain [OF git_word_no_lf(2) [OF nat_digits_word]] by simp
  have af: "drop (Suc (length h)) (h @ c # r) = r" for h r and c :: char by simp
  have u: "parse_u64 (nat_digits (length b)) = Some (length b)" using Cons.prems by (simp add: parse_u64_digits)
  have "batch_bodies (Suc m) ?all = and_then (batch_bodies m ?rest) (\<lambda>bs. Inr (b # bs))"
    unfolding batch_bodies.simps tw sp af Let_def list.case u option.case by simp
  then show ?case unfolding e m(1) using Cons m(2) by simp
qed

lemma parse_frames:
  assumes "\<And>b. git_word (blob b)" "list_all (\<lambda>b. length b < 2 ^ 64) bs"
  shows "parse_cat_file_batch (concat (map (cat_frame blob) bs)) = Inr bs"
proof -
  have "length bs \<le> length (concat (map (cat_frame blob) bs))"
    by (induction bs) (auto simp: cat_frame_def)
  then show ?thesis unfolding parse_cat_file_batch_def by (rule batch_bodies_frames [OF assms])
qed

section \<open>A repository as git prints it\<close>

record repo_view =
  rv_notes :: "(string \<times> string) list"    \<comment> \<open>commit and body, in the order of the listing\<close>
  rv_log :: "string list"                  \<comment> \<open>the history of HEAD, newest first\<close>
  rv_head :: string

text \<open>
  What each subprocess prints, \<open>blob\<close> being the name git gives to a body. Nothing but
  \<open>notes add\<close> changes the view, and a listing, a history and a HEAD can be read.
\<close>

definition view_sound :: "repo_view \<Rightarrow> bool" where
  "view_sound v = (distinct (map fst (rv_notes v)) \<and> distinct (rv_log v) \<and> rv_head v \<in> set (rv_log v) \<and>
     list_all git_word (rv_log v) \<and> list_all (\<lambda>(c, b). git_word c \<and> length b < 2 ^ 64) (rv_notes v))"

definition git_prints :: "'g git \<Rightarrow> ('g \<Rightarrow> repo_view) \<Rightarrow> (string \<Rightarrow> string) \<Rightarrow> bool" where
  "git_prints G view blob = ((\<forall>b. git_word (blob b)) \<and> (\<forall>g. view_sound (view g)) \<and>
     (\<forall>g. view (fst (git_notes_list G g)) = view g \<and> snd (git_notes_list G g) = Some (listing_of blob (rv_notes (view g)))) \<and>
     (\<forall>g. view (fst (git_log G g)) = view g \<and> snd (git_log G g) = Some (concat (map (\<lambda>c. c @ [CHR 0x0A]) (rv_log (view g))))) \<and>
     (\<forall>g. view (fst (git_head G g)) = view g \<and> snd (git_head G g) = Some (rv_head (view g) @ [CHR 0x0A])) \<and>
     (\<forall>g bs. bs \<noteq> [] \<longrightarrow> view (fst (git_cat_file G (join [CHR 0x0A] (map blob bs) @ [CHR 0x0A]) g)) = view g \<and>
       (\<forall>out. set bs \<subseteq> set (map snd (rv_notes (view g))) \<longrightarrow>
          snd (git_cat_file G (join [CHR 0x0A] (map blob bs) @ [CHR 0x0A]) g) = Some out \<longrightarrow>
          out = concat (map (cat_frame blob) bs))))"

text \<open>The configuration, the lock and the clocks do not touch the notes.\<close>

definition git_quiet :: "'g git \<Rightarrow> ('g \<Rightarrow> repo_view) \<Rightarrow> bool" where
  "git_quiet G view = ((\<forall>g. view (fst (git_rewrite_refs G g)) = view g) \<and> (\<forall>g. view (fst (git_add_rewrite_ref G g)) = view g) \<and>
     (\<forall>g. view (fst (common_dir_absolute G g)) = view g) \<and> (\<forall>g. view (fst (common_dir_relative G g)) = view g) \<and>
     (\<forall>p g. view (fst (open_lock_file G p g)) = view g) \<and> (\<forall>g. view (fst (try_lock_file G g)) = view g) \<and>
     (\<forall>g. view (unlock_file G g) = view g) \<and> (\<forall>g. view (fst (instant G g)) = view g) \<and>
     (\<forall>d g. view (sleep_for G d g) = view g) \<and> (\<forall>t g. view (fst (git_show G t g)) = view g) \<and>
     (\<forall>t b g. rv_log (view (fst (git_notes_add G t b g))) = rv_log (view g) \<and>
       rv_head (view (fst (git_notes_add G t b g))) = rv_head (view g)))"

definition view_body :: "repo_view \<Rightarrow> string \<Rightarrow> string option" where
  "view_body v c = map_of (rv_notes v) c"

text \<open>The bodies on the history of HEAD, newest first.\<close>

definition bodies_on_head :: "repo_view \<Rightarrow> string list" where
  "bodies_on_head v = List.map_filter (view_body v) (rv_log v)"

lemma map_of_rev_distinct: "distinct (map fst xs) \<Longrightarrow> map_of (rev xs) = map_of xs"
  by (subst map_of_inject_set) (simp_all add: rev_map [symmetric])

lemma map_of_map_snd: "map_of (map (\<lambda>(c, b). (c, f b)) ns) = map_option f \<circ> map_of ns"
  by (induction ns) (auto simp: fun_eq_iff)

lemma map_filter_cong_list: "(\<And>x. x \<in> set xs \<Longrightarrow> f x = h x) \<Longrightarrow> List.map_filter f xs = List.map_filter h xs"
  by (induction xs) (auto simp: map_filter_def)

lemma map_filter_none: "List.map_filter (\<lambda>x. None) xs = []"
  by (induction xs) (auto simp: map_filter_def)

lemma noted_commits_view:
  assumes "git_prints G view blob" "noted_commits G g = (g', r)"
  shows "view g' = view g \<and> r = Inr (List.map_filter (\<lambda>c. map_option (\<lambda>b. (c, blob b)) (view_body (view g) c)) (rv_log (view g)))"
proof -
  let ?v = "view g" and ?ns = "rv_notes (view g)"
  have S: "view_sound ?v" using assms(1) by (simp add: git_prints_def)
  obtain g1 where l: "git_notes_list G g = (g1, Some (listing_of blob ?ns))" "view g1 = ?v"
    using assms(1) unfolding git_prints_def by (metis prod.collapse)
  obtain g2 where h: "git_log G g1 = (g2, Some (concat (map (\<lambda>c. c @ [CHR 0x0A]) (rv_log ?v))))" "view g2 = ?v"
    using assms(1) l(2) unfolding git_prints_def by (metis prod.collapse)
  have L: "listed_notes (listing_of blob ?ns) = map (\<lambda>(c, b). (c, blob b)) ?ns"
    by (rule listed_notes_listing) (use assms(1) S in \<open>auto simp: git_prints_def view_sound_def list_all_iff\<close>)
  have d: "distinct (map fst (map (\<lambda>(c, b). (c, blob b)) ?ns))" using S by (simp add: view_sound_def comp_def split_def)
  have m: "map_of (rev (map (\<lambda>(c, b). (c, blob b)) ?ns)) = map_option blob \<circ> view_body ?v"
    unfolding map_of_rev_distinct [OF d] map_of_map_snd by (simp add: view_body_def fun_eq_iff)
  have log: "str_lines (concat (map (\<lambda>c. c @ [CHR 0x0A]) (rv_log ?v))) = rv_log ?v"
    by (rule str_lines_concat)
      (use S in \<open>auto simp: view_sound_def list_all_iff dest: git_word_no_lf git_word_last\<close>)
  have t: "trim c = c" if "c \<in> set (rv_log ?v)" for c
    using S that by (simp add: view_sound_def list_all_iff git_word_trim)
  show ?thesis
  proof (cases "?ns = []")
    case True
    then show ?thesis using assms(2) l L by (auto simp: noted_commits_def view_body_def map_filter_none)
  next
    case False
    then have "g' = g2" "r = Inr (List.map_filter (\<lambda>l. map_option (Pair (trim l)) (map_option blob (view_body ?v (trim l)))) (rv_log ?v))"
      using assms(2) l h L log by (simp_all add: noted_commits_def m)
    moreover have "List.map_filter (\<lambda>l. map_option (Pair (trim l)) (map_option blob (view_body ?v (trim l)))) (rv_log ?v) =
        List.map_filter (\<lambda>c. map_option (\<lambda>b. (c, blob b)) (view_body ?v c)) (rv_log ?v)"
      by (rule map_filter_cong_list) (simp add: t option.map_comp comp_def)
    ultimately show ?thesis using h(2) by simp
  qed
qed

lemma read_note_blobs_view:
  assumes G: "git_prints G view blob" and bs: "set bs \<subseteq> set (map snd (rv_notes (view g)))"
    and run: "read_note_blobs G (map blob bs) g = (g', r)"
  shows "view g' = view g \<and> (\<forall>x. r = Inr x \<longrightarrow> x = bs)"
proof (cases "bs = []")
  case True
  then show ?thesis using run by (auto simp: read_note_blobs_def)
next
  case False
  let ?q = "join [CHR 0x0A] (map blob bs) @ [CHR 0x0A]"
  have cat: "bs \<noteq> [] \<Longrightarrow> view (fst (git_cat_file G (join [CHR 0x0A] (map blob bs) @ [CHR 0x0A]) g)) = view g \<and>
     (\<forall>out. set bs \<subseteq> set (map snd (rv_notes (view g))) \<longrightarrow>
        snd (git_cat_file G (join [CHR 0x0A] (map blob bs) @ [CHR 0x0A]) g) = Some out \<longrightarrow>
        out = concat (map (cat_frame blob) bs))" for bs g
    using G unfolding git_prints_def by blast
  obtain g1 out where c: "git_cat_file G ?q g = (g1, out)" by fastforce
  have v: "view g1 = view g" "\<And>t. out = Some t \<Longrightarrow> t = concat (map (cat_frame blob) bs)"
    using cat [OF False, of g] bs c by auto
  have "list_all (\<lambda>b. length b < 2 ^ 64) bs"
    using G bs unfolding git_prints_def view_sound_def list_all_iff by fastforce
  then have "parse_cat_file_batch (concat (map (cat_frame blob) bs)) = Inr bs"
    by (intro parse_frames) (use G in \<open>simp_all add: git_prints_def\<close>)
  then show ?thesis using run False c v
    by (cases out) (auto simp: read_note_blobs_def bind_def run_git_def)
qed

section \<open>What a reader makes of the ref\<close>

lemma trim_end_Cons_ws: "is_ws c \<Longrightarrow> trim_end (c # s) = (if trim_end s = [] then [] else c # trim_end s)"
  by (simp add: trim_end_def dropWhile_append)

lemma trim_trim_end [simp]: "trim (trim_end l) = trim l"
proof (induction l)
  case (Cons c l)
  then show ?case
    by (cases "is_ws c") (auto simp: trim_def trim_start_def trim_end_Cons trim_end_Cons_ws)
qed (simp add: trim_end_def)

lemma parse_lines_filter: "parse_lines C (filter (\<lambda>l. l \<noteq> []) (map trim_end ls)) = parse_lines C ls"
proof (induction ls)
  case (Cons l ls)
  have e: "parse_inkentry_line C (trim_end l) = parse_inkentry_line C l" by (simp add: parse_inkentry_line_def)
  have "trim_end l = [] \<Longrightarrow> parse_inkentry_line C l = None"
    unfolding e [symmetric] by (simp add: parse_inkentry_line_def)
  then show ?case using Cons e by (auto split: option.split)
qed simp

lemma parse_records_ink: "parse_records C b = parse_lines C (ink_lines b)"
  unfolding parse_records_def ink_lines_str_lines [symmetric] parse_lines_filter ..

lemma parse_lines_set:
  "parse_lines C ls = Inr rs \<Longrightarrow> set rs = {r. \<exists>l \<in> set ls. parse_inkentry_line C l = Some r}"
proof (induction ls arbitrary: rs)
  case (Cons l ls)
  show ?case
  proof (cases "parse_inkentry_line C l")
    case None
    then show ?thesis using Cons by auto
  next
    case (Some r)
    with Cons.prems obtain rs' where "parse_lines C ls = Inr rs'" "rs = r # rs'"
      by (auto simp: and_then_eq_Inr split: if_splits)
    then show ?thesis using Cons.IH [of rs'] Some by auto
  qed
qed simp

lemma parse_all_set:
  "collect (map (parse_records C) bs) = Inr rss \<Longrightarrow>
     set (concat rss) = {r. \<exists>b \<in> set bs. \<exists>l \<in> set (ink_lines b). parse_inkentry_line C l = Some r}"
proof (induction bs arbitrary: rss)
  case (Cons b bs)
  from Cons.prems obtain rs rss' where r: "parse_records C b = Inr rs" "collect (map (parse_records C) bs) = Inr rss'"
    "rss = rs # rss'" by (auto simp: and_then_eq_Inr)
  have "set rs = {r. \<exists>l \<in> set (ink_lines b). parse_inkentry_line C l = Some r}"
    using parse_lines_set [OF r(1) [unfolded parse_records_ink]] .
  then show ?case using Cons.IH [OF r(2)] r(3) by auto
qed simp

definition carried_records :: "carrier_env \<Rightarrow> repo_view \<Rightarrow> note_record set" where
  "carried_records C v = {r. \<exists>c \<in> set (rv_log v). \<exists>l \<in> set (note_lines (view_body v c)). parse_inkentry_line C l = Some r}"

definition carried_ids :: "carrier_env \<Rightarrow> repo_view \<Rightarrow> string set" where
  "carried_ids C v = resolve_entity_id (ce_env C) ` carried_records C v"

lemma set_bodies_on_head: "b \<in> set (bodies_on_head v) \<longleftrightarrow> (\<exists>c \<in> set (rv_log v). view_body v c = Some b)"
  by (force simp: bodies_on_head_def map_filter_def)

lemma carried_records_bodies:
  "carried_records C v = {r. \<exists>b \<in> set (bodies_on_head v). \<exists>l \<in> set (ink_lines b). parse_inkentry_line C l = Some r}"
proof -
  have "(\<exists>c \<in> set (rv_log v). l \<in> set (note_lines (view_body v c))) \<longleftrightarrow> (\<exists>b \<in> set (bodies_on_head v). l \<in> set (ink_lines b))" for l
    unfolding Bex_def set_bodies_on_head by (auto simp: note_lines_def split: option.splits) metis
  then show ?thesis unfolding carried_records_def by blast
qed

lemma fold_records_ids:
  assumes "fold_records E rs = Some out"
  shows "resolve_entity_id E ` set out = resolve_entity_id E ` set rs"
proof -
  let ?k = "resolve_entity_id E" and ?g = "\<lambda>k. filter (\<lambda>r. resolve_entity_id E r = k) rs"
  have out: "out = map (\<lambda>k. the (fold_group (?g k))) (first_occs (map ?k rs))"
    using assms unfolding fold_records_groups by simp
  have "?k (the (fold_group (?g k))) = k" if k: "k \<in> ?k ` set rs" for k
  proof -
    have "?g k \<noteq> []" using k by (auto simp: filter_empty_conv)
    then obtain r where "fold_group (?g k) = Some r" using fold_group_Some by blast
    with fold_group_entity [OF this, of E k] show ?thesis by simp
  qed
  then show ?thesis unfolding out by (force simp: set_first_occs image_image)
qed

lemma folded_records_view:
  assumes G: "git_prints G view blob" and run: "folded_records C G g = (g', r)"
  shows "view g' = view g \<and> (\<forall>es. r = Inr es \<longrightarrow> resolve_entity_id (ce_env C) ` set es = carried_ids C (view g))"
proof -
  let ?v = "view g" and ?bs = "bodies_on_head (view g)"
  obtain g1 r1 where n: "noted_commits G g = (g1, r1)" by fastforce
  note N = noted_commits_view [OF G n]
  have snd: "map snd (List.map_filter (\<lambda>c. map_option (\<lambda>b. (c, blob b)) (view_body ?v c)) cs) =
      map blob (List.map_filter (view_body ?v) cs)" for cs
    by (induction cs) (auto simp: map_filter_def split: option.splits)
  obtain g2 r2 where b: "read_note_blobs G (map blob ?bs) g1 = (g2, r2)" by fastforce
  have sub: "set ?bs \<subseteq> set (map snd (rv_notes (view g1)))"
    using N by (auto simp: set_bodies_on_head view_body_def dest!: map_of_SomeD) (metis image_eqI snd_conv)
  note B = read_note_blobs_view [OF G sub b]
  have step: "folded_records C G g = bind (\<lambda>_. (g2, r2)) (\<lambda>blobs.
      bind (lift (collect (map (parse_records C) blobs))) (\<lambda>rss. lift (fold_all C (concat rss)))) g1"
    using n N b snd [of "rv_log ?v"] by (simp add: folded_records_def bind_def bodies_on_head_def)
  show ?thesis
  proof (cases r2)
    case (Inl e)
    then show ?thesis using run step N B by (auto simp: bind_def)
  next
    case (Inr x)
    then have x: "x = ?bs" using B by simp
    have r: "g' = g2" "r = (case collect (map (parse_records C) ?bs) of Inl e \<Rightarrow> Inl e | Inr rss \<Rightarrow> fold_all C (concat rss))"
      using run step by (auto simp: Inr x bind_def split: sum.splits)
    have "resolve_entity_id (ce_env C) ` set es = carried_ids C ?v" if es: "r = Inr es" for es
    proof -
      from es r(2) obtain rss where c: "collect (map (parse_records C) ?bs) = Inr rss"
        "fold_records (ce_env C) (concat rss) = Some es"
        by (auto simp: fold_all_def split: sum.splits option.splits)
      have "set (concat rss) = carried_records C ?v"
        unfolding parse_all_set [OF c(1)] by (rule carried_records_bodies [symmetric])
      then show ?thesis using fold_records_ids [OF c(2)] by (simp add: carried_ids_def)
    qed
    then show ?thesis using r N B by simp
  qed
qed

section \<open>The lock and the configuration\<close>

lemma ensure_view: "git_quiet G view \<Longrightarrow> ensure_notes_rewrite_ref G g = (g', r) \<Longrightarrow> view g' = view g"
  unfolding git_quiet_def ensure_notes_rewrite_ref_def
  by (auto split: prod.splits if_splits) (metis fst_conv)+

lemma ensure_returns: "\<exists>h status. ensure_notes_rewrite_ref G g = (h, Inr status)"
  by (simp add: ensure_notes_rewrite_ref_def split: prod.split)

lemma lock_poll_view: "git_quiet G view \<Longrightarrow> lock_poll n G path d g = (g', r) \<Longrightarrow> view g' = view g"
proof (induction n arbitrary: g)
  case (Suc n)
  obtain g1 o1 where t: "try_lock_file G g = (g1, o1)" by fastforce
  obtain g2 now where i: "instant G g1 = (g2, now)" by fastforce
  have v: "view g1 = view g" "view g2 = view g1" "\<And>x. view (sleep_for G x g2) = view g2"
    using Suc.prems(1) t i unfolding git_quiet_def by (metis fst_conv)+
  show ?case
    using Suc.prems(2) v t i Suc.IH [OF Suc.prems(1), of "sleep_for G LOCK_POLL_INTERVAL g2"]
    by (cases o1) (auto split: if_splits)
qed simp

lemma lock_path_view: "git_quiet G view \<Longrightarrow> notes_lock_path G root g = (g', r) \<Longrightarrow> view g' = view g"
  unfolding git_quiet_def notes_lock_path_def run_git_def Let_def
  by (auto split: prod.splits option.splits) (metis fst_conv)+

lemma lock_notes_view:
  assumes Q: "git_quiet G view" and run: "lock_notes G root g = (g', r)"
  shows "view g' = view g"
proof -
  obtain g1 p where p: "notes_lock_path G root g = (g1, p)" by fastforce
  note v1 = lock_path_view [OF Q p]
  show ?thesis
  proof (cases p)
    case (Inl e)
    then show ?thesis using run p v1 by (simp add: lock_notes_def bind_def)
  next
    case (Inr path)
    obtain g2 o2 where o2: "open_lock_file G path g1 = (g2, o2)" by fastforce
    obtain g3 now where i: "instant G g2 = (g3, now)" by fastforce
    have "view g2 = view g1" "view g3 = view g2" using Q o2 i unfolding git_quiet_def by (metis fst_conv)+
    then show ?thesis using run p Inr o2 i v1
      by (cases o2) (auto simp: lock_notes_def bind_def dest: lock_poll_view [OF Q])
  qed
qed

lemma under_lock_view:
  assumes Q: "git_quiet G view" and run: "under_writer_lock G root body g = (g', r)"
  obtains (refused) e where "view g' = view g" "r = Inl e"
  | (inside) l h h' where "view h = view g" "body l h = (h', r)" "view g' = view h'"
proof -
  obtain g1 a where a: "lock_notes G root g = (g1, a)" by fastforce
  note v = lock_notes_view [OF Q a]
  have u: "view (unlock_file G h) = view h" for h using Q by (simp add: git_quiet_def)
  consider (no) e where "writer_lock G root g = (g1, Inl e)" | (yes) l where "writer_lock G root g = (g1, Inr l)"
  proof (cases a)
    case (Inl e)
    then show ?thesis using a no by (simp add: writer_lock_def bind_def)
  next
    case (Inr b)
    then show ?thesis using a no yes by (cases b) (simp_all add: writer_lock_def bind_def)
  qed
  then show ?thesis
  proof cases
    case no
    then show ?thesis using run v by (intro refused [of e]) (auto simp: under_writer_lock_def bind_def)
  next
    case yes
    obtain h' r' where b: "body l g1 = (h', r')" by fastforce
    have "r' = r" "view g' = view h'" using run yes b u by (auto simp: under_writer_lock_def bind_def split: if_splits)
    then show ?thesis using inside v b by simp
  qed
qed

section \<open>A batch\<close>

definition codec_sound :: "carrier_env \<Rightarrow> note_record \<Rightarrow> bool" where
  "codec_sound C r = (clean_line (record_json C r) \<and> json_object C (record_json C r) \<and>
     object_record C (record_json C r) = Some r \<and> rec_schema_version r \<le> 1)"

lemma codec_parse: "codec_sound C r \<Longrightarrow> parse_inkentry_line C (record_json C r) = Some r"
  by (simp add: codec_sound_def parse_inkentry_line_def clean_line_def Let_def)

lemma append_lines_view:
  assumes "git_reads G (\<lambda>g. view_body (view g))" "git_adds G (\<lambda>g. view_body (view g))"
    and ls: "list_all clean_line ls" "ls \<noteq> []"
    and run: "append_lines G t (join [CHR 0x0A] ls) g = (g', Inr ())"
  shows "note_lines (view_body (view g') c) = note_lines (view_body (view g) c) @ (if c = t then ls else [])"
proof -
  from run obtain g1 ex where r: "read_note_body_with_retry G t g = (g1, Inr ex)"
    and a: "add_note_stdin G t (combined ex (join [CHR 0x0A] ls)) g1 = (g', Inr ())"
    by (auto simp: append_lines_def bind_eq_Inr)
  note R = read_attempts_reads [OF assms(1) r [unfolded read_note_body_with_retry_def]]
  let ?b = "combined ex (join [CHR 0x0A] ls)"
  have ink: "ink_lines ?b = note_lines (view_body (view g) t) @ ls"
    using R by (simp add: ink_lines_combined ink_lines_join [OF ls(1)])
  have "snd (git_notes_add G t ?b g1)" "g' = fst (git_notes_add G t ?b g1)"
    using a by (auto simp: add_note_stdin_def split: prod.splits if_splits)
  then obtain d where "view_body (view g') = (view_body (view g1))(t \<mapsto> d)" "ink_lines d = ink_lines ?b"
    using assms(2) ink ls(2) unfolding git_adds_def by (metis append_is_Nil_conv)
  then show ?thesis using R ink by (simp add: note_lines_def [of "Some d"])
qed

lemma append_lines_frame:
  assumes Q: "git_quiet G view" and run: "append_lines G t b g = (g', r)"
  shows "rv_log (view g') = rv_log (view g) \<and> rv_head (view g') = rv_head (view g)"
proof -
  have read: "read_attempts n e G t g = (g1, x) \<Longrightarrow> view g1 = view g" for n e g g1 x
  proof (induction n arbitrary: e g)
    case (Suc n)
    obtain g2 o2 where s: "git_show G t g = (g2, o2)" by fastforce
    have "view g2 = view g" "\<And>d. view (sleep_for G d g2) = view g2" using Q s unfolding git_quiet_def by (metis fst_conv)+
    then show ?case using Suc.prems s
      by (cases o2) (auto simp: read_note_body_def dest!: Suc.IH split: if_splits)
  qed simp
  obtain g1 x where r: "read_note_body_with_retry G t g = (g1, x)" by fastforce
  note v = read [OF r [unfolded read_note_body_with_retry_def]]
  show ?thesis
  proof (cases x)
    case (Inl e)
    then show ?thesis using run r v by (simp add: append_lines_def bind_def)
  next
    case (Inr ex)
    then have "g' = fst (git_notes_add G t (combined ex b) g1)"
      using run r by (auto simp: append_lines_def bind_def add_note_stdin_def split: prod.splits)
    then show ?thesis using Q v unfolding git_quiet_def by simp
  qed
qed

lemma append_fresh_outcome:
  assumes G: "git_prints G view blob" and Q: "git_quiet G view"
    and N: "git_reads G (\<lambda>g. view_body (view g))" "git_adds G (\<lambda>g. view_body (view g))"
    and C: "list_all (codec_sound C) fresh"
    and run: "append_fresh C G status l fresh already g = (g', r)"
  shows "(fresh = [] \<longrightarrow> view g' = view g) \<and> (\<forall>out. r = Inr out \<longrightarrow> bo_written out = length fresh \<and>
      bo_already_carried out = already \<and> rv_log (view g') = rv_log (view g) \<and>
      (\<forall>c. note_lines (view_body (view g') c) = note_lines (view_body (view g) c) @
        (if c = rv_head (view g) then map (record_json C) fresh else [])))"
proof (cases "fresh = []")
  case True
  then show ?thesis using run by (auto simp: append_fresh_def)
next
  case False
  obtain g1 where h: "git_head G g = (g1, Some (rv_head (view g) @ [CHR 0x0A]))" "view g1 = view g"
    using G unfolding git_prints_def by (metis prod.collapse)
  have "git_word (rv_head (view g))" using G unfolding git_prints_def view_sound_def list_all_iff by blast
  then have t: "trim (rv_head (view g) @ [CHR 0x0A]) = rv_head (view g)"
    using git_word_trim [of "rv_head (view g)"]
    by (cases "rv_head (view g)") (auto simp: trim_def trim_start_def git_word_def trim_end_snoc_ws [of _ "_ # _", simplified])
  let ?ls = "map (record_json C) fresh"
  have ls: "list_all clean_line ?ls" "?ls \<noteq> []" using C False by (auto simp: list_all_iff codec_sound_def)
  obtain g2 x where a: "append_lines G (rv_head (view g)) (join [CHR 0x0A] ?ls) g1 = (g2, x)" by fastforce
  have step: "append_fresh C G status l fresh already g = (g2, case x of Inl e \<Rightarrow> Inl e
      | Inr _ \<Rightarrow> Inr \<lparr>bo_rewrite_ref = status, bo_lock_degradation = lock_degradation l,
          bo_written = length fresh, bo_already_carried = already\<rparr>)"
    using False h a t by (simp add: append_fresh_def run_git_def bind_def split: sum.split)
  show ?thesis
  proof (cases x)
    case (Inl e)
    then show ?thesis using run step False by auto
  next
    case (Inr u)
    then have "append_lines G (rv_head (view g)) (join [CHR 0x0A] ?ls) g1 = (g2, Inr ())" using a by simp
    from append_lines_view [OF N ls this] append_lines_frame [OF Q a] show ?thesis
      using run step False Inr h(2) by auto
  qed
qed

text \<open>The batch, whatever becomes of the lock and the subprocesses.\<close>

lemma append_new_outcome:
  assumes G: "git_prints G view blob" and Q: "git_quiet G view"
    and N: "git_reads G (\<lambda>g. view_body (view g))" "git_adds G (\<lambda>g. view_body (view g))"
    and C: "list_all (codec_sound C) rs"
    and run: "append_new_to_git_notes C G root rs g = (g', r)"
  defines "fresh \<equiv> filter (\<lambda>x. resolve_entity_id (ce_env C) x \<notin> carried_ids C (view g)) rs"
  shows "(fresh = [] \<longrightarrow> view g' = view g) \<and> (\<forall>out. r = Inr out \<longrightarrow> bo_written out = length fresh \<and>
      bo_already_carried out = length rs - length fresh \<and> rv_log (view g') = rv_log (view g) \<and>
      (\<forall>c. note_lines (view_body (view g') c) = note_lines (view_body (view g) c) @
        (if c = rv_head (view g) then map (record_json C) fresh else [])))"
proof -
  obtain g1 status where e: "ensure_notes_rewrite_ref G g = (g1, Inr status)"
    using ensure_returns [of G g] by blast
  note v1 = ensure_view [OF Q e]
  let ?body = "\<lambda>l. bind (folded_records C G) (\<lambda>entries. let fresh = fresh_records C entries rs in
     append_fresh C G status l fresh (length rs - length fresh))"
  have run': "under_writer_lock G root ?body g1 = (g', r)"
    using run e by (simp add: append_new_to_git_notes_def bind_def)
  show ?thesis
  proof (cases rule: under_lock_view [OF Q run', case_names refused inside])
    case (refused x)
    then show ?thesis using v1 by simp
  next
    case (inside l h h')
    obtain h1 x where f: "folded_records C G h = (h1, x)" by fastforce
    note F = folded_records_view [OF G f]
    show ?thesis
    proof (cases x)
      case (Inl y)
      then show ?thesis using inside f F v1 by (auto simp: bind_def)
    next
      case (Inr es)
      have ids: "resolve_entity_id (ce_env C) ` set es = carried_ids C (view g)" using F Inr inside(1) v1 by simp
      have fr: "fresh_records C es rs = fresh" unfolding fresh_records_def fresh_def set_map ids ..
      have a: "append_fresh C G status l fresh (length rs - length fresh) h1 = (h', r)"
        using inside(2) f Inr fr by (simp add: bind_def Let_def)
      have "list_all (codec_sound C) fresh" using C by (auto simp: fresh_def list_all_iff)
      from append_fresh_outcome [OF G Q N this a] show ?thesis using F inside(1,3) v1 by simp
    qed
  qed
qed

text \<open>What was carried is still carried, and so is what was fresh.\<close>

lemma carried_after:
  assumes "rv_log v' = rv_log v" "rv_head v \<in> set (rv_log v)" "list_all (codec_sound C) fresh"
    and "\<forall>c. note_lines (view_body v' c) = note_lines (view_body v c) @
      (if c = rv_head v then map (record_json C) fresh else [])"
  shows "carried_records C v' = carried_records C v \<union> set fresh"
proof -
  have p: "parse_inkentry_line C (record_json C r) = Some r" if "r \<in> set fresh" for r
    using assms(3) that by (simp add: codec_parse list_all_iff)
  have split: "(\<exists>c \<in> L. \<exists>l \<in> set (A c @ (if c = h then F else [])). P l) \<longleftrightarrow>
      (\<exists>c \<in> L. \<exists>l \<in> set (A c). P l) \<or> (\<exists>l \<in> set F. P l)" if "h \<in> L" for L A h F and P :: "string \<Rightarrow> bool"
    using that by (auto split: if_splits)
  have fresh: "(\<exists>l \<in> set (map (record_json C) fresh). parse_inkentry_line C l = Some x) \<longleftrightarrow> x \<in> set fresh" for x
    using p by force
  have "x \<in> carried_records C v' \<longleftrightarrow> x \<in> carried_records C v \<or> x \<in> set fresh" for x
    unfolding carried_records_def assms(1) assms(4) [rule_format] mem_Collect_eq split [OF assms(2)] fresh ..
  then show ?thesis by blast
qed


end
