(* ===== verification/Notes_Publish.thy ===== *)
theory Notes_Publish
  imports Notes_Writers
begin

text \<open>
  Waiting for the lock ends, and publishing the notes (fetch, merge under the lock, push, again
  after a lost race) loses the lines of neither side.
\<close>

section \<open>The wait for the lock\<close>

text \<open>The clock does not go back, and a sleep takes at least its time.\<close>

definition clock_runs :: "'g git \<Rightarrow> ('g \<Rightarrow> int) \<Rightarrow> bool" where
  "clock_runs G clock = ((\<forall>g. snd (instant G g) = clock (fst (instant G g)) \<and> clock g \<le> clock (fst (instant G g))) \<and>
     (\<forall>g. clock g \<le> clock (fst (try_lock_file G g))) \<and> (\<forall>d g. clock g + d \<le> clock (sleep_for G d g)))"

lemma lock_poll_ends:
  assumes C: "clock_runs G clock" and "lock_poll n G path deadline g = (g', r)"
    and "0 < n" "deadline \<le> clock g + (int n - 1) * LOCK_POLL_INTERVAL"
  shows "r \<noteq> Inl e"
  using assms(2-4)
proof (induction n arbitrary: g)
  case (Suc n)
  obtain g1 o1 where t: "try_lock_file G g = (g1, o1)" by fastforce
  obtain g2 now where i: "instant G g1 = (g2, now)" by fastforce
  have c: "clock g \<le> clock g1" "now = clock g2" "clock g1 \<le> clock g2"
    "clock g2 + LOCK_POLL_INTERVAL \<le> clock (sleep_for G LOCK_POLL_INTERVAL g2)"
    using C t i unfolding clock_runs_def by (metis fst_conv snd_conv)+
  show ?case
  proof (cases "o1 = Would_Block \<and> now < deadline")
    case True
    then have n: "0 < n" using Suc.prems(3) c by (cases n) auto
    have r: "lock_poll n G path deadline (sleep_for G LOCK_POLL_INTERVAL g2) = (g', r)"
      using Suc.prems(1) True t i by simp
    have "clock g + LOCK_POLL_INTERVAL \<le> clock (sleep_for G LOCK_POLL_INTERVAL g2)" using c by linarith
    then have "deadline \<le> clock (sleep_for G LOCK_POLL_INTERVAL g2) + (int n - 1) * LOCK_POLL_INTERVAL"
      using Suc.prems(3) by (simp add: algebra_simps)
    from Suc.IH [OF r n this] show ?thesis .
  next
    case False
    then show ?thesis using Suc.prems(1) t i by (cases o1) auto
  qed
qed simp

text \<open>
  C11. Waiting for the notes lock ends. Whatever the other processes do with the lock, the wait
  returns after at most 501 polls, with the lock, with the news that it is contended or that it
  cannot be used: the five seconds of the budget are 500 sleeps of ten milliseconds.
\<close>

theorem lock_wait_ends:
  assumes "clock_runs G clock" "lock_notes G root g = (g', r)"
  shows "r \<noteq> Inl Lock_Wait_Exhausted"
proof -
  obtain g1 p where p: "notes_lock_path G root g = (g1, p)" by fastforce
  have np: "p \<noteq> Inl Lock_Wait_Exhausted"
    using p by (auto simp: notes_lock_path_def run_git_def resolve_relative_common_dir_def Let_def
      split: prod.splits option.splits if_splits)
  show ?thesis
  proof (cases p)
    case (Inl e)
    then show ?thesis using assms(2) p np by (auto simp: lock_notes_def bind_def)
  next
    case (Inr path)
    obtain g2 o2 where o2: "open_lock_file G path g1 = (g2, o2)" by fastforce
    obtain g3 now where i: "instant G g2 = (g3, now)" by fastforce
    have now: "now = clock g3" using assms(1) i unfolding clock_runs_def by (metis fst_conv snd_conv)
    show ?thesis
    proof (cases o2)
      case None
      then have poll: "lock_poll LOCK_POLLS G path (now + LOCK_WAIT_BUDGET) g3 = (g', r)"
        using assms(2) p Inr o2 i by (simp add: lock_notes_def bind_def)
      show ?thesis
        by (rule lock_poll_ends [OF assms(1) poll])
          (simp_all add: now LOCK_POLLS_def LOCK_WAIT_BUDGET_def LOCK_POLL_INTERVAL_def)
    next
      case (Some x)
      then show ?thesis using assms(2) p Inr o2 by (auto simp: lock_notes_def bind_def)
    qed
  qed
qed

section \<open>Publishing\<close>

text \<open>
  Over \<open>remote\<close>, the lines the remote holds: only a merge touches the local notes and nothing
  takes lines from the remote (others push too, and nobody forces); a push that is accepted has
  brought the local lines there.
\<close>

definition sides_kept :: "('g \<Rightarrow> string \<Rightarrow> string option) \<Rightarrow> ('g \<Rightarrow> string \<Rightarrow> string set) \<Rightarrow> 'g \<Rightarrow> 'g \<Rightarrow> bool" where
  "sides_kept body_of remote g h = (body_of h = body_of g \<and> (\<forall>t. remote g t \<subseteq> remote h t))"

definition git_publishes ::
    "'g git \<Rightarrow> ('g \<Rightarrow> string \<Rightarrow> string option) \<Rightarrow> ('g \<Rightarrow> string \<Rightarrow> string set) \<Rightarrow> bool" where
  "git_publishes G body_of remote =
     ((\<forall>g. sides_kept body_of remote g (fst (git_verify_ref G g))) \<and>
      (\<forall>r g. sides_kept body_of remote g (fst (git_remote_url G r g))) \<and>
      (\<forall>r g. sides_kept body_of remote g (fst (git_fetch G r g))) \<and>
      (\<forall>g. sides_kept body_of remote g (fst (common_dir_absolute G g))) \<and>
      (\<forall>g. sides_kept body_of remote g (fst (common_dir_relative G g))) \<and>
      (\<forall>p g. sides_kept body_of remote g (fst (open_lock_file G p g))) \<and>
      (\<forall>g. sides_kept body_of remote g (fst (try_lock_file G g))) \<and>
      (\<forall>g. sides_kept body_of remote g (unlock_file G g)) \<and>
      (\<forall>g. sides_kept body_of remote g (fst (instant G g))) \<and>
      (\<forall>d g. sides_kept body_of remote g (sleep_for G d g)) \<and>
      (\<forall>g t. remote g t \<subseteq> remote (fst (git_merge G g)) t) \<and>
      (\<forall>r g. sides_kept body_of remote g (fst (git_push G r g)) \<and>
        (snd (git_push G r g) = None \<longrightarrow> (\<forall>t. set (note_lines (body_of g t)) \<subseteq> remote (fst (git_push G r g)) t))))"

lemma sides_kept_trans: "sides_kept b r g h \<Longrightarrow> sides_kept b r h k \<Longrightarrow> sides_kept b r g k"
  unfolding sides_kept_def by (metis subset_trans)

lemma publish_laws:
  assumes "git_publishes G body_of remote"
  shows "git_verify_ref G g = (h, x1) \<Longrightarrow> sides_kept body_of remote g h"
    "git_remote_url G rm g = (h, x1) \<Longrightarrow> sides_kept body_of remote g h"
    "git_fetch G rm g = (h, x1) \<Longrightarrow> sides_kept body_of remote g h"
    "common_dir_absolute G g = (h, x2) \<Longrightarrow> sides_kept body_of remote g h"
    "common_dir_relative G g = (h, x2) \<Longrightarrow> sides_kept body_of remote g h"
    "open_lock_file G p g = (h, x2) \<Longrightarrow> sides_kept body_of remote g h"
    "try_lock_file G g = (h, x3) \<Longrightarrow> sides_kept body_of remote g h"
    "sides_kept body_of remote g (unlock_file G g)"
    "instant G g = (h, x4) \<Longrightarrow> sides_kept body_of remote g h"
    "sides_kept body_of remote g (sleep_for G d g)"
    "git_merge G g = (h, x1) \<Longrightarrow> remote g t \<subseteq> remote h t"
    "git_push G rm g = (h, x2) \<Longrightarrow> sides_kept body_of remote g h"
    "git_push G rm g = (h, None) \<Longrightarrow> set (note_lines (body_of g t)) \<subseteq> remote h t"
  using assms unfolding git_publishes_def by (metis fst_conv snd_conv)+

lemma lock_poll_keeps:
  assumes P: "git_publishes G body_of remote"
  shows "lock_poll n G path d g = (g', r) \<Longrightarrow> sides_kept body_of remote g g'"
proof (induction n arbitrary: g)
  case 0
  then show ?case by (simp add: sides_kept_def)
next
  case (Suc n)
  obtain g1 o1 where t: "try_lock_file G g = (g1, o1)" by fastforce
  obtain g2 now where i: "instant G g1 = (g2, now)" by fastforce
  note k = publish_laws(7) [OF P t] publish_laws(9) [OF P i]
  then have g2: "sides_kept body_of remote g g2" by (rule sides_kept_trans)
  have "sides_kept body_of remote g (sleep_for G LOCK_POLL_INTERVAL g2)" using sides_kept_trans [OF g2 publish_laws(10) [OF P]] .
  then show ?case using Suc.prems t i k(1) g2
    by (cases o1) (auto split: if_splits dest: Suc.IH intro: sides_kept_trans)
qed

lemma lock_notes_keeps:
  assumes P: "git_publishes G body_of remote" and run: "lock_notes G root g = (g', r)"
  shows "sides_kept body_of remote g g'"
proof -
  obtain g1 p where p: "notes_lock_path G root g = (g1, p)" by fastforce
  obtain ga xa where a: "common_dir_absolute G g = (ga, xa)" by fastforce
  obtain gb xb where b: "common_dir_relative G ga = (gb, xb)" by fastforce
  note ka = publish_laws(4) [OF P a] and kb = sides_kept_trans [OF publish_laws(4) [OF P a] publish_laws(5) [OF P b]]
  have "g1 = ga \<or> g1 = gb"
    using p a b by (auto simp: notes_lock_path_def run_git_def Let_def split: option.splits if_splits)
  then have k1: "sides_kept body_of remote g g1" using ka kb by blast
  show ?thesis
  proof (cases p)
    case (Inl e)
    then show ?thesis using run p k1 by (simp add: lock_notes_def bind_def)
  next
    case (Inr path)
    obtain g2 o2 where o2: "open_lock_file G path g1 = (g2, o2)" by fastforce
    obtain g3 now where i: "instant G g2 = (g3, now)" by fastforce
    note k2 = sides_kept_trans [OF k1 publish_laws(6) [OF P o2]]
    note k3 = sides_kept_trans [OF k2 publish_laws(9) [OF P i]]
    show ?thesis using run p Inr o2 i k2 k3
      by (cases o2) (auto simp: lock_notes_def bind_def intro: sides_kept_trans dest: lock_poll_keeps [OF P])
  qed
qed

text \<open>What publishing may do to either side: add.\<close>

definition both_grow :: "('g \<Rightarrow> string \<Rightarrow> string option) \<Rightarrow> ('g \<Rightarrow> string \<Rightarrow> string set) \<Rightarrow> 'g \<Rightarrow> 'g \<Rightarrow> bool" where
  "both_grow body_of remote g h = (\<forall>t. set (note_lines (body_of g t)) \<subseteq> set (note_lines (body_of h t)) \<and>
     remote g t \<subseteq> remote h t)"

lemma both_grow_keeps: "sides_kept b r g h \<Longrightarrow> both_grow b r g h"
  by (simp add: both_grow_def sides_kept_def)

lemma both_grow_trans: "both_grow b r g h \<Longrightarrow> both_grow b r h k \<Longrightarrow> both_grow b r g k"
  unfolding both_grow_def by (meson subset_trans)

lemma merge_grows:
  assumes P: "git_publishes G body_of remote" and M: "git_merges G body_of track"
    and run: "merge_tracking_notes G root g = (g', out)"
  shows "both_grow body_of remote g g'"
proof -
  obtain g1 a where l: "lock_notes G root g = (g1, a)" by fastforce
  note k1 = both_grow_keeps [OF lock_notes_keeps [OF P l]]
  show ?thesis
  proof (cases "a = Inr Acquired")
    case True
    obtain g2 m where m: "git_merge G g1 = (g2, m)" by fastforce
    have "set (note_lines (body_of g1 t)) \<subseteq> set (note_lines (body_of g2 t))" for t
      using M m unfolding git_merges_def by (cases m) (metis fst_conv snd_conv Un_upper1 order_refl)+
    then have k2: "both_grow body_of remote g1 g2" using publish_laws(11) [OF P m] by (simp add: both_grow_def)
    have "g' = unlock_file G g2" using run l True m by (simp add: merge_tracking_notes_def)
    then show ?thesis
      using both_grow_trans [OF both_grow_trans [OF k1 k2] both_grow_keeps [OF publish_laws(8) [OF P]]] by simp
  next
    case False
    then have "g' = g1" using run l by (auto simp: merge_tracking_notes_def split: sum.splits lock_attempt.splits)
    then show ?thesis using k1 by simp
  qed
qed

definition published_soundly ::
    "('g \<Rightarrow> string \<Rightarrow> string option) \<Rightarrow> ('g \<Rightarrow> string \<Rightarrow> string set) \<Rightarrow> 'g \<Rightarrow> 'g \<Rightarrow> string + publish_outcome \<Rightarrow> bool" where
  "published_soundly body_of remote g h r = (both_grow body_of remote g h \<and> (case r of
     Inr (Published k) \<Rightarrow> 1 \<le> k \<and> k \<le> MAX_PUSH_ATTEMPTS \<and> (\<forall>t. set (note_lines (body_of g t)) \<subseteq> remote h t)
   | _ \<Rightarrow> True))"

lemma published_after:
  assumes "both_grow body_of remote g h" "published_soundly body_of remote h k r"
  shows "published_soundly body_of remote g k r"
proof -
  have grow: "both_grow body_of remote g k" using both_grow_trans [OF assms(1)] assms(2) by (simp add: published_soundly_def)
  have pushed: "set (note_lines (body_of g t)) \<subseteq> remote k t" if "set (note_lines (body_of h t)) \<subseteq> remote k t" for t
    using assms(1) that unfolding both_grow_def by (meson subset_trans)
  show ?thesis
  proof (cases r)
    case (Inr x)
    then show ?thesis using grow assms pushed
      by (cases x) (simp_all add: published_soundly_def)
  qed (use grow in \<open>simp add: published_soundly_def\<close>)
qed

lemma publish_attempts_sound:
  assumes P: "git_publishes G body_of remote" and M: "git_merges G body_of track"
  shows "publish_attempts n err G root rm g = (g', r) \<Longrightarrow> n \<le> MAX_PUSH_ATTEMPTS \<Longrightarrow> published_soundly body_of remote g g' r"
proof (induction n arbitrary: err g)
  case 0
  then show ?case by (auto simp: published_soundly_def both_grow_def)
next
  case (Suc n)
  obtain g1 f where f: "git_fetch G rm g = (g1, f)" by fastforce
  obtain g2 m where m: "merge_tracking_notes G root g1 = (g2, m)" by fastforce
  obtain g3 p where p: "git_push G rm g2 = (g3, p)" by fastforce
  note k2 = both_grow_trans [OF both_grow_keeps [OF publish_laws(3) [OF P f]] merge_grows [OF P M m]]
  note k3 = both_grow_trans [OF k2 both_grow_keeps [OF publish_laws(12) [OF P p]]]
  consider (skip) "m = Lock_Unavailable" | (pushed) "m \<noteq> Lock_Unavailable" "p = None"
    | (refused) x where "m \<noteq> Lock_Unavailable" "p = Some x" by (cases p) auto
  then show ?case
  proof cases
    case skip
    then show ?thesis using Suc.prems(1) f m k2 by (auto simp: published_soundly_def)
  next
    case pushed
    then have "g' = g3" "r = Inr (Published (MAX_PUSH_ATTEMPTS - n))" using Suc.prems(1) f m p by auto
    moreover have "set (note_lines (body_of g t)) \<subseteq> remote g3 t" for t
      using k2 publish_laws(13) [OF P] p pushed(2) unfolding both_grow_def by (meson subset_trans)
    ultimately show ?thesis using k3 Suc.prems(2) by (auto simp: published_soundly_def)
  next
    case (refused x)
    show ?thesis
    proof (cases "is_lost_race x")
      case True
      then have "publish_attempts n x G root rm g3 = (g', r)" using Suc.prems(1) f m p refused by simp
      from Suc.IH [OF this] Suc.prems(2) have S: "published_soundly body_of remote g3 g' r" by simp
      then show ?thesis by (rule published_after [OF k3])
    next
      case False
      then show ?thesis using Suc.prems(1) f m p refused k3 by (auto simp: published_soundly_def)
    qed
  qed
qed


end
