(* ===== verification/Notes_Demo.thy ===== *)
theory Notes_Demo
  imports Notes_Append Notes_Publish
begin

text \<open>
  A small repository that does what git documents: one commit of the history can carry a note,
  object names are the bodies in hexadecimal, the lock is free. The properties of the carrier are
  applied to it.
\<close>

section \<open>The repository\<close>

definition hex2 :: "char \<Rightarrow> string" where
  "hex2 c = [char_of (97 + of_char c div 16 :: nat), char_of (97 + of_char c mod 16 :: nat)]"

fun unhex :: "string \<Rightarrow> string" where
  "unhex (a # b # s) = char_of ((of_char a - 97) * 16 + (of_char b - 97) :: nat) # unhex s"
| "unhex _ = []"

definition demo_blob :: "string \<Rightarrow> string" where
  "demo_blob b = CHR ''x'' # concat (map hex2 b)"

definition demo_view :: "string option \<Rightarrow> repo_view" where
  "demo_view g = \<lparr>rv_notes = (case g of None \<Rightarrow> [] | Some b \<Rightarrow> if int (length b) < 2 ^ 64 then [(''c2'', b)] else []),
     rv_log = [''c2'', ''c1''], rv_head = ''c2''\<rparr>"

definition demo_git :: "string option git" where
  "demo_git = \<lparr>git_rewrite_refs = (\<lambda>g. (g, None)), git_add_rewrite_ref = (\<lambda>g. (g, True)),
     git_head = (\<lambda>g. (g, Some (''c2'' @ [CHR 0x0A]))),
     git_show = (\<lambda>t g. (g, case view_body (demo_view g) t of None \<Rightarrow> No_Note | Some b \<Rightarrow> Shown b)),
     git_notes_add = (\<lambda>t b g. if t = ''c2'' \<and> int (length b) + 1 < 2 ^ 64 then (Some (b @ [CHR 0x0A]), True) else (g, False)),
     git_notes_list = (\<lambda>g. (g, Some (listing_of demo_blob (rv_notes (demo_view g))))),
     git_log = (\<lambda>g. (g, Some (concat (map (\<lambda>c. c @ [CHR 0x0A]) (rv_log (demo_view g)))))),
     git_cat_file = (\<lambda>q g. (g, Some (concat (map (\<lambda>i. cat_frame demo_blob (unhex (tl i))) (str_lines q))))),
     git_merge = (\<lambda>g. (g, True)), git_verify_ref = (\<lambda>g. (g, True)), git_remote_url = (\<lambda>r g. (g, True)),
     git_fetch = (\<lambda>r g. (g, True)), git_push = (\<lambda>r g. (g, None)),
     common_dir_absolute = (\<lambda>g. (g, Some (''/r/.git'' @ [CHR 0x0A]))), common_dir_relative = (\<lambda>g. (g, None)),
     canonicalize = (\<lambda>p. None), open_lock_file = (\<lambda>p g. (g, None)), try_lock_file = (\<lambda>g. (g, Locked)),
     unlock_file = (\<lambda>g. g), instant = (\<lambda>g. (g, 0)), sleep_for = (\<lambda>d g. g)\<rparr>"

lemma nibble: "(n::nat) < 16 \<Longrightarrow> (of_char (char_of (97 + n)) :: nat) = 97 + n \<and> \<not> is_ws (char_of (97 + n))"
  by (simp add: is_ws_def Let_def)

lemma of_char_div_16: "(of_char c :: nat) div 16 < 16"
proof -
  have "(of_char c :: nat) < 16 * 16" using nat_of_char_less_256 [of c] by simp
  then show ?thesis by (rule less_mult_imp_div_less)
qed

lemma of_char_mod_16: "(of_char c :: nat) mod 16 < 16"
  by simp

lemma unhex_hex: "unhex (concat (map hex2 b)) = b"
proof (induction b)
  case (Cons c b)
  have "(of_char c :: nat) div 16 < 16" "(of_char c :: nat) mod 16 < 16"
    by (rule of_char_div_16, rule of_char_mod_16)
  then show ?case using Cons by (simp add: hex2_def nibble)
qed simp

lemma hex_word: "git_word (demo_blob b)"
proof -
  have "(of_char c :: nat) div 16 < 16" "(of_char c :: nat) mod 16 < 16" for c
    by (rule of_char_div_16, rule of_char_mod_16)
  then have "list_all (\<lambda>d. \<not> is_ws d) (concat (map hex2 b))"
    by (induction b) (simp_all add: hex2_def nibble)
  then show ?thesis by (simp add: git_word_def demo_blob_def is_ws_def)
qed

lemma str_lines_request: "list_all git_word ids \<Longrightarrow> ids \<noteq> [] \<Longrightarrow> str_lines (join [CHR 0x0A] ids @ [CHR 0x0A]) = ids"
proof (induction "[CHR 0x0A]" ids rule: join.induct)
  case (2 p)
  then show ?case using str_lines_Cons [of p "[]"] by (simp add: git_word_no_lf git_word_last strip_cr_word str_lines_def)
next
  case (3 p q ps)
  then show ?case using str_lines_Cons [of p "join [CHR 0x0A] (q # ps) @ [CHR 0x0A]"]
    by (simp add: git_word_no_lf git_word_last strip_cr_word)
qed simp

lemma demo_git_reads: "git_reads demo_git (\<lambda>g. view_body (demo_view g))"
  by (simp add: git_reads_def demo_git_def split: option.split)

lemma demo_git_adds: "git_adds demo_git (\<lambda>g. view_body (demo_view g))"
  using ink_lines_append [of _ "[]"]
  by (auto simp: git_adds_def demo_git_def demo_view_def view_body_def fun_eq_iff split: option.split)

lemma demo_git_merges: "git_merges demo_git (\<lambda>g. view_body (demo_view g)) (\<lambda>g t. {})"
  by (simp add: git_merges_def demo_git_def)

lemma demo_git_quiet: "git_quiet demo_git demo_view"
  by (auto simp: git_quiet_def demo_git_def demo_view_def)

lemma demo_git_prints: "git_prints demo_git demo_view demo_blob"
proof -
  have w: "git_word ''c1''" "git_word ''c2''" by (simp_all add: git_word_def is_ws_def)
  have v: "view_sound (demo_view g)" for g using w by (auto simp: view_sound_def demo_view_def split: option.split)
  have "concat (map (\<lambda>i. cat_frame demo_blob (unhex (tl i))) (str_lines (join [CHR 0x0A] (map demo_blob bs) @ [CHR 0x0A])))
      = concat (map (cat_frame demo_blob) bs)" if "bs \<noteq> []" for bs
    using str_lines_request [of "map demo_blob bs"] that
    by (simp add: list_all_iff hex_word comp_def) (simp add: demo_blob_def unhex_hex)
  then show ?thesis unfolding git_prints_def using hex_word v
    by (auto simp: demo_git_def demo_view_def)
qed

section \<open>Two writers\<close>

abbreviation demo_step :: "string option carrier_sys \<Rightarrow> string option carrier_sys \<Rightarrow> bool" where
  "demo_step \<equiv> carrier_step demo_git (\<lambda>g. view_body (demo_view g)) (\<lambda>g t. {}) (\<lambda>t. {})"

definition demo_sys :: "string option \<Rightarrow> nat option \<Rightarrow> (string \<times> write_phase) list \<Rightarrow> string option carrier_sys" where
  "demo_sys w h ps = \<lparr>cs_world = w, cs_holder = h,
     cs_writers = map (\<lambda>(l, ph). \<lparr>wr_target = ''c2'', wr_lines = [l], wr_phase = ph\<rparr>) ps\<rparr>"

definition demo_body1 :: string where
  "demo_body1 = ''{1}'' @ [CHR 0x0A]"

definition demo_body2 :: string where
  "demo_body2 = ''{1}'' @ CHR 0x0A # ''{2}'' @ [CHR 0x0A]"

lemma demo_steps:
  "demo_step (demo_sys None None []) (demo_sys None None [(''{1}'', Waits)])"
  "demo_step (demo_sys None None [(''{1}'', Waits)]) (demo_sys None None [(''{1}'', Waits), (''{2}'', Waits)])"
  "demo_step (demo_sys None None [(''{1}'', Waits), (''{2}'', Waits)])
     (demo_sys None (Some 0) [(''{1}'', Reads), (''{2}'', Waits)])"
  "demo_step (demo_sys (Some demo_body1) None [(''{1}'', Returned (Inr ())), (''{2}'', Waits)])
     (demo_sys (Some demo_body1) (Some 1) [(''{1}'', Returned (Inr ())), (''{2}'', Reads)])"
  using carrier_step.writer_starts [of "[''{1}'']" demo_git _ _ _ "demo_sys None None []" "''c2''"]
    carrier_step.writer_starts [of "[''{2}'']" demo_git _ _ _ "demo_sys None None [(''{1}'', Waits)]" "''c2''"]
    carrier_step.writer_locks [of "demo_sys None None [(''{1}'', Waits), (''{2}'', Waits)]" 0]
    carrier_step.writer_locks [of "demo_sys (Some demo_body1) None [(''{1}'', Returned (Inr ())), (''{2}'', Waits)]" 1]
  by (simp_all add: demo_sys_def to_phase_def at_phase_def clean_line_def trim_def trim_start_def trim_end_def is_ws_def)

lemma demo_reads:
  "demo_step (demo_sys None (Some 0) [(''{1}'', Reads), (''{2}'', Waits)])
     (demo_sys None (Some 0) [(''{1}'', Writes None), (''{2}'', Waits)])"
  "demo_step (demo_sys (Some demo_body1) (Some 1) [(''{1}'', Returned (Inr ())), (''{2}'', Reads)])
     (demo_sys (Some demo_body1) (Some 1) [(''{1}'', Returned (Inr ())), (''{2}'', Writes (Some demo_body1))])"
proof -
  have r: "read_note_body_with_retry demo_git ''c2'' None = (None, Inr None)"
    "read_note_body_with_retry demo_git ''c2'' (Some demo_body1) = (Some demo_body1, Inr (Some demo_body1))"
    by code_simp+
  show "demo_step (demo_sys None (Some 0) [(''{1}'', Reads), (''{2}'', Waits)])
     (demo_sys None (Some 0) [(''{1}'', Writes None), (''{2}'', Waits)])"
    using carrier_step.writer_reads [of "demo_sys None (Some 0) [(''{1}'', Reads), (''{2}'', Waits)]" 0 demo_git] r
    by (simp add: demo_sys_def to_phase_def at_phase_def)
  show "demo_step (demo_sys (Some demo_body1) (Some 1) [(''{1}'', Returned (Inr ())), (''{2}'', Reads)])
     (demo_sys (Some demo_body1) (Some 1) [(''{1}'', Returned (Inr ())), (''{2}'', Writes (Some demo_body1))])"
    using carrier_step.writer_reads [of "demo_sys (Some demo_body1) (Some 1) [(''{1}'', Returned (Inr ())), (''{2}'', Reads)]" 1 demo_git] r
    by (simp add: demo_sys_def to_phase_def at_phase_def)
qed

lemma demo_writes:
  "demo_step (demo_sys None (Some 0) [(''{1}'', Writes None), (''{2}'', Waits)])
     (demo_sys (Some demo_body1) None [(''{1}'', Returned (Inr ())), (''{2}'', Waits)])"
  "demo_step (demo_sys (Some demo_body1) (Some 1) [(''{1}'', Returned (Inr ())), (''{2}'', Writes (Some demo_body1))])
     (demo_sys (Some demo_body2) None [(''{1}'', Returned (Inr ())), (''{2}'', Returned (Inr ()))])"
proof -
  have w: "add_note_stdin demo_git ''c2'' (combined None ''{1}'') None = (Some demo_body1, Inr ())"
    "add_note_stdin demo_git ''c2'' (combined (Some demo_body1) ''{2}'') (Some demo_body1) = (Some demo_body2, Inr ())"
    by code_simp+
  show "demo_step (demo_sys None (Some 0) [(''{1}'', Writes None), (''{2}'', Waits)])
     (demo_sys (Some demo_body1) None [(''{1}'', Returned (Inr ())), (''{2}'', Waits)])"
    using carrier_step.writer_writes [of "demo_sys None (Some 0) [(''{1}'', Writes None), (''{2}'', Waits)]" 0 None demo_git] w(1)
    by (simp add: demo_sys_def to_phase_def at_phase_def)
  show "demo_step (demo_sys (Some demo_body1) (Some 1) [(''{1}'', Returned (Inr ())), (''{2}'', Writes (Some demo_body1))])
     (demo_sys (Some demo_body2) None [(''{1}'', Returned (Inr ())), (''{2}'', Returned (Inr ()))])"
    using carrier_step.writer_writes [of "demo_sys (Some demo_body1) (Some 1)
      [(''{1}'', Returned (Inr ())), (''{2}'', Writes (Some demo_body1))]" 1 "Some demo_body1" demo_git] w(2)
    by (simp add: demo_sys_def to_phase_def at_phase_def)
qed

definition demo_reaches :: "string option carrier_sys \<Rightarrow> bool" where
  "demo_reaches = reach (carrier_start (\<lambda>g. view_body (demo_view g)) (view_body (demo_view None))) demo_step"

lemma demo_next: "demo_reaches s \<Longrightarrow> demo_step s t \<Longrightarrow> demo_reaches t"
  unfolding demo_reaches_def by (rule reach_step)

lemma demo_reach: "demo_reaches
    (demo_sys (Some demo_body2) None [(''{1}'', Returned (Inr ())), (''{2}'', Returned (Inr ()))])"
proof -
  have "demo_reaches (demo_sys None None [])" unfolding demo_reaches_def
    by (rule reach_init) (simp add: carrier_start_def demo_sys_def)
  from demo_next [OF this demo_steps(1)] have "demo_reaches (demo_sys None None [(''{1}'', Waits)])" .
  from demo_next [OF this demo_steps(2)] have "demo_reaches (demo_sys None None [(''{1}'', Waits), (''{2}'', Waits)])" .
  from demo_next [OF this demo_steps(3)] have "demo_reaches (demo_sys None (Some 0) [(''{1}'', Reads), (''{2}'', Waits)])" .
  from demo_next [OF this demo_reads(1)] have "demo_reaches (demo_sys None (Some 0) [(''{1}'', Writes None), (''{2}'', Waits)])" .
  from demo_next [OF this demo_writes(1)]
  have "demo_reaches (demo_sys (Some demo_body1) None [(''{1}'', Returned (Inr ())), (''{2}'', Waits)])" .
  from demo_next [OF this demo_steps(4)]
  have "demo_reaches (demo_sys (Some demo_body1) (Some 1) [(''{1}'', Returned (Inr ())), (''{2}'', Reads)])" .
  from demo_next [OF this demo_reads(2)]
  have "demo_reaches (demo_sys (Some demo_body1) (Some 1) [(''{1}'', Returned (Inr ())), (''{2}'', Writes (Some demo_body1))])" .
  from demo_next [OF this demo_writes(2)] show ?thesis .
qed


section \<open>A batch\<close>

definition demo_record :: "string \<Rightarrow> note_record" where
  "demo_record e = \<lparr>rec_schema_version = 1, rec_id = 7, rec_kind = ''decision'', rec_title = ''t'', rec_body = e,
     rec_tags = [], rec_linked_files = [], rec_created_at = 1, rec_status = ''active'', rec_source_ref = None,
     rec_valid_at = None, rec_invalid_at = None, rec_superseded_by = None, rec_remote_id = None,
     rec_entity_id = Some e, rec_superseded_by_entity_id = None, rec_edges = [], rec_origin = None, rec_op = None,
     rec_patch_id = None\<rparr>"

text \<open>One letter per record is codec enough.\<close>

definition demo_carrier :: carrier_env where
  "demo_carrier = \<lparr>ce_env = demo_env, json_object = (\<lambda>l. hd l = CHR ''{''),
     object_record = (\<lambda>l. Some (demo_record (butlast (tl l)))),
     record_json = (\<lambda>r. CHR ''{'' # rec_body r @ ''}''), ce_millis = 1, ce_secs = 1\<rparr>"

text \<open>The note carries one entry; of the batch of two, the other is appended, and then nothing.\<close>

lemma batch_first_run:
  "append_new_to_git_notes demo_carrier demo_git None [demo_record ''a'', demo_record ''b''] (Some ''{a}'') =
     (Some (''{a}'' @ CHR 0x0A # ''{b}'' @ [CHR 0x0A]),
      Inr \<lparr>bo_rewrite_ref = Configured, bo_lock_degradation = None, bo_written = 1, bo_already_carried = 1\<rparr>)"
  by code_simp

lemma batch_second_run:
  "append_new_to_git_notes demo_carrier demo_git None [demo_record ''a'', demo_record ''b'']
     (Some (''{a}'' @ CHR 0x0A # ''{b}'' @ [CHR 0x0A])) =
     (Some (''{a}'' @ CHR 0x0A # ''{b}'' @ [CHR 0x0A]),
      Inr \<lparr>bo_rewrite_ref = Configured, bo_lock_degradation = None, bo_written = 0, bo_already_carried = 2\<rparr>)"
  by code_simp

lemma demo_codec: "list_all (codec_sound demo_carrier) [demo_record ''a'', demo_record ''b'']"
  by (simp add: codec_sound_def demo_carrier_def demo_record_def clean_line_def trim_def trim_start_def trim_end_def is_ws_def)


section \<open>Two clones\<close>

text \<open>
  The local lines, those of the remote, those last fetched, and a clock. Another process may hold
  the lock for ever, and the first fetch fails.
\<close>

type_synonym demo_clones = "string list \<times> string list \<times> string list \<times> int"

fun demo_local :: "demo_clones \<Rightarrow> string \<Rightarrow> string option" where
  "demo_local (l, r, f, c) t = (if t = ''c2'' then Some (join [CHR 0x0A] (filter clean_line l)) else None)"

fun demo_remote :: "demo_clones \<Rightarrow> string \<Rightarrow> string set" where
  "demo_remote (l, r, f, c) t = (if t = ''c2'' then set r else {})"

fun demo_fetched :: "demo_clones \<Rightarrow> string \<Rightarrow> string set" where
  "demo_fetched (l, r, f, c) t = (if t = ''c2'' then set (filter clean_line f) else {})"

definition demo_clones_git :: "bool \<Rightarrow> demo_clones git" where
  "demo_clones_git free = \<lparr>git_rewrite_refs = (\<lambda>g. (g, None)), git_add_rewrite_ref = (\<lambda>g. (g, True)),
     git_head = (\<lambda>g. (g, None)), git_show = (\<lambda>t g. (g, No_Note)), git_notes_add = (\<lambda>t b g. (g, False)),
     git_notes_list = (\<lambda>g. (g, None)), git_log = (\<lambda>g. (g, None)), git_cat_file = (\<lambda>q g. (g, None)),
     git_merge = (\<lambda>(l, r, f, c). ((l @ f, r, f, c), True)), git_verify_ref = (\<lambda>g. (g, True)), git_remote_url = (\<lambda>n g. (g, True)),
     git_fetch = (\<lambda>n (l, r, f, c). if c = 0 then ((l, r, f, c), False) else ((l, r, r, c), True)),
     git_push = (\<lambda>n (l, r, f, c). if list_all (\<lambda>x. x \<in> set l) r then ((l, l, f, c), None)
       else ((l, r, f, c), Some ''! [rejected] (fetch first)'')),
     common_dir_absolute = (\<lambda>g. (g, Some (''/r/.git'' @ [CHR 0x0A]))), common_dir_relative = (\<lambda>g. (g, None)),
     canonicalize = (\<lambda>p. None), open_lock_file = (\<lambda>p g. (g, None)),
     try_lock_file = (\<lambda>g. (g, if free then Locked else Would_Block)), unlock_file = (\<lambda>g. g),
     instant = (\<lambda>(l, r, f, c). ((l, r, f, c + 1), c + 1)), sleep_for = (\<lambda>d (l, r, f, c). (l, r, f, c + d))\<rparr>"

lemma demo_clones_clock: "clock_runs (demo_clones_git free) (\<lambda>(l, r, f, c). c)"
  by (auto simp: clock_runs_def demo_clones_git_def)

lemma ink_lines_kept: "set (ink_lines (join [CHR 0x0A] (filter clean_line l))) = set (filter clean_line l)"
  by (subst ink_lines_join) (simp_all add: list_all_iff)

lemma demo_clones_publish: "git_publishes (demo_clones_git free) demo_local demo_remote"
  by (auto simp: git_publishes_def demo_clones_git_def sides_kept_def fun_eq_iff list_all_iff note_lines_def ink_lines_kept
    simp del: set_filter)

lemma demo_clones_merge: "git_merges (demo_clones_git free) demo_local demo_fetched"
  by (auto simp: git_merges_def demo_clones_git_def note_lines_def ink_lines_kept
    simp del: filter_append)

lemma demo_contended: "lock_notes (demo_clones_git False) None ([], [], [], 0) =
   (([], [], [], 5000000502), Inr (Contended ''/r/.git/inkentry-notes.lock''))"
  by code_simp

lemma lock_wait_ends_witness:
  "Inr (Contended ''/r/.git/inkentry-notes.lock'') \<noteq> (Inl Lock_Wait_Exhausted :: carrier_error + lock_attempt)"
  by (rule lock_wait_ends [OF demo_clones_clock demo_contended])

lemma demo_published: "publish_notes (demo_clones_git True) False None ''origin'' ([''{1}''], [''{2}''], [], 0) =
   (([''{1}'', ''{2}''], [''{1}'', ''{2}''], [''{2}''], 2), Inr (Published 2))"
  by code_simp


end
