(* ===== verification/Outbox.thy ===== *)
theory Outbox
  imports Sync_Converge Relay_Registry
begin

text \<open>
  The command line's side of the relay (\<open>memory/outbox.rs\<close>): after a write it hands what is not
  synced to the local server, and on a poll it applies what the relay holds for it and
  acknowledges what it applied. Every failure on the way is swallowed. The HTTP exchanges with the
  local server, which may fail or be lost, are parameters.
\<close>

section \<open>The mode and the target\<close>

datatype sync_mode = Offline | Local_First | Cloud_First

text \<open>\<open>no_server\<close>: the value of \<open>INKENTRY_NO_SERVER\<close>, if it is set.\<close>

definition no_server_env_set :: "string option \<Rightarrow> bool" where
  "no_server_env_set v = (v = Some ''1'' \<or> v = Some ''true'' \<or> v = Some ''yes'')"

record outbox_config =
  oc_no_server :: "string option"
  oc_mode :: "sync_mode option"
  oc_server_url :: "string option"
  oc_project_id :: "string option"

definition resolve_mode :: "outbox_config \<Rightarrow> sync_mode" where
  "resolve_mode cfg = (if no_server_env_set (oc_no_server cfg) then Offline
     else case oc_mode cfg of Some mode \<Rightarrow> mode
     | None \<Rightarrow> if oc_server_url cfg \<noteq> None then Local_First else Offline)"

definition relay_target :: "outbox_config \<Rightarrow> (string \<times> string) option" where
  "relay_target cfg = (if resolve_mode cfg \<noteq> Local_First then None
     else case oc_server_url cfg of None \<Rightarrow> None
     | Some url \<Rightarrow> (case oc_project_id cfg of None \<Rightarrow> None | Some project \<Rightarrow> Some (url, project)))"

section \<open>The local server\<close>

text \<open>
  What the commands do with the local server, on the state of the world: whether the store can be
  opened and a client built is given; a poll has an answer or not.
\<close>

record relay_ack_request =
  ra_server_url :: string
  ra_project_id :: string
  ra_applied_push_external_ids :: "string list"
  ra_applied_pull_remote_ids :: "string list"

record 'w local_relay =
  lr_is_terminal :: bool
  lr_opens :: bool
  lr_builds_client :: bool
  lr_ensure_server :: "'w \<Rightarrow> 'w"
  lr_probe_port :: "'w \<Rightarrow> 'w \<times> nat option"
  lr_fresh_key :: "string \<Rightarrow> 'w \<Rightarrow> 'w \<times> string option"
  lr_push :: "nat \<Rightarrow> relay_push_request \<Rightarrow> 'w \<Rightarrow> 'w"
  lr_poll :: "nat \<Rightarrow> string \<times> string \<Rightarrow> 'w \<Rightarrow> 'w \<times> relay_poll_response option"
  lr_ack :: "nat \<Rightarrow> relay_ack_request \<Rightarrow> 'w \<Rightarrow> 'w"

section \<open>Handing over\<close>

definition MAX_NUDGE_ENTRIES :: nat where
  "MAX_NUDGE_ENTRIES = 200"

definition nudge_entry :: "sync_row \<Rightarrow> relay_push_entry" where
  "nudge_entry r = \<lparr>pe_kind = sync_kind r, pe_title = sync_title r,
     pe_body = (if sync_body r = [] then None else Some (sync_body r)), pe_external_id = sync_id r,
     pe_source_commit = sync_source_ref r\<rparr>"

definition nudge_entries :: "sync_row list \<Rightarrow> relay_push_entry list" where
  "nudge_entries rows = map nudge_entry
     (take MAX_NUDGE_ENTRIES (filter (\<lambda>r. \<not> sync_archived r \<and> sync_remote_id r = None) rows))"

definition push_and_start_pull_task ::
    "'w local_relay \<Rightarrow> string \<times> string \<Rightarrow> nat \<Rightarrow> memory_store \<Rightarrow> 'w \<Rightarrow> 'w" where
  "push_and_start_pull_task R target port s w =
     (if \<not> lr_opens R then w
      else case rows_for_sync s False of Inl _ \<Rightarrow> w
      | Inr rows \<Rightarrow> (case lr_fresh_key R (fst target) w of (w1, key) \<Rightarrow>
          if \<not> lr_builds_client R then w1
          else lr_push R port \<lparr>rq_server_url = fst target, rq_project_id = snd target, rq_bearer = key,
            rq_since_cursor = max_remote_id s, rq_entries = nudge_entries rows\<rparr> w1))"

definition nudge_after_write :: "outbox_config \<Rightarrow> 'w local_relay \<Rightarrow> memory_store \<Rightarrow> 'w \<Rightarrow> 'w" where
  "nudge_after_write cfg R s w = (case relay_target cfg of None \<Rightarrow> w
     | Some target \<Rightarrow>
         (case lr_probe_port R (if lr_is_terminal R then lr_ensure_server R w else w) of
            (w1, None) \<Rightarrow> w1
          | (w1, Some port) \<Rightarrow> push_and_start_pull_task R target port s w1))"

section \<open>Polling\<close>

text \<open>The accumulators are the count and the ids to acknowledge.\<close>

definition apply_push_result :: "relay_push_result \<Rightarrow> nat \<times> string list \<Rightarrow> (nat \<times> string list) op" where
  "apply_push_result r acc =
     (if \<not> durably_persisted (pr_status r) then ok acc
      else case (pr_remote_id r, parse_id (pr_external_id r)) of
        (Some remote, Inr i) \<Rightarrow> bind (query (\<lambda>s. has_note s i)) (\<lambda>known.
           if \<not> known then ok acc
           else bind (attempt (set_remote_id i remote)) (\<lambda>x.
             ok (case x of Inl _ \<Rightarrow> acc | Inr _ \<Rightarrow> (Suc (fst acc), snd acc @ [pr_external_id r]))))
      | _ \<Rightarrow> ok acc)"

definition apply_pulled_entry ::
    "pull_env \<Rightarrow> relay_pulled_entry \<Rightarrow> nat \<times> string list \<Rightarrow> (nat \<times> string list) op" where
  "apply_pulled_entry P e acc =
     bind (attempt (apply_remote_note (pull_base P) (pull_now P) (pull_entropy P (pu_remote_id e)) (pu_remote_id e)
       (pu_kind e) (pu_title e) (case pu_body e of Some b \<Rightarrow> b | None \<Rightarrow> []) (pu_source_commit e)
       (parse_iso_to_secs P (pu_created_at e)) (pu_archived e))) (\<lambda>x.
     ok (case x of Inl _ \<Rightarrow> acc | Inr _ \<Rightarrow> (Suc (fst acc), snd acc @ [pu_remote_id e])))"

definition apply_response ::
    "pull_env \<Rightarrow> relay_poll_response \<Rightarrow> ((nat \<times> string list) \<times> (nat \<times> string list)) op" where
  "apply_response P body =
     bind (fold_each apply_push_result (poll_push_results body) (0, [])) (\<lambda>pushes.
     bind (fold_each (apply_pulled_entry P) (poll_pulled body) (0, [])) (\<lambda>pulls.
     ok (pushes, pulls)))"

record poll_outcome =
  po_applied_pushes :: nat
  po_applied_pulls :: nat
  po_last_synced_at :: "int option"
  po_last_error :: "string option"

definition poll_and_apply ::
    "outbox_config \<Rightarrow> 'w local_relay \<Rightarrow> pull_env \<Rightarrow> memory_store \<times> 'w \<Rightarrow> (memory_store \<times> 'w) \<times> poll_outcome option" where
  "poll_and_apply cfg R P = (\<lambda>(s, w). case relay_target cfg of None \<Rightarrow> ((s, w), None)
     | Some target \<Rightarrow> (case lr_probe_port R w of (w1, None) \<Rightarrow> ((s, w1), None)
       | (w1, Some port) \<Rightarrow> (let w2 = push_and_start_pull_task R target port s w1 in
          if \<not> lr_opens R \<or> \<not> lr_builds_client R then ((s, w2), None)
          else case lr_poll R port target w2 of (w3, None) \<Rightarrow> ((s, w3), None)
          | (w3, Some body) \<Rightarrow> (case apply_response P body s of
              (t, Inl _) \<Rightarrow> ((t, w3), None)
            | (t, Inr ((pushes, push_ids), (pulls, pull_ids))) \<Rightarrow>
                ((t, if push_ids \<noteq> [] \<or> pull_ids \<noteq> []
                     then lr_ack R port \<lparr>ra_server_url = fst target, ra_project_id = snd target,
                       ra_applied_push_external_ids = push_ids, ra_applied_pull_remote_ids = pull_ids\<rparr> w3 else w3),
                 Some \<lparr>po_applied_pushes = pushes, po_applied_pulls = pulls,
                   po_last_synced_at = poll_last_synced_at body, po_last_error = poll_last_error body\<rparr>)))))"

section \<open>What is acknowledged\<close>

text \<open>An entry the relay pulled, as the entry of the team server it came from.\<close>

definition remote_of_pulled :: "relay_pulled_entry \<Rightarrow> remote_entry" where
  "remote_of_pulled e = \<lparr>re_id = pu_remote_id e, re_kind = pu_kind e, re_title = pu_title e, re_body = pu_body e,
     re_source_commit = pu_source_commit e, re_archived_at = (if pu_archived e then Some [] else None),
     re_created_at = pu_created_at e\<rparr>"

definition has_landed :: "pull_env \<Rightarrow> memory_store \<Rightarrow> relay_pulled_entry \<Rightarrow> bool" where
  "has_landed P s e = holds P s (remote_of_pulled e)"

definition is_stamped :: "memory_store \<Rightarrow> string \<Rightarrow> bool" where
  "is_stamped s x = list_ex (\<lambda>r. parse_id x = Inr (row_uuid r) \<and> row_remote_id r \<noteq> None) (note_rows s)"

lemma is_stamped_mono:
  assumes "grows s t" "is_stamped s x"
  shows "is_stamped t x"
proof -
  from assms(2) obtain r where r: "r \<in> set (note_rows s)" "parse_id x = Inr (row_uuid r)" "row_remote_id r \<noteq> None"
    by (auto simp: is_stamped_def list_ex_iff)
  from assms(1) have "rows_evolve (note_rows s) (note_rows t)" by (simp add: grows_def)
  from rows_evolve_in [OF this r(1)] obtain q where "q \<in> set (note_rows t)" "row_evolves r q" by blast
  moreover from this r(3) have "row_uuid q = row_uuid r" "row_remote_id q \<noteq> None" by (simp_all add: row_evolves_def)
  ultimately show ?thesis using r(2) unfolding is_stamped_def list_ex_iff by (intro bexI [of _ q]) simp_all
qed

lemma has_landed_mono: "grows s t \<Longrightarrow> has_landed P s e \<Longrightarrow> has_landed P t e"
  unfolding has_landed_def by (rule holds_mono)

lemma parsed_id_nonempty: "set_remote_id i x s = (t, Inr u) \<Longrightarrow> has_note s i \<Longrightarrow> parse_id y = Inr i \<Longrightarrow> is_stamped t y"
proof -
  assume run: "set_remote_id i x s = (t, Inr u)" and "has_note s i" and y: "parse_id y = Inr i"
  then obtain r where r: "r \<in> set (note_rows s)" "row_uuid r = i"
    by (auto simp: has_note_def rowid_for_def select_one_def find_Some_iff intro: nth_mem)
  let ?f = "\<lambda>r. if row_uuid r = i \<and> row_remote_id r = None then r\<lparr>row_remote_id := Some x\<rparr> else r"
  have "note_rows t = map ?f (note_rows s)"
    using run by (auto simp: set_remote_id_def bind_def sql_update_def Let_def split: if_splits)
  moreover have "row_uuid (?f r) = i" "row_remote_id (?f r) \<noteq> None" using r by auto
  ultimately show ?thesis using r(1) y unfolding is_stamped_def list_ex_iff
    by (intro bexI [of _ "?f r"]) simp_all
qed

lemma attempt_grows: "wf_store s \<Longrightarrow> set_remote_id i x s = (t, r) \<Longrightarrow> wf_store t \<and> grows s t"
  using keeps_carriesD [OF set_remote_id_rules(1)] set_remote_id_rules(2) by (metis fst_conv keeps_def)

lemma push_result_applies:
  assumes wf: "wf_store s" and run: "apply_push_result r acc s = (t, Inr acc')"
  shows "wf_store t \<and> grows s t \<and> (acc' = acc \<or>
    acc' = (Suc (fst acc), snd acc @ [pr_external_id r]) \<and> is_stamped t (pr_external_id r))"
proof (cases "\<exists>x i. durably_persisted (pr_status r) \<and> pr_remote_id r = Some x \<and>
    parse_id (pr_external_id r) = Inr i \<and> has_note s i")
  case True
  then obtain x i where c: "durably_persisted (pr_status r)" "pr_remote_id r = Some x"
    "parse_id (pr_external_id r) = Inr i" "has_note s i" by blast
  obtain u y where set: "set_remote_id i x s = (u, y)" by fastforce
  note g = attempt_grows [OF wf set]
  show ?thesis using run c set g parsed_id_nonempty [OF _ c(4,3), of x u]
    by (cases y) (auto simp: apply_push_result_def bind_def attempt_def)
next
  case False
  then have "(t, Inr acc') = (s, Inr acc)" using run
    by (auto simp: apply_push_result_def bind_def split: if_splits option.splits sum.splits)
  then show ?thesis using wf by (simp add: growth.R_refl)
qed

lemma push_results_apply:
  assumes "wf_store s" "fold_each apply_push_result rs acc s = (t, Inr acc')"
    and "fst acc = length (snd acc)" "list_all (is_stamped s) (snd acc)"
  shows "wf_store t \<and> grows s t \<and> fst acc' = length (snd acc') \<and> list_all (is_stamped t) (snd acc') \<and>
    set (snd acc') \<subseteq> set (snd acc) \<union> pr_external_id ` set rs"
  using assms
proof (induction rs arbitrary: acc s)
  case Nil
  then show ?case by (simp add: growth.R_refl)
next
  case (Cons r rs)
  from Cons.prems(2) obtain u a where u: "apply_push_result r acc s = (u, Inr a)"
    and rest: "fold_each apply_push_result rs a u = (t, Inr acc')" by (auto simp: bind_eq_Inr)
  note S = push_result_applies [OF Cons.prems(1) u]
  then have "fst a = length (snd a)" "list_all (is_stamped u) (snd a)"
    using Cons.prems(3,4) by (auto simp: list_all_iff intro: is_stamped_mono)
  from Cons.IH [OF _ rest this] S show ?case by (auto intro: growth.R_trans)
qed

lemma pulled_entry_as_remote:
  "apply_pulled P (remote_of_pulled e) n = bind (apply_remote_note (pull_base P) (pull_now P)
     (pull_entropy P (pu_remote_id e)) (pu_remote_id e) (pu_kind e) (pu_title e) (case pu_body e of Some b \<Rightarrow> b | None \<Rightarrow> [])
     (pu_source_commit e) (parse_iso_to_secs P (pu_created_at e)) (pu_archived e)) (\<lambda>b. ok (if b then Suc n else n))"
  by (simp add: apply_pulled_def remote_of_pulled_def is_archived_def)

lemma pulled_entry_applies:
  assumes wf: "wf_store s" and m: "mints_ids (pull_base P)" and run: "apply_pulled_entry P e acc s = (t, Inr acc')"
  shows "wf_store t \<and> grows s t \<and> (acc' = acc \<or>
    acc' = (Suc (fst acc), snd acc @ [pu_remote_id e]) \<and> has_landed P t e)"
proof -
  let ?m = "apply_remote_note (pull_base P) (pull_now P) (pull_entropy P (pu_remote_id e)) (pu_remote_id e)
    (pu_kind e) (pu_title e) (case pu_body e of Some b \<Rightarrow> b | None \<Rightarrow> []) (pu_source_commit e)
    (parse_iso_to_secs P (pu_created_at e)) (pu_archived e)"
  obtain u y where a: "?m s = (u, y)" by fastforce
  note g = apply_keeps [OF wf uuid_v7_nonempty [OF m] a]
  show ?thesis
  proof (cases y)
    case (Inl x)
    then show ?thesis using run a g by (auto simp: apply_pulled_entry_def bind_def attempt_def)
  next
    case (Inr b)
    have "apply_pulled P (remote_of_pulled e) 0 s = (u, Inr (if b then Suc 0 else 0))"
      unfolding pulled_entry_as_remote using a Inr by (simp add: bind_def)
    from apply_pulled_held [OF wf m this] run a Inr show ?thesis
      by (auto simp: apply_pulled_entry_def bind_def attempt_def has_landed_def)
  qed
qed

text \<open>The ids to acknowledge name entries of the answer that have landed.\<close>

definition landed_ids :: "pull_env \<Rightarrow> relay_pulled_entry list \<Rightarrow> memory_store \<Rightarrow> string list \<Rightarrow> bool" where
  "landed_ids P es s ids = list_all (\<lambda>x. list_ex (\<lambda>e. pu_remote_id e = x \<and> has_landed P s e) es) ids"

lemma landed_ids_mono: "grows s t \<Longrightarrow> landed_ids P es s ids \<Longrightarrow> landed_ids P es t ids"
  unfolding landed_ids_def list_all_iff list_ex_iff using has_landed_mono by blast

lemma pulled_entries_apply:
  assumes "mints_ids (pull_base P)" "set es \<subseteq> set all"
  shows "wf_store s \<Longrightarrow> fold_each (apply_pulled_entry P) es acc s = (t, Inr acc') \<Longrightarrow>
    fst acc = length (snd acc) \<Longrightarrow> landed_ids P all s (snd acc) \<Longrightarrow>
    wf_store t \<and> grows s t \<and> fst acc' = length (snd acc') \<and> landed_ids P all t (snd acc')"
  using assms(2)
proof (induction es arbitrary: acc s)
  case Nil
  then show ?case by (simp add: growth.R_refl)
next
  case (Cons e es)
  from Cons.prems(2) obtain u a where u: "apply_pulled_entry P e acc s = (u, Inr a)"
    and rest: "fold_each (apply_pulled_entry P) es a u = (t, Inr acc')" by (auto simp: bind_eq_Inr)
  note S = pulled_entry_applies [OF Cons.prems(1) assms(1) u]
  have "landed_ids P all u (snd acc)" using S landed_ids_mono Cons.prems(4) by blast
  then have "fst a = length (snd a)" "landed_ids P all u (snd a)"
    using S Cons.prems(3,5) by (auto simp: landed_ids_def list_ex_iff)
  from Cons.IH [OF _ rest this] S Cons.prems(5) show ?case by (auto intro: growth.R_trans)
qed

lemma apply_response_sound:
  assumes "wf_store s" "mints_ids (pull_base P)" "apply_response P body s = (t, Inr ((n, xs), (m, ys)))"
  shows "wf_store t \<and> grows s t \<and> n = length xs \<and> m = length ys \<and> list_all (is_stamped t) xs \<and>
    landed_ids P (poll_pulled body) t ys"
proof -
  from assms(3) obtain u where u: "fold_each apply_push_result (poll_push_results body) (0, []) s = (u, Inr (n, xs))"
    and t: "fold_each (apply_pulled_entry P) (poll_pulled body) (0, []) u = (t, Inr (m, ys))"
    by (auto simp: apply_response_def bind_eq_Inr)
  note U = push_results_apply [OF assms(1) u]
  have "wf_store t \<and> grows u t \<and> m = length ys \<and> landed_ids P (poll_pulled body) t ys"
    using pulled_entries_apply [OF assms(2) subset_refl _ t] U by (auto simp: landed_ids_def)
  then show ?thesis using U by (auto simp: list_all_iff intro: growth.R_trans is_stamped_mono)
qed

lemma fold_each_returns: "(\<And>x b s. \<exists>t c. f x b s = (t, Inr c)) \<Longrightarrow> \<exists>t c. fold_each f xs b s = (t, Inr c)"
proof (induction xs arbitrary: b s)
  case (Cons x xs)
  from Cons.prems obtain t c where "f x b s = (t, Inr c)" by blast
  with Cons.IH [OF Cons.prems, of c t] show ?case by (simp add: bind_def)
qed simp

lemma apply_response_returns: "\<exists>t n xs m ys. apply_response P body s = (t, Inr ((n, xs), (m, ys)))"
proof -
  have "\<exists>t c. apply_push_result r b s = (t, Inr c)" for r b s
    by (auto simp: apply_push_result_def bind_def attempt_def split: option.split sum.split prod.split)
  then obtain u a where u: "fold_each apply_push_result (poll_push_results body) (0, []) s = (u, Inr a)"
    using fold_each_returns [of apply_push_result] by metis
  have "\<exists>t c. apply_pulled_entry P e b s = (t, Inr c)" for e b s
    by (auto simp: apply_pulled_entry_def bind_def attempt_def split: prod.split)
  then obtain t c where "fold_each (apply_pulled_entry P) (poll_pulled body) (0, []) u = (t, Inr c)"
    using fold_each_returns [of "apply_pulled_entry P"] by metis
  with u show ?thesis by (cases a, cases c) (simp add: apply_response_def bind_def)
qed

section \<open>The session behind the local server\<close>

text \<open>
  \<open>view\<close> is the session of the target. While it lives, what others do only adds to its buffers, a
  pulled entry stays as it was buffered (\<open>keep_old\<close>), and an acknowledgement that is not lost
  retires what it names.
\<close>

definition buffers_grow :: "relay_inner \<Rightarrow> relay_inner \<Rightarrow> bool" where
  "buffers_grow a b = ((\<forall>x e. map_of (pulled a) x = Some e \<longrightarrow> map_of (pulled b) x = Some e) \<and>
     (\<forall>x. map_of (push_results a) x \<noteq> None \<longrightarrow> map_of (push_results b) x \<noteq> None))"

definition session_keyed :: "relay_inner \<Rightarrow> bool" where
  "session_keyed a = (distinct_keys (pulled a) \<and> list_all (\<lambda>(x, e). pu_remote_id e = x) (pulled a) \<and>
     list_all (\<lambda>(x, r). pr_external_id r = x) (push_results a))"

definition relay_serves :: "'w local_relay \<Rightarrow> ('w \<Rightarrow> relay_inner) \<Rightarrow> bool" where
  "relay_serves R view =
     ((\<forall>w. buffers_grow (view w) (view (fst (lr_probe_port R w)))) \<and>
      (\<forall>u w. buffers_grow (view w) (view (fst (lr_fresh_key R u w)))) \<and>
      (\<forall>p q w. buffers_grow (view w) (view (lr_push R p q w))) \<and>
      (\<forall>p u w. \<exists>a. buffers_grow (view w) a \<and> buffers_grow a (view (fst (lr_poll R p u w))) \<and>
         (case snd (lr_poll R p u w) of None \<Rightarrow> True | Some b \<Rightarrow> session_keyed a \<and> b = session_poll a)) \<and>
      (\<forall>p q w. buffers_grow (view w) (view (lr_ack R p q w)) \<or>
         (\<exists>a. buffers_grow (view w) a \<and> buffers_grow
            (session_ack (ra_applied_push_external_ids q) (ra_applied_pull_remote_ids q) a) (view (lr_ack R p q w)))))"

lemma buffers_grow_refl: "buffers_grow a a"
  by (simp add: buffers_grow_def)

lemma buffers_grow_trans: "buffers_grow a b \<Longrightarrow> buffers_grow b c \<Longrightarrow> buffers_grow a c"
  unfolding buffers_grow_def by blast

lemma map_of_deleted: "map_of (fold AList.delete ks b) x = (if x \<in> set ks then None else map_of b x)"
  by (induction ks arbitrary: b) (simp_all add: delete_conv)

lemma acked_buffers:
  "map_of (pulled (session_ack xs ys a)) x = (if x \<in> set ys then None else map_of (pulled a) x)"
  "map_of (push_results (session_ack xs ys a)) x = (if x \<in> set xs then None else map_of (push_results a) x)"
  by (simp_all add: session_ack_def map_of_deleted)

text \<open>The session's own steps keep its buffers keyed.\<close>

lemma keyed_update: "list_all (\<lambda>(x, e). f e = x) b \<Longrightarrow> f v = k \<Longrightarrow> list_all (\<lambda>(x, e). f e = x) (AList.update k v b)"
  by (induction b) auto

lemma keyed_delete: "list_all P b \<Longrightarrow> list_all P (fold AList.delete ks b)"
proof (induction ks arbitrary: b)
  case (Cons k ks)
  have "list_all P (AList.delete k b)" using Cons.prems by (simp add: AList.delete_eq list_all_iff)
  then show ?case using Cons.IH by simp
qed simp

lemma distinct_keys_delete: "distinct_keys b \<Longrightarrow> distinct_keys (fold AList.delete ks b)"
  by (induction ks arbitrary: b) (simp_all add: distinct_keys_def AList.distinct_delete)

lemma ack_keeps_keyed: "session_keyed a \<Longrightarrow> session_keyed (session_ack xs ys a)"
  by (simp add: session_keyed_def session_ack_def keyed_delete distinct_keys_delete)

lemma nudge_grows:
  assumes "relay_serves R view"
  shows "buffers_grow (view w) (view (push_and_start_pull_task R target port s w))"
proof -
  obtain w1 k where k: "lr_fresh_key R (fst target) w = (w1, k)" by fastforce
  have "buffers_grow (view w) (view w1)" using assms k unfolding relay_serves_def by (metis fst_conv)
  moreover have "buffers_grow (view w1) (view (lr_push R port q w1))" for q
    using assms unfolding relay_serves_def by blast
  ultimately show ?thesis using k buffers_grow_trans
    by (auto simp: push_and_start_pull_task_def buffers_grow_refl split: sum.split)
qed

text \<open>What the relay holds is still there, or it is in the store.\<close>

definition nothing_dropped :: "pull_env \<Rightarrow> memory_store \<Rightarrow> relay_inner \<Rightarrow> relay_inner \<Rightarrow> bool" where
  "nothing_dropped P t a b = ((\<forall>x e. map_of (pulled a) x = Some e \<longrightarrow> map_of (pulled b) x = Some e \<or> has_landed P t e) \<and>
     (\<forall>x. map_of (push_results a) x \<noteq> None \<longrightarrow> map_of (push_results b) x \<noteq> None \<or> is_stamped t x))"

lemma grow_loses_nothing: "buffers_grow a b \<Longrightarrow> nothing_dropped P t a b"
  by (auto simp: buffers_grow_def nothing_dropped_def)

lemma nothing_dropped_before: "buffers_grow a b \<Longrightarrow> nothing_dropped P t b c \<Longrightarrow> nothing_dropped P t a c"
  unfolding buffers_grow_def nothing_dropped_def by blast

lemma landed_entry:
  assumes "session_keyed a" "landed_ids P (poll_pulled (session_poll a)) t ys" "x \<in> set ys" "map_of (pulled a) x = Some e"
  shows "has_landed P t e"
proof -
  from assms(2,3) obtain y q where y: "(y, q) \<in> set (pulled a)" and q: "pu_remote_id q = x" "has_landed P t q"
    by (force simp: landed_ids_def list_all_iff list_ex_iff session_poll_def)
  with assms(1) q(1) have "y = x" by (auto simp: session_keyed_def list_all_iff)
  with y assms(1) have "map_of (pulled a) x = Some q" by (simp add: session_keyed_def distinct_keys_def)
  with q(2) assms(4) show ?thesis by simp
qed

lemma ack_loses_nothing:
  assumes polled: "session_keyed a" "landed_ids P (poll_pulled (session_poll a)) t ys" "list_all (is_stamped t) xs"
    and grown: "buffers_grow a b" and acked: "buffers_grow (session_ack xs ys b) c"
  shows "nothing_dropped P t a c"
proof -
  have "map_of (pulled c) x = Some e \<or> has_landed P t e" if e: "map_of (pulled a) x = Some e" for x e
  proof (cases "x \<in> set ys")
    case True
    from landed_entry [OF polled(1,2) True e] show ?thesis ..
  next
    case False
    have "map_of (pulled b) x = Some e" using grown e by (simp add: buffers_grow_def)
    then have "map_of (pulled (session_ack xs ys b)) x = Some e" using False by (simp add: acked_buffers)
    then show ?thesis using acked by (simp add: buffers_grow_def)
  qed
  moreover have "map_of (push_results c) x \<noteq> None \<or> is_stamped t x" if x: "map_of (push_results a) x \<noteq> None" for x
  proof (cases "x \<in> set xs")
    case True
    then show ?thesis using polled(3) by (simp add: list_all_iff)
  next
    case False
    have "map_of (push_results b) x \<noteq> None" using grown x unfolding buffers_grow_def by blast
    then have "map_of (push_results (session_ack xs ys b)) x \<noteq> None" using False by (simp add: acked_buffers)
    then show ?thesis using acked unfolding buffers_grow_def by blast
  qed
  ultimately show ?thesis unfolding nothing_dropped_def by blast
qed

lemma ack_call_loses_nothing:
  assumes R: "relay_serves R view" and polled: "session_keyed a" "landed_ids P (poll_pulled (session_poll a)) t ys"
    "list_all (is_stamped t) xs" and grown: "buffers_grow a (view w)"
    and q: "ra_applied_push_external_ids q = xs" "ra_applied_pull_remote_ids q = ys"
  shows "nothing_dropped P t a (view (lr_ack R port q w))"
proof -
  have "buffers_grow (view w) (view (lr_ack R port q w)) \<or>
    (\<exists>b. buffers_grow (view w) b \<and> buffers_grow (session_ack xs ys b) (view (lr_ack R port q w)))"
    using R q unfolding relay_serves_def by blast
  then show ?thesis
    using grow_loses_nothing buffers_grow_trans [OF grown] ack_loses_nothing [OF polled] by metis
qed

text \<open>
  C14. The outbox acknowledges only what it applied. Whatever fails on the way and whatever the
  relay buffers meanwhile, a poll leaves a well-formed store that only grew, and every entry the
  relay held for it is then still in the relay's buffer or in the store, and every result of a push
  is still there or its note carries a remote id: an entry that does not apply, or whose
  acknowledgement is lost, is offered again.
\<close>

theorem outbox_acks_only_applied:
  assumes R: "relay_serves R view" and "wf_store s" "mints_ids (pull_base P)"
    and run: "poll_and_apply cfg R P (s, w) = ((t, w'), r)"
  shows "wf_store t \<and> grows s t \<and>
    (\<forall>x e. map_of (pulled (view w)) x = Some e \<longrightarrow> map_of (pulled (view w')) x = Some e \<or> has_landed P t e) \<and>
    (\<forall>x. map_of (push_results (view w)) x \<noteq> None \<longrightarrow> map_of (push_results (view w')) x \<noteq> None \<or> is_stamped t x)"
proof -
  have refl: "?thesis" if "t = s" "buffers_grow (view w) (view w')"
    using assms(2) that grow_loses_nothing [OF that(2), of P t] by (simp add: growth.R_refl nothing_dropped_def)
  show ?thesis
  proof (cases "relay_target cfg")
    case None
    then show ?thesis using run by (intro refl) (auto simp: poll_and_apply_def buffers_grow_refl)
  next
    case (Some target)
    obtain w1 probed where p: "lr_probe_port R w = (w1, probed)" by fastforce
    have g1: "buffers_grow (view w) (view w1)" using R p unfolding relay_serves_def by (metis fst_conv)
    show ?thesis
    proof (cases probed)
      case None
      then show ?thesis using run Some p g1 by (intro refl) (auto simp: poll_and_apply_def)
    next
      case port: (Some port)
      let ?w2 = "push_and_start_pull_task R target port s w1"
      note g2 = buffers_grow_trans [OF g1 nudge_grows [OF R, of w1 target port s]]
      obtain w3 answer where l: "lr_poll R port target ?w2 = (w3, answer)" by fastforce
      obtain a where a: "buffers_grow (view ?w2) a" "buffers_grow a (view w3)"
        "case answer of None \<Rightarrow> True | Some b \<Rightarrow> session_keyed a \<and> b = session_poll a"
        using R l unfolding relay_serves_def by (metis fst_conv snd_conv)
      note g3 = buffers_grow_trans [OF g2 a(1)]
      show ?thesis
      proof (cases "\<not> lr_opens R \<or> \<not> lr_builds_client R \<or> answer = None")
        case True
        then have "t = s \<and> (w' = ?w2 \<or> w' = w3)" using run Some p port l
          by (cases "lr_opens R \<and> lr_builds_client R") (auto simp: poll_and_apply_def Let_def)
        then show ?thesis using g2 buffers_grow_trans [OF g3 a(2)] by (intro refl) auto
      next
        case False
        then have b: "answer = Some (session_poll a)" and keyed: "session_keyed a" using a(3) by auto
        obtain u n xs m ys where ap: "apply_response P (session_poll a) s = (u, Inr ((n, xs), (m, ys)))"
          using apply_response_returns by blast
        note S = apply_response_sound [OF assms(2,3) ap]
        have tu: "t = u" using run Some p port l b ap False by (auto simp: poll_and_apply_def Let_def)
        have "nothing_dropped P u a (view w')"
        proof (cases "xs \<noteq> [] \<or> ys \<noteq> []")
          case True
          then show ?thesis using run Some p port l b ap False S ack_call_loses_nothing [OF R keyed _ _ a(2)]
            by (auto simp: poll_and_apply_def Let_def)
        next
          case no: False
          then show ?thesis using run Some p port l b ap False grow_loses_nothing [OF a(2)]
            by (auto simp: poll_and_apply_def Let_def)
        qed
        from nothing_dropped_before [OF g3 this] S show ?thesis unfolding tu nothing_dropped_def by blast
      qed
    qed
  qed
qed

section \<open>A poll\<close>

text \<open>The session itself as the local server: it answers, and takes acknowledgements.\<close>

definition demo_local_relay :: "relay_inner local_relay" where
  "demo_local_relay = \<lparr>lr_is_terminal = False, lr_opens = True, lr_builds_client = True, lr_ensure_server = (\<lambda>w. w),
     lr_probe_port = (\<lambda>w. (w, Some 7878)), lr_fresh_key = (\<lambda>u w. (w, None)), lr_push = (\<lambda>p q w. w),
     lr_poll = (\<lambda>p u w. (w, if session_keyed w then Some (session_poll w) else None)),
     lr_ack = (\<lambda>p q w. session_ack (ra_applied_push_external_ids q) (ra_applied_pull_remote_ids q) w)\<rparr>"

lemma demo_relay_serves: "relay_serves demo_local_relay (\<lambda>w. w)"
proof -
  have "\<exists>a. buffers_grow w a \<and> buffers_grow a w \<and> (case (if session_keyed w then Some (session_poll w) else None) of
      None \<Rightarrow> True | Some b \<Rightarrow> session_keyed a \<and> b = session_poll a)" for w
    by (rule exI [of _ w]) (simp add: buffers_grow_refl)
  moreover have "\<exists>a. buffers_grow w a \<and> buffers_grow (session_ack xs ys a) (session_ack xs ys w)" for w xs ys
    using buffers_grow_refl by blast
  ultimately show ?thesis unfolding relay_serves_def demo_local_relay_def local_relay.simps fst_conv snd_conv
    using buffers_grow_refl by blast
qed

definition demo_outbox_pull :: pull_env where
  "demo_outbox_pull = \<lparr>pull_base = demo_env, parse_rfc3339 = (\<lambda>t. Some 4), pull_now = 9, pull_entropy = (\<lambda>x. x @ ''-456789abcdef'')\<rparr>"

definition demo_outbox_config :: outbox_config where
  "demo_outbox_config = \<lparr>oc_no_server = None, oc_mode = None, oc_server_url = Some ''https://t'', oc_project_id = Some ''p''\<rparr>"

text \<open>The result of a push of the first note and of one the store does not have, and a pulled entry.\<close>

definition demo_session :: relay_inner where
  "demo_session = (relay_inner_new 0)\<lparr>
     push_results := [(''u1'', \<lparr>pr_external_id = ''u1'', pr_remote_id = Some ''r1'', pr_status = ''created''\<rparr>),
       (''u9'', \<lparr>pr_external_id = ''u9'', pr_remote_id = Some ''r9'', pr_status = ''created''\<rparr>)],
     pulled := [(''r2'', \<lparr>pu_remote_id = ''r2'', pu_kind = ''note'', pu_title = ''C'', pu_body = None,
       pu_source_commit = None, pu_created_at = ''2026'', pu_archived = False\<rparr>)]\<rparr>"

lemma demo_poll:
  "poll_and_apply demo_outbox_config demo_local_relay demo_outbox_pull (two_notes, demo_session) =
     ((fst (apply_response demo_outbox_pull (session_poll demo_session) two_notes),
       demo_session\<lparr>push_results := [(''u9'', \<lparr>pr_external_id = ''u9'', pr_remote_id = Some ''r9'', pr_status = ''created''\<rparr>)],
         pulled := []\<rparr>),
      Some \<lparr>po_applied_pushes = 1, po_applied_pulls = 1, po_last_synced_at = None, po_last_error = None\<rparr>)"
  by code_simp

lemma outbox_acks_only_applied_witness:
  "is_stamped (fst (apply_response demo_outbox_pull (session_poll demo_session) two_notes)) ''u1'' \<and>
   has_landed demo_outbox_pull (fst (apply_response demo_outbox_pull (session_poll demo_session) two_notes))
     (snd (hd (pulled demo_session)))"
proof -
  have m: "mints_ids (pull_base demo_outbox_pull)" by (simp add: demo_outbox_pull_def mints_ids_def demo_env_def)
  have s: "map_of (pulled demo_session) ''r2'' = Some (snd (hd (pulled demo_session)))"
    "map_of (push_results demo_session) ''u1'' \<noteq> None" by (simp_all add: demo_session_def)
  from outbox_acks_only_applied [OF demo_relay_serves wf_two_notes m demo_poll] s show ?thesis
    by (auto dest: spec [of _ "''u1''"] spec [of _ "''r2''"])
qed

end
