(* ===== verification/Notes_Import.thy ===== *)
theory Notes_Import
  imports Notes_Carrier Outbox
begin

text \<open>
  The read path of the git carrier (\<open>memory/reconcile.rs\<close>): importing the notes ref into the
  memory store, and the refresh before a read, which merges when the tracking ref moved and imports
  when the working ref moved. The memory store may not exist yet; the refs are read in the process.
\<close>

section \<open>Importing the notes ref\<close>

record 'g notes_import_env =
  ie_carrier :: carrier_env
  ie_git :: "'g git"
  ie_root :: string                                \<comment> \<open>the project root of the store\<close>
  ie_opens :: bool                                 \<comment> \<open>\<open>MemoryStore::open\<close> succeeds\<close>
  ie_now :: int
  ie_random :: "mem_note \<Rightarrow> string"
  ie_refs :: "'g \<Rightarrow> (string option \<times> string option) option"   \<comment> \<open>the tracking and the working ref\<close>
  ie_workdir :: "string option"

definition tracking_oid :: "'g notes_import_env \<Rightarrow> 'g \<Rightarrow> string option" where
  "tracking_oid I g = Option.bind (ie_refs I g) fst"

definition working_oid :: "'g notes_import_env \<Rightarrow> 'g \<Rightarrow> string option" where
  "working_oid I g = Option.bind (ie_refs I g) snd"

definition open_store :: "'g notes_import_env \<Rightarrow> memory_store option \<Rightarrow> memory_store" where
  "open_store I m = (case m of None \<Rightarrow> empty_store (ie_root I) | Some s \<Rightarrow> s)"

definition INIT_GIT_NOTES_SOURCE :: string where
  "INIT_GIT_NOTES_SOURCE = ''init:git-notes''"

definition GIT_NOTES_IMPORT_LIMIT :: nat where
  "GIT_NOTES_IMPORT_LIMIT = 500"

record git_notes_import =
  gi_imported :: nat
  gi_edges_applied :: nat
  gi_edges_unresolved :: nat
  gi_supersede_edges_applied :: nat
  gi_supersede_edges_unresolved :: nat

definition no_git_notes_import :: git_notes_import where
  "no_git_notes_import = \<lparr>gi_imported = 0, gi_edges_applied = 0, gi_edges_unresolved = 0,
     gi_supersede_edges_applied = 0, gi_supersede_edges_unresolved = 0\<rparr>"

datatype import_failure = Notes_Unreadable carrier_error | Store_Unavailable | Store_Failed store_error

text \<open>\<open>filter(|n| existing.insert(note_entity_id(n)))\<close>.\<close>

fun not_existing :: "env \<Rightarrow> string list \<Rightarrow> mem_note list \<Rightarrow> mem_note list" where
  "not_existing E existing [] = []"
| "not_existing E existing (n # ns) = (if note_entity_id_of E n \<in> set existing then not_existing E existing ns
     else n # not_existing E (note_entity_id_of E n # existing) ns)"

definition import_note :: "'g notes_import_env \<Rightarrow> mem_note \<Rightarrow> unit op" where
  "import_note I n = bind (add_note_with_created_at (ce_env (ie_carrier I)) (ie_now I) (ie_random I n)
     (note_kind n) (note_title n) (note_body n) (note_tags_of n) (note_linked_files n) (Some INIT_GIT_NOTES_SOURCE)
     (if note_status n = ''archived'' then ''archived'' else ''active'') (note_created_at n)) (\<lambda>_. ok ())"

definition import_transaction ::
    "'g notes_import_env \<Rightarrow> mem_note list \<Rightarrow> (string \<times> carried_edge) list \<Rightarrow> (string \<times> string) list \<Rightarrow> string option \<Rightarrow>
     git_notes_import op" where
  "import_transaction I to_import carried pairs oid = transaction
     (bind (for_each (import_note I) to_import) (\<lambda>_.
      bind (import_carried_edges (ie_now I) carried) (\<lambda>edges.
      bind (import_supersede_edges (ie_now I) pairs) (\<lambda>supersedes.
      bind (set_notes_imported_working_oid oid) (\<lambda>_.
      ok \<lparr>gi_imported = length to_import, gi_edges_applied = applied edges, gi_edges_unresolved = unresolved edges,
        gi_supersede_edges_applied = applied supersedes, gi_supersede_edges_unresolved = unresolved supersedes\<rparr>)))))"

definition stamp_working :: "string option \<Rightarrow> memory_store \<Rightarrow> memory_store" where
  "stamp_working oid s = fst (set_notes_imported_working_oid oid s)"

definition import_git_notes_into_memory ::
    "'g notes_import_env \<Rightarrow> memory_store option \<times> 'g \<Rightarrow>
     (memory_store option \<times> 'g) \<times> (import_failure + git_notes_import)" where
  "import_git_notes_into_memory I = (\<lambda>(m, g).
     let C = ie_carrier I; G = ie_git I; s = open_store I m in
     case carrier_list C G None GIT_NOTES_IMPORT_LIMIT True None g of
       (g1, Inl e) \<Rightarrow> ((m, g1), Inl (Notes_Unreadable e))
     | (g1, Inr notes) \<Rightarrow> (let oid = working_oid I g1 in
         if notes = [] then ((if ie_opens I then map_option (stamp_working oid) m else m, g1), Inr no_git_notes_import)
         else if \<not> ie_opens I then ((m, g1), Inl Store_Unavailable)
         else case all_notes_for_dedup s of
           Inl e \<Rightarrow> ((Some s, g1), Inl (Store_Failed e))
         | Inr stored \<Rightarrow> (let to_import = not_existing (ce_env C) (map (note_entity_id_of (ce_env C)) stored) notes in
             case carried_edges C G g1 of
               (g2, Inl e) \<Rightarrow> ((Some s, g2), Inl (Notes_Unreadable e))
             | (g2, Inr carried) \<Rightarrow> (case carried_supersede_edges C G g2 of
                 (g3, Inl e) \<Rightarrow> ((Some s, g3), Inl (Notes_Unreadable e))
               | (g3, Inr pairs) \<Rightarrow> if to_import = [] \<and> carried = [] \<and> pairs = []
                   then ((Some (stamp_working oid s), g3), Inr no_git_notes_import)
                   else (case import_transaction I to_import carried pairs oid s of
                       (t, Inl e) \<Rightarrow> ((Some t, g3), Inl (Store_Failed e))
                     | (t, Inr out) \<Rightarrow> ((Some t, g3), Inr out))))))"

section \<open>Before a read\<close>

definition refresh_read_path_from_git_notes ::
    "outbox_config \<Rightarrow> 'g notes_import_env \<Rightarrow> string option \<Rightarrow> memory_store option \<times> 'g \<Rightarrow> memory_store option \<times> 'g" where
  "refresh_read_path_from_git_notes cfg I backend_override = (\<lambda>(m, g).
     if backend_override = Some ''git-notes'' then (m, fst (merge_tracking_notes (ie_git I) None g))
     else if resolve_mode cfg = Cloud_First \<and> oc_server_url cfg \<noteq> None then (m, g)
     else if ie_refs I g = None then (m, g)
     else let tracking = tracking_oid I g; working = working_oid I g in
       if tracking = None \<and> working = None then (m, g)
       else let marker = (case m of Some s \<Rightarrow> if ie_opens I then read_import_state s else default_marker
                          | None \<Rightarrow> default_marker);
                moved = (tracking \<noteq> last_merged_tracking_oid marker);
                g1 = (if moved then fst (merge_tracking_notes (ie_git I) (ie_workdir I) g) else g);
                working1 = (if moved then working_oid I g1 else working);
                (m2, g2) = (if working1 \<noteq> last_imported_working_oid marker \<and> ie_workdir I \<noteq> None
                            then fst (import_git_notes_into_memory I (m, g1)) else (m, g1)) in
         (if moved \<and> ie_opens I
          then Some (fst (set_notes_merged_tracking_oid tracking (open_store I m2))) else m2, g2))"

section \<open>The content of a store\<close>

text \<open>The entity ids of the rows, which are those of their contents.\<close>

definition entities :: "memory_store \<Rightarrow> string set" where
  "entities s = row_entity_id ` set (note_rows s)"

definition content_keyed :: "env \<Rightarrow> memory_store \<Rightarrow> bool" where
  "content_keyed E s = list_all (\<lambda>r. row_entity_id r = entity_id E (row_kind r) (row_title r) (row_body r)) (note_rows s)"

interpretation same_rows: step_relation "\<lambda>s t. note_rows t = note_rows s \<and> notes_import_state t = notes_import_state s"
  by unfold_locales auto

lemma attach_same_rows:
  "keeps (\<lambda>s t. note_rows t = note_rows s \<and> notes_import_state t = notes_import_state s) (attach_tags_and_files E now u tags files)"
proof -
  have tag: "keeps (\<lambda>s t. note_rows t = note_rows s \<and> notes_import_state t = notes_import_state s) (attach_tag E u raw)" for raw
    by (auto simp: attach_tag_def keeps_def bind_def sql_insert_tag_def split: option.split)
  have link: "fst (link_file E now raw s) = s" for raw s
    by (auto simp: link_file_def bind_def split: sum.splits prod.splits)
  have one_file: "keeps (\<lambda>s t. note_rows t = note_rows s \<and> notes_import_state t = notes_import_state s) (attach_file E now u raw acc)" for raw acc
  proof -
    have "note_rows (fst (attach_file E now u raw acc s)) = note_rows s \<and>
      notes_import_state (fst (attach_file E now u raw acc s)) = notes_import_state s" for s
      using link [of raw s] by (auto simp: attach_file_def bind_def sql_insert_file_def split: sum.splits prod.splits)
    then show ?thesis by (simp add: keeps_def)
  qed
  show ?thesis unfolding attach_tags_and_files_def
    by (intro same_rows.keeps_bind same_rows.keeps_for_each same_rows.keeps_fold_each tag one_file)
qed

text \<open>An add that succeeds: the content is there, as a new row or as the row that has it.\<close>

lemma add_created_run:
  assumes wf: "wf_store s" and u: "uuid_v7_at E at entropy \<noteq> []"
    and run: "add_note_with_created_at E now entropy kind title body tags files src st at s = (t, Inr x)"
  defines "eid \<equiv> entity_id E kind title body"
  shows "wf_store t \<and> grows s t \<and> notes_import_state t = notes_import_state s \<and>
    note_rows t = (if eid \<in> entities s then note_rows s else note_rows s @
      [(new_row (uuid_v7_at E at entropy) kind title body at st eid)\<lparr>row_source_ref := src, row_id := Suc (rowid_seq s)\<rparr>])"
proof -
  let ?r = "(new_row (uuid_v7_at E at entropy) kind title body at st eid)\<lparr>row_source_ref := src\<rparr>"
  have m: "add_note_with_created_at E now entropy kind title body tags files src st at =
    bind (attempt (sql_insert_note ?r)) (\<lambda>x. recover_from_entity_id_collision E now x eid tags files)"
    by (simp add: add_note_with_created_at_def eid_def Let_def)
  have "wf_op (bind (attempt (sql_insert_note ?r)) (\<lambda>x. recover_from_entity_id_collision E now x eid tags files))"
    "grow_op (bind (attempt (sql_insert_note ?r)) (\<lambda>x. recover_from_entity_id_collision E now x eid tags files))"
    by (intro wf_intros; simp add: u)+
  note K = this
  have run': "bind (attempt (sql_insert_note ?r)) (\<lambda>x. recover_from_entity_id_collision E now x eid tags files) s = (t, Inr x)"
    using run by (simp only: m)
  have g: "wf_store t" "grows s t"
    using keeps_carriesD [where P = wf_store, OF K(1) wf run'] K(2) run' unfolding keeps_def by (simp, metis fst_conv)
  obtain s1 y where ins: "sql_insert_note ?r s = (s1, y)" by fastforce
  have att: "note_rows (fst (attach_tags_and_files E now i tags files w)) = note_rows w \<and>
    notes_import_state (fst (attach_tags_and_files E now i tags files w)) = notes_import_state w" for i w
    using attach_same_rows unfolding keeps_def by blast
  show ?thesis
  proof (cases y)
    case (Inr z)
    then have new: "eid \<notin> entities s" "note_rows s1 = note_rows s @ [?r\<lparr>row_id := Suc (rowid_seq s)\<rparr>]"
      "notes_import_state s1 = notes_import_state s"
      using ins by (auto simp: sql_insert_note_def entities_def split: if_splits)
    have "note_rows t = note_rows s1 \<and> notes_import_state t = notes_import_state s1"
      using run' ins Inr att
      by (auto simp: bind_def attempt_def recover_from_entity_id_collision_def split: sum.splits option.splits prod.splits)
        (metis fst_conv)+
    then show ?thesis using g new by simp
  next
    case (Inl e)
    then have s1: "s1 = s" "e = Sql UniqueViolation" using ins by (auto simp: sql_insert_note_def split: if_splits)
    have rec: "recover_from_entity_id_collision E now (Inl (Sql UniqueViolation)) eid tags files s = (t, Inr x)"
      using run' ins Inl s1 by (simp add: bind_def attempt_def)
    then obtain n where n: "select_one (\<lambda>n. row_entity_id n = eid) s = Some n"
      by (auto simp: recover_from_entity_id_collision_def bind_def split: option.splits sum.splits)
    then have "eid \<in> entities s" by (auto simp: select_one_def find_Some_iff entities_def)
    moreover have "note_rows t = note_rows s \<and> notes_import_state t = notes_import_state s"
      using rec n att by (auto simp: recover_from_entity_id_collision_def bind_def split: sum.splits prod.splits)
        (metis fst_conv)+
    ultimately show ?thesis using g by simp
  qed
qed

lemma entities_new: "note_rows t = note_rows s @ [r] \<Longrightarrow> entities t = insert (row_entity_id r) (entities s)"
  by (simp add: entities_def)

text \<open>What an import needs of the store it finds.\<close>

definition import_ready :: "env \<Rightarrow> memory_store \<Rightarrow> bool" where
  "import_ready E s = (wf_store s \<and> content_keyed E s)"

abbreviation import_env_of :: "'g notes_import_env \<Rightarrow> env" where
  "import_env_of I \<equiv> ce_env (ie_carrier I)"

lemma import_note_run:
  assumes S: "import_ready (import_env_of I) s" and m: "mints_ids (import_env_of I)" and run: "import_note I n s = (t, Inr u)"
  defines "eid \<equiv> note_entity_id_of (import_env_of I) n"
  shows "import_ready (import_env_of I) t \<and> grows s t \<and> notes_import_state t = notes_import_state s \<and>
    entities t = insert eid (entities s) \<and>
    length (note_rows t) = length (note_rows s) + (if eid \<in> entities s then 0 else 1)"
proof -
  from run obtain x where "add_note_with_created_at (import_env_of I) (ie_now I) (ie_random I n) (note_kind n) (note_title n)
      (note_body n) (note_tags_of n) (note_linked_files n) (Some INIT_GIT_NOTES_SOURCE)
      (if note_status n = ''archived'' then ''archived'' else ''active'') (note_created_at n) s = (t, Inr x)"
    by (auto simp: import_note_def bind_eq_Inr)
  note R = add_created_run [OF _ uuid_v7_nonempty [OF m] this, folded note_entity_id_of_def, folded eid_def]
  have wf: "wf_store s" using S by (simp add: import_ready_def)
  show ?thesis
  proof (cases "eid \<in> entities s")
    case True
    then show ?thesis using R [OF wf] S by (auto simp: import_ready_def content_keyed_def entities_def)
  next
    case False
    then show ?thesis using R [OF wf] S
      by (auto simp: import_ready_def content_keyed_def entities_def new_row_def eid_def note_entity_id_of_def)
  qed
qed

lemma import_notes_run:
  assumes m: "mints_ids (import_env_of I)"
  shows "import_ready (import_env_of I) s \<Longrightarrow> for_each (import_note I) ns s = (t, Inr u) \<Longrightarrow>
    distinct (map (note_entity_id_of (import_env_of I)) ns) \<Longrightarrow>
    import_ready (import_env_of I) t \<and> grows s t \<and> notes_import_state t = notes_import_state s \<and>
    entities t = entities s \<union> note_entity_id_of (import_env_of I) ` set ns \<and>
    (note_entity_id_of (import_env_of I) ` set ns \<inter> entities s = {} \<longrightarrow>
       length (note_rows t) = length (note_rows s) + length ns)"
proof (induction ns arbitrary: s)
  case Nil
  then show ?case by (simp add: for_each_def growth.R_refl)
next
  case (Cons n ns)
  from Cons.prems(2) obtain v w where v: "import_note I n s = (v, Inr w)"
    and rest: "for_each (import_note I) ns v = (t, Inr u)" by (auto simp: for_each_def bind_eq_Inr)
  note A = import_note_run [OF Cons.prems(1) m v]
  have "distinct (map (note_entity_id_of (import_env_of I)) ns)" using Cons.prems(3) by simp
  note B = Cons.IH [OF conjunct1 [OF A] rest this]
  have "length (note_rows t) = length (note_rows s) + length (n # ns)"
    if "note_entity_id_of (import_env_of I) ` set (n # ns) \<inter> entities s = {}"
  proof -
    have "note_entity_id_of (import_env_of I) ` set ns \<inter> entities v = {}" using that A Cons.prems(3) by auto
    then show ?thesis using A B that by simp
  qed
  moreover have "grows s t" using A B by (blast intro: growth.R_trans)
  ultimately show ?case using A B by auto
qed

lemma not_existing_spec:
  "distinct (map (note_entity_id_of E) (not_existing E ex ns)) \<and>
   note_entity_id_of E ` set (not_existing E ex ns) = note_entity_id_of E ` set ns - set ex"
proof (induction ns arbitrary: ex)
  case (Cons n ns)
  from Cons [of ex] Cons [of "note_entity_id_of E n # ex"] show ?case by auto
qed simp

lemma stored_entities:
  assumes "import_ready E s"
  shows "\<exists>stored. all_notes_for_dedup s = Inr stored \<and> note_entity_id_of E ` set stored = entities s"
proof -
  let ?rs = "sort_key (\<lambda>r. (row_created_at r, row_id r)) (note_rows s)"
  have "all_notes_for_dedup s = Inr (map (view_row s) ?rs)"
    using assms notes_of_rows_wf [of s ?rs] by (simp add: all_notes_for_dedup_def import_ready_def)
  moreover have "note_entity_id_of E (view_row s r) = row_entity_id r" if "r \<in> set (note_rows s)" for r
    using assms that by (simp add: import_ready_def content_keyed_def list_all_iff note_entity_id_of_def view_row_def)
  ultimately show ?thesis by (force simp: entities_def image_image)
qed

lemma carried_edges_run:
  assumes "wf_store s"
  shows "\<exists>es out. import_carried_edges now edges s = (s\<lparr>memory_edges := memory_edges s @ es\<rparr>, Inr out)"
  using carried.run [OF assms, where now = now and ps = edges and out = no_import] unfolding import_carried_edges_def by blast

lemma supersede_edges_run:
  assumes "wf_store s"
  shows "\<exists>es out. import_supersede_edges now pairs s = (s\<lparr>memory_edges := memory_edges s @ es\<rparr>, Inr out)"
  using superseded.run [OF assms, where now = now and ps = pairs and out = no_import] unfolding import_supersede_edges_def by blast

lemma keeps_result: "keeps R m \<Longrightarrow> m s = (t, r) \<Longrightarrow> R s t"
  unfolding keeps_def by (metis fst_conv)

lemma import_ready_frame: "import_ready E s \<Longrightarrow> wf_store (s\<lparr>memory_edges := es\<rparr>) \<Longrightarrow> import_ready E (s\<lparr>memory_edges := es\<rparr>)"
  by (simp add: import_ready_def content_keyed_def)

lemma import_transaction_run:
  assumes S: "import_ready (import_env_of I) s" and m: "mints_ids (import_env_of I)"
    and d: "distinct (map (note_entity_id_of (import_env_of I)) ns)"
      "note_entity_id_of (import_env_of I) ` set ns \<inter> entities s = {}"
    and run: "import_transaction I ns carried pairs oid s = (t, r)"
  shows "case r of Inl _ \<Rightarrow> t = s
    | Inr out \<Rightarrow> import_ready (import_env_of I) t \<and> grows s t \<and>
        entities t = entities s \<union> note_entity_id_of (import_env_of I) ` set ns \<and>
        length (note_rows t) = length (note_rows s) + gi_imported out \<and> gi_imported out = length ns \<and>
        last_imported_working_oid (read_import_state t) = oid"
proof (cases r)
  case (Inl e)
  then show ?thesis using run unfolding import_transaction_def
    by (auto simp: transaction_def split: sum.splits prod.splits)
next
  case (Inr out)
  define body where "body = bind (for_each (import_note I) ns) (\<lambda>_.
      bind (import_carried_edges (ie_now I) carried) (\<lambda>edges.
      bind (import_supersede_edges (ie_now I) pairs) (\<lambda>supersedes.
      bind (set_notes_imported_working_oid oid) (\<lambda>_.
      ok \<lparr>gi_imported = length ns, gi_edges_applied = applied edges, gi_edges_unresolved = unresolved edges,
        gi_supersede_edges_applied = applied supersedes, gi_supersede_edges_unresolved = unresolved supersedes\<rparr>))))"
  have "body s = (t, Inr out)"
    using run Inr unfolding import_transaction_def body_def [symmetric]
    by (auto simp: transaction_def split: sum.splits prod.splits)
  then obtain a u where a: "for_each (import_note I) ns s = (a, Inr u)"
    and rest: "bind (import_carried_edges (ie_now I) carried) (\<lambda>edges.
      bind (import_supersede_edges (ie_now I) pairs) (\<lambda>supersedes.
      bind (set_notes_imported_working_oid oid) (\<lambda>_.
      ok \<lparr>gi_imported = length ns, gi_edges_applied = applied edges, gi_edges_unresolved = unresolved edges,
        gi_supersede_edges_applied = applied supersedes, gi_supersede_edges_unresolved = unresolved supersedes\<rparr>))) a = (t, Inr out)"
    unfolding body_def by (auto simp: bind_eq_Inr)
  note A = import_notes_run [OF m S a d(1)]
  have wa: "wf_store a" using A by (simp add: import_ready_def)
  from carried_edges_run [OF wa] obtain es o1 where e: "import_carried_edges (ie_now I) carried a = (a\<lparr>memory_edges := memory_edges a @ es\<rparr>, Inr o1)"
    by blast
  let ?b = "a\<lparr>memory_edges := memory_edges a @ es\<rparr>"
  have wb: "wf_store ?b" "grows a ?b"
    using keeps_carriesD [where P = wf_store, OF import_edges_rules(1) wa e] keeps_result [OF import_edges_rules(2) e] by simp_all
  from supersede_edges_run [OF wb(1)] obtain fs o2 where f: "import_supersede_edges (ie_now I) pairs ?b = (?b\<lparr>memory_edges := memory_edges ?b @ fs\<rparr>, Inr o2)"
    by blast
  let ?c = "?b\<lparr>memory_edges := memory_edges ?b @ fs\<rparr>"
  have wc: "wf_store ?c" "grows ?b ?c"
    using keeps_carriesD [where P = wf_store, OF import_edges_rules(3) wb(1) f] keeps_result [OF import_edges_rules(4) f] by simp_all
  have t: "t = ?c\<lparr>notes_import_state := Some ((read_import_state ?c)\<lparr>last_imported_working_oid := oid\<rparr>)\<rparr>" "gi_imported out = length ns"
    using rest e f by (auto simp: bind_def set_notes_imported_working_oid_def)
  have "wf_store t" using wc(1) by (simp add: t(1) wf_store_def wf_local_def)
  moreover have "grows s t"
  proof -
    have "grows s ?c" using A wb(2) wc(2) by (blast intro: growth.R_trans)
    then show ?thesis by (simp add: t(1) grows_def)
  qed
  moreover have "entities t = entities a" "content_keyed (import_env_of I) t = content_keyed (import_env_of I) a"
    "length (note_rows t) = length (note_rows a)" by (simp_all add: t(1) entities_def content_keyed_def)
  moreover have "last_imported_working_oid (read_import_state t) = oid" by (simp add: t(1) read_import_state_def)
  ultimately show ?thesis using A d(2) Inr t(2) by (simp add: import_ready_def)
qed

lemma stamp_working_frame:
  "import_ready E s \<Longrightarrow> import_ready E (stamp_working oid s)" "grows s (stamp_working oid s)"
  "entities (stamp_working oid s) = entities s" "length (note_rows (stamp_working oid s)) = length (note_rows s)"
  "last_imported_working_oid (read_import_state (stamp_working oid s)) = oid"
  by (simp_all add: stamp_working_def set_notes_imported_working_oid_def import_ready_def content_keyed_def wf_store_def
    wf_local_def grows_def entities_def read_import_state_def)

lemma not_existing_length: "length (not_existing E ex ns) \<le> length ns"
  by (induction E ex ns rule: not_existing.induct) auto

lemma collect_length: "collect rs = Inr xs \<Longrightarrow> length xs = length rs"
  by (induction rs arbitrary: xs) (auto simp: and_then_eq_Inr)

lemma listing_bounded:
  assumes "carrier_list C G None GIT_NOTES_IMPORT_LIMIT True None g = (g1, Inr ns)"
  shows "length ns \<le> 500"
proof -
  from assms obtain h es where "lift (notes_of_records C (newest_records 500 (filter (\<lambda>r. record_in_window r True None) es))) h = (g1, Inr ns)"
    by (auto simp: carrier_list_def carrier_collect_def GIT_NOTES_IMPORT_LIMIT_def GIT_NOTES_MAX_LIST_def bind_eq_Inr)
  then have "collect (map (\<lambda>r. case record_to_note (ce_env C) r of Inl _ \<Rightarrow> Inl Bad_Token | Inr n \<Rightarrow> Inr n)
      (newest_records 500 (filter (\<lambda>r. record_in_window r True None) es))) = Inr ns"
    by (simp add: notes_of_records_def)
  from collect_length [OF this] show ?thesis by (simp add: newest_records_def Let_def)
qed

text \<open>
  C12. The notes ref is imported once and whole. When importing the notes ref into a store returns,
  the store holds its old contents and exactly those of the entries listed, a row more for every
  one it did not have, is still well formed, and is stamped with the ref that was read; when the
  import fails, every row is as it was. No import takes more than five hundred entries.
\<close>

theorem notes_import_lands:
  assumes S: "import_ready (import_env_of I) (open_store I m)" and mint: "mints_ids (import_env_of I)"
    and listed: "carrier_list (ie_carrier I) (ie_git I) None GIT_NOTES_IMPORT_LIMIT True None g = (g1, Inr ns)" "ns \<noteq> []"
    and run: "import_git_notes_into_memory I (m, g) = ((m', g'), r)"
  shows "case r of
      Inl _ \<Rightarrow> m' = m \<or> m' = Some (open_store I m)
    | Inr out \<Rightarrow> (\<exists>t. m' = Some t \<and> import_ready (import_env_of I) t \<and> grows (open_store I m) t \<and>
        entities t = entities (open_store I m) \<union> note_entity_id_of (import_env_of I) ` set ns \<and>
        length (note_rows t) = length (note_rows (open_store I m)) + gi_imported out \<and> gi_imported out \<le> 500 \<and>
        last_imported_working_oid (read_import_state t) = working_oid I g1)"
proof -
  let ?s = "open_store I m" and ?E = "import_env_of I"
  obtain stored where st: "all_notes_for_dedup ?s = Inr stored" "note_entity_id_of ?E ` set stored = entities ?s"
    using stored_entities [OF S] by blast
  define new where "new = not_existing ?E (map (note_entity_id_of ?E) stored) ns"
  have N: "distinct (map (note_entity_id_of ?E) new)" "note_entity_id_of ?E ` set new = note_entity_id_of ?E ` set ns - entities ?s"
    using not_existing_spec [of ?E "map (note_entity_id_of ?E) stored" ns] st(2) by (simp_all add: new_def)
  have few: "length new \<le> 500" using not_existing_length [of ?E _ ns] listing_bounded [OF listed(1)] unfolding new_def by (rule order_trans)
  show ?thesis
  proof (cases "ie_opens I")
    case False
    then show ?thesis using run listed by (auto simp: import_git_notes_into_memory_def Let_def)
  next
    case True
    obtain g2 c where c: "carried_edges (ie_carrier I) (ie_git I) g1 = (g2, c)" by fastforce
    obtain g3 p where p: "carried_supersede_edges (ie_carrier I) (ie_git I) g2 = (g3, p)" by fastforce
    show ?thesis
    proof (cases "\<exists>carried pairs. c = Inr carried \<and> p = Inr pairs")
      case False
      then have "m' = Some ?s \<and> (\<exists>e. r = Inl e)" using run listed True st(1) c p
        by (cases c; cases p) (auto simp: import_git_notes_into_memory_def Let_def)
      then show ?thesis by auto
    next
      case got: True
      then obtain carried pairs where cp: "c = Inr carried" "p = Inr pairs" by blast
      show ?thesis
      proof (cases "new = [] \<and> carried = [] \<and> pairs = []")
        case True
        then have "m' = Some (stamp_working (working_oid I g1) ?s)" "r = Inr no_git_notes_import"
          using run listed \<open>ie_opens I\<close> st(1) c p cp
          by (auto simp: import_git_notes_into_memory_def Let_def new_def)
        moreover have "note_entity_id_of ?E ` set ns \<subseteq> entities ?s" using N(2) True by auto
        ultimately show ?thesis using S stamp_working_frame
          by (auto simp: no_git_notes_import_def)
      next
        case False
        obtain t q where t: "import_transaction I new carried pairs (working_oid I g1) ?s = (t, q)" by fastforce
        have "m' = Some t" "r = (case q of Inl e \<Rightarrow> Inl (Store_Failed e) | Inr out \<Rightarrow> Inr out)"
          using run listed \<open>ie_opens I\<close> st(1) c p cp False t
          by (auto simp: import_git_notes_into_memory_def Let_def new_def split: sum.splits)
        moreover have "note_entity_id_of ?E ` set new \<inter> entities ?s = {}" using N(2) by blast
        moreover have "entities ?s \<union> note_entity_id_of ?E ` set new = entities ?s \<union> note_entity_id_of ?E ` set ns" using N(2) by blast
        ultimately show ?thesis using import_transaction_run [OF S mint N(1) _ t] few by (cases q) auto
      qed
    qed
  qed
qed

section \<open>A path that is refused\<close>

lemma attach_refused:
  assumes "normalize_relative_path (project_root w) bad = Inl e" "trim bad \<noteq> []"
  shows "attach_tags_and_files E now u tags [bad] w \<noteq> (t, Inr x)"
proof
  assume run: "attach_tags_and_files E now u tags [bad] w = (t, Inr x)"
  then obtain v y where v: "for_each (attach_tag E u) tags w = (v, Inr y)" and f: "fold_each (attach_file E now u) [bad] [] v = (t, Inr x)"
    by (auto simp: attach_tags_and_files_def bind_eq_Inr)
  have "grow_op (for_each (attach_tag E u) tags)" by (intro wf_intros)
  then have "project_root v = project_root w" using keeps_result [where R = grows] v by (auto simp: grows_def)
  then have "link_file E now bad v = (v, Inl (BadPath e))"
    using assms(1) by (simp add: link_file_def resolve_file_link_def)
  then show False using f assms(2) by (simp add: attach_file_def bind_def)
qed

lemma import_note_refused:
  assumes "normalize_relative_path (project_root s) bad = Inl e" "trim bad \<noteq> []" "note_linked_files n = [bad]"
  shows "import_note I n s \<noteq> (t, Inr x)"
proof
  assume "import_note I n s = (t, Inr x)"
  then show False
    unfolding import_note_def add_note_with_created_at_def assms(3)
    by (auto simp: bind_eq_Inr bind_attempt recover_from_entity_id_collision_def sql_insert_note_def Let_def
      attach_refused [where e = e and bad = bad, OF _ assms(2)] assms(1) split: sum.splits option.splits if_splits)
qed

lemma import_notes_refused:
  assumes "normalize_relative_path (project_root s) bad = Inl e" "trim bad \<noteq> []" "note_linked_files n = [bad]"
    and "n \<in> set ns" "mints_ids (import_env_of I)"
  shows "for_each (import_note I) ns s \<noteq> (t, Inr x)"
  using assms(1,4)
proof (induction ns arbitrary: s)
  case (Cons k ns)
  show ?case
  proof
    assume "for_each (import_note I) (k # ns) s = (t, Inr x)"
    then obtain v y where v: "import_note I k s = (v, Inr y)" and rest: "for_each (import_note I) ns v = (t, Inr x)"
      by (auto simp: for_each_def bind_eq_Inr)
    have "k \<noteq> n" using import_note_refused [OF Cons.prems(1) assms(2,3)] v by blast
    then have n: "n \<in> set ns" using Cons.prems(2) by simp
    have "grow_op (import_note I k)"
      unfolding import_note_def add_note_with_created_at_def Let_def by (intro wf_intros)
    then have "project_root v = project_root s" using keeps_result [where R = grows] v by (auto simp: grows_def)
    then show False using Cons.IH [of v] Cons.prems(1) n rest by simp
  qed
qed simp

text \<open>
  One refused path stops the import. If one entry that is to be imported names a linked file
  outside the project root, the import writes nothing, however many other entries there are: as
  long as the ref carries the entry, nothing is imported from it.
\<close>

theorem refused_path_stops_import:
  assumes "normalize_relative_path (project_root s) bad = Inl e" "trim bad \<noteq> []" "note_linked_files n = [bad]"
    and "n \<in> set ns" "mints_ids (import_env_of I)"
  shows "fst (import_transaction I ns carried pairs oid s) = s \<and> (\<exists>e. snd (import_transaction I ns carried pairs oid s) = Inl e)"
proof -
  obtain t r where l: "for_each (import_note I) ns s = (t, r)" by fastforce
  then obtain x where "r = Inl x" using import_notes_refused [OF assms] by (cases r) auto
  then show ?thesis using l by (simp add: import_transaction_def transaction_def bind_def)
qed

section \<open>A merge that was skipped\<close>

text \<open>
  A skipped merge is not made up for. Once the tracking ref moved, a refresh stamps it as
  merged whatever became of the merge (the lock was contended, the merge failed): as long as neither
  ref moves, later refreshes do nothing, although the fetched entries may never have been merged.
\<close>

theorem skipped_merge_is_not_retried:
  assumes "\<not> (resolve_mode cfg = Cloud_First \<and> oc_server_url cfg \<noteq> None)" "ie_opens I"
    and "tracking_oid I g = Some new" "last_merged_tracking_oid (read_import_state s) \<noteq> Some new"
    and "refresh_read_path_from_git_notes cfg I None (Some s, g) = (m, g')"
    and "tracking_oid I h = Some new" "working_oid I h = last_imported_working_oid (read_import_state (open_store I m))"
  shows "last_merged_tracking_oid (read_import_state (open_store I m)) = Some new \<and>
    refresh_read_path_from_git_notes cfg I None (m, h) = (m, h)"
proof -
  have refs: "ie_refs I g \<noteq> None" "ie_refs I h \<noteq> None" using assms(3,6)
    by (cases "ie_refs I g"; cases "ie_refs I h"; simp add: tracking_oid_def)+
  obtain m2 where m: "m = Some (fst (set_notes_merged_tracking_oid (Some new) (open_store I m2)))"
    using assms(1-5) refs by (auto simp: refresh_read_path_from_git_notes_def Let_def split: prod.splits if_splits)
  then have t: "last_merged_tracking_oid (read_import_state (open_store I m)) = Some new"
    by (simp add: set_notes_merged_tracking_oid_def read_import_state_def open_store_def)
  then show ?thesis using assms(1,2,6,7) refs m
    by (auto simp: refresh_read_path_from_git_notes_def Let_def open_store_def)
qed

section \<open>Examples\<close>

text \<open>
  Lines of one note, lines fetched, and whether the lock file can be opened; each line is the
  entry \<open>e\<close> of its text.
\<close>

type_synonym demo_clone = "string list \<times> string list \<times> bool"

definition demo_clone_git :: "demo_clone git" where
  "demo_clone_git = \<lparr>git_rewrite_refs = (\<lambda>g. (g, None)), git_add_rewrite_ref = (\<lambda>g. (g, True)),
     git_head = (\<lambda>g. (g, None)), git_show = (\<lambda>t g. (g, No_Note)), git_notes_add = (\<lambda>t b g. (g, False)),
     git_notes_list = (\<lambda>(l, f, u). ((l, f, u), Some ''b1 c1'')), git_log = (\<lambda>g. (g, Some ''c1'')),
     git_cat_file = (\<lambda>q (l, f, u). ((l, f, u), Some (''b1 blob 3'' @ [CHR 0x0A] @ hd l @ [CHR 0x0A]))),
     git_merge = (\<lambda>(l, f, u). ((l @ f, f, u), True)), git_verify_ref = (\<lambda>g. (g, True)), git_remote_url = (\<lambda>n g. (g, True)),
     git_fetch = (\<lambda>n g. (g, False)), git_push = (\<lambda>n g. (g, None)),
     common_dir_absolute = (\<lambda>g. (g, Some (''/r/.git'' @ [CHR 0x0A]))), common_dir_relative = (\<lambda>g. (g, None)),
     canonicalize = (\<lambda>p. None), open_lock_file = (\<lambda>p (l, f, u). ((l, f, u), if u then None else Some ''denied'')),
     try_lock_file = (\<lambda>g. (g, Locked)), unlock_file = (\<lambda>g. g), instant = (\<lambda>g. (g, 0)), sleep_for = (\<lambda>d g. g)\<rparr>"

definition demo_notes_import :: "demo_clone notes_import_env" where
  "demo_notes_import = \<lparr>ie_carrier = \<lparr>ce_env = demo_env, json_object = (\<lambda>l. hd l = CHR ''{''),
       object_record = (\<lambda>l. Some (\<lparr>rec_schema_version = 1, rec_id = 7, rec_kind = ''note'', rec_title = tl l, rec_body = [],
         rec_tags = [], rec_linked_files = [], rec_created_at = 1, rec_status = ''active'', rec_source_ref = None,
         rec_valid_at = None, rec_invalid_at = None, rec_superseded_by = None, rec_remote_id = None,
         rec_entity_id = None, rec_superseded_by_entity_id = None, rec_edges = [], rec_origin = None, rec_op = None,
         rec_patch_id = None\<rparr>)), record_json = (\<lambda>r. []), ce_millis = 1, ce_secs = 1\<rparr>,
     ie_git = demo_clone_git, ie_root = ''/r'', ie_opens = True, ie_now = 5, ie_random = (\<lambda>n. note_title n),
     ie_refs = (\<lambda>(l, f, u). Some (Some ''t1'', Some (concat l))), ie_workdir = Some ''/r''\<rparr>"

definition demo_config :: outbox_config where
  "demo_config = \<lparr>oc_no_server = None, oc_mode = None, oc_server_url = None, oc_project_id = None\<rparr>"

lemma demo_listed: "carrier_list (ie_carrier demo_notes_import) (ie_git demo_notes_import) None GIT_NOTES_IMPORT_LIMIT True None
    ([''{a}''], [''{b}''], False) = (([''{a}''], [''{b}''], False),
    Inr (map (\<lambda>r. case record_to_note demo_env r of Inr n \<Rightarrow> n) [the (object_record (ie_carrier demo_notes_import) ''{a}'')]))"
  by code_simp

lemma demo_imported: "snd (import_git_notes_into_memory demo_notes_import (None, ([''{a}''], [''{b}''], False))) =
    Inr \<lparr>gi_imported = 1, gi_edges_applied = 0, gi_edges_unresolved = 0, gi_supersede_edges_applied = 0,
      gi_supersede_edges_unresolved = 0\<rparr>"
  by code_simp

lemma notes_import_lands_witness:
  "\<exists>t. fst (fst (import_git_notes_into_memory demo_notes_import (None, ([''{a}''], [''{b}''], False)))) = Some t \<and>
     entities t = {entity_id demo_env ''note'' ''a}'' []} \<and> length (note_rows t) = 1"
proof -
  have e: "import_env_of demo_notes_import = demo_env" "ie_root demo_notes_import = ''/r''" by (simp_all add: demo_notes_import_def)
  have S: "import_ready (import_env_of demo_notes_import) (open_store demo_notes_import None)"
    by (simp add: import_ready_def open_store_def content_keyed_def empty_store_def wf_empty_store [unfolded empty_store_def])
  have m: "mints_ids (import_env_of demo_notes_import)" unfolding e by (simp add: demo_env_def mints_ids_def)
  obtain m' g' where run: "import_git_notes_into_memory demo_notes_import (None, ([''{a}''], [''{b}''], False)) = ((m', g'),
      Inr \<lparr>gi_imported = 1, gi_edges_applied = 0, gi_edges_unresolved = 0, gi_supersede_edges_applied = 0,
        gi_supersede_edges_unresolved = 0\<rparr>)" using demo_imported by (metis prod.collapse)
  have n: "note_entity_id_of demo_env (case record_to_note demo_env (the (object_record (ie_carrier demo_notes_import) ''{a}'')) of Inr n \<Rightarrow> n) =
      entity_id demo_env ''note'' ''a}'' []" by code_simp
  show ?thesis
    using notes_import_lands [OF S m demo_listed _ run] n unfolding e
    by (simp add: run open_store_def empty_store_def entities_def) blast
qed

text \<open>
  The lock file cannot be opened, so the fetched line is not merged; then it can be, but the
  tracking ref passes for merged. The merge alone would bring the line.
\<close>

definition demo_marked :: memory_store where
  "demo_marked = two_notes\<lparr>notes_import_state := Some \<lparr>last_merged_tracking_oid = None,
     last_imported_working_oid = Some ''{a}''\<rparr>\<rparr>"

lemma demo_refreshed: "refresh_read_path_from_git_notes demo_config demo_notes_import None (Some demo_marked, ([''{a}''], [''{b}''], False)) =
   (Some (demo_marked\<lparr>notes_import_state := Some \<lparr>last_merged_tracking_oid = Some ''t1'',
     last_imported_working_oid = Some ''{a}''\<rparr>\<rparr>), ([''{a}''], [''{b}''], False))"
  by code_simp

lemma skipped_merge_is_not_retried_witness:
  "fst (merge_tracking_notes demo_clone_git (Some ''/r'') ([''{a}''], [''{b}''], True)) = ([''{a}'', ''{b}''], [''{b}''], True) \<and>
   refresh_read_path_from_git_notes demo_config demo_notes_import None
     (Some (demo_marked\<lparr>notes_import_state := Some \<lparr>last_merged_tracking_oid = Some ''t1'',
       last_imported_working_oid = Some ''{a}''\<rparr>\<rparr>), ([''{a}''], [''{b}''], True)) =
     (Some (demo_marked\<lparr>notes_import_state := Some \<lparr>last_merged_tracking_oid = Some ''t1'',
       last_imported_working_oid = Some ''{a}''\<rparr>\<rparr>), ([''{a}''], [''{b}''], True))"
proof -
  have m: "fst (merge_tracking_notes demo_clone_git (Some ''/r'') ([''{a}''], [''{b}''], True)) = ([''{a}'', ''{b}''], [''{b}''], True)"
    by code_simp
  have "\<not> (resolve_mode demo_config = Cloud_First \<and> oc_server_url demo_config \<noteq> None)" "ie_opens demo_notes_import"
    "tracking_oid demo_notes_import ([''{a}''], [''{b}''], False) = Some ''t1''"
    "last_merged_tracking_oid (read_import_state demo_marked) \<noteq> Some ''t1''"
    by (simp_all add: demo_config_def demo_notes_import_def tracking_oid_def demo_marked_def read_import_state_def)
  moreover have "tracking_oid demo_notes_import ([''{a}''], [''{b}''], True) = Some ''t1''"
    "working_oid demo_notes_import ([''{a}''], [''{b}''], True) = Some ''{a}''"
    by (simp_all add: demo_notes_import_def tracking_oid_def working_oid_def)
  ultimately show ?thesis
    using m skipped_merge_is_not_retried [OF _ _ _ _ demo_refreshed, of "''t1''" "([''{a}''], [''{b}''], True)"]
    by (simp add: open_store_def read_import_state_def)
qed

definition demo_note :: "string \<Rightarrow> string list \<Rightarrow> mem_note" where
  "demo_note title files = \<lparr>note_id = title, note_entity_id = title, note_kind = ''note'', note_title = title, note_body = [],
     note_tags_of = [], note_linked_files = files, note_created_at = 1, note_status = ''active'', note_superseded_by = None,
     note_source_ref = None, note_valid_at = None, note_invalid_at = None, note_source_project = None,
     note_source_project_path = None, note_remote_id = None, note_origin = None\<rparr>"

lemma refused_path_stops_import_witness:
  "fst (import_transaction demo_notes_import [demo_note ''p'' [], demo_note ''q'' [''../x'']] [] [] None two_notes) = two_notes"
proof -
  have p: "case normalize_relative_path (project_root two_notes) ''../x'' of Inl _ \<Rightarrow> True | Inr _ \<Rightarrow> False" "trim ''../x'' \<noteq> []"
    by code_simp+
  then obtain e where "normalize_relative_path (project_root two_notes) ''../x'' = Inl e" by (auto split: sum.splits)
  from refused_path_stops_import [OF this p(2), where n = "demo_note ''q'' [''../x'']" and I = demo_notes_import] show ?thesis
    by (simp add: demo_note_def demo_notes_import_def demo_env_def mints_ids_def)
qed

end
