(* ===== verification/Reconcile.thy ===== *)
theory Reconcile
  imports Notes_Import Team_Db
begin

text \<open>
  \<open>inkentry memory reconcile\<close> (\<open>memory/reconcile.rs\<close>): what a local server recorded for a project,
  read from its database, is collapsed by content and imported into the memory store in one
  transaction. The embedder is a parameter.
\<close>

section \<open>Candidates\<close>

record server_candidate =
  sc_id :: nat
  sc_kind :: string
  sc_title :: string
  sc_body :: string
  sc_tags :: "string list"
  sc_linked_files :: "string list"
  sc_created_at :: int
  sc_status :: string
  sc_superseded_by :: "nat option"

definition candidate_entity :: "env \<Rightarrow> server_candidate \<Rightarrow> string" where
  "candidate_entity E c = entity_id E (sc_kind c) (sc_title c) (sc_body c)"

definition candidate_archived :: "server_candidate \<Rightarrow> bool" where
  "candidate_archived c = (sc_status c = ''archived'')"

definition candidate_of_row :: "team_row \<Rightarrow> server_candidate" where
  "candidate_of_row r = \<lparr>sc_id = tr_id r, sc_kind = tr_kind r, sc_title = tr_title r, sc_body = tr_body r,
     sc_tags = split_csv (tr_tags r), sc_linked_files = split_csv (tr_linked_files r),
     sc_created_at = tr_created_at r, sc_status = tr_status r, sc_superseded_by = tr_superseded_by r\<rparr>"

definition read_server_notes :: "team_db \<Rightarrow> nat \<Rightarrow> server_candidate list" where
  "read_server_notes d pid = map candidate_of_row
     (sort_key tr_created_at (filter (\<lambda>r. tr_project r = pid) (team_rows d)))"

section \<open>Collapsing them\<close>

record merged_note =
  mg_entity_id :: string
  mg_kind :: string
  mg_title :: string
  mg_body :: string
  mg_tags :: "string list"
  mg_linked_files :: "string list"
  mg_created_at :: int
  mg_status :: string
  mg_source_rows :: nat

definition merged_from_server :: "string \<Rightarrow> server_candidate \<Rightarrow> merged_note" where
  "merged_from_server eid c = \<lparr>mg_entity_id = eid, mg_kind = sc_kind c, mg_title = sc_title c, mg_body = sc_body c,
     mg_tags = sc_tags c, mg_linked_files = sc_linked_files c, mg_created_at = sc_created_at c,
     mg_status = sc_status c, mg_source_rows = 1\<rparr>"

definition absorb :: "server_candidate \<Rightarrow> merged_note \<Rightarrow> merged_note" where
  "absorb c m = m\<lparr>mg_tags := fold (\<lambda>t ts. if t \<in> set ts then ts else ts @ [t]) (sc_tags c) (mg_tags m),
     mg_linked_files := fold (\<lambda>f fs. if f \<in> set fs then fs else fs @ [f]) (sc_linked_files c) (mg_linked_files m),
     mg_status := (if candidate_archived c then ''archived'' else mg_status m),
     mg_created_at := min (mg_created_at m) (sc_created_at c),
     mg_source_rows := Suc (mg_source_rows m)\<rparr>"

text \<open>The index maps an entity to its place; here the place is found by the entity.\<close>

definition collapse_step :: "env \<Rightarrow> server_candidate \<Rightarrow> merged_note list \<Rightarrow> merged_note list" where
  "collapse_step E c merged = (let eid = candidate_entity E c in
     if eid \<in> set (map mg_entity_id merged) then map (\<lambda>m. if mg_entity_id m = eid then absorb c m else m) merged
     else merged @ [merged_from_server eid c])"

definition collapse_candidates :: "env \<Rightarrow> server_candidate list \<Rightarrow> merged_note list" where
  "collapse_candidates E cs = fold (collapse_step E) cs []"

definition build_supersede_edges :: "env \<Rightarrow> server_candidate list \<Rightarrow> (string \<rightharpoonup> string)" where
  "build_supersede_edges E cs = (let by_server_id = map_of (rev (map (\<lambda>c. (sc_id c, c)) cs)) in
     fold (\<lambda>c edges. case Option.bind (sc_superseded_by c) by_server_id of None \<Rightarrow> edges
       | Some succ \<Rightarrow> if edges (candidate_entity E c) = None
           then edges(candidate_entity E c \<mapsto> candidate_entity E succ) else edges) cs Map.empty)"

section \<open>Importing them\<close>

record reconcile_env =
  rc_env :: env
  rc_now :: int
  rc_random :: "merged_note \<Rightarrow> string"
  rc_embed :: "string \<Rightarrow> string option"

definition import_merged :: "reconcile_env \<Rightarrow> merged_note \<times> string option \<Rightarrow> note_id list \<Rightarrow> note_id list op" where
  "import_merged R p ids = (case p of (n, embedding) \<Rightarrow>
     bind (add_note_with_created_at (rc_env R) (rc_now R) (rc_random R n) (mg_kind n) (mg_title n) (mg_body n)
       (mg_tags n) (mg_linked_files n) (Some ''reconcile:server.db'')
       (if mg_status n = ''archived'' then ''archived'' else ''active'') (mg_created_at n)) (\<lambda>(i, created).
     bind (case embedding of None \<Rightarrow> ok () | Some blob \<Rightarrow> insert_embedding i blob) (\<lambda>_.
     ok (ids @ [i]))))"

definition import_batch :: "reconcile_env \<Rightarrow> (merged_note \<times> string option) list \<Rightarrow> note_id list op" where
  "import_batch R batch = transaction (fold_each (import_merged R) batch [])"

record reconcile_summary =
  rs_candidates :: nat
  rs_already_present :: nat
  rs_collapsed_duplicates :: nat
  rs_imported :: nat
  rs_would_import :: nat
  rs_imported_without_embedding :: nat
  rs_unresolved :: nat
  rs_errors :: "string list"

definition empty_summary :: reconcile_summary where
  "empty_summary = \<lparr>rs_candidates = 0, rs_already_present = 0, rs_collapsed_duplicates = 0, rs_imported = 0,
     rs_would_import = 0, rs_imported_without_embedding = 0, rs_unresolved = 0, rs_errors = []\<rparr>"

text \<open>The first row under an entity, in the order of the listing.\<close>

definition entity_to_local :: "env \<Rightarrow> mem_note list \<Rightarrow> (string \<rightharpoonup> note_id)" where
  "entity_to_local E stored = map_of (map (\<lambda>n. (note_entity_id_of E n, note_id n)) stored)"

definition merge_present :: "reconcile_env \<Rightarrow> (string \<rightharpoonup> note_id) \<Rightarrow> merged_note \<Rightarrow> unit op" where
  "merge_present R held m = (case held (mg_entity_id m) of None \<Rightarrow> ok ()
     | Some i \<Rightarrow> bind (attempt (union_tags_and_files (rc_env R) (rc_now R) i (mg_tags m) (mg_linked_files m))) (\<lambda>_. ok ()))"

definition link_successor ::
    "(string \<rightharpoonup> string) \<Rightarrow> (string \<rightharpoonup> note_id) \<Rightarrow> merged_note \<times> note_id \<Rightarrow> nat \<Rightarrow> nat op" where
  "link_successor edges held p missing = (case p of (n, i) \<Rightarrow>
     if mg_status n \<noteq> ''archived'' then ok missing
     else case edges (mg_entity_id n) of None \<Rightarrow> ok missing
     | Some succ \<Rightarrow> (case held succ of None \<Rightarrow> ok (Suc missing)
       | Some j \<Rightarrow> if j = i then ok missing
           else bind (attempt (set_superseded_by i j)) (\<lambda>r. ok (case r of Inl _ \<Rightarrow> Suc missing | Inr _ \<Rightarrow> missing))))"

definition link_successors ::
    "env \<Rightarrow> server_candidate list \<Rightarrow> (string \<rightharpoonup> note_id) \<Rightarrow> (merged_note \<times> note_id) list \<Rightarrow> nat op" where
  "link_successors E cs held imported = fold_each
     (link_successor (build_supersede_edges E cs) (fold (\<lambda>(n, i) h. h(mg_entity_id n \<mapsto> i)) imported held)) imported 0"

text \<open>The partition of the collapsed candidates, and what is embedded of an entry.\<close>

definition present_notes :: "env \<Rightarrow> (string \<rightharpoonup> note_id) \<Rightarrow> server_candidate list \<Rightarrow> merged_note list" where
  "present_notes E held cs = filter (\<lambda>m. held (mg_entity_id m) \<noteq> None) (collapse_candidates E cs)"

definition new_notes :: "env \<Rightarrow> (string \<rightharpoonup> note_id) \<Rightarrow> server_candidate list \<Rightarrow> merged_note list" where
  "new_notes E held cs = sort_key mg_created_at (filter (\<lambda>m. held (mg_entity_id m) = None) (collapse_candidates E cs))"

definition embed_merged :: "reconcile_env \<Rightarrow> merged_note \<Rightarrow> string option" where
  "embed_merged R n = rc_embed R (''title: '' @ mg_title n @ '' | text: '' @ mg_body n)"

datatype reconcile_failure = Source_Unreadable | Memory_Unopened | Memory_Unreadable store_error | Import_Failed store_error

text \<open>
  What follows once the candidates are read: the summary is printed on every way out. \<open>held\<close> is the
  map of the entities the store has, \<open>opens\<close> whether it can be opened.
\<close>

definition reconcile_candidates ::
    "reconcile_env \<Rightarrow> bool \<Rightarrow> bool \<Rightarrow> server_candidate list \<Rightarrow> memory_store \<Rightarrow>
     memory_store \<times> reconcile_summary \<times> (reconcile_failure + unit)" where
  "reconcile_candidates R opens dry_run cs s = (let E = rc_env R; sum0 = empty_summary\<lparr>rs_candidates := length cs\<rparr> in
     if cs = [] then (s, sum0, Inr ())
     else if \<not> opens then (s, sum0, Inl Memory_Unopened)
     else case all_notes_for_dedup s of Inl e \<Rightarrow> (s, sum0, Inl (Memory_Unreadable e))
     | Inr stored \<Rightarrow> (let held = entity_to_local E stored; present = present_notes E held cs; new = new_notes E held cs;
          sum1 = sum0\<lparr>rs_already_present := sum_list (map mg_source_rows present),
            rs_collapsed_duplicates := sum_list (map (\<lambda>m. mg_source_rows m - 1) new)\<rparr> in
        if dry_run then (s, sum1\<lparr>rs_would_import := length new\<rparr>, Inr ())
        else let s1 = fst (for_each (merge_present R held) present s) in
        if new = [] then (s1, sum1, Inr ())
        else let embeddings = map (embed_merged R) new;
                 sum2 = sum1\<lparr>rs_imported_without_embedding := length (filter (\<lambda>b. b = None) embeddings)\<rparr> in
          case import_batch R (zip new embeddings) s1 of
            (s2, Inl e) \<Rightarrow> (s2, sum2\<lparr>rs_errors := [''import_transaction'']\<rparr>, Inl (Import_Failed e))
          | (s2, Inr ids) \<Rightarrow> (case link_successors E cs held (zip new ids) s2 of
                (s3, missing) \<Rightarrow> (s3, sum2\<lparr>rs_imported := length ids,
                  rs_unresolved := (case missing of Inl _ \<Rightarrow> 0 | Inr k \<Rightarrow> k)\<rparr>, Inr ()))))"

definition reconcile_project ::
    "reconcile_env \<Rightarrow> team_db option \<Rightarrow> string \<Rightarrow> bool \<Rightarrow> bool \<Rightarrow> memory_store \<Rightarrow>
     memory_store \<times> reconcile_summary \<times> (reconcile_failure + unit)" where
  "reconcile_project R server slug opens dry_run s = (case server of
     None \<Rightarrow> (s, empty_summary\<lparr>rs_errors := [''open_source_db'']\<rparr>, Inl Source_Unreadable)
   | Some d \<Rightarrow> (case find (\<lambda>p. prj_slug p = slug) (projects d) of
       None \<Rightarrow> (s, empty_summary, Inr ())
     | Some p \<Rightarrow> reconcile_candidates R opens dry_run (read_server_notes d (prj_id p)) s))"

text \<open>The count behind the hint, and all the projects of a server.\<close>

definition count_reconcilable :: "env \<Rightarrow> team_db option \<Rightarrow> string \<Rightarrow> bool \<Rightarrow> memory_store \<Rightarrow> nat option" where
  "count_reconcilable E server slug opens s = (case server of None \<Rightarrow> None
     | Some d \<Rightarrow> (case find (\<lambda>p. prj_slug p = slug) (projects d) of None \<Rightarrow> None
       | Some p \<Rightarrow> (let cs = read_server_notes d (prj_id p) in
           if cs = [] \<or> \<not> opens then None
           else case all_notes_for_dedup s of Inl _ \<Rightarrow> None
           | Inr stored \<Rightarrow> (let n = length (filter (\<lambda>m. mg_entity_id m \<notin> note_entity_id_of E ` set stored)
                 (collapse_candidates E cs)) in
               if n > 0 then Some n else None))))"

fun run_all_projects ::
    "reconcile_env \<Rightarrow> team_db \<Rightarrow> string list \<Rightarrow> bool \<Rightarrow> bool \<Rightarrow> memory_store \<Rightarrow>
     memory_store \<times> reconcile_summary list \<times> (reconcile_failure + unit)" where
  "run_all_projects R d [] opens dry_run s = (s, [], Inr ())"
| "run_all_projects R d (slug # slugs) opens dry_run s = (case reconcile_project R (Some d) slug opens dry_run s of
     (t, summary, Inl e) \<Rightarrow> (t, [summary], Inl e)
   | (t, summary, Inr _) \<Rightarrow> (case run_all_projects R d slugs opens dry_run t of
       (u, summaries, r) \<Rightarrow> (u, summary # summaries, r)))"

section \<open>One entry per content\<close>

text \<open>A merged entry stands for the candidates \<open>cs\<close> of its content.\<close>

definition own_candidates :: "env \<Rightarrow> server_candidate list \<Rightarrow> string \<Rightarrow> server_candidate list" where
  "own_candidates E cs eid = filter (\<lambda>c. candidate_entity E c = eid) cs"

definition merges :: "server_candidate list \<Rightarrow> merged_note \<Rightarrow> bool" where
  "merges own m = (own \<noteq> [] \<and> mg_source_rows m = length own \<and>
     (mg_status m = ''archived'' \<longleftrightarrow> list_ex candidate_archived own) \<and>
     mg_created_at m = Min (set (map sc_created_at own)) \<and>
     set (mg_tags m) = \<Union>(set (map (set \<circ> sc_tags) own)) \<and>
     set (mg_linked_files m) = \<Union>(set (map (set \<circ> sc_linked_files) own)))"

definition merged_of :: "env \<Rightarrow> server_candidate list \<Rightarrow> merged_note \<Rightarrow> bool" where
  "merged_of E cs m = (merges (own_candidates E cs (mg_entity_id m)) m \<and>
     entity_id E (mg_kind m) (mg_title m) (mg_body m) = mg_entity_id m)"

lemma set_fold_add: "set (fold (\<lambda>t ts. if t \<in> set ts then ts else ts @ [t]) xs ys) = set xs \<union> set ys"
  by (induction xs arbitrary: ys) auto

lemma absorb_fields [simp]:
  "mg_entity_id (absorb c m) = mg_entity_id m" "mg_kind (absorb c m) = mg_kind m" "mg_title (absorb c m) = mg_title m"
  "mg_body (absorb c m) = mg_body m" "mg_source_rows (absorb c m) = Suc (mg_source_rows m)"
  "mg_created_at (absorb c m) = min (mg_created_at m) (sc_created_at c)"
  "mg_status (absorb c m) = (if candidate_archived c then ''archived'' else mg_status m)"
  "set (mg_tags (absorb c m)) = set (sc_tags c) \<union> set (mg_tags m)"
  "set (mg_linked_files (absorb c m)) = set (sc_linked_files c) \<union> set (mg_linked_files m)"
  by (simp_all add: absorb_def set_fold_add)

lemma merges_absorb: "merges own m \<Longrightarrow> merges (own @ [c]) (absorb c m)"
proof -
  assume M: "merges own m"
  then have "sc_created_at ` set own \<noteq> {}" by (simp add: merges_def)
  then have "Min (set (map sc_created_at (own @ [c]))) = min (Min (set (map sc_created_at own))) (sc_created_at c)"
    by (simp add: min.commute)
  with M show ?thesis unfolding merges_def absorb_fields by auto
qed

lemma merged_of_absorb:
  "merged_of E cs m \<Longrightarrow> candidate_entity E c = mg_entity_id m \<Longrightarrow> merged_of E (cs @ [c]) (absorb c m)"
  by (simp add: merged_of_def own_candidates_def merges_absorb)

lemma merged_of_other: "merged_of E cs m \<Longrightarrow> candidate_entity E c \<noteq> mg_entity_id m \<Longrightarrow> merged_of E (cs @ [c]) m"
  by (simp add: merged_of_def own_candidates_def)

lemma merged_of_first:
  assumes "candidate_entity E c \<notin> candidate_entity E ` set cs"
  shows "merged_of E (cs @ [c]) (merged_from_server (candidate_entity E c) c)"
proof -
  have "candidate_entity E d \<noteq> candidate_entity E c" if "d \<in> set cs" for d using assms that by (metis image_eqI)
  then have "own_candidates E cs (candidate_entity E c) = []" by (simp add: own_candidates_def filter_empty_conv)
  then have "own_candidates E (cs @ [c]) (candidate_entity E c) = [c]" by (simp add: own_candidates_def)
  then show ?thesis
    by (simp add: merged_of_def merges_def merged_from_server_def candidate_archived_def candidate_entity_def)
qed

lemma one_of_each: "distinct (map f xs) \<Longrightarrow> e \<in> set (map f xs) \<Longrightarrow> length (filter (\<lambda>x. f x = e) xs) = 1"
proof (induction xs)
  case (Cons x xs)
  then show ?case by (auto simp: filter_empty_conv) (metis image_eqI)
qed simp

lemma collapse_candidates_spec:
  "distinct (map mg_entity_id (collapse_candidates E cs)) \<and>
   mg_entity_id ` set (collapse_candidates E cs) = candidate_entity E ` set cs \<and>
   list_all (merged_of E cs) (collapse_candidates E cs) \<and>
   sum_list (map mg_source_rows (collapse_candidates E cs)) = length cs"
proof (induction cs rule: rev_induct)
  case (snoc c cs)
  let ?ms = "collapse_candidates E cs" and ?e = "candidate_entity E c"
  have step: "collapse_candidates E (cs @ [c]) = collapse_step E c ?ms" by (simp add: collapse_candidates_def)
  show ?case
  proof (cases "?e \<in> set (map mg_entity_id ?ms)")
    case True
    let ?f = "\<lambda>m. if mg_entity_id m = ?e then absorb c m else m"
    have ms: "collapse_candidates E (cs @ [c]) = map ?f ?ms" using True by (simp add: step collapse_step_def Let_def)
    have ids: "map mg_entity_id (map ?f ?ms) = map mg_entity_id ?ms" by (simp add: comp_def if_distrib cong: if_cong)
    have "sum_list (map mg_source_rows (map ?f xs)) = sum_list (map mg_source_rows xs) + length (filter (\<lambda>m. mg_entity_id m = ?e) xs)" for xs
      by (induction xs) auto
    moreover have "length (filter (\<lambda>m. mg_entity_id m = ?e) ?ms) = 1" using snoc True by (intro one_of_each) simp_all
    ultimately have sum: "sum_list (map mg_source_rows (map ?f ?ms)) = length (cs @ [c])" using snoc by simp
    have one: "merged_of E (cs @ [c]) (?f m)" if "m \<in> set ?ms" for m
    proof -
      have "merged_of E cs m" using snoc that by (simp add: list_all_iff)
      then show ?thesis using merged_of_absorb [of E cs m c] merged_of_other [of E cs m c] by (cases "mg_entity_id m = ?e") simp_all
    qed
    then have "list_all (merged_of E (cs @ [c])) (map ?f ?ms)" unfolding list_all_iff set_map by (blast intro: one)
    moreover have "mg_entity_id ` set (map ?f ?ms) = candidate_entity E ` set (cs @ [c])"
    proof -
      have "mg_entity_id ` set (map ?f ?ms) = set (map mg_entity_id (map ?f ?ms))" unfolding set_map ..
      also have "\<dots> = candidate_entity E ` set cs" unfolding ids using snoc by simp
      finally show ?thesis using snoc True by auto
    qed
    ultimately show ?thesis using snoc sum unfolding ms ids by blast
  next
    case False
    have ms: "collapse_candidates E (cs @ [c]) = ?ms @ [merged_from_server ?e c]" using False by (simp add: step collapse_step_def Let_def)
    have new: "?e \<notin> candidate_entity E ` set cs" using snoc False by auto
    have "list_all (merged_of E (cs @ [c])) ?ms"
      using snoc False by (auto simp: list_all_iff intro!: merged_of_other)
    then show ?thesis using snoc merged_of_first [OF new] False unfolding ms by (auto simp: merged_from_server_def)
  qed
qed (simp add: collapse_candidates_def)

section \<open>The counts\<close>

lemma sum_list_filter_split: "sum_list (map f (filter P xs)) + sum_list (map f (filter (\<lambda>x. \<not> P x) xs)) = (sum_list (map f xs) :: nat)"
  by (induction xs) auto

lemma sum_list_sort_key: "sum_list (map f (sort_key k xs)) = (sum_list (map f xs) :: nat)"
proof -
  have "mset (map f (sort_key k xs)) = mset (map f xs)" by simp
  then show ?thesis by (metis sum_mset_sum_list)
qed

lemma sum_list_minus_one: "list_all (\<lambda>x. 1 \<le> f x) xs \<Longrightarrow> sum_list (map (\<lambda>x. f x - 1) xs) + length xs = (sum_list (map f xs) :: nat)"
  by (induction xs) auto

lemma import_batch_length:
  assumes "import_batch R batch s = (t, Inr ids)"
  shows "length ids = length batch"
proof -
  have "fold_each (import_merged R) ps acc s = (t, Inr ids) \<Longrightarrow> length ids = length acc + length ps" for ps acc s
  proof (induction ps arbitrary: acc s)
    case (Cons p ps)
    from Cons.prems obtain u a where u: "import_merged R p acc s = (u, Inr a)" and rest: "fold_each (import_merged R) ps a u = (t, Inr ids)"
      by (auto simp: bind_eq_Inr)
    have "length a = Suc (length acc)" using u by (cases p) (auto simp: import_merged_def bind_eq_Inr)
    then show ?case using Cons.IH [OF rest] by simp
  qed simp
  moreover have "fold_each (import_merged R) batch [] s = (t, Inr ids)"
    using assms by (auto simp: import_batch_def transaction_def split: prod.splits sum.splits)
  ultimately show ?thesis by fastforce
qed

lemma candidates_partition:
  "length cs = sum_list (map mg_source_rows (present_notes E h cs)) +
     sum_list (map (\<lambda>m. mg_source_rows m - 1) (new_notes E h cs)) + length (new_notes E h cs)"
proof -
  let ?ms = "collapse_candidates E cs" and ?new = "new_notes E h cs"
  have C: "list_all (merged_of E cs) ?ms" "sum_list (map mg_source_rows ?ms) = length cs" using collapse_candidates_spec by blast+
  have "1 \<le> mg_source_rows m" if "m \<in> set ?ms" for m
  proof -
    have "merges (own_candidates E cs (mg_entity_id m)) m" using C(1) that by (simp add: list_all_iff merged_of_def)
    then show ?thesis by (cases "own_candidates E cs (mg_entity_id m)") (simp_all add: merges_def)
  qed
  then have "list_all (\<lambda>m. 1 \<le> mg_source_rows m) ?new" by (simp add: new_notes_def list_all_iff)
  from sum_list_minus_one [OF this] have "sum_list (map (\<lambda>m. mg_source_rows m - 1) ?new) + length ?new
      = sum_list (map mg_source_rows (filter (\<lambda>m. h (mg_entity_id m) = None) ?ms))"
    unfolding new_notes_def sum_list_sort_key .
  moreover have "sum_list (map mg_source_rows (present_notes E h cs)) +
      sum_list (map mg_source_rows (filter (\<lambda>m. h (mg_entity_id m) = None) ?ms)) = length cs"
    using sum_list_filter_split [of mg_source_rows "\<lambda>m. h (mg_entity_id m) \<noteq> None" ?ms] C(2) by (simp add: present_notes_def)
  ultimately show ?thesis by linarith
qed

text \<open>
  The counts of a reconcile partition its source rows. Every run that succeeds accounts for
  each row it read exactly once: the rows of entries the store had, the rows beyond the first of
  each new entry, and one row per entry imported, or, in a dry run, per entry that would be.
\<close>

theorem reconcile_counts_partition:
  assumes "reconcile_candidates R opens dry_run cs s = (t, sm, Inr ())"
  shows "length cs = rs_already_present sm + rs_collapsed_duplicates sm + (if dry_run then rs_would_import sm else rs_imported sm) \<and>
    rs_candidates sm = length cs"
proof (cases "cs = []")
  case True
  then show ?thesis using assms by (auto simp: reconcile_candidates_def Let_def empty_summary_def)
next
  case False
  then obtain stored where st: "all_notes_for_dedup s = Inr stored" and opens
    using assms by (auto simp: reconcile_candidates_def Let_def split: if_splits sum.splits)
  let ?h = "entity_to_local (rc_env R) stored"
  let ?new = "new_notes (rc_env R) ?h cs" and ?u = "fst (for_each (merge_present R ?h) (present_notes (rc_env R) ?h cs) s)"
  note P = candidates_partition [of cs "rc_env R" ?h]
  show ?thesis
  proof (cases "dry_run \<or> ?new = []")
    case True
    then show ?thesis using assms False st \<open>opens\<close> P
      by (cases dry_run) (auto simp: reconcile_candidates_def Let_def empty_summary_def)
  next
    case new: False
    obtain v r where b: "import_batch R (zip ?new (map (embed_merged R) ?new)) ?u = (v, r)" by fastforce
    then obtain ids where r: "r = Inr ids" using assms False st \<open>opens\<close> new
      by (cases r) (auto simp: reconcile_candidates_def Let_def)
    have "length ids = length ?new" using import_batch_length [OF b [unfolded r]] by simp
    then show ?thesis using assms False st \<open>opens\<close> new b r P
      by (auto simp: reconcile_candidates_def Let_def empty_summary_def split: prod.splits)
  qed
qed

section \<open>Every candidate lands\<close>

text \<open>What a reconcile decides of a row: content, identity, status and date.\<close>

definition row_facts :: "notes_row \<Rightarrow> string \<times> string \<times> string \<times> string \<times> string \<times> int" where
  "row_facts r = (row_kind r, row_title r, row_body r, row_entity_id r, row_status r, row_created_at r)"

definition contents :: "memory_store \<Rightarrow> (string \<times> string \<times> string \<times> string \<times> string \<times> int) set" where
  "contents s = row_facts ` set (note_rows s)"

abbreviation same_contents :: "memory_store \<Rightarrow> memory_store \<Rightarrow> bool" where
  "same_contents \<equiv> (\<lambda>s t. contents t = contents s)"

interpretation content_kept: step_relation same_contents
  by unfold_locales auto

lemma entities_contents: "entities s = (\<lambda>(k, ti, b, e, st, c). e) ` contents s"
  by (simp add: entities_def contents_def image_image row_facts_def)

lemma content_keyed_contents: "content_keyed E s = (\<forall>(k, ti, b, e, st, c) \<in> contents s. e = entity_id E k ti b)"
  by (auto simp: content_keyed_def contents_def list_all_iff row_facts_def)

lemma same_contents_rules:
  "keeps same_contents (set_superseded_by i j)" "keeps same_contents (union_tags_and_files E now i tags files)"
  "keeps same_contents (insert_embedding i blob)"
proof -
  have "contents (s\<lparr>note_rows := map (\<lambda>r. if row_uuid r = i then r\<lparr>row_superseded_by := Some j\<rparr> else r) (note_rows s)\<rparr>) = contents s" for s
  proof -
    have "row_facts ` (\<lambda>r. if row_uuid r = i then r\<lparr>row_superseded_by := Some j\<rparr> else r) ` set (note_rows s) = row_facts ` set (note_rows s)"
      unfolding image_image by (rule image_cong) (simp_all add: row_facts_def)
    then show ?thesis by (simp add: contents_def)
  qed
  then show "keeps same_contents (set_superseded_by i j)"
    by (auto simp: keeps_def set_superseded_by_def bind_def sql_update_def Let_def)
  have att: "keeps same_contents (attach_tags_and_files E now i tags files)"
    using attach_same_rows unfolding keeps_def contents_def by metis
  show "keeps same_contents (union_tags_and_files E now i tags files)"
    unfolding union_tags_and_files_def by (intro content_kept.keeps_intros att)
  show "keeps same_contents (insert_embedding i blob)"
    by (auto simp: keeps_def insert_embedding_def bind_def transaction_def sql_delete_embedding_def contents_def split: option.split)
qed

text \<open>The parts of a run before and after the import change no content.\<close>

lemma merge_present_keeps:
  "wf_op (for_each (merge_present R h) ms)" "grow_op (for_each (merge_present R h) ms)" "keeps same_contents (for_each (merge_present R h) ms)"
proof -
  have "wf_op (merge_present R h m)" "grow_op (merge_present R h m)" for m
    unfolding merge_present_def by (intro wf_intros)+
  then show "wf_op (for_each (merge_present R h) ms)" "grow_op (for_each (merge_present R h) ms)" by (intro wf_intros; simp)+
  have "keeps same_contents (merge_present R h m)" for m
    unfolding merge_present_def
    by (cases "h (mg_entity_id m)") (auto intro!: content_kept.keeps_intros same_contents_rules)
  then show "keeps same_contents (for_each (merge_present R h) ms)" by (rule content_kept.keeps_for_each)
qed

lemma link_successors_keeps:
  "wf_op (link_successors E cs h ps)" "grow_op (link_successors E cs h ps)" "keeps same_contents (link_successors E cs h ps)"
proof -
  have k: "keeps Q (link_successor f g p n)" if "\<And>i j. keeps Q (set_superseded_by i j)" "step_relation Q" for Q f g p n
    unfolding link_successor_def
    by (cases p; cases "f (mg_entity_id (fst p))"; cases "g (the (f (mg_entity_id (fst p))))")
      (auto intro!: step_relation.keeps_intros [OF that(2)] that(1))
  show "wf_op (link_successors E cs h ps)" unfolding link_successors_def
    by (intro inv.keeps_fold_each k update_ops_rules) (unfold_locales)
  show "grow_op (link_successors E cs h ps)" unfolding link_successors_def
    by (intro growth.keeps_fold_each k update_ops_rules) (unfold_locales)
  show "keeps same_contents (link_successors E cs h ps)" unfolding link_successors_def
    by (intro content_kept.keeps_fold_each k same_contents_rules) (unfold_locales)
qed

definition merged_facts :: "merged_note \<Rightarrow> string \<times> string \<times> string \<times> string \<times> string \<times> int" where
  "merged_facts m = (mg_kind m, mg_title m, mg_body m, mg_entity_id m,
     (if mg_status m = ''archived'' then ''archived'' else ''active''), mg_created_at m)"

definition self_keyed :: "env \<Rightarrow> merged_note \<Rightarrow> bool" where
  "self_keyed E m = (entity_id E (mg_kind m) (mg_title m) (mg_body m) = mg_entity_id m)"

lemma import_merged_run:
  assumes S: "import_ready (rc_env R) s" and m: "mints_ids (rc_env R)" and k: "self_keyed (rc_env R) n" "mg_entity_id n \<notin> entities s"
    and run: "import_merged R (n, emb) ids s = (t, Inr ids')"
  shows "import_ready (rc_env R) t \<and> grows s t \<and> contents t = insert (merged_facts n) (contents s)"
proof -
  from run obtain v i created where a: "add_note_with_created_at (rc_env R) (rc_now R) (rc_random R n) (mg_kind n) (mg_title n)
      (mg_body n) (mg_tags n) (mg_linked_files n) (Some ''reconcile:server.db'')
      (if mg_status n = ''archived'' then ''archived'' else ''active'') (mg_created_at n) s = (v, Inr (i, created))"
    and e: "(case emb of None \<Rightarrow> ok () | Some blob \<Rightarrow> insert_embedding i blob) v = (t, Inr ())"
    by (auto simp: import_merged_def bind_eq_Inr)
  note A = add_created_run [OF _ uuid_v7_nonempty [OF m] a]
  have wf: "wf_store s" using S by (simp add: import_ready_def)
  have new: "mg_entity_id n \<notin> row_entity_id ` set (note_rows s)" using k(2) by (simp add: entities_def)
  have v: "wf_store v" "grows s v" "contents v = insert (merged_facts n) (contents s)"
    using A [OF wf] k new unfolding self_keyed_def
    by (simp_all add: contents_def entities_def row_facts_def new_row_def merged_facts_def)
  have "keeps same_contents (case emb of None \<Rightarrow> ok () | Some blob \<Rightarrow> insert_embedding i blob)"
    "wf_op (case emb of None \<Rightarrow> ok () | Some blob \<Rightarrow> insert_embedding i blob)"
    "grow_op (case emb of None \<Rightarrow> ok () | Some blob \<Rightarrow> insert_embedding i blob)"
    by (cases emb; auto intro!: content_kept.keeps_intros same_contents_rules wf_intros)+
  then have t: "contents t = contents v" "wf_store t" "grows v t"
    using keeps_result [where R = same_contents] keeps_carriesD [where P = wf_store] keeps_result [where R = grows] e v(1) by metis+
  have "content_keyed (rc_env R) t"
    using S k v t unfolding content_keyed_contents import_ready_def by (auto simp: merged_facts_def self_keyed_def)
  then show ?thesis using v t growth.R_trans [OF v(2) t(3)] by (simp add: import_ready_def)
qed

lemma import_all_merged:
  assumes m: "mints_ids (rc_env R)"
  shows "import_ready (rc_env R) s \<Longrightarrow> fold_each (import_merged R) ps ids s = (t, Inr ids') \<Longrightarrow>
    list_all (self_keyed (rc_env R)) (map fst ps) \<Longrightarrow> distinct (map mg_entity_id (map fst ps)) \<Longrightarrow>
    mg_entity_id ` set (map fst ps) \<inter> entities s = {} \<Longrightarrow>
    import_ready (rc_env R) t \<and> grows s t \<and> contents t = contents s \<union> merged_facts ` set (map fst ps)"
proof (induction ps arbitrary: s ids)
  case Nil
  then show ?case by (simp add: growth.R_refl)
next
  case (Cons p ps)
  obtain n emb where p: "p = (n, emb)" by fastforce
  from Cons.prems(2) obtain v a where v: "import_merged R (n, emb) ids s = (v, Inr a)" and rest: "fold_each (import_merged R) ps a v = (t, Inr ids')"
    by (auto simp: bind_eq_Inr p)
  have n: "self_keyed (rc_env R) n" "mg_entity_id n \<notin> entities s" using Cons.prems(3,5) p by auto
  note A = import_merged_run [OF Cons.prems(1) m n v]
  have "mg_entity_id ` set (map fst ps) \<inter> entities v = {}"
  proof -
    have "entities v = insert (mg_entity_id n) (entities s)" using A by (simp add: entities_contents merged_facts_def)
    then show ?thesis using Cons.prems(4,5) p by auto
  qed
  from Cons.IH [OF conjunct1 [OF A] rest _ _ this] Cons.prems(3,4) A p show ?case
    by (auto intro: growth.R_trans)
qed

lemma import_ready_same: "import_ready E s \<Longrightarrow> wf_store t \<Longrightarrow> contents t = contents s \<Longrightarrow> import_ready E t \<and> entities t = entities s"
  by (simp add: import_ready_def content_keyed_contents entities_contents)

lemma held_entities:
  assumes "import_ready E s" "all_notes_for_dedup s = Inr stored"
  shows "entity_to_local E stored e = None \<longleftrightarrow> e \<notin> entities s"
proof -
  have "note_entity_id_of E ` set stored = entities s" using stored_entities [OF assms(1)] assms(2) by auto
  then show ?thesis unfolding entity_to_local_def map_of_eq_None_iff by (simp add: image_image)
qed

lemma new_notes_spec:
  fixes cs :: "server_candidate list"
  assumes "import_ready E s" "all_notes_for_dedup s = Inr stored"
  defines "new \<equiv> new_notes E (entity_to_local E stored) cs"
  shows "list_all (self_keyed E) new" "distinct (map mg_entity_id new)"
    "mg_entity_id ` set new = candidate_entity E ` set cs - entities s" "list_all (merged_of E cs) new"
proof -
  let ?ms = "collapse_candidates E cs"
  have C: "distinct (map mg_entity_id ?ms)" "mg_entity_id ` set ?ms = candidate_entity E ` set cs" "list_all (merged_of E cs) ?ms"
    using collapse_candidates_spec by blast+
  have set: "set new = {m \<in> set ?ms. mg_entity_id m \<notin> entities s}"
    by (simp add: new_def new_notes_def held_entities [OF assms(1,2)])
  show "list_all (merged_of E cs) new" "list_all (self_keyed E) new"
    using C(3) by (auto simp: list_all_iff set merged_of_def self_keyed_def)
  show "mg_entity_id ` set new = candidate_entity E ` set cs - entities s" unfolding set C(2) [symmetric] by auto
  have "inj_on mg_entity_id (set ?ms)" "distinct ?ms" using C(1) by (simp_all add: distinct_map)
  then show "distinct (map mg_entity_id new)"
    unfolding distinct_map using inj_on_subset [of mg_entity_id "set ?ms" "set new"] by (simp add: set) (simp add: new_def new_notes_def)
qed

lemma nothing_new_imported:
  assumes "import_ready E t" "E = rc_env R" "candidate_entity E ` set cs \<subseteq> entities t"
  shows "rs_imported (fst (snd (reconcile_candidates R opens dry_run cs t))) = 0"
proof (cases "cs = [] \<or> \<not> opens")
  case True
  then show ?thesis by (auto simp: reconcile_candidates_def Let_def empty_summary_def)
next
  case False
  obtain stored where st: "all_notes_for_dedup t = Inr stored" using stored_entities [OF assms(1)] by blast
  have "mg_entity_id ` set (new_notes E (entity_to_local E stored) cs) = {}"
    using new_notes_spec(3) [OF assms(1) st, of cs] assms(3) by auto
  then have "new_notes E (entity_to_local E stored) cs = []" by simp
  then show ?thesis using False st assms(2) by (auto simp: reconcile_candidates_def Let_def empty_summary_def)
qed


section \<open>An example\<close>

definition demo_reconcile :: reconcile_env where
  "demo_reconcile = \<lparr>rc_env = demo_env, rc_now = 9, rc_random = (\<lambda>n. mg_title n), rc_embed = (\<lambda>t. Some ''v'')\<rparr>"

definition demo_candidate :: "nat \<Rightarrow> string \<Rightarrow> int \<Rightarrow> string \<Rightarrow> nat option \<Rightarrow> server_candidate" where
  "demo_candidate i title at st succ = \<lparr>sc_id = i, sc_kind = ''note'', sc_title = title, sc_body = ''b'', sc_tags = [''x''],
     sc_linked_files = [], sc_created_at = at, sc_status = st, sc_superseded_by = succ\<rparr>"

text \<open>Two rows of one content, one of them archived in favour of a third.\<close>

definition demo_candidates :: "server_candidate list" where
  "demo_candidates = [demo_candidate 1 ''old'' 3 ''archived'' (Some 3), demo_candidate 2 ''old'' 5 ''active'' None,
     demo_candidate 3 ''new'' 7 ''active'' None]"

lemma demo_reconciled: "snd (reconcile_candidates demo_reconcile True False demo_candidates (empty_store ''/r'')) =
   (\<lparr>rs_candidates = 3, rs_already_present = 0, rs_collapsed_duplicates = 1, rs_imported = 2, rs_would_import = 0,
     rs_imported_without_embedding = 0, rs_unresolved = 0, rs_errors = []\<rparr>, Inr ())"
  by code_simp

lemma reconcile_counts_partition_witness:
  "length demo_candidates = 0 + 1 + 2"
proof -
  obtain t where "reconcile_candidates demo_reconcile True False demo_candidates (empty_store ''/r'') = (t,
    \<lparr>rs_candidates = 3, rs_already_present = 0, rs_collapsed_duplicates = 1, rs_imported = 2, rs_would_import = 0,
      rs_imported_without_embedding = 0, rs_unresolved = 0, rs_errors = []\<rparr>, Inr ())"
    using demo_reconciled by (metis prod.collapse)
  from reconcile_counts_partition [OF this] show ?thesis by simp
qed


end
