(* ===== verification/Anchors.thy ===== *)
theory Anchors
  imports Notes_Carrier Sync
begin

text \<open>
  Anchoring entries to commits (\<open>memory/anchor.rs\<close>): a commit claims the entries written on its
  parent, an entry is anchored at once on request, and after history was rewritten the entries of a
  commit that is gone follow the commit with the same patch. The commands of git these use
  (\<open>storage/git_notes/mod.rs\<close>: \<open>is_ancestor\<close>, \<open>commit_patch_id\<close>, \<open>commits_reachable_from_any_ref\<close>) are
  parameters beside those of the carrier. A state is the local store and the world of git.
\<close>

record 'g anchor_env =
  ae_carrier :: carrier_env
  ae_git :: "'g git"
  ae_root :: string
  rev_parse_verify :: "string \<Rightarrow> 'g \<Rightarrow> 'g \<times> string option"      \<comment> \<open>\<open>rev-parse --verify\<close>\<close>
  merge_base_is_ancestor :: "string \<Rightarrow> string \<Rightarrow> 'g \<Rightarrow> 'g \<times> bool"
  rev_list_all :: "'g \<Rightarrow> 'g \<times> string option"                    \<comment> \<open>\<open>rev-list --branches --tags --remotes HEAD\<close>\<close>
  rev_list_parents :: "string \<Rightarrow> 'g \<Rightarrow> 'g \<times> string option"      \<comment> \<open>\<open>rev-list --parents -1\<close>\<close>
  show_patch :: "string \<Rightarrow> 'g \<Rightarrow> 'g \<times> string option"            \<comment> \<open>\<open>show --no-color -p\<close>\<close>
  patch_id_stable :: "string \<Rightarrow> 'g \<Rightarrow> 'g \<times> string option"       \<comment> \<open>\<open>patch-id --stable\<close> of a diff\<close>
  worktree_git_dir :: "string option"
  ae_opens :: bool                                              \<comment> \<open>the store exists and opens\<close>
  ae_now :: int

type_synonym 'g anchoring = "memory_store \<times> 'g"

section \<open>Asking git\<close>

definition rev_parse :: "'g anchor_env \<Rightarrow> string \<Rightarrow> 'g \<Rightarrow> 'g \<times> string option" where
  "rev_parse A revision g = (case rev_parse_verify A revision g of (g', out) \<Rightarrow>
     (g', case out of None \<Rightarrow> None | Some t \<Rightarrow> if trim t = [] then None else Some (trim t)))"

text \<open>The revision that names the commit the last amend or reset replaced: entry 1 of the log of \<open>HEAD\<close>.\<close>

definition PREVIOUS_HEAD :: string where
  "PREVIOUS_HEAD = ''HEAD@'' @ ''{1}''"

definition resolve_target_commit :: "'g anchor_env \<Rightarrow> string \<Rightarrow> 'g \<Rightarrow> 'g \<times> string option" where
  "resolve_target_commit A commit_ref = rev_parse A (commit_ref @ ''^{commit}'')"

definition is_ancestor :: "'g anchor_env \<Rightarrow> string \<Rightarrow> string \<Rightarrow> 'g \<Rightarrow> 'g \<times> bool" where
  "is_ancestor A ancestor descendant = merge_base_is_ancestor A ancestor descendant"

text \<open>A hash set, in the order of its elements; here of the listing.\<close>

definition commits_reachable_from_any_ref :: "'g anchor_env \<Rightarrow> 'g \<Rightarrow> 'g \<times> string list" where
  "commits_reachable_from_any_ref A g = (case rev_list_all A g of
     (g', Some out) \<Rightarrow> (g', first_occs (map trim (str_lines out))) | (g', None) \<Rightarrow> (g', []))"

definition commit_patch_id :: "'g anchor_env \<Rightarrow> string \<Rightarrow> ('g, string option) carrying" where
  "commit_patch_id A sha = bind (run_git (rev_list_parents A sha) ''rev-list'') (\<lambda>parents.
     if length (split_whitespace parents) - 1 > 1 then ok None
     else bind (run_git (show_patch A sha) ''show'') (\<lambda>diff.
       bind (run_git (patch_id_stable A diff) ''patch-id'') (\<lambda>out.
       ok (case split_whitespace out of [] \<Rightarrow> None | p # _ \<Rightarrow> Some p))))"

text \<open>\<open>commit_patch_id(..).ok().flatten()\<close>.\<close>

definition patch_id_if_any :: "'g anchor_env \<Rightarrow> string \<Rightarrow> 'g \<Rightarrow> 'g \<times> string option" where
  "patch_id_if_any A sha g = (case commit_patch_id A sha g of (g', Inl _) \<Rightarrow> (g', None) | (g', Inr p) \<Rightarrow> (g', p))"

section \<open>Anchoring an entry\<close>

fun reachable_anchors :: "'g anchor_env \<Rightarrow> (string \<times> int) list \<Rightarrow> 'g \<Rightarrow> 'g \<times> (string \<times> bool) list" where
  "reachable_anchors A [] g = (g, [])"
| "reachable_anchors A ((commit, _) # anchors) g = (case is_ancestor A commit ''HEAD'' g of (g1, b) \<Rightarrow>
     (case reachable_anchors A anchors g1 of (g2, m) \<Rightarrow> (g2, m @ [(commit, b)])))"

definition settle_anchor :: "mem_note \<Rightarrow> string option \<Rightarrow> memory_store \<Rightarrow> memory_store" where
  "settle_anchor note resolved s = fst (remove_pending_anchor (note_entity_id note)
     (case resolved of None \<Rightarrow> s | Some c \<Rightarrow> fst (set_source_ref (Note_Record.note_id note) c s)))"

definition anchor_note_now :: "'g anchor_env \<Rightarrow> mem_note \<Rightarrow> string \<Rightarrow> 'g anchoring \<Rightarrow> 'g anchoring" where
  "anchor_note_now A note target = (\<lambda>(s, g). case patch_id_if_any A target g of (g1, patch) \<Rightarrow>
     (case append_anchor_record (ae_carrier A) (ae_git A) (Some (ae_root A)) target note patch g1 of
       (g2, Inl _) \<Rightarrow> (s, g2)
     | (g2, Inr _) \<Rightarrow> (case carrier_anchors_for_entity (ae_carrier A) (ae_git A) (note_entity_id note) g2 of
         (g3, Inl _) \<Rightarrow> (s, g3)
       | (g3, Inr anchors) \<Rightarrow> (case reachable_anchors A anchors g3 of (g4, m) \<Rightarrow>
           (settle_anchor note (resolve_source_ref anchors (\<lambda>c. map_of m c = Some True)) s, g4)))))"

section \<open>Claiming what is pending\<close>

definition claims :: "'g anchor_env \<Rightarrow> string option \<Rightarrow> string option \<Rightarrow> pending_anchor \<Rightarrow> 'g \<Rightarrow> 'g \<times> bool" where
  "claims A first_parent amend_replaced row g =
     (case (case first_parent of None \<Rightarrow> (g, False) | Some fp \<Rightarrow> is_ancestor A (anchor_head_at_write row) fp g) of
        (g', True) \<Rightarrow> (g', True)
      | (g', False) \<Rightarrow> (g', amend_replaced = Some (anchor_head_at_write row)))"

definition claim_row ::
    "'g anchor_env \<Rightarrow> string option \<Rightarrow> string option \<Rightarrow> string \<Rightarrow> pending_anchor \<Rightarrow> 'g anchoring \<Rightarrow> 'g anchoring" where
  "claim_row A first_parent amend_replaced target row = (\<lambda>(s, g).
     case claims A first_parent amend_replaced row g of
       (g', False) \<Rightarrow> (s, g')
     | (g', True) \<Rightarrow> (case get_by_entity_id s (anchor_entity_id row) of
         Inr (Some note) \<Rightarrow> anchor_note_now A note target (s, g') | _ \<Rightarrow> (s, g')))"

definition claim_pending :: "'g anchor_env \<Rightarrow> string \<Rightarrow> 'g anchoring \<Rightarrow> 'g anchoring" where
  "claim_pending A target = (\<lambda>(s, g). case worktree_git_dir A of None \<Rightarrow> (s, g)
     | Some w \<Rightarrow> (let pending = pending_anchors_in_worktree s w in
         if pending = [] then (s, g)
         else (case rev_parse A (target @ ''~1'') g of (g1, first_parent) \<Rightarrow>
           (case rev_parse A PREVIOUS_HEAD g1 of (g2, amend_replaced) \<Rightarrow>
             fold (claim_row A first_parent amend_replaced target) pending (s, g2)))))"

definition resolve_note :: "memory_store \<Rightarrow> string \<Rightarrow> mem_note option" where
  "resolve_note s token = (case get s token of Inr (Some note) \<Rightarrow> Some note
     | _ \<Rightarrow> if \<not> is_entity_id_lookup token then None
         else (case note_ids_for_entity_id_prefix s token of
             Inr [i] \<Rightarrow> (case get s i of Inr (Some note) \<Rightarrow> Some note | _ \<Rightarrow> None)
           | _ \<Rightarrow> None))"

definition anchor_token :: "'g anchor_env \<Rightarrow> string \<Rightarrow> string \<Rightarrow> 'g anchoring \<Rightarrow> 'g anchoring" where
  "anchor_token A target token = (\<lambda>(s, g). case resolve_note s token of None \<Rightarrow> (s, g)
     | Some note \<Rightarrow> anchor_note_now A note target (s, g))"

definition memory_anchor :: "'g anchor_env \<Rightarrow> string list \<Rightarrow> string \<Rightarrow> 'g anchoring \<Rightarrow> 'g anchoring" where
  "memory_anchor A ids commit = (\<lambda>(s, g). if \<not> ae_opens A then (s, g)
     else (case resolve_target_commit A commit g of
         (g', None) \<Rightarrow> (s, g')
       | (g', Some target) \<Rightarrow> if ids = [] then claim_pending A target (s, g')
           else fold (anchor_token A target) ids (s, g')))"

datatype anchor_error = Anchor_Store_Unavailable | Anchor_Read store_error | Entry_Vanished note_id | Unresolved_Commit string
  | Noted_Records carrier_error

definition anchor_now :: "'g anchor_env \<Rightarrow> string \<Rightarrow> note_id \<Rightarrow> 'g anchoring \<Rightarrow> 'g anchoring \<times> (anchor_error + unit)" where
  "anchor_now A target i = (\<lambda>(s, g). if \<not> ae_opens A then ((s, g), Inl Anchor_Store_Unavailable)
     else (case get s i of
         Inl e \<Rightarrow> ((s, g), Inl (Anchor_Read e))
       | Inr None \<Rightarrow> ((s, g), Inl (Entry_Vanished i))
       | Inr (Some note) \<Rightarrow> (case resolve_target_commit A target g of
           (g', None) \<Rightarrow> ((s, g'), Inl (Unresolved_Commit target))
         | (g', Some sha) \<Rightarrow> (anchor_note_now A note sha (s, g'), Inr ()))))"

definition record_pending :: "'g anchor_env \<Rightarrow> string \<Rightarrow> 'g anchoring \<Rightarrow> 'g anchoring \<times> (anchor_error + unit)" where
  "record_pending A eid = (\<lambda>(s, g). case worktree_git_dir A of None \<Rightarrow> ((s, g), Inr ())
     | Some w \<Rightarrow> (case rev_parse A ''HEAD'' g of
         (g', None) \<Rightarrow> ((s, g'), Inr ())
       | (g', Some head) \<Rightarrow> if \<not> ae_opens A then ((s, g'), Inl Anchor_Store_Unavailable)
           else ((fst (record_pending_anchor (ae_now A) eid w head s), g'), Inr ())))"

section \<open>After history was rewritten\<close>

definition patch_id_of :: "'g anchor_env \<Rightarrow> string \<Rightarrow> 'g anchoring \<Rightarrow> 'g anchoring \<times> string option" where
  "patch_id_of A sha = (\<lambda>(s, g). case cached_patch_id s sha of
     Some cached \<Rightarrow> ((s, g), cached)
   | None \<Rightarrow> (case patch_id_if_any A sha g of (g', computed) \<Rightarrow> ((fst (cache_patch_id sha computed s), g'), computed)))"

fun match_loop :: "'g anchor_env \<Rightarrow> string \<Rightarrow> string list \<Rightarrow> string option \<Rightarrow> 'g anchoring \<Rightarrow> 'g anchoring \<times> string option" where
  "match_loop A patch [] found st = (st, found)"
| "match_loop A patch (c # cs) found st = (case patch_id_of A c st of (st', p) \<Rightarrow>
     if p = Some patch then (if found \<noteq> None then (st', None) else match_loop A patch cs (Some c) st')
     else match_loop A patch cs found st')"

definition find_unique_match :: "'g anchor_env \<Rightarrow> string \<Rightarrow> string list \<Rightarrow> 'g anchoring \<Rightarrow> 'g anchoring \<times> string option" where
  "find_unique_match A patch reachable = match_loop A patch reachable None"

definition reconcile_orphan :: "'g anchor_env \<Rightarrow> string list \<Rightarrow> string \<times> note_record \<Rightarrow> 'g anchoring \<Rightarrow> 'g anchoring" where
  "reconcile_orphan A reachable = (\<lambda>(commit, r) st.
     if commit \<in> set reachable \<or> rec_op r \<noteq> Some ''anchor'' then st
     else (case rec_patch_id r of None \<Rightarrow> st
       | Some patch \<Rightarrow> (case find_unique_match A patch reachable st of
           (st', None) \<Rightarrow> st'
         | ((s, g), Some replacement) \<Rightarrow>
             (case get_by_entity_id s (resolve_entity_id (ce_env (ae_carrier A)) r) of
               Inr (Some note) \<Rightarrow> anchor_note_now A note replacement (s, g) | _ \<Rightarrow> (s, g)))))"

definition reconcile_orphaned_anchors :: "'g anchor_env \<Rightarrow> string list \<Rightarrow> 'g anchoring \<Rightarrow> 'g anchoring \<times> (anchor_error + unit)" where
  "reconcile_orphaned_anchors A reachable = (\<lambda>(s, g). case all_noted_records (ae_carrier A) (ae_git A) g of
     (g', Inl e) \<Rightarrow> ((s, g'), Inl (Noted_Records e))
   | (g', Inr records) \<Rightarrow> (fold (reconcile_orphan A reachable) records (s, g'), Inr ()))"

definition reconcile_pending_row :: "'g anchor_env \<Rightarrow> string list \<Rightarrow> pending_anchor \<Rightarrow> 'g anchoring \<Rightarrow> 'g anchoring" where
  "reconcile_pending_row A reachable row st =
     (if anchor_head_at_write row \<in> set reachable then st
      else (case patch_id_of A (anchor_head_at_write row) st of
          (st', None) \<Rightarrow> st'
        | (st', Some patch) \<Rightarrow> (case find_unique_match A patch reachable st' of
            (st'', None) \<Rightarrow> st''
          | ((s, g), Some replacement) \<Rightarrow>
              (fst (reassign_pending_anchor_head (anchor_entity_id row) replacement s), g))))"

definition reconcile_pending_rows :: "'g anchor_env \<Rightarrow> string list \<Rightarrow> 'g anchoring \<Rightarrow> 'g anchoring" where
  "reconcile_pending_rows A reachable = (\<lambda>(s, g). fold (reconcile_pending_row A reachable) (all_pending_anchors s) (s, g))"

definition reconcile_anchors :: "'g anchor_env \<Rightarrow> bool \<Rightarrow> 'g anchoring \<Rightarrow> 'g anchoring \<times> (anchor_error + unit)" where
  "reconcile_anchors A mem_exists = (\<lambda>(s, g). if \<not> mem_exists then ((s, g), Inr ())
     else if \<not> ae_opens A then ((s, g), Inl Anchor_Store_Unavailable)
     else (case commits_reachable_from_any_ref A g of (g1, reachable) \<Rightarrow>
       (case reconcile_orphaned_anchors A reachable (s, g1) of
         (st, Inl e) \<Rightarrow> (st, Inl e) | (st, Inr _) \<Rightarrow> (reconcile_pending_rows A reachable st, Inr ()))))"

section \<open>What anchoring changes\<close>

text \<open>The store without what anchoring writes, and the change it makes for the entities of \<open>F\<close>.\<close>

definition unanchored :: "memory_store \<Rightarrow> memory_store" where
  "unanchored s = s\<lparr>note_rows := map (\<lambda>r. r\<lparr>row_source_ref := None\<rparr>) (note_rows s),
     pending_anchors := [], patch_id_cache := []\<rparr>"

definition same_row_for :: "string set \<Rightarrow> notes_row \<Rightarrow> notes_row \<Rightarrow> bool" where
  "same_row_for F r q = (row_entity_id q = row_entity_id r \<and>
     (row_source_ref q = row_source_ref r \<or> row_entity_id r \<in> F))"

definition anchored_for :: "string set \<Rightarrow> memory_store \<Rightarrow> memory_store \<Rightarrow> bool" where
  "anchored_for F s t = (unanchored t = unanchored s \<and> list_all2 (same_row_for F) (note_rows s) (note_rows t) \<and>
     (\<exists>K \<subseteq> F. pending_anchors t = filter (\<lambda>p. anchor_entity_id p \<notin> K) (pending_anchors s)))"

lemma anchored_for_refl: "anchored_for F s s"
  unfolding anchored_for_def by (auto simp: same_row_for_def intro!: list_all2_refl exI [of _ "{}"])

lemma anchored_for_trans:
  assumes "anchored_for F s t" "anchored_for F' t u"
  shows "anchored_for (F \<union> F') s u"
proof -
  obtain K K' where K: "K \<subseteq> F" "pending_anchors t = filter (\<lambda>p. anchor_entity_id p \<notin> K) (pending_anchors s)"
    "K' \<subseteq> F'" "pending_anchors u = filter (\<lambda>p. anchor_entity_id p \<notin> K') (pending_anchors t)"
    using assms unfolding anchored_for_def by auto
  have "pending_anchors u = filter (\<lambda>p. anchor_entity_id p \<notin> K \<union> K') (pending_anchors s)"
    unfolding K(4) K(2) filter_filter by (rule filter_cong) auto
  moreover have "list_all2 (same_row_for (F \<union> F')) (note_rows s) (note_rows u)"
  proof (rule list_all2_trans)
    show "list_all2 (same_row_for F) (note_rows s) (note_rows t)" "list_all2 (same_row_for F') (note_rows t) (note_rows u)"
      using assms by (simp_all add: anchored_for_def)
  qed (auto simp: same_row_for_def)
  moreover have "K \<union> K' \<subseteq> F \<union> F'" using K(1,3) by blast
  moreover have "unanchored u = unanchored s" using assms by (simp add: anchored_for_def)
  ultimately show ?thesis unfolding anchored_for_def by blast
qed

lemma set_source_ref_run: "fst (set_source_ref i c s) =
    s\<lparr>note_rows := map (\<lambda>r. if row_uuid r = i then r\<lparr>row_source_ref := Some c\<rparr> else r) (note_rows s)\<rparr>"
  by (simp add: set_source_ref_def bind_def sql_update_local)

lemma entity_row:
  assumes "wf_store s" "get_by_entity_id s e = Inr (Some note)"
  obtains r where "r \<in> set (note_rows s)" "row_entity_id r = e" "note = view_row s r"
proof -
  have "list_by_entity_ids s [e] 1 True None = Inr (map (view_row s) (newest_first 1
      (filter (\<lambda>r. row_entity_id r \<in> set [e] \<and> status_clause True None r \<and> opt_clause valid_as_of None r) (note_rows s))))"
    unfolding list_by_entity_ids_def
    by (simp only: list.distinct if_False) (rule notes_of_rows_wf [OF assms(1)], auto simp: newest_first_def dest!: in_set_takeD)
  then have "note \<in> view_row s ` set (newest_first 1
      (filter (\<lambda>r. row_entity_id r \<in> set [e] \<and> status_clause True None r \<and> opt_clause valid_as_of None r) (note_rows s)))"
    using assms(2) by (auto simp: get_by_entity_id_def split: list.splits)
  then show thesis using that by (auto simp: newest_first_def dest!: in_set_takeD)
qed

lemma settle_anchor_wf: "wf_store s \<Longrightarrow> wf_store (settle_anchor note c s)"
proof -
  assume s: "wf_store s"
  have "wf_op (set_source_ref i d)" "wf_op (remove_pending_anchor e)" for i d e by (intro wf_intros)+
  then show ?thesis using s unfolding settle_anchor_def keeps_def carries_def by (auto split: option.split)
qed

lemma settle_anchor_changes:
  assumes "wf_store s" "r \<in> set (note_rows s)" "note = view_row s r"
  shows "anchored_for {row_entity_id r} s (settle_anchor note c s)"
proof -
  have same: "q = r" if "q \<in> set (note_rows s)" "row_uuid q = row_uuid r" for q
  proof -
    have "distinct (map row_uuid (note_rows s))" using assms(1) by (simp add: wf_store_def wf_keys_def note_uuids_def)
    then show ?thesis using that assms(2) by (auto simp: distinct_map inj_on_def)
  qed
  have ids: "Note_Record.note_id note = row_uuid r" "note_entity_id note = row_entity_id r" by (simp_all add: assms(3) view_row_def)
  show ?thesis
  proof (cases c)
    case None
    then show ?thesis unfolding anchored_for_def settle_anchor_def ids
      by (auto simp: unanchored_def remove_pending_anchor_def same_row_for_def intro!: list_all2_refl exI [of _ "{row_entity_id r}"])
  next
    case (Some d)
    let ?f = "\<lambda>q. if row_uuid q = row_uuid r then q\<lparr>row_source_ref := Some d\<rparr> else q"
    have "list_all2 (same_row_for {row_entity_id r}) (note_rows s) (map ?f (note_rows s))"
      using same by (auto simp: list_all2_conv_all_nth same_row_for_def dest!: nth_mem)
    moreover have "map (\<lambda>q. q\<lparr>row_source_ref := None\<rparr>) (map ?f (note_rows s)) = map (\<lambda>q. q\<lparr>row_source_ref := None\<rparr>) (note_rows s)"
      by simp
    ultimately show ?thesis unfolding anchored_for_def settle_anchor_def ids Some
      by (auto simp: unanchored_def remove_pending_anchor_def set_source_ref_run comp_def intro!: exI [of _ "{row_entity_id r}"])
  qed
qed

lemma anchor_note_now_changes:
  assumes "wf_store s" "get_by_entity_id s e = Inr (Some note)" "anchor_note_now A note target (s, g) = (t, h)"
  shows "wf_store t \<and> anchored_for {e} s t"
proof -
  obtain r where r: "r \<in> set (note_rows s)" "row_entity_id r = e" "note = view_row s r"
    using entity_row [OF assms(1,2)] .
  have "t = s \<or> (\<exists>c. t = settle_anchor note c s)"
    using assms(3) by (auto simp: anchor_note_now_def split: prod.splits sum.splits)
  then show ?thesis using assms(1) anchored_for_refl settle_anchor_wf settle_anchor_changes [OF assms(1) r(1,3)] r(2)
    by auto
qed

section \<open>Claims follow the history\<close>

text \<open>
  What git documents as long as the history of the code is not rewritten: the ancestry of two
  commits and the commit a revision names do not change.
\<close>

definition history_fixed :: "'g anchor_env \<Rightarrow> (string \<Rightarrow> string \<Rightarrow> bool) \<Rightarrow> (string \<Rightarrow> string option) \<Rightarrow> bool" where
  "history_fixed A ancestor revisions =
     ((\<forall>a d g. snd (merge_base_is_ancestor A a d g) = ancestor a d) \<and> (\<forall>r g. snd (rev_parse A r g) = revisions r))"

text \<open>A pending row may be claimed by a commit whose first parent descends from it, or that replaced it.\<close>

definition claimable :: "(string \<Rightarrow> string \<Rightarrow> bool) \<Rightarrow> (string \<Rightarrow> string option) \<Rightarrow> string \<Rightarrow> pending_anchor \<Rightarrow> bool" where
  "claimable ancestor revisions target p =
     ((case revisions (target @ ''~1'') of None \<Rightarrow> False | Some fp \<Rightarrow> ancestor (anchor_head_at_write p) fp) \<or>
      revisions PREVIOUS_HEAD = Some (anchor_head_at_write p))"

lemma claims_claimable:
  assumes "history_fixed A ancestor revisions"
  shows "snd (claims A (revisions (target @ ''~1'')) (revisions PREVIOUS_HEAD) p g) = claimable ancestor revisions target p"
  using assms unfolding history_fixed_def claims_def is_ancestor_def claimable_def
  by (cases "revisions (target @ ''~1'')") (auto split: prod.split bool.split, (metis snd_conv)+)

lemma claim_rows:
  assumes "history_fixed A ancestor revisions" "wf_store s"
    and "fold (claim_row A (revisions (target @ ''~1'')) (revisions PREVIOUS_HEAD) target) ps (s, g) = (t, h)"
  shows "wf_store t \<and> anchored_for (anchor_entity_id ` {p \<in> set ps. claimable ancestor revisions target p}) s t"
  using assms(2,3)
proof (induction ps arbitrary: s g)
  case Nil
  then show ?case by (simp add: anchored_for_refl)
next
  case (Cons p ps)
  let ?claim = "claim_row A (revisions (target @ ''~1'')) (revisions PREVIOUS_HEAD) target"
  let ?F = "if claimable ancestor revisions target p then {anchor_entity_id p} else {}"
  obtain u k where u: "?claim p (s, g) = (u, k)" by fastforce
  obtain b g' where b: "claims A (revisions (target @ ''~1'')) (revisions PREVIOUS_HEAD) p g = (g', b)" by fastforce
  then have "b = claimable ancestor revisions target p"
    using claims_claimable [OF assms(1), of target p g] by simp
  then have "u = s \<or> claimable ancestor revisions target p \<and> (\<exists>note.
      get_by_entity_id s (anchor_entity_id p) = Inr (Some note) \<and> anchor_note_now A note target (s, g') = (u, k))"
    using u b by (auto simp: claim_row_def split: bool.splits sum.splits option.splits)
  then have step: "wf_store u \<and> anchored_for ?F s u"
  proof
    assume "u = s"
    then show ?thesis using Cons.prems(1) anchored_for_refl by blast
  next
    assume "claimable ancestor revisions target p \<and> (\<exists>note.
      get_by_entity_id s (anchor_entity_id p) = Inr (Some note) \<and> anchor_note_now A note target (s, g') = (u, k))"
    then show ?thesis using anchor_note_now_changes [OF Cons.prems(1)] by (metis (full_types))
  qed
  then have "wf_store t \<and> anchored_for (anchor_entity_id ` {p \<in> set ps. claimable ancestor revisions target p}) u t"
    using Cons.prems(2) u by (intro Cons.IH [of u k]) simp_all
  then have "wf_store t \<and> anchored_for (?F \<union> anchor_entity_id ` {p \<in> set ps. claimable ancestor revisions target p}) s t"
    using step anchored_for_trans by blast
  moreover have "?F \<union> anchor_entity_id ` {p \<in> set ps. claimable ancestor revisions target p} =
      anchor_entity_id ` {q \<in> set (p # ps). claimable ancestor revisions target q}" by auto
  ultimately show ?case by simp
qed

text \<open>
  C5. A commit claims only what was written on it. When the hook of a commit claims the pending
  entries, every row that leaves the table was written in this worktree on an ancestor of the
  commit's first parent, or on the commit an amend replaced; no other row leaves it, only entries of
  such rows get a source reference, and nothing else of the store changes.
\<close>

theorem claims_follow_history:
  assumes "history_fixed A ancestor revisions" "wf_store s" "claim_pending A target (s, g) = (t, h)"
  shows "wf_store t \<and> unanchored t = unanchored s \<and> set (pending_anchors t) \<subseteq> set (pending_anchors s) \<and>
    list_all (\<lambda>p. p \<in> set (pending_anchors t) \<or>
      worktree_git_dir A = Some (anchor_worktree p) \<and> claimable ancestor revisions target p) (pending_anchors s) \<and>
    list_all2 (\<lambda>r q. row_source_ref q = row_source_ref r \<or>
      list_ex (\<lambda>p. anchor_entity_id p = row_entity_id r \<and> worktree_git_dir A = Some (anchor_worktree p) \<and>
        claimable ancestor revisions target p) (pending_anchors s)) (note_rows s) (note_rows t)"
proof -
  define F where "F = {p \<in> set (pending_anchors s). worktree_git_dir A = Some (anchor_worktree p) \<and> claimable ancestor revisions target p}"
  have "wf_store t \<and> anchored_for (anchor_entity_id ` F) s t"
  proof (cases "\<exists>w. worktree_git_dir A = Some w \<and> pending_anchors_in_worktree s w \<noteq> []")
    case False
    then have "t = s" using assms(3) by (auto simp: claim_pending_def Let_def split: option.splits)
    then show ?thesis using assms(2) anchored_for_refl by simp
  next
    case True
    then obtain w where w: "worktree_git_dir A = Some w" "pending_anchors_in_worktree s w \<noteq> []" by blast
    obtain g1 fp where fp: "rev_parse A (target @ ''~1'') g = (g1, fp)" by fastforce
    obtain g2 am where am: "rev_parse A PREVIOUS_HEAD g1 = (g2, am)" by fastforce
    have "fp = revisions (target @ ''~1'')" "am = revisions PREVIOUS_HEAD"
      using assms(1) fp am unfolding history_fixed_def by (metis snd_conv)+
    then have "fold (claim_row A (revisions (target @ ''~1'')) (revisions PREVIOUS_HEAD) target)
        (pending_anchors_in_worktree s w) (s, g2) = (t, h)"
      using assms(3) w fp am by (simp add: claim_pending_def)
    from claim_rows [OF assms(1,2) this]
    have "wf_store t \<and> anchored_for (anchor_entity_id ` {p \<in> set (pending_anchors_in_worktree s w). claimable ancestor revisions target p}) s t" .
    moreover have "{p \<in> set (pending_anchors_in_worktree s w). claimable ancestor revisions target p} = F"
      using w by (auto simp: F_def pending_anchors_in_worktree_def)
    ultimately show ?thesis by simp
  qed
  then obtain K where wf: "wf_store t" and same: "unanchored t = unanchored s"
    and rows: "list_all2 (same_row_for (anchor_entity_id ` F)) (note_rows s) (note_rows t)"
    and K: "K \<subseteq> anchor_entity_id ` F" "pending_anchors t = filter (\<lambda>p. anchor_entity_id p \<notin> K) (pending_anchors s)"
    unfolding anchored_for_def by blast
  have unique: "inj_on anchor_entity_id (set (pending_anchors s))"
    using assms(2) by (simp add: wf_store_def wf_local_def distinct_map)
  have "p \<in> F" if p: "p \<in> set (pending_anchors s)" "p \<notin> set (pending_anchors t)" for p
  proof -
    have "anchor_entity_id p \<in> anchor_entity_id ` F" using p K by auto
    then obtain q where q: "q \<in> F" "anchor_entity_id q = anchor_entity_id p" by auto
    then have "q = p" using unique p(1) by (auto simp: F_def inj_on_def)
    then show ?thesis using q(1) by simp
  qed
  then have "list_all (\<lambda>p. p \<in> set (pending_anchors t) \<or>
      worktree_git_dir A = Some (anchor_worktree p) \<and> claimable ancestor revisions target p) (pending_anchors s)"
    by (auto simp: list_all_iff F_def)
  moreover have "list_all2 (\<lambda>r q. row_source_ref q = row_source_ref r \<or>
      list_ex (\<lambda>p. anchor_entity_id p = row_entity_id r \<and> worktree_git_dir A = Some (anchor_worktree p) \<and>
        claimable ancestor revisions target p) (pending_anchors s)) (note_rows s) (note_rows t)"
    using rows by (rule list_all2_mono) (auto simp: same_row_for_def F_def list_ex_iff)
  ultimately show ?thesis using wf same K(2) by auto
qed

section \<open>Entries follow their patch\<close>

definition patches_fixed :: "'g anchor_env \<Rightarrow> (string \<Rightarrow> string option) \<Rightarrow> bool" where
  "patches_fixed A patch_of = (\<forall>c g. snd (patch_id_if_any A c g) = patch_of c)"

definition cache_sound :: "(string \<Rightarrow> string option) \<Rightarrow> memory_store \<Rightarrow> bool" where
  "cache_sound patch_of s = (\<forall>(c, p) \<in> set (patch_id_cache s). p = patch_of c)"

definition same_but_cache :: "memory_store \<Rightarrow> memory_store \<Rightarrow> bool" where
  "same_but_cache s t = (t\<lparr>patch_id_cache := []\<rparr> = s\<lparr>patch_id_cache := []\<rparr>)"

lemma same_but_cache_trans: "same_but_cache s t \<Longrightarrow> same_but_cache t u \<Longrightarrow> same_but_cache s u"
  by (simp add: same_but_cache_def)

lemma same_but_cache_pending: "same_but_cache s t \<Longrightarrow> pending_anchors t = pending_anchors s"
  unfolding same_but_cache_def by (drule arg_cong [where f = pending_anchors]) simp

lemma same_but_cache_rows: "same_but_cache s t \<Longrightarrow> note_rows t = note_rows s"
  unfolding same_but_cache_def by (drule arg_cong [where f = note_rows]) simp

lemma patch_id_of_run:
  assumes "patches_fixed A patch_of" "cache_sound patch_of s" "patch_id_of A c (s, g) = ((t, h), p)"
  shows "p = patch_of c \<and> cache_sound patch_of t \<and> same_but_cache s t"
proof (cases "cached_patch_id s c")
  case (Some q)
  then have "t = s" "p = q" using assms(3) by (simp_all add: patch_id_of_def)
  moreover have "(c, q) \<in> set (patch_id_cache s)" using Some
    by (clarsimp simp: cached_patch_id_def find_Some_iff) (metis nth_mem fst_conv)
  ultimately show ?thesis using assms(2) by (auto simp: cache_sound_def same_but_cache_def)
next
  case None
  obtain g' q where q: "patch_id_if_any A c g = (g', q)" by fastforce
  then have "q = patch_of c" using assms(1) unfolding patches_fixed_def by (metis snd_conv)
  then show ?thesis using assms(2,3) None q
    by (auto simp: patch_id_of_def cache_patch_id_def cache_sound_def same_but_cache_def)
qed

text \<open>The commit of a list that alone carries a patch.\<close>

definition only_carrier :: "(string \<Rightarrow> string option) \<Rightarrow> string \<Rightarrow> string list \<Rightarrow> string option" where
  "only_carrier patch_of patch cs = (case filter (\<lambda>c. patch_of c = Some patch) cs of [c] \<Rightarrow> Some c | _ \<Rightarrow> None)"

lemma match_loop_run:
  assumes "patches_fixed A patch_of"
  shows "cache_sound patch_of s \<Longrightarrow> match_loop A patch cs found (s, g) = ((t, h), r) \<Longrightarrow>
    cache_sound patch_of t \<and> same_but_cache s t \<and>
    r = (case (case found of None \<Rightarrow> [] | Some f \<Rightarrow> [f]) @ filter (\<lambda>c. patch_of c = Some patch) cs of [c] \<Rightarrow> Some c | _ \<Rightarrow> None)"
proof (induction cs arbitrary: found s g)
  case Nil
  then show ?case by (auto simp: same_but_cache_def split: option.split)
next
  case (Cons c cs)
  obtain u k p where u: "patch_id_of A c (s, g) = ((u, k), p)" by (metis surj_pair)
  note P = patch_id_of_run [OF assms Cons.prems(1) u]
  consider (none) "p \<noteq> Some patch" | (first) "p = Some patch" "found = None" | (second) f where "p = Some patch" "found = Some f"
    by (cases found) auto
  then show ?case
  proof cases
    case none
    then have "match_loop A patch cs found (u, k) = ((t, h), r)" using Cons.prems(2) u by simp
    with Cons.IH [of u found k] P none show ?thesis using same_but_cache_trans by auto
  next
    case first
    then have "match_loop A patch cs (Some c) (u, k) = ((t, h), r)" using Cons.prems(2) u by simp
    with Cons.IH [of u "Some c" k] P first show ?thesis using same_but_cache_trans by auto
  next
    case second
    then show ?thesis using Cons.prems(2) u P by auto
  qed
qed

lemma find_unique_match_run:
  assumes "patches_fixed A patch_of" "cache_sound patch_of s" "find_unique_match A patch cs (s, g) = ((t, h), r)"
  shows "cache_sound patch_of t \<and> same_but_cache s t \<and> r = only_carrier patch_of patch cs"
  using match_loop_run [OF assms(1,2) assms(3) [unfolded find_unique_match_def]] by (simp add: only_carrier_def)

text \<open>Only the set of the commits matters, not the order a hash set gives them in.\<close>

lemma only_carrier_order:
  assumes "mset cs = mset ds"
  shows "only_carrier patch_of patch cs = only_carrier patch_of patch ds"
proof -
  have one: "(case xs of [c] \<Rightarrow> Some c | _ \<Rightarrow> None) = (case ys of [c] \<Rightarrow> Some c | _ \<Rightarrow> None)"
    if "mset xs = mset ys" for xs ys :: "string list"
  proof (cases "length xs = 1")
    case True
    then obtain a where "xs = [a]" by (metis One_nat_def length_0_conv length_Suc_conv)
    then show ?thesis using that by simp
  next
    case False
    moreover from this have "length ys \<noteq> 1" using that mset_eq_length by metis
    ultimately show ?thesis by (auto split: list.split)
  qed
  have "mset (filter (\<lambda>c. patch_of c = Some patch) cs) = mset (filter (\<lambda>c. patch_of c = Some patch) ds)" using assms by simp
  then show ?thesis unfolding only_carrier_def by (rule one)
qed

text \<open>Where a pending row moves to.\<close>

definition followed :: "(string \<Rightarrow> string option) \<Rightarrow> string list \<Rightarrow> pending_anchor \<Rightarrow> pending_anchor" where
  "followed patch_of reachable p = (if anchor_head_at_write p \<in> set reachable then p
     else (case patch_of (anchor_head_at_write p) of None \<Rightarrow> p
       | Some patch \<Rightarrow> (case only_carrier patch_of patch reachable of None \<Rightarrow> p
         | Some c \<Rightarrow> p\<lparr>anchor_head_at_write := c\<rparr>)))"

lemma followed_entity [simp]: "anchor_entity_id (followed patch_of reachable p) = anchor_entity_id p"
  by (simp add: followed_def split: option.split)

lemma reconcile_row_run:
  assumes "patches_fixed A patch_of" "cache_sound patch_of s" "reconcile_pending_row A reachable p (s, g) = (t, h)"
    and "p \<in> set (pending_anchors s)" "distinct (map anchor_entity_id (pending_anchors s))"
  shows "cache_sound patch_of t \<and> note_rows t = note_rows s \<and>
    pending_anchors t = map (\<lambda>q. if q = p then followed patch_of reachable q else q) (pending_anchors s)"
proof -
  have same: "q = p" if "q \<in> set (pending_anchors s)" "anchor_entity_id q = anchor_entity_id p" for q
    using that assms(4,5) by (auto simp: distinct_map inj_on_def)
  have keep: "note_rows u = note_rows s \<and> pending_anchors u = pending_anchors s" if "same_but_cache s u" for u
    using same_but_cache_pending [OF that] same_but_cache_rows [OF that] by simp
  have idle: "map (\<lambda>q. if q = p then followed patch_of reachable q else q) (pending_anchors s) = pending_anchors s"
    if "followed patch_of reachable p = p" using that by (intro map_idI) simp
  show ?thesis
  proof (cases "anchor_head_at_write p \<in> set reachable")
    case True
    then have "followed patch_of reachable p = p" "t = s" using assms(3) by (simp_all add: followed_def reconcile_pending_row_def)
    then show ?thesis using idle assms(2) by simp
  next
    case False
    obtain u k x where u: "patch_id_of A (anchor_head_at_write p) (s, g) = ((u, k), x)" by (metis surj_pair)
    note U = patch_id_of_run [OF assms(1,2) u]
    show ?thesis
    proof (cases x)
      case None
      then have "t = u" using assms(3) False u by (simp add: reconcile_pending_row_def)
      moreover have "followed patch_of reachable p = p" using False U None by (simp add: followed_def)
      ultimately show ?thesis using U keep idle by simp
    next
      case (Some patch)
      obtain v l r where v: "find_unique_match A patch reachable (u, k) = ((v, l), r)" by (metis surj_pair)
      have patch: "patch_of (anchor_head_at_write p) = Some patch" using U Some by simp
      have "cache_sound patch_of u" using U by blast
      note V = find_unique_match_run [OF assms(1) this v]
      have kv: "note_rows v = note_rows s \<and> pending_anchors v = pending_anchors s"
        using U V same_but_cache_trans keep by blast
      show ?thesis
      proof (cases r)
        case None
        then have "t = v" using assms(3) False u v Some by (simp add: reconcile_pending_row_def)
        moreover have "followed patch_of reachable p = p" using False V None patch by (simp add: followed_def)
        ultimately show ?thesis using V kv idle by simp
      next
        case (Some c)
        then have "t = fst (reassign_pending_anchor_head (anchor_entity_id p) c v)"
          using assms(3) False u v \<open>x = Some patch\<close> by (simp add: reconcile_pending_row_def)
        moreover have "followed patch_of reachable p = p\<lparr>anchor_head_at_write := c\<rparr>"
          using False V Some patch by (metis followed_def option.simps(5))
        ultimately show ?thesis using V kv same
          by (auto simp: reassign_pending_anchor_head_def cache_sound_def)
      qed
    qed
  qed
qed

lemma reconcile_rows_run:
  assumes "patches_fixed A patch_of"
  shows "cache_sound patch_of s \<Longrightarrow> fold (reconcile_pending_row A reachable) ps (s, g) = (t, h) \<Longrightarrow>
    set ps \<subseteq> set (pending_anchors s) \<Longrightarrow> distinct (map anchor_entity_id ps) \<Longrightarrow>
    distinct (map anchor_entity_id (pending_anchors s)) \<Longrightarrow>
    cache_sound patch_of t \<and> note_rows t = note_rows s \<and>
    pending_anchors t = map (\<lambda>q. if q \<in> set ps then followed patch_of reachable q else q) (pending_anchors s)"
proof (induction ps arbitrary: s g)
  case (Cons p ps)
  obtain u k where u: "reconcile_pending_row A reachable p (s, g) = (u, k)" by fastforce
  have p: "p \<in> set (pending_anchors s)" using Cons.prems(3) by simp
  note U = reconcile_row_run [OF assms Cons.prems(1) u p Cons.prems(5)]
  have ids: "map anchor_entity_id (pending_anchors u) = map anchor_entity_id (pending_anchors s)"
    using U by (simp add: comp_def if_distrib cong: if_cong)
  have ne: "followed patch_of reachable p \<notin> set ps \<and> p \<notin> set ps"
    using Cons.prems(4) by (auto simp: image_iff)
  have sub: "set ps \<subseteq> set (pending_anchors u)"
  proof
    fix q assume q: "q \<in> set ps"
    then have "q \<noteq> p" using ne by blast
    then show "q \<in> set (pending_anchors u)" using q Cons.prems(3) U by force
  qed
  have "cache_sound patch_of t \<and> note_rows t = note_rows u \<and>
      pending_anchors t = map (\<lambda>q. if q \<in> set ps then followed patch_of reachable q else q) (pending_anchors u)"
  proof (rule Cons.IH)
    show "fold (reconcile_pending_row A reachable) ps (u, k) = (t, h)" using Cons.prems(2) u by simp
    show "distinct (map anchor_entity_id (pending_anchors u))" unfolding ids by (rule Cons.prems(5))
  qed (use U sub Cons.prems(4) in simp_all)
  moreover have "map (\<lambda>q. if q \<in> set ps then followed patch_of reachable q else q) (pending_anchors u) =
      map (\<lambda>q. if q \<in> set (p # ps) then followed patch_of reachable q else q) (pending_anchors s)"
    using U ne by auto
  ultimately show ?case using U by simp
qed simp

text \<open>
  C6. Pending entries follow their patch. After history was rewritten, every pending entry stays
  pending, in its place; a row whose commit is no longer reachable moves to the one reachable commit
  with the same patch, and stays where it was if there is none or more than one; a row whose commit
  is reachable, and every entry of the store, is left alone.
\<close>

theorem pending_entries_follow_their_patch:
  assumes "patches_fixed A patch_of" "cache_sound patch_of s" "wf_store s"
    and "reconcile_pending_rows A reachable (s, g) = (t, h)"
  shows "pending_anchors t = map (followed patch_of reachable) (pending_anchors s) \<and> note_rows t = note_rows s \<and> cache_sound patch_of t"
proof -
  have "distinct (map anchor_entity_id (pending_anchors s))" using assms(3) by (simp add: wf_store_def wf_local_def)
  from reconcile_rows_run [OF assms(1,2) _ _ this this, of reachable g t h] assms(4) show ?thesis
    by (simp add: reconcile_pending_rows_def all_pending_anchors_def cong: map_cong)
qed

text \<open>A patch id that could not be computed once is taken for none ever after.\<close>

lemma failed_patch_id_is_kept:
  assumes "cached_patch_id s c = None" "patch_id_of A c (s, g) = ((t, h), None)"
  shows "patch_id_of A c (t, k) = ((t, k), None)"
proof -
  have "t = fst (cache_patch_id c None s)"
    using assms by (auto simp: patch_id_of_def split: prod.splits)
  moreover have "find (\<lambda>p. fst p = c) (filter (\<lambda>p. fst p \<noteq> c) ps @ [(c, None)]) = Some (c, None)" for ps :: "(string \<times> string option) list"
    by (induction ps) auto
  ultimately have "find (\<lambda>p. fst p = c) (patch_id_cache t) = Some (c, None)" by (simp add: cache_patch_id_def)
  then show ?thesis by (simp add: patch_id_of_def cached_patch_id_def)
qed

section \<open>An example\<close>

text \<open>
  A repository whose notes are a list; the listing of the notes fails. The commit \<open>c2\<close> follows
  \<open>c1\<close>; the commit \<open>c0\<close> was rewritten into \<open>c1\<close>, which has the same patch.
\<close>

definition demo_notes_git :: "(string \<times> string) list git" where
  "demo_notes_git = \<lparr>git_rewrite_refs = \<lambda>g. (g, Some ''refs/notes/*''), git_add_rewrite_ref = \<lambda>g. (g, True),
     git_head = \<lambda>g. (g, Some ''c2''),
     git_show = \<lambda>c g. (g, case map_of g c of None \<Rightarrow> No_Note | Some b \<Rightarrow> Shown b),
     git_notes_add = \<lambda>c b g. ((c, b) # g, True), git_notes_list = \<lambda>g. (g, None), git_log = \<lambda>g. (g, None),
     git_cat_file = \<lambda>q g. (g, None), git_merge = \<lambda>g. (g, True), git_verify_ref = \<lambda>g. (g, True),
     git_remote_url = \<lambda>r g. (g, False), git_fetch = \<lambda>r g. (g, False), git_push = \<lambda>r g. (g, None),
     common_dir_absolute = \<lambda>g. (g, Some ''/r/.git''), common_dir_relative = \<lambda>g. (g, None), canonicalize = \<lambda>d. None,
     open_lock_file = \<lambda>p g. (g, None), try_lock_file = \<lambda>g. (g, Locked), unlock_file = \<lambda>g. g,
     instant = \<lambda>g. (g, 0), sleep_for = \<lambda>d g. g\<rparr>"

definition demo_patch_of :: "string \<Rightarrow> string option" where
  "demo_patch_of c = (if c = ''c0'' \<or> c = ''c1'' then Some ''p'' else if c = ''c2'' then Some ''q'' else None)"

definition demo_anchors :: "(string \<times> string) list anchor_env" where
  "demo_anchors = \<lparr>ae_carrier = \<lparr>ce_env = demo_env, json_object = \<lambda>l. True, object_record = \<lambda>l. None,
       record_json = rec_body, ce_millis = 1, ce_secs = 1\<rparr>,
     ae_git = demo_notes_git, ae_root = ''/r'',
     rev_parse_verify = \<lambda>r g. (g, if r = ''c2~1'' then Some ''c1'' else None),
     merge_base_is_ancestor = \<lambda>a d g. (g, a = d), rev_list_all = \<lambda>g. (g, Some (''c2'' @ CHR 0x0A # ''c1'')),
     rev_list_parents = \<lambda>c g. (g, Some c), show_patch = \<lambda>c g. (g, Some c),
     patch_id_stable = \<lambda>d g. (g, demo_patch_of d), worktree_git_dir = Some ''/r/.git'', ae_opens = True, ae_now = 5\<rparr>"

definition demo_pending :: memory_store where
  "demo_pending = two_notes\<lparr>pending_anchors :=
     [\<lparr>anchor_entity_id = ''e1'', anchor_worktree = ''/r/.git'', anchor_head_at_write = ''c1'', anchor_created_at = 1\<rparr>,
      \<lparr>anchor_entity_id = ''e2'', anchor_worktree = ''/r/.git'', anchor_head_at_write = ''c0'', anchor_created_at = 2\<rparr>]\<rparr>"

lemma wf_demo_pending: "wf_store demo_pending"
  by code_simp

theorem claims_follow_history_witness:
  "map anchor_entity_id (pending_anchors (fst (claim_pending demo_anchors ''c2'' (demo_pending, [])))) = [''e2''] \<and>
   unanchored (fst (claim_pending demo_anchors ''c2'' (demo_pending, []))) = unanchored demo_pending"
proof -
  have "history_fixed demo_anchors (\<lambda>a d. a = d) (\<lambda>r. if r = ''c2~1'' then Some ''c1'' else None)"
    by (simp add: history_fixed_def rev_parse_def demo_anchors_def trim_def trim_start_def trim_end_def is_ws_def)
  from claims_follow_history [OF this wf_demo_pending surjective_pairing]
  have "unanchored (fst (claim_pending demo_anchors ''c2'' (demo_pending, []))) = unanchored demo_pending" by blast
  moreover have "map anchor_entity_id (pending_anchors (fst (claim_pending demo_anchors ''c2'' (demo_pending, [])))) = [''e2'']"
    by code_simp
  ultimately show ?thesis by simp
qed

theorem pending_entries_follow_their_patch_witness:
  "map anchor_head_at_write (pending_anchors (fst (reconcile_pending_rows demo_anchors [''c2'', ''c1''] (demo_pending, [])))) =
   [''c1'', ''c1'']"
proof -
  have "patches_fixed demo_anchors demo_patch_of"
    by (auto simp: patches_fixed_def patch_id_if_any_def commit_patch_id_def bind_def run_git_def demo_anchors_def demo_patch_of_def
      is_ws_def)
  moreover have "cache_sound demo_patch_of demo_pending" by (simp add: cache_sound_def demo_pending_def two_notes_def empty_store_def)
  ultimately have "pending_anchors (fst (reconcile_pending_rows demo_anchors [''c2'', ''c1''] (demo_pending, []))) =
      map (followed demo_patch_of [''c2'', ''c1'']) (pending_anchors demo_pending)"
    by (rule conjunct1 [OF pending_entries_follow_their_patch [OF _ _ wf_demo_pending surjective_pairing]])
  moreover have "map anchor_head_at_write (map (followed demo_patch_of [''c2'', ''c1'']) (pending_anchors demo_pending)) = [''c1'', ''c1'']"
    by code_simp
  ultimately show ?thesis by simp
qed

end
