(* ===== verification/Memory_Search.thy ===== *)
theory Memory_Search
  imports Complex_Main Edges
begin

text \<open>
  Searching the local store and the candidates a new entry is compared with before it is written
  (\<open>storage/memory/search.rs\<close>). The nearest neighbours of a vector and the full-text matches with
  their scores come from SQLite and are parameters. A finite double is a rational number; a
  distance that is none (infinity, or not a number) is \<open>None\<close>. The scores of a fused ranking are
  exact where the code rounds each of them to a double, which keeps their order. The distance and
  the score of a hit stand beside its note.
\<close>

section \<open>Candidates\<close>

text \<open>The doubles nearest to 1.2032 and 0.15.\<close>

definition MEMORY_MAX_QA_DISTANCE :: rat where
  "MEMORY_MAX_QA_DISTANCE = 5418731071652181 / 4503599627370496"

definition MEMORY_DUPLICATE_DISTANCE :: rat where
  "MEMORY_DUPLICATE_DISTANCE = 5404319552844595 / 36028797018963968"

definition MAX_CANDIDATES_PER_BAND :: nat where "MAX_CANDIDATES_PER_BAND = 5"

definition CANDIDATE_POOL :: nat where "CANDIDATE_POOL = 20"

datatype candidate_band = Duplicate | Related

record candidate_hit =
  hit_id :: string
  hit_kind :: string
  hit_title :: string
  hit_created_at :: int
  hit_distance :: "rat option"

record candidate =
  cand_id :: string
  cand_kind :: string
  cand_title :: string
  cand_created_at :: int
  cand_distance :: "rat option"
  cand_band :: candidate_band

definition candidate_of :: "candidate_hit \<Rightarrow> rat option \<Rightarrow> candidate_band \<Rightarrow> candidate" where
  "candidate_of h d b = \<lparr>cand_id = hit_id h, cand_kind = hit_kind h, cand_title = hit_title h,
     cand_created_at = hit_created_at h, cand_distance = d, cand_band = b\<rparr>"

definition band_of :: "rat option \<Rightarrow> candidate_band option" where
  "band_of d = (case d of None \<Rightarrow> None
     | Some x \<Rightarrow> if x < MEMORY_DUPLICATE_DISTANCE then Some Duplicate
         else if x < MEMORY_MAX_QA_DISTANCE then Some Related else None)"

text \<open>\<open>by_id.entry(id).or_insert(c)\<close>; the map is a list without a repeated id.\<close>

definition or_insert :: "candidate \<Rightarrow> candidate list \<Rightarrow> candidate list" where
  "or_insert c by_id = (if cand_id c \<in> set (map cand_id by_id) then by_id else by_id @ [c])"

definition insert_vector_hit :: "string option \<Rightarrow> candidate_hit \<Rightarrow> candidate list \<Rightarrow> candidate list" where
  "insert_vector_hit exclude h by_id =
     (if exclude = Some (hit_id h) then by_id
      else case band_of (hit_distance h) of None \<Rightarrow> by_id
        | Some b \<Rightarrow> or_insert (candidate_of h (hit_distance h) b) by_id)"

definition insert_fts_hit :: "string option \<Rightarrow> candidate_hit \<Rightarrow> candidate list \<Rightarrow> candidate list" where
  "insert_fts_hit exclude h by_id =
     (if exclude = Some (hit_id h) then by_id else or_insert (candidate_of h None Related) by_id)"

text \<open>The comparison: by distance and then by id, what has no distance last.\<close>

definition cand_key :: "candidate \<Rightarrow> nat \<times> rat \<times> string" where
  "cand_key c = (case cand_distance c of Some d \<Rightarrow> (0, d, cand_id c) | None \<Rightarrow> (1, 0, cand_id c))"

definition top_of_band :: "candidate_band \<Rightarrow> candidate list \<Rightarrow> candidate list" where
  "top_of_band b cs = take MAX_CANDIDATES_PER_BAND (sort_key cand_key (filter (\<lambda>c. cand_band c = b) cs))"

definition classify_candidates ::
    "candidate_hit list \<Rightarrow> candidate_hit list \<Rightarrow> string option \<Rightarrow> candidate list" where
  "classify_candidates vector_hits fts_hits exclude =
     (let by_id = fold (insert_fts_hit exclude) fts_hits (fold (insert_vector_hit exclude) vector_hits []) in
      top_of_band Duplicate by_id @ top_of_band Related by_id)"

section \<open>Searching\<close>

text \<open>
  The \<open>k\<close> nearest row ids of a vector with their distances, nearest first; the row ids whose title,
  or whose title, body or tags, match a query, with their BM25 scores.
\<close>

record search_index =
  knn :: "memory_store \<Rightarrow> string \<Rightarrow> nat \<Rightarrow> (nat \<times> rat) list"
  title_matches :: "memory_store \<Rightarrow> string \<Rightarrow> (nat \<times> rat) list"
  text_matches :: "memory_store \<Rightarrow> string \<Rightarrow> (nat \<times> rat) list"

definition fts5_quote_literal :: "string \<Rightarrow> string" where
  "fts5_quote_literal term = CHR 0x22 # concat (map (\<lambda>c. if c = CHR 0x22 then [c, c] else [c])
     (filter (\<lambda>c. c \<noteq> CHR 0x00) term)) @ [CHR 0x22]"

text \<open>\<open>JOIN notes\<close> on the row id.\<close>

definition join_rows :: "memory_store \<Rightarrow> (nat \<times> rat) list \<Rightarrow> (notes_row \<times> rat) list" where
  "join_rows s hits = List.map_filter (\<lambda>(k, d). map_option (\<lambda>r. (r, d)) (select_one (\<lambda>r. row_id r = k) s)) hits"

definition live_clause :: "int option \<Rightarrow> notes_row \<Rightarrow> bool" where
  "live_clause as_of r = (case as_of of None \<Rightarrow> row_status r = ''active'' | Some ts \<Rightarrow> valid_as_of ts r)"

definition score_order :: "notes_row \<times> rat \<Rightarrow> rat \<times> string" where
  "score_order = (\<lambda>(r, d). (d, row_uuid r))"

definition hits_of :: "memory_store \<Rightarrow> (notes_row \<times> rat) list \<Rightarrow> store_error + (mem_note \<times> rat) list" where
  "hits_of s rs = and_then (notes_of_rows s (map fst rs)) (\<lambda>ns. Inr (zip ns (map snd rs)))"

definition search_rows :: "search_index \<Rightarrow> memory_store \<Rightarrow> string \<Rightarrow> nat \<Rightarrow> int option \<Rightarrow> (notes_row \<times> rat) list" where
  "search_rows X s query_blob limit as_of = sort_key score_order
     (filter (\<lambda>(r, d). live_clause as_of r) (join_rows s (knn X s query_blob (min limit 100))))"

definition search_near ::
    "search_index \<Rightarrow> memory_store \<Rightarrow> string \<Rightarrow> nat \<Rightarrow> int option \<Rightarrow> store_error + (mem_note \<times> rat) list" where
  "search_near X s query_blob limit as_of = hits_of s (search_rows X s query_blob limit as_of)"

definition search_title_fts :: "search_index \<Rightarrow> memory_store \<Rightarrow> string \<Rightarrow> nat \<Rightarrow> store_error + mem_note list" where
  "search_title_fts X s title limit = notes_of_rows s (map fst (take (min limit 1000) (sort_key score_order
     (filter (\<lambda>(r, d). row_status r = ''active'') (join_rows s (title_matches X s (fts5_quote_literal title)))))))"

definition search_text ::
    "search_index \<Rightarrow> memory_store \<Rightarrow> string \<Rightarrow> nat \<Rightarrow> int option \<Rightarrow> store_error + (mem_note \<times> rat) list" where
  "search_text X s query_text limit as_of = and_then (hits_of s (take (min limit 1000) (sort_key score_order
     (filter (\<lambda>(r, d). live_clause as_of r) (join_rows s (text_matches X s (fts5_quote_literal query_text)))))))
     (\<lambda>hs. Inr (map (\<lambda>(n, d). (n, - d)) hs))"

definition search_timeline :: "search_index \<Rightarrow> memory_store \<Rightarrow> string \<Rightarrow> nat \<Rightarrow> store_error + mem_note list" where
  "search_timeline X s query_text limit = notes_of_rows s
     (sort_key (\<lambda>r. (case row_valid_at r of None \<Rightarrow> row_created_at r | Some v \<Rightarrow> v, row_uuid r))
       (map fst (take (min limit 200) (sort_key score_order
         (join_rows s (text_matches X s (fts5_quote_literal query_text)))))))"

text \<open>Reciprocal ranks, summed per id; a hit of the hybrid search has its distance and its score.\<close>

definition RRF_K :: rat where "RRF_K = 60"

definition reciprocal_rank :: "nat \<Rightarrow> rat" where
  "reciprocal_rank rank = 1 / (RRF_K + of_nat (rank + 1))"

definition fuse_step :: "nat \<times> mem_note \<Rightarrow> (mem_note \<times> rat) list \<Rightarrow> (mem_note \<times> rat) list" where
  "fuse_step = (\<lambda>(rank, n) scores.
     if note_id n \<in> set (map (\<lambda>(m, _). note_id m) scores)
     then map (\<lambda>(m, x). if note_id m = note_id n then (m, x + reciprocal_rank rank) else (m, x)) scores
     else scores @ [(n, reciprocal_rank rank)])"

definition fused :: "mem_note list \<Rightarrow> (mem_note \<times> rat) list" where
  "fused ns = fold fuse_step (enumerate 0 ns) []"

definition search_hybrid ::
    "search_index \<Rightarrow> memory_store \<Rightarrow> string \<Rightarrow> nat \<Rightarrow> int option \<Rightarrow> bool \<Rightarrow> store_error + (mem_note \<times> rat \<times> rat) list" where
  "search_hybrid X s query_blob limit as_of gate =
     and_then (search_near X s query_blob (max (limit * 3) 20) as_of) (\<lambda>hs.
     let admitted = (if gate then filter (\<lambda>(n, d). d \<le> MEMORY_MAX_QA_DISTANCE) hs else hs);
         ranked = sort_key (\<lambda>(n, x). (- x, note_id n)) (fused (map fst admitted)) in
     Inr (map (\<lambda>(n, x). (n, 1 / x, x)) (take limit ranked)))"

section \<open>The pool of a new entry\<close>

definition to_hit :: "mem_note \<Rightarrow> rat option \<Rightarrow> candidate_hit" where
  "to_hit n d = \<lparr>hit_id = note_id n, hit_kind = note_kind n, hit_title = note_title n,
     hit_created_at = note_created_at n, hit_distance = d\<rparr>"

definition find_candidates ::
    "search_index \<Rightarrow> memory_store \<Rightarrow> string option \<Rightarrow> string \<Rightarrow> note_id option \<Rightarrow> store_error + candidate list" where
  "find_candidates X s embedding title exclude =
     and_then (case embedding of None \<Rightarrow> Inr [] | Some blob \<Rightarrow> search_near X s blob CANDIDATE_POOL None) (\<lambda>near.
     and_then (search_title_fts X s title CANDIDATE_POOL) (\<lambda>titled.
     Inr (classify_candidates (map (\<lambda>(n, d). to_hit n (Some d)) near) (map (\<lambda>n. to_hit n None) titled) exclude)))"

section \<open>Sorting\<close>

lemma insort_key_append:
  "(\<And>y. y \<in> set ys \<Longrightarrow> f x \<le> f y) \<Longrightarrow> insort_key f x (xs @ ys) = insort_key f x xs @ ys"
  by (induction xs) (cases ys, auto)

lemma sort_key_append:
  "(\<And>x y. x \<in> set xs \<Longrightarrow> y \<in> set ys \<Longrightarrow> f x \<le> f y) \<Longrightarrow> sort_key f (xs @ ys) = sort_key f xs @ sort_key f ys"
proof (induction xs)
  case (Cons x xs)
  then have "sort_key f (xs @ ys) = sort_key f xs @ sort_key f ys" by simp
  then show ?case using Cons.prems insort_key_append [of "sort_key f ys" f x "sort_key f xs"] by simp
qed simp

lemma insort_key_order_cong:
  "(\<And>y. y \<in> set xs \<Longrightarrow> (f x \<le> f y) = (g x \<le> g y)) \<Longrightarrow> insort_key f x xs = insort_key g x xs"
  by (induction xs) auto

lemma sort_key_order_cong:
  "(\<And>x y. x \<in> set xs \<Longrightarrow> y \<in> set xs \<Longrightarrow> (f x \<le> f y) = (g x \<le> g y)) \<Longrightarrow> sort_key f xs = sort_key g xs"
proof (induction xs)
  case (Cons x xs)
  then have "sort_key f xs = sort_key g xs" by simp
  moreover have "insort_key f x (sort_key g xs) = insort_key g x (sort_key g xs)"
    using Cons.prems by (intro insort_key_order_cong) simp
  ultimately show ?case by simp
qed simp

text \<open>With keys that differ, the order in which a hash map gives its values does not matter.\<close>

lemma sort_key_mset:
  assumes "mset xs = mset ys" "distinct (map f xs)"
  shows "sort_key f xs = sort_key f ys"
proof (rule sort_key_inj_key_eq)
  show "mset xs = mset (sort_key f ys)" using assms(1) by simp
qed (use assms(2) in \<open>simp_all add: distinct_map\<close>)

section \<open>What classifying does\<close>

definition vector_candidate :: "string option \<Rightarrow> candidate_hit \<Rightarrow> candidate option" where
  "vector_candidate exclude h = (if exclude = Some (hit_id h) then None
     else map_option (candidate_of h (hit_distance h)) (band_of (hit_distance h)))"

lemma insert_vector_hits:
  assumes "distinct (map hit_id hs)" "set (map hit_id hs) \<inter> set (map cand_id acc) = {}"
  shows "fold (insert_vector_hit exclude) hs acc = acc @ List.map_filter (vector_candidate exclude) hs"
  using assms
proof (induction hs arbitrary: acc)
  case (Cons h hs)
  let ?acc = "insert_vector_hit exclude h acc"
  have step: "?acc = acc @ List.map_filter (vector_candidate exclude) [h]"
    using Cons.prems by (auto simp: insert_vector_hit_def vector_candidate_def or_insert_def
      candidate_of_def List.map_filter_simps split: option.splits)
  have "set (map cand_id ?acc) \<subseteq> insert (hit_id h) (set (map cand_id acc))"
    unfolding step by (auto simp: vector_candidate_def candidate_of_def List.map_filter_simps split: option.splits)
  moreover have "set (map hit_id hs) \<inter> insert (hit_id h) (set (map cand_id acc)) = {}"
    using Cons.prems by (auto simp: image_iff)
  ultimately have "set (map hit_id hs) \<inter> set (map cand_id ?acc) = {}" by blast
  then have "fold (insert_vector_hit exclude) hs ?acc = ?acc @ List.map_filter (vector_candidate exclude) hs"
    using Cons.prems(1) by (intro Cons.IH) simp_all
  then show ?case by (simp add: step List.map_filter_simps split: option.split)
qed (simp add: List.map_filter_simps)

lemma insert_fts_hits:
  assumes "distinct (map hit_id hs)"
  shows "fold (insert_fts_hit exclude) hs acc = acc @ map (\<lambda>h. candidate_of h None Related)
    (filter (\<lambda>h. exclude \<noteq> Some (hit_id h) \<and> hit_id h \<notin> set (map cand_id acc)) hs)"
  using assms
proof (induction hs arbitrary: acc)
  case (Cons h hs)
  let ?acc = "insert_fts_hit exclude h acc"
  have "fold (insert_fts_hit exclude) hs ?acc = ?acc @ map (\<lambda>h. candidate_of h None Related)
      (filter (\<lambda>h. exclude \<noteq> Some (hit_id h) \<and> hit_id h \<notin> set (map cand_id ?acc)) hs)"
    using Cons.prems by (intro Cons.IH) simp
  moreover have "(hit_id k \<notin> set (map cand_id ?acc)) = (hit_id k \<notin> set (map cand_id acc))" if "k \<in> set hs" for k
  proof -
    have "hit_id k \<noteq> hit_id h" using that Cons.prems by (auto simp: image_iff)
    then show ?thesis by (auto simp: insert_fts_hit_def or_insert_def candidate_of_def)
  qed
  then have "filter (\<lambda>k. exclude \<noteq> Some (hit_id k) \<and> hit_id k \<notin> set (map cand_id ?acc)) hs =
      filter (\<lambda>k. exclude \<noteq> Some (hit_id k) \<and> hit_id k \<notin> set (map cand_id acc)) hs"
    by (intro filter_cong) auto
  moreover have "?acc = (if exclude \<noteq> Some (hit_id h) \<and> hit_id h \<notin> set (map cand_id acc)
      then acc @ [candidate_of h None Related] else acc)"
    by (simp add: insert_fts_hit_def or_insert_def candidate_of_def)
  ultimately show ?case by (simp split: if_splits)
qed simp

definition hit_key :: "candidate_hit \<Rightarrow> rat \<times> string" where
  "hit_key h = (the (hit_distance h), hit_id h)"

definition near_hits :: "candidate_band \<Rightarrow> string option \<Rightarrow> candidate_hit list \<Rightarrow> candidate_hit list" where
  "near_hits b exclude hs = sort_key hit_key
     (filter (\<lambda>h. exclude \<noteq> Some (hit_id h) \<and> band_of (hit_distance h) = Some b) hs)"

definition lexical_hits :: "string option \<Rightarrow> candidate_hit list \<Rightarrow> candidate_hit list \<Rightarrow> candidate_hit list" where
  "lexical_hits exclude vs fs = sort_key hit_id (filter (\<lambda>h. exclude \<noteq> Some (hit_id h) \<and>
     \<not> list_ex (\<lambda>v. hit_id v = hit_id h \<and> band_of (hit_distance v) \<noteq> None) vs) fs)"

lemma vector_candidates_of_band:
  "filter (\<lambda>c. cand_band c = b) (List.map_filter (vector_candidate exclude) hs) =
   map (\<lambda>h. candidate_of h (hit_distance h) b)
     (filter (\<lambda>h. exclude \<noteq> Some (hit_id h) \<and> band_of (hit_distance h) = Some b) hs)"
  by (induction hs) (auto simp: List.map_filter_simps vector_candidate_def candidate_of_def split: option.splits)

lemma band_distance: "band_of d = Some b \<Longrightarrow> d \<noteq> None"
  by (cases d) (simp_all add: band_of_def)

lemma sort_vector_candidates:
  "sort_key cand_key (map (\<lambda>h. candidate_of h (hit_distance h) b)
     (filter (\<lambda>h. exclude \<noteq> Some (hit_id h) \<and> band_of (hit_distance h) = Some b) hs)) =
   map (\<lambda>h. candidate_of h (hit_distance h) b) (near_hits b exclude hs)"
  unfolding near_hits_def sort_key_map
  by (intro arg_cong [where f = "map _"] sort_key_order_cong)
    (auto simp: cand_key_def hit_key_def candidate_of_def dest!: band_distance split: option.split)

lemma sort_lexical_candidates:
  "sort_key cand_key (map (\<lambda>h. candidate_of h None Related) hs) = map (\<lambda>h. candidate_of h None Related) (sort_key hit_id hs)"
  unfolding sort_key_map by (intro arg_cong [where f = "map _"] sort_key_order_cong) (auto simp: cand_key_def candidate_of_def)


section \<open>What searching gives\<close>

lemma join_rows_Cons:
  "join_rows s ((k, d) # hits) = (case select_one (\<lambda>r. row_id r = k) s of
     None \<Rightarrow> join_rows s hits | Some r \<Rightarrow> (r, d) # join_rows s hits)"
  by (simp add: join_rows_def List.map_filter_simps split: option.split)

lemma join_rows_sound:
  "(r, d) \<in> set (join_rows s hits) \<Longrightarrow> r \<in> set (note_rows s) \<and> (row_id r, d) \<in> set hits"
  by (auto simp: join_rows_def List.map_filter_def select_one_def find_Some_iff)

lemma join_rows_distinct:
  assumes "wf_store s" "distinct (map fst hits)"
  shows "distinct (map (\<lambda>(r, d). row_uuid r) (join_rows s hits))"
  using assms(2)
proof (induction hits)
  case (Cons h hits)
  obtain k d where h: "h = (k, d)" by fastforce
  show ?case
  proof (cases "select_one (\<lambda>r. row_id r = k) s")
    case (Some r)
    then have r: "r \<in> set (note_rows s)" "row_id r = k" by (auto simp: select_one_def find_Some_iff)
    have ne: "row_uuid q \<noteq> row_uuid r" if "(q, e) \<in> set (join_rows s hits)" for q e
    proof
      assume same: "row_uuid q = row_uuid r"
      have q: "q \<in> set (note_rows s)" "(row_id q, e) \<in> set hits" using join_rows_sound [OF that] by blast+
      have "distinct (map row_uuid (note_rows s))" using assms(1) by (simp add: wf_store_def wf_keys_def note_uuids_def)
      then have "q = r" using same q(1) r(1) by (auto simp: distinct_map inj_on_def)
      then show False using q(2) r(2) Cons.prems h by (force simp: image_iff)
    qed
    then show ?thesis using Cons h Some by (auto simp: join_rows_Cons dest!: ne)
  qed (use Cons h in \<open>simp add: join_rows_Cons\<close>)
qed (simp add: join_rows_def List.map_filter_simps)

lemma search_rows_sound:
  "(r, d) \<in> set (search_rows X s blob limit as_of) \<Longrightarrow>
   r \<in> set (note_rows s) \<and> live_clause as_of r \<and> (row_id r, d) \<in> set (knn X s blob (min limit 100))"
  using join_rows_sound by (fastforce simp: search_rows_def)

lemma search_rows_distinct:
  assumes "wf_store s" "distinct (map fst (knn X s blob (min limit 100)))"
  shows "distinct (map (\<lambda>(r, d). row_uuid r) (search_rows X s blob limit as_of))"
proof -
  let ?u = "\<lambda>(r, d). row_uuid r"
  have "distinct (map ?u (filter P (join_rows s (knn X s blob (min limit 100)))))" for P
    using distinct_map_filter [OF join_rows_distinct [OF assms]] .
  moreover have "distinct (map f (sort_key k xs)) = distinct (map f xs)" for f :: "notes_row \<times> rat \<Rightarrow> string" and k :: "notes_row \<times> rat \<Rightarrow> rat \<times> string" and xs
    by (simp add: distinct_map)
  ultimately show ?thesis by (simp add: search_rows_def)
qed

lemma hits_of_wf:
  assumes "wf_store s" "fst ` set rs \<subseteq> set (note_rows s)"
  shows "hits_of s rs = Inr (map (\<lambda>(r, d). (view_row s r, d)) rs)"
proof -
  have "notes_of_rows s (map fst rs) = Inr (map (view_row s) (map fst rs))"
    using assms by (intro notes_of_rows_wf) simp_all
  moreover have "zip (map (view_row s) (map fst rs)) (map snd rs) = map (\<lambda>(r, d). (view_row s r, d)) rs"
    by (induction rs) auto
  ultimately show ?thesis by (simp add: hits_of_def)
qed

lemma search_near_wf:
  assumes "wf_store s"
  shows "search_near X s blob limit as_of = Inr (map (\<lambda>(r, d). (view_row s r, d)) (search_rows X s blob limit as_of))"
  unfolding search_near_def by (rule hits_of_wf [OF assms]) (use search_rows_sound in fastforce)

lemma fused_ranks:
  assumes "distinct (map note_id ns)" "note_id ` set ns \<inter> set (map (\<lambda>(m, _). note_id m) acc) = {}"
  shows "fold fuse_step (enumerate i ns) acc = acc @ map (\<lambda>(k, n). (n, reciprocal_rank k)) (enumerate i ns)"
  using assms
proof (induction ns arbitrary: i acc)
  case (Cons n ns)
  have step: "fuse_step (i, n) acc = acc @ [(n, reciprocal_rank i)]"
    using Cons.prems(2) by (auto simp: fuse_step_def)
  have "note_id ` set ns \<inter> set (map (\<lambda>(m, _). note_id m) (acc @ [(n, reciprocal_rank i)])) = {}"
    using Cons.prems by (auto simp: image_iff)
  then show ?case using Cons by (simp add: step)
qed simp

lemma ranks_sorted:
  "sorted (map (\<lambda>(n, x). (- x, note_id n)) (map (\<lambda>(k, n). (n, reciprocal_rank k)) (enumerate i ns)))"
proof -
  have less: "reciprocal_rank (i + k) < reciprocal_rank (i + j)" if "j < k" for j k
    using that by (simp add: reciprocal_rank_def RRF_K_def frac_less2)
  have "sorted_wrt (\<le>) (map (\<lambda>(k, n). (- reciprocal_rank k, note_id n)) (enumerate i ns))"
    unfolding sorted_wrt_iff_nth_less using less by (auto simp: nth_enumerate_eq less_eq_prod_def)
  then show ?thesis by (simp add: split_def comp_def)
qed

lemma take_enumerate: "take n (enumerate 0 xs) = enumerate 0 (take n xs)"
  by (rule nth_equalityI) (simp_all add: nth_enumerate_eq)

lemma enumerate_map: "enumerate k (map f xs) = map (\<lambda>(i, x). (i, f x)) (enumerate k xs)"
  by (induction xs arbitrary: k) simp_all

text \<open>
  The hybrid search ranks by distance. Fusing reciprocal ranks over the one list of vector hits
  changes nothing of their order: of a well-formed store the search returns the live rows nearest to
  the query, those within the distance of relevance if the gate is on, nearest first and at most as
  many as asked for, each with the score of its rank.
\<close>

theorem hybrid_ranks_by_distance:
  assumes "wf_store s" "distinct (map fst (knn X s blob (min (max (limit * 3) 20) 100)))"
  shows "search_hybrid X s blob limit as_of gate =
    Inr (map (\<lambda>(k, r, d). (view_row s r, 61 + of_nat k, 1 / (61 + of_nat k))) (enumerate 0 (take limit
      (filter (\<lambda>(r, d). \<not> gate \<or> d \<le> MEMORY_MAX_QA_DISTANCE) (search_rows X s blob (max (limit * 3) 20) as_of)))))"
proof -
  let ?rows = "filter (\<lambda>(r, d). \<not> gate \<or> d \<le> MEMORY_MAX_QA_DISTANCE) (search_rows X s blob (max (limit * 3) 20) as_of)"
  let ?ns = "map (\<lambda>(r, d). view_row s r) ?rows"
  have ids: "distinct (map note_id ?ns)"
    using distinct_map_filter [OF search_rows_distinct [OF assms, of as_of], of "\<lambda>(r, d). \<not> gate \<or> d \<le> MEMORY_MAX_QA_DISTANCE"]
    by (simp add: view_row_def split_def comp_def)
  have admitted: "map fst (if gate then filter (\<lambda>(n, d). d \<le> MEMORY_MAX_QA_DISTANCE) hs else hs) = ?ns"
    if "hs = map (\<lambda>(r, d). (view_row s r, d)) (search_rows X s blob (max (limit * 3) 20) as_of)" for hs
    by (simp add: that filter_map comp_def split_def)
  have "fused ?ns = map (\<lambda>(k, n). (n, reciprocal_rank k)) (enumerate 0 ?ns)"
    using fused_ranks [OF ids, of "[]" 0] by (simp add: fused_def)
  then have ranked: "sort_key (\<lambda>(n, x). (- x, note_id n)) (fused ?ns) = map (\<lambda>(k, n). (n, reciprocal_rank k)) (enumerate 0 ?ns)"
    by (simp only: sort_key_id_if_sorted [OF ranks_sorted])
  show ?thesis
    unfolding search_hybrid_def search_near_wf [OF assms(1)] and_then_simps Let_def admitted [OF refl] ranked
    by (simp add: take_map take_enumerate enumerate_map reciprocal_rank_def RRF_K_def split_def comp_def)
qed

section \<open>What may block a write\<close>

lemma title_rows_distinct:
  assumes "wf_store s" "distinct (map fst hits)"
  shows "distinct (map row_uuid (map fst (take n (sort_key score_order (filter P (join_rows s hits))))))"
proof -
  let ?u = "\<lambda>(r, d :: rat). row_uuid r"
  have "distinct (map ?u (filter P (join_rows s hits)))" using distinct_map_filter [OF join_rows_distinct [OF assms]] .
  then have "distinct (map ?u (sort_key score_order (filter P (join_rows s hits))))" by (simp add: distinct_map)
  then have "distinct (map ?u (take n (sort_key score_order (filter P (join_rows s hits)))))"
    by (simp add: take_map [symmetric] distinct_take)
  then show ?thesis by (simp add: split_def comp_def)
qed

lemma title_fts_wf:
  assumes "wf_store s"
  shows "search_title_fts X s title limit = Inr (map (view_row s) (map fst (take (min limit 1000) (sort_key score_order
    (filter (\<lambda>(r, d). row_status r = ''active'') (join_rows s (title_matches X s (fts5_quote_literal title))))))))"
  unfolding search_title_fts_def
  by (rule notes_of_rows_wf [OF assms]) (use join_rows_sound in \<open>fastforce dest!: in_set_takeD\<close>)

lemma classified_duplicate:
  assumes "distinct (map hit_id vs)" "distinct (map hit_id fs)" "c \<in> set (classify_candidates vs fs exclude)" "cand_band c = Duplicate"
  shows "\<exists>h d. h \<in> set vs \<and> hit_id h = cand_id c \<and> hit_distance h = Some d \<and> d < MEMORY_DUPLICATE_DISTANCE"
proof -
  let ?V = "List.map_filter (vector_candidate exclude) vs"
  have "c \<in> set (fold (insert_fts_hit exclude) fs (fold (insert_vector_hit exclude) vs []))"
    using assms(3) by (auto simp: classify_candidates_def Let_def top_of_band_def dest!: in_set_takeD)
  then have "c \<in> set ?V" using insert_vector_hits [OF assms(1), of "[]" exclude] insert_fts_hits [OF assms(2), of exclude ?V] assms(4)
    by (auto simp: candidate_of_def)
  then obtain h where h: "h \<in> set vs" "vector_candidate exclude h = Some c" by (auto simp: List.map_filter_def)
  then obtain b where "band_of (hit_distance h) = Some b" "c = candidate_of h (hit_distance h) b"
    by (auto simp: vector_candidate_def split: if_splits)
  moreover from this have "b = Duplicate" using assms(4) by (simp add: candidate_of_def)
  ultimately show ?thesis using h(1)
    by (cases "hit_distance h") (auto simp: band_of_def candidate_of_def split: if_splits)
qed

text \<open>
  C3. Only a near active entry blocks a write. Of a well-formed store the candidates of a new entry
  are always found; each that counts as a duplicate is an active entry whose vector is among the
  twenty nearest and closer than the duplicate distance, so that without a vector nothing blocks.
\<close>

theorem only_near_entries_block:
  assumes "wf_store s" "\<And>blob. distinct (map fst (knn X s blob 20))" "distinct (map fst (title_matches X s (fts5_quote_literal title)))"
  shows "case find_candidates X s embedding title exclude of Inl _ \<Rightarrow> False
    | Inr cs \<Rightarrow> list_all (\<lambda>c. cand_band c = Duplicate \<longrightarrow> (case embedding of None \<Rightarrow> False
        | Some blob \<Rightarrow> list_ex (\<lambda>r. row_uuid r = cand_id c \<and> row_status r = ''active'' \<and>
            list_ex (\<lambda>(k, d). k = row_id r \<and> d < MEMORY_DUPLICATE_DISTANCE) (knn X s blob 20)) (note_rows s))) cs"
proof -
  define near where "near = (case embedding of None \<Rightarrow> [] | Some blob \<Rightarrow> search_rows X s blob CANDIDATE_POOL None)"
  define titled where "titled = map fst (take (min CANDIDATE_POOL 1000) (sort_key score_order
    (filter (\<lambda>(r, d). row_status r = ''active'') (join_rows s (title_matches X s (fts5_quote_literal title))))))"
  let ?vs = "map (\<lambda>(n, d). to_hit n (Some d)) (map (\<lambda>(r, d). (view_row s r, d)) near)"
  let ?fs = "map (\<lambda>n. to_hit n None) (map (view_row s) titled)"
  have found: "find_candidates X s embedding title exclude = Inr (classify_candidates ?vs ?fs exclude)"
    unfolding find_candidates_def title_fts_wf [OF assms(1)] titled_def near_def
    by (cases embedding) (simp_all add: search_near_wf [OF assms(1)])
  have "distinct (map (\<lambda>(r, d). row_uuid r) near)"
    using search_rows_distinct [OF assms(1)] assms(2) by (auto simp: near_def CANDIDATE_POOL_def split: option.split)
  then have vs: "distinct (map hit_id ?vs)" by (simp add: to_hit_def view_row_def split_def comp_def)
  have "distinct (map row_uuid titled)" unfolding titled_def by (rule title_rows_distinct [OF assms(1,3)])
  then have fs: "distinct (map hit_id ?fs)" by (simp add: to_hit_def view_row_def comp_def)
  have "case embedding of None \<Rightarrow> False
        | Some blob \<Rightarrow> list_ex (\<lambda>r. row_uuid r = cand_id c \<and> row_status r = ''active'' \<and>
            list_ex (\<lambda>(k, d). k = row_id r \<and> d < MEMORY_DUPLICATE_DISTANCE) (knn X s blob 20)) (note_rows s)"
    if c: "c \<in> set (classify_candidates ?vs ?fs exclude)" "cand_band c = Duplicate" for c
  proof -
    obtain h d where h: "h \<in> set ?vs" "hit_id h = cand_id c" "hit_distance h = Some d" "d < MEMORY_DUPLICATE_DISTANCE"
      using classified_duplicate [OF vs fs c] by blast
    then obtain r where r: "(r, d) \<in> set near" "row_uuid r = cand_id c" by (auto simp: to_hit_def view_row_def)
    then obtain blob where blob: "embedding = Some blob" by (cases embedding) (simp_all add: near_def)
    from r have "r \<in> set (note_rows s) \<and> live_clause None r \<and> (row_id r, d) \<in> set (knn X s blob 20)"
      using search_rows_sound [of r d X s blob CANDIDATE_POOL None] by (simp add: near_def blob CANDIDATE_POOL_def)
    then show ?thesis using r(2) h(4) by (force simp: blob list_ex_iff live_clause_def)
  qed
  then show ?thesis by (simp add: found list_all_iff)
qed

text \<open>
  The nearest neighbours are counted before archived rows are left out: with twenty archived rows
  nearer than it, an active entry of the same content is no candidate.
\<close>

lemma archived_rows_take_the_places:
  assumes "\<And>r d. r \<in> set (note_rows s) \<Longrightarrow> (row_id r, d) \<in> set (knn X s blob 20) \<Longrightarrow> row_status r = ''archived''"
  shows "search_rows X s blob CANDIDATE_POOL None = []"
proof -
  have False if "(r, d) \<in> set (search_rows X s blob CANDIDATE_POOL None)" for r d
    using search_rows_sound [OF that] assms [of r d] by (simp add: live_clause_def CANDIDATE_POOL_def)
  then show ?thesis by (cases "search_rows X s blob CANDIDATE_POOL None") fastforce+
qed

section \<open>Examples\<close>

text \<open>One entry is nearly the query, the other far from it; the title matches the second.\<close>

definition demo_index :: search_index where
  "demo_index = \<lparr>knn = \<lambda>s blob k. take k [(1, 1 / 10), (2, 1)], title_matches = \<lambda>s q. [(2, -1)],
     text_matches = \<lambda>s q. []\<rparr>"

definition demo_hit :: "string \<Rightarrow> rat option \<Rightarrow> candidate_hit" where
  "demo_hit i d = \<lparr>hit_id = i, hit_kind = ''note'', hit_title = i, hit_created_at = 0, hit_distance = d\<rparr>"


theorem hybrid_ranks_by_distance_witness:
  "search_hybrid demo_index two_notes ''q'' 1 None True =
     Inr [(view_row two_notes (note_rows two_notes ! 0), 61, 1 / 61)]"
proof -
  have "distinct (map fst (knn demo_index two_notes ''q'' (min (max (1 * 3) 20) 100)))" by (simp add: demo_index_def)
  from hybrid_ranks_by_distance [OF wf_two_notes this, of None True] show ?thesis
    by (simp add: search_rows_def join_rows_def select_one_def List.map_filter_simps demo_index_def two_notes_def
      new_row_def live_clause_def score_order_def MEMORY_MAX_QA_DISTANCE_def)
qed

theorem only_near_entries_block_witness:
  "case find_candidates demo_index two_notes (Some ''q'') ''B'' None of Inl _ \<Rightarrow> False
   | Inr cs \<Rightarrow> map (\<lambda>c. (cand_id c, cand_band c)) cs = [(''u1'', Duplicate), (''u2'', Related)]"
proof -
  have "distinct (map fst (knn demo_index two_notes blob 20))"
    "distinct (map fst (title_matches demo_index two_notes (fts5_quote_literal ''B'')))" for blob
    by (simp_all add: demo_index_def)
  from only_near_entries_block [OF wf_two_notes this, of "Some ''q''" None]
  obtain cs where cs: "find_candidates demo_index two_notes (Some ''q'') ''B'' None = Inr cs"
    by (auto split: sum.splits)
  have "map_sum id (map (\<lambda>c. (cand_id c, cand_band c))) (find_candidates demo_index two_notes (Some ''q'') ''B'' None) =
      Inr [(''u1'', Duplicate), (''u2'', Related)]" by code_simp
  then show ?thesis by (simp add: cs)
qed

end
