(* ===== verification/Spec2Isabelle.thy ===== *)
theory Spec2Isabelle
  imports Fold Dedupe_Run Registry_Run Team_Service Rate_Limiter Memory_Migrate Dump_Import Notes_Demo Reconcile Anchors Memory_Search
begin

text \<open>
  Verification of the memory of inkentry: decisions, constraints and other entries a project keeps
  beside its code, shared between clones through git notes, through a team server and through
  portable dumps, and kept in a local SQLite store. Paths below are relative to \<open>src/crates/\<close>; paths
  under \<open>storage/\<close> are those of \<open>inkentry-core/src/storage/\<close>.

  The parts and how they meet. An entry's identity is a hash of its kind, title and body, so the same
  content recorded on two machines is one entry. The local store holds one row per entry with its
  tags, linked files, edges, origin and the id a team server gave it. Three ways lead out of it and
  back: the notes ref of git, an append-only log of JSON lines whose copies of one entry are folded
  on reading, united by a line-wise merge; the team server, whose delta feed is pulled and to which
  pending rows are pushed, directly or through a relay in the local daemon that buffers both
  directions; dumps, written once and imported into other stores. The server stores the entries of
  several projects, mints time-ordered ids, limits its callers and repairs missing vectors.

  Conventions. A Rust \<open>Result\<close> is a sum (\<open>Inl\<close> the error), \<open>Option\<close> an option, a panic \<open>None\<close> or an
  error of its own. A stateful operation is a function from a state to the new state and a result
  (theory Effect); a failed operation keeps what it wrote before unless the code runs it in a
  transaction, which restores the state. Tables are lists of records in the order of their row ids;
  keys, foreign keys, cascades and \<open>ON CONFLICT\<close> are written out in the operations. Strings are
  lists of characters (bytes); integers stay unbounded where the code cannot reach their limits and
  are bounded, saturated or refused where it can (durations, sizes in a \<open>cat-file\<close> header, record
  ids, ports).

  \<^bold>\<open>Shared ground.\<close>
  \<^item> Prelude, Rust_Str, Effect: results, first occurrences, lists without repeats; the functions of
    \<open>str\<close> the program calls; the sequencing of operations, transactions, loops over lists, and the
    rules by which an operation keeps an invariant or only grows the state.
  \<^item> Interfaces: the contracts as locales: a join of copies, an invariant of a transition system, a
    relation kept by steps, a bounded buffer drained by acknowledgement. Each is interpreted on the
    model in the theory that provides it.

  \<^bold>\<open>Entries and the carrier.\<close>
  \<^item> Identity (\<open>storage/entity_id.rs\<close>, \<open>note_kind.rs\<close>, \<open>origin.rs\<close>, \<open>memory/uuid_v7.rs\<close>), Tags and
    File_Links (\<open>storage/memory/tags.rs\<close>, \<open>file_links.rs\<close>), Note_Record (\<open>storage/note_record.rs\<close>):
    what identifies an entry, its normalised tags, the paths that stay under the project root.
  \<^item> Fold (\<open>storage/git_notes/fold.rs\<close>): the fold gives one record per entity; the fields of a join
    do not depend on the order, the others do not when ties agree; a later update keeps the base.
  \<^item> Notes_Carrier (\<open>storage/git_notes/mod.rs\<close>, \<open>lock.rs\<close>, \<open>publish.rs\<close>, \<open>backend_impl.rs\<close>): the lock
    with its budget, the read-modify-write of a note, the batch append, listing and reading the ref,
    the backend over it, merging and publishing. Git, the file lock and the clock are a record of
    functions over an abstract world.
  \<^item> Anchors (\<open>inkentry-cli/src/cli/cmd/memory/anchor.rs\<close>): a commit claims the pending entries written
    on it and no others; after a rewrite they follow the one commit with the same patch.
  \<^item> Notes_Writers, Notes_Append, Notes_Publish: what git documents, as laws; concurrent writers as
    an inductive step relation in which any process may stop at any point, with the invariant that
    no line is lost; the texts git prints and their parsing; the batch that is appended once; the
    wait that ends; publishing. Notes_Demo instantiates the laws with a small repository.

  \<^bold>\<open>The local store.\<close>
  \<^item> Store, Notes, Edges, Sync (\<open>storage/memory/\<close> \<open>mod.rs\<close>, \<open>notes.rs\<close>, \<open>edges.rs\<close>, \<open>anchors.rs\<close>,
    \<open>import_state.rs\<close>, \<open>sync.rs\<close>, \<open>import.rs\<close>): the tables, their well-formedness (\<open>wf_store\<close>, kept
    by every operation) and growth (\<open>grows\<close>: no row, tag, path, edge or archival is taken back);
    adding converges on content, superseding is atomic, pulled and imported entries are applied once.
  \<^item> Memory_Search (\<open>storage/memory/search.rs\<close>): the searches of the store and the candidates of a new
    entry; only a near active entry blocks a write, and fusing one ranking keeps its order.
  \<^item> Dedupe, Dedupe_Run (\<open>storage/memory/dedupe/mod.rs\<close>): the plan, the dry run and the run; what
    survives is the earliest entry of every content with the union of the copies.
  \<^item> Migration_Ladder, Memory_Migrate (\<open>storage/migration_ladder.rs\<close>, \<open>migrations\<close>): any interleaving
    of openers climbs the ladder like one pass; opening ends at the current shape or changes nothing
    but whole steps.
  \<^item> Dump_Reader, Dump_Collapse, Dump_Import (\<open>inkentry-core/src/dump/\<close>, the registry's \<open>register\<close> and
    \<open>add_dep\<close>): the checks of a dump, the collapse of copies, the import into three stores with its
    partial commits; importing again lands everything once.
  \<^item> Notes_Import, Reconcile (\<open>inkentry-cli/src/cli/cmd/memory/reconcile.rs\<close>): the import of the notes
    ref before a read and the import of a local server's entries, each in one transaction.

  \<^bold>\<open>The team server, its clients and the relay.\<close>
  \<^item> Sync_Client, Sync_Round, Sync_Converge, Push_Drain (\<open>storage/remote/sync.rs\<close>, \<open>retry.rs\<close>,
    \<open>memory/sync/\<close>): requests as data, the bounded retry loop, draining the feed, pushing in chunks,
    the round. Against a server that answers as its contract says, a pull misses nothing and a push
    leaves nothing pending.
  \<^item> Team_Db, Team_Handlers, Team_Repair, Team_Run, Team_Push, Team_Service (\<open>inkentry-server/src/\<close>
    \<open>db.rs\<close>, \<open>handlers/\<close>, \<open>repair.rs\<close>): the server's tables and requests, their invariant over any
    order of requests and sweeps, and the proof that this server meets the contract of its clients,
    also while others write.
  \<^item> Rate_Limiter, Transport (\<open>rate_limiter.rs\<close>, \<open>config/predicates.rs\<close>, \<open>client_ip.rs\<close>): who is
    refused, whose request it is, and which URL may carry a bearer token.
  \<^item> Relay, Relay_Run, Relay_Registry, Registry_Run (\<open>inkentry-server/src/relay/\<close>) and Outbox
    (\<open>memory/outbox.rs\<close>): a session's buffers and cursor, the registry and its policy, both as step
    relations; the command line acknowledges only what it applied.

  \<^bold>\<open>Fuel and bounds.\<close> \<open>LOCK_POLLS\<close> (501) covers the 500 sleeps of ten milliseconds of the five-second
  budget (\<open>lock_wait_ends\<close>); a read of a note is tried \<open>NOTE_READ_ATTEMPTS\<close> (4) times and a push
  \<open>MAX_PUSH_ATTEMPTS\<close> (3) times by the code itself; the frames of \<open>cat-file\<close> get the length of the
  text, of which every frame takes a part; the drain of the feed and the repair sweep are given a
  bound that the theorems about them show to be enough; the retry loop stops by its policy
  (\<open>retrying_is_bounded\<close>).

  \<^bold>\<open>Parameters.\<close> What is not under \<open>src/\<close> is an argument: SHA-256, Unicode normalisation and lower
  case, the UUID's entropy, JSON, git, the file system, clocks, the embedder, and on the client's
  side the server. The laws used of them are named (\<open>git_adds\<close>, \<open>codec_sound\<close>, \<open>mints_ids\<close>, ...) and
  every theorem that needs one has a witness with a concrete function.

  \<^bold>\<open>Not modelled.\<close> The writer of a dump; the refspecs of \<open>refs.rs\<close>; full-text and vector search of the
  team server; reading and merging configuration; the code index with its parsers; embedding back
  ends and language models; start-up, probing, printing and the argument parser of the command
  line. These are input and output, calls of a library or service, or another subject than the
  memory.
\<close>

end
